(* ===== verification/Andara_Prelude.thy ===== *)
theory Andara_Prelude
  imports
    "HOL-Library.Word"
    "HOL-Library.Finite_Map"
    "HOL-Library.List_Lexorder"
    "HOL-Library.Char_ord"
    "HOL-Library.Multiset"
begin

text \<open>
  Shared vocabulary of the Andara development: the Go scalar types as words and byte strings,
  Go maps as finite maps visited in key order, decimal rendering as \<^verbatim>\<open>strconv\<close> does it, and the
  generic list, map and word lemmas the components use.

  A Go \<^verbatim>\<open>string\<close> or \<^verbatim>\<open>[]byte\<close> is a \<^typ>\<open>string\<close>: HOL characters are bytes, and the
  lexicographic order of lists over \<open>Char_ord\<close> is Go's bytewise string comparison, so
  \<^const>\<open>sort\<close> on strings is \<^verbatim>\<open>sort.Strings\<close>. A Go map is a \<^typ>\<open>('k, 'v) fmap\<close>; the code
  never relies on map order, it collects the keys and sorts them, which is \<open>keys\<close> here.
\<close>

unbundle bit_operations_syntax

type_synonym u64 = "64 word"
type_synonym u32 = "32 word"
type_synonym bytes = string

text \<open>\<^verbatim>\<open>Time.Sub\<close>, in nanoseconds: the difference is saturated to 64 bits.\<close>

definition time_Sub :: "int \<Rightarrow> int \<Rightarrow> int" where
  "time_Sub now at = max (- (2 ^ 63)) (min (2 ^ 63 - 1) (now - at))"

named_theorems canon_simps \<open>unfolding rules of the canonical encoders\<close>
named_theorems handler_defs \<open>definitions of the tick's handlers and their helpers\<close>
named_theorems frame_simps \<open>what a state update leaves unchanged\<close>

section \<open>Maps visited in key order\<close>

definition keys :: "('k::linorder, 'v) fmap \<Rightarrow> 'k list" where
  "keys m = sorted_list_of_fset (fmdom m)"

definition entries :: "('k::linorder, 'v) fmap \<Rightarrow> ('k \<times> 'v) list" where
  "entries m = sorted_list_of_fmap m"

lemma set_keys [simp]: "set (keys m) = fmdom' m"
  by (simp add: keys_def fmdom'_alt_def)

lemma sorted_keys [simp]: "sorted (keys m)"
  by (simp add: keys_def sorted_list_of_fset.rep_eq)

lemma distinct_keys [simp]: "distinct (keys m)"
  by (simp add: keys_def sorted_list_of_fset.rep_eq)

lemma strict_sorted_keys [simp]: "sorted_wrt (<) (keys m)"
  by (simp add: strict_sorted_iff)

lemma keys_fmempty [simp]: "keys fmempty = []"
  by (simp add: keys_def sorted_list_of_fset.rep_eq)

lemma keys_unique: "sorted xs \<Longrightarrow> distinct xs \<Longrightarrow> set xs = fmdom' m \<Longrightarrow> keys m = xs"
  by (metis distinct_keys set_keys sorted_distinct_set_unique sorted_keys)

lemma keys_fmap_of_list [code]: "keys (fmap_of_list xs) = sort (remdups (map fst xs))"
  by (rule keys_unique) (simp_all add: fmdom'_alt_def fset_of_list.rep_eq)

lemma keys_fmupd: "keys (fmupd k v m) = (if k |\<in>| fmdom m then keys m else insort k (keys m))"
proof (rule keys_unique)
  show "set (if k |\<in>| fmdom m then keys m else insort k (keys m)) = fmdom' (fmupd k v m)"
    by (auto simp: set_insort_key fmdom'_alt_def)
qed (auto simp: sorted_insort distinct_insort fmdom'_alt_def)

lemma keys_fmdrop: "keys (fmdrop k m) = filter (\<lambda>x. x \<noteq> k) (keys m)"
  by (rule keys_unique) (auto simp: sorted_filter[where f = "\<lambda>x. x", simplified])

lemma entries_keys: "entries m = map (\<lambda>k. (k, the (fmlookup m k))) (keys m)"
  by (simp add: entries_def sorted_list_of_fmap_def keys_def)

lemma map_fst_entries [simp]: "map fst (entries m) = keys m"
  by (simp add: entries_keys comp_def)

lemma map_of_entries [simp]: "map_of (entries m) = fmlookup m"
  by (simp add: entries_def)

lemma set_entries: "(k, v) \<in> set (entries m) \<longleftrightarrow> fmlookup m k = Some v"
  by (metis distinct_keys map_fst_entries map_of_eq_Some_iff map_of_entries)

lemma entries_inject: "entries m = entries m' \<longleftrightarrow> m = m'"
  by (metis fmap_ext map_of_entries)

lemma entries_fmempty [simp]: "entries fmempty = []"
  by (simp add: entries_keys)

lemma fmap_of_entries [simp]: "fmap_of_list (entries m) = m"
  by (rule fmap_ext) (simp add: fmap_of_list.rep_eq)

lemma fmdom'_lookup: "k \<in> fmdom' m \<longleftrightarrow> fmlookup m k \<noteq> None"
  by (auto simp: fmlookup_dom'_iff)

section \<open>Decimal rendering\<close>

text \<open>\<^verbatim>\<open>strconv.FormatUint(n, 10)\<close> and \<^verbatim>\<open>strconv.FormatInt(n, 10)\<close>.\<close>

definition digit_char :: "nat \<Rightarrow> char" where
  "digit_char d = char_of (48 + d)"

fun FormatNat :: "nat \<Rightarrow> string" where
  "FormatNat n = (if n < 10 then [digit_char n] else FormatNat (n div 10) @ [digit_char (n mod 10)])"

declare FormatNat.simps [simp del]

definition FormatUint :: "'a::len word \<Rightarrow> string" where
  "FormatUint w = FormatNat (unat w)"

definition FormatInt :: "int \<Rightarrow> string" where
  "FormatInt i = (if i < 0 then CHR ''-'' # FormatNat (nat (- i)) else FormatNat (nat i))"

definition FormatBool :: "bool \<Rightarrow> string" where
  "FormatBool b = (if b then ''true'' else ''false'')"

fun parse_digits :: "nat \<Rightarrow> string \<Rightarrow> nat" where
  "parse_digits acc [] = acc"
| "parse_digits acc (c # cs) = parse_digits (10 * acc + (of_char c - 48)) cs"

lemma parse_digits_append: "parse_digits a (xs @ ys) = parse_digits (parse_digits a xs) ys"
  by (induction xs arbitrary: a) auto

lemma of_char_digit: "d < 10 \<Longrightarrow> of_char (digit_char d) = 48 + d"
  by (simp add: digit_char_def)

lemma parse_FormatNat: "parse_digits 0 (FormatNat n) = n"
proof (induction n rule: FormatNat.induct)
  case (1 n)
  show ?case
  proof (cases "n < 10")
    case True
    then show ?thesis by (subst FormatNat.simps) (simp add: of_char_digit)
  next
    case False
    with 1 have "parse_digits 0 (FormatNat (n div 10)) = n div 10" by simp
    with False show ?thesis
      by (subst FormatNat.simps) (simp add: parse_digits_append of_char_digit)
  qed
qed

lemma FormatNat_inject [simp]: "FormatNat m = FormatNat n \<longleftrightarrow> m = n"
  by (metis parse_FormatNat)

lemma FormatNat_digits: "c \<in> set (FormatNat n) \<Longrightarrow> 48 \<le> (of_char c :: nat) \<and> (of_char c :: nat) \<le> 57"
proof (induction n rule: FormatNat.induct)
  case (1 n)
  show ?case
  proof (cases "n < 10")
    case True
    with "1.prems" show ?thesis by (subst (asm) FormatNat.simps) (auto simp: of_char_digit)
  next
    case False
    with "1.prems" consider "c \<in> set (FormatNat (n div 10))" | "c = digit_char (n mod 10)"
      by (subst (asm) FormatNat.simps) auto
    then show ?thesis
    proof cases
      case 1
      with False "1.IH" show ?thesis by simp
    next
      case 2
      then show ?thesis by (simp add: of_char_digit)
    qed
  qed
qed

lemma FormatNat_neq_Nil [simp]: "FormatNat n \<noteq> []"
  by (subst FormatNat.simps) simp

lemma FormatUint_inject [simp]: "FormatUint v = FormatUint w \<longleftrightarrow> v = w"
  by (simp add: FormatUint_def word_unat_eq_iff)

lemma minus_neq_FormatNat: "CHR ''-'' # s \<noteq> FormatNat n"
proof
  assume "CHR ''-'' # s = FormatNat n"
  then have "CHR ''-'' \<in> set (FormatNat n)" by (metis list.set_intros(1))
  then have "48 \<le> (of_char (CHR ''-'') :: nat)" using FormatNat_digits by blast
  then show False by simp
qed

lemma FormatInt_inject [simp]: "FormatInt i = FormatInt j \<longleftrightarrow> i = j"
  using minus_neq_FormatNat by (auto simp: FormatInt_def dest: sym)

lemma FormatBool_inject [simp]: "FormatBool a = FormatBool b \<longleftrightarrow> a = b"
  by (simp add: FormatBool_def)

section \<open>Sorting by key\<close>

lemma filter_eq_singleton: "distinct xs \<Longrightarrow> k \<in> set xs \<Longrightarrow> filter ((=) k) xs = [k]"
  by (induction xs) (auto simp: filter_empty_conv)

lemma distinct_map_sort_key: "distinct (map f (sort_key g xs)) \<longleftrightarrow> distinct (map f xs)"
proof -
  have "mset (map f (sort_key g xs)) = mset (map f xs)" by simp
  then show ?thesis by (rule mset_eq_imp_distinct_iff)
qed

lemma sort_key_eqI:
  assumes d: "distinct (map f xs)" "distinct (map f ys)" and eq: "set xs = set ys"
  shows "sort_key f xs = sort_key f ys"
proof (rule properties_for_sort_key)
  have inj: "inj_on f (set ys)" using d(2) by (simp add: distinct_map)
  have dist: "distinct xs" "distinct ys" using d by (simp_all add: distinct_map)
  then show "mset (sort_key f ys) = mset xs" using eq
    by (simp add: set_eq_iff_mset_eq_distinct)
  show "filter (\<lambda>x. f k = f x) (sort_key f ys) = filter (\<lambda>x. f k = f x) xs" if "k \<in> set (sort_key f ys)" for k
  proof -
    from that eq have k: "k \<in> set xs" by simp
    have "filter (\<lambda>x. f k = f x) zs = filter ((=) k) zs" if "set zs = set ys" for zs
      using inj k eq that by (intro filter_cong) (auto dest: inj_onD)
    moreover have "filter ((=) k) (sort_key f ys) = [k]" "filter ((=) k) xs = [k]"
      using dist k eq by (simp_all add: filter_eq_singleton)
    ultimately show ?thesis using eq by simp
  qed
qed simp

end
