(* ===== verification/Topology.thy ===== *)
theory Topology
  imports Andara_Prelude
begin

text \<open>
  The immutable content of a World: identities, Directions, Components and their closed registry,
  Rooms, Exits, Zones, and the Zone-to-Partition map (\<^verbatim>\<open>server/sim/world.go\<close>,
  \<^verbatim>\<open>direction.go\<close>, \<^verbatim>\<open>component.go\<close>, \<^verbatim>\<open>partition.go\<close>, and the Component messages of
  \<^verbatim>\<open>content/v1/zone.proto\<close>). Identities are strings, as in the code. An \<^verbatim>\<open>int64\<close> field value
  is an \<^typ>\<open>int\<close>: the code stores, compares and prints it and never does arithmetic on it.
\<close>

type_synonym EntityID = string
type_synonym ZoneID = string
type_synonym RoomID = string
type_synonym Direction = string
type_synonym ComponentType = string
type_synonym TemplateRef = string

section \<open>Directions\<close>

definition canonicalDirections :: "Direction list" where
  "canonicalDirections =
     [''north'', ''northeast'', ''east'', ''southeast'', ''south'', ''southwest'', ''west'', ''northwest'',
      ''up'', ''down'', ''in'', ''out'']"

definition directionReverse :: "(Direction \<times> Direction) list" where
  "directionReverse =
     [(''north'', ''south''), (''south'', ''north''), (''east'', ''west''), (''west'', ''east''),
      (''northeast'', ''southwest''), (''southwest'', ''northeast''),
      (''northwest'', ''southeast''), (''southeast'', ''northwest''),
      (''up'', ''down''), (''down'', ''up''), (''in'', ''out''), (''out'', ''in'')]"

definition Reverse :: "Direction \<Rightarrow> Direction option" where
  "Reverse d = map_of directionReverse d"

definition Valid :: "Direction \<Rightarrow> bool" where
  "Valid d \<longleftrightarrow> Reverse d \<noteq> None"

section \<open>Components\<close>

datatype FieldKind = FieldUnset | FieldString | FieldInt | FieldBool

definition FieldKind_String :: "FieldKind \<Rightarrow> string" where
  "FieldKind_String k = (case k of FieldString \<Rightarrow> ''string'' | FieldInt \<Rightarrow> ''int''
     | FieldBool \<Rightarrow> ''bool'' | FieldUnset \<Rightarrow> ''unset'')"

record ComponentField =
  cf_Name :: string
  cf_Kind :: FieldKind
  cf_Str :: string
  cf_Int :: int
  cf_Bool :: bool

definition Value :: "ComponentField \<Rightarrow> string" where
  "Value f = (case cf_Kind f of FieldString \<Rightarrow> cf_Str f | FieldInt \<Rightarrow> FormatInt (cf_Int f)
     | FieldBool \<Rightarrow> FormatBool (cf_Bool f) | FieldUnset \<Rightarrow> '''')"

record Component =
  comp_Type :: ComponentType
  comp_Fields :: "ComponentField list"

definition Component_Field :: "Component \<Rightarrow> string \<Rightarrow> ComponentField option" where
  "Component_Field c name = find (\<lambda>f. cf_Name f = name) (comp_Fields c)"

definition findComponent :: "Component list \<Rightarrow> ComponentType \<Rightarrow> Component option" where
  "findComponent cs t = find (\<lambda>c. comp_Type c = t) cs"

definition componentRegistry :: "(ComponentType \<times> (string \<times> FieldKind) list) list" where
  "componentRegistry =
     [(''andara.core.Dark'', []), (''andara.core.NoMagic'', []), (''andara.core.Indoors'', []),
      (''andara.core.NoRecall'', []), (''andara.core.Behavior'', [(''name'', FieldString)]),
      (''andara.core.Memory'', [])]"

definition KnownComponentType :: "ComponentType \<Rightarrow> bool" where
  "KnownComponentType t \<longleftrightarrow> map_of componentRegistry t \<noteq> None"

definition ComponentFieldKind :: "ComponentType \<Rightarrow> string \<Rightarrow> FieldKind option" where
  "ComponentFieldKind t field = (case map_of componentRegistry t of None \<Rightarrow> None | Some spec \<Rightarrow> map_of spec field)"

definition ComponentFieldNames :: "ComponentType \<Rightarrow> string list" where
  "ComponentFieldNames t = (case map_of componentRegistry t of None \<Rightarrow> [] | Some spec \<Rightarrow> sort (map fst spec))"

definition ComponentTypes :: "ComponentType list" where
  "ComponentTypes = sort (map fst componentRegistry)"

text \<open>
  The order every reader of a Component set may assume: by type, and each set's fields by name.
  \<^verbatim>\<open>sort.Slice\<close> is not stable; on distinct keys, which the loader enforces, a sort by key is
  unique, and on the others the model takes the stable one.
\<close>

definition sortFields :: "Component \<Rightarrow> Component" where
  "sortFields c = c\<lparr>comp_Fields := sort_key cf_Name (comp_Fields c)\<rparr>"

definition sortComponents :: "Component list \<Rightarrow> Component list" where
  "sortComponents cs = map sortFields (sort_key comp_Type cs)"

text \<open>The wire form of a Component: \<^verbatim>\<open>content.v1.ComponentValue\<close> with its oneof.\<close>

datatype pb_value = NoValue | StringValue string | IntValue int | BoolValue bool

record pb_ComponentField =
  pbf_Name :: string
  pbf_Value :: pb_value

record pb_ComponentValue =
  pbc_Type :: string
  pbc_Fields :: "pb_ComponentField list"

definition fieldValue :: "pb_ComponentField \<Rightarrow> ComponentField" where
  "fieldValue fd =
     (let f = \<lparr>cf_Name = pbf_Name fd, cf_Kind = FieldUnset, cf_Str = '''', cf_Int = 0, cf_Bool = False\<rparr>
      in case pbf_Value fd of
           StringValue s \<Rightarrow> f\<lparr>cf_Kind := FieldString, cf_Str := s\<rparr>
         | IntValue i \<Rightarrow> f\<lparr>cf_Kind := FieldInt, cf_Int := i\<rparr>
         | BoolValue b \<Rightarrow> f\<lparr>cf_Kind := FieldBool, cf_Bool := b\<rparr>
         | NoValue \<Rightarrow> f)"

definition fieldProto :: "ComponentField \<Rightarrow> pb_ComponentField" where
  "fieldProto f =
     \<lparr>pbf_Name = cf_Name f,
      pbf_Value = (case cf_Kind f of FieldString \<Rightarrow> StringValue (cf_Str f) | FieldInt \<Rightarrow> IntValue (cf_Int f)
        | FieldBool \<Rightarrow> BoolValue (cf_Bool f) | FieldUnset \<Rightarrow> NoValue)\<rparr>"

definition componentProto :: "Component \<Rightarrow> pb_ComponentValue" where
  "componentProto c = \<lparr>pbc_Type = comp_Type c, pbc_Fields = map fieldProto (comp_Fields c)\<rparr>"

definition componentFromProto :: "pb_ComponentValue \<Rightarrow> Component" where
  "componentFromProto cv = \<lparr>comp_Type = pbc_Type cv, comp_Fields = map fieldValue (pbc_Fields cv)\<rparr>"

text \<open>
  A field in canonical form: the members its kind does not select are zero, which is what
  \<^verbatim>\<open>fieldValue\<close> produces and every writer keeps.
\<close>

definition canonical_field :: "ComponentField \<Rightarrow> bool" where
  "canonical_field f \<longleftrightarrow>
     (cf_Kind f \<noteq> FieldString \<longrightarrow> cf_Str f = '''') \<and> (cf_Kind f \<noteq> FieldInt \<longrightarrow> cf_Int f = 0)
     \<and> (cf_Kind f \<noteq> FieldBool \<longrightarrow> \<not> cf_Bool f)"

definition canonical_component :: "Component \<Rightarrow> bool" where
  "canonical_component c \<longleftrightarrow>
     list_all canonical_field (comp_Fields c) \<and> sorted (map cf_Name (comp_Fields c)) \<and> distinct (map cf_Name (comp_Fields c))"

definition canonical_components :: "Component list \<Rightarrow> bool" where
  "canonical_components cs \<longleftrightarrow>
     list_all canonical_component cs \<and> sorted (map comp_Type cs) \<and> distinct (map comp_Type cs)"

section \<open>Rooms, Zones, the World\<close>

record RoomRef =
  rr_Zone :: ZoneID
  rr_Room :: RoomID

record Exit =
  ex_Direction :: Direction
  ex_To :: RoomRef
  ex_CrossZone :: bool

record Room =
  rm_ID :: RoomID
  rm_Title :: string
  rm_Description :: string
  rm_Exits :: "Exit list"
  rm_Components :: "Component list"

record Zone =
  zn_ID :: ZoneID
  zn_Name :: string
  zn_Rooms :: "(RoomID, Room) fmap"
  zn_Partition :: int
  zn_Components :: "Component list"
  zn_Fallback :: RoomID

record World =
  w_Zones :: "(ZoneID, Zone) fmap"

definition EmptyWorld :: World where
  "EmptyWorld = \<lparr>w_Zones = fmempty\<rparr>"

definition Resolve :: "World \<Rightarrow> RoomRef \<Rightarrow> Room option" where
  "Resolve w ref = (case fmlookup (w_Zones w) (rr_Zone ref) of None \<Rightarrow> None
     | Some z \<Rightarrow> fmlookup (zn_Rooms z) (rr_Room ref))"

definition PartitionOf :: "World \<Rightarrow> RoomRef \<Rightarrow> int option" where
  "PartitionOf w ref = (case fmlookup (w_Zones w) (rr_Zone ref) of None \<Rightarrow> None
     | Some z \<Rightarrow> (case fmlookup (zn_Rooms z) (rr_Room ref) of None \<Rightarrow> None | Some _ \<Rightarrow> Some (zn_Partition z)))"

section \<open>Templates\<close>

datatype TemplateKind = KindEntity | KindItem | KindBehavior

record FieldProvenance =
  fp_Component :: ComponentType
  fp_Field :: string
  fp_From :: TemplateRef

record Template =
  tm_Ref :: TemplateRef
  tm_Kind :: TemplateKind
  tm_Chain :: "TemplateRef list"
  tm_Components :: "Component list"
  tm_Provenance :: "FieldProvenance list"
  tm_File :: string
  tm_Source :: string

record TemplateRegistry =
  tr_corePack :: string
  tr_templates :: "(TemplateRef, Template) fmap"
  tr_byPack :: "(string, TemplateRef list) fmap"

text \<open>The pack is everything before the last dot, empty when there is none.\<close>

definition Ref_Pack :: "TemplateRef \<Rightarrow> string" where
  "Ref_Pack r = rev (tl (dropWhile (\<lambda>c. c \<noteq> CHR ''.'') (rev r)))"

definition Template_Parent :: "Template \<Rightarrow> TemplateRef" where
  "Template_Parent t = (if length (tm_Chain t) < 2 then '''' else tm_Chain t ! (length (tm_Chain t) - 2))"

text \<open>A nil registry holds no Template.\<close>

definition Registry_Get :: "TemplateRegistry option \<Rightarrow> TemplateRef \<Rightarrow> Template option" where
  "Registry_Get reg ref = (case reg of None \<Rightarrow> None | Some r \<Rightarrow> fmlookup (tr_templates r) ref)"

section \<open>Partitions\<close>

definition PartitionCount :: int where
  "PartitionCount = 64"

definition fnv32a :: "string \<Rightarrow> u32" where
  "fnv32a s = foldl (\<lambda>h c. (h XOR of_char c) * 16777619) 2166136261 s"

definition PartitionFor :: "ZoneID \<Rightarrow> int" where
  "PartitionFor zid = uint (fnv32a zid mod of_int PartitionCount)"

definition WorldPartition :: int where
  "WorldPartition = 0"

section \<open>Well-formed topology\<close>

text \<open>
  What \<^verbatim>\<open>BuildWorld\<close> establishes and every reader of a World relies on: keys agree with the IDs
  they file, the fallback is one of the Zone's Rooms, an Exit leads to a Room that exists, and
  \<open>ex_CrossZone\<close> says whether it leaves the Zone.
\<close>

definition wf_exit :: "World \<Rightarrow> ZoneID \<Rightarrow> Exit \<Rightarrow> bool" where
  "wf_exit w zid e \<longleftrightarrow>
     Resolve w (ex_To e) \<noteq> None \<and> (ex_CrossZone e \<longleftrightarrow> rr_Zone (ex_To e) \<noteq> zid)"

definition wf_room :: "World \<Rightarrow> ZoneID \<Rightarrow> RoomID \<Rightarrow> Room \<Rightarrow> bool" where
  "wf_room w zid rid r \<longleftrightarrow> rm_ID r = rid \<and> rid \<noteq> '''' \<and> list_all (wf_exit w zid) (rm_Exits r)"

definition wf_zone :: "World \<Rightarrow> ZoneID \<Rightarrow> Zone \<Rightarrow> bool" where
  "wf_zone w zid z \<longleftrightarrow>
     zn_ID z = zid \<and> zid \<noteq> '''' \<and> zn_Fallback z |\<in>| fmdom (zn_Rooms z)
     \<and> zn_Partition z = PartitionFor zid \<and> fmpred (wf_room w zid) (zn_Rooms z)"

definition wf_world :: "World \<Rightarrow> bool" where
  "wf_world w \<longleftrightarrow> fmpred (wf_zone w) (w_Zones w)"

section \<open>Lemmas\<close>

lemma directionReverse_pairs:
  "\<forall>p \<in> set directionReverse. map_of directionReverse (snd p) = Some (fst p) \<and> snd p \<noteq> fst p"
  by (simp add: directionReverse_def)

lemma Reverse_involution: "Reverse d = Some r \<Longrightarrow> Reverse r = Some d \<and> r \<noteq> d"
  using directionReverse_pairs by (fastforce simp: Reverse_def dest: map_of_SomeD)

lemma Valid_iff: "Valid d \<longleftrightarrow> d \<in> set canonicalDirections"
proof -
  have "fst ` set directionReverse = set canonicalDirections"
    by code_simp
  then show ?thesis by (simp add: Valid_def Reverse_def map_of_eq_None_iff)
qed

text \<open>
  The Direction vocabulary is closed and paired: a Direction is valid exactly when it is one
  of the twelve, the twelve are distinct, and following a Direction's reverse twice is the
  Direction itself.
\<close>
theorem directions_closed_and_paired:
  "(Valid d \<longleftrightarrow> d \<in> set canonicalDirections) \<and> distinct canonicalDirections \<and> length canonicalDirections = 12
   \<and> (case Reverse d of None \<Rightarrow> d \<notin> set canonicalDirections
      | Some r \<Rightarrow> r \<in> set canonicalDirections \<and> r \<noteq> d \<and> Reverse r = Some d)"
proof -
  have "distinct canonicalDirections \<and> length canonicalDirections = 12"
    by (simp add: canonicalDirections_def)
  moreover have "r \<in> set canonicalDirections \<and> r \<noteq> d \<and> Reverse r = Some d" if "Reverse d = Some r" for r
    using Reverse_involution[OF that] Valid_iff[of r] by (simp add: Valid_def)
  moreover have "d \<notin> set canonicalDirections" if "Reverse d = None"
    using that Valid_iff[of d] by (simp add: Valid_def)
  ultimately show ?thesis
    using Valid_iff[of d] by (auto split: option.split)
qed

lemma PartitionFor_range: "0 \<le> PartitionFor zid \<and> PartitionFor zid < PartitionCount"
  by (simp add: PartitionFor_def PartitionCount_def uint_mod)

lemma Resolve_wf:
  assumes "wf_world w" "Resolve w ref = Some r"
  shows "rm_ID r = rr_Room ref" "rr_Room ref \<noteq> ''''" "list_all (wf_exit w (rr_Zone ref)) (rm_Exits r)"
    "fmlookup (w_Zones w) (rr_Zone ref) \<noteq> None"
  using assms by (auto simp: Resolve_def wf_world_def wf_zone_def wf_room_def fmpred_iff split: option.splits)

lemma wf_world_fallback:
  assumes "wf_world w" "fmlookup (w_Zones w) zid = Some z"
  shows "\<exists>r. fmlookup (zn_Rooms z) (zn_Fallback z) = Some r \<and> rm_ID r = zn_Fallback z \<and> rm_ID r \<noteq> ''''"
  using assms by (fastforce simp: wf_world_def wf_zone_def wf_room_def fmpred_iff)

lemma wf_world_EmptyWorld [simp]: "wf_world EmptyWorld"
  by (simp add: wf_world_def EmptyWorld_def)

lemma fieldValue_fieldProto: "canonical_field f \<Longrightarrow> fieldValue (fieldProto f) = f"
  by (cases f) (auto simp: fieldValue_def fieldProto_def canonical_field_def split: FieldKind.splits)

lemma canonical_fieldValue [simp]: "canonical_field (fieldValue fd)"
  by (auto simp: fieldValue_def canonical_field_def Let_def split: pb_value.splits)

lemma componentFromProto_componentProto: "canonical_component c \<Longrightarrow> componentFromProto (componentProto c) = c"
  by (cases c) (auto simp: componentFromProto_def componentProto_def canonical_component_def list_all_iff
      fieldValue_fieldProto intro!: map_idI)

lemma sortComponents_canonical: "canonical_components cs \<Longrightarrow> sortComponents cs = cs"
  by (auto simp: sortComponents_def canonical_components_def sort_key_id_if_sorted list_all_iff sortFields_def
      canonical_component_def intro!: map_idI)

lemma map_componentFromProto: "canonical_components cs \<Longrightarrow> map (componentFromProto \<circ> componentProto) cs = cs"
  by (auto simp: canonical_components_def list_all_iff componentFromProto_componentProto intro!: map_idI)

lemma canonical_sortComponents:
  assumes "list_all (\<lambda>c. list_all canonical_field (comp_Fields c) \<and> distinct (map cf_Name (comp_Fields c))) cs"
    and "distinct (map comp_Type cs)"
  shows "canonical_components (sortComponents cs)"
  using assms
  by (auto simp: canonical_components_def sortComponents_def sortFields_def canonical_component_def list_all_iff
      comp_def distinct_map_sort_key)

end
