(* ===== verification/Sim_Rng.thy ===== *)
theory Sim_Rng
  imports Andara_Prelude
begin

text \<open>
  The simulation's random generator, \<^verbatim>\<open>server/sim/rng.go\<close>: xoshiro256** over four 64-bit words,
  seeded through splitmix64. The state is a 4-tuple of words, every shift, rotate and product
  wraps at 64 bits as the Go code does. \<^verbatim>\<open>Intn\<close> loops until a draw falls below its limit, so it
  is a partial function into \<^typ>\<open>'a option\<close>: \<^const>\<open>None\<close> is a run in which no draw ever does.
\<close>

type_synonym rng = "u64 \<times> u64 \<times> u64 \<times> u64"

definition rotl :: "u64 \<Rightarrow> nat \<Rightarrow> u64" where
  "rotl x k = push_bit k x OR drop_bit (64 - k) x"

definition splitmix_gamma :: u64 where
  "splitmix_gamma = 0x9e3779b97f4a7c15"

definition splitmix_mix :: "u64 \<Rightarrow> u64" where
  "splitmix_mix x =
     (let z = (x XOR drop_bit 30 x) * 0xbf58476d1ce4e5b9;
          z = (z XOR drop_bit 27 z) * 0x94d049bb133111eb
      in z XOR drop_bit 31 z)"

definition NewRNG :: "u64 \<Rightarrow> rng" where
  "NewRNG seed =
     (let x1 = seed + splitmix_gamma; x2 = x1 + splitmix_gamma;
          x3 = x2 + splitmix_gamma; x4 = x3 + splitmix_gamma
      in (splitmix_mix x1, splitmix_mix x2, splitmix_mix x3, splitmix_mix x4))"

definition Uint64 :: "rng \<Rightarrow> u64 \<times> rng" where
  "Uint64 r = (case r of (s0, s1, s2, s3) \<Rightarrow>
     (let result = rotl (s1 * 5) 7 * 9;
          t = push_bit 17 s1;
          s2 = s2 XOR s0;
          s3 = s3 XOR s1;
          s1 = s1 XOR s2;
          s0 = s0 XOR s3;
          s2 = s2 XOR t;
          s3 = rotl s3 45
      in (result, (s0, s1, s2, s3))))"

definition rng_next :: "rng \<Rightarrow> rng" where
  "rng_next r = snd (Uint64 r)"

definition intn_limit :: "u64 \<Rightarrow> u64" where
  "intn_limit bound = NOT 0 - (NOT 0 mod bound)"

partial_function (option) intn_loop :: "u64 \<Rightarrow> rng \<Rightarrow> (u64 \<times> rng) option" where
  "intn_loop bound r =
     (let (v, r') = Uint64 r
      in if v < intn_limit bound then Some (v mod bound, r') else intn_loop bound r')"

datatype rng_panic = NonPositiveBound

definition Intn :: "int \<Rightarrow> rng \<Rightarrow> rng_panic + (int \<times> rng) option" where
  "Intn n r =
     (if n \<le> 0 then Inl NonPositiveBound
      else Inr (map_option (\<lambda>(v, r'). (uint v, r')) (intn_loop (of_int n) r)))"

section \<open>The splitmix finaliser kills only zero\<close>

lemma drop_bit_fixpoint:
  fixes w :: "'a::len word"
  assumes "w = drop_bit k w" "0 < k"
  shows "w = 0"
proof (rule ccontr)
  assume "w \<noteq> 0"
  then have "0 < unat w" by (simp add: unat_gt_0)
  moreover have "unat w = unat w div 2 ^ k"
    using assms(1) by (metis unat_drop_bit_eq drop_bit_eq_div)
  ultimately show False
    using assms(2) by (metis div_less_dividend less_irrefl one_less_numeral_iff one_less_power semiring_norm(76))
qed

lemma xorshift_right_inject:
  fixes v w :: "'a::len word"
  assumes "v XOR drop_bit k v = w XOR drop_bit k w" "0 < k"
  shows "v = w"
proof -
  have "v XOR w = drop_bit k (v XOR w)"
    using assms(1) by (auto simp: bit_eq_iff bit_simps)
  then have "v XOR w = 0" using assms(2) by (rule drop_bit_fixpoint)
  then show ?thesis by (auto simp: bit_eq_iff bit_simps)
qed

lemma odd_mult_inject:
  fixes v w c d :: "u64"
  assumes "c * d = 1" "v * c = w * c"
  shows "v = w"
proof -
  have "v * c * d = w * c * d" using assms(2) by (rule arg_cong)
  then show ?thesis by (simp only: mult.assoc assms(1) mult_1_right)
qed

lemma splitmix_mix_inject: "splitmix_mix v = splitmix_mix w \<Longrightarrow> v = w"
proof -
  have c: "(0xbf58476d1ce4e5b9 :: u64) * 0x96de1b173f119089 = 1" by simp
  have d: "(0x94d049bb133111eb :: u64) * 0x319642b2d24d8ec3 = 1" by simp
  assume "splitmix_mix v = splitmix_mix w"
  then show ?thesis unfolding splitmix_mix_def Let_def
    by (blast dest: xorshift_right_inject[where k = 31, simplified] xorshift_right_inject[where k = 27, simplified]
        xorshift_right_inject[where k = 30, simplified] odd_mult_inject[OF c] odd_mult_inject[OF d])
qed

lemma splitmix_gamma_neq_0: "splitmix_gamma \<noteq> 0"
  by (simp add: splitmix_gamma_def)

lemma NewRNG_neq_0: "NewRNG seed \<noteq> (0, 0, 0, 0)"
proof
  assume "NewRNG seed = (0, 0, 0, 0)"
  then have "splitmix_mix (seed + splitmix_gamma) = splitmix_mix (seed + splitmix_gamma + splitmix_gamma)"
    by (simp add: NewRNG_def Let_def)
  then have "splitmix_gamma = 0" by (auto dest: splitmix_mix_inject)
  then show False by (simp add: splitmix_gamma_neq_0)
qed

section \<open>The generator's step is a bijection\<close>

lemma bit_rotl: "0 < k \<Longrightarrow> k < 64 \<Longrightarrow> n < 64 \<Longrightarrow> bit (rotl x k) n = bit x ((n + (64 - k)) mod 64)"
proof -
  assume k: "0 < k" "k < 64" and n: "n < 64"
  show ?thesis
  proof (cases "n < k")
    case True
    then have "(n + (64 - k)) mod 64 = n + (64 - k)" using k by simp
    then show ?thesis using True k n by (simp add: rotl_def bit_simps add.commute)
  next
    case False
    then have "(n + (64 - k)) mod 64 = n - k" using k n
      by (simp add: mod_if)
    moreover have "\<not> bit x (n + (64 - k))" using False k by (auto dest: bit_imp_le_length)
    ultimately show ?thesis using False k n by (simp add: rotl_def bit_simps add.commute)
  qed
qed

lemma rotl_inject:
  assumes "rotl x k = rotl y k" "0 < k" "k < 64"
  shows "x = y"
proof (rule bit_eqI)
  fix n assume "possible_bit TYPE(u64) n"
  then have n: "n < 64" by simp
  have "((n + k) mod 64 + (64 - k)) mod 64 = n" using n assms(2,3)
    by (cases "n + k < 64") (simp_all add: mod_if)
  then show "bit x n = bit y n"
    using assms bit_rotl[of k "(n + k) mod 64" x] bit_rotl[of k "(n + k) mod 64" y] by simp
qed

lemma xorshift_left_inject:
  fixes v w :: u64
  assumes "v XOR push_bit 17 v = w XOR push_bit 17 w"
  shows "v = w"
proof (rule bit_eqI)
  fix n assume "possible_bit TYPE(u64) n"
  then show "bit v n = bit w n"
  proof (induction n rule: less_induct)
    case (less n)
    have "bit (v XOR push_bit 17 v) n = bit (w XOR push_bit 17 w) n" using assms by simp
    with less show ?case by (auto simp: bit_simps split: if_splits)
  qed
qed

lemma rng_next_inject: "rng_next r = rng_next r' \<Longrightarrow> r = r'"
proof -
  obtain a0 a1 a2 a3 where r: "r = (a0, a1, a2, a3)" by (cases r)
  obtain b0 b1 b2 b3 where r': "r' = (b0, b1, b2, b3)" by (cases r')
  assume "rng_next r = rng_next r'"
  then have e0: "a0 XOR (a3 XOR a1) = b0 XOR (b3 XOR b1)"
    and e1: "a1 XOR (a2 XOR a0) = b1 XOR (b2 XOR b0)"
    and e2: "(a2 XOR a0) XOR push_bit 17 a1 = (b2 XOR b0) XOR push_bit 17 b1"
    and e3: "rotl (a3 XOR a1) 45 = rotl (b3 XOR b1) 45"
    by (simp_all add: rng_next_def Uint64_def Let_def r r')
  have x3: "a3 XOR a1 = b3 XOR b1" using rotl_inject[OF e3] by simp
  have x0: "a0 = b0" using e0 x3 by (auto simp: bit_eq_iff bit_simps)
  have "a1 XOR push_bit 17 a1 = b1 XOR push_bit 17 b1"
    using e1 e2 by (auto simp: bit_eq_iff bit_simps)
  then have x1: "a1 = b1" by (rule xorshift_left_inject)
  have x2: "a2 = b2" using e2 x0 x1 by (auto simp: bit_eq_iff bit_simps)
  have "a3 = b3" using x3 x1 by (auto simp: bit_eq_iff bit_simps)
  with x0 x1 x2 show ?thesis by (simp add: r r')
qed

lemma rng_next_0: "rng_next (0, 0, 0, 0) = (0, 0, 0, 0)"
  by (simp add: rng_next_def Uint64_def rotl_def)

lemma rng_next_neq_0: "r \<noteq> (0, 0, 0, 0) \<Longrightarrow> rng_next r \<noteq> (0, 0, 0, 0)"
  using rng_next_inject rng_next_0 by metis

text \<open>
  C39. Whatever the seed, no sequence of draws ever reaches the all-zero state, the one state
  xoshiro256** cannot leave: seeding never produces it and a draw is injective and fixes it.
\<close>
theorem rng_never_stuck: "(rng_next ^^ n) (NewRNG seed) \<noteq> (0, 0, 0, 0)"
  by (induction n) (simp_all add: NewRNG_neq_0 rng_next_neq_0)

text \<open>
  A draw loses no information: the generator's state transition is a bijection on the
  states, so a restored state determines the whole past and future of the sequence.
\<close>
theorem rng_step_bij: "bij rng_next"
proof -
  have "inj rng_next" by (rule injI) (rule rng_next_inject)
  then show ?thesis by (simp add: bij_def finite_UNIV_inj_surj)
qed

section \<open>Bounded draws\<close>

lemma uint_intn_limit: "bound \<noteq> 0 \<Longrightarrow> unat (intn_limit bound) = unat bound * ((2 ^ 64 - 1) div unat bound)"
proof -
  have m: "unat (NOT 0 :: u64) = 2 ^ 64 - 1" by transfer (simp add: take_bit_minus_one_eq_mask mask_eq_exp_minus_1)
  have "unat (NOT 0 mod bound) = (2 ^ 64 - 1) mod unat bound" by (simp only: unat_mod m)
  moreover have "unat (NOT 0 - NOT 0 mod bound) = unat (NOT 0 :: u64) - unat (NOT 0 mod bound)"
    by (rule unat_sub) (simp only: word_le_nat_alt unat_mod mod_less_eq_dividend)
  ultimately show ?thesis unfolding intn_limit_def m by (simp add: minus_mod_eq_mult_div)
qed

definition draw :: "rng \<Rightarrow> nat \<Rightarrow> u64" where
  "draw r k = fst (Uint64 ((rng_next ^^ k) r))"

lemma draw_Suc: "draw r (Suc k) = draw (rng_next r) k"
  by (simp add: draw_def funpow_swap1)

lemma intn_loop_unfold:
  "intn_loop bound r = (if draw r 0 < intn_limit bound then Some (draw r 0 mod bound, rng_next r)
     else intn_loop bound (rng_next r))"
  by (subst intn_loop.simps) (simp add: draw_def rng_next_def case_prod_unfold Let_def)

lemma intn_loop_first:
  assumes "draw r k < intn_limit bound" "\<And>j. j < k \<Longrightarrow> \<not> draw r j < intn_limit bound"
  shows "intn_loop bound r = Some (draw r k mod bound, (rng_next ^^ Suc k) r)"
  using assms
proof (induction k arbitrary: r)
  case 0
  then show ?case by (subst intn_loop_unfold) simp
next
  case (Suc k)
  have "intn_loop bound (rng_next r) = Some (draw (rng_next r) k mod bound, (rng_next ^^ Suc k) (rng_next r))"
  proof (rule Suc.IH)
    show "draw (rng_next r) k < intn_limit bound" using Suc.prems(1) by (simp add: draw_Suc)
    show "\<not> draw (rng_next r) j < intn_limit bound" if "j < k" for j
      using Suc.prems(2)[of "Suc j"] that by (simp add: draw_Suc)
  qed
  moreover have "\<not> draw r 0 < intn_limit bound" using Suc.prems(2)[of 0] by simp
  ultimately show ?case by (subst intn_loop_unfold) (simp add: draw_Suc funpow_swap1)
qed

text \<open>
  C37. \<^verbatim>\<open>Intn(n)\<close> with a positive int64 bound returns as soon as a draw falls below its limit: the
  result is that draw modulo n, in [0, n), and the generator has advanced by exactly the draws
  taken, so a replay consumes the same number of values.
\<close>
theorem Intn_returns_first_accepted:
  assumes n: "0 < n" "n < 2 ^ 63"
    and acc: "draw r k < intn_limit (of_int n)"
    and rej: "\<And>j. j < k \<Longrightarrow> \<not> draw r j < intn_limit (of_int n)"
  shows "Intn n r = Inr (Some (uint (draw r k) mod n, (rng_next ^^ Suc k) r))
         \<and> 0 \<le> uint (draw r k) mod n \<and> uint (draw r k) mod n < n"
proof -
  have "uint (of_int n :: u64) = n" using n by (simp add: uint_word_of_int)
  then show ?thesis using n by (simp add: Intn_def intn_loop_first[OF acc rej] uint_mod)
qed

theorem Intn_returns_first_accepted_witness:
  "Intn 6 (NewRNG 1) = Inr (Some (uint (draw (NewRNG 1) 0) mod 6, (rng_next ^^ Suc 0) (NewRNG 1)))"
proof -
  have "draw (NewRNG 1) 0 < intn_limit (of_int 6)"
    by (simp add: draw_def NewRNG_def Uint64_def Let_def splitmix_mix_def splitmix_gamma_def rotl_def intn_limit_def)
  then show ?thesis using Intn_returns_first_accepted[of 6 "NewRNG 1" 0] by simp
qed

lemma mod_class_card:
  fixes b q c :: nat
  assumes "c < b"
  shows "card {v. v < b * q \<and> v mod b = c} = q"
proof -
  have "{v. v < b * q \<and> v mod b = c} = (\<lambda>i. b * i + c) ` {..<q}"
  proof (intro set_eqI iffI)
    fix v assume v: "v \<in> {v. v < b * q \<and> v mod b = c}"
    then have "v div b < q" using assms by (simp add: div_less_iff_less_mult mult.commute)
    moreover have "v = b * (v div b) + c" using v mult_div_mod_eq[of b v] by simp
    ultimately show "v \<in> (\<lambda>i. b * i + c) ` {..<q}" by blast
  next
    fix v assume "v \<in> (\<lambda>i. b * i + c) ` {..<q}"
    then obtain i where i: "i < q" "v = b * i + c" by auto
    then have "b * i + c < b * Suc i" using assms by simp
    also have "\<dots> \<le> b * q" using i(1) by (intro mult_le_mono2) simp
    finally show "v \<in> {v. v < b * q \<and> v mod b = c}" using i assms by simp
  qed
  moreover have "inj_on (\<lambda>i. b * i + c) {..<q}" using assms by (auto simp: inj_on_def)
  ultimately show ?thesis by (simp add: card_image)
qed

text \<open>
  C38. The rejection sampling is exactly unbiased: among the draws \<^verbatim>\<open>Intn\<close> accepts, every residue
  below the bound has the same number of 64-bit values, and for an int64 bound at least half of
  all 64-bit values are accepted.
\<close>
theorem Intn_unbiased:
  fixes b c :: u64
  assumes c: "c < b" and b: "unat b < 2 ^ 63"
  shows "card {v. v < intn_limit b \<and> v mod b = c} = (2 ^ 64 - 1) div unat b
         \<and> 2 ^ 63 \<le> unat (intn_limit b)"
proof -
  have b0: "b \<noteq> 0" using c by auto
  let ?q = "(2 ^ 64 - 1) div unat b"
  have lim: "unat (intn_limit b) = unat b * ?q" by (rule uint_intn_limit[OF b0])
  have "unat ` {v. v < intn_limit b \<and> v mod b = c} = {v. v < unat b * ?q \<and> v mod unat b = unat c}"
  proof (intro set_eqI iffI)
    fix v assume "v \<in> unat ` {v. v < intn_limit b \<and> v mod b = c}"
    then show "v \<in> {v. v < unat b * ?q \<and> v mod unat b = unat c}"
      using lim by (auto simp: word_less_nat_alt unat_mod)
  next
    fix v assume v: "v \<in> {v. v < unat b * ?q \<and> v mod unat b = unat c}"
    moreover have "unat (intn_limit b) < 2 ^ LENGTH(64)" by (rule unsigned_less)
    ultimately have "v < 2 ^ 64" using lim by simp
    then have u: "unat (of_nat v :: u64) = v" by (simp add: unat_of_nat)
    then have "(of_nat v :: u64) < intn_limit b" "(of_nat v :: u64) mod b = c"
      using v lim by (auto simp: word_less_nat_alt word_unat_eq_iff unat_mod)
    then show "v \<in> unat ` {v. v < intn_limit b \<and> v mod b = c}"
      using u by (metis (mono_tags, lifting) imageI mem_Collect_eq)
  qed
  moreover have "inj_on unat {v. v < intn_limit b \<and> v mod b = c}"
    by (auto simp: inj_on_def word_unat_eq_iff)
  ultimately have "card {v. v < intn_limit b \<and> v mod b = c} = card {v. v < unat b * ?q \<and> v mod unat b = unat c}"
    using card_image[of unat "{v. v < intn_limit b \<and> v mod b = c}"] by simp
  moreover have "unat c < unat b" using c by (simp add: word_less_nat_alt)
  moreover have "2 ^ 64 - 1 < unat b * ?q + unat b"
    using dividend_less_times_div[of "unat b" "2 ^ 64 - 1"] b0 by (simp add: unat_gt_0)
  ultimately show ?thesis using b lim mod_class_card by simp
qed

theorem Intn_unbiased_witness:
  "card {v. v < intn_limit 6 \<and> v mod 6 = (2::u64)} = (2 ^ 64 - 1) div 6"
  using Intn_unbiased[of 2 6] by simp

end
