(* ===== verification/Sim_State.thy ===== *)
theory Sim_State
  imports Topology Sim_Rng
begin

text \<open>
  The mutable state of the simulation: Entities, Zones with their Entities in transit and their
  handoff marks, and the World state the State Hash covers (\<^verbatim>\<open>server/sim/entity.go\<close>,
  \<^verbatim>\<open>state.go\<close>, and \<^verbatim>\<open>log.v1.Entity\<close>, the form in which an Entity crosses a Zone boundary).
  Ticks, sequence numbers, event IDs and seeds are 64-bit words and wrap as Go's \<^verbatim>\<open>uint64\<close> does.
  Partitions and offsets are \<^typ>\<open>int\<close>: the code increments an offset once per record and Kafka
  offsets stay far below the int64 range.
\<close>

section \<open>Entities\<close>

record EntityState =
  en_ID :: EntityID
  en_Template :: TemplateRef
  en_ContentVersion :: string
  en_Components :: "Component list"
  en_Room :: RoomID
  en_Name :: string
  en_Dormant :: bool
  en_DormantSince :: u64
  en_LinkdeadSince :: u64
  en_LinkdeadDeadline :: u64
  en_LinkdeadCeiling :: u64
  en_LinkdeadExtension :: u64
  en_HandoffSeq :: u64

definition Linkdead :: "EntityState \<Rightarrow> bool" where
  "Linkdead e \<longleftrightarrow> en_LinkdeadDeadline e \<noteq> 0"

definition clearLinkdead :: "EntityState \<Rightarrow> EntityState" where
  "clearLinkdead e = e\<lparr>en_LinkdeadSince := 0, en_LinkdeadDeadline := 0, en_LinkdeadCeiling := 0, en_LinkdeadExtension := 0\<rparr>"

definition DisplayName :: "EntityState \<Rightarrow> string" where
  "DisplayName e = (if en_Name e \<noteq> '''' then en_Name e else en_ID e)"

definition Present :: "EntityState \<Rightarrow> bool" where
  "Present e \<longleftrightarrow> en_Room e \<noteq> '''' \<and> \<not> en_Dormant e"

definition zero_entity :: EntityState where
  "zero_entity = \<lparr>en_ID = '''', en_Template = '''', en_ContentVersion = '''', en_Components = [], en_Room = '''',
     en_Name = '''', en_Dormant = False, en_DormantSince = 0, en_LinkdeadSince = 0, en_LinkdeadDeadline = 0,
     en_LinkdeadCeiling = 0, en_LinkdeadExtension = 0, en_HandoffSeq = 0\<rparr>"

definition Instantiate :: "Template \<Rightarrow> EntityID \<Rightarrow> string \<Rightarrow> EntityState" where
  "Instantiate t eid contentVersion =
     zero_entity\<lparr>en_ID := eid, en_Template := tm_Ref t, en_ContentVersion := contentVersion,
       en_Components := sortComponents (tm_Components t)\<rparr>"

record pb_Entity =
  pe_Id :: string
  pe_Template :: string
  pe_ContentVersion :: string
  pe_Components :: "pb_ComponentValue list"
  pe_Name :: string
  pe_HandoffSeq :: u64

definition Entity_Proto :: "EntityState \<Rightarrow> pb_Entity" where
  "Entity_Proto e = \<lparr>pe_Id = en_ID e, pe_Template = en_Template e, pe_ContentVersion = en_ContentVersion e,
     pe_Components = map componentProto (en_Components e), pe_Name = en_Name e, pe_HandoffSeq = en_HandoffSeq e\<rparr>"

definition EntityFromProto :: "pb_Entity \<Rightarrow> RoomID \<Rightarrow> EntityState" where
  "EntityFromProto p room =
     zero_entity\<lparr>en_ID := pe_Id p, en_Template := pe_Template p, en_ContentVersion := pe_ContentVersion p,
       en_Room := room, en_Name := pe_Name p, en_HandoffSeq := pe_HandoffSeq p,
       en_Components := sortComponents (map componentFromProto (pe_Components p))\<rparr>"

section \<open>Zone and World state\<close>

record TransitRecord =
  tx_Entity :: EntityState
  tx_To :: ZoneID
  tx_Room :: RoomID
  tx_Direction :: Direction

record PlacedMark =
  pm_Seq :: u64
  pm_Rejected :: bool

record ZoneState =
  zs_ID :: ZoneID
  zs_Entities :: "(EntityID, EntityState) fmap"
  zs_Faulted :: bool
  zs_FaultedTick :: u64
  zs_Transit :: "(EntityID, TransitRecord) fmap"
  zs_Placed :: "(EntityID, PlacedMark) fmap"

definition empty_zone :: "ZoneID \<Rightarrow> ZoneState" where
  "empty_zone zid = \<lparr>zs_ID = zid, zs_Entities = fmempty, zs_Faulted = False, zs_FaultedTick = 0,
     zs_Transit = fmempty, zs_Placed = fmempty\<rparr>"

definition setTransit :: "TransitRecord \<Rightarrow> ZoneState \<Rightarrow> ZoneState" where
  "setTransit r z = z\<lparr>zs_Transit := fmupd (en_ID (tx_Entity r)) r (zs_Transit z)\<rparr>"

definition markPlaced :: "EntityID \<Rightarrow> u64 \<Rightarrow> ZoneState \<Rightarrow> ZoneState" where
  "markPlaced eid seq z = z\<lparr>zs_Placed := fmupd eid \<lparr>pm_Seq = seq, pm_Rejected = False\<rparr> (zs_Placed z)\<rparr>"

definition StateVersion :: u32 where
  "StateVersion = 1"

record WorldState =
  ws_Version :: u32
  ws_Tick :: u64
  ws_Seed :: u64
  ws_RNG :: rng
  ws_NextEventID :: u64
  ws_Offsets :: "(int, int) fmap"
  ws_Zones :: "(ZoneID, ZoneState) fmap"

definition NewWorldState :: "World \<Rightarrow> u64 \<Rightarrow> int list \<Rightarrow> WorldState" where
  "NewWorldState w seed partitions =
     \<lparr>ws_Version = StateVersion, ws_Tick = 0, ws_Seed = seed, ws_RNG = NewRNG seed, ws_NextEventID = 1,
      ws_Offsets = fmap_of_list (map (\<lambda>p. (p, 0)) partitions),
      ws_Zones = fmap_of_list (map (\<lambda>zid. (zid, empty_zone zid)) (keys (w_Zones w)))\<rparr>"

definition SortedZoneIDs :: "WorldState \<Rightarrow> ZoneID list" where
  "SortedZoneIDs s = keys (ws_Zones s)"

section \<open>Reading and updating one Zone or one Entity\<close>

text \<open>
  The code holds a pointer to the Zone it works on and mutates through it; the model names the
  Zone by its key and updates the map at that key. An absent key reads as an empty Zone, which
  the tick never does: it looks the Zone up before it dispatches.
\<close>

definition zone_of :: "WorldState \<Rightarrow> ZoneID \<Rightarrow> ZoneState" where
  "zone_of s zid = (case fmlookup (ws_Zones s) zid of Some z \<Rightarrow> z | None \<Rightarrow> empty_zone zid)"

definition upd_zone :: "ZoneID \<Rightarrow> (ZoneState \<Rightarrow> ZoneState) \<Rightarrow> WorldState \<Rightarrow> WorldState" where
  "upd_zone zid f s = s\<lparr>ws_Zones := fmupd zid (f (zone_of s zid)) (ws_Zones s)\<rparr>"

definition put_entity :: "EntityState \<Rightarrow> ZoneState \<Rightarrow> ZoneState" where
  "put_entity e z = z\<lparr>zs_Entities := fmupd (en_ID e) e (zs_Entities z)\<rparr>"

definition del_entity :: "EntityID \<Rightarrow> ZoneState \<Rightarrow> ZoneState" where
  "del_entity eid z = z\<lparr>zs_Entities := fmdrop eid (zs_Entities z)\<rparr>"

definition del_transit :: "EntityID \<Rightarrow> ZoneState \<Rightarrow> ZoneState" where
  "del_transit eid z = z\<lparr>zs_Transit := fmdrop eid (zs_Transit z)\<rparr>"

lemma zone_of_upd_zone [simp]: "zone_of (upd_zone zid f s) zid' = (if zid' = zid then f (zone_of s zid) else zone_of s zid')"
  by (simp add: zone_of_def upd_zone_def)

lemma upd_zone_frame [simp]:
  "ws_Version (upd_zone zid f s) = ws_Version s" "ws_Tick (upd_zone zid f s) = ws_Tick s"
  "ws_Seed (upd_zone zid f s) = ws_Seed s" "ws_RNG (upd_zone zid f s) = ws_RNG s"
  "ws_NextEventID (upd_zone zid f s) = ws_NextEventID s" "ws_Offsets (upd_zone zid f s) = ws_Offsets s"
  by (simp_all add: upd_zone_def)

lemma fmdom_upd_zone [simp]: "fmdom (ws_Zones (upd_zone zid f s)) = finsert zid (fmdom (ws_Zones s))"
  by (simp add: upd_zone_def)

lemma lookup_upd_zone: "fmlookup (ws_Zones (upd_zone zid f s)) zid' = (if zid' = zid then Some (f (zone_of s zid)) else fmlookup (ws_Zones s) zid')"
  by (simp add: upd_zone_def)

lemma zone_of_frame [simp]:
  "zone_of (s\<lparr>ws_NextEventID := n\<rparr>) zid = zone_of s zid"
  "zone_of (s\<lparr>ws_Tick := t\<rparr>) zid = zone_of s zid"
  "zone_of (s\<lparr>ws_Offsets := os\<rparr>) zid = zone_of s zid"
  "zone_of (s\<lparr>ws_RNG := r\<rparr>) zid = zone_of s zid"
  by (simp_all add: zone_of_def)

lemma zone_of_lookup: "fmlookup (ws_Zones s) zid = Some z \<Longrightarrow> zone_of s zid = z"
  by (simp add: zone_of_def)

lemma put_entity_frame [simp]:
  "zs_ID (put_entity e z) = zs_ID z" "zs_Faulted (put_entity e z) = zs_Faulted z"
  "zs_FaultedTick (put_entity e z) = zs_FaultedTick z" "zs_Transit (put_entity e z) = zs_Transit z"
  "zs_Placed (put_entity e z) = zs_Placed z" "zs_Entities (put_entity e z) = fmupd (en_ID e) e (zs_Entities z)"
  by (simp_all add: put_entity_def)

lemma del_entity_frame [simp]:
  "zs_ID (del_entity eid z) = zs_ID z" "zs_Faulted (del_entity eid z) = zs_Faulted z"
  "zs_FaultedTick (del_entity eid z) = zs_FaultedTick z" "zs_Transit (del_entity eid z) = zs_Transit z"
  "zs_Placed (del_entity eid z) = zs_Placed z" "zs_Entities (del_entity eid z) = fmdrop eid (zs_Entities z)"
  by (simp_all add: del_entity_def)

lemma del_transit_frame [simp]:
  "zs_ID (del_transit eid z) = zs_ID z" "zs_Faulted (del_transit eid z) = zs_Faulted z"
  "zs_FaultedTick (del_transit eid z) = zs_FaultedTick z" "zs_Transit (del_transit eid z) = fmdrop eid (zs_Transit z)"
  "zs_Placed (del_transit eid z) = zs_Placed z" "zs_Entities (del_transit eid z) = zs_Entities z"
  by (simp_all add: del_transit_def)

lemma setTransit_frame [simp]:
  "zs_ID (setTransit r z) = zs_ID z" "zs_Faulted (setTransit r z) = zs_Faulted z"
  "zs_FaultedTick (setTransit r z) = zs_FaultedTick z"
  "zs_Transit (setTransit r z) = fmupd (en_ID (tx_Entity r)) r (zs_Transit z)"
  "zs_Placed (setTransit r z) = zs_Placed z" "zs_Entities (setTransit r z) = zs_Entities z"
  by (simp_all add: setTransit_def)

lemma markPlaced_frame [simp]:
  "zs_ID (markPlaced eid q z) = zs_ID z" "zs_Faulted (markPlaced eid q z) = zs_Faulted z"
  "zs_FaultedTick (markPlaced eid q z) = zs_FaultedTick z" "zs_Transit (markPlaced eid q z) = zs_Transit z"
  "zs_Placed (markPlaced eid q z) = fmupd eid \<lparr>pm_Seq = q, pm_Rejected = False\<rparr> (zs_Placed z)"
  "zs_Entities (markPlaced eid q z) = zs_Entities z"
  by (simp_all add: markPlaced_def)

section \<open>Well-formed state\<close>

text \<open>
  Canonical Entities: dormancy and linkdead ticks are zero unless the flag or the deadline that
  gives them meaning is set. These are the states in which the State Hash covers every field, and
  \<^verbatim>\<open>BodyStateHash\<close> refuses any other.
\<close>

definition canonical_entity :: "EntityState \<Rightarrow> bool" where
  "canonical_entity e \<longleftrightarrow>
     (\<not> en_Dormant e \<longrightarrow> en_DormantSince e = 0)
     \<and> (en_LinkdeadDeadline e = 0 \<longrightarrow> en_LinkdeadSince e = 0 \<and> en_LinkdeadCeiling e = 0 \<and> en_LinkdeadExtension e = 0)
     \<and> canonical_components (en_Components e)"

definition keyed_zone :: "ZoneID \<Rightarrow> ZoneState \<Rightarrow> bool" where
  "keyed_zone zid z \<longleftrightarrow> zs_ID z = zid
     \<and> fmpred (\<lambda>eid e. en_ID e = eid) (zs_Entities z)
     \<and> fmpred (\<lambda>eid r. en_ID (tx_Entity r) = eid) (zs_Transit z)"

definition canonical_zone :: "ZoneState \<Rightarrow> bool" where
  "canonical_zone z \<longleftrightarrow> fmpred (\<lambda>_ e. canonical_entity e) (zs_Entities z)
     \<and> fmpred (\<lambda>_ r. canonical_entity (tx_Entity r)) (zs_Transit z)"

definition keyed_state :: "WorldState \<Rightarrow> bool" where
  "keyed_state s \<longleftrightarrow> fmpred keyed_zone (ws_Zones s)"

lemma keyed_zone_empty [simp]: "keyed_zone zid (empty_zone zid)"
  by (simp add: keyed_zone_def empty_zone_def)

lemma keyed_zone_of: "keyed_state s \<Longrightarrow> keyed_zone zid (zone_of s zid)"
  by (auto simp: keyed_state_def zone_of_def split: option.splits)

lemma keyed_upd_zone: "keyed_state s \<Longrightarrow> (\<And>z. keyed_zone zid z \<Longrightarrow> keyed_zone zid (f z)) \<Longrightarrow> keyed_state (upd_zone zid f s)"
  using keyed_zone_of[of s zid] by (auto simp: keyed_state_def upd_zone_def)

lemma keyed_put_entity: "keyed_zone zid z \<Longrightarrow> keyed_zone zid (put_entity e z)"
  by (auto simp: keyed_zone_def)

lemma keyed_del_entity: "keyed_zone zid z \<Longrightarrow> keyed_zone zid (del_entity eid z)"
  by (auto simp: keyed_zone_def)

lemma keyed_del_transit: "keyed_zone zid z \<Longrightarrow> keyed_zone zid (del_transit eid z)"
  by (auto simp: keyed_zone_def)

lemma keyed_setTransit: "keyed_zone zid z \<Longrightarrow> keyed_zone zid (setTransit r z)"
  by (auto simp: keyed_zone_def)

lemma keyed_markPlaced: "keyed_zone zid z \<Longrightarrow> keyed_zone zid (markPlaced eid q z)"
  by (auto simp: keyed_zone_def)

lemma Linkdead_clear [simp]: "\<not> Linkdead (clearLinkdead e)"
  by (simp add: Linkdead_def clearLinkdead_def)

lemma EntityFromProto_simps [simp]:
  "en_ID (EntityFromProto p room) = pe_Id p" "en_Room (EntityFromProto p room) = room"
  "en_HandoffSeq (EntityFromProto p room) = pe_HandoffSeq p" "\<not> en_Dormant (EntityFromProto p room)"
  "\<not> Linkdead (EntityFromProto p room)" "en_Template (EntityFromProto p room) = pe_Template p"
  by (simp_all add: EntityFromProto_def zero_entity_def Linkdead_def)

lemma Entity_Proto_simps [simp]:
  "pe_Id (Entity_Proto e) = en_ID e" "pe_HandoffSeq (Entity_Proto e) = en_HandoffSeq e"
  "pe_Template (Entity_Proto e) = en_Template e"
  by (simp_all add: Entity_Proto_def)

text \<open>
  An Entity that crosses a Zone boundary arrives as the Entity that left: reading back its
  wire form at a Room gives the same Entity, standing in that Room, neither dormant nor linkdead
  (the wire form carries neither, and such a body never leaves).
\<close>
theorem entity_proto_roundtrip:
  assumes "canonical_components (en_Components e)"
  shows "EntityFromProto (Entity_Proto e) room =
     (clearLinkdead e)\<lparr>en_Room := room, en_Dormant := False, en_DormantSince := 0\<rparr>"
  using assms by (cases e) (simp add: EntityFromProto_def Entity_Proto_def zero_entity_def clearLinkdead_def
      map_componentFromProto sortComponents_canonical)

theorem entity_proto_roundtrip_witness:
  "EntityFromProto (Entity_Proto (zero_entity\<lparr>en_ID := ''e1'', en_HandoffSeq := 3\<rparr>)) ''plaza'' =
     (clearLinkdead (zero_entity\<lparr>en_ID := ''e1'', en_HandoffSeq := 3\<rparr>))\<lparr>en_Room := ''plaza'', en_Dormant := False, en_DormantSince := 0\<rparr>"
  by (rule entity_proto_roundtrip) (simp add: canonical_components_def zero_entity_def)

end
