(* ===== verification/Events.thy ===== *)
theory Events
  imports Topology
begin

text \<open>
  What the simulation says happened and who may perceive it (\<^verbatim>\<open>server/sim/event.go\<close>):
  Scopes, the Event envelope with its payload oneof (\<^verbatim>\<open>game/v1/event.proto\<close>), the Event type
  derived from the payload, and the redacted form unprivileged observers receive.
\<close>

section \<open>Scopes\<close>

record Scope =
  sc_Room :: RoomRef
  sc_Entities :: "EntityID list"
  sc_World :: bool

definition zero_ref :: RoomRef where
  "zero_ref = \<lparr>rr_Zone = '''', rr_Room = ''''\<rparr>"

definition zero_scope :: Scope where
  "zero_scope = \<lparr>sc_Room = zero_ref, sc_Entities = [], sc_World = False\<rparr>"

text \<open>The loop of \<^verbatim>\<open>With\<close>: what has been seen, and the IDs kept so far, in order.\<close>

fun dedup :: "EntityID set \<Rightarrow> EntityID list \<Rightarrow> EntityID list" where
  "dedup seen [] = []"
| "dedup seen (eid # ids) =
     (if eid \<noteq> '''' \<and> eid \<notin> seen then eid # dedup (insert eid seen) ids else dedup seen ids)"

definition With :: "Scope \<Rightarrow> EntityID list \<Rightarrow> Scope" where
  "With s ids = s\<lparr>sc_Entities := sort (dedup {} (sc_Entities s @ ids))\<rparr>"

definition ScopeRoom :: "ZoneID \<Rightarrow> RoomID \<Rightarrow> Scope" where
  "ScopeRoom zone room = zero_scope\<lparr>sc_Room := \<lparr>rr_Zone = zone, rr_Room = room\<rparr>\<rparr>"

definition ScopeZone :: "ZoneID \<Rightarrow> Scope" where
  "ScopeZone zone = zero_scope\<lparr>sc_Room := \<lparr>rr_Zone = zone, rr_Room = ''''\<rparr>\<rparr>"

definition ScopeEntities :: "EntityID list \<Rightarrow> Scope" where
  "ScopeEntities ids = With zero_scope ids"

definition ScopeWorld :: Scope where
  "ScopeWorld = zero_scope\<lparr>sc_World := True\<rparr>"

definition AndWorld :: "Scope \<Rightarrow> Scope" where
  "AndWorld s = s\<lparr>sc_World := True\<rparr>"

definition Zoned :: "Scope \<Rightarrow> bool" where
  "Zoned s \<longleftrightarrow> rr_Zone (sc_Room s) \<noteq> ''''"

definition Empty :: "Scope \<Rightarrow> bool" where
  "Empty s \<longleftrightarrow> \<not> Zoned s \<and> length (sc_Entities s) = 0 \<and> \<not> sc_World s"

record pb_Scope =
  ps_RoomZoneId :: string
  ps_RoomId :: string
  ps_EntityIds :: "string list"
  ps_World :: bool

definition Scope_Proto :: "Scope \<Rightarrow> pb_Scope" where
  "Scope_Proto s = \<lparr>ps_RoomZoneId = rr_Zone (sc_Room s), ps_RoomId = rr_Room (sc_Room s),
     ps_EntityIds = sc_Entities s, ps_World = sc_World s\<rparr>"

definition ScopeFromProto :: "pb_Scope \<Rightarrow> Scope" where
  "ScopeFromProto p = With \<lparr>sc_Room = \<lparr>rr_Zone = ps_RoomZoneId p, rr_Room = ps_RoomId p\<rparr>,
     sc_Entities = ps_EntityIds p, sc_World = ps_World p\<rparr> []"

section \<open>Envelopes\<close>

record RoomDescribed =
  rd_ZoneId :: string
  rd_RoomId :: string
  rd_Title :: string
  rd_Description :: string
  rd_Exits :: "string list"
  rd_Occupants :: "string list"
  rd_Linkdead :: "string list"

text \<open>
  The payload oneof. The arguments of the Character arms are the message's fields in order: Zone,
  Room, Character name, and the direction or reason. The last four arms are transport messages.
\<close>

datatype payload =
    NoPayload
  | PRoomDescribed RoomDescribed
  | PCharacterArrived string string string string
  | PCharacterLeft string string string string
  | PCommandRejected string string
  | PZoneFaulted string
  | PSubscriberDropped string
  | PSimulationStopped string
  | PEntityRelocated string string string string string
  | PCharacterLinkdead string string string
  | PCharacterReconnected string string string
  | PCharacterDespawned string string string string
  | PCharacterPurged string string string
  | PHeartbeat
  | PResync u64 string
  | PAttached u64
  | PServerStopping string u32

record EventEnvelope =
  env_EventId :: u64
  env_Tick :: u64
  env_ClientRef :: string
  env_Payload :: payload

type_synonym EventType = string

definition typeOf :: "EventEnvelope \<Rightarrow> EventType" where
  "typeOf env = (case env_Payload env of
       PRoomDescribed _ \<Rightarrow> ''room_described''
     | PCharacterArrived _ _ _ _ \<Rightarrow> ''character_arrived''
     | PCharacterLeft _ _ _ _ \<Rightarrow> ''character_left''
     | PCommandRejected _ _ \<Rightarrow> ''command_rejected''
     | PZoneFaulted _ \<Rightarrow> ''zone_faulted''
     | PSubscriberDropped _ \<Rightarrow> ''subscriber_dropped''
     | PSimulationStopped _ \<Rightarrow> ''simulation_stopped''
     | PEntityRelocated _ _ _ _ _ \<Rightarrow> ''entity_relocated''
     | PCharacterLinkdead _ _ _ \<Rightarrow> ''character_linkdead''
     | PCharacterReconnected _ _ _ \<Rightarrow> ''character_reconnected''
     | PCharacterDespawned _ _ _ _ \<Rightarrow> ''character_despawned''
     | PCharacterPurged _ _ _ \<Rightarrow> ''character_purged''
     | NoPayload \<Rightarrow> '''' | PHeartbeat \<Rightarrow> '''' | PResync _ _ \<Rightarrow> '''' | PAttached _ \<Rightarrow> '''' | PServerStopping _ _ \<Rightarrow> '''')"

definition EventTypes :: "EventType list" where
  "EventTypes = [''room_described'', ''character_arrived'', ''character_left'', ''command_rejected'', ''zone_faulted'',
     ''subscriber_dropped'', ''simulation_stopped'', ''entity_relocated'', ''character_linkdead'',
     ''character_reconnected'', ''character_despawned'', ''character_purged'']"

definition redact :: "EventEnvelope \<Rightarrow> EventEnvelope option" where
  "redact env = (case env_Payload env of
       PZoneFaulted _ \<Rightarrow> Some \<lparr>env_EventId = env_EventId env, env_Tick = env_Tick env, env_ClientRef = env_ClientRef env,
         env_Payload = PZoneFaulted ''''\<rparr>
     | PSimulationStopped _ \<Rightarrow> Some \<lparr>env_EventId = env_EventId env, env_Tick = env_Tick env, env_ClientRef = env_ClientRef env,
         env_Payload = PSimulationStopped ''''\<rparr>
     | _ \<Rightarrow> None)"

record Event =
  ev_ID :: u64
  ev_Tick :: u64
  ev_Zone :: ZoneID
  ev_Type :: EventType
  ev_Scope :: Scope
  ev_Envelope :: EventEnvelope
  ev_Redacted :: "EventEnvelope option"
  ev_Session :: string

definition Deliverable :: "Event \<Rightarrow> bool \<Rightarrow> EventEnvelope" where
  "Deliverable e privileged = (case ev_Redacted e of Some r \<Rightarrow> if privileged then ev_Envelope e else r
     | None \<Rightarrow> ev_Envelope e)"

section \<open>Lemmas\<close>

lemma set_dedup: "set (dedup seen ids) = {eid \<in> set ids. eid \<noteq> '''' \<and> eid \<notin> seen}"
  by (induction ids arbitrary: seen) auto

lemma distinct_dedup: "distinct (dedup seen ids)"
  by (induction ids arbitrary: seen) (auto simp: set_dedup)

lemma dedup_id: "distinct ids \<Longrightarrow> '''' \<notin> set ids \<Longrightarrow> set ids \<inter> seen = {} \<Longrightarrow> dedup seen ids = ids"
  by (induction ids arbitrary: seen) auto

text \<open>A well-formed Scope: addressed Entities sorted, unique and named.\<close>

definition wf_scope :: "Scope \<Rightarrow> bool" where
  "wf_scope s \<longleftrightarrow> sorted (sc_Entities s) \<and> distinct (sc_Entities s) \<and> '''' \<notin> set (sc_Entities s)"

lemma wf_scope_With [simp]: "wf_scope (With s ids)"
  by (simp add: wf_scope_def With_def distinct_dedup set_dedup)

lemma wf_scope_constructors [simp]:
  "wf_scope (ScopeRoom z r)" "wf_scope (ScopeZone z)" "wf_scope (ScopeEntities ids)" "wf_scope ScopeWorld"
  "wf_scope (AndWorld s) = wf_scope s"
  by (simp_all add: ScopeRoom_def ScopeZone_def ScopeEntities_def ScopeWorld_def AndWorld_def zero_scope_def)
     (simp_all add: wf_scope_def)

lemma With_Nil: "wf_scope s \<Longrightarrow> With s [] = s"
  by (simp add: wf_scope_def With_def dedup_id sort_key_id_if_sorted)

text \<open>
  Scopes are sets of observers in canonical form: adding Entities gives exactly the named ones,
  sorted and unique, leaves the Room and the privilege alone, does not depend on the order or the
  number of times an Entity is added, and the log record of a Scope reads back as that Scope.
\<close>
theorem scope_canonical:
  "wf_scope (With s ids) \<and> set (sc_Entities (With s ids)) = (set (sc_Entities s) \<union> set ids) - {''''}
   \<and> sc_Room (With s ids) = sc_Room s \<and> sc_World (With s ids) = sc_World s
   \<and> With (With s ids) ids' = With s (ids' @ ids)
   \<and> ScopeFromProto (Scope_Proto (With s ids)) = With s ids"
proof -
  have s: "set (sc_Entities (With s ids)) = (set (sc_Entities s) \<union> set ids) - {''''}" for s ids
    by (auto simp: With_def set_dedup)
  have "sc_Entities (With (With s ids) ids') = sc_Entities (With s (ids' @ ids))"
    by (rule sorted_distinct_set_unique) (use wf_scope_With[unfolded wf_scope_def] s in auto)
  then have "With (With s ids) ids' = With s (ids' @ ids)" by (simp add: With_def)
  moreover have "ScopeFromProto (Scope_Proto t) = With t []" for t
    by (cases t; cases "sc_Room t") (simp add: ScopeFromProto_def Scope_Proto_def)
  then have "ScopeFromProto (Scope_Proto (With s ids)) = With s ids" by (simp add: With_Nil)
  moreover have "sc_Room (With s ids) = sc_Room s \<and> sc_World (With s ids) = sc_World s" by (simp add: With_def)
  ultimately show ?thesis using s by simp
qed

text \<open>
  C31. What an unprivileged observer receives of an Event made by the simulation carries the Event's
  ID, tick and type, and never the ID of a faulted Zone nor the reason the simulation stopped; every
  other Event arrives whole. A privileged observer receives every Event whole.
\<close>
theorem redaction_hides_only_detail:
  assumes "ev_Redacted e = redact (ev_Envelope e)"
  shows "Deliverable e True = ev_Envelope e
   \<and> env_EventId (Deliverable e False) = env_EventId (ev_Envelope e)
   \<and> env_Tick (Deliverable e False) = env_Tick (ev_Envelope e)
   \<and> env_ClientRef (Deliverable e False) = env_ClientRef (ev_Envelope e)
   \<and> typeOf (Deliverable e False) = typeOf (ev_Envelope e)
   \<and> (case env_Payload (Deliverable e False) of PZoneFaulted z \<Rightarrow> z = '''' | PSimulationStopped r \<Rightarrow> r = ''''
      | _ \<Rightarrow> Deliverable e False = ev_Envelope e)"
  using assms by (auto simp: Deliverable_def redact_def typeOf_def split: payload.splits)

theorem redaction_hides_only_detail_witness:
  "let env = \<lparr>env_EventId = 4, env_Tick = 9, env_ClientRef = '''', env_Payload = PZoneFaulted ''crypt''\<rparr>;
       e = \<lparr>ev_ID = 4, ev_Tick = 9, ev_Zone = ''crypt'', ev_Type = typeOf env, ev_Scope = ScopeWorld, ev_Envelope = env,
         ev_Redacted = redact env, ev_Session = ''''\<rparr>
   in env_Payload (Deliverable e False) = PZoneFaulted '''' \<and> Deliverable e True = env
      \<and> env_EventId (Deliverable e False) = 4"
proof -
  let ?env = "\<lparr>env_EventId = 4, env_Tick = 9, env_ClientRef = '''', env_Payload = PZoneFaulted ''crypt''\<rparr>"
  let ?e = "\<lparr>ev_ID = 4, ev_Tick = 9, ev_Zone = ''crypt'', ev_Type = typeOf ?env, ev_Scope = ScopeWorld, ev_Envelope = ?env,
         ev_Redacted = redact ?env, ev_Session = ''''\<rparr>"
  show ?thesis using redaction_hides_only_detail[of ?e] by (simp add: Let_def Deliverable_def redact_def)
qed

end
