(* ===== verification/Commands.thy ===== *)
theory Commands
  imports Sim_State Events
begin

text \<open>
  The Commands the log carries (\<^verbatim>\<open>log/v1/log.proto\<close>) and every handler of the verb table
  (\<^verbatim>\<open>server/sim/verbs.go\<close>, \<^verbatim>\<open>character.go\<close>, \<^verbatim>\<open>linkdead.go\<close>, \<^verbatim>\<open>purge.go\<close>, and the
  \<^verbatim>\<open>ApplyContext\<close> of \<^verbatim>\<open>engine.go\<close>): look, move, goto, arrive, handoff_ack, bind_character,
  unbind_character, mark_linkdead and purge_character.

  What a handler may read and not change is \<open>apply_ctx\<close>; what it may change is \<open>tick_state\<close>, threaded
  through. A handler ends in an error (a rejection), a panic, or normally; the state it had
  reached is returned in all three, because Go undoes nothing.

  A Zone is named by its key in \<open>ws_Zones\<close>, where the code holds a pointer: the two agree because
  every Zone is filed under its own ID (\<open>keyed_state\<close>). \<^verbatim>\<open>applyBindCharacter\<close> ranges over a Go map;
  the order it meets the Zones in is the context's \<open>ac_MapOrder\<close>, an arbitrary rearrangement.
\<close>

section \<open>Logged Commands\<close>

datatype UnbindReason = UNBIND_REASON_UNSPECIFIED | QUIT | SWITCH | LINKDEAD | UnrecognizedReason int

record ArriveMsg =
  ar_RoomId :: string
  ar_FromDirection :: string
  ar_Entity :: "pb_Entity option"
  ar_OriginZoneId :: string
  ar_OriginRoomId :: string
  ar_HandoffSeq :: u64

record BindMsg =
  bm_CharacterId :: string
  bm_AccountId :: string
  bm_Name :: string
  bm_SpawnRoomId :: string

record LinkdeadMsg =
  lm_CharacterId :: string
  lm_GraceTicks :: u64
  lm_ExtensionTicks :: u64
  lm_MaxTicks :: u64

record SwapMsg =
  sw_PackId :: string
  sw_Version :: u64
  sw_WorldDigest :: bytes
  sw_BaseDigest :: bytes
  sw_ZoneCount :: u32

datatype Command =
    NoCommand
  | Look
  | Move string
  | Goto string string
  | Arrive ArriveMsg
  | HandoffAck string u64
  | HandoffRejected string u64 string
  | BindCharacter BindMsg
  | UnbindCharacter string UnbindReason
  | ContentSwap SwapMsg
  | MarkLinkdead LinkdeadMsg
  | PurgeCharacter string

record LoggedCommand =
  lc_ZoneId :: string
  lc_ActorId :: string
  lc_SessionId :: string
  lc_ClientRef :: string
  lc_TraceId :: string
  lc_AcceptedAtUnixNano :: int
  lc_Command :: Command

text \<open>The getters of the generated code: the zero message when the oneof holds another arm.\<close>

definition GetDirection :: "LoggedCommand \<Rightarrow> string" where
  "GetDirection cmd = (case lc_Command cmd of Move d \<Rightarrow> d | _ \<Rightarrow> '''')"

definition GetGoto :: "LoggedCommand \<Rightarrow> string \<times> string" where
  "GetGoto cmd = (case lc_Command cmd of Goto z r \<Rightarrow> (z, r) | _ \<Rightarrow> ('''', ''''))"

definition GetArrive :: "LoggedCommand \<Rightarrow> ArriveMsg" where
  "GetArrive cmd = (case lc_Command cmd of Arrive a \<Rightarrow> a
     | _ \<Rightarrow> \<lparr>ar_RoomId = '''', ar_FromDirection = '''', ar_Entity = None, ar_OriginZoneId = '''', ar_OriginRoomId = '''', ar_HandoffSeq = 0\<rparr>)"

definition GetHandoffAck :: "LoggedCommand \<Rightarrow> string \<times> u64" where
  "GetHandoffAck cmd = (case lc_Command cmd of HandoffAck e q \<Rightarrow> (e, q) | _ \<Rightarrow> ('''', 0))"

definition GetBindCharacter :: "LoggedCommand \<Rightarrow> BindMsg" where
  "GetBindCharacter cmd = (case lc_Command cmd of BindCharacter b \<Rightarrow> b
     | _ \<Rightarrow> \<lparr>bm_CharacterId = '''', bm_AccountId = '''', bm_Name = '''', bm_SpawnRoomId = ''''\<rparr>)"

definition GetUnbindCharacter :: "LoggedCommand \<Rightarrow> string \<times> UnbindReason" where
  "GetUnbindCharacter cmd = (case lc_Command cmd of UnbindCharacter c r \<Rightarrow> (c, r) | _ \<Rightarrow> ('''', UNBIND_REASON_UNSPECIFIED))"

definition GetMarkLinkdead :: "LoggedCommand \<Rightarrow> LinkdeadMsg" where
  "GetMarkLinkdead cmd = (case lc_Command cmd of MarkLinkdead m \<Rightarrow> m
     | _ \<Rightarrow> \<lparr>lm_CharacterId = '''', lm_GraceTicks = 0, lm_ExtensionTicks = 0, lm_MaxTicks = 0\<rparr>)"

definition GetContentSwap :: "LoggedCommand \<Rightarrow> SwapMsg" where
  "GetContentSwap cmd = (case lc_Command cmd of ContentSwap c \<Rightarrow> c
     | _ \<Rightarrow> \<lparr>sw_PackId = '''', sw_Version = 0, sw_WorldDigest = [], sw_BaseDigest = [], sw_ZoneCount = 0\<rparr>)"

definition GetPurgeCharacter :: "LoggedCommand \<Rightarrow> string" where
  "GetPurgeCharacter cmd = (case lc_Command cmd of PurgeCharacter c \<Rightarrow> c | _ \<Rightarrow> '''')"

type_synonym CommandKind = string

definition KindOf :: "LoggedCommand \<Rightarrow> CommandKind" where
  "KindOf cmd = (case lc_Command cmd of
       Look \<Rightarrow> ''look'' | Move _ \<Rightarrow> ''move'' | Goto _ _ \<Rightarrow> ''goto'' | Arrive _ \<Rightarrow> ''arrive''
     | BindCharacter _ \<Rightarrow> ''bind_character'' | UnbindCharacter _ _ \<Rightarrow> ''unbind_character''
     | ContentSwap _ \<Rightarrow> ''content_swap'' | MarkLinkdead _ \<Rightarrow> ''mark_linkdead''
     | HandoffAck _ _ \<Rightarrow> ''handoff_ack'' | PurgeCharacter _ \<Rightarrow> ''purge_character''
     | NoCommand \<Rightarrow> '''' | HandoffRejected _ _ _ \<Rightarrow> '''')"

record Record =
  rc_Partition :: int
  rc_Offset :: int
  rc_Command :: LoggedCommand

section \<open>Handler errors and reports\<close>

datatype Stage = StageValidate | StageApply | StageFault | NoStage

datatype HandlerError = ErrNotConsumed | RejectError string Stage string

datatype BindBody = BindSpawned | BindWoken | BindPresent | BindRerouted | BindReconnected

record BindResult =
  br_Account :: string
  br_Character :: EntityID
  br_Zone :: ZoneID
  br_Room :: RoomID
  br_Body :: BindBody

record JumpResult =
  jr_From :: RoomRef
  jr_To :: RoomRef

datatype LinkdeadKind = LinkdeadEntered | LinkdeadReconnected | LinkdeadExtended | LinkdeadEnded

record LinkdeadChange =
  ld_Kind :: LinkdeadKind
  ld_Zone :: ZoneID
  ld_Room :: RoomID
  ld_Character :: EntityID
  ld_Session :: string
  ld_TraceID :: string
  ld_Reason :: string
  ld_Since :: u64
  ld_Deadline :: u64

datatype PurgeKind = PurgeApplied | PurgeRerouted | PurgeNoBody

record PurgeChange =
  pc_Kind :: PurgeKind
  pc_Zone :: ZoneID
  pc_Room :: RoomID
  pc_Character :: EntityID
  pc_WasPresent :: bool
  pc_Session :: string
  pc_TraceID :: string

definition transitReject :: HandlerError where
  "transitReject = RejectError ''in_transit'' StageValidate ''you are between places''"

section \<open>The context of a handler\<close>

record handoffSched =
  hs_attempts :: nat
  hs_last :: u64

record apply_ctx =
  ac_Tick :: u64
  ac_World :: World
  ac_Templates :: "TemplateRegistry option"
  ac_Zone :: ZoneID
  ac_Record :: Record
  ac_versions :: "(string, u64) fmap"
  ac_replaying :: bool
  ac_consumed :: bool
  ac_MapOrder :: "ZoneID list \<Rightarrow> ZoneID list"

record tick_state =
  tk_State :: WorldState
  tk_Events :: "Event list"
  tk_Outbound :: "LoggedCommand list"
  tk_handoffs :: "(EntityID \<times> u64) \<rightharpoonup> handoffSched"
  tk_StaleArrivals :: nat
  tk_Linkdead :: "LinkdeadChange list"
  tk_Purges :: "PurgeChange list"
  tk_bind :: "BindResult option"
  tk_jump :: "JumpResult option"

datatype outcome = Done tick_state | Rejected HandlerError tick_state | Panicked string tick_state

type_synonym Apply = "apply_ctx \<Rightarrow> LoggedCommand \<Rightarrow> tick_state \<Rightarrow> outcome"

text \<open>Where a handler left the state, whatever it ended in.\<close>

definition reached :: "outcome \<Rightarrow> tick_state" where
  "reached r = (case r of Done h \<Rightarrow> h | Rejected _ h \<Rightarrow> h | Panicked _ h \<Rightarrow> h)"

definition emit :: "u64 \<Rightarrow> ZoneID \<Rightarrow> string \<Rightarrow> string \<Rightarrow> Scope \<Rightarrow> payload \<Rightarrow> tick_state \<Rightarrow> tick_state" where
  "emit tick zone session clientRef scope p h =
     (let s = tk_State h;
          env = \<lparr>env_EventId = ws_NextEventID s, env_Tick = tick, env_ClientRef = clientRef, env_Payload = p\<rparr>
      in h\<lparr>tk_State := s\<lparr>ws_NextEventID := ws_NextEventID s + 1\<rparr>,
           tk_Events := tk_Events h @ [\<lparr>ev_ID = env_EventId env, ev_Tick = tick, ev_Zone = zone, ev_Type = typeOf env,
             ev_Scope = scope, ev_Envelope = env, ev_Redacted = redact env, ev_Session = session\<rparr>]\<rparr>)"

definition Emit :: "apply_ctx \<Rightarrow> Scope \<Rightarrow> payload \<Rightarrow> tick_state \<Rightarrow> tick_state" where
  "Emit a scope p h = emit (ac_Tick a) (ac_Zone a) (lc_SessionId (rc_Command (ac_Record a)))
     (lc_ClientRef (rc_Command (ac_Record a))) scope p h"

definition Produce :: "LoggedCommand \<Rightarrow> tick_state \<Rightarrow> tick_state" where
  "Produce cmd h = h\<lparr>tk_Outbound := tk_Outbound h @ [cmd]\<rparr>"

definition staleArrival :: "tick_state \<Rightarrow> tick_state" where
  "staleArrival h = h\<lparr>tk_StaleArrivals := Suc (tk_StaleArrivals h)\<rparr>"

definition linkdead :: "apply_ctx \<Rightarrow> LinkdeadChange \<Rightarrow> tick_state \<Rightarrow> tick_state" where
  "linkdead a c h = h\<lparr>tk_Linkdead := tk_Linkdead h @ [c\<lparr>ld_Session := lc_SessionId (rc_Command (ac_Record a)),
     ld_TraceID := lc_TraceId (rc_Command (ac_Record a))\<rparr>]\<rparr>"

definition purged :: "apply_ctx \<Rightarrow> PurgeChange \<Rightarrow> tick_state \<Rightarrow> tick_state" where
  "purged a c h = h\<lparr>tk_Purges := tk_Purges h @ [c\<lparr>pc_Session := lc_SessionId (rc_Command (ac_Record a)),
     pc_TraceID := lc_TraceId (rc_Command (ac_Record a))\<rparr>]\<rparr>"

definition bound :: "BindMsg \<Rightarrow> EntityID \<Rightarrow> ZoneID \<Rightarrow> RoomID \<Rightarrow> BindBody \<Rightarrow> tick_state \<Rightarrow> tick_state" where
  "bound bind eid zone room body h = h\<lparr>tk_bind := Some \<lparr>br_Account = bm_AccountId bind, br_Character = eid, br_Zone = zone,
     br_Room = room, br_Body = body\<rparr>\<rparr>"

definition here :: "apply_ctx \<Rightarrow> tick_state \<Rightarrow> ZoneState" where
  "here a h = zone_of (tk_State h) (ac_Zone a)"

definition upd_here :: "apply_ctx \<Rightarrow> (ZoneState \<Rightarrow> ZoneState) \<Rightarrow> tick_state \<Rightarrow> tick_state" where
  "upd_here a f h = h\<lparr>tk_State := upd_zone (ac_Zone a) f (tk_State h)\<rparr>"

text \<open>An assignment through the pointer found under a key of the Zone's Entities.\<close>

definition mutate_entity :: "EntityID \<Rightarrow> (EntityState \<Rightarrow> EntityState) \<Rightarrow> ZoneState \<Rightarrow> ZoneState" where
  "mutate_entity eid f z = (case fmlookup (zs_Entities z) eid of None \<Rightarrow> z
     | Some e \<Rightarrow> z\<lparr>zs_Entities := fmupd eid (f e) (zs_Entities z)\<rparr>)"

definition entity_here :: "apply_ctx \<Rightarrow> tick_state \<Rightarrow> EntityID \<Rightarrow> EntityState option" where
  "entity_here a h eid = fmlookup (zs_Entities (here a h)) eid"

definition noteHandoff :: "apply_ctx \<Rightarrow> EntityID \<Rightarrow> u64 \<Rightarrow> tick_state \<Rightarrow> tick_state" where
  "noteHandoff a eid seq h = (if ac_replaying a then h
     else h\<lparr>tk_handoffs := (tk_handoffs h)((eid, seq) \<mapsto> \<lparr>hs_attempts = 1, hs_last = ac_Tick a\<rparr>)\<rparr>)"

definition dropTransit :: "apply_ctx \<Rightarrow> EntityID \<Rightarrow> tick_state \<Rightarrow> tick_state" where
  "dropTransit a eid h = (case fmlookup (zs_Transit (here a h)) eid of None \<Rightarrow> h
     | Some rec \<Rightarrow> (upd_here a (del_transit eid) h)
         \<lparr>tk_handoffs := (tk_handoffs h)((eid, en_HandoffSeq (tx_Entity rec)) := None)\<rparr>)"

section \<open>look\<close>

definition describe :: "ZoneID \<Rightarrow> ZoneState \<Rightarrow> Room \<Rightarrow> EntityID \<Rightarrow> RoomDescribed" where
  "describe zid z room viewer =
     (let there = filter (\<lambda>(eid, ent). eid \<noteq> viewer \<and> en_Room ent = rm_ID room \<and> \<not> en_Dormant ent) (entries (zs_Entities z))
      in \<lparr>rd_ZoneId = zid, rd_RoomId = rm_ID room, rd_Title = rm_Title room, rd_Description = rm_Description room,
          rd_Exits = sort (map ex_Direction (rm_Exits room)),
          rd_Occupants = sort (map (\<lambda>(_, ent). DisplayName ent) there),
          rd_Linkdead = sort (map (\<lambda>(_, ent). DisplayName ent) (filter (\<lambda>(_, ent). Linkdead ent) there))\<rparr>)"

definition describeTo :: "apply_ctx \<Rightarrow> Room \<Rightarrow> EntityID \<Rightarrow> tick_state \<Rightarrow> tick_state" where
  "describeTo a room viewer h =
     Emit a (ScopeEntities [viewer]) (PRoomDescribed (describe (ac_Zone a) (here a h) room viewer)) h"

definition locate :: "apply_ctx \<Rightarrow> LoggedCommand \<Rightarrow> tick_state \<Rightarrow> HandlerError + (EntityState \<times> Room)" where
  "locate a cmd h =
     (if fmlookup (zs_Transit (here a h)) (lc_ActorId cmd) \<noteq> None then
        Inl (RejectError ''in_transit'' StageValidate ''you are between places'')
      else case entity_here a h (lc_ActorId cmd) of
        None \<Rightarrow> Inl (RejectError ''actor_not_found'' StageValidate ''you are not here'')
      | Some actor \<Rightarrow>
          if \<not> Present actor then Inl (RejectError ''actor_not_found'' StageValidate ''you are not here'')
          else case Resolve (ac_World a) \<lparr>rr_Zone = ac_Zone a, rr_Room = en_Room actor\<rparr> of
            None \<Rightarrow> Inl (RejectError ''actor_not_found'' StageValidate ''you are not here'')
          | Some room \<Rightarrow> Inr (actor, room))"

definition validateLook :: "apply_ctx \<Rightarrow> LoggedCommand \<Rightarrow> tick_state \<Rightarrow> HandlerError + (EntityState \<times> Room)" where
  "validateLook a cmd h = locate a cmd h"

definition applyLook :: Apply where
  "applyLook a cmd h = (if \<not> ac_consumed a then Rejected ErrNotConsumed h
     else case validateLook a cmd h of Inl err \<Rightarrow> Rejected err h
     | Inr (actor, room) \<Rightarrow>
         Done (Emit a (ScopeEntities [en_ID actor]) (PRoomDescribed (describe (ac_Zone a) (here a h) room (en_ID actor))) h))"

section \<open>move\<close>

definition wayBack :: "Room \<Rightarrow> Direction \<Rightarrow> RoomRef \<Rightarrow> string" where
  "wayBack dest dir origin = (if dir = '''' then ''''
     else if list_ex (\<lambda>e. ex_Direction e = dir \<and> ex_To e = origin) (rm_Exits dest) then dir else '''')"

definition validateMove :: "apply_ctx \<Rightarrow> LoggedCommand \<Rightarrow> tick_state \<Rightarrow> HandlerError + (EntityState \<times> Room \<times> Exit)" where
  "validateMove a cmd h = (case locate a cmd h of Inl err \<Rightarrow> Inl err
     | Inr (actor, room) \<Rightarrow>
         if Linkdead actor then Inl (RejectError ''actor_linkdead'' StageValidate ''you can't move right now'')
         else let dir = GetDirection cmd in
           case find (\<lambda>e. ex_Direction e = dir) (rm_Exits room) of
             Some e \<Rightarrow> Inr (actor, room, e)
           | None \<Rightarrow> Inl (RejectError ''no_such_exit'' StageValidate (''there is no exit '' @ dir)))"

definition arriveFor :: "ZoneID \<Rightarrow> TransitRecord \<Rightarrow> ArriveMsg" where
  "arriveFor origin rec =
     \<lparr>ar_RoomId = tx_Room rec,
      ar_FromDirection = (case Reverse (tx_Direction rec) of Some back \<Rightarrow> back | None \<Rightarrow> ''''),
      ar_Entity = Some (Entity_Proto (tx_Entity rec)),
      ar_OriginZoneId = origin,
      ar_OriginRoomId = en_Room (tx_Entity rec),
      ar_HandoffSeq = en_HandoffSeq (tx_Entity rec)\<rparr>"

text \<open>
  The actor is mutated through its pointer before it is cloned into the transit record, so the
  record holds it with the new sequence and the Room it left.
\<close>

definition depart :: "apply_ctx \<Rightarrow> LoggedCommand \<Rightarrow> EntityState \<Rightarrow> RoomRef \<Rightarrow> Direction \<Rightarrow> tick_state \<Rightarrow> tick_state" where
  "depart a cmd actor to dir h =
     (let actor' = actor\<lparr>en_HandoffSeq := en_HandoffSeq actor + 1\<rparr>;
          rec = \<lparr>tx_Entity = actor', tx_To = rr_Zone to, tx_Room = rr_Room to, tx_Direction = dir\<rparr>;
          h1 = upd_here a (setTransit rec \<circ> del_entity (en_ID actor)) h;
          h2 = noteHandoff a (en_ID actor) (en_HandoffSeq actor') h1
      in Produce \<lparr>lc_ZoneId = rr_Zone to, lc_ActorId = lc_ActorId cmd, lc_SessionId = lc_SessionId cmd,
           lc_ClientRef = lc_ClientRef cmd, lc_TraceId = lc_TraceId cmd, lc_AcceptedAtUnixNano = 0,
           lc_Command = Arrive (arriveFor (ac_Zone a) rec)\<rparr> h2)"

definition applyMove :: Apply where
  "applyMove a cmd h = (if \<not> ac_consumed a then Rejected ErrNotConsumed h
     else case validateMove a cmd h of Inl err \<Rightarrow> Rejected err h
     | Inr (actor, from, exit) \<Rightarrow>
         let name = DisplayName actor;
             h1 = Emit a (With (ScopeRoom (ac_Zone a) (rm_ID from)) [en_ID actor])
                    (PCharacterLeft (ac_Zone a) (rm_ID from) name (ex_Direction exit)) h
         in if \<not> ex_CrossZone exit then
              let to = rr_Room (ex_To exit);
                  h2 = upd_here a (mutate_entity (lc_ActorId cmd) (\<lambda>e. e\<lparr>en_Room := to\<rparr>)) h1;
                  dest = Resolve (ac_World a) \<lparr>rr_Zone = ac_Zone a, rr_Room = to\<rparr>;
                  came = (case dest of None \<Rightarrow> ''''
                    | Some d \<Rightarrow> wayBack d (case Reverse (ex_Direction exit) of Some r \<Rightarrow> r | None \<Rightarrow> '''')
                        \<lparr>rr_Zone = ac_Zone a, rr_Room = rm_ID from\<rparr>);
                  h3 = Emit a (With (ScopeRoom (ac_Zone a) to) [en_ID actor]) (PCharacterArrived (ac_Zone a) to name came) h2
              in (case dest of None \<Rightarrow> Done h3 | Some d \<Rightarrow> Done (describeTo a d (en_ID actor) h3))
            else Done (depart a cmd actor (ex_To exit) (ex_Direction exit) h1))"

section \<open>goto\<close>

definition validateGoto ::
  "apply_ctx \<Rightarrow> LoggedCommand \<Rightarrow> tick_state \<Rightarrow> HandlerError + (EntityState \<times> Room \<times> RoomRef \<times> Room)" where
  "validateGoto a cmd h = (case locate a cmd h of Inl err \<Rightarrow> Inl err
     | Inr (actor, room) \<Rightarrow>
         if Linkdead actor then Inl (RejectError ''actor_linkdead'' StageValidate ''you can't move right now'')
         else let target = \<lparr>rr_Zone = fst (GetGoto cmd), rr_Room = snd (GetGoto cmd)\<rparr>;
                  msg = ''there is no room '' @ rr_Zone target @ ''/'' @ rr_Room target
           in if fmlookup (w_Zones (ac_World a)) (rr_Zone target) = None then
                Inl (RejectError ''unknown_zone'' StageValidate msg)
              else case Resolve (ac_World a) target of
                None \<Rightarrow> Inl (RejectError ''unknown_room'' StageValidate msg)
              | Some to \<Rightarrow> Inr (actor, room, target, to))"

definition applyGoto :: Apply where
  "applyGoto a cmd h = (if \<not> ac_consumed a then Rejected ErrNotConsumed h
     else case validateGoto a cmd h of Inl err \<Rightarrow> Rejected err h
     | Inr (actor, from_room, target, to) \<Rightarrow>
         let from = \<lparr>rr_Zone = ac_Zone a, rr_Room = rm_ID from_room\<rparr>;
             h0 = h\<lparr>tk_jump := Some \<lparr>jr_From = from, jr_To = target\<rparr>\<rparr>
         in if target = from then Done (describeTo a from_room (en_ID actor) h0)
            else
              let name = DisplayName actor;
                  h1 = Emit a (With (ScopeRoom (ac_Zone a) (rm_ID from_room)) [en_ID actor])
                         (PCharacterLeft (ac_Zone a) (rm_ID from_room) name '''') h0
              in if rr_Zone target = ac_Zone a then
                   let h2 = upd_here a (mutate_entity (lc_ActorId cmd) (\<lambda>e. e\<lparr>en_Room := rm_ID to\<rparr>)) h1;
                       h3 = Emit a (With (ScopeRoom (ac_Zone a) (rm_ID to)) [en_ID actor])
                              (PCharacterArrived (ac_Zone a) (rm_ID to) name '''') h2
                   in Done (describeTo a to (en_ID actor) h3)
                 else Done (depart a cmd actor target '''' h1))"

section \<open>arrive\<close>

definition invalidArrival :: "ArriveMsg \<Rightarrow> bool" where
  "invalidArrival arr \<longleftrightarrow> (case ar_Entity arr of None \<Rightarrow> True
     | Some e \<Rightarrow> pe_Id e = '''' \<or> ar_HandoffSeq arr = 0 \<or> ar_HandoffSeq arr \<noteq> pe_HandoffSeq e)"

definition ack :: "LoggedCommand \<Rightarrow> EntityID \<Rightarrow> u64 \<Rightarrow> tick_state \<Rightarrow> tick_state" where
  "ack cmd eid seq h =
     (let origin = ar_OriginZoneId (GetArrive cmd)
      in if origin = '''' then h
         else Produce \<lparr>lc_ZoneId = origin, lc_ActorId = eid, lc_SessionId = '''', lc_ClientRef = '''',
                lc_TraceId = lc_TraceId cmd, lc_AcceptedAtUnixNano = 0, lc_Command = HandoffAck eid seq\<rparr> h)"

record arriveView =
  av_id :: EntityID
  av_seq :: u64
  av_drop :: bool
  av_stale :: bool
  av_retry :: bool
  av_reissue :: bool

definition mark_of :: "ZoneState \<Rightarrow> EntityID \<Rightarrow> PlacedMark" where
  "mark_of z eid = (case fmlookup (zs_Placed z) eid of Some m \<Rightarrow> m | None \<Rightarrow> \<lparr>pm_Seq = 0, pm_Rejected = False\<rparr>)"

definition validateArrive :: "apply_ctx \<Rightarrow> LoggedCommand \<Rightarrow> tick_state \<Rightarrow> HandlerError + arriveView" where
  "validateArrive a cmd h =
     (let arr = GetArrive cmd in
      if invalidArrival arr then Inl (RejectError ''invalid_arrival'' StageValidate ''the way ahead is gone'')
      else
        let eid = (case ar_Entity arr of Some e \<Rightarrow> pe_Id e | None \<Rightarrow> '''');
            seq = ar_HandoffSeq arr;
            v = \<lparr>av_id = eid, av_seq = seq, av_drop = False, av_stale = False, av_retry = False, av_reissue = False\<rparr>;
            held = entity_here a h eid;
            mark = mark_of (here a h) eid
        in if seq \<le> pm_Seq mark then
             (if seq = pm_Seq mark \<and> pm_Rejected mark then Inr (v\<lparr>av_reissue := True\<rparr>)
              else (case held of
                  Some e \<Rightarrow> if en_HandoffSeq e = seq then Inr (v\<lparr>av_retry := True\<rparr>) else Inr (v\<lparr>av_stale := True\<rparr>)
                | None \<Rightarrow> Inr (v\<lparr>av_stale := True\<rparr>)))
           else if held \<noteq> None then Inl (RejectError ''entity_present'' StageValidate ''the way ahead is gone'')
           else (case fmlookup (zs_Transit (here a h)) eid of
               None \<Rightarrow> Inr v
             | Some rec \<Rightarrow>
                 if en_HandoffSeq (tx_Entity rec) \<ge> seq then
                   Inl (RejectError ''entity_present'' StageValidate ''the way ahead is gone'')
                 else Inr (v\<lparr>av_drop := True\<rparr>)))"

text \<open>
  The placing branch of \<^verbatim>\<open>applyArrive\<close>. A Zone whose fallback is not one of its Rooms gives a
  nil Room, and reading its ID panics.
\<close>

definition place :: "apply_ctx \<Rightarrow> LoggedCommand \<Rightarrow> pb_Entity \<Rightarrow> arriveView \<Rightarrow> tick_state \<Rightarrow> outcome" where
  "place a cmd p v h =
     (let arr = GetArrive cmd in
      case Resolve (ac_World a) \<lparr>rr_Zone = ac_Zone a, rr_Room = ar_RoomId arr\<rparr> of
        None \<Rightarrow>
          (case fmlookup (w_Zones (ac_World a)) (ac_Zone a) of
             None \<Rightarrow> Rejected (RejectError ''unknown_room'' StageValidate ''the way ahead is gone'') h
           | Some zone \<Rightarrow>
               (case fmlookup (zn_Rooms zone) (zn_Fallback zone) of
                  None \<Rightarrow> Panicked ''invalid memory address or nil pointer dereference'' h
                | Some fallback \<Rightarrow>
                    let ent = EntityFromProto p (rm_ID fallback);
                        h1 = upd_here a (markPlaced (av_id v) (av_seq v) \<circ> put_entity ent) h;
                        h2 = Emit a (With (ScopeRoom (ac_Zone a) (rm_ID fallback)) [en_ID ent])
                          (PEntityRelocated (ac_Zone a) (DisplayName ent) (ar_RoomId arr) (rm_ID fallback) ''room_removed'') h1
                    in Done (ack cmd (av_id v) (av_seq v) (describeTo a fallback (en_ID ent) h2))))
      | Some room \<Rightarrow>
          let ent = EntityFromProto p (rm_ID room);
              h1 = upd_here a (markPlaced (av_id v) (av_seq v) \<circ> put_entity ent) h;
              h2 = Emit a (With (ScopeRoom (ac_Zone a) (rm_ID room)) [en_ID ent])
                (PCharacterArrived (ac_Zone a) (rm_ID room) (DisplayName ent)
                  (wayBack room (ar_FromDirection arr) \<lparr>rr_Zone = ar_OriginZoneId arr, rr_Room = ar_OriginRoomId arr\<rparr>)) h1
          in Done (ack cmd (av_id v) (av_seq v) (describeTo a room (en_ID ent) h2)))"

definition applyArrive :: Apply where
  "applyArrive a cmd h = (if \<not> ac_consumed a then Rejected ErrNotConsumed h
     else case validateArrive a cmd h of Inl err \<Rightarrow> Rejected err h
     | Inr v \<Rightarrow>
         let h1 = (if av_drop v then dropTransit a (av_id v) h else h)
         in if av_reissue v then Done h1
            else if av_stale v \<or> av_retry v then
              Done (ack cmd (av_id v) (av_seq v) (if av_stale v then staleArrival h1 else h1))
            else (case ar_Entity (GetArrive cmd) of
                None \<Rightarrow> Done h1
              | Some p \<Rightarrow> place a cmd p v h1))"

definition applyHandoffAck :: Apply where
  "applyHandoffAck a cmd h = (if \<not> ac_consumed a then Rejected ErrNotConsumed h
     else case GetHandoffAck cmd of (eid, seq) \<Rightarrow>
       (case fmlookup (zs_Transit (here a h)) eid of
          Some rec \<Rightarrow> Done (if en_HandoffSeq (tx_Entity rec) = seq then dropTransit a eid h else h)
        | None \<Rightarrow> Done h))"


section \<open>The linkdead lifecycle\<close>

definition no_change :: LinkdeadChange where
  "no_change = \<lparr>ld_Kind = LinkdeadEntered, ld_Zone = '''', ld_Room = '''', ld_Character = '''', ld_Session = '''', ld_TraceID = '''',
     ld_Reason = '''', ld_Since = 0, ld_Deadline = 0\<rparr>"

text \<open>The body a Command names: its actor, or the payload's Character when the envelope has none.\<close>

definition body_of :: "LoggedCommand \<Rightarrow> string \<Rightarrow> EntityID" where
  "body_of cmd fromPayload = (if lc_ActorId cmd = '''' then fromPayload else lc_ActorId cmd)"

definition mark_fields :: "u64 \<Rightarrow> LinkdeadMsg \<Rightarrow> EntityState \<Rightarrow> EntityState" where
  "mark_fields t mark ent =
     (let deadline = t + lm_GraceTicks mark; ceiling = t + lm_MaxTicks mark
      in ent\<lparr>en_LinkdeadSince := t, en_LinkdeadDeadline := (if deadline > ceiling then ceiling else deadline),
             en_LinkdeadCeiling := ceiling, en_LinkdeadExtension := lm_ExtensionTicks mark\<rparr>)"

definition applyMarkLinkdead :: Apply where
  "applyMarkLinkdead a cmd h = (if \<not> ac_consumed a then Rejected ErrNotConsumed h
     else let mark = GetMarkLinkdead cmd; eid = body_of cmd (lm_CharacterId mark) in
       if fmlookup (zs_Transit (here a h)) eid \<noteq> None then Rejected transitReject h
       else case entity_here a h eid of None \<Rightarrow> Done h
         | Some ent \<Rightarrow>
             if \<not> Present ent \<or> Linkdead ent then Done h
             else let ent' = mark_fields (ac_Tick a) mark ent;
                      h1 = upd_here a (mutate_entity eid (mark_fields (ac_Tick a) mark)) h;
                      h2 = Emit a (With (ScopeRoom (ac_Zone a) (en_Room ent)) [en_ID ent])
                             (PCharacterLinkdead (ac_Zone a) (en_Room ent) (DisplayName ent)) h1
                  in Done (linkdead a (no_change\<lparr>ld_Kind := LinkdeadEntered, ld_Zone := ac_Zone a, ld_Room := en_Room ent,
                       ld_Character := en_ID ent, ld_Since := ac_Tick a, ld_Deadline := en_LinkdeadDeadline ent'\<rparr>) h2))"

definition reconnect :: "apply_ctx \<Rightarrow> EntityID \<Rightarrow> EntityState \<Rightarrow> tick_state \<Rightarrow> tick_state" where
  "reconnect a eid ent h =
     (let h1 = upd_here a (mutate_entity eid clearLinkdead) h;
          h2 = Emit a (With (ScopeRoom (ac_Zone a) (en_Room ent)) [en_ID ent])
                 (PCharacterReconnected (ac_Zone a) (en_Room ent) (DisplayName ent)) h1
      in linkdead a (no_change\<lparr>ld_Kind := LinkdeadReconnected, ld_Zone := ac_Zone a, ld_Room := en_Room ent,
           ld_Character := en_ID ent, ld_Since := en_LinkdeadSince ent, ld_Deadline := en_LinkdeadDeadline ent\<rparr>) h2)"

text \<open>
  \<^verbatim>\<open>despawn\<close> is called from handlers and from the expiry pass, with the two callbacks the caller
  gives it: how an Event is emitted and how the end of a grace is reported.
\<close>

definition despawn_fields :: "u64 \<Rightarrow> EntityState \<Rightarrow> EntityState" where
  "despawn_fields tick ent = clearLinkdead (ent\<lparr>en_Dormant := True, en_DormantSince := tick\<rparr>)"

definition despawn ::
  "ZoneID \<Rightarrow> EntityID \<Rightarrow> EntityState \<Rightarrow> u64 \<Rightarrow> string \<Rightarrow> (Scope \<Rightarrow> payload \<Rightarrow> tick_state \<Rightarrow> tick_state)
    \<Rightarrow> (LinkdeadChange \<Rightarrow> tick_state \<Rightarrow> tick_state) \<Rightarrow> tick_state \<Rightarrow> tick_state" where
  "despawn zid eid ent tick reason emt report h =
     (let h1 = h\<lparr>tk_State := upd_zone zid (mutate_entity eid (despawn_fields tick)) (tk_State h)\<rparr>;
          h2 = emt (With (ScopeRoom zid (en_Room ent)) [en_ID ent])
                 (PCharacterDespawned zid (en_Room ent) (DisplayName ent) reason) h1
      in if Linkdead ent then
           report (no_change\<lparr>ld_Kind := LinkdeadEnded, ld_Zone := zid, ld_Room := en_Room ent, ld_Character := en_ID ent,
             ld_Reason := reason, ld_Since := en_LinkdeadSince ent, ld_Deadline := en_LinkdeadDeadline ent\<rparr>) h2
         else h2)"

definition despawnReason :: "UnbindReason \<Rightarrow> string" where
  "despawnReason r = (case r of SWITCH \<Rightarrow> ''switch'' | LINKDEAD \<Rightarrow> ''linkdead'' | _ \<Rightarrow> ''quit'')"

section \<open>Characters\<close>

definition CharacterTemplate :: TemplateRef where
  "CharacterTemplate = ''andara.core.Character''"

definition isCharacter :: "EntityState \<Rightarrow> bool" where
  "isCharacter ent \<longleftrightarrow> en_Template ent = CharacterTemplate"

definition arrived :: "ZoneID \<Rightarrow> RoomID \<Rightarrow> string \<Rightarrow> payload" where
  "arrived zone room name = PCharacterArrived zone room name ''''"

definition ContentVersionOf :: "(string, u64) fmap \<Rightarrow> Template \<Rightarrow> string" where
  "ContentVersionOf versions t =
     (let pack = Ref_Pack (tm_Ref t) in
      case fmlookup versions pack of Some v \<Rightarrow> pack @ ''@'' @ FormatUint v
      | None \<Rightarrow> (case entries versions of [(p, v)] \<Rightarrow> p @ ''@'' @ FormatUint v | _ \<Rightarrow> ''''))"

text \<open>The body is in this Zone: reconnected, taken where it stands, or woken.\<close>

definition bind_here :: "apply_ctx \<Rightarrow> BindMsg \<Rightarrow> EntityID \<Rightarrow> EntityState \<Rightarrow> tick_state \<Rightarrow> outcome" where
  "bind_here a bind eid found h =
     (let rename = (\<lambda>e. if en_Name e = '''' \<and> bm_Name bind \<noteq> '''' then e\<lparr>en_Name := bm_Name bind\<rparr> else e);
          ent = rename found;
          h1 = upd_here a (mutate_entity eid rename) h
      in if Linkdead ent then Done (bound bind eid (ac_Zone a) (en_Room ent) BindReconnected (reconnect a eid ent h1))
         else if \<not> en_Dormant ent then
           Done (bound bind eid (ac_Zone a) (en_Room ent) BindPresent
             (Emit a (ScopeEntities [en_ID ent]) (arrived (ac_Zone a) (en_Room ent) (DisplayName ent)) h1))
         else
           let h2 = upd_here a (mutate_entity eid (\<lambda>e. e\<lparr>en_Dormant := False, en_DormantSince := 0\<rparr>)) h1
           in Done (bound bind eid (ac_Zone a) (en_Room ent) BindWoken
                (Emit a (With (ScopeRoom (ac_Zone a) (en_Room ent)) [en_ID ent]) (arrived (ac_Zone a) (en_Room ent) (DisplayName ent)) h2)))"

text \<open>The body is in another Zone: announced where it stands, or the Command re-routed there.\<close>

definition bind_elsewhere :: "apply_ctx \<Rightarrow> LoggedCommand \<Rightarrow> EntityID \<Rightarrow> ZoneID \<Rightarrow> EntityState \<Rightarrow> tick_state \<Rightarrow> outcome" where
  "bind_elsewhere a cmd eid zid ent h =
     (let bind = GetBindCharacter cmd in
      if \<not> en_Dormant ent \<and> \<not> Linkdead ent then
        Done (bound bind eid zid (en_Room ent) BindPresent
          (Emit a (ScopeEntities [en_ID ent]) (arrived zid (en_Room ent) (DisplayName ent)) h))
      else Done (bound bind eid zid (en_Room ent) BindRerouted
        (Produce \<lparr>lc_ZoneId = zid, lc_ActorId = lc_ActorId cmd, lc_SessionId = lc_SessionId cmd, lc_ClientRef = lc_ClientRef cmd,
           lc_TraceId = lc_TraceId cmd, lc_AcceptedAtUnixNano = 0,
           lc_Command = BindCharacter (bind\<lparr>bm_SpawnRoomId := ''''\<rparr>)\<rparr> h)))"

text \<open>No Zone holds the body: refused while it is between Zones or its ID is spent, else a new body.\<close>

definition bind_new :: "apply_ctx \<Rightarrow> BindMsg \<Rightarrow> EntityID \<Rightarrow> tick_state \<Rightarrow> outcome" where
  "bind_new a bind eid h =
     (if list_ex (\<lambda>zid. fmlookup (zs_Transit (zone_of (tk_State h) zid)) eid \<noteq> None) (SortedZoneIDs (tk_State h)) then
        Rejected transitReject h
      else if list_ex (\<lambda>zid. fmlookup (zs_Placed (zone_of (tk_State h) zid)) eid \<noteq> None) (SortedZoneIDs (tk_State h)) then
        Rejected (RejectError ''id_reused'' StageValidate ''that character cannot enter the world'') h
      else case Resolve (ac_World a) \<lparr>rr_Zone = ac_Zone a, rr_Room = bm_SpawnRoomId bind\<rparr> of
        None \<Rightarrow> Rejected (RejectError ''unknown_room'' StageValidate ''there is nowhere to arrive'') h
      | Some room \<Rightarrow>
          (case Registry_Get (ac_Templates a) CharacterTemplate of
             None \<Rightarrow> Rejected (RejectError ''template_missing'' StageValidate ''this world cannot hold a character yet'') h
           | Some tmpl \<Rightarrow>
               let ent = (Instantiate tmpl eid (ContentVersionOf (ac_versions a) tmpl))\<lparr>en_Room := rm_ID room, en_Name := bm_Name bind\<rparr>;
                   h1 = upd_here a (put_entity ent) h
               in Done (bound bind eid (ac_Zone a) (rm_ID room) BindSpawned
                    (Emit a (With (ScopeRoom (ac_Zone a) (rm_ID room)) [en_ID ent]) (arrived (ac_Zone a) (rm_ID room) (DisplayName ent)) h1))))"

text \<open>The first Zone other than this one that holds the body, in the order Go's map gives them.\<close>

definition elsewhere :: "apply_ctx \<Rightarrow> EntityID \<Rightarrow> tick_state \<Rightarrow> ZoneID option" where
  "elsewhere a eid h = find (\<lambda>zid. zid \<noteq> ac_Zone a \<and> fmlookup (zs_Entities (zone_of (tk_State h) zid)) eid \<noteq> None)
     (ac_MapOrder a (keys (ws_Zones (tk_State h))))"

definition applyBindCharacter :: Apply where
  "applyBindCharacter a cmd h = (if \<not> ac_consumed a then Rejected ErrNotConsumed h
     else let bind = GetBindCharacter cmd; eid = body_of cmd (bm_CharacterId bind) in
       case entity_here a h eid of
         Some ent \<Rightarrow> bind_here a bind eid ent h
       | None \<Rightarrow>
           (case elsewhere a eid h of
              Some zid \<Rightarrow> bind_elsewhere a cmd eid zid (the (fmlookup (zs_Entities (zone_of (tk_State h) zid)) eid)) h
            | None \<Rightarrow> bind_new a bind eid h))"

definition applyUnbindCharacter :: Apply where
  "applyUnbindCharacter a cmd h = (if \<not> ac_consumed a then Rejected ErrNotConsumed h
     else let eid = body_of cmd (fst (GetUnbindCharacter cmd)) in
       if fmlookup (zs_Transit (here a h)) eid \<noteq> None then Rejected transitReject h
       else case entity_here a h eid of None \<Rightarrow> Done h
         | Some ent \<Rightarrow> if \<not> Present ent then Done h
             else Done (despawn (ac_Zone a) eid ent (ac_Tick a) (despawnReason (snd (GetUnbindCharacter cmd))) (Emit a) (linkdead a) h))"

section \<open>Purging a deleted Character\<close>

definition purge_change :: "PurgeKind \<Rightarrow> ZoneID \<Rightarrow> RoomID \<Rightarrow> EntityID \<Rightarrow> bool \<Rightarrow> PurgeChange" where
  "purge_change k zid room eid was = \<lparr>pc_Kind = k, pc_Zone = zid, pc_Room = room, pc_Character = eid, pc_WasPresent = was,
     pc_Session = '''', pc_TraceID = ''''\<rparr>"

definition purge_here :: "apply_ctx \<Rightarrow> EntityID \<Rightarrow> EntityState \<Rightarrow> tick_state \<Rightarrow> outcome" where
  "purge_here a eid ent h =
     (let h1 = (if Present ent then despawn (ac_Zone a) eid ent (ac_Tick a) ''purge'' (Emit a) (linkdead a) h else h);
          h2 = upd_here a (del_entity eid) h1;
          h3 = Emit a (ScopeEntities [eid]) (PCharacterPurged (ac_Zone a) (en_Room ent) (DisplayName ent)) h2
      in Done (purged a (purge_change PurgeApplied (ac_Zone a) (en_Room ent) eid (Present ent)) h3))"

definition character_at :: "tick_state \<Rightarrow> EntityID \<Rightarrow> ZoneID \<Rightarrow> bool" where
  "character_at h eid zid = (case fmlookup (zs_Entities (zone_of (tk_State h) zid)) eid of None \<Rightarrow> False | Some e \<Rightarrow> isCharacter e)"

definition applyPurgeCharacter :: Apply where
  "applyPurgeCharacter a cmd h = (if \<not> ac_consumed a then Rejected ErrNotConsumed h
     else let eid = body_of cmd (GetPurgeCharacter cmd); zids = SortedZoneIDs (tk_State h) in
       if character_at h eid (ac_Zone a) then purge_here a eid (the (entity_here a h eid)) h
       else case find (\<lambda>zid. zid \<noteq> ac_Zone a \<and> character_at h eid zid) zids of
         Some zid \<Rightarrow>
           let ent = the (fmlookup (zs_Entities (zone_of (tk_State h) zid)) eid) in
           Done (purged a (purge_change PurgeRerouted zid (en_Room ent) eid (Present ent))
             (Produce \<lparr>lc_ZoneId = zid, lc_ActorId = lc_ActorId cmd, lc_SessionId = lc_SessionId cmd, lc_ClientRef = lc_ClientRef cmd,
                lc_TraceId = lc_TraceId cmd, lc_AcceptedAtUnixNano = 0, lc_Command = PurgeCharacter eid\<rparr> h))
       | None \<Rightarrow>
           if list_ex (\<lambda>zid. fmlookup (zs_Transit (zone_of (tk_State h) zid)) eid \<noteq> None) zids then Rejected transitReject h
           else Done (purged a (purge_change PurgeNoBody (ac_Zone a) '''' eid False) h))"

section \<open>The verb table\<close>

definition Handlers :: "CommandKind \<Rightarrow> Apply option" where
  "Handlers = map_of
     [(''look'', applyLook), (''move'', applyMove), (''goto'', applyGoto), (''arrive'', applyArrive),
      (''handoff_ack'', applyHandoffAck), (''bind_character'', applyBindCharacter),
      (''unbind_character'', applyUnbindCharacter), (''mark_linkdead'', applyMarkLinkdead),
      (''purge_character'', applyPurgeCharacter)]"

definition RejectCodes :: "string list" where
  "RejectCodes = [''actor_linkdead'', ''actor_not_found'', ''entity_present'', ''exit_blocked'', ''id_reused'', ''in_transit'',
     ''invalid_arrival'', ''misrouted'', ''no_such_exit'', ''rejected'', ''template_missing'', ''unknown_room'', ''unknown_zone'',
     ''unsupported_command'', ''zone_faulted'']"

section \<open>The combat hook\<close>

text \<open>
  \<^verbatim>\<open>Engine.OnCombatInteraction\<close>, called inside a tick: the first Zone, by ID, that holds the target.
\<close>

definition extend_deadline :: "u64 \<Rightarrow> EntityState \<Rightarrow> EntityState" where
  "extend_deadline tick ent = ent\<lparr>en_LinkdeadDeadline :=
     min (max (en_LinkdeadDeadline ent) (tick + en_LinkdeadExtension ent)) (en_LinkdeadCeiling ent)\<rparr>"

definition OnCombatInteraction :: "u64 \<Rightarrow> EntityID \<Rightarrow> tick_state \<Rightarrow> tick_state" where
  "OnCombatInteraction tick target h =
     (case find (\<lambda>zid. fmlookup (zs_Entities (zone_of (tk_State h) zid)) target \<noteq> None) (SortedZoneIDs (tk_State h)) of
        None \<Rightarrow> h
      | Some zid \<Rightarrow>
          let ent = the (fmlookup (zs_Entities (zone_of (tk_State h) zid)) target) in
          if \<not> Linkdead ent then h
          else let ent' = extend_deadline tick ent in
            h\<lparr>tk_State := upd_zone zid (mutate_entity target (extend_deadline tick)) (tk_State h),
              tk_Linkdead := tk_Linkdead h @ [no_change\<lparr>ld_Kind := LinkdeadExtended, ld_Zone := zid, ld_Room := en_Room ent,
                ld_Character := en_ID ent, ld_Since := en_LinkdeadSince ent, ld_Deadline := en_LinkdeadDeadline ent'\<rparr>]\<rparr>)"

end
