(* ===== verification/Handler_Contract.thy ===== *)
theory Handler_Contract
  imports Commands
begin

text \<open>
  The contract between the tick and its handlers. The tick relies on every handler to touch only
  the Zone it was dispatched to, to number its Events consecutively from the World's counter, to
  only append to what the tick reports, and never to move the clock, the offsets, the seed or the
  generator. \<open>zone_step\<close> is that contract as a relation between the tick's states before and after;
  the locale \<open>handler\<close> states it of a handler and each handler of the verb table is an
  interpretation.
\<close>

section \<open>What a handler may change\<close>

definition numbered :: "u64 \<Rightarrow> u64 \<Rightarrow> Event list \<Rightarrow> bool" where
  "numbered tick n evs \<longleftrightarrow> map ev_ID evs = map (\<lambda>i. n + of_nat i) [0..<length evs]
     \<and> (\<forall>e \<in> set evs. ev_Tick e = tick \<and> env_Tick (ev_Envelope e) = tick \<and> env_EventId (ev_Envelope e) = ev_ID e
          \<and> ev_Type e = typeOf (ev_Envelope e) \<and> ev_Redacted e = redact (ev_Envelope e) \<and> wf_scope (ev_Scope e))"

lemma numbered_Nil [simp]: "numbered t n []"
  by (simp add: numbered_def)

lemma numbered_append:
  assumes "numbered t n xs" "numbered t (n + of_nat (length xs)) ys"
  shows "numbered t n (xs @ ys)"
proof -
  have "[0..<length xs + length ys] = [0..<length xs] @ map (\<lambda>i. i + length xs) [0..<length ys]"
    using upt_add_eq_append[of 0 "length xs" "length ys"] map_add_upt[of "length xs" "length ys"]
    by (metis add.commute le0)
  then have "map (\<lambda>i. n + of_nat i) [0..<length (xs @ ys)] =
      map (\<lambda>i. n + of_nat i) [0..<length xs] @ map (\<lambda>i. n + of_nat (length xs) + of_nat i) [0..<length ys]"
    by (simp add: comp_def add.assoc add.commute)
  with assms have "map ev_ID (xs @ ys) = map (\<lambda>i. n + of_nat i) [0..<length (xs @ ys)]"
    unfolding numbered_def by (simp only: map_append)
  with assms show ?thesis unfolding numbered_def set_append by blast
qed

lemma numbered_single [simp]:
  "numbered t n [e] \<longleftrightarrow> ev_ID e = n \<and> ev_Tick e = t \<and> env_Tick (ev_Envelope e) = t \<and> env_EventId (ev_Envelope e) = ev_ID e
     \<and> ev_Type e = typeOf (ev_Envelope e) \<and> ev_Redacted e = redact (ev_Envelope e) \<and> wf_scope (ev_Scope e)"
  by (auto simp: numbered_def)

definition extends :: "'a list \<Rightarrow> 'a list \<Rightarrow> bool" where
  "extends xs ys \<longleftrightarrow> take (length xs) ys = xs"

lemma extends_refl [simp]: "extends xs xs"
  by (simp add: extends_def)

lemma extends_append [simp]: "extends xs (xs @ ys)"
  by (simp add: extends_def)

lemma extends_iff: "extends xs ys \<longleftrightarrow> (\<exists>zs. ys = xs @ zs)"
  by (metis append_take_drop_id extends_append extends_def)

lemma extends_trans: "extends xs ys \<Longrightarrow> extends ys zs \<Longrightarrow> extends xs zs"
  by (auto simp: extends_iff)

text \<open>The World state outside one Zone, apart from the Event counter.\<close>

definition same_world_but :: "ZoneID \<Rightarrow> WorldState \<Rightarrow> WorldState \<Rightarrow> bool" where
  "same_world_but zid s s' \<longleftrightarrow> ws_Version s' = ws_Version s \<and> ws_Tick s' = ws_Tick s \<and> ws_Seed s' = ws_Seed s \<and> ws_RNG s' = ws_RNG s
     \<and> ws_Offsets s' = ws_Offsets s \<and> (\<forall>zid'. zid' \<noteq> zid \<longrightarrow> fmlookup (ws_Zones s') zid' = fmlookup (ws_Zones s) zid')
     \<and> (fmlookup (ws_Zones s) zid \<noteq> None \<longrightarrow> fmlookup (ws_Zones s') zid \<noteq> None)
     \<and> zs_Faulted (zone_of s' zid) = zs_Faulted (zone_of s zid) \<and> zs_FaultedTick (zone_of s' zid) = zs_FaultedTick (zone_of s zid)
     \<and> (keyed_state s \<longrightarrow> keyed_state s')"

definition zone_step :: "u64 \<Rightarrow> ZoneID \<Rightarrow> tick_state \<Rightarrow> tick_state \<Rightarrow> bool" where
  "zone_step tick zid h h' \<longleftrightarrow> same_world_but zid (tk_State h) (tk_State h')
     \<and> (\<exists>evs. tk_Events h' = tk_Events h @ evs \<and> numbered tick (ws_NextEventID (tk_State h)) evs
          \<and> ws_NextEventID (tk_State h') = ws_NextEventID (tk_State h) + of_nat (length evs))
     \<and> extends (tk_Outbound h) (tk_Outbound h') \<and> tk_StaleArrivals h \<le> tk_StaleArrivals h'
     \<and> extends (tk_Linkdead h) (tk_Linkdead h') \<and> extends (tk_Purges h) (tk_Purges h')"

lemma same_world_but_refl [simp]: "same_world_but zid s s"
  by (simp add: same_world_but_def)

lemma same_world_but_trans: "same_world_but zid s s' \<Longrightarrow> same_world_but zid s' s'' \<Longrightarrow> same_world_but zid s s''"
  unfolding same_world_but_def by metis

lemma zone_step_refl [simp]: "zone_step t zid h h"
  by (simp add: zone_step_def)

lemma zone_step_trans:
  assumes "zone_step t zid h h'" "zone_step t zid h' h''"
  shows "zone_step t zid h h''"
proof -
  obtain e1 e2 where
    "tk_Events h' = tk_Events h @ e1" "numbered t (ws_NextEventID (tk_State h)) e1"
    "ws_NextEventID (tk_State h') = ws_NextEventID (tk_State h) + of_nat (length e1)"
    "tk_Events h'' = tk_Events h' @ e2" "numbered t (ws_NextEventID (tk_State h')) e2"
    "ws_NextEventID (tk_State h'') = ws_NextEventID (tk_State h') + of_nat (length e2)"
    using assms by (auto simp: zone_step_def)
  then have "tk_Events h'' = tk_Events h @ (e1 @ e2) \<and> numbered t (ws_NextEventID (tk_State h)) (e1 @ e2)
      \<and> ws_NextEventID (tk_State h'') = ws_NextEventID (tk_State h) + of_nat (length (e1 @ e2))"
    using numbered_append[of t "ws_NextEventID (tk_State h)" e1 e2] by simp
  moreover have "same_world_but zid (tk_State h) (tk_State h'')" "extends (tk_Outbound h) (tk_Outbound h'')"
    "extends (tk_Linkdead h) (tk_Linkdead h'')" "extends (tk_Purges h) (tk_Purges h'')"
    "tk_StaleArrivals h \<le> tk_StaleArrivals h''"
    using assms unfolding zone_step_def by (blast intro: same_world_but_trans extends_trans order_trans)+
  ultimately show ?thesis unfolding zone_step_def by blast
qed

section \<open>The context's operations keep the contract\<close>

named_theorems zone_step_intros \<open>the contract of each operation of a handler's context\<close>

lemma zone_step_emit: "wf_scope sc \<Longrightarrow> zone_step t zid h0 h \<Longrightarrow> zone_step t zid h0 (emit t z ses ref sc p h)"
  by (erule zone_step_trans)
    (auto simp: zone_step_def emit_def Let_def same_world_but_def keyed_state_def)

lemma zone_step_Emit [zone_step_intros]:
  "wf_scope sc \<Longrightarrow> zone_step (ac_Tick a) zid h0 h \<Longrightarrow> zone_step (ac_Tick a) zid h0 (Emit a sc p h)"
  unfolding Emit_def by (rule zone_step_emit)

text \<open>An update of a Zone that keeps it filed under its ID and neither sets nor clears a fault.\<close>

definition zone_update :: "(ZoneState \<Rightarrow> ZoneState) \<Rightarrow> bool" where
  "zone_update f \<longleftrightarrow> (\<forall>z. zs_Faulted (f z) = zs_Faulted z \<and> zs_FaultedTick (f z) = zs_FaultedTick z
     \<and> (\<forall>zid. keyed_zone zid z \<longrightarrow> keyed_zone zid (f z)))"

lemma mutate_entity_frame [simp]:
  "zs_ID (mutate_entity eid f z) = zs_ID z" "zs_Faulted (mutate_entity eid f z) = zs_Faulted z"
  "zs_FaultedTick (mutate_entity eid f z) = zs_FaultedTick z" "zs_Transit (mutate_entity eid f z) = zs_Transit z"
  "zs_Placed (mutate_entity eid f z) = zs_Placed z"
  by (simp_all add: mutate_entity_def split: option.split)

lemma lookup_mutate_entity:
  "fmlookup (zs_Entities (mutate_entity eid f z)) k =
     (if k = eid then map_option f (fmlookup (zs_Entities z) eid) else fmlookup (zs_Entities z) k)"
  by (simp add: mutate_entity_def split: option.split)

lemma zone_update_mutate [simp]: "(\<And>e. en_ID (f e) = en_ID e) \<Longrightarrow> zone_update (mutate_entity eid f)"
  by (auto simp: zone_update_def keyed_zone_def fmpred_iff lookup_mutate_entity split: if_splits)

lemma zone_update_simps [simp]:
  "zone_update (put_entity e)" "zone_update (del_entity eid)" "zone_update (del_transit eid)"
  "zone_update (setTransit r)" "zone_update (markPlaced eid q)"
  by (simp_all add: zone_update_def keyed_put_entity keyed_del_entity keyed_del_transit keyed_setTransit keyed_markPlaced)

lemma zone_update_comp [simp]: "zone_update f \<Longrightarrow> zone_update g \<Longrightarrow> zone_update (f \<circ> g)"
  by (simp add: zone_update_def)

lemma zone_step_upd_zone:
  assumes "zone_update f" "zone_step t zid h0 h"
  shows "zone_step t zid h0 (h\<lparr>tk_State := upd_zone zid f (tk_State h)\<rparr>)"
proof -
  have "same_world_but zid (tk_State h) (upd_zone zid f (tk_State h))"
    using assms(1) by (auto simp: same_world_but_def lookup_upd_zone zone_update_def intro!: keyed_upd_zone)
  then have "zone_step t zid h (h\<lparr>tk_State := upd_zone zid f (tk_State h)\<rparr>)"
    by (auto simp: zone_step_def)
  with assms(2) show ?thesis by (rule zone_step_trans)
qed

lemma zone_step_upd_here [zone_step_intros]:
  "zone_update f \<Longrightarrow> zone_step t (ac_Zone a) h0 h \<Longrightarrow> zone_step t (ac_Zone a) h0 (upd_here a f h)"
  unfolding upd_here_def by (rule zone_step_upd_zone)

lemma zone_step_reports [zone_step_intros]:
  "zone_step t zid h0 h \<Longrightarrow> zone_step t zid h0 (Produce cmd h)"
  "zone_step t zid h0 h \<Longrightarrow> zone_step t zid h0 (staleArrival h)"
  "zone_step t zid h0 h \<Longrightarrow> zone_step t zid h0 (linkdead a c h)"
  "zone_step t zid h0 h \<Longrightarrow> zone_step t zid h0 (purged a pc h)"
  "zone_step t zid h0 h \<Longrightarrow> zone_step t zid h0 (bound bd eid zone room body h)"
  "zone_step t zid h0 h \<Longrightarrow> zone_step t zid h0 (noteHandoff a eid seq h)"
  "zone_step t zid h0 h \<Longrightarrow> zone_step t zid h0 (h\<lparr>tk_jump := j\<rparr>)"
  "zone_step t zid h0 h \<Longrightarrow> zone_step t zid h0 (h\<lparr>tk_handoffs := hf\<rparr>)"
  by (erule zone_step_trans, simp add: zone_step_def Produce_def staleArrival_def linkdead_def purged_def bound_def noteHandoff_def)+

lemma zone_step_dropTransit [zone_step_intros]:
  "zone_step t (ac_Zone a) h0 h \<Longrightarrow> zone_step t (ac_Zone a) h0 (dropTransit a eid h)"
  by (auto simp: dropTransit_def split: option.split intro!: zone_step_intros)

lemma zone_step_describeTo [zone_step_intros]:
  "zone_step (ac_Tick a) zid h0 h \<Longrightarrow> zone_step (ac_Tick a) zid h0 (describeTo a room viewer h)"
  by (simp add: describeTo_def zone_step_intros)

lemma zone_step_ack [zone_step_intros]: "zone_step t zid h0 h \<Longrightarrow> zone_step t zid h0 (ack cmd eid seq h)"
  by (simp add: ack_def Let_def zone_step_intros)

lemma zone_step_depart [zone_step_intros]:
  "zone_step t (ac_Zone a) h0 h \<Longrightarrow> zone_step t (ac_Zone a) h0 (depart a cmd actor to dir h)"
  by (simp add: depart_def Let_def zone_step_intros)

lemma en_ID_updates [simp]:
  "en_ID (clearLinkdead e) = en_ID e" "en_ID (despawn_fields t e) = en_ID e" "en_ID (mark_fields t m e) = en_ID e"
  "en_ID (extend_deadline t e) = en_ID e"
  by (simp_all add: clearLinkdead_def despawn_fields_def mark_fields_def extend_deadline_def Let_def)

lemma zone_step_reconnect [zone_step_intros]:
  "zone_step (ac_Tick a) (ac_Zone a) h0 h \<Longrightarrow> zone_step (ac_Tick a) (ac_Zone a) h0 (reconnect a eid ent h)"
  by (simp add: reconnect_def Let_def zone_step_intros)

lemma zone_step_despawn:
  assumes "\<And>sc p h. wf_scope sc \<Longrightarrow> zone_step t zid h0 h \<Longrightarrow> zone_step t zid h0 (emt sc p h)"
    and "\<And>c h. zone_step t zid h0 h \<Longrightarrow> zone_step t zid h0 (report c h)" and "zone_step t zid h0 h"
  shows "zone_step t zid h0 (despawn zid eid ent tick reason emt report h)"
  using assms by (simp add: despawn_def Let_def zone_step_upd_zone)

lemma zone_step_despawn_here [zone_step_intros]:
  "zone_step (ac_Tick a) (ac_Zone a) h0 h \<Longrightarrow>
   zone_step (ac_Tick a) (ac_Zone a) h0 (despawn (ac_Zone a) eid ent tick reason (Emit a) (linkdead a) h)"
  by (rule zone_step_despawn) (simp_all add: zone_step_intros)

section \<open>The contract as an interface\<close>

locale handler =
  fixes f :: Apply
  assumes step: "zone_step (ac_Tick a) (ac_Zone a) h (reached (f a cmd h))"
    and guarded: "\<not> ac_consumed a \<Longrightarrow> f a cmd h = Rejected ErrNotConsumed h"
begin

lemma other_zones: "zid \<noteq> ac_Zone a \<Longrightarrow> fmlookup (ws_Zones (tk_State (reached (f a cmd h)))) zid = fmlookup (ws_Zones (tk_State h)) zid"
  using step[of a h cmd] by (simp add: zone_step_def same_world_but_def)

lemma clock: "ws_Tick (tk_State (reached (f a cmd h))) = ws_Tick (tk_State h)"
  "ws_Offsets (tk_State (reached (f a cmd h))) = ws_Offsets (tk_State h)"
  using step[of a h cmd] by (simp_all add: zone_step_def same_world_but_def)

end

lemma reached_simps [simp]: "reached (Done h) = h" "reached (Rejected e h) = h" "reached (Panicked m h) = h"
  by (simp_all add: reached_def)

interpretation look: handler applyLook
  by unfold_locales (auto simp: applyLook_def split: sum.splits intro!: zone_step_intros)

interpretation move: handler applyMove
  by unfold_locales (auto simp: applyMove_def Let_def split: sum.splits option.splits intro!: zone_step_intros)

interpretation goto: handler applyGoto
  by unfold_locales (auto simp: applyGoto_def Let_def split: sum.splits option.splits intro!: zone_step_intros)

lemma zone_step_place:
  "zone_step (ac_Tick a) (ac_Zone a) h0 h \<Longrightarrow> zone_step (ac_Tick a) (ac_Zone a) h0 (reached (place a cmd p v h))"
  by (auto simp: place_def Let_def split: option.splits intro!: zone_step_intros)

interpretation arrive: handler applyArrive
  by unfold_locales
    (auto simp: applyArrive_def Let_def split: sum.splits option.splits intro!: zone_step_intros zone_step_place)

interpretation handoff_ack: handler applyHandoffAck
  by unfold_locales (auto simp: applyHandoffAck_def split: prod.splits option.splits intro!: zone_step_intros)

lemma zone_step_bind_here: "zone_step (ac_Tick a) (ac_Zone a) h (reached (bind_here a bind eid ent h))"
  by (auto simp: bind_here_def Let_def intro!: zone_step_intros)

lemma zone_step_bind_elsewhere: "zone_step (ac_Tick a) (ac_Zone a) h (reached (bind_elsewhere a cmd eid zid ent h))"
  by (auto simp: bind_elsewhere_def Let_def intro!: zone_step_intros)

lemma zone_step_bind_new: "zone_step (ac_Tick a) (ac_Zone a) h (reached (bind_new a bind eid h))"
  by (auto simp: bind_new_def Let_def split: option.splits intro!: zone_step_intros)

interpretation bind_character: handler applyBindCharacter
  by unfold_locales
    (simp_all add: applyBindCharacter_def Let_def zone_step_bind_here zone_step_bind_elsewhere zone_step_bind_new split: option.splits)

interpretation unbind_character: handler applyUnbindCharacter
  by unfold_locales (auto simp: applyUnbindCharacter_def Let_def split: option.splits intro!: zone_step_intros)

interpretation mark_linkdead: handler applyMarkLinkdead
  by unfold_locales (auto simp: applyMarkLinkdead_def Let_def split: option.splits intro!: zone_step_intros)

lemma zone_step_purge_here: "zone_step (ac_Tick a) (ac_Zone a) h (reached (purge_here a eid ent h))"
  by (auto simp: purge_here_def Let_def intro!: zone_step_intros)

interpretation purge_character: handler applyPurgeCharacter
  by unfold_locales
    (auto simp: applyPurgeCharacter_def Let_def split: option.splits intro!: zone_step_intros zone_step_purge_here)

lemma Handlers_cases:
  assumes "Handlers k = Some f"
  obtains "k = ''look''" "f = applyLook" | "k = ''move''" "f = applyMove" | "k = ''goto''" "f = applyGoto"
    | "k = ''arrive''" "f = applyArrive" | "k = ''handoff_ack''" "f = applyHandoffAck"
    | "k = ''bind_character''" "f = applyBindCharacter" | "k = ''unbind_character''" "f = applyUnbindCharacter"
    | "k = ''mark_linkdead''" "f = applyMarkLinkdead" | "k = ''purge_character''" "f = applyPurgeCharacter"
  using assms by (auto simp: Handlers_def split: if_splits)

lemma Handlers_handler: "Handlers k = Some f \<Longrightarrow> handler f"
  by (erule Handlers_cases)
    (simp_all add: look.handler_axioms move.handler_axioms goto.handler_axioms arrive.handler_axioms handoff_ack.handler_axioms
      bind_character.handler_axioms unbind_character.handler_axioms mark_linkdead.handler_axioms purge_character.handler_axioms)

end
