(* ===== verification/Handler_Effects.thy ===== *)
theory Handler_Effects
  imports Handler_Contract
begin

text \<open>
  What the verb table can do to a Zone. \<open>effect\<close> lists the eight things a handler does to the bodies,
  transit records and marks of the Zone it runs in, each with the conditions the code has checked
  and the handoff messages it sends; \<open>handler_effect\<close> shows that every handler does one of them.
  Invariants of the simulation are proved over the eight cases.
\<close>

section \<open>The effects\<close>

text \<open>A Command that is no handoff message.\<close>

definition quiet :: "LoggedCommand \<Rightarrow> bool" where
  "quiet cmd = (case lc_Command cmd of Arrive _ \<Rightarrow> False | HandoffAck _ _ \<Rightarrow> False | _ \<Rightarrow> True)"

text \<open>The same body: everything the wire form carries, but for a name it did not have.\<close>

definition same_body :: "EntityState \<Rightarrow> EntityState \<Rightarrow> bool" where
  "same_body e e' \<longleftrightarrow> en_ID e' = en_ID e \<and> en_Template e' = en_Template e \<and> en_ContentVersion e' = en_ContentVersion e
     \<and> en_Components e' = en_Components e \<and> en_HandoffSeq e' = en_HandoffSeq e \<and> (en_Name e \<noteq> '''' \<longrightarrow> en_Name e' = en_Name e)"

definition departure :: "EntityState \<Rightarrow> RoomRef \<Rightarrow> Direction \<Rightarrow> TransitRecord" where
  "departure actor to dir = \<lparr>tx_Entity = actor\<lparr>en_HandoffSeq := en_HandoffSeq actor + 1\<rparr>, tx_To = rr_Zone to, tx_Room = rr_Room to,
     tx_Direction = dir\<rparr>"

definition acks :: "ArriveMsg \<Rightarrow> EntityID \<Rightarrow> string \<Rightarrow> LoggedCommand list" where
  "acks arr eid trace = (if ar_OriginZoneId arr = '''' then []
     else [\<lparr>lc_ZoneId = ar_OriginZoneId arr, lc_ActorId = eid, lc_SessionId = '''', lc_ClientRef = '''', lc_TraceId = trace,
       lc_AcceptedAtUnixNano = 0, lc_Command = HandoffAck eid (ar_HandoffSeq arr)\<rparr>])"

definition nowhere :: "WorldState \<Rightarrow> EntityID \<Rightarrow> bool" where
  "nowhere s eid \<longleftrightarrow> (\<forall>zid. fmlookup (zs_Entities (zone_of s zid)) eid = None \<and> fmlookup (zs_Transit (zone_of s zid)) eid = None
     \<and> fmlookup (zs_Placed (zone_of s zid)) eid = None)"

definition room_here :: "apply_ctx \<Rightarrow> RoomID \<Rightarrow> bool" where
  "room_here a room \<longleftrightarrow> Resolve (ac_World a) \<lparr>rr_Zone = ac_Zone a, rr_Room = room\<rparr> \<noteq> None"

definition purge_target :: "LoggedCommand \<Rightarrow> EntityID option" where
  "purge_target cmd = (case lc_Command cmd of PurgeCharacter c \<Rightarrow> Some (body_of cmd c) | _ \<Rightarrow> None)"

text \<open>
  What the code keeps of an Entity's ticks: they are zero unless the flag or the deadline that
  gives them meaning is set, the deadline of a grace is within its ceiling, and a dormant body is
  not linkdead.
\<close>

definition tidy :: "EntityState \<Rightarrow> bool" where
  "tidy e \<longleftrightarrow> canonical_entity e \<and> en_LinkdeadDeadline e \<le> en_LinkdeadCeiling e \<and> (en_Dormant e \<longrightarrow> \<not> Linkdead e)"

text \<open>A grace whose deadline, added to the tick in 64 bits, is not the zero that means no grace.\<close>

definition sane_mark :: "u64 \<Rightarrow> LoggedCommand \<Rightarrow> bool" where
  "sane_mark t cmd = (case lc_Command cmd of MarkLinkdead m \<Rightarrow> t + lm_GraceTicks m \<noteq> 0 \<and> t + lm_MaxTicks m \<noteq> 0 | _ \<Rightarrow> True)"

definition canonical_registry :: "TemplateRegistry option \<Rightarrow> bool" where
  "canonical_registry reg \<longleftrightarrow> (\<forall>ref t. Registry_Get reg ref = Some t \<longrightarrow> canonical_components (tm_Components t))"

inductive effect :: "apply_ctx \<Rightarrow> LoggedCommand \<Rightarrow> WorldState \<Rightarrow> ZoneState \<Rightarrow> LoggedCommand list \<Rightarrow> bool"
  for a :: apply_ctx and cmd :: LoggedCommand and s :: WorldState where
  keep: "list_all quiet outs \<Longrightarrow> effect a cmd s (zone_of s (ac_Zone a)) outs"
| alter: "fmlookup (zs_Entities (zone_of s (ac_Zone a))) eid = Some e \<Longrightarrow> same_body e (f e) \<Longrightarrow>
    en_Room (f e) = en_Room e \<or> room_here a (en_Room (f e)) \<Longrightarrow>
    (sane_mark (ac_Tick a) cmd \<Longrightarrow> tidy e \<Longrightarrow> tidy (f e)) \<Longrightarrow>
    effect a cmd s (mutate_entity eid f (zone_of s (ac_Zone a))) []"
| depart: "fmlookup (zs_Entities (zone_of s (ac_Zone a))) (lc_ActorId cmd) = Some actor \<Longrightarrow>
    fmlookup (zs_Transit (zone_of s (ac_Zone a))) (lc_ActorId cmd) = None \<Longrightarrow> Present actor \<Longrightarrow> \<not> Linkdead actor \<Longrightarrow>
    Resolve (ac_World a) to \<noteq> None \<Longrightarrow> rr_Zone to \<noteq> ac_Zone a \<Longrightarrow> lc_Command out = Arrive (arriveFor (ac_Zone a) (departure actor to dir)) \<Longrightarrow>
    lc_ZoneId out = rr_Zone to \<Longrightarrow>
    effect a cmd s (setTransit (departure actor to dir) (del_entity (en_ID actor) (zone_of s (ac_Zone a)))) [out]"
| seen: "lc_Command cmd = Arrive arr \<Longrightarrow> ar_Entity arr = Some p \<Longrightarrow> \<not> invalidArrival arr \<Longrightarrow>
    ar_HandoffSeq arr \<le> pm_Seq (mark_of (zone_of s (ac_Zone a)) (pe_Id p)) \<Longrightarrow>
    effect a cmd s (zone_of s (ac_Zone a)) (acks arr (pe_Id p) (lc_TraceId cmd))"
| place: "lc_Command cmd = Arrive arr \<Longrightarrow> ar_Entity arr = Some p \<Longrightarrow> \<not> invalidArrival arr \<Longrightarrow>
    pm_Seq (mark_of (zone_of s (ac_Zone a)) (pe_Id p)) < ar_HandoffSeq arr \<Longrightarrow>
    fmlookup (zs_Entities (zone_of s (ac_Zone a))) (pe_Id p) = None \<Longrightarrow>
    (\<And>rec. fmlookup (zs_Transit (zone_of s (ac_Zone a))) (pe_Id p) = Some rec \<Longrightarrow> en_HandoffSeq (tx_Entity rec) < ar_HandoffSeq arr) \<Longrightarrow>
    room_here a room \<Longrightarrow>
    effect a cmd s (markPlaced (pe_Id p) (ar_HandoffSeq arr) (put_entity (EntityFromProto p room)
        (del_transit (pe_Id p) (zone_of s (ac_Zone a))))) (acks arr (pe_Id p) (lc_TraceId cmd))"
| drop: "lc_Command cmd = HandoffAck eid seq \<Longrightarrow> fmlookup (zs_Transit (zone_of s (ac_Zone a))) eid = Some rec \<Longrightarrow>
    en_HandoffSeq (tx_Entity rec) = seq \<Longrightarrow> effect a cmd s (del_transit eid (zone_of s (ac_Zone a))) []"
| spawn: "nowhere s (en_ID e) \<Longrightarrow> en_HandoffSeq e = 0 \<Longrightarrow> room_here a (en_Room e) \<Longrightarrow>
    lc_Command cmd = BindCharacter b \<Longrightarrow> en_ID e = body_of cmd (bm_CharacterId b) \<Longrightarrow> (canonical_registry (ac_Templates a) \<Longrightarrow> tidy e) \<Longrightarrow>
    effect a cmd s (put_entity e (zone_of s (ac_Zone a))) []"
| purge: "purge_target cmd = Some eid \<Longrightarrow> fmlookup (zs_Entities (zone_of s (ac_Zone a))) eid = Some e \<Longrightarrow> isCharacter e \<Longrightarrow>
    effect a cmd s (del_entity eid (zone_of s (ac_Zone a))) []"

section \<open>What each operation of the context does to the Zone and to what is produced\<close>

lemma emit_frame [simp]:
  "zone_of (tk_State (emit t z ses ref sc p h)) zid = zone_of (tk_State h) zid"
  "ws_Zones (tk_State (emit t z ses ref sc p h)) = ws_Zones (tk_State h)"
  "tk_Outbound (emit t z ses ref sc p h) = tk_Outbound h"
  "tk_handoffs (emit t z ses ref sc p h) = tk_handoffs h"
  by (simp_all add: emit_def Let_def)

lemma Emit_frame [simp]:
  "zone_of (tk_State (Emit a sc p h)) zid = zone_of (tk_State h) zid"
  "ws_Zones (tk_State (Emit a sc p h)) = ws_Zones (tk_State h)"
  "tk_Outbound (Emit a sc p h) = tk_Outbound h" "tk_handoffs (Emit a sc p h) = tk_handoffs h"
  by (simp_all add: Emit_def)

lemma describeTo_frame [simp]:
  "zone_of (tk_State (describeTo a room v h)) zid = zone_of (tk_State h) zid"
  "tk_Outbound (describeTo a room v h) = tk_Outbound h"
  by (simp_all add: describeTo_def)

lemma report_frame [simp]:
  "tk_State (Produce c h) = tk_State h" "tk_Outbound (Produce c h) = tk_Outbound h @ [c]"
  "tk_State (staleArrival h) = tk_State h" "tk_Outbound (staleArrival h) = tk_Outbound h"
  "tk_State (linkdead a lc h) = tk_State h" "tk_Outbound (linkdead a lc h) = tk_Outbound h"
  "tk_State (purged a pc h) = tk_State h" "tk_Outbound (purged a pc h) = tk_Outbound h"
  "tk_State (bound bd eid zone room body h) = tk_State h" "tk_Outbound (bound bd eid zone room body h) = tk_Outbound h"
  "tk_State (noteHandoff a eid seq h) = tk_State h" "tk_Outbound (noteHandoff a eid seq h) = tk_Outbound h"
  by (simp_all add: Produce_def staleArrival_def linkdead_def purged_def bound_def noteHandoff_def)

lemma upd_here_frame [simp]:
  "zone_of (tk_State (upd_here a f h)) zid = (if zid = ac_Zone a then f (zone_of (tk_State h) zid) else zone_of (tk_State h) zid)"
  "tk_Outbound (upd_here a f h) = tk_Outbound h"
  by (simp_all add: upd_here_def)

lemma fmdrop_absent: "fmlookup m k = None \<Longrightarrow> fmdrop k m = m"
  by (rule fmap_ext) (simp add: fmlookup_drop)

lemma del_transit_absent: "fmlookup (zs_Transit z) eid = None \<Longrightarrow> del_transit eid z = z"
  by (simp add: del_transit_def fmdrop_absent)

lemma dropTransit_frame [simp]:
  "zone_of (tk_State (dropTransit a eid h)) zid = (if zid = ac_Zone a then del_transit eid (zone_of (tk_State h) zid) else zone_of (tk_State h) zid)"
  "tk_Outbound (dropTransit a eid h) = tk_Outbound h"
  by (auto simp: dropTransit_def here_def del_transit_absent split: option.split)

lemma ack_frame [simp]:
  "tk_State (ack cmd eid seq h) = tk_State h"
  by (simp add: ack_def Let_def)

lemma despawn_here_frame [simp]:
  "zone_of (tk_State (despawn (ac_Zone a) eid ent t reason (Emit a) (linkdead a) h)) zid =
     (if zid = ac_Zone a then mutate_entity eid (despawn_fields t) (zone_of (tk_State h) zid) else zone_of (tk_State h) zid)"
  "tk_Outbound (despawn (ac_Zone a) eid ent t reason (Emit a) (linkdead a) h) = tk_Outbound h"
  by (simp_all add: despawn_def Let_def)

lemma reconnect_frame [simp]:
  "zone_of (tk_State (reconnect a eid ent h)) zid =
     (if zid = ac_Zone a then mutate_entity eid clearLinkdead (zone_of (tk_State h) zid) else zone_of (tk_State h) zid)"
  "tk_Outbound (reconnect a eid ent h) = tk_Outbound h"
  by (simp_all add: reconnect_def Let_def)

lemma mutate_mutate: "mutate_entity eid f (mutate_entity eid g z) = mutate_entity eid (f \<circ> g) z"
  by (simp add: mutate_entity_def split: option.split)

lemma del_entity_mutate: "del_entity eid (mutate_entity eid f z) = del_entity eid z"
proof -
  have "fmdrop eid (fmupd eid v m) = fmdrop eid m" for v and m :: "(EntityID, EntityState) fmap"
    by (rule fmap_ext) (simp add: fmlookup_drop)
  then show ?thesis by (simp add: del_entity_def mutate_entity_def split: option.split)
qed

lemma same_body_refl [simp]: "same_body e e"
  by (simp add: same_body_def)

lemma same_body_updates [simp]:
  "same_body e (clearLinkdead e)" "same_body e (despawn_fields t e)" "same_body e (mark_fields t m e)"
  "same_body e (extend_deadline t e)" "same_body e (e\<lparr>en_Room := r\<rparr>)" "same_body e (e\<lparr>en_Dormant := d, en_DormantSince := t\<rparr>)"
  by (simp_all add: same_body_def clearLinkdead_def despawn_fields_def mark_fields_def extend_deadline_def Let_def)

lemma en_Room_updates [simp]:
  "en_Room (clearLinkdead e) = en_Room e" "en_Room (despawn_fields t e) = en_Room e" "en_Room (mark_fields t m e) = en_Room e"
  "en_Room (extend_deadline t e) = en_Room e"
  by (simp_all add: clearLinkdead_def despawn_fields_def mark_fields_def extend_deadline_def Let_def)

lemma tidy_updates [simp]:
  "tidy e \<Longrightarrow> tidy (clearLinkdead e)" "tidy e \<Longrightarrow> tidy (despawn_fields t e)" "tidy (e\<lparr>en_Room := r\<rparr>) = tidy e" "tidy (e\<lparr>en_Name := n\<rparr>) = tidy e"
  "tidy e \<Longrightarrow> tidy (e\<lparr>en_Dormant := False, en_DormantSince := 0\<rparr>)" "tidy (e\<lparr>en_HandoffSeq := q\<rparr>) = tidy e"
  by (auto simp: tidy_def canonical_entity_def clearLinkdead_def despawn_fields_def Linkdead_def)

lemma tidy_mark:
  "tidy e \<Longrightarrow> \<not> en_Dormant e \<Longrightarrow> t + lm_GraceTicks m \<noteq> 0 \<Longrightarrow> t + lm_MaxTicks m \<noteq> 0 \<Longrightarrow> tidy (mark_fields t m e)"
  by (auto simp: tidy_def canonical_entity_def mark_fields_def Let_def Linkdead_def)

section \<open>Every handler has one of the effects\<close>

text \<open>
  What the tick gives a handler: a well-formed World that has the Zone, and a map order that
  visits every Zone.
\<close>

definition wf_ctx :: "apply_ctx \<Rightarrow> bool" where
  "wf_ctx a \<longleftrightarrow> wf_world (ac_World a) \<and> fmlookup (w_Zones (ac_World a)) (ac_Zone a) \<noteq> None \<and> (\<forall>xs. set (ac_MapOrder a xs) = set xs)"

definition has_effect :: "Apply \<Rightarrow> apply_ctx \<Rightarrow> LoggedCommand \<Rightarrow> tick_state \<Rightarrow> bool" where
  "has_effect f a cmd h \<longleftrightarrow> (\<exists>outs. tk_Outbound (reached (f a cmd h)) = tk_Outbound h @ outs
     \<and> effect a cmd (tk_State h) (zone_of (tk_State (reached (f a cmd h))) (ac_Zone a)) outs)"

lemma has_effectI:
  assumes "tk_Outbound (reached (f a cmd h)) = tk_Outbound h @ outs" "z = zone_of (tk_State (reached (f a cmd h))) (ac_Zone a)"
    "effect a cmd (tk_State h) z outs"
  shows "has_effect f a cmd h"
  using assms by (auto simp: has_effect_def)

lemma has_effect_kept:
  "tk_Outbound (reached (f a cmd h)) = tk_Outbound h @ outs \<Longrightarrow> list_all quiet outs \<Longrightarrow>
   zone_of (tk_State (reached (f a cmd h))) (ac_Zone a) = zone_of (tk_State h) (ac_Zone a) \<Longrightarrow> has_effect f a cmd h"
  unfolding has_effect_def by (auto intro: effect.keep)

lemma locate_Inr:
  assumes "locate a cmd h = Inr (actor, room)"
  shows "fmlookup (zs_Transit (zone_of (tk_State h) (ac_Zone a))) (lc_ActorId cmd) = None"
    "fmlookup (zs_Entities (zone_of (tk_State h) (ac_Zone a))) (lc_ActorId cmd) = Some actor" "Present actor"
    "Resolve (ac_World a) \<lparr>rr_Zone = ac_Zone a, rr_Room = en_Room actor\<rparr> = Some room"
  using assms by (auto simp: locate_def here_def entity_here_def split: if_splits option.splits)

lemma look_effect: "has_effect applyLook a cmd h"
  by (rule has_effect_kept[where outs = "[]"]) (auto simp: applyLook_def split: sum.splits)

lemma depart_frame [simp]:
  "zone_of (tk_State (depart a cmd actor to dir h)) (ac_Zone a) = setTransit (departure actor to dir) (del_entity (en_ID actor) (zone_of (tk_State h) (ac_Zone a)))"
  "tk_Outbound (depart a cmd actor to dir h) = tk_Outbound h @ [\<lparr>lc_ZoneId = rr_Zone to, lc_ActorId = lc_ActorId cmd, lc_SessionId = lc_SessionId cmd,
           lc_ClientRef = lc_ClientRef cmd, lc_TraceId = lc_TraceId cmd, lc_AcceptedAtUnixNano = 0,
           lc_Command = Arrive (arriveFor (ac_Zone a) (departure actor to dir))\<rparr>]"
  by (simp_all add: depart_def Let_def departure_def)

lemma depart_effect:
  assumes "locate a cmd h = Inr (actor, room)" "\<not> Linkdead actor" "Resolve (ac_World a) to \<noteq> None" "rr_Zone to \<noteq> ac_Zone a"
    and "tk_Outbound (reached (f a cmd h)) = tk_Outbound (depart a cmd actor to dir h)"
    and "zone_of (tk_State (reached (f a cmd h))) (ac_Zone a) = zone_of (tk_State (depart a cmd actor to dir h)) (ac_Zone a)"
  shows "has_effect f a cmd h"
proof -
  let ?out = "\<lparr>lc_ZoneId = rr_Zone to, lc_ActorId = lc_ActorId cmd, lc_SessionId = lc_SessionId cmd,
           lc_ClientRef = lc_ClientRef cmd, lc_TraceId = lc_TraceId cmd, lc_AcceptedAtUnixNano = 0,
           lc_Command = Arrive (arriveFor (ac_Zone a) (departure actor to dir))\<rparr>"
  have "effect a cmd (tk_State h) (setTransit (departure actor to dir) (del_entity (en_ID actor) (zone_of (tk_State h) (ac_Zone a)))) [?out]"
    by (rule effect.depart) (use locate_Inr[OF assms(1)] assms in simp_all)
  then show ?thesis by (intro has_effectI[OF _ refl, where outs = "[?out]"]) (use assms in simp_all)
qed

lemma alter_effect:
  assumes "fmlookup (zs_Entities (zone_of (tk_State h) (ac_Zone a))) eid = Some e" "same_body e (g e)"
    and "en_Room (g e) = en_Room e \<or> room_here a (en_Room (g e))"
    and "sane_mark (ac_Tick a) cmd \<Longrightarrow> tidy e \<Longrightarrow> tidy (g e)"
    and "tk_Outbound (reached (f a cmd h)) = tk_Outbound h"
    and "zone_of (tk_State (reached (f a cmd h))) (ac_Zone a) = mutate_entity eid g (zone_of (tk_State h) (ac_Zone a))"
  shows "has_effect f a cmd h"
  by (rule has_effectI[where outs = "[]"]) (use assms effect.alter[of "tk_State h" a eid e g cmd] in simp_all)


lemma wf_exit_of:
  assumes "wf_ctx a" "Resolve (ac_World a) \<lparr>rr_Zone = ac_Zone a, rr_Room = rid\<rparr> = Some room" "e \<in> set (rm_Exits room)"
  shows "wf_exit (ac_World a) (ac_Zone a) e"
  using assms Resolve_wf(3)[of "ac_World a" "\<lparr>rr_Zone = ac_Zone a, rr_Room = rid\<rparr>" room]
  by (auto simp: wf_ctx_def list_all_iff)

lemma validateMove_Inr:
  assumes "validateMove a cmd h = Inr (actor, room, e)"
  shows "locate a cmd h = Inr (actor, room)" "\<not> Linkdead actor" "e \<in> set (rm_Exits room)" "ex_Direction e = GetDirection cmd"
  using assms by (auto simp: validateMove_def Let_def find_Some_iff split: sum.splits if_splits option.splits)

lemma wf_exit_local: "wf_exit w zid e \<Longrightarrow> \<not> ex_CrossZone e \<Longrightarrow> Resolve w \<lparr>rr_Zone = zid, rr_Room = rr_Room (ex_To e)\<rparr> \<noteq> None"
  by (cases "ex_To e") (auto simp: wf_exit_def)

lemma move_effect:
  assumes "wf_ctx a"
  shows "has_effect applyMove a cmd h"
proof (cases "\<not> ac_consumed a \<or> (\<exists>err. validateMove a cmd h = Inl err)")
  case True
  then show ?thesis by (intro has_effect_kept[where outs = "[]"]) (auto simp: applyMove_def)
next
  case False
  then obtain actor room e where v: "validateMove a cmd h = Inr (actor, room, e)" and c: "ac_consumed a"
    by (metis sum.exhaust_sel prod_cases3)
  note m = validateMove_Inr[OF v] and l = locate_Inr[OF validateMove_Inr(1)[OF v]]
  have e: "wf_exit (ac_World a) (ac_Zone a) e" using wf_exit_of[OF assms l(4) m(3)] .
  show ?thesis
  proof (cases "ex_CrossZone e")
    case True
    show ?thesis
      by (rule depart_effect[OF m(1,2), where to = "ex_To e" and dir = "ex_Direction e"])
        (use True e v c in \<open>auto simp: wf_exit_def applyMove_def Let_def\<close>)
  next
    case False
    show ?thesis
      by (rule alter_effect[OF l(2), where g = "\<lambda>e'. e'\<lparr>en_Room := rr_Room (ex_To e)\<rparr>"])
        (use False wf_exit_local[OF e] v c in \<open>auto simp: applyMove_def Let_def room_here_def split: option.splits\<close>)
  qed
qed

lemma validateGoto_Inr:
  assumes "validateGoto a cmd h = Inr (actor, room, target, to)"
  shows "locate a cmd h = Inr (actor, room)" "\<not> Linkdead actor" "Resolve (ac_World a) target = Some to"
  using assms by (auto simp: validateGoto_def Let_def split: sum.splits if_splits option.splits)

lemma goto_effect:
  assumes "wf_ctx a"
  shows "has_effect applyGoto a cmd h"
proof (cases "\<not> ac_consumed a \<or> (\<exists>err. validateGoto a cmd h = Inl err)")
  case True
  then show ?thesis by (intro has_effect_kept[where outs = "[]"]) (auto simp: applyGoto_def)
next
  case False
  then obtain actor room target to where v: "validateGoto a cmd h = Inr (actor, room, target, to)" and c: "ac_consumed a"
    by (metis sum.exhaust_sel prod_cases4)
  note m = validateGoto_Inr[OF v] and l = locate_Inr[OF validateGoto_Inr(1)[OF v]]
  have to: "rm_ID to = rr_Room target" using Resolve_wf(1)[OF _ m(3)] assms by (simp add: wf_ctx_def)
  consider (same) "target = \<lparr>rr_Zone = ac_Zone a, rr_Room = rm_ID room\<rparr>"
    | (zone) "rr_Zone target = ac_Zone a" "target \<noteq> \<lparr>rr_Zone = ac_Zone a, rr_Room = rm_ID room\<rparr>"
    | (cross) "rr_Zone target \<noteq> ac_Zone a" by blast
  then show ?thesis
  proof cases
    case same
    then show ?thesis
      by (intro has_effect_kept[where outs = "[]"]) (use v c in \<open>auto simp: applyGoto_def Let_def\<close>)
  next
    case zone
    have "target = \<lparr>rr_Zone = ac_Zone a, rr_Room = rr_Room target\<rparr>" using zone(1) by (cases target) simp
    then have "room_here a (rm_ID to)" using m(3) to by (auto simp: room_here_def)
    then show ?thesis
      by (intro alter_effect[OF l(2), where g = "\<lambda>e'. e'\<lparr>en_Room := rm_ID to\<rparr>"])
        (use zone v c in \<open>auto simp: applyGoto_def Let_def\<close>)
  next
    case cross
    then show ?thesis
      by (intro depart_effect[OF m(1,2), where to = target and dir = "''''"])
        (use m(3) v c in \<open>auto simp: applyGoto_def Let_def\<close>)
  qed
qed

lemma ack_Outbound:
  "lc_Command cmd = Arrive arr \<Longrightarrow> seq = ar_HandoffSeq arr \<Longrightarrow>
   tk_Outbound (ack cmd eid seq h) = tk_Outbound h @ acks arr eid (lc_TraceId cmd)"
  by (simp add: ack_def GetArrive_def acks_def)

lemma place_effect:
  assumes "wf_ctx a" and "lc_Command cmd = Arrive arr" "av_seq v = ar_HandoffSeq arr"
  shows "\<exists>room. room_here a room \<and> tk_Outbound (reached (place a cmd p v h)) = tk_Outbound h @ acks arr (av_id v) (lc_TraceId cmd)
     \<and> zone_of (tk_State (reached (place a cmd p v h))) (ac_Zone a) =
         markPlaced (av_id v) (av_seq v) (put_entity (EntityFromProto p room) (zone_of (tk_State h) (ac_Zone a)))"
proof (cases "Resolve (ac_World a) \<lparr>rr_Zone = ac_Zone a, rr_Room = ar_RoomId arr\<rparr>")
  case None
  obtain z where z: "fmlookup (w_Zones (ac_World a)) (ac_Zone a) = Some z" using assms(1) by (auto simp: wf_ctx_def)
  obtain fb where fb: "fmlookup (zn_Rooms z) (zn_Fallback z) = Some fb" "rm_ID fb = zn_Fallback z"
    using wf_world_fallback[OF _ z] assms(1) by (auto simp: wf_ctx_def)
  then have "room_here a (rm_ID fb)" using z by (simp add: room_here_def Resolve_def)
  then show ?thesis using None z fb assms(2,3)
    by (intro exI[of _ "rm_ID fb"]) (simp add: place_def Let_def GetArrive_def ack_Outbound)
next
  case (Some room)
  then have "rm_ID room = ar_RoomId arr" using Resolve_wf(1)[OF _ Some] assms(1) by (simp add: wf_ctx_def)
  then show ?thesis using Some assms(2,3)
    by (intro exI[of _ "rm_ID room"]) (simp add: place_def Let_def GetArrive_def room_here_def ack_Outbound)
qed

lemma mark_of_le: "seq \<le> pm_Seq (mark_of z eid) \<or> pm_Seq (mark_of z eid) < seq"
  by auto

lemma arrive_effect:
  assumes "wf_ctx a" "lc_Command cmd = Arrive arr"
  shows "has_effect applyArrive a cmd h"
proof (cases "\<not> ac_consumed a \<or> (\<exists>err. validateArrive a cmd h = Inl err)")
  case True
  then show ?thesis by (intro has_effect_kept[where outs = "[]"]) (auto simp: applyArrive_def)
next
  case False
  then obtain v where v: "validateArrive a cmd h = Inr v" and c: "ac_consumed a" by (metis sum.exhaust_sel)
  have arr: "GetArrive cmd = arr" using assms(2) by (simp add: GetArrive_def)
  have valid: "\<not> invalidArrival arr" using v arr by (auto simp: validateArrive_def split: if_splits)
  then obtain p where p: "ar_Entity arr = Some p" by (auto simp: invalidArrival_def split: option.splits)
  let ?z = "zone_of (tk_State h) (ac_Zone a)"
  have ids: "av_id v = pe_Id p" "av_seq v = ar_HandoffSeq arr"
    using v arr p valid by (auto simp: validateArrive_def Let_def split: if_splits option.splits)
  show ?thesis
  proof (cases "ar_HandoffSeq arr \<le> pm_Seq (mark_of ?z (pe_Id p))")
    case True
    then have "\<not> av_drop v" "av_reissue v \<or> av_stale v \<or> av_retry v"
      using v arr p valid by (auto simp: validateArrive_def Let_def here_def entity_here_def split: if_splits option.splits)
    then consider (reissue) "applyArrive a cmd h = Done h" | (acked) h' where "applyArrive a cmd h = Done (ack cmd (av_id v) (av_seq v) h')"
        "tk_State h' = tk_State h" "tk_Outbound h' = tk_Outbound h"
      using v c by (cases "av_reissue v") (auto simp: applyArrive_def Let_def)
    then show ?thesis
    proof cases
      case reissue
      then show ?thesis by (intro has_effect_kept[where outs = "[]"]) auto
    next
      case acked
      then show ?thesis
        by (intro has_effectI[OF _ refl, where outs = "acks arr (pe_Id p) (lc_TraceId cmd)"])
          (use effect.seen[OF assms(2) p valid True] ids assms(2) in \<open>simp_all add: ack_Outbound\<close>)
    qed
  next
    case False
    then have new: "\<not> av_reissue v" "\<not> av_stale v" "\<not> av_retry v" "fmlookup (zs_Entities ?z) (pe_Id p) = None"
      and tr: "fmlookup (zs_Transit ?z) (pe_Id p) = Some rec \<Longrightarrow> av_drop v \<and> en_HandoffSeq (tx_Entity rec) < ar_HandoffSeq arr"
      and trN: "fmlookup (zs_Transit ?z) (pe_Id p) = None \<Longrightarrow> \<not> av_drop v" for rec
      using v arr p valid by (auto simp: validateArrive_def Let_def here_def entity_here_def split: if_splits option.splits)
    define h1 where "h1 = (if av_drop v then dropTransit a (av_id v) h else h)"
    have h1: "zone_of (tk_State h1) (ac_Zone a) = del_transit (pe_Id p) ?z" "tk_Outbound h1 = tk_Outbound h"
      using tr trN ids by (cases "fmlookup (zs_Transit ?z) (pe_Id p)"; auto simp: h1_def del_transit_absent)+
    have f: "applyArrive a cmd h = place a cmd p v h1"
      using v c new p arr by (simp add: applyArrive_def h1_def Let_def)
    obtain room where r: "room_here a room" "tk_Outbound (reached (place a cmd p v h1)) = tk_Outbound h1 @ acks arr (av_id v) (lc_TraceId cmd)"
      "zone_of (tk_State (reached (place a cmd p v h1))) (ac_Zone a) =
         markPlaced (av_id v) (av_seq v) (put_entity (EntityFromProto p room) (zone_of (tk_State h1) (ac_Zone a)))"
      using place_effect[OF assms(1,2) ids(2)] by blast
    have "effect a cmd (tk_State h) (markPlaced (pe_Id p) (ar_HandoffSeq arr) (put_entity (EntityFromProto p room)
        (del_transit (pe_Id p) ?z))) (acks arr (pe_Id p) (lc_TraceId cmd))"
      by (rule effect.place[OF assms(2) p valid _ new(4) _ r(1)]) (use False tr in auto)
    then show ?thesis by (intro has_effectI[OF _ refl]) (use r h1 ids f in simp_all)
  qed
qed

lemma handoff_ack_effect:
  assumes "lc_Command cmd = HandoffAck eid seq"
  shows "has_effect applyHandoffAck a cmd h"
proof (cases "ac_consumed a \<and> (\<exists>rec. fmlookup (zs_Transit (zone_of (tk_State h) (ac_Zone a))) eid = Some rec \<and> en_HandoffSeq (tx_Entity rec) = seq)")
  case True
  then obtain rec where rec: "fmlookup (zs_Transit (zone_of (tk_State h) (ac_Zone a))) eid = Some rec" "en_HandoffSeq (tx_Entity rec) = seq" by auto
  show ?thesis
    by (rule has_effectI[OF _ _ effect.drop[OF assms rec]])
      (use True rec assms in \<open>simp_all add: applyHandoffAck_def GetHandoffAck_def here_def\<close>)
next
  case False
  then show ?thesis
    by (intro has_effect_kept[where outs = "[]"])
      (auto simp: applyHandoffAck_def GetHandoffAck_def here_def assms split: option.splits)
qed

lemma unbind_effect: "has_effect applyUnbindCharacter a cmd h"
proof (cases "ac_consumed a \<and> fmlookup (zs_Transit (here a h)) (body_of cmd (fst (GetUnbindCharacter cmd))) = None
    \<and> (\<exists>ent. entity_here a h (body_of cmd (fst (GetUnbindCharacter cmd))) = Some ent \<and> Present ent)")
  case True
  then show ?thesis
    by (elim exE conjE, intro alter_effect[where g = "despawn_fields (ac_Tick a)" and eid = "body_of cmd (fst (GetUnbindCharacter cmd))"])
      (auto simp: entity_here_def here_def applyUnbindCharacter_def Let_def)
next
  case False
  then show ?thesis
    by (intro has_effect_kept[where outs = "[]"]) (auto simp: applyUnbindCharacter_def Let_def split: option.splits)
qed

lemma mark_linkdead_effect:
  assumes "lc_Command cmd = MarkLinkdead m"
  shows "has_effect applyMarkLinkdead a cmd h"
proof (cases "ac_consumed a \<and> fmlookup (zs_Transit (here a h)) (body_of cmd (lm_CharacterId (GetMarkLinkdead cmd))) = None
    \<and> (\<exists>ent. entity_here a h (body_of cmd (lm_CharacterId (GetMarkLinkdead cmd))) = Some ent \<and> Present ent \<and> \<not> Linkdead ent)")
  case True
  then show ?thesis
    by (elim exE conjE, intro alter_effect[where g = "mark_fields (ac_Tick a) (GetMarkLinkdead cmd)"
          and eid = "body_of cmd (lm_CharacterId (GetMarkLinkdead cmd))"])
      (auto simp: entity_here_def here_def applyMarkLinkdead_def Let_def sane_mark_def GetMarkLinkdead_def assms Present_def intro!: tidy_mark)
next
  case False
  then show ?thesis
    by (intro has_effect_kept[where outs = "[]"]) (auto simp: applyMarkLinkdead_def Let_def split: option.splits if_splits)
qed


lemma bind_here_effect:
  assumes "entity_here a h eid = Some ent" "f a cmd h = bind_here a bind eid ent h"
  shows "has_effect f a cmd h"
proof -
  define rename where "rename e = (if en_Name e = '''' \<and> bm_Name bind \<noteq> '''' then e\<lparr>en_Name := bm_Name bind\<rparr> else e)" for e :: EntityState
  have rn: "same_body ent (g (rename ent))" if "\<And>e. same_body e (g e)" for g
    using that[of "rename ent"] by (auto simp: same_body_def rename_def split: if_splits)
  have room: "en_Room (rename ent) = en_Room ent" by (simp add: rename_def)
  have tidy: "tidy ent \<Longrightarrow> tidy (rename ent)" by (simp add: rename_def)
  have e: "fmlookup (zs_Entities (zone_of (tk_State h) (ac_Zone a))) eid = Some ent"
    using assms(1) by (simp add: entity_here_def here_def)
  consider (r) "Linkdead (rename ent)" | (p) "\<not> Linkdead (rename ent)" "\<not> en_Dormant (rename ent)"
    | (d) "\<not> Linkdead (rename ent)" "en_Dormant (rename ent)" by blast
  then show ?thesis
  proof cases
    case r
    then show ?thesis
      by (intro alter_effect[OF e, where g = "clearLinkdead \<circ> rename"])
        (use rn room tidy in \<open>simp_all add: assms(2) bind_here_def Let_def rename_def[abs_def, symmetric] mutate_mutate\<close>)
  next
    case p
    then show ?thesis
      by (intro alter_effect[OF e, where g = rename])
        (use rn[where g = "\<lambda>e. e"] room tidy in \<open>simp_all add: assms(2) bind_here_def Let_def rename_def[abs_def, symmetric]\<close>)
  next
    case d
    then show ?thesis
      by (intro alter_effect[OF e, where g = "(\<lambda>e. e\<lparr>en_Dormant := False, en_DormantSince := 0\<rparr>) \<circ> rename"])
        (use rn[where g = "\<lambda>e. e\<lparr>en_Dormant := False, en_DormantSince := 0\<rparr>"] room tidy
          in \<open>simp_all add: assms(2) bind_here_def Let_def rename_def[abs_def, symmetric] mutate_mutate\<close>)
  qed
qed

lemma zone_of_outside: "zid \<notin> fmdom' (ws_Zones s) \<Longrightarrow> zone_of s zid = empty_zone zid"
  by (simp add: zone_of_def fmdom'_lookup)

lemma empty_zone_fields [simp]: "zs_Entities (empty_zone zid) = fmempty" "zs_Transit (empty_zone zid) = fmempty" "zs_Placed (empty_zone zid) = fmempty"
  by (simp_all add: empty_zone_def)

lemma nowhereI:
  assumes "\<And>zid. zid \<in> fmdom' (ws_Zones s) \<Longrightarrow> fmlookup (zs_Entities (zone_of s zid)) eid = None
      \<and> fmlookup (zs_Transit (zone_of s zid)) eid = None \<and> fmlookup (zs_Placed (zone_of s zid)) eid = None"
  shows "nowhere s eid"
  unfolding nowhere_def
proof
  show "fmlookup (zs_Entities (zone_of s zid)) eid = None
      \<and> fmlookup (zs_Transit (zone_of s zid)) eid = None \<and> fmlookup (zs_Placed (zone_of s zid)) eid = None" for zid
    using assms[of zid] by (cases "zid \<in> fmdom' (ws_Zones s)") (simp_all add: zone_of_outside)
qed

lemma elsewhere_None:
  assumes "wf_ctx a" "elsewhere a eid h = None" "entity_here a h eid = None" "zid \<in> fmdom' (ws_Zones (tk_State h))"
  shows "fmlookup (zs_Entities (zone_of (tk_State h) zid)) eid = None"
  using assms by (cases "zid = ac_Zone a") (auto simp: elsewhere_def find_None_iff wf_ctx_def entity_here_def here_def)

lemma bind_new_effect:
  assumes "wf_ctx a" "elsewhere a eid h = None" "entity_here a h eid = None" "f a cmd h = bind_new a bind eid h"
    and "lc_Command cmd = BindCharacter b" "eid = body_of cmd (bm_CharacterId b)"
  shows "has_effect f a cmd h"
proof (cases "\<exists>err. bind_new a bind eid h = Rejected err h")
  case True
  then show ?thesis using assms(4) by (intro has_effect_kept[where outs = "[]"]) auto
next
  case False
  then have "\<not> list_ex (\<lambda>zid. fmlookup (zs_Transit (zone_of (tk_State h) zid)) eid \<noteq> None) (SortedZoneIDs (tk_State h))"
    "\<not> list_ex (\<lambda>zid. fmlookup (zs_Placed (zone_of (tk_State h) zid)) eid \<noteq> None) (SortedZoneIDs (tk_State h))"
    by (auto simp: bind_new_def split: if_splits)
  then have nw: "nowhere (tk_State h) eid"
    using elsewhere_None[OF assms(1-3)] by (intro nowhereI) (auto simp: list_ex_iff SortedZoneIDs_def)
  from False obtain room tmpl where r: "Resolve (ac_World a) \<lparr>rr_Zone = ac_Zone a, rr_Room = bm_SpawnRoomId bind\<rparr> = Some room"
    and t: "Registry_Get (ac_Templates a) CharacterTemplate = Some tmpl"
    by (auto simp: bind_new_def split: if_splits option.splits)
  have rid: "rm_ID room = bm_SpawnRoomId bind" using Resolve_wf(1)[OF _ r] assms(1) by (simp add: wf_ctx_def)
  define ent where "ent = (Instantiate tmpl eid (ContentVersionOf (ac_versions a) tmpl))\<lparr>en_Room := rm_ID room, en_Name := bm_Name bind\<rparr>"
  have ent: "en_ID ent = eid" "en_HandoffSeq ent = 0" "room_here a (en_Room ent)"
    using r rid by (simp_all add: ent_def Instantiate_def zero_entity_def room_here_def)
  have tidy: "canonical_registry (ac_Templates a) \<Longrightarrow> tidy ent"
    using t by (auto simp: ent_def Instantiate_def zero_entity_def tidy_def canonical_entity_def canonical_registry_def Linkdead_def sortComponents_canonical)
  have "effect a cmd (tk_State h) (put_entity ent (zone_of (tk_State h) (ac_Zone a))) []"
    by (rule effect.spawn) (use nw ent tidy assms(5,6) in simp_all)
  moreover have "tk_Outbound (reached (bind_new a bind eid h)) = tk_Outbound h"
    "zone_of (tk_State (reached (bind_new a bind eid h))) (ac_Zone a) = put_entity ent (zone_of (tk_State h) (ac_Zone a))"
    using False r t by (auto simp: bind_new_def ent_def Let_def split: if_splits)
  ultimately show ?thesis by (intro has_effectI[OF _ refl, where outs = "[]"]) (simp_all add: assms(4))
qed

lemma bind_effect:
  assumes "wf_ctx a" "lc_Command cmd = BindCharacter b"
  shows "has_effect applyBindCharacter a cmd h"
proof (cases "ac_consumed a")
  case False
  then show ?thesis by (intro has_effect_kept[where outs = "[]"]) (auto simp: applyBindCharacter_def)
next
  case c: True
  let ?eid = "body_of cmd (bm_CharacterId (GetBindCharacter cmd))"
  consider (here) ent where "entity_here a h ?eid = Some ent" | (else) zid where "entity_here a h ?eid = None" "elsewhere a ?eid h = Some zid"
    | (new) "entity_here a h ?eid = None" "elsewhere a ?eid h = None" by (metis option.exhaust)
  then show ?thesis
  proof cases
    case here
    then show ?thesis by (intro bind_here_effect[OF here]) (simp_all add: applyBindCharacter_def c Let_def)
  next
    case else
    let ?outs = "drop (length (tk_Outbound h)) (tk_Outbound (reached (applyBindCharacter a cmd h)))"
    show ?thesis
      by (rule has_effect_kept[where outs = ?outs])
        (use else c in \<open>auto simp: applyBindCharacter_def bind_elsewhere_def Let_def quiet_def\<close>)
  next
    case new
    then show ?thesis by (intro bind_new_effect[OF assms(1) new(2,1) _ assms(2)]) (simp_all add: applyBindCharacter_def c Let_def GetBindCharacter_def assms(2))
  qed
qed

lemma purge_effect:
  assumes "lc_Command cmd = PurgeCharacter c"
  shows "has_effect applyPurgeCharacter a cmd h"
proof (cases "ac_consumed a \<and> character_at h (body_of cmd (GetPurgeCharacter cmd)) (ac_Zone a)")
  case True
  let ?eid = "body_of cmd (GetPurgeCharacter cmd)"
  from True obtain ent where e: "fmlookup (zs_Entities (zone_of (tk_State h) (ac_Zone a))) ?eid = Some ent" "isCharacter ent"
    by (auto simp: character_at_def split: option.splits)
  have "tk_Outbound (reached (applyPurgeCharacter a cmd h)) = tk_Outbound h"
    "zone_of (tk_State (reached (applyPurgeCharacter a cmd h))) (ac_Zone a) = del_entity ?eid (zone_of (tk_State h) (ac_Zone a))"
    using True by (simp_all add: applyPurgeCharacter_def purge_here_def Let_def del_entity_mutate)
  moreover have "purge_target cmd = Some ?eid" using assms by (simp add: purge_target_def GetPurgeCharacter_def)
  ultimately show ?thesis by (intro has_effectI[OF _ refl, where outs = "[]"]) (simp_all add: effect.purge[OF _ e])
next
  case False
  let ?outs = "drop (length (tk_Outbound h)) (tk_Outbound (reached (applyPurgeCharacter a cmd h)))"
  show ?thesis
    by (rule has_effect_kept[where outs = ?outs])
      (use False in \<open>auto simp: applyPurgeCharacter_def Let_def quiet_def split: option.splits if_splits\<close>)
qed

lemma KindOf_iff:
  "KindOf cmd = ''arrive'' \<longleftrightarrow> (\<exists>arr. lc_Command cmd = Arrive arr)"
  "KindOf cmd = ''handoff_ack'' \<longleftrightarrow> (\<exists>eid seq. lc_Command cmd = HandoffAck eid seq)"
  "KindOf cmd = ''content_swap'' \<longleftrightarrow> (\<exists>c. lc_Command cmd = ContentSwap c)"
  "KindOf cmd = ''bind_character'' \<longleftrightarrow> (\<exists>b. lc_Command cmd = BindCharacter b)"
  "KindOf cmd = ''mark_linkdead'' \<longleftrightarrow> (\<exists>m. lc_Command cmd = MarkLinkdead m)"
  "KindOf cmd = ''purge_character'' \<longleftrightarrow> (\<exists>c. lc_Command cmd = PurgeCharacter c)"
  by (auto simp: KindOf_def split: Command.splits)

text \<open>Whatever the table dispatches a Command to does one of the eight things.\<close>

lemma handler_effect:
  assumes "Handlers (KindOf cmd) = Some f" "wf_ctx a"
  shows "has_effect f a cmd h"
proof -
  define k where "k = KindOf cmd"
  show ?thesis using assms(1)[folded k_def]
  proof (cases rule: Handlers_cases)
    case 4
    with k_def[symmetric] obtain arr where "lc_Command cmd = Arrive arr" by (auto simp: KindOf_iff)
    with 4 show ?thesis using arrive_effect[OF assms(2)] by simp
  next
    case 5
    with k_def[symmetric] obtain eid seq where "lc_Command cmd = HandoffAck eid seq" by (auto simp: KindOf_iff)
    with 5 show ?thesis using handoff_ack_effect by simp
  next
    case 6
    with k_def[symmetric] obtain b where "lc_Command cmd = BindCharacter b" by (auto simp: KindOf_iff)
    with 6 show ?thesis using bind_effect[OF assms(2)] by simp
  next
    case 8
    with k_def[symmetric] obtain m where "lc_Command cmd = MarkLinkdead m" by (auto simp: KindOf_iff)
    with 8 show ?thesis using mark_linkdead_effect by simp
  next
    case 9
    with k_def[symmetric] obtain c where "lc_Command cmd = PurgeCharacter c" by (auto simp: KindOf_iff)
    with 9 show ?thesis using purge_effect by simp
  qed (use assms(2) look_effect move_effect goto_effect unbind_effect in simp_all)
qed

end
