(* ===== verification/Handoff_Protocol.thy ===== *)
theory Handoff_Protocol
  imports Topology
begin

text \<open>
  The cross-Zone handoff as a protocol, for one Entity, apart from the code that runs it. A body is
  in a Zone, or in a Zone's transit records on its way to another; a departure numbers the handoff
  and sends an Arrive; Arrives may be repeated, delayed, reordered and delivered any number of
  times, and so may the acknowledgements. The mark a Zone keeps is the last handoff it placed.

  The invariant gives the protocol's promises: at most one body, never lost and never doubled,
  placed as it left. \<open>Handoff\<close> proves that the simulation's Zones refine this protocol.
\<close>

record 'p protocol =
  pr_body :: "ZoneID \<Rightarrow> (nat \<times> 'p) option"
  pr_transit :: "ZoneID \<Rightarrow> (nat \<times> ZoneID \<times> 'p) option"
  pr_mark :: "ZoneID \<Rightarrow> nat"
  pr_arrives :: "(nat \<times> ZoneID \<times> ZoneID \<times> 'p) set"
  pr_acks :: "(ZoneID \<times> nat) set"

text \<open>
  An Arrive is its sequence, the Zone it is for, the Zone it comes from and the body's contents; an
  acknowledgement is the Zone it is for and the sequence.
\<close>

inductive pkeep :: "'p protocol \<Rightarrow> 'p protocol \<Rightarrow> bool" where
  Idle: "pkeep s s"
| Alter: "pr_body s z = Some (q, p) \<Longrightarrow> pkeep s (s\<lparr>pr_body := (pr_body s)(z \<mapsto> (q, p'))\<rparr>)"
| Spawn: "\<forall>z. pr_body s z = None \<and> pr_transit s z = None \<and> pr_mark s z = 0 \<Longrightarrow> pkeep s (s\<lparr>pr_body := (pr_body s)(z \<mapsto> (0, p))\<rparr>)"
| Depart: "pr_body s z = Some (q, p) \<Longrightarrow> pr_transit s z = None \<Longrightarrow> z' \<noteq> z \<Longrightarrow>
    pkeep s (s\<lparr>pr_body := (pr_body s)(z := None), pr_transit := (pr_transit s)(z \<mapsto> (Suc q, z', p)),
      pr_arrives := insert (Suc q, z', z, p) (pr_arrives s)\<rparr>)"
| Seen: "(q, z', z, p) \<in> pr_arrives s \<Longrightarrow> q \<le> pr_mark s z' \<Longrightarrow> A \<subseteq> {(z, q)} \<Longrightarrow> pkeep s (s\<lparr>pr_acks := A \<union> pr_acks s\<rparr>)"
| Place: "(q, z', z, p) \<in> pr_arrives s \<Longrightarrow> pr_mark s z' < q \<Longrightarrow> A \<subseteq> {(z, q)} \<Longrightarrow>
    pkeep s (s\<lparr>pr_body := (pr_body s)(z' \<mapsto> (q, p)), pr_transit := (pr_transit s)(z' := None), pr_mark := (pr_mark s)(z' := q),
      pr_acks := A \<union> pr_acks s\<rparr>)"
| Drop: "(z, q) \<in> pr_acks s \<Longrightarrow> pr_transit s z = Some (q, z', p) \<Longrightarrow> pkeep s (s\<lparr>pr_transit := (pr_transit s)(z := None)\<rparr>)"
| Resend: "pr_transit s z = Some (q, z', p) \<Longrightarrow> pkeep s (s\<lparr>pr_arrives := insert (q, z', z, p) (pr_arrives s)\<rparr>)"

inductive pstep :: "'p protocol \<Rightarrow> 'p protocol \<Rightarrow> bool" where
  Keep: "pkeep s s' \<Longrightarrow> pstep s s'"
| Purge: "pr_body s z = Some b \<Longrightarrow> pstep s (s\<lparr>pr_body := (pr_body s)(z := None)\<rparr>)"

section \<open>The invariant\<close>

text \<open>
  \<open>n\<close> is the last handoff's number and \<open>route q\<close> what handoff \<open>q\<close> was: from, to, contents. Every message and
  transit record is about a handoff of the route; all handoffs but the last have been placed; and
  either the body stands where the last handoff put it, or there is none and the last handoff has
  been placed (purged, or never spawned), or there is none and the last handoff is in flight.
\<close>

definition placed :: "'p protocol \<Rightarrow> (nat \<Rightarrow> ZoneID \<times> ZoneID \<times> 'p) \<Rightarrow> nat \<Rightarrow> bool" where
  "placed s route q \<longleftrightarrow> q \<le> pr_mark s (fst (snd (route q)))"

definition held :: "'p protocol \<Rightarrow> nat \<Rightarrow> (nat \<Rightarrow> ZoneID \<times> ZoneID \<times> 'p) \<Rightarrow> bool" where
  "held s n route \<longleftrightarrow> (\<exists>z p. pr_body s = [z \<mapsto> (n, p)] \<and> (0 < n \<longrightarrow> fst (snd (route n)) = z \<and> placed s route n))"

definition gone :: "'p protocol \<Rightarrow> nat \<Rightarrow> (nat \<Rightarrow> ZoneID \<times> ZoneID \<times> 'p) \<Rightarrow> bool" where
  "gone s n route \<longleftrightarrow> pr_body s = Map.empty \<and> (0 < n \<longrightarrow> placed s route n)"

definition flying :: "'p protocol \<Rightarrow> nat \<Rightarrow> (nat \<Rightarrow> ZoneID \<times> ZoneID \<times> 'p) \<Rightarrow> bool" where
  "flying s n route \<longleftrightarrow> pr_body s = Map.empty \<and> 0 < n \<and> \<not> placed s route n
     \<and> pr_transit s (fst (route n)) = Some (n, snd (route n))"

definition routed :: "'p protocol \<Rightarrow> nat \<Rightarrow> (nat \<Rightarrow> ZoneID \<times> ZoneID \<times> 'p) \<Rightarrow> bool" where
  "routed s n route \<longleftrightarrow>
     (\<forall>q z' z p. (q, z', z, p) \<in> pr_arrives s \<longrightarrow> 0 < q \<and> q \<le> n \<and> route q = (z, z', p))
     \<and> (\<forall>z q z' p. pr_transit s z = Some (q, z', p) \<longrightarrow> 0 < q \<and> q \<le> n \<and> route q = (z, z', p))
     \<and> (\<forall>q. 0 < q \<and> q \<le> n \<longrightarrow> fst (route q) \<noteq> fst (snd (route q)))
     \<and> (\<forall>q. 0 < q \<and> q < n \<longrightarrow> placed s route q)
     \<and> (\<forall>z. pr_mark s z \<le> n)
     \<and> (\<forall>z q. (z, q) \<in> pr_acks s \<longrightarrow> 0 < q \<and> q \<le> n \<and> fst (route q) = z \<and> placed s route q)"

definition good :: "'p protocol \<Rightarrow> nat \<Rightarrow> (nat \<Rightarrow> ZoneID \<times> ZoneID \<times> 'p) \<Rightarrow> bool" where
  "good s n route \<longleftrightarrow> routed s n route \<and> (held s n route \<or> gone s n route \<or> flying s n route)"

definition handoff_inv :: "'p protocol \<Rightarrow> bool" where
  "handoff_inv s \<longleftrightarrow> (\<exists>n route. good s n route)"

lemma routedI:
  assumes "\<And>q z' z p. (q, z', z, p) \<in> pr_arrives s \<Longrightarrow> 0 < q \<and> q \<le> n \<and> route q = (z, z', p)"
    and "\<And>z q z' p. pr_transit s z = Some (q, z', p) \<Longrightarrow> 0 < q \<and> q \<le> n \<and> route q = (z, z', p)"
    and "\<And>q. 0 < q \<Longrightarrow> q \<le> n \<Longrightarrow> fst (route q) \<noteq> fst (snd (route q))"
    and "\<And>q. 0 < q \<Longrightarrow> q < n \<Longrightarrow> placed s route q"
    and "\<And>z. pr_mark s z \<le> n"
    and "\<And>z q. (z, q) \<in> pr_acks s \<Longrightarrow> 0 < q \<and> q \<le> n \<and> fst (route q) = z \<and> placed s route q"
  shows "routed s n route"
  using assms unfolding routed_def by blast

lemma routedD:
  assumes "routed s n route"
  shows "(q, z', z, p) \<in> pr_arrives s \<Longrightarrow> 0 < q \<and> q \<le> n \<and> route q = (z, z', p)"
    and "pr_transit s z = Some (q, z', p) \<Longrightarrow> 0 < q \<and> q \<le> n \<and> route q = (z, z', p)"
    and "0 < q \<Longrightarrow> q \<le> n \<Longrightarrow> fst (route q) \<noteq> fst (snd (route q))"
    and "0 < q \<Longrightarrow> q < n \<Longrightarrow> placed s route q"
    and "pr_mark s z \<le> n"
    and "(z, q) \<in> pr_acks s \<Longrightarrow> 0 < q \<and> q \<le> n \<and> fst (route q) = z \<and> placed s route q"
proof -
  note r1 = assms[unfolded routed_def] and r2 = assms[unfolded routed_def, THEN conjunct2]
  note r3 = r2[THEN conjunct2] and r4 = r2[THEN conjunct2, THEN conjunct2]
  note r5 = r4[THEN conjunct2] and r6 = r4[THEN conjunct2, THEN conjunct2]
  show "(q, z', z, p) \<in> pr_arrives s \<Longrightarrow> 0 < q \<and> q \<le> n \<and> route q = (z, z', p)" using r1[THEN conjunct1] by blast
  show "pr_transit s z = Some (q, z', p) \<Longrightarrow> 0 < q \<and> q \<le> n \<and> route q = (z, z', p)" using r2[THEN conjunct1] by blast
  show "0 < q \<Longrightarrow> q \<le> n \<Longrightarrow> fst (route q) \<noteq> fst (snd (route q))" using r3[THEN conjunct1] by blast
  show "0 < q \<Longrightarrow> q < n \<Longrightarrow> placed s route q" using r4[THEN conjunct1] by blast
  show "pr_mark s z \<le> n" using r5[THEN conjunct1] by blast
  show "(z, q) \<in> pr_acks s \<Longrightarrow> 0 < q \<and> q \<le> n \<and> fst (route q) = z \<and> placed s route q" using r6 by blast
qed

lemma goodD: "good s n route \<Longrightarrow> routed s n route"
  by (simp add: good_def)

text \<open>An Arrive above its Zone's mark is the last handoff, in flight.\<close>

lemma unplaced_is_last:
  assumes "good s n route" "(q, z', z, p) \<in> pr_arrives s" "pr_mark s z' < q"
  shows "q = n" "flying s n route" "route n = (z, z', p)"
proof -
  have r: "0 < q" "q \<le> n" "route q = (z, z', p)" using routedD(1)[OF goodD[OF assms(1)] assms(2)] by auto
  then have np: "\<not> placed s route q" using assms(3) by (simp add: placed_def)
  then show "q = n" using routedD(4)[OF goodD[OF assms(1)] r(1)] r(2) by (cases "q = n") auto
  then show "flying s n route" "route n = (z, z', p)"
    using assms(1) np r by (auto simp: good_def held_def gone_def)
qed

lemma body_is_held:
  assumes "good s n route" "pr_body s z = Some (q, p)"
  shows "pr_body s = [z \<mapsto> (n, p)]" "q = n" "0 < n \<longrightarrow> fst (snd (route n)) = z \<and> placed s route n"
proof -
  have "held s n route" using assms by (auto simp: good_def gone_def flying_def)
  then obtain z0 p0 where b: "pr_body s = [z0 \<mapsto> (n, p0)]" "0 < n \<longrightarrow> fst (snd (route n)) = z0 \<and> placed s route n"
    by (auto simp: held_def)
  with assms(2) have "z0 = z" "p0 = p" "q = n" by (auto split: if_splits)
  with b show "pr_body s = [z \<mapsto> (n, p)]" "q = n" "0 < n \<longrightarrow> fst (snd (route n)) = z \<and> placed s route n" by auto
qed

section \<open>Every step keeps it\<close>

text \<open>Steps that touch neither transit records nor marks nor messages keep the route.\<close>

lemma routed_body [simp]: "routed (s\<lparr>pr_body := b\<rparr>) n route \<longleftrightarrow> routed s n route"
  by (simp add: routed_def placed_def)

lemma good_Alter:
  assumes "good s n route" "pr_body s z = Some (q, p)"
  shows "good (s\<lparr>pr_body := (pr_body s)(z \<mapsto> (q, p'))\<rparr>) n route"
  using body_is_held[OF assms] assms(1) unfolding good_def held_def by (auto simp: placed_def)

lemma good_Spawn:
  assumes "good s n route" "\<forall>z. pr_body s z = None \<and> pr_transit s z = None \<and> pr_mark s z = 0"
  shows "good (s\<lparr>pr_body := (pr_body s)(z \<mapsto> (0, p))\<rparr>) n route"
proof -
  have "pr_body s = Map.empty" using assms(2) by auto
  then have "\<not> held s n route" by (metis held_def map_upd_nonempty)
  moreover have "\<not> flying s n route" using assms(2) by (auto simp: flying_def)
  ultimately have "gone s n route" using assms(1) by (simp add: good_def)
  then have "n = 0" using assms(2) by (auto simp: gone_def placed_def)
  then have "held (s\<lparr>pr_body := (pr_body s)(z \<mapsto> (0, p))\<rparr>) n route" using \<open>pr_body s = Map.empty\<close> by (auto simp: held_def)
  then show ?thesis using assms(1) by (simp add: good_def)
qed

lemma good_Depart:
  assumes g: "good s n route" and b: "pr_body s z = Some (q, p)" and z': "z' \<noteq> z"
  shows "good (s\<lparr>pr_body := (pr_body s)(z := None), pr_transit := (pr_transit s)(z \<mapsto> (Suc q, z', p)),
      pr_arrives := insert (Suc q, z', z, p) (pr_arrives s)\<rparr>) (Suc n) (route(Suc n := (z, z', p)))"
    (is "good ?s _ ?r")
proof -
  note h = body_is_held[OF g b] and r = routedD[OF goodD[OF g]]
  have pl: "placed ?s ?r k" if "0 < k" "k \<le> n" for k
    using that h(3) r(4)[of k] by (cases "k = n") (auto simp: placed_def)
  have "routed ?s (Suc n) ?r"
  proof (rule routedI)
    show "0 < k \<and> k \<le> Suc n \<and> ?r k = (y, y', x)" if "(k, y', y, x) \<in> pr_arrives ?s" for k y' y x
      using that r(1)[of k y' y x] h(2) by auto
    show "0 < k \<and> k \<le> Suc n \<and> ?r k = (y, y', x)" if "pr_transit ?s y = Some (k, y', x)" for k y' y x
      using that r(2)[of y k y' x] h(2) by (auto split: if_splits)
    show "fst (?r k) \<noteq> fst (snd (?r k))" if "0 < k" "k \<le> Suc n" for k
      using that r(3)[of k] z' by (cases "k = Suc n") auto
    show "placed ?s ?r k" if "0 < k" "k < Suc n" for k using pl that by simp
    show "pr_mark ?s y \<le> Suc n" for y using r(5)[of y] by simp
    show "0 < k \<and> k \<le> Suc n \<and> fst (?r k) = y \<and> placed ?s ?r k" if "(y, k) \<in> pr_acks ?s" for y k
      using that r(6)[of y k] pl[of k] by auto
  qed
  moreover have "flying ?s (Suc n) ?r"
    using h(1,2) r(5)[of z'] by (auto simp: flying_def placed_def)
  ultimately show ?thesis by (simp add: good_def)
qed

lemma good_Seen:
  assumes g: "good s n route" and "(q, z', z, p) \<in> pr_arrives s" "q \<le> pr_mark s z'" "A \<subseteq> {(z, q)}"
  shows "good (s\<lparr>pr_acks := A \<union> pr_acks s\<rparr>) n route"
proof -
  note r = routedD[OF goodD[OF g]]
  have "0 < q \<and> q \<le> n \<and> route q = (z, z', p)" using r(1)[OF assms(2)] .
  then have "0 < k \<and> k \<le> n \<and> fst (route k) = y \<and> placed s route k" if "(y, k) \<in> A \<union> pr_acks s" for y k
    using that r(6)[of y k] assms(3,4) by (auto simp: placed_def)
  then have "routed (s\<lparr>pr_acks := A \<union> pr_acks s\<rparr>) n route"
    using g unfolding good_def routed_def by (simp add: placed_def)
  then show ?thesis using g by (simp add: good_def held_def gone_def flying_def placed_def)
qed

lemma good_Place:
  assumes g: "good s n route" and a: "(q, z', z, p) \<in> pr_arrives s" "pr_mark s z' < q" and A: "A \<subseteq> {(z, q)}"
  shows "good (s\<lparr>pr_body := (pr_body s)(z' \<mapsto> (q, p)), pr_transit := (pr_transit s)(z' := None), pr_mark := (pr_mark s)(z' := q),
      pr_acks := A \<union> pr_acks s\<rparr>) n route" (is "good ?s _ _")
proof -
  note u = unplaced_is_last[OF g a] and r = routedD[OF goodD[OF g]]
  have pl: "placed ?s route k" if "placed s route k" "k \<le> n" for k
    using that a(2) u(1) r(5)[of z'] by (auto simp: placed_def)
  have pn: "placed ?s route n" using u by (simp add: placed_def)
  have "routed ?s n route"
  proof (rule routedI)
    show "0 < k \<and> k \<le> n \<and> route k = (y, y', x)" if "(k, y', y, x) \<in> pr_arrives ?s" for k y' y x
      using that r(1)[of k y' y x] by simp
    show "0 < k \<and> k \<le> n \<and> route k = (y, y', x)" if "pr_transit ?s y = Some (k, y', x)" for k y' y x
      using that r(2)[of y k y' x] by (auto split: if_splits)
    show "fst (route k) \<noteq> fst (snd (route k))" if "0 < k" "k \<le> n" for k using r(3)[OF that] .
    show "placed ?s route k" if "0 < k" "k < n" for k using pl r(4)[OF that] that by simp
    show "pr_mark ?s y \<le> n" for y using r(5)[of y] u(1) by simp
    show "0 < k \<and> k \<le> n \<and> fst (route k) = y \<and> placed ?s route k" if "(y, k) \<in> pr_acks ?s" for y k
      using that r(6)[of y k] pl[of k] pn A u r(1)[OF a(1)] by auto
  qed
  moreover have "held ?s n route" using u pn by (auto simp: held_def flying_def)
  ultimately show ?thesis by (simp add: good_def)
qed

lemma good_Drop:
  assumes g: "good s n route" and "(z, q) \<in> pr_acks s" "pr_transit s z = Some (q, z', p)"
  shows "good (s\<lparr>pr_transit := (pr_transit s)(z := None)\<rparr>) n route" (is "good ?s _ _")
proof -
  note r = routedD[OF goodD[OF g]]
  have pl: "placed ?s route k = placed s route k" for k by (simp add: placed_def)
  have "routed ?s n route"
  proof (rule routedI)
    show "0 < k \<and> k \<le> n \<and> route k = (y, y', x)" if "pr_transit ?s y = Some (k, y', x)" for k y' y x
      using that r(2)[of y k y' x] by (simp split: if_splits)
    show "0 < k \<and> k \<le> n \<and> route k = (y, y', x)" if "(k, y', y, x) \<in> pr_arrives ?s" for k y' y x
      using that r(1)[of k y' y x] by simp
    show "fst (route k) \<noteq> fst (snd (route k))" if "0 < k" "k \<le> n" for k using r(3)[OF that] .
    show "placed ?s route k" if "0 < k" "k < n" for k using r(4)[OF that] unfolding pl .
    show "pr_mark ?s y \<le> n" for y using r(5)[of y] by simp
    show "0 < k \<and> k \<le> n \<and> fst (route k) = y \<and> placed ?s route k" if "(y, k) \<in> pr_acks ?s" for y k
      using that r(6)[of y k] unfolding pl by simp
  qed
  moreover have "flying ?s n route" if "flying s n route"
  proof -
    have "fst (route n) \<noteq> z"
    proof
      assume "fst (route n) = z"
      with that have "Some (n, snd (route n)) = Some (q, z', p)" unfolding flying_def assms(3)[symmetric] by metis
      then have "q = n" by simp
      then show False using r(6)[OF assms(2)] that unfolding flying_def by blast
    qed
    with that show ?thesis by (simp add: flying_def placed_def)
  qed
  ultimately show ?thesis using g by (auto simp: good_def held_def gone_def placed_def)
qed

lemma good_Resend:
  assumes g: "good s n route" and "pr_transit s z = Some (q, z', p)"
  shows "good (s\<lparr>pr_arrives := insert (q, z', z, p) (pr_arrives s)\<rparr>) n route"
proof -
  have "0 < q \<and> q \<le> n \<and> route q = (z, z', p)" using routedD(2)[OF goodD[OF g] assms(2)] .
  then have "routed (s\<lparr>pr_arrives := insert (q, z', z, p) (pr_arrives s)\<rparr>) n route"
    using g unfolding good_def routed_def by (simp add: placed_def)
  then show ?thesis using g by (simp add: good_def held_def gone_def flying_def placed_def)
qed

lemma good_Purge:
  assumes g: "good s n route" and "pr_body s z = Some b"
  shows "good (s\<lparr>pr_body := (pr_body s)(z := None)\<rparr>) n route"
proof -
  obtain q p where "b = (q, p)" by (cases b)
  with body_is_held[OF g, of z q p] assms(2) have "gone (s\<lparr>pr_body := (pr_body s)(z := None)\<rparr>) n route"
    by (auto simp: gone_def placed_def)
  with g show ?thesis by (simp add: good_def)
qed

lemma pkeep_inv: "pkeep s s' \<Longrightarrow> handoff_inv s \<Longrightarrow> handoff_inv s'"
  unfolding handoff_inv_def
  by (induction rule: pkeep.induct)
    (blast intro: good_Alter good_Spawn good_Depart good_Seen good_Place good_Drop good_Resend)+

lemma pstep_inv: "pstep s s' \<Longrightarrow> handoff_inv s \<Longrightarrow> handoff_inv s'"
  by (induction rule: pstep.induct) (use pkeep_inv good_Purge in \<open>unfold handoff_inv_def, blast+\<close>)

section \<open>What the invariant promises\<close>

text \<open>A transit record its target has not placed: the handoff it names can still be delivered.\<close>

definition deliverable :: "'p protocol \<Rightarrow> ZoneID \<Rightarrow> bool" where
  "deliverable s z \<longleftrightarrow> (\<exists>q z' p. pr_transit s z = Some (q, z', p) \<and> pr_mark s z' < q)"

definition live :: "'p protocol \<Rightarrow> bool" where
  "live s \<longleftrightarrow> (\<exists>z. pr_body s z \<noteq> None) \<or> (\<exists>z. deliverable s z)"

lemma one_body:
  assumes "handoff_inv s" "pr_body s z \<noteq> None" "pr_body s z2 \<noteq> None"
  shows "z = z2"
  using assms by (auto simp: handoff_inv_def good_def held_def gone_def flying_def split: if_splits)

lemma deliverable_flying: "good s n route \<Longrightarrow> deliverable s z \<Longrightarrow> flying s n route \<and> z = fst (route n)"
proof -
  assume g: "good s n route" and "deliverable s z"
  then obtain q z' p where t: "pr_transit s z = Some (q, z', p)" "pr_mark s z' < q" by (auto simp: deliverable_def)
  note r = routedD[OF goodD[OF g]]
  have q: "0 < q \<and> q \<le> n \<and> route q = (z, z', p)" using r(2)[OF t(1)] .
  then have "\<not> placed s route q" using t(2) by (simp add: placed_def)
  with q r(4)[of q] have "q = n" by (cases "q = n") auto
  with q \<open>\<not> placed s route q\<close> g show ?thesis by (auto simp: good_def held_def gone_def)
qed

lemma body_or_flight:
  assumes "handoff_inv s"
  shows "\<lbrakk>pr_body s z \<noteq> None; deliverable s z2\<rbrakk> \<Longrightarrow> False" "\<lbrakk>deliverable s z; deliverable s z2\<rbrakk> \<Longrightarrow> z = z2"
proof -
  obtain n route where g: "good s n route" using assms by (auto simp: handoff_inv_def)
  show "\<lbrakk>pr_body s z \<noteq> None; deliverable s z2\<rbrakk> \<Longrightarrow> False" using deliverable_flying[OF g, of z2] by (simp add: flying_def)
  show "\<lbrakk>deliverable s z; deliverable s z2\<rbrakk> \<Longrightarrow> z = z2" using deliverable_flying[OF g] by metis
qed

text \<open>Delivering a deliverable handoff is never refused: no body there, no later transit record.\<close>

lemma delivery_accepted:
  assumes "handoff_inv s" "(q, z', z, p) \<in> pr_arrives s" "pr_mark s z' < q"
  shows "pr_body s z' = None" "pr_transit s z' = Some (q2, z2, p2) \<Longrightarrow> q2 < q"
proof -
  obtain n route where g: "good s n route" using assms(1) by (auto simp: handoff_inv_def)
  note u = unplaced_is_last[OF g assms(2,3)] and r = routedD[OF goodD[OF g]]
  show "pr_body s z' = None" using u by (simp add: flying_def)
  assume t: "pr_transit s z' = Some (q2, z2, p2)"
  then have q2: "0 < q2" "q2 \<le> n" "route q2 = (z', z2, p2)" using r(2)[OF t] by auto
  have "q2 \<noteq> n" using q2 u r(3)[of n] by (auto simp: flying_def)
  with q2 u show "q2 < q" by simp
qed

text \<open>A live body stays live under every step but a purge.\<close>

lemma live_pkeep:
  assumes "pkeep s s'" "handoff_inv s" "live s"
  shows "live s'"
  using assms
proof (induction rule: pkeep.induct)
  case (Depart s z q p z')
  obtain n route where g: "good s n route" using Depart.prems(1) by (auto simp: handoff_inv_def)
  have "q = n" "pr_mark s z' \<le> n" using body_is_held(2)[OF g Depart.hyps(1)] routedD(5)[OF goodD[OF g]] by auto
  then show ?case by (auto simp: live_def deliverable_def)
next
  case (Drop z q s z' p)
  obtain n route where g: "good s n route" using Drop.prems(1) by (auto simp: handoff_inv_def)
  have "route q = (z, z', p)" "placed s route q"
    using routedD(2)[OF goodD[OF g] Drop.hyps(2)] routedD(6)[OF goodD[OF g] Drop.hyps(1)] by auto
  then have "\<not> deliverable s z" using Drop.hyps(2) by (auto simp: deliverable_def placed_def)
  then have d: "deliverable (s\<lparr>pr_transit := (pr_transit s)(z := None)\<rparr>) z2" if "deliverable s z2" for z2
    using that unfolding deliverable_def by (cases "z2 = z") auto
  consider y where "pr_body s y \<noteq> None" | y where "deliverable s y" using Drop.prems(2) by (auto simp: live_def)
  then show ?case
  proof cases
    case 1
    then show ?thesis by (auto simp: live_def)
  next
    case 2
    from d[OF this] show ?thesis by (auto simp: live_def)
  qed
qed (auto simp: live_def deliverable_def)

end
