(* ===== verification/Handoff.thy ===== *)
theory Handoff
  imports Handler_Effects Handoff_Protocol
begin

text \<open>
  The simulation's Zones refine the handoff protocol. \<open>view eid s msgs\<close> is the protocol state of one
  Entity as the World state and the handoff messages sent so far show it. Every handler of the verb
  table, applied to a Command of the log, moves every Entity's view by one protocol step, so the
  protocol's invariant holds of the simulation: \<open>sound s msgs\<close>.

  Handoff sequences are 64-bit in the code and natural numbers in the protocol; the two agree while
  no sequence wraps, which shows as an Arrive of sequence 0 (\<open>unwrapped\<close>) and takes \<open>2^64\<close> handoffs of
  one body.
\<close>

section \<open>The view\<close>

type_synonym contents = "TemplateRef \<times> string \<times> string \<times> Component list"

definition wire_contents :: "pb_Entity \<Rightarrow> contents" where
  "wire_contents p = (pe_Template p, pe_ContentVersion p, pe_Name p, sortComponents (map componentFromProto (pe_Components p)))"

definition contents :: "EntityState \<Rightarrow> contents" where
  "contents e = wire_contents (Entity_Proto e)"

definition view_body :: "EntityID \<Rightarrow> ZoneState \<Rightarrow> (nat \<times> contents) option" where
  "view_body eid z = map_option (\<lambda>e. (unat (en_HandoffSeq e), contents e)) (fmlookup (zs_Entities z) eid)"

definition view_transit :: "EntityID \<Rightarrow> ZoneState \<Rightarrow> (nat \<times> ZoneID \<times> contents) option" where
  "view_transit eid z = map_option (\<lambda>r. (unat (en_HandoffSeq (tx_Entity r)), tx_To r, contents (tx_Entity r))) (fmlookup (zs_Transit z) eid)"

definition view_mark :: "EntityID \<Rightarrow> ZoneState \<Rightarrow> nat" where
  "view_mark eid z = unat (pm_Seq (mark_of z eid))"

definition arrive_of :: "EntityID \<Rightarrow> LoggedCommand \<Rightarrow> (nat \<times> ZoneID \<times> ZoneID \<times> contents) set" where
  "arrive_of eid c = (case lc_Command c of Arrive arr \<Rightarrow> (case ar_Entity arr of
       Some p \<Rightarrow> if pe_Id p = eid then {(unat (ar_HandoffSeq arr), lc_ZoneId c, ar_OriginZoneId arr, wire_contents p)} else {} | None \<Rightarrow> {})
     | _ \<Rightarrow> {})"

definition ack_of :: "EntityID \<Rightarrow> LoggedCommand \<Rightarrow> (ZoneID \<times> nat) set" where
  "ack_of eid c = (case lc_Command c of HandoffAck e q \<Rightarrow> if e = eid then {(lc_ZoneId c, unat q)} else {} | _ \<Rightarrow> {})"

definition view :: "EntityID \<Rightarrow> WorldState \<Rightarrow> LoggedCommand set \<Rightarrow> contents protocol" where
  "view eid s msgs = \<lparr>pr_body = (\<lambda>zid. view_body eid (zone_of s zid)), pr_transit = (\<lambda>zid. view_transit eid (zone_of s zid)),
     pr_mark = (\<lambda>zid. view_mark eid (zone_of s zid)), pr_arrives = (\<Union>c \<in> msgs. arrive_of eid c), pr_acks = (\<Union>c \<in> msgs. ack_of eid c)\<rparr>"

definition sound :: "WorldState \<Rightarrow> LoggedCommand set \<Rightarrow> bool" where
  "sound s msgs \<longleftrightarrow> (\<forall>eid. handoff_inv (view eid s msgs))"

text \<open>Arrives and acknowledgements are produced by ticks alone: what the log delivers has been sent.\<close>

definition sent :: "LoggedCommand set \<Rightarrow> LoggedCommand \<Rightarrow> bool" where
  "sent msgs c \<longleftrightarrow> quiet c \<or> c \<in> msgs"

definition unwrapped :: "LoggedCommand \<Rightarrow> bool" where
  "unwrapped c \<longleftrightarrow> (case lc_Command c of Arrive arr \<Rightarrow> ar_HandoffSeq arr \<noteq> 0 | _ \<Rightarrow> True)"

section \<open>Changing one Zone changes the view in one place\<close>

lemma view_upd:
  assumes "\<And>zid'. zid' \<noteq> zid \<Longrightarrow> zone_of s' zid' = zone_of s zid'"
  shows "view eid s' (msgs \<union> outs) =
    \<lparr>pr_body = (pr_body (view eid s msgs))(zid := view_body eid (zone_of s' zid)),
     pr_transit = (pr_transit (view eid s msgs))(zid := view_transit eid (zone_of s' zid)),
     pr_mark = (pr_mark (view eid s msgs))(zid := view_mark eid (zone_of s' zid)),
     pr_arrives = (\<Union>c \<in> outs. arrive_of eid c) \<union> pr_arrives (view eid s msgs),
     pr_acks = (\<Union>c \<in> outs. ack_of eid c) \<union> pr_acks (view eid s msgs)\<rparr>"
  using assms by (auto simp: view_def fun_eq_iff)

lemma view_same:
  assumes "\<And>zid'. zid' \<noteq> zid \<Longrightarrow> zone_of s' zid' = zone_of s zid'"
    and "view_body eid (zone_of s' zid) = view_body eid (zone_of s zid)" "view_transit eid (zone_of s' zid) = view_transit eid (zone_of s zid)"
    and "view_mark eid (zone_of s' zid) = view_mark eid (zone_of s zid)"
    and "\<forall>c \<in> outs. arrive_of eid c = {} \<and> ack_of eid c = {}"
  shows "view eid s' (msgs \<union> outs) = view eid s msgs"
proof -
  have "view_body eid (zone_of s' z) = view_body eid (zone_of s z) \<and> view_transit eid (zone_of s' z) = view_transit eid (zone_of s z)
      \<and> view_mark eid (zone_of s' z) = view_mark eid (zone_of s z)" for z
    using assms(1)[of z] assms(2-4) by (cases "z = zid") auto
  moreover have "(\<Union>c \<in> msgs \<union> outs. arrive_of eid c) = (\<Union>c \<in> msgs. arrive_of eid c)"
    "(\<Union>c \<in> msgs \<union> outs. ack_of eid c) = (\<Union>c \<in> msgs. ack_of eid c)" using assms(5) by auto
  ultimately show ?thesis by (simp add: view_def)
qed

lemma quiet_views [simp]: "quiet c \<Longrightarrow> arrive_of eid c = {}" "quiet c \<Longrightarrow> ack_of eid c = {}"
  by (auto simp: quiet_def arrive_of_def ack_of_def split: Command.splits)

lemma view_fields [simp]:
  "pr_body (view eid s msgs) zid = view_body eid (zone_of s zid)" "pr_transit (view eid s msgs) zid = view_transit eid (zone_of s zid)"
  "pr_mark (view eid s msgs) zid = view_mark eid (zone_of s zid)"
  by (simp_all add: view_def)

lemma contents_norm: "wire_contents (Entity_Proto (EntityFromProto p room)) = wire_contents p"
proof -
  have canon: "componentFromProto (componentProto (sortFields (componentFromProto c))) = sortFields (componentFromProto c)" for c
    by (simp add: componentFromProto_def componentProto_def sortFields_def fieldValue_fieldProto comp_def
        map_idI sort_key_id_if_sorted) (auto intro!: map_idI simp: fieldValue_fieldProto)
  let ?cs = "sortComponents (map componentFromProto (pe_Components p))"
  have "map (componentFromProto \<circ> componentProto) ?cs = ?cs"
    by (auto simp: sortComponents_def canon intro!: map_idI)
  moreover have "sortComponents ?cs = ?cs"
    by (simp add: sortComponents_def sort_key_id_if_sorted sortFields_def comp_def)
  ultimately show ?thesis by (simp add: wire_contents_def Entity_Proto_def EntityFromProto_def zero_entity_def)
qed


section \<open>Each effect is a protocol step\<close>

lemma view_simps [simp]:
  "view_transit eid (mutate_entity k f z) = view_transit eid z" "view_mark eid (mutate_entity k f z) = view_mark eid z"
  "view_transit eid (put_entity e z) = view_transit eid z" "view_mark eid (put_entity e z) = view_mark eid z"
  "view_transit eid (del_entity k z) = view_transit eid z" "view_mark eid (del_entity k z) = view_mark eid z"
  "view_body eid (del_transit k z) = view_body eid z" "view_mark eid (del_transit k z) = view_mark eid z"
  "view_body eid (setTransit r z) = view_body eid z" "view_mark eid (setTransit r z) = view_mark eid z"
  "view_body eid (markPlaced k q z) = view_body eid z" "view_transit eid (markPlaced k q z) = view_transit eid z"
  by (simp_all add: view_body_def view_transit_def view_mark_def mark_of_def)

lemma view_updates:
  "view_body eid (mutate_entity k f z) = (if eid = k then map_option (\<lambda>e. (unat (en_HandoffSeq (f e)), contents (f e))) (fmlookup (zs_Entities z) k) else view_body eid z)"
  "view_body eid (put_entity e z) = (if eid = en_ID e then Some (unat (en_HandoffSeq e), contents e) else view_body eid z)"
  "view_body eid (del_entity k z) = (if eid = k then None else view_body eid z)"
  "view_transit eid (del_transit k z) = (if eid = k then None else view_transit eid z)"
  "view_transit eid (setTransit r z) = (if eid = en_ID (tx_Entity r) then Some (unat (en_HandoffSeq (tx_Entity r)), tx_To r, contents (tx_Entity r)) else view_transit eid z)"
  "view_mark eid (markPlaced k q z) = (if eid = k then unat q else view_mark eid z)"
  by (auto simp: view_body_def view_transit_def view_mark_def mark_of_def lookup_mutate_entity fmlookup_drop option.map_comp comp_def)

lemma contents_seq: "contents (e\<lparr>en_HandoffSeq := q\<rparr>) = contents e"
  by (simp add: contents_def wire_contents_def Entity_Proto_def)

lemma contents_FromProto: "contents (EntityFromProto p room) = wire_contents p"
  by (simp add: contents_def contents_norm)

lemma acks_views [simp]:
  "c \<in> set (acks arr k t) \<Longrightarrow> arrive_of eid c = {}"
  "c \<in> set (acks arr k t) \<Longrightarrow> eid \<noteq> k \<Longrightarrow> ack_of eid c = {}"
  "(\<Union>c \<in> set (acks arr k t). arrive_of eid c) = {}"
  "(\<Union>c \<in> set (acks arr k t). ack_of k c) \<subseteq> {(ar_OriginZoneId arr, unat (ar_HandoffSeq arr))}"
  by (auto simp: acks_def arrive_of_def ack_of_def split: if_splits)

lemma unat_succ: "q + 1 \<noteq> 0 \<Longrightarrow> unat (q + 1) = Suc (unat q)" for q :: u64
  by (simp add: unatSuc add.commute)

text \<open>The frame of an effect: only the handler's Zone changes.\<close>

definition zone_to :: "ZoneID \<Rightarrow> WorldState \<Rightarrow> WorldState \<Rightarrow> ZoneState \<Rightarrow> bool" where
  "zone_to zid s s' z' \<longleftrightarrow> (\<forall>zid'. zid' \<noteq> zid \<longrightarrow> zone_of s' zid' = zone_of s zid') \<and> zone_of s' zid = z'"

lemma view_to:
  assumes "zone_to zid s s' z'"
  shows "view eid s' (msgs \<union> outs) =
    \<lparr>pr_body = (pr_body (view eid s msgs))(zid := view_body eid z'),
     pr_transit = (pr_transit (view eid s msgs))(zid := view_transit eid z'),
     pr_mark = (pr_mark (view eid s msgs))(zid := view_mark eid z'),
     pr_arrives = (\<Union>c \<in> outs. arrive_of eid c) \<union> pr_arrives (view eid s msgs),
     pr_acks = (\<Union>c \<in> outs. ack_of eid c) \<union> pr_acks (view eid s msgs)\<rparr>"
  using view_upd[of zid s' s eid msgs outs] assms by (simp add: zone_to_def)

lemma view_idle:
  assumes "zone_to zid s s' z'"
    and "view_body eid z' = view_body eid (zone_of s zid)" "view_transit eid z' = view_transit eid (zone_of s zid)"
    and "view_mark eid z' = view_mark eid (zone_of s zid)" "\<forall>c \<in> outs. arrive_of eid c = {} \<and> ack_of eid c = {}"
  shows "pkeep (view eid s msgs) (view eid s' (msgs \<union> outs))"
  using view_same[of zid s' s eid outs msgs] assms pkeep.Idle by (simp add: zone_to_def)

lemma pkeep_eq: "pkeep v w \<Longrightarrow> w = w' \<Longrightarrow> pkeep v w'"
  by simp

lemma step_alter:
  assumes z: "zone_to zid s s' (mutate_entity k f (zone_of s zid))"
    and e: "fmlookup (zs_Entities (zone_of s zid)) k = Some e" "en_HandoffSeq (f e) = en_HandoffSeq e"
  shows "pkeep (view eid s msgs) (view eid s' (msgs \<union> {}))"
proof (cases "eid = k")
  case False
  then show ?thesis by (intro view_idle[OF z]) (simp_all add: view_updates)
next
  case True
  have b: "pr_body (view eid s msgs) zid = Some (unat (en_HandoffSeq e), contents e)"
    using e(1) True by (simp add: view_body_def)
  show ?thesis
    unfolding view_to[OF z]
    by (rule pkeep_eq[OF pkeep.Alter[OF b, of "contents (f e)"]]) (use e True in \<open>simp add: view_updates fun_upd_idem\<close>)
qed

lemma step_depart:
  assumes z: "zone_to zid s s' (setTransit (departure actor to dir) (del_entity (en_ID actor) (zone_of s zid)))"
    and e: "fmlookup (zs_Entities (zone_of s zid)) (en_ID actor) = Some actor" "fmlookup (zs_Transit (zone_of s zid)) (en_ID actor) = None"
    and to: "rr_Zone to \<noteq> zid" and out: "lc_Command out = Arrive (arriveFor zid (departure actor to dir))" "lc_ZoneId out = rr_Zone to"
    and below: "en_HandoffSeq actor + 1 \<noteq> 0"
  shows "pkeep (view eid s msgs) (view eid s' (msgs \<union> {out}))"
proof (cases "eid = en_ID actor")
  case False
  then show ?thesis
    by (intro view_idle[OF z]) (simp_all add: view_updates departure_def arriveFor_def arrive_of_def ack_of_def out)
next
  case True
  note q = unat_succ[OF below]
  have b: "pr_body (view eid s msgs) zid = Some (unat (en_HandoffSeq actor), contents actor)"
    and t: "pr_transit (view eid s msgs) zid = None"
    using e True by (simp_all add: view_body_def view_transit_def)
  have o: "arrive_of eid out = {(Suc (unat (en_HandoffSeq actor)), rr_Zone to, zid, contents actor)}" "ack_of eid out = {}"
    using out True q contents_seq[where e = actor and q = "en_HandoffSeq actor + 1"]
    by (simp_all add: arrive_of_def ack_of_def arriveFor_def departure_def contents_def)
  show ?thesis
    unfolding view_to[OF z]
    by (rule pkeep_eq[OF pkeep.Depart[OF b t to]]) (use True q o in \<open>simp add: view_updates departure_def contents_seq fun_upd_idem\<close>)
qed

lemma sent_arrive:
  assumes "sent msgs cmd" "lc_Command cmd = Arrive arr" "ar_Entity arr = Some p"
  shows "(unat (ar_HandoffSeq arr), lc_ZoneId cmd, ar_OriginZoneId arr, wire_contents p) \<in> pr_arrives (view (pe_Id p) s msgs)"
proof -
  have "cmd \<in> msgs" using assms by (simp add: sent_def quiet_def)
  moreover have "arrive_of (pe_Id p) cmd = {(unat (ar_HandoffSeq arr), lc_ZoneId cmd, ar_OriginZoneId arr, wire_contents p)}"
    using assms by (simp add: arrive_of_def)
  ultimately show ?thesis by (auto simp: view_def)
qed

lemma step_seen:
  assumes z: "zone_to (lc_ZoneId cmd) s s' (zone_of s (lc_ZoneId cmd))" and msg: "sent msgs cmd"
    and c: "lc_Command cmd = Arrive arr" "ar_Entity arr = Some p"
    and le: "ar_HandoffSeq arr \<le> pm_Seq (mark_of (zone_of s (lc_ZoneId cmd)) (pe_Id p))"
  shows "pkeep (view eid s msgs) (view eid s' (msgs \<union> set (acks arr (pe_Id p) t)))"
proof (cases "eid = pe_Id p")
  case False
  then show ?thesis by (intro view_idle[OF z]) simp_all
next
  case True
  have q: "unat (ar_HandoffSeq arr) \<le> pr_mark (view (pe_Id p) s msgs) (lc_ZoneId cmd)"
    using le by (simp add: view_mark_def word_le_nat_alt)
  show ?thesis
    unfolding view_to[OF z]
    unfolding True by (rule pkeep_eq[OF pkeep.Seen[OF sent_arrive[OF msg c] q acks_views(4)[where k = "pe_Id p" and t = t]]]) (simp add: fun_upd_idem)
qed

lemma step_place:
  assumes z: "zone_to (lc_ZoneId cmd) s s' (markPlaced (pe_Id p) (ar_HandoffSeq arr) (put_entity (EntityFromProto p room)
        (del_transit (pe_Id p) (zone_of s (lc_ZoneId cmd)))))" and msg: "sent msgs cmd"
    and c: "lc_Command cmd = Arrive arr" "ar_Entity arr = Some p" "\<not> invalidArrival arr"
    and less: "pm_Seq (mark_of (zone_of s (lc_ZoneId cmd)) (pe_Id p)) < ar_HandoffSeq arr"
  shows "pkeep (view eid s msgs) (view eid s' (msgs \<union> set (acks arr (pe_Id p) t)))"
proof (cases "eid = pe_Id p")
  case False
  then show ?thesis by (intro view_idle[OF z]) (simp_all add: view_updates)
next
  case True
  have q: "pr_mark (view (pe_Id p) s msgs) (lc_ZoneId cmd) < unat (ar_HandoffSeq arr)"
    using less by (simp add: view_mark_def word_less_nat_alt)
  have seq: "pe_HandoffSeq p = ar_HandoffSeq arr" using c by (simp add: invalidArrival_def)
  show ?thesis
    unfolding view_to[OF z]
    unfolding True by (rule pkeep_eq[OF pkeep.Place[OF sent_arrive[OF msg c(1,2)] q acks_views(4)[where k = "pe_Id p" and t = t]]])
      (simp add: view_updates contents_FromProto seq)
qed

lemma step_drop:
  assumes z: "zone_to (lc_ZoneId cmd) s s' (del_transit k (zone_of s (lc_ZoneId cmd)))" and msg: "sent msgs cmd"
    and c: "lc_Command cmd = HandoffAck k seq"
    and rec: "fmlookup (zs_Transit (zone_of s (lc_ZoneId cmd))) k = Some rec" "en_HandoffSeq (tx_Entity rec) = seq"
  shows "pkeep (view eid s msgs) (view eid s' (msgs \<union> {}))"
proof (cases "eid = k")
  case False
  then show ?thesis by (intro view_idle[OF z]) (simp_all add: view_updates)
next
  case True
  have "cmd \<in> msgs" using msg c by (simp add: sent_def quiet_def)
  moreover have "ack_of eid cmd = {(lc_ZoneId cmd, unat seq)}" using c True by (simp add: ack_of_def)
  ultimately have m: "(lc_ZoneId cmd, unat seq) \<in> pr_acks (view eid s msgs)" by (auto simp: view_def)
  have t: "pr_transit (view eid s msgs) (lc_ZoneId cmd) = Some (unat seq, tx_To rec, contents (tx_Entity rec))"
    using rec True by (simp add: view_transit_def)
  show ?thesis
    unfolding view_to[OF z]
    by (rule pkeep_eq[OF pkeep.Drop[OF m t]]) (simp add: view_updates fun_upd_idem True)
qed

lemma step_spawn:
  assumes z: "zone_to zid s s' (put_entity e (zone_of s zid))" and e: "nowhere s (en_ID e)" "en_HandoffSeq e = 0"
  shows "pkeep (view eid s msgs) (view eid s' (msgs \<union> {}))"
proof (cases "eid = en_ID e")
  case False
  then show ?thesis by (intro view_idle[OF z]) (simp_all add: view_updates)
next
  case True
  have n: "\<forall>y. pr_body (view eid s msgs) y = None \<and> pr_transit (view eid s msgs) y = None \<and> pr_mark (view eid s msgs) y = 0"
    using e(1) True by (simp add: nowhere_def view_body_def view_transit_def view_mark_def mark_of_def)
  show ?thesis
    unfolding view_to[OF z]
    by (rule pkeep_eq[OF pkeep.Spawn[OF n, of zid "contents e"]]) (simp add: view_updates fun_upd_idem True e(2))
qed

lemma step_purge:
  assumes z: "zone_to zid s s' (del_entity k (zone_of s zid))" and e: "fmlookup (zs_Entities (zone_of s zid)) k = Some e"
  shows "pstep (view k s msgs) (view k s' (msgs \<union> {}))"
proof -
  have b: "pr_body (view k s msgs) zid = Some (unat (en_HandoffSeq e), contents e)"
    using e by (simp add: view_body_def)
  have "(view k s msgs)\<lparr>pr_body := (pr_body (view k s msgs))(zid := None)\<rparr> = view k s' (msgs \<union> {})"
    unfolding view_to[OF z] by (simp add: view_updates fun_upd_idem)
  then show ?thesis using pstep.Purge[OF b] by metis
qed

lemma effect_view_keep:
  assumes eff: "effect a cmd s z' outs" and z: "zone_to (ac_Zone a) s s' z'"
    and keyed: "keyed_state s" and msg: "sent msgs cmd" "lc_ZoneId cmd = ac_Zone a" and below: "\<forall>c \<in> set outs. unwrapped c"
    and np: "\<not> (purge_target cmd = Some eid \<and> z' = del_entity eid (zone_of s (ac_Zone a)) \<and> outs = []
      \<and> fmlookup (zs_Entities (zone_of s (ac_Zone a))) eid \<noteq> None)"
  shows "pkeep (view eid s msgs) (view eid s' (msgs \<union> set outs))"
  using eff
proof cases
  case keep
  then show ?thesis using z by (intro view_idle) (auto simp: list_all_iff)
next
  case (alter k e f)
  then show ?thesis using step_alter[of "ac_Zone a" s s' k f e eid msgs] z by (simp add: same_body_def)
next
  case (depart actor to out dir)
  have id: "en_ID actor = lc_ActorId cmd"
    using keyed_zone_of[OF keyed, of "ac_Zone a"] depart(3) by (auto simp: keyed_zone_def fmpred_iff)
  have "en_HandoffSeq actor + 1 \<noteq> 0" using below depart by (simp add: unwrapped_def arriveFor_def departure_def)
  then show ?thesis using step_depart[of "ac_Zone a" s s' actor to dir out eid msgs] depart z id by simp
next
  case (seen arr p)
  then show ?thesis using step_seen[of cmd s s' msgs arr p eid] z msg by simp
next
  case (place arr p room)
  then show ?thesis using step_place[of cmd s s' p arr room msgs eid] z msg by simp
next
  case (drop k seq rec)
  then show ?thesis using step_drop[of cmd s s' k msgs seq rec eid] z msg by simp
next
  case (spawn e b)
  then show ?thesis using step_spawn[of "ac_Zone a" s s' e eid msgs] z by simp
next
  case (purge k e)
  then have "eid \<noteq> k" using np by auto
  with purge show ?thesis by (intro view_idle[OF z]) (simp_all add: view_updates)
qed

lemma effect_view:
  assumes "effect a cmd s z' outs" "zone_to (ac_Zone a) s s' z'" "keyed_state s" "sent msgs cmd" "lc_ZoneId cmd = ac_Zone a"
    and "\<forall>c \<in> set outs. unwrapped c"
  shows "pstep (view eid s msgs) (view eid s' (msgs \<union> set outs))"
proof (cases "purge_target cmd = Some eid \<and> z' = del_entity eid (zone_of s (ac_Zone a)) \<and> outs = []
    \<and> fmlookup (zs_Entities (zone_of s (ac_Zone a))) eid \<noteq> None")
  case True
  then show ?thesis using step_purge[of "ac_Zone a" s s' eid] assms(2) by auto
next
  case False
  then show ?thesis using effect_view_keep[OF assms] pstep.Keep by blast
qed

section \<open>The invariant is kept by every handler\<close>

lemma zone_to_step:
  assumes "zone_step t zid h h'"
  shows "zone_to zid (tk_State h) (tk_State h') (zone_of (tk_State h') zid)"
  using assms by (auto simp: zone_to_def zone_step_def same_world_but_def zone_of_def)

lemma handler_view:
  assumes "Handlers (KindOf cmd) = Some f" "wf_ctx a" "keyed_state (tk_State h)" "sent msgs cmd" "lc_ZoneId cmd = ac_Zone a"
    and "\<forall>c \<in> set (tk_Outbound (reached (f a cmd h))). unwrapped c"
  obtains outs where "tk_Outbound (reached (f a cmd h)) = tk_Outbound h @ outs"
    "\<And>eid. pstep (view eid (tk_State h) msgs) (view eid (tk_State (reached (f a cmd h))) (msgs \<union> set outs))"
    "\<And>eid. purge_target cmd \<noteq> Some eid \<Longrightarrow>
       pkeep (view eid (tk_State h) msgs) (view eid (tk_State (reached (f a cmd h))) (msgs \<union> set outs))"
proof -
  obtain outs where outs: "tk_Outbound (reached (f a cmd h)) = tk_Outbound h @ outs"
    and eff: "effect a cmd (tk_State h) (zone_of (tk_State (reached (f a cmd h))) (ac_Zone a)) outs"
    using handler_effect[OF assms(1,2)] by (auto simp: has_effect_def)
  have z: "zone_to (ac_Zone a) (tk_State h) (tk_State (reached (f a cmd h))) (zone_of (tk_State (reached (f a cmd h))) (ac_Zone a))"
    using zone_to_step[OF handler.step[OF Handlers_handler[OF assms(1)]]] .
  have u: "\<forall>c \<in> set outs. unwrapped c" using assms(6) outs by simp
  show thesis
    by (rule that[OF outs effect_view[OF eff z assms(3-5) u] effect_view_keep[OF eff z assms(3-5) u]]) simp
qed

lemma soundI: "sound s msgs \<Longrightarrow> (\<And>eid. pstep (view eid s msgs) (view eid s' msgs')) \<Longrightarrow> sound s' msgs'"
  using pstep_inv by (auto simp: sound_def)

end
