(* ===== verification/Sha256.thy ===== *)
theory Sha256
  imports Andara_Prelude
begin

text \<open>
  The part of Go's standard library the State Hash rests on: \<^verbatim>\<open>crypto/sha256.Sum256\<close> (FIPS 180-4)
  over byte strings. Every theorem of the development treats the digest as a function of the
  bytes; where a theorem concludes from two digests, it says what a collision would allow.
\<close>

text \<open>
  The standard gives its constants as the first 32 bits of the fractional parts of the cube roots of
  the first 64 primes, and of the square roots of the first eight. \<open>root_bits k p\<close> is the integer part of
  the \<open>k\<close>-th root of \<open>p * 2^(32 * k)\<close>, found bit by bit; as a 32-bit word it is the fraction alone.
\<close>

definition root_bits :: "nat \<Rightarrow> int \<Rightarrow> u32" where
  "root_bits k p = of_int (foldr (\<lambda>b r. if (r + 2 ^ b) ^ k \<le> p * 2 ^ (32 * k) then r + 2 ^ b else r) [0..<36] 0)"

definition sha_primes :: "int list" where
  "sha_primes = filter (\<lambda>n. \<not> list_ex (\<lambda>d. n mod d = 0) [2..n - 1]) [2..311]"

definition sha_K :: "u32 list" where
  "sha_K = map (root_bits 3) sha_primes"

type_synonym sha_state = "u32 \<times> u32 \<times> u32 \<times> u32 \<times> u32 \<times> u32 \<times> u32 \<times> u32"

definition sha_init :: sha_state where
  "sha_init = (root_bits 2 2, root_bits 2 3, root_bits 2 5, root_bits 2 7, root_bits 2 11, root_bits 2 13, root_bits 2 17, root_bits 2 19)"

definition rotr :: "nat \<Rightarrow> u32 \<Rightarrow> u32" where
  "rotr k x = drop_bit k x OR push_bit (32 - k) x"

definition sha_pad :: "8 word list \<Rightarrow> 8 word list" where
  "sha_pad bs =
     (let n = length bs; len = (of_nat (8 * n) :: u64)
      in bs @ [0x80] @ replicate ((119 - n mod 64) mod 64) 0
         @ map (\<lambda>i. ucast (drop_bit (8 * (7 - i)) len)) [0..<8])"

definition sha_words :: "8 word list \<Rightarrow> u32 list" where
  "sha_words bs = map (\<lambda>i. push_bit 24 (ucast (bs ! (4 * i))) OR push_bit 16 (ucast (bs ! (4 * i + 1)))
     OR push_bit 8 (ucast (bs ! (4 * i + 2))) OR ucast (bs ! (4 * i + 3))) [0..<16]"

definition sha_extend :: "nat \<Rightarrow> u32 list \<Rightarrow> u32 list" where
  "sha_extend t w =
     (let a = w ! (t - 15); b = w ! (t - 2);
          s0 = rotr 7 a XOR rotr 18 a XOR drop_bit 3 a;
          s1 = rotr 17 b XOR rotr 19 b XOR drop_bit 10 b
      in w @ [w ! (t - 16) + s0 + w ! (t - 7) + s1])"

definition sha_round :: "u32 \<times> u32 \<Rightarrow> sha_state \<Rightarrow> sha_state" where
  "sha_round kw st = (case st of (a, b, c, d, e, f, g, h) \<Rightarrow>
     (let S1 = rotr 6 e XOR rotr 11 e XOR rotr 25 e;
          ch = (e AND f) XOR (NOT e AND g);
          t1 = h + S1 + ch + fst kw + snd kw;
          S0 = rotr 2 a XOR rotr 13 a XOR rotr 22 a;
          maj = (a AND b) XOR (a AND c) XOR (b AND c)
      in (t1 + (S0 + maj), a, b, c, d + t1, e, f, g)))"

definition sha_block :: "8 word list \<Rightarrow> sha_state \<Rightarrow> sha_state" where
  "sha_block blk st =
     (let w = fold sha_extend [16..<64] (sha_words blk)
      in case (fold sha_round (zip sha_K w) st, st) of
        ((a, b, c, d, e, f, g, h), (a', b', c', d', e', f', g', h')) \<Rightarrow>
          (a + a', b + b', c + c', d + d', e + e', f + f', g + g', h + h'))"

fun sha_blocks :: "nat \<Rightarrow> 8 word list \<Rightarrow> sha_state \<Rightarrow> sha_state" where
  "sha_blocks 0 bs st = st"
| "sha_blocks (Suc n) bs st = sha_blocks n (drop 64 bs) (sha_block (take 64 bs) st)"

definition sha_bytes :: "u32 \<Rightarrow> 8 word list" where
  "sha_bytes w = map (\<lambda>i. ucast (drop_bit (8 * (3 - i)) w)) [0..<4]"

definition sha256 :: "bytes \<Rightarrow> bytes" where
  "sha256 s =
     (let m = sha_pad (map of_char s)
      in case sha_blocks (length m div 64) m sha_init of (a, b, c, d, e, f, g, h) \<Rightarrow>
        map (\<lambda>b. char_of (unat b)) (concat (map sha_bytes [a, b, c, d, e, f, g, h])))"

lemma length_sha256 [simp]: "length (sha256 s) = 32"
  by (simp add: sha256_def Let_def sha_bytes_def split: prod.splits)

end
