(* ===== verification/Canonical.thy ===== *)
theory Canonical
  imports Sim_State Sha256
begin

text \<open>
  The canonical serializations behind the State Hash and the content digest
  (\<^verbatim>\<open>server/sim/serialize.go\<close>, and the encoders of \<^verbatim>\<open>state.go\<close> and \<^verbatim>\<open>content.go\<close>). Every encoder
  writes tagged records, one \<^verbatim>\<open>writeFields\<close> each; a definition \<open>*_records\<close> below is the sequence
  of records an encoder writes, and the bytes are their concatenation.

  The theorems are injectivity: two states, or two topologies, with the same bytes are the same
  one. The generic part, sequences of tagged blocks, is the locale \<open>record_blocks\<close>, interpreted
  for Components, Entities, transit records, Zones, Rooms and whole Zones of the topology.
\<close>

section \<open>Records\<close>

definition esc :: "char \<Rightarrow> string" where
  "esc c = (if c = CHR 0x5C then [CHR 0x5C, CHR 0x5C]
     else if c = CHR 0x09 then [CHR 0x5C, CHR ''t'']
     else if c = CHR 0x0A then [CHR 0x5C, CHR ''n'']
     else if c = CHR 0x0D then [CHR 0x5C, CHR ''r'']
     else [c])"

definition writeEscaped :: "string \<Rightarrow> string" where
  "writeEscaped s = concat (map esc s)"

fun writeFields :: "string list \<Rightarrow> string" where
  "writeFields [] = [CHR 0x0A]"
| "writeFields [f] = writeEscaped f @ [CHR 0x0A]"
| "writeFields (f # g # fs) = writeEscaped f @ CHR 0x09 # writeFields (g # fs)"

definition writeRecords :: "string list list \<Rightarrow> bytes" where
  "writeRecords rs = concat (map writeFields rs)"

definition writeComponents :: "string \<Rightarrow> string \<Rightarrow> string list \<Rightarrow> Component list \<Rightarrow> string list list" where
  "writeComponents compRec fieldRec scope comps =
     concat (map (\<lambda>c. (compRec # scope @ [comp_Type c])
         # map (\<lambda>f. fieldRec # scope @ [comp_Type c, cf_Name f, FieldKind_String (cf_Kind f), Value f])
             (sort_key cf_Name (comp_Fields c)))
       (sort_key comp_Type comps))"

section \<open>Mutable state\<close>

definition entity_records :: "EntityState \<Rightarrow> string list list" where
  "entity_records e =
     [[''entity'', en_ID e, en_Template e, en_ContentVersion e]]
     @ (if en_Room e \<noteq> '''' then [[''entity_room'', en_ID e, en_Room e]] else [])
     @ (if en_Name e \<noteq> '''' then [[''entity_name'', en_ID e, en_Name e]] else [])
     @ (if en_Dormant e then [[''entity_dormant'', en_ID e, FormatUint (en_DormantSince e)]] else [])
     @ (if en_LinkdeadDeadline e \<noteq> 0 then
          [[''entity_linkdead'', en_ID e, FormatUint (en_LinkdeadSince e), FormatUint (en_LinkdeadDeadline e),
            FormatUint (en_LinkdeadCeiling e), FormatUint (en_LinkdeadExtension e)]] else [])
     @ (if en_HandoffSeq e \<noteq> 0 then [[''entity_handoff'', en_ID e, FormatUint (en_HandoffSeq e)]] else [])
     @ writeComponents ''entity_component'' ''entity_field'' [en_ID e] (en_Components e)"

definition EntityCanonicalBytes :: "EntityState \<Rightarrow> bytes" where
  "EntityCanonicalBytes e = writeRecords (entity_records e)"

definition transit_records :: "EntityID \<times> TransitRecord \<Rightarrow> string list list" where
  "transit_records tr = (case tr of (tid, r) \<Rightarrow>
     [''transit'', tid, tx_To r, tx_Room r, tx_Direction r] # entity_records (tx_Entity r))"

definition placed_record :: "EntityID \<times> PlacedMark \<Rightarrow> string list" where
  "placed_record pm = (case pm of (pid, m) \<Rightarrow>
     [''placed'', pid, FormatUint (pm_Seq m)] @ (if pm_Rejected m then [''rejected''] else []))"

definition zone_records :: "ZoneState \<Rightarrow> string list list" where
  "zone_records z =
     [[''zone_state'', zs_ID z, FormatBool (zs_Faulted z), FormatUint (zs_FaultedTick z)]]
     @ concat (map (\<lambda>(_, e). entity_records e) (entries (zs_Entities z)))
     @ concat (map transit_records (entries (zs_Transit z)))
     @ map placed_record (entries (zs_Placed z))"

definition ZoneCanonicalBytes :: "ZoneState \<Rightarrow> bytes" where
  "ZoneCanonicalBytes z = writeRecords (zone_records z)"

definition state_record :: "WorldState \<Rightarrow> string list" where
  "state_record s = (case ws_RNG s of (r0, r1, r2, r3) \<Rightarrow>
     [''state'', FormatUint (ws_Version s), FormatUint (ws_Tick s), FormatUint (ws_Seed s),
      FormatUint r0, FormatUint r1, FormatUint r2, FormatUint r3, FormatUint (ws_NextEventID s)])"

definition WorldState_CanonicalBytes :: "WorldState \<Rightarrow> bytes" where
  "WorldState_CanonicalBytes s =
     writeRecords (state_record s # map (\<lambda>(p, off). [''offset'', FormatInt p, FormatInt off]) (entries (ws_Offsets s)))
     @ concat (map (\<lambda>(_, z). ZoneCanonicalBytes z) (entries (ws_Zones s)))"

definition StateHash :: "WorldState \<Rightarrow> bytes" where
  "StateHash s = sha256 (WorldState_CanonicalBytes s)"

definition SnapshotCanonicalBytes :: "ZoneState \<Rightarrow> u64 \<Rightarrow> rng \<Rightarrow> u64 \<Rightarrow> bytes" where
  "SnapshotCanonicalBytes z tick prng nextEventID = (case prng of (r0, r1, r2, r3) \<Rightarrow>
     ZoneCanonicalBytes z @ writeRecords [[''snapshot'', FormatUint tick, FormatUint r0, FormatUint r1,
       FormatUint r2, FormatUint r3, FormatUint nextEventID]])"

definition SnapshotHash :: "ZoneState \<Rightarrow> u64 \<Rightarrow> rng \<Rightarrow> u64 \<Rightarrow> bytes" where
  "SnapshotHash z tick prng nextEventID = sha256 (SnapshotCanonicalBytes z tick prng nextEventID)"

definition ZoneHash :: "WorldState \<Rightarrow> ZoneID \<Rightarrow> bytes option" where
  "ZoneHash s zid = (case fmlookup (ws_Zones s) zid of None \<Rightarrow> None
     | Some z \<Rightarrow> Some (SnapshotHash z (ws_Tick s) (ws_RNG s) (ws_NextEventID s)))"

section \<open>Topology\<close>

definition exit_record :: "ZoneID \<Rightarrow> RoomID \<Rightarrow> Exit \<Rightarrow> string list" where
  "exit_record zid rid e = [''exit'', zid, rid, ex_Direction e, rr_Zone (ex_To e), rr_Room (ex_To e),
     if ex_CrossZone e then ''cross'' else ''local'']"

definition room_records :: "ZoneID \<Rightarrow> RoomID \<times> Room \<Rightarrow> string list list" where
  "room_records zid ridr = (case ridr of (rid, r) \<Rightarrow>
     [''room'', zid, rid, rm_Title r, rm_Description r]
     # writeComponents ''room_component'' ''room_field'' [zid, rid] (rm_Components r)
     @ map (exit_record zid rid) (rm_Exits r))"

definition topo_zone_records :: "ZoneID \<times> Zone \<Rightarrow> string list list" where
  "topo_zone_records zidz = (case zidz of (zid, z) \<Rightarrow>
     [''zone'', zid, zn_Name z, FormatInt (zn_Partition z)]
     # (if zn_Fallback z \<noteq> '''' then [[''zone_fallback'', zid, zn_Fallback z]] else [])
     @ writeComponents ''zone_component'' ''zone_field'' [zid] (zn_Components z)
     @ concat (map (room_records zid) (entries (zn_Rooms z))))"

definition CanonicalBytes :: "World \<Rightarrow> bytes" where
  "CanonicalBytes w = writeRecords (concat (map topo_zone_records (entries (w_Zones w))))"

fun strings_Join :: "string list \<Rightarrow> string \<Rightarrow> string" where
  "strings_Join [] sep = []"
| "strings_Join [x] sep = x"
| "strings_Join (x # y # xs) sep = x @ sep @ strings_Join (y # xs) sep"

definition TemplateKind_String :: "TemplateKind \<Rightarrow> string" where
  "TemplateKind_String k = (case k of KindEntity \<Rightarrow> ''entity'' | KindItem \<Rightarrow> ''item'' | KindBehavior \<Rightarrow> ''behavior'')"

definition template_records :: "TemplateRef \<times> Template \<Rightarrow> string list list" where
  "template_records rt = (case rt of (ref, t) \<Rightarrow>
     [''template'', ref, TemplateKind_String (tm_Kind t), strings_Join (tm_Chain t) ''>'']
     # writeComponents ''template_component'' ''template_field'' [ref] (tm_Components t)
     @ map (\<lambda>p. [''template_provenance'', ref, fp_Component p, fp_Field p, fp_From p]) (tm_Provenance t))"

definition TemplatesCanonicalBytes :: "TemplateRegistry option \<Rightarrow> bytes" where
  "TemplatesCanonicalBytes reg = (case reg of None \<Rightarrow> []
     | Some r \<Rightarrow> writeRecords (concat (map template_records (entries (tr_templates r)))))"

record ContentTopology =
  tp_World :: "World option"
  tp_Templates :: "TemplateRegistry option"

definition ContentDigest :: "ContentTopology \<Rightarrow> bytes" where
  "ContentDigest t = sha256 ((case tp_World t of None \<Rightarrow> [] | Some w \<Rightarrow> CanonicalBytes w) @ TemplatesCanonicalBytes (tp_Templates t))"

definition BigEndianUint64 :: "bytes \<Rightarrow> u64" where
  "BigEndianUint64 bs = foldl (\<lambda>acc c. push_bit 8 acc OR of_char c) 0 (take 8 bs)"

definition DeriveSeed :: "World \<Rightarrow> u64" where
  "DeriveSeed w = BigEndianUint64 (sha256 (CanonicalBytes w))"

section \<open>A record can be read back\<close>

lemma esc_neq_Nil [simp]: "esc c \<noteq> []"
  by (simp add: esc_def)

lemma esc_no_sep [simp]:
  "esc c \<noteq> CHR 0x09 # s" "esc c \<noteq> CHR 0x0A # s" "CHR 0x09 # s \<noteq> esc c" "CHR 0x0A # s \<noteq> esc c"
  by (auto simp: esc_def)

lemma esc_append_inject: "esc a @ x = esc b @ y \<Longrightarrow> a = b \<and> x = y"
  by (simp add: esc_def split: if_splits)

lemma writeEscaped_simps [simp]: "writeEscaped [] = []" "writeEscaped (c # s) = esc c @ writeEscaped s"
  by (simp_all add: writeEscaped_def)

lemma writeEscaped_sep_inject:
  assumes "writeEscaped f @ c # x = writeEscaped g @ d # y"
    and "c \<in> {CHR 0x09, CHR 0x0A}" "d \<in> {CHR 0x09, CHR 0x0A}"
  shows "f = g \<and> c = d \<and> x = y"
  using assms
proof (induction f arbitrary: g)
  case Nil
  then show ?case by (cases g) (auto simp: append_eq_Cons_conv Cons_eq_append_conv)
next
  case (Cons a f)
  show ?case
  proof (cases g)
    case Nil
    then show ?thesis using Cons.prems
      by (auto simp: append_eq_Cons_conv Cons_eq_append_conv)
  next
    case (Cons b g')
    with Cons.prems have "a = b \<and> writeEscaped f @ c # x = writeEscaped g' @ d # y"
      by (auto dest!: esc_append_inject)
    with Cons Cons.IH[of g'] Cons.prems show ?thesis by blast
  qed
qed

lemma writeFields_append_inject:
  assumes "r \<noteq> []" "r' \<noteq> []" "writeFields r @ x = writeFields r' @ y"
  shows "r = r' \<and> x = y"
  using assms
proof (induction r arbitrary: r' rule: writeFields.induct)
  case (2 f)
  then show ?case
    by (cases r' rule: writeFields.cases) (auto dest!: writeEscaped_sep_inject)
next
  case (3 f g fs)
  show ?case
  proof (cases r' rule: writeFields.cases)
    case (3 f' g' fs')
    with "3.prems" have "f = f' \<and> writeFields (g # fs) @ x = writeFields (g' # fs') @ y"
      by (auto dest!: writeEscaped_sep_inject)
    with 3 "3.IH"[of "g' # fs'"] show ?thesis by blast
  qed (use 3 in \<open>auto dest!: writeEscaped_sep_inject\<close>)
qed simp

lemma writeFields_neq_Nil [simp]: "writeFields r \<noteq> []"
  by (cases r rule: writeFields.cases) simp_all

lemma writeRecords_simps [simp]:
  "writeRecords [] = []" "writeRecords (r # rs) = writeFields r @ writeRecords rs"
  "writeRecords (rs @ rs') = writeRecords rs @ writeRecords rs'"
  by (simp_all add: writeRecords_def)

lemma writeRecords_inject:
  assumes "[] \<notin> set rs" "[] \<notin> set rs'" "writeRecords rs = writeRecords rs'"
  shows "rs = rs'"
  using assms
proof (induction rs arbitrary: rs')
  case Nil
  then show ?case by (cases rs') auto
next
  case (Cons r rs)
  then obtain r' rs'' where rs': "rs' = r' # rs''" by (cases rs') auto
  with Cons.prems have "r = r' \<and> writeRecords rs = writeRecords rs''"
    by (intro writeFields_append_inject) auto
  with rs' Cons.IH[of rs''] Cons.prems show ?case by auto
qed

lemma writeRecords_concat: "writeRecords (concat rss) = concat (map writeRecords rss)"
  by (induction rss) simp_all

section \<open>Sequences of tagged blocks\<close>

text \<open>
  The contract an encoder of blocks meets: a block is a head record and body records, the tags of
  heads and of bodies are disjoint, and head and body determine the element. Then a sequence of
  blocks determines the sequence of elements, whatever follows it, as long as what follows starts
  with neither kind of record.
\<close>

definition tag :: "string list \<Rightarrow> string" where
  "tag r = (case r of [] \<Rightarrow> [] | t # _ \<Rightarrow> t)"

lemma tag_Cons [simp]: "tag (t # fs) = t"
  by (simp add: tag_def)

definition stops :: "string set \<Rightarrow> string list list \<Rightarrow> bool" where
  "stops T rs \<longleftrightarrow> (rs = [] \<or> tag (hd rs) \<notin> T)"

lemma stops_simps [simp]: "stops T []" "stops T (r # rs) \<longleftrightarrow> tag r \<notin> T"
  by (simp_all add: stops_def)

lemma stops_append: "stops T (xs @ ys) \<longleftrightarrow> (if xs = [] then stops T ys else stops T xs)"
  by (simp add: stops_def)

lemma body_split:
  assumes "\<forall>r \<in> set b. tag r \<in> T" "\<forall>r \<in> set b'. tag r \<in> T" "stops T xs" "stops T ys" "b @ xs = b' @ ys"
  shows "b = b' \<and> xs = ys"
  using assms
proof (induction b arbitrary: b')
  case Nil
  then show ?case by (cases b') auto
next
  case (Cons r b)
  then show ?case by (cases b') auto
qed

locale record_blocks =
  fixes head :: "'a \<Rightarrow> string list"
    and body :: "'a \<Rightarrow> string list list"
    and H B :: "string set"
    and good :: "'a \<Rightarrow> bool"
  assumes head_tag: "tag (head x) \<in> H"
    and body_tag: "r \<in> set (body x) \<Longrightarrow> tag r \<in> B"
    and tags_disjoint: "H \<inter> B = {}"
    and block_inject: "good x \<Longrightarrow> good y \<Longrightarrow> head x = head y \<Longrightarrow> body x = body y \<Longrightarrow> x = y"
begin

lemma blocks_stop: "stops B (concat (map (\<lambda>x. head x # body x) xs) @ rest) \<longleftrightarrow> (xs \<noteq> [] \<or> stops B rest)"
  using head_tag tags_disjoint by (cases xs) (auto simp: disjoint_iff)

lemma blocks_inject:
  assumes "\<forall>x \<in> set xs. good x" "\<forall>y \<in> set ys. good y"
    and "stops (H \<union> B) rest" "stops (H \<union> B) rest'"
    and "concat (map (\<lambda>x. head x # body x) xs) @ rest = concat (map (\<lambda>y. head y # body y) ys) @ rest'"
  shows "xs = ys \<and> rest = rest'"
  using assms(1,2,5)
proof (induction xs arbitrary: ys)
  case Nil
  then show ?case using assms(3,4) head_tag by (cases ys) (auto simp: stops_def)
next
  case (Cons x xs)
  have "ys \<noteq> []"
  proof
    assume "ys = []"
    with Cons.prems(3) have "tag (hd rest') = tag (head x)" "rest' \<noteq> []" by auto
    with assms(4) head_tag[of x] show False by (simp add: stops_def)
  qed
  then obtain y ys' where ys: "ys = y # ys'" by (cases ys) auto
  let ?xs = "concat (map (\<lambda>x. head x # body x) xs) @ rest"
  let ?ys = "concat (map (\<lambda>x. head x # body x) ys') @ rest'"
  have hd: "head x = head y" and eq: "body x @ ?xs = body y @ ?ys" using Cons.prems(3) ys by simp_all
  have "stops B rest" "stops B rest'" using assms(3,4) by (auto simp: stops_def)
  then have "stops B ?xs" "stops B ?ys" by (simp_all add: blocks_stop)
  then have "body x = body y \<and> ?xs = ?ys" using eq body_tag by (intro body_split[where T = B]) auto
  moreover from this have "x = y" using hd ys Cons.prems(1,2) by (intro block_inject) auto
  ultimately show ?case using ys Cons.IH[of ys'] Cons.prems(1,2) by simp
qed

end

definition opt_record :: "bool \<Rightarrow> string list \<Rightarrow> string list list" where
  "opt_record b r = (if b then [r] else [])"

lemma opt_record_split:
  assumes "opt_record a r @ xs = opt_record b r' @ ys"
    and "tag r = t" "tag r' = t" "stops {t} xs" "stops {t} ys"
  shows "(a \<longleftrightarrow> b) \<and> (a \<longrightarrow> r = r') \<and> xs = ys"
  using assms by (auto split: if_splits simp: stops_def opt_record_def)

lemma stops_opt_record: "tag r \<notin> T \<Longrightarrow> stops T (opt_record b r @ xs) \<longleftrightarrow> b \<or> stops T xs"
  by (simp add: opt_record_def)

lemma opt_record_tag: "r' \<in> set (opt_record b r) \<Longrightarrow> tag r' = tag r"
  by (simp add: opt_record_def split: if_splits)

section \<open>Component sets\<close>

lemma FieldKind_String_inject: "FieldKind_String k = FieldKind_String k' \<Longrightarrow> k = k'"
  by (auto simp: FieldKind_String_def split: FieldKind.splits)

lemma field_inject:
  assumes "canonical_field f" "canonical_field g"
    and "cf_Name f = cf_Name g" "FieldKind_String (cf_Kind f) = FieldKind_String (cf_Kind g)" "Value f = Value g"
  shows "f = g"
  using assms FieldKind_String_inject[OF assms(4)]
  by (cases f; cases g) (auto simp: canonical_field_def Value_def split: FieldKind.splits)

text \<open>
  A Component set as the writers order it: by type, and each Component's fields by name. A name may come
  twice, as it may in a snapshot body; the State Hash takes the order they are in.
\<close>

definition ordered_component :: "Component \<Rightarrow> bool" where
  "ordered_component c \<longleftrightarrow> list_all canonical_field (comp_Fields c) \<and> sorted (map cf_Name (comp_Fields c))"

definition ordered_components :: "Component list \<Rightarrow> bool" where
  "ordered_components cs \<longleftrightarrow> list_all ordered_component cs \<and> sorted (map comp_Type cs)"

lemma canonical_ordered: "canonical_components cs \<Longrightarrow> ordered_components cs"
  by (auto simp: canonical_components_def canonical_component_def ordered_components_def ordered_component_def list_all_iff)

lemma ordered_sortComponents: "list_all (\<lambda>c. list_all canonical_field (comp_Fields c)) cs \<Longrightarrow> ordered_components (sortComponents cs)"
  by (auto simp: ordered_components_def ordered_component_def sortComponents_def sortFields_def list_all_iff comp_def)

locale component_blocks =
  fixes compRec fieldRec :: string and scope :: "string list"
  assumes tags_differ: "compRec \<noteq> fieldRec"
begin

definition comp_head :: "Component \<Rightarrow> string list" where
  "comp_head c = compRec # scope @ [comp_Type c]"

definition comp_body :: "Component \<Rightarrow> string list list" where
  "comp_body c = map (\<lambda>f. fieldRec # scope @ [comp_Type c, cf_Name f, FieldKind_String (cf_Kind f), Value f]) (comp_Fields c)"

sublocale record_blocks comp_head comp_body "{compRec}" "{fieldRec}" ordered_component
proof unfold_locales
  fix x y assume good: "ordered_component x" "ordered_component y"
    and eq: "comp_head x = comp_head y" "comp_body x = comp_body y"
  have "comp_Type x = comp_Type y" using eq(1) by (simp add: comp_head_def)
  moreover have "comp_Fields x = comp_Fields y"
    by (rule list.inj_map_strong[OF _ eq(2)[unfolded comp_body_def]])
      (use good in \<open>auto simp: ordered_component_def list_all_iff intro: field_inject\<close>)
  ultimately show "x = y" by (cases x; cases y) simp
qed (auto simp: comp_head_def comp_body_def tags_differ)

lemma writeComponents_blocks:
  "ordered_components cs \<Longrightarrow>
   writeComponents compRec fieldRec scope cs = concat (map (\<lambda>c. comp_head c # comp_body c) cs)"
  unfolding writeComponents_def comp_head_def comp_body_def ordered_components_def
  by (auto simp: sort_key_id_if_sorted list_all_iff ordered_component_def intro!: arg_cong[of _ _ concat])

lemma writeComponents_ordered:
  assumes "ordered_components cs" "ordered_components cs'"
    and "stops {compRec, fieldRec} rest" "stops {compRec, fieldRec} rest'"
    and "writeComponents compRec fieldRec scope cs @ rest = writeComponents compRec fieldRec scope cs' @ rest'"
  shows "cs = cs' \<and> rest = rest'"
proof (rule blocks_inject)
  show "\<forall>x \<in> set cs. ordered_component x" "\<forall>x \<in> set cs'. ordered_component x"
    using assms(1,2) by (auto simp: ordered_components_def list_all_iff)
qed (use assms in \<open>auto simp: writeComponents_blocks insert_commute\<close>)

lemmas writeComponents_inject = writeComponents_ordered[OF canonical_ordered canonical_ordered]

end

lemma writeComponents_tags: "r \<in> set (writeComponents a b scope cs) \<Longrightarrow> tag r = a \<or> tag r = b"
  by (auto simp: writeComponents_def)

lemma writeComponents_stops: "a \<notin> T \<Longrightarrow> b \<notin> T \<Longrightarrow> stops T (writeComponents a b scope cs @ rest) \<longleftrightarrow> (cs = [] \<longrightarrow> stops T rest)"
proof (cases "sort_key comp_Type cs")
  case Nil
  then have "cs = []" by (metis length_0_conv length_sort)
  then show ?thesis by (simp add: writeComponents_def)
next
  case (Cons c cs')
  moreover from this have "cs \<noteq> []" by auto
  ultimately show "a \<notin> T \<Longrightarrow> ?thesis" by (simp add: writeComponents_def)
qed

interpretation ent_comps: component_blocks "''entity_component''" "''entity_field''" "[eid]" for eid
  by unfold_locales simp

interpretation room_comps: component_blocks "''room_component''" "''room_field''" "[zid, rid]" for zid rid
  by unfold_locales simp

interpretation zone_comps: component_blocks "''zone_component''" "''zone_field''" "[zid]" for zid
  by unfold_locales simp

interpretation tmpl_comps: component_blocks "''template_component''" "''template_field''" "[ref]" for ref
  by unfold_locales simp

section \<open>Entities, transit records and marks\<close>

abbreviation entity_body_tags :: "string set" where
  "entity_body_tags \<equiv> {''entity_room'', ''entity_name'', ''entity_dormant'', ''entity_linkdead'', ''entity_handoff'',
     ''entity_component'', ''entity_field''}"

definition entity_body :: "EntityState \<Rightarrow> string list list" where
  "entity_body e =
     opt_record (en_Room e \<noteq> '''') [''entity_room'', en_ID e, en_Room e]
     @ opt_record (en_Name e \<noteq> '''') [''entity_name'', en_ID e, en_Name e]
     @ opt_record (en_Dormant e) [''entity_dormant'', en_ID e, FormatUint (en_DormantSince e)]
     @ opt_record (en_LinkdeadDeadline e \<noteq> 0)
          [''entity_linkdead'', en_ID e, FormatUint (en_LinkdeadSince e), FormatUint (en_LinkdeadDeadline e),
            FormatUint (en_LinkdeadCeiling e), FormatUint (en_LinkdeadExtension e)]
     @ opt_record (en_HandoffSeq e \<noteq> 0) [''entity_handoff'', en_ID e, FormatUint (en_HandoffSeq e)]
     @ writeComponents ''entity_component'' ''entity_field'' [en_ID e] (en_Components e)"

definition entity_head :: "EntityState \<Rightarrow> string list" where
  "entity_head e = [''entity'', en_ID e, en_Template e, en_ContentVersion e]"

lemma entity_records_blocks: "entity_records e = entity_head e # entity_body e"
  by (simp only: entity_records_def entity_head_def entity_body_def opt_record_def append.simps)

definition ordered_entity :: "EntityState \<Rightarrow> bool" where
  "ordered_entity e \<longleftrightarrow>
     (\<not> en_Dormant e \<longrightarrow> en_DormantSince e = 0)
     \<and> (en_LinkdeadDeadline e = 0 \<longrightarrow> en_LinkdeadSince e = 0 \<and> en_LinkdeadCeiling e = 0 \<and> en_LinkdeadExtension e = 0)
     \<and> ordered_components (en_Components e)"

lemma canonical_ordered_entity: "canonical_entity e \<Longrightarrow> ordered_entity e"
  by (simp add: canonical_entity_def ordered_entity_def canonical_ordered)

lemma entity_body_inject:
  assumes good: "ordered_entity e" "ordered_entity e'"
    and hd: "entity_head e = entity_head e'" and eq: "entity_body e = entity_body e'"
  shows "e = e'"
proof -
  have ids: "en_ID e = en_ID e'" "en_Template e = en_Template e'" "en_ContentVersion e = en_ContentVersion e'"
    using hd by (simp_all add: entity_head_def)
  define c where "c x = writeComponents ''entity_component'' ''entity_field'' [en_ID x] (en_Components x)" for x :: EntityState
  define h where "h x = opt_record (en_HandoffSeq x \<noteq> 0) [''entity_handoff'', en_ID x, FormatUint (en_HandoffSeq x)] @ c x" for x :: EntityState
  define l where "l x = opt_record (en_LinkdeadDeadline x \<noteq> 0)
    [''entity_linkdead'', en_ID x, FormatUint (en_LinkdeadSince x), FormatUint (en_LinkdeadDeadline x),
      FormatUint (en_LinkdeadCeiling x), FormatUint (en_LinkdeadExtension x)] @ h x" for x :: EntityState
  define d where "d x = opt_record (en_Dormant x) [''entity_dormant'', en_ID x, FormatUint (en_DormantSince x)] @ l x" for x :: EntityState
  define n where "n x = opt_record (en_Name x \<noteq> '''') [''entity_name'', en_ID x, en_Name x] @ d x" for x :: EntityState
  have sc: "t \<notin> {''entity_component'', ''entity_field''} \<Longrightarrow> stops {t} (c x)" for t and x :: EntityState
    using writeComponents_stops[of "''entity_component''" "{t}" "''entity_field''" _ _ "[]"] by (auto simp: c_def)
  have sh: "t \<notin> {''entity_handoff'', ''entity_component'', ''entity_field''} \<Longrightarrow> stops {t} (h x)" for t and x :: EntityState
    by (auto simp: h_def stops_opt_record intro!: sc)
  have sl: "t \<notin> {''entity_linkdead'', ''entity_handoff'', ''entity_component'', ''entity_field''} \<Longrightarrow> stops {t} (l x)" for t and x :: EntityState
    by (auto simp: l_def stops_opt_record intro!: sh)
  have sd: "stops {''entity_name''} (d x)" for x :: EntityState by (simp add: d_def stops_opt_record sl)
  have sn: "stops {''entity_room''} (n x)" for x :: EntityState by (simp add: n_def d_def stops_opt_record sl)
  note split = opt_record_split[OF _ tag_Cons tag_Cons]
  have r: "en_Room e = en_Room e'" and 1: "n e = n e'"
    using split[OF eq[unfolded entity_body_def, folded c_def, folded h_def, folded l_def, folded d_def, folded n_def] sn sn]
    by (simp_all, metis)
  have nm: "en_Name e = en_Name e'" and 2: "d e = d e'"
    using split[OF 1[unfolded n_def] sd sd] by (simp_all, metis)
  have dm: "en_Dormant e = en_Dormant e'" "en_Dormant e \<longrightarrow> en_DormantSince e = en_DormantSince e'" and 3: "l e = l e'"
    using split[OF 2[unfolded d_def] sl sl] by simp_all
  have lk: "(en_LinkdeadDeadline e = 0 \<longleftrightarrow> en_LinkdeadDeadline e' = 0)"
    "en_LinkdeadDeadline e \<noteq> 0 \<longrightarrow> en_LinkdeadSince e = en_LinkdeadSince e' \<and> en_LinkdeadDeadline e = en_LinkdeadDeadline e'
      \<and> en_LinkdeadCeiling e = en_LinkdeadCeiling e' \<and> en_LinkdeadExtension e = en_LinkdeadExtension e'"
    and 4: "h e = h e'"
  proof -
    have "stops {''entity_linkdead''} (h x)" for x by (rule sh) simp
    note L = split[OF 3[unfolded l_def] this this]
    show "en_LinkdeadDeadline e = 0 \<longleftrightarrow> en_LinkdeadDeadline e' = 0" "h e = h e'" using L by argo+
    show "en_LinkdeadDeadline e \<noteq> 0 \<longrightarrow> en_LinkdeadSince e = en_LinkdeadSince e' \<and> en_LinkdeadDeadline e = en_LinkdeadDeadline e'
      \<and> en_LinkdeadCeiling e = en_LinkdeadCeiling e' \<and> en_LinkdeadExtension e = en_LinkdeadExtension e'"
      using L[THEN conjunct2, THEN conjunct1] by simp
  qed
  have hs: "en_HandoffSeq e = en_HandoffSeq e'" and 5: "c e = c e'"
    using split[OF 4[unfolded h_def] sc sc] by (simp_all, metis)
  have cs: "en_Components e = en_Components e'"
    using ent_comps.writeComponents_ordered[of "en_Components e" "en_Components e'" "[]" "[]" "en_ID e'"] 5 good ids
    by (simp add: ordered_entity_def c_def)
  have "en_DormantSince e = en_DormantSince e'" "en_LinkdeadSince e = en_LinkdeadSince e'"
    "en_LinkdeadDeadline e = en_LinkdeadDeadline e'" "en_LinkdeadCeiling e = en_LinkdeadCeiling e'"
    "en_LinkdeadExtension e = en_LinkdeadExtension e'"
    using good dm lk by (auto simp: ordered_entity_def)
  then show ?thesis using ids r nm dm(1) hs cs by (intro EntityState.equality) simp_all
qed

lemma entity_body_tag: "r \<in> set (entity_body e) \<Longrightarrow> tag r \<in> entity_body_tags"
  by (auto simp: entity_body_def dest!: opt_record_tag writeComponents_tags)

interpretation ents: record_blocks entity_head entity_body "{''entity''}" entity_body_tags ordered_entity
proof unfold_locales
  show "ordered_entity x \<Longrightarrow> ordered_entity y \<Longrightarrow> entity_head x = entity_head y \<Longrightarrow> entity_body x = entity_body y \<Longrightarrow> x = y" for x y
    by (rule entity_body_inject)
  show "r \<in> set (entity_body x) \<Longrightarrow> tag r \<in> entity_body_tags" for x r by (rule entity_body_tag)
qed (simp_all add: entity_head_def)

abbreviation entity_tags :: "string set" where
  "entity_tags \<equiv> insert ''entity'' entity_body_tags"

lemma entity_records_tags: "r \<in> set (entity_records e) \<Longrightarrow> tag r \<in> entity_tags"
  using entity_body_tag by (auto simp: entity_records_blocks entity_head_def)

definition transit_head :: "EntityID \<times> TransitRecord \<Rightarrow> string list" where
  "transit_head tr = [''transit'', fst tr, tx_To (snd tr), tx_Room (snd tr), tx_Direction (snd tr)]"

definition transit_body :: "EntityID \<times> TransitRecord \<Rightarrow> string list list" where
  "transit_body tr = entity_records (tx_Entity (snd tr))"

lemma transit_records_blocks: "transit_records tr = transit_head tr # transit_body tr"
  by (simp add: transit_records_def transit_head_def transit_body_def split_def)

interpretation transits: record_blocks transit_head transit_body
  "{''transit''}" entity_tags "\<lambda>tr. ordered_entity (tx_Entity (snd tr))"
proof unfold_locales
  fix x y :: "EntityID \<times> TransitRecord"
  assume good: "ordered_entity (tx_Entity (snd x))" "ordered_entity (tx_Entity (snd y))"
    and eq: "transit_head x = transit_head y" "transit_body x = transit_body y"
  have "tx_Entity (snd x) = tx_Entity (snd y)"
    using good eq(2) by (intro ents.block_inject) (simp_all add: transit_body_def entity_records_blocks)
  with eq(1) show "x = y" by (simp add: transit_head_def prod_eq_iff)
next
  show "r \<in> set (transit_body x) \<Longrightarrow> tag r \<in> entity_tags" for x r
    unfolding transit_body_def by (rule entity_records_tags)
qed (simp_all add: transit_head_def)

lemma placed_record_inject: "placed_record x = placed_record y \<Longrightarrow> x = y"
  by (cases x; cases y; cases "snd x"; cases "snd y") (auto simp: placed_record_def split: if_splits)

section \<open>A Zone's section\<close>

lemma fmap_eq_by_values:
  assumes "fmpred (\<lambda>k v. f v = k) m" "fmpred (\<lambda>k v. f v = k) m'" "map snd (entries m) = map snd (entries m')"
  shows "m = m'"
proof -
  have "entries m = map (\<lambda>v. (f v, v)) (map snd (entries m))" if "fmpred (\<lambda>k v. f v = k) m" for m
    using that by (auto simp: set_entries fmpred_iff intro!: map_idI[symmetric])
  then have "entries m = entries m'" using assms by metis
  then show ?thesis by (simp add: entries_inject)
qed

abbreviation zone_body_tags :: "string set" where
  "zone_body_tags \<equiv> insert ''transit'' (insert ''placed'' entity_tags)"

definition zone_head :: "ZoneState \<Rightarrow> string list" where
  "zone_head z = [''zone_state'', zs_ID z, FormatBool (zs_Faulted z), FormatUint (zs_FaultedTick z)]"

definition zone_body :: "ZoneState \<Rightarrow> string list list" where
  "zone_body z = concat (map (\<lambda>e. entity_head e # entity_body e) (map snd (entries (zs_Entities z))))
    @ concat (map (\<lambda>t. transit_head t # transit_body t) (entries (zs_Transit z)))
    @ map placed_record (entries (zs_Placed z))"

lemma zone_records_blocks: "zone_records z = zone_head z # zone_body z"
  by (simp add: zone_records_def zone_head_def zone_body_def transit_records_blocks[abs_def] entity_records_blocks comp_def split_def)

lemma placed_record_tag: "tag (placed_record m) = ''placed''"
  by (simp add: placed_record_def split_def)

lemma zone_body_tag:
  assumes "r \<in> set (zone_body z)"
  shows "tag r \<in> zone_body_tags"
proof -
  consider (e) e where "r \<in> set (entity_records e)" | (t) t where "r = transit_head t" | (p) m where "r = placed_record m"
    using assms by (auto simp: zone_body_def entity_records_blocks transit_body_def)
  then show ?thesis
  proof cases
    case e
    then show ?thesis using entity_records_tags[OF e] by (simp only: insert_iff simp_thms)
  qed (simp_all add: transit_head_def placed_record_tag)
qed

definition good_zone :: "ZoneState \<Rightarrow> bool" where
  "good_zone z \<longleftrightarrow> keyed_zone (zs_ID z) z \<and> canonical_zone z"

definition ordered_zone :: "ZoneState \<Rightarrow> bool" where
  "ordered_zone z \<longleftrightarrow> keyed_zone (zs_ID z) z \<and> fmpred (\<lambda>_ e. ordered_entity e) (zs_Entities z)
     \<and> fmpred (\<lambda>_ r. ordered_entity (tx_Entity r)) (zs_Transit z)"

lemma good_ordered_zone: "good_zone z \<Longrightarrow> ordered_zone z"
  by (auto simp: good_zone_def ordered_zone_def canonical_zone_def fmpred_iff canonical_ordered_entity)

lemma stops_placed: "''placed'' \<notin> T \<Longrightarrow> stops T (map placed_record ps)"
  by (cases ps) (simp_all add: placed_record_tag)

lemma stops_transits:
  "''transit'' \<notin> T \<Longrightarrow> ''placed'' \<notin> T \<Longrightarrow>
   stops T (concat (map (\<lambda>t. transit_head t # transit_body t) ts) @ map placed_record ps)"
  by (cases ts) (simp_all add: stops_placed transit_head_def)

lemma zone_body_inject:
  assumes good: "ordered_zone z" "ordered_zone z'"
    and hd: "zone_head z = zone_head z'" and eq: "zone_body z = zone_body z'"
  shows "z = z'"
proof -
  have canon: "\<forall>e \<in> set (map snd (entries (zs_Entities x))). ordered_entity e"
    "\<forall>t \<in> set (entries (zs_Transit x)). ordered_entity (tx_Entity (snd t))" if "ordered_zone x" for x
    using that by (auto simp: ordered_zone_def set_entries fmpred_iff)
  have 1: "map snd (entries (zs_Entities z)) = map snd (entries (zs_Entities z')) \<and>
    concat (map (\<lambda>t. transit_head t # transit_body t) (entries (zs_Transit z))) @ map placed_record (entries (zs_Placed z)) =
    concat (map (\<lambda>t. transit_head t # transit_body t) (entries (zs_Transit z'))) @ map placed_record (entries (zs_Placed z'))"
    by (rule ents.blocks_inject[OF canon(1)[OF good(1)] canon(1)[OF good(2)] _ _ eq[unfolded zone_body_def]])
      (simp_all add: stops_transits)
  have 2: "entries (zs_Transit z) = entries (zs_Transit z') \<and> map placed_record (entries (zs_Placed z)) = map placed_record (entries (zs_Placed z'))"
    by (rule transits.blocks_inject[OF canon(2)[OF good(1)] canon(2)[OF good(2)] _ _ conjunct2[OF 1]])
      (simp_all add: stops_placed)
  have "entries (zs_Placed z) = entries (zs_Placed z')"
    by (rule list.inj_map_strong[OF _ conjunct2[OF 2]]) (rule placed_record_inject)
  moreover have "zs_Entities z = zs_Entities z'"
    by (rule fmap_eq_by_values[where f = en_ID]) (use 1 good in \<open>simp_all add: ordered_zone_def keyed_zone_def\<close>)
  ultimately show ?thesis using hd 2 by (simp add: entries_inject zone_head_def)
qed

interpretation zones: record_blocks zone_head zone_body "{''zone_state''}" zone_body_tags ordered_zone
proof unfold_locales
  show "ordered_zone x \<Longrightarrow> ordered_zone y \<Longrightarrow> zone_head x = zone_head y \<Longrightarrow> zone_body x = zone_body y \<Longrightarrow> x = y" for x y
    by (rule zone_body_inject)
  show "r \<in> set (zone_body x) \<Longrightarrow> tag r \<in> zone_body_tags" for x r by (rule zone_body_tag)
qed (simp_all add: zone_head_def)


section \<open>The World state\<close>

definition canonical_state :: "WorldState \<Rightarrow> bool" where
  "canonical_state s \<longleftrightarrow> keyed_state s \<and> fmpred (\<lambda>_ z. canonical_zone z) (ws_Zones s)"

definition offset_record :: "int \<times> int \<Rightarrow> string list" where
  "offset_record po = [''offset'', FormatInt (fst po), FormatInt (snd po)]"

definition state_records :: "WorldState \<Rightarrow> string list list" where
  "state_records s = state_record s # map offset_record (entries (ws_Offsets s))
     @ concat (map (\<lambda>z. zone_head z # zone_body z) (map snd (entries (ws_Zones s))))"

lemma WorldState_CanonicalBytes_records: "WorldState_CanonicalBytes s = writeRecords (state_records s)"
  by (simp add: WorldState_CanonicalBytes_def state_records_def writeRecords_concat offset_record_def[abs_def]
      ZoneCanonicalBytes_def zone_records_blocks comp_def split_def)

lemma tag_neq_Nil: "tag r \<noteq> [] \<Longrightarrow> r \<noteq> []"
  by (auto simp: tag_def)

lemma zone_block_tags: "r \<in> set (zone_head z # zone_body z) \<Longrightarrow> tag r \<noteq> []"
  using zone_body_tag[of r z] by (auto simp: zone_head_def)

lemma state_records_nonempty: "[] \<notin> set (state_records s)"
  using zone_block_tags by (fastforce simp: state_records_def state_record_def offset_record_def tag_def split: prod.splits)

lemma state_record_inject:
  "state_record s = state_record s' \<Longrightarrow> ws_Version s = ws_Version s' \<and> ws_Tick s = ws_Tick s' \<and> ws_Seed s = ws_Seed s'
     \<and> ws_RNG s = ws_RNG s' \<and> ws_NextEventID s = ws_NextEventID s'"
  by (cases "ws_RNG s"; cases "ws_RNG s'") (simp add: state_record_def)

lemma stops_zone_blocks: "''zone_state'' \<notin> T \<Longrightarrow> stops T (concat (map (\<lambda>z. zone_head z # zone_body z) zs))"
  by (cases zs) (simp_all add: zone_head_def)

lemma state_records_inject:
  assumes good: "canonical_state s" "canonical_state s'" and eq: "state_records s = state_records s'"
  shows "s = s'"
proof -
  have "map offset_record (entries (ws_Offsets s)) = map offset_record (entries (ws_Offsets s')) \<and>
    concat (map (\<lambda>z. zone_head z # zone_body z) (map snd (entries (ws_Zones s)))) =
    concat (map (\<lambda>z. zone_head z # zone_body z) (map snd (entries (ws_Zones s'))))"
    by (rule body_split[where T = "{''offset''}"])
      (use eq in \<open>auto simp: state_records_def offset_record_def simp del: map_map intro!: stops_zone_blocks\<close>)
  then have offs: "map offset_record (entries (ws_Offsets s)) = map offset_record (entries (ws_Offsets s'))"
    and zs: "concat (map (\<lambda>z. zone_head z # zone_body z) (map snd (entries (ws_Zones s)))) @ [] =
      concat (map (\<lambda>z. zone_head z # zone_body z) (map snd (entries (ws_Zones s')))) @ []" by simp_all
  have good_zones: "\<forall>z \<in> set (map snd (entries (ws_Zones x))). ordered_zone z" if "canonical_state x" for x
    using that by (intro ballI good_ordered_zone) (fastforce simp: canonical_state_def keyed_state_def good_zone_def set_entries fmpred_iff keyed_zone_def)
  have "map snd (entries (ws_Zones s)) = map snd (entries (ws_Zones s'))"
    using zones.blocks_inject[OF good_zones[OF good(1)] good_zones[OF good(2)] _ _ zs] by simp
  then have "ws_Zones s = ws_Zones s'"
    by (rule fmap_eq_by_values[where f = zs_ID, rotated 2])
      (use good in \<open>auto simp: canonical_state_def keyed_state_def keyed_zone_def fmpred_iff\<close>)
  moreover have "entries (ws_Offsets s) = entries (ws_Offsets s')"
    by (rule list.inj_map_strong[OF _ offs]) (simp add: offset_record_def prod_eq_iff)
  moreover have "state_record s = state_record s'" using eq by (simp add: state_records_def)
  ultimately show ?thesis using state_record_inject[of s s'] by (simp add: entries_inject)
qed

lemma state_bytes_inject:
  assumes "canonical_state s" "canonical_state s'" "WorldState_CanonicalBytes s = WorldState_CanonicalBytes s'"
  shows "s = s'"
  using assms writeRecords_inject[OF state_records_nonempty state_records_nonempty] state_records_inject
  by (simp add: WorldState_CanonicalBytes_records)

text \<open>
  C21. The State Hash covers the whole state: two World states whose canonical bytes agree are the
  same state (every Zone, Entity, Component field, transit record, handoff mark, offset, random
  generator word and counter), so two different states with one State Hash are a SHA-256 collision.
\<close>
theorem StateHash_covers_state:
  assumes "canonical_state s" "canonical_state s'"
  shows "(WorldState_CanonicalBytes s = WorldState_CanonicalBytes s' \<longleftrightarrow> s = s')
    \<and> (StateHash s = StateHash s' \<longrightarrow> s = s' \<or>
         WorldState_CanonicalBytes s \<noteq> WorldState_CanonicalBytes s'
         \<and> sha256 (WorldState_CanonicalBytes s) = sha256 (WorldState_CanonicalBytes s'))"
  using state_bytes_inject[OF assms] by (auto simp: StateHash_def)

theorem StateHash_covers_state_witness:
  "WorldState_CanonicalBytes (NewWorldState EmptyWorld 1 [0]) \<noteq> WorldState_CanonicalBytes (NewWorldState EmptyWorld 1 [0, 1])"
proof -
  have "canonical_state (NewWorldState EmptyWorld 1 ps)" for ps
    by (simp add: canonical_state_def NewWorldState_def keyed_state_def EmptyWorld_def fmap_of_list.rep_eq fmpred_iff)
  moreover have "NewWorldState EmptyWorld 1 [0] \<noteq> NewWorldState EmptyWorld 1 [0, 1]"
  proof
    assume "NewWorldState EmptyWorld 1 [0] = NewWorldState EmptyWorld 1 [0, 1]"
    then have "fmlookup (ws_Offsets (NewWorldState EmptyWorld 1 [0])) 1 = fmlookup (ws_Offsets (NewWorldState EmptyWorld 1 [0, 1])) 1"
      by simp
    then show False by (simp add: NewWorldState_def fmap_of_list.rep_eq)
  qed
  ultimately show ?thesis using StateHash_covers_state by blast
qed


section \<open>The topology\<close>

definition good_room :: "RoomID \<times> Room \<Rightarrow> bool" where
  "good_room rr \<longleftrightarrow> rm_ID (snd rr) = fst rr \<and> canonical_components (rm_Components (snd rr))"

definition good_topo_zone :: "ZoneID \<times> Zone \<Rightarrow> bool" where
  "good_topo_zone zz \<longleftrightarrow> zn_ID (snd zz) = fst zz \<and> canonical_components (zn_Components (snd zz))
     \<and> list_all good_room (entries (zn_Rooms (snd zz)))"

definition canonical_world :: "World \<Rightarrow> bool" where
  "canonical_world w \<longleftrightarrow> list_all good_topo_zone (entries (w_Zones w))"

definition room_head :: "ZoneID \<Rightarrow> RoomID \<times> Room \<Rightarrow> string list" where
  "room_head zid rr = [''room'', zid, fst rr, rm_Title (snd rr), rm_Description (snd rr)]"

definition room_body :: "ZoneID \<Rightarrow> RoomID \<times> Room \<Rightarrow> string list list" where
  "room_body zid rr = writeComponents ''room_component'' ''room_field'' [zid, fst rr] (rm_Components (snd rr))
     @ map (exit_record zid (fst rr)) (rm_Exits (snd rr))"

abbreviation room_tags :: "string set" where
  "room_tags \<equiv> {''room_component'', ''room_field'', ''exit''}"

lemma room_records_blocks: "room_records zid rr = room_head zid rr # room_body zid rr"
  by (simp add: room_records_def room_head_def room_body_def split_def)

lemma exit_record_inject: "exit_record zid rid e = exit_record zid rid e' \<Longrightarrow> e = e'"
  by (auto simp: exit_record_def split: if_splits)

lemma stops_exits: "''exit'' \<notin> T \<Longrightarrow> stops T (map (exit_record zid rid) es)"
  by (cases es) (simp_all add: exit_record_def)

interpretation rooms: record_blocks "room_head zid" "room_body zid" "{''room''}" room_tags good_room for zid
proof unfold_locales
  fix x y assume good: "good_room x" "good_room y" and eq: "room_head zid x = room_head zid y" "room_body zid x = room_body zid y"
  have hd: "fst x = fst y" "rm_Title (snd x) = rm_Title (snd y)" "rm_Description (snd x) = rm_Description (snd y)"
    using eq(1) by (simp_all add: room_head_def)
  have split: "rm_Components (snd x) = rm_Components (snd y) \<and>
      map (exit_record zid (fst y)) (rm_Exits (snd x)) = map (exit_record zid (fst y)) (rm_Exits (snd y))"
    by (rule room_comps.writeComponents_inject[of _ _ _ _ zid "fst y"])
      (use eq(2) good hd in \<open>simp_all add: room_body_def good_room_def stops_exits\<close>)
  have "rm_Exits (snd x) = rm_Exits (snd y)"
    by (rule list.inj_map_strong[OF _ conjunct2[OF split]]) (rule exit_record_inject)
  moreover have "rm_ID (snd x) = rm_ID (snd y)" using good hd by (simp add: good_room_def)
  ultimately show "x = y" using hd split by (simp add: prod_eq_iff)
next
  show "r \<in> set (room_body zid x) \<Longrightarrow> tag r \<in> room_tags" for x r
    by (auto simp: room_body_def exit_record_def dest: writeComponents_tags)
qed (simp_all add: room_head_def)

definition topo_zone_head :: "ZoneID \<times> Zone \<Rightarrow> string list" where
  "topo_zone_head zz = [''zone'', fst zz, zn_Name (snd zz), FormatInt (zn_Partition (snd zz))]"

definition topo_zone_body :: "ZoneID \<times> Zone \<Rightarrow> string list list" where
  "topo_zone_body zz = opt_record (zn_Fallback (snd zz) \<noteq> '''') [''zone_fallback'', fst zz, zn_Fallback (snd zz)]
     @ writeComponents ''zone_component'' ''zone_field'' [fst zz] (zn_Components (snd zz))
     @ concat (map (\<lambda>r. room_head (fst zz) r # room_body (fst zz) r) (entries (zn_Rooms (snd zz))))"

abbreviation topo_zone_tags :: "string set" where
  "topo_zone_tags \<equiv> {''zone_fallback'', ''zone_component'', ''zone_field'', ''room''} \<union> room_tags"

lemma topo_zone_records_blocks: "topo_zone_records zz = topo_zone_head zz # topo_zone_body zz"
  by (simp add: topo_zone_records_def topo_zone_head_def topo_zone_body_def opt_record_def room_records_blocks[abs_def] split_def)

lemma stops_rooms: "''room'' \<notin> T \<Longrightarrow> stops T (concat (map (\<lambda>r. room_head zid r # room_body zid r) rs))"
  by (cases rs) (simp_all add: room_head_def)

lemma topo_zone_body_tag: "r \<in> set (topo_zone_body zz) \<Longrightarrow> tag r \<in> topo_zone_tags"
proof -
  have "r \<in> set (room_head zid x # room_body zid x) \<Longrightarrow> tag r \<in> insert ''room'' room_tags" for r zid x
    using rooms.body_tag[of r zid x] by (auto simp: room_head_def)
  then show "r \<in> set (topo_zone_body zz) \<Longrightarrow> ?thesis"
    unfolding topo_zone_body_def by (fastforce dest: opt_record_tag writeComponents_tags)
qed

lemma topo_zone_body_inject:
  assumes good: "good_topo_zone x" "good_topo_zone y"
    and hd: "topo_zone_head x = topo_zone_head y" and eq: "topo_zone_body x = topo_zone_body y"
  shows "x = y"
proof -
  let ?rooms = "\<lambda>x. concat (map (\<lambda>r. room_head (fst x) r # room_body (fst x) r) (entries (zn_Rooms (snd x))))"
  let ?comps = "\<lambda>x. writeComponents ''zone_component'' ''zone_field'' [fst x] (zn_Components (snd x)) @ ?rooms x"
  have h: "fst x = fst y" "zn_Name (snd x) = zn_Name (snd y)" "zn_Partition (snd x) = zn_Partition (snd y)"
    using hd by (simp_all add: topo_zone_head_def)
  have sf: "stops {''zone_fallback''} (?comps z)" for z by (simp add: writeComponents_stops stops_rooms)
  note F = opt_record_split[OF eq[unfolded topo_zone_body_def] tag_Cons tag_Cons sf sf]
  have fb: "zn_Fallback (snd x) = zn_Fallback (snd y)" using F by auto
  have C: "zn_Components (snd x) = zn_Components (snd y) \<and> ?rooms x = ?rooms y"
    by (rule zone_comps.writeComponents_inject[of _ _ _ _ "fst y"])
      (use F good h in \<open>simp_all add: good_topo_zone_def stops_rooms\<close>)
  have "entries (zn_Rooms (snd x)) = entries (zn_Rooms (snd y)) \<and> [] = ([] :: string list list)"
    by (rule rooms.blocks_inject[of _ _ _ _ "fst y"])
      (use C good h in \<open>simp_all add: good_topo_zone_def list_all_iff\<close>)
  moreover have "zn_ID (snd x) = zn_ID (snd y)" using good h by (simp add: good_topo_zone_def)
  ultimately show ?thesis using h fb C by (simp add: prod_eq_iff entries_inject)
qed

interpretation topo_zones: record_blocks topo_zone_head topo_zone_body "{''zone''}" topo_zone_tags good_topo_zone
proof unfold_locales
  show "good_topo_zone x \<Longrightarrow> good_topo_zone y \<Longrightarrow> topo_zone_head x = topo_zone_head y \<Longrightarrow> topo_zone_body x = topo_zone_body y \<Longrightarrow> x = y" for x y
    by (rule topo_zone_body_inject)
  show "r \<in> set (topo_zone_body x) \<Longrightarrow> tag r \<in> topo_zone_tags" for x r by (rule topo_zone_body_tag)
qed (simp_all add: topo_zone_head_def)

lemma topo_block_nonempty: "r \<in> set (topo_zone_head z # topo_zone_body z) \<Longrightarrow> r \<noteq> []"
  using topo_zone_body_tag[of r z] by (auto simp: topo_zone_head_def tag_def)

lemma CanonicalBytes_blocks:
  "CanonicalBytes w = writeRecords (concat (map (\<lambda>z. topo_zone_head z # topo_zone_body z) (entries (w_Zones w))))"
  by (simp add: CanonicalBytes_def topo_zone_records_blocks[abs_def])

text \<open>
  C22. The topology's canonical bytes, which seed the simulation and which the content digest
  hashes, determine the topology: two Worlds with the same bytes have the same Zones, Rooms,
  Exits, fallbacks and Components.
\<close>
theorem CanonicalBytes_injective:
  assumes "canonical_world w" "canonical_world w'"
  shows "CanonicalBytes w = CanonicalBytes w' \<longleftrightarrow> w = w'"
proof
  let ?rs = "\<lambda>w. concat (map (\<lambda>z. topo_zone_head z # topo_zone_body z) (entries (w_Zones w)))"
  assume eq: "CanonicalBytes w = CanonicalBytes w'"
  have "[] \<notin> set (?rs w)" for w using topo_block_nonempty by fastforce
  then have "?rs w = ?rs w'" by (intro writeRecords_inject) (use eq in \<open>simp_all add: CanonicalBytes_blocks\<close>)
  then have "?rs w @ [] = ?rs w' @ []" by simp
  then have "entries (w_Zones w) = entries (w_Zones w') \<and> [] = ([] :: string list list)"
    by (intro topo_zones.blocks_inject) (use assms in \<open>auto simp: canonical_world_def list_all_iff\<close>)
  then show "w = w'" by (simp add: entries_inject)
qed simp

theorem CanonicalBytes_injective_witness:
  "CanonicalBytes EmptyWorld \<noteq> CanonicalBytes \<lparr>w_Zones = fmap_of_list [(''z'', \<lparr>zn_ID = ''z'', zn_Name = ''n'',
     zn_Rooms = fmempty, zn_Partition = 3, zn_Components = [], zn_Fallback = ''''\<rparr>)]\<rparr>"
proof -
  have "EmptyWorld \<noteq> \<lparr>w_Zones = fmap_of_list [(''z'', z)]\<rparr>" for z
    by (simp add: EmptyWorld_def fmap_of_list_simps)
  moreover have "canonical_world EmptyWorld" by (simp add: canonical_world_def EmptyWorld_def)
  moreover have "canonical_world \<lparr>w_Zones = fmap_of_list [(''z'', \<lparr>zn_ID = ''z'', zn_Name = ''n'',
     zn_Rooms = fmempty, zn_Partition = 3, zn_Components = [], zn_Fallback = ''''\<rparr>)]\<rparr>"
    by (simp add: canonical_world_def entries_keys keys_fmupd good_topo_zone_def canonical_components_def fmap_of_list_simps)
  ultimately show ?thesis using CanonicalBytes_injective by blast
qed

end
