(* ===== verification/Engine.thy ===== *)
theory Engine
  imports Handoff Canonical
begin

text \<open>
  The tick (\<^verbatim>\<open>server/sim/engine.go\<close>): input validation, dispatch of the records of a tick to the
  verb table under a recover, linkdead expiry, content swaps (\<^verbatim>\<open>content.go\<close>), the Tick Boundary
  Record, and replay from recorded boundaries.

  \<open>Step\<close> takes the Engine and the tick's records to either an error, with nothing changed, or the
  Engine it leaves and what the tick produced. The verb table is a field of the configuration, as
  in the code. Three things outside the core are parameters: the content source, which builds the
  topology a ContentSwap names; the record source replay fetches from; and the order in which Go
  ranges over the map of Zones. Observer calls are kept as a trace. Event sinks receive exactly
  \<open>sr_Events\<close>, in order.
\<close>

section \<open>Data\<close>

record Outcome =
  oc_Kind :: CommandKind
  oc_Code :: string
  oc_Stage :: Stage
  oc_Bind :: "BindResult option"
  oc_Jump :: "JumpResult option"

record Fault =
  ft_Zone :: ZoneID
  ft_Tick :: u64
  ft_Partition :: int
  ft_Offset :: int
  ft_Panic :: string

record TickCompleted =
  tc_Tick :: u64
  tc_Offsets :: "(int, int) fmap"
  tc_StateHash :: bytes
  tc_StateVersion :: u32
  tc_EventsEmitted :: u64
  tc_CommandsApplied :: u64

record Relocation =
  rl_Zone :: ZoneID
  rl_Entity :: EntityID
  rl_From :: RoomID
  rl_To :: RoomID
  rl_Dormant :: bool

record SwapApplied =
  sa_Pack :: string
  sa_Version :: u64
  sa_Digest :: bytes
  sa_Relocations :: "Relocation list"
  sa_TraceParent :: string

text \<open>The reason a swap was refused; the code adds a detail text for the log, left out here.\<close>

record SwapRefused =
  sf_Pack :: string
  sf_Version :: u64
  sf_Reason :: string

record StepResult =
  sr_Tick :: u64
  sr_Events :: "Event list"
  sr_Outbound :: "LoggedCommand list"
  sr_Unapplied :: "Record list"
  sr_Faults :: "Fault list"
  sr_Swaps :: "SwapApplied list"
  sr_SwapsRefused :: "SwapRefused list"
  sr_StaleArrivals :: nat
  sr_Linkdead :: "LinkdeadChange list"
  sr_Purges :: "PurgeChange list"
  sr_Completed :: TickCompleted
  sr_Observed :: "(ZoneID \<times> Record \<times> Outcome) list"

datatype StepError =
    ErrUnownedPartition int
  | ErrZoneFaulted int
  | ErrOffsetGap int int int
  | ErrNoContentSource
  | PrepareError string u64 string
  | ContentDigestError string u64 bytes bytes

type_synonym ContentSource = "(string, u64) fmap \<Rightarrow> SwapMsg \<Rightarrow> string + ContentTopology"

record Config =
  cfg_Seed :: u64
  cfg_Partitions :: "int list"
  cfg_Handlers :: "CommandKind \<Rightarrow> Apply option"
  cfg_Content :: "ContentSource option"
  cfg_HandoffRetryTicks :: u64
  cfg_HandoffRetryMaxTicks :: u64
  cfg_HandoffRetryBatch :: int
  cfg_MapOrder :: "ZoneID list \<Rightarrow> ZoneID list"

record Engine =
  en_world :: World
  en_templates :: "TemplateRegistry option"
  en_cfg :: Config
  en_state :: WorldState
  en_versions :: "(string, u64) fmap"
  en_digest :: bytes
  en_handoffs :: "(EntityID \<times> u64) \<rightharpoonup> handoffSched"
  en_replaying :: bool

definition zero_digest :: bytes where
  "zero_digest = replicate 32 (CHR 0x00)"

definition NewEngine :: "World \<Rightarrow> TemplateRegistry option \<Rightarrow> Config \<Rightarrow> Engine" where
  "NewEngine w templates cfg0 =
     (let seed = (if cfg_Seed cfg0 = 0 then DeriveSeed w else cfg_Seed cfg0);
          parts = sort (cfg_Partitions cfg0);
          cfg = cfg0\<lparr>cfg_Seed := seed, cfg_Partitions := parts\<rparr>
      in \<lparr>en_world = w, en_templates = templates, en_cfg = cfg, en_state = NewWorldState w seed parts, en_versions = fmempty,
          en_digest = zero_digest, en_handoffs = Map.empty, en_replaying = False\<rparr>)"

definition FaultedPartitions :: "WorldState \<Rightarrow> int list" where
  "FaultedPartitions s = sort (remdups (map PartitionFor (filter (\<lambda>zid. zs_Faulted (zone_of s zid)) (keys (ws_Zones s)))))"

section \<open>Applying one record\<close>

record step_state =
  st_h :: tick_state
  st_CommandsApplied :: u64
  st_Unapplied :: "Record list"
  st_Faults :: "Fault list"
  st_Observed :: "(ZoneID \<times> Record \<times> Outcome) list"
  st_consumed :: "Record list"

definition outcome0 :: "CommandKind \<Rightarrow> Outcome" where
  "outcome0 kind = \<lparr>oc_Kind = kind, oc_Code = '''', oc_Stage = NoStage, oc_Bind = None, oc_Jump = None\<rparr>"

definition observe :: "ZoneID \<Rightarrow> Record \<Rightarrow> Outcome \<Rightarrow> step_state \<Rightarrow> step_state" where
  "observe zone r out ss = ss\<lparr>st_Observed := st_Observed ss @ [(zone, r, out)]\<rparr>"

definition st_emit :: "u64 \<Rightarrow> ZoneID \<Rightarrow> string \<Rightarrow> string \<Rightarrow> Scope \<Rightarrow> payload \<Rightarrow> step_state \<Rightarrow> step_state" where
  "st_emit tick zone session ref scope p ss = ss\<lparr>st_h := emit tick zone session ref scope p (st_h ss)\<rparr>"

definition fault_zone :: "u64 \<Rightarrow> ZoneState \<Rightarrow> ZoneState" where
  "fault_zone tick z = z\<lparr>zs_Faulted := True, zs_FaultedTick := tick\<rparr>"

definition rejection :: "HandlerError \<Rightarrow> string \<times> Stage \<times> string" where
  "rejection err = (case err of
       ErrNotConsumed \<Rightarrow> (''rejected'', StageApply, ''command did not come from a consumed record'')
     | RejectError code stage msg \<Rightarrow> (code, if stage = NoStage then StageApply else stage, msg))"

definition context_of :: "Engine \<Rightarrow> u64 \<Rightarrow> ZoneID \<Rightarrow> Record \<Rightarrow> apply_ctx" where
  "context_of e tick zone r = \<lparr>ac_Tick = tick, ac_World = en_world e, ac_Templates = en_templates e, ac_Zone = zone, ac_Record = r,
     ac_versions = en_versions e, ac_replaying = en_replaying e, ac_consumed = True, ac_MapOrder = cfg_MapOrder (en_cfg e)\<rparr>"

definition applyOne :: "Engine \<Rightarrow> u64 \<Rightarrow> ZoneID \<Rightarrow> Record \<Rightarrow> step_state \<Rightarrow> bool \<times> step_state" where
  "applyOne e tick zone r ss =
     (let cmd = rc_Command r; kind = KindOf cmd; actor = ScopeEntities [lc_ActorId cmd] in
      case cfg_Handlers (en_cfg e) kind of
        None \<Rightarrow> (True, observe zone r ((outcome0 kind)\<lparr>oc_Code := ''unsupported_command'', oc_Stage := StageApply\<rparr>)
          (st_emit tick zone (lc_SessionId cmd) (lc_ClientRef cmd) actor
             (PCommandRejected ''unsupported_command'' ''this server cannot act on that yet'') ss))
      | Some applyf \<Rightarrow>
          (case applyf (context_of e tick zone r) cmd ((st_h ss)\<lparr>tk_bind := None, tk_jump := None\<rparr>) of
             Panicked m h \<Rightarrow>
               let h1 = h\<lparr>tk_State := upd_zone zone (fault_zone tick) (tk_State h)\<rparr>;
                   ss1 = st_emit tick zone '''' '''' (AndWorld (ScopeZone zone)) (PZoneFaulted zone) (ss\<lparr>st_h := h1\<rparr>);
                   ss2 = ss1\<lparr>st_Faults := st_Faults ss1 @ [\<lparr>ft_Zone = zone, ft_Tick = tick, ft_Partition = rc_Partition r,
                     ft_Offset = rc_Offset r, ft_Panic = m\<rparr>]\<rparr>
               in (False, observe zone r ((outcome0 kind)\<lparr>oc_Code := ''zone_faulted'', oc_Stage := StageFault\<rparr>) ss2)
           | Rejected err h \<Rightarrow>
               (case rejection err of (code, stage, msg) \<Rightarrow>
                  (True, observe zone r ((outcome0 kind)\<lparr>oc_Code := code, oc_Stage := stage\<rparr>)
                    (st_emit tick zone (lc_SessionId cmd) (lc_ClientRef cmd) actor (PCommandRejected code msg) (ss\<lparr>st_h := h\<rparr>))))
           | Done h \<Rightarrow> (True, observe zone r ((outcome0 kind)\<lparr>oc_Bind := tk_bind h, oc_Jump := tk_jump h\<rparr>) (ss\<lparr>st_h := h\<rparr>))))"

text \<open>The record is consumed: counted, and its Partition's offset moves past it.\<close>

definition advance :: "int \<Rightarrow> Record \<Rightarrow> step_state \<Rightarrow> step_state" where
  "advance p r ss = ss\<lparr>st_CommandsApplied := st_CommandsApplied ss + 1,
     st_h := (st_h ss)\<lparr>tk_State := (tk_State (st_h ss))\<lparr>ws_Offsets := fmupd p (rc_Offset r + 1) (ws_Offsets (tk_State (st_h ss)))\<rparr>\<rparr>\<rparr>"

definition reject_unplaced :: "u64 \<Rightarrow> ZoneID \<Rightarrow> string \<Rightarrow> string \<Rightarrow> Record \<Rightarrow> step_state \<Rightarrow> step_state" where
  "reject_unplaced tick zone code msg r ss =
     (let cmd = rc_Command r in
      observe zone r ((outcome0 (KindOf cmd))\<lparr>oc_Code := code, oc_Stage := StageApply\<rparr>)
        (st_emit tick zone (lc_SessionId cmd) (lc_ClientRef cmd) (ScopeEntities [lc_ActorId cmd]) (PCommandRejected code msg) ss))"

fun applyPartition :: "Engine \<Rightarrow> u64 \<Rightarrow> int \<Rightarrow> Record list \<Rightarrow> step_state \<Rightarrow> step_state" where
  "applyPartition e tick p [] ss = ss"
| "applyPartition e tick p (r # rs) ss =
     (let cmd = rc_Command r in
      if KindOf cmd = ''content_swap'' then
        applyPartition e tick p rs (advance p r (ss\<lparr>st_consumed := st_consumed ss @ [r]\<rparr>))
      else case fmlookup (ws_Zones (tk_State (st_h ss))) (lc_ZoneId cmd) of
        None \<Rightarrow> applyPartition e tick p rs (advance p r
          (reject_unplaced tick '''' ''unknown_zone'' ''that place is not in this world'' r ss))
      | Some zone \<Rightarrow>
          if PartitionFor (lc_ZoneId cmd) \<noteq> p then
            applyPartition e tick p rs (advance p r
              (reject_unplaced tick (lc_ZoneId cmd) ''misrouted'' ''the command reached the wrong partition'' r ss))
          else (case applyOne e tick (lc_ZoneId cmd) r ss of
              (True, ss') \<Rightarrow> applyPartition e tick p rs (advance p r ss')
            | (False, ss') \<Rightarrow> ss'\<lparr>st_Unapplied := st_Unapplied ss' @ r # rs\<rparr>))"

section \<open>Linkdead expiry\<close>

definition overdue :: "u64 \<Rightarrow> EntityState \<Rightarrow> bool" where
  "overdue tick ent \<longleftrightarrow> Linkdead ent \<and> en_LinkdeadDeadline ent \<le> tick"

definition expire_one :: "u64 \<Rightarrow> ZoneID \<Rightarrow> tick_state \<Rightarrow> EntityID \<Rightarrow> tick_state" where
  "expire_one tick zid h eid =
     (case fmlookup (zs_Entities (zone_of (tk_State h) zid)) eid of None \<Rightarrow> h
      | Some ent \<Rightarrow> despawn zid eid ent tick (if en_LinkdeadCeiling ent \<le> tick then ''linkdead_ceiling'' else ''linkdead'')
          (emit tick zid '''' '''') (\<lambda>c h. h\<lparr>tk_Linkdead := tk_Linkdead h @ [c]\<rparr>) h)"

definition expire_zone :: "u64 \<Rightarrow> tick_state \<Rightarrow> ZoneID \<Rightarrow> tick_state" where
  "expire_zone tick h zid =
     (let z = zone_of (tk_State h) zid in
      if zs_Faulted z then h
      else foldl (expire_one tick zid) h (map fst (filter (\<lambda>(_, ent). overdue tick ent) (entries (zs_Entities z)))))"

definition expireLinkdead :: "u64 \<Rightarrow> tick_state \<Rightarrow> tick_state" where
  "expireLinkdead tick h = foldl (expire_zone tick) h (SortedZoneIDs (tk_State h))"

section \<open>Content swaps\<close>

record preparedSwap =
  ps_rec :: Record
  ps_swap :: SwapMsg
  ps_topo :: ContentTopology
  ps_digest :: bytes
  ps_versions :: "(string, u64) fmap"
  ps_refused :: "SwapRefused option"

definition the_world :: "ContentTopology \<Rightarrow> World" where
  "the_world t = (case tp_World t of None \<Rightarrow> EmptyWorld | Some w \<Rightarrow> w)"

definition removedZone :: "World \<Rightarrow> World \<Rightarrow> ZoneID" where
  "removedZone from to = (case find (\<lambda>zid. fmlookup (w_Zones to) zid = None) (keys (w_Zones from)) of Some zid \<Rightarrow> zid | None \<Rightarrow> '''')"

definition fallbackless :: "World \<Rightarrow> ZoneID" where
  "fallbackless w = (case find (\<lambda>(_, z). fmlookup (zn_Rooms z) (zn_Fallback z) = None) (entries (w_Zones w)) of
     Some (_, z) \<Rightarrow> zn_ID z | None \<Rightarrow> '''')"

definition refuse :: "Record \<Rightarrow> SwapMsg \<Rightarrow> string \<Rightarrow> preparedSwap" where
  "refuse r cs reason = \<lparr>ps_rec = r, ps_swap = cs, ps_topo = \<lparr>tp_World = None, tp_Templates = None\<rparr>, ps_digest = zero_digest,
     ps_versions = fmempty, ps_refused = Some \<lparr>sf_Pack = sw_PackId cs, sf_Version = sw_Version cs, sf_Reason = reason\<rparr>\<rparr>"

fun prepareLoop :: "ContentSource option \<Rightarrow> (string, u64) fmap \<Rightarrow> bytes \<Rightarrow> World \<Rightarrow> Record list \<Rightarrow> StepError + preparedSwap list" where
  "prepareLoop src versions digest world [] = Inr []"
| "prepareLoop src versions digest world (r # rs) =
     (let cs = GetContentSwap (rc_Command r);
          refused = (\<lambda>reason. map_sum (\<lambda>x. x) (\<lambda>out. refuse r cs reason # out) (prepareLoop src versions digest world rs)) in
      if rc_Partition r \<noteq> WorldPartition \<or> lc_ZoneId (rc_Command r) \<noteq> '''' then refused ''misrouted''
      else if (versions = fmempty \<and> sw_BaseDigest cs \<noteq> []) \<or> (versions \<noteq> fmempty \<and> sw_BaseDigest cs \<noteq> digest) then refused ''stale_base''
      else case src of
        None \<Rightarrow> Inl ErrNoContentSource
      | Some prepare \<Rightarrow>
          (case prepare versions cs of
             Inl err \<Rightarrow> Inl (PrepareError (sw_PackId cs) (sw_Version cs) err)
           | Inr topo0 \<Rightarrow>
               let topo = topo0\<lparr>tp_World := Some (the_world topo0)\<rparr>; built = ContentDigest topo; w = the_world topo in
               if built \<noteq> sw_WorldDigest cs then Inl (ContentDigestError (sw_PackId cs) (sw_Version cs) (sw_WorldDigest cs) built)
               else if removedZone world w \<noteq> '''' then refused ''zone_removed''
               else if fallbackless w \<noteq> '''' then refused ''fallback_missing''
               else let versions' = fmupd (sw_PackId cs) (sw_Version cs) versions in
                 map_sum (\<lambda>x. x) (\<lambda>out. \<lparr>ps_rec = r, ps_swap = cs, ps_topo = topo, ps_digest = built, ps_versions = versions',
                     ps_refused = None\<rparr> # out) (prepareLoop src versions' built w rs)))"

definition prepareSwaps :: "Engine \<Rightarrow> Record list \<Rightarrow> StepError + preparedSwap list" where
  "prepareSwaps e swaps = prepareLoop (cfg_Content (en_cfg e)) (en_versions e) (en_digest e) (en_world e) swaps"

definition relocate :: "u64 \<Rightarrow> Zone \<Rightarrow> ZoneID \<Rightarrow> tick_state \<times> Relocation list \<Rightarrow> EntityID \<Rightarrow> tick_state \<times> Relocation list" where
  "relocate tick nz zid hr eid = (case hr of (h, rels) \<Rightarrow>
     (case fmlookup (zs_Entities (zone_of (tk_State h) zid)) eid of None \<Rightarrow> (h, rels)
      | Some ent \<Rightarrow>
          if en_Room ent = '''' \<or> fmlookup (zn_Rooms nz) (en_Room ent) \<noteq> None then (h, rels)
          else
            let rel = \<lparr>rl_Zone = zid, rl_Entity = en_ID ent, rl_From = en_Room ent, rl_To = zn_Fallback nz, rl_Dormant = en_Dormant ent\<rparr>;
                h1 = h\<lparr>tk_State := upd_zone zid (mutate_entity eid (\<lambda>x. x\<lparr>en_Room := zn_Fallback nz\<rparr>)) (tk_State h)\<rparr>;
                h2 = (if en_Dormant ent then h1
                  else emit tick zid '''' '''' (With (ScopeRoom zid (zn_Fallback nz)) [en_ID ent])
                    (PEntityRelocated zid (DisplayName ent) (en_Room ent) (zn_Fallback nz) ''room_removed'') h1)
            in (h2, rels @ [rel])))"

definition relocate_zone :: "u64 \<Rightarrow> World \<Rightarrow> tick_state \<times> Relocation list \<Rightarrow> ZoneID \<Rightarrow> tick_state \<times> Relocation list" where
  "relocate_zone tick w hr zid =
     (case fmlookup (w_Zones w) zid of None \<Rightarrow> hr
      | Some nz \<Rightarrow> foldl (relocate tick nz zid) hr (keys (zs_Entities (zone_of (tk_State (fst hr)) zid))))"

definition add_zones :: "World \<Rightarrow> WorldState \<Rightarrow> WorldState" where
  "add_zones w s = s\<lparr>ws_Zones := ws_Zones s ++\<^sub>f
     fmap_of_list (map (\<lambda>zid. (zid, empty_zone zid)) (filter (\<lambda>zid. fmlookup (ws_Zones s) zid = None) (keys (w_Zones w))))\<rparr>"

definition applySwap :: "u64 \<Rightarrow> preparedSwap \<Rightarrow> Engine \<Rightarrow> tick_state \<Rightarrow> Engine \<times> tick_state \<times> SwapApplied" where
  "applySwap tick p e h =
     (let w = the_world (ps_topo p);
          hr = foldl (relocate_zone tick w) (h, []) (keys (ws_Zones (tk_State h)));
          h1 = (fst hr)\<lparr>tk_State := add_zones w (tk_State (fst hr))\<rparr>
      in (e\<lparr>en_world := w, en_templates := tp_Templates (ps_topo p), en_versions := ps_versions p, en_digest := ps_digest p\<rparr>, h1,
          \<lparr>sa_Pack = sw_PackId (ps_swap p), sa_Version = sw_Version (ps_swap p), sa_Digest = ps_digest p, sa_Relocations = snd hr,
           sa_TraceParent = lc_TraceId (rc_Command (ps_rec p))\<rparr>))"

record swap_state =
  wp_e :: Engine
  wp_ss :: step_state
  wp_Swaps :: "SwapApplied list"
  wp_Refused :: "SwapRefused list"

definition finishSwap :: "u64 \<Rightarrow> swap_state \<Rightarrow> preparedSwap \<Rightarrow> swap_state" where
  "finishSwap tick w p =
     (if ps_rec p \<notin> set (st_consumed (wp_ss w)) then w
      else case ps_refused p of
        Some ref \<Rightarrow> w\<lparr>wp_Refused := wp_Refused w @ [ref],
          wp_ss := observe '''' (ps_rec p) ((outcome0 ''content_swap'')\<lparr>oc_Code := sf_Reason ref, oc_Stage := StageValidate\<rparr>) (wp_ss w)\<rparr>
      | None \<Rightarrow>
          (case applySwap tick p (wp_e w) (st_h (wp_ss w)) of (e', h', sa) \<Rightarrow>
             w\<lparr>wp_e := e', wp_Swaps := wp_Swaps w @ [sa],
               wp_ss := observe '''' (ps_rec p) (outcome0 ''content_swap'') ((wp_ss w)\<lparr>st_h := h'\<rparr>)\<rparr>))"

section \<open>The tick\<close>

definition byPart :: "Record list \<Rightarrow> int \<Rightarrow> Record list" where
  "byPart records p = filter (\<lambda>r. rc_Partition r = p) records"

definition parts_of :: "Record list \<Rightarrow> int list" where
  "parts_of records = sort (remdups (map rc_Partition records))"

fun check_offsets :: "int \<Rightarrow> int \<Rightarrow> Record list \<Rightarrow> StepError option" where
  "check_offsets p next [] = None"
| "check_offsets p next (r # rs) = (if rc_Offset r \<noteq> next then Some (ErrOffsetGap p next (rc_Offset r)) else check_offsets p (next + 1) rs)"

fun validate_input :: "WorldState \<Rightarrow> Record list \<Rightarrow> int list \<Rightarrow> StepError option" where
  "validate_input s records [] = None"
| "validate_input s records (p # ps) =
     (case fmlookup (ws_Offsets s) p of None \<Rightarrow> Some (ErrUnownedPartition p)
      | Some next \<Rightarrow>
          if p \<in> set (FaultedPartitions s) then Some (ErrZoneFaulted p)
          else (case check_offsets p next (byPart records p) of Some err \<Rightarrow> Some err | None \<Rightarrow> validate_input s records ps))"

definition swapRecs :: "Record list \<Rightarrow> Record list" where
  "swapRecs records = concat (map (\<lambda>p. filter (\<lambda>r. KindOf (rc_Command r) = ''content_swap'') (byPart records p)) (parts_of records))"

definition start :: "Engine \<Rightarrow> step_state" where
  "start e = \<lparr>st_h = \<lparr>tk_State = en_state e, tk_Events = [], tk_Outbound = [], tk_handoffs = en_handoffs e, tk_StaleArrivals = 0,
       tk_Linkdead = [], tk_Purges = [], tk_bind = None, tk_jump = None\<rparr>,
     st_CommandsApplied = 0, st_Unapplied = [], st_Faults = [], st_Observed = [], st_consumed = []\<rparr>"

definition applyRecords :: "Engine \<Rightarrow> u64 \<Rightarrow> Record list \<Rightarrow> step_state" where
  "applyRecords e tick records = foldl (\<lambda>ss p. applyPartition e tick p (byPart records p) ss) (start e) (parts_of records)"

definition run_tick :: "Engine \<Rightarrow> Record list \<Rightarrow> preparedSwap list \<Rightarrow> swap_state" where
  "run_tick e records prepared =
     (let tick = ws_Tick (en_state e) + 1;
          ss = applyRecords e tick records;
          ss' = ss\<lparr>st_h := expireLinkdead tick (st_h ss)\<rparr>
      in foldl (finishSwap tick) \<lparr>wp_e = e, wp_ss = ss', wp_Swaps = [], wp_Refused = []\<rparr> prepared)"

definition Step :: "Engine \<Rightarrow> Record list \<Rightarrow> StepError + (Engine \<times> StepResult)" where
  "Step e records =
     (case validate_input (en_state e) records (parts_of records) of Some err \<Rightarrow> Inl err
      | None \<Rightarrow>
          (case prepareSwaps e (swapRecs records) of Inl err \<Rightarrow> Inl err
           | Inr prepared \<Rightarrow>
               let tick = ws_Tick (en_state e) + 1;
                   w = run_tick e records prepared; ss = wp_ss w; h = st_h ss;
                   s = (tk_State h)\<lparr>ws_Tick := tick\<rparr>;
                   completed = \<lparr>tc_Tick = tick, tc_Offsets = ws_Offsets s, tc_StateHash = StateHash s, tc_StateVersion = ws_Version s,
                     tc_EventsEmitted = of_nat (length (tk_Events h)), tc_CommandsApplied = st_CommandsApplied ss\<rparr>
               in Inr ((wp_e w)\<lparr>en_state := s, en_handoffs := tk_handoffs h\<rparr>,
                    \<lparr>sr_Tick = tick, sr_Events = tk_Events h, sr_Outbound = tk_Outbound h, sr_Unapplied = st_Unapplied ss,
                     sr_Faults = st_Faults ss, sr_Swaps = wp_Swaps w, sr_SwapsRefused = wp_Refused w, sr_StaleArrivals = tk_StaleArrivals h,
                     sr_Linkdead = tk_Linkdead h, sr_Purges = tk_Purges h, sr_Completed = completed, sr_Observed = st_Observed ss\<rparr>)))"

definition Stop :: "Engine \<Rightarrow> string \<Rightarrow> Event" where
  "Stop e reason =
     (let env = \<lparr>env_EventId = 0, env_Tick = ws_Tick (en_state e), env_ClientRef = '''', env_Payload = PSimulationStopped reason\<rparr>
      in \<lparr>ev_ID = 0, ev_Tick = ws_Tick (en_state e), ev_Zone = '''', ev_Type = ''simulation_stopped'', ev_Scope = ScopeWorld,
          ev_Envelope = env, ev_Redacted = redact env, ev_Session = ''''\<rparr>)"

section \<open>Replay\<close>

datatype ReplayError =
    ErrBoundaryGap u64 u64
  | ErrStateVersion u32 u32
  | ReplayUnowned int u64
  | ReplayBackwards int int int
  | FetchError int int int string
  | ReplayOffsetGap int int int nat
  | ReplayStep u64 StepError
  | HashMismatch u64 bytes bytes
  | HookError string

type_synonym RecordSource = "int \<Rightarrow> int \<Rightarrow> int \<Rightarrow> string + Record list"

fun gather :: "WorldState \<Rightarrow> TickCompleted \<Rightarrow> RecordSource \<Rightarrow> int list \<Rightarrow> ReplayError + Record list" where
  "gather s b src [] = Inr []"
| "gather s b src (p # ps) =
     (case fmlookup (ws_Offsets s) p of None \<Rightarrow> Inl (ReplayUnowned p (tc_Tick b))
      | Some from \<Rightarrow>
          let to = the (fmlookup (tc_Offsets b) p) in
          if to < from then Inl (ReplayBackwards p to from)
          else if to = from then gather s b src ps
          else (case src p from to of
              Inl err \<Rightarrow> Inl (FetchError p from to err)
            | Inr recs \<Rightarrow> if int (length recs) \<noteq> to - from then Inl (ReplayOffsetGap p from to (length recs))
                else map_sum (\<lambda>x. x) (\<lambda>rest. recs @ rest) (gather s b src ps)))"

fun replayLoop :: "Engine \<Rightarrow> TickCompleted list \<Rightarrow> RecordSource \<Rightarrow> (StepResult \<Rightarrow> string option) \<Rightarrow> ReplayError + Engine" where
  "replayLoop e [] src after = Inr e"
| "replayLoop e (b # bs) src after =
     (if tc_Tick b \<noteq> ws_Tick (en_state e) + 1 then Inl (ErrBoundaryGap (tc_Tick b) (ws_Tick (en_state e)))
      else if tc_StateVersion b \<noteq> ws_Version (en_state e) then Inl (ErrStateVersion (tc_StateVersion b) (ws_Version (en_state e)))
      else case gather (en_state e) b src (keys (tc_Offsets b)) of Inl err \<Rightarrow> Inl err
      | Inr records \<Rightarrow>
          (case Step e records of Inl err \<Rightarrow> Inl (ReplayStep (tc_Tick b) err)
           | Inr (e', res) \<Rightarrow>
               if tc_StateHash (sr_Completed res) \<noteq> tc_StateHash b then
                 Inl (HashMismatch (tc_Tick b) (tc_StateHash b) (tc_StateHash (sr_Completed res)))
               else (case after res of Some err \<Rightarrow> Inl (HookError err) | None \<Rightarrow> replayLoop e' bs src after)))"

definition ReplayEach :: "Engine \<Rightarrow> TickCompleted list \<Rightarrow> RecordSource \<Rightarrow> (StepResult \<Rightarrow> string option) \<Rightarrow> ReplayError + Engine" where
  "ReplayEach e bs src after = map_sum (\<lambda>x. x) (\<lambda>e'. e'\<lparr>en_replaying := False\<rparr>) (replayLoop (e\<lparr>en_replaying := True\<rparr>) bs src after)"

definition Replay :: "Engine \<Rightarrow> TickCompleted list \<Rightarrow> RecordSource \<Rightarrow> ReplayError + Engine" where
  "Replay e bs src = ReplayEach e bs src (\<lambda>_. None)"

end
