(* ===== verification/Handler_Properties.thy ===== *)
theory Handler_Properties
  imports Handler_Effects
begin

text \<open>
  Properties of the verb table as a whole and of the single verbs: what a handler may touch, that a
  rejection changes nothing and carries a registered code, that no handler panics in a well-formed
  World, what look shows, and that moving through an Exit and back is the identity.
\<close>

section \<open>A small World for examples\<close>

text \<open>
  Two Zones: the town, with a plaza, a gate to the north of it and a way east to the crypt, and the
  crypt's hall. Ann stands in the plaza.
\<close>

definition ex_room :: "RoomID \<Rightarrow> Exit list \<Rightarrow> Room" where
  "ex_room rid exits = \<lparr>rm_ID = rid, rm_Title = rid, rm_Description = '''', rm_Exits = exits, rm_Components = []\<rparr>"

definition ex_exit :: "Direction \<Rightarrow> ZoneID \<Rightarrow> RoomID \<Rightarrow> bool \<Rightarrow> Exit" where
  "ex_exit d z r cross = \<lparr>ex_Direction = d, ex_To = \<lparr>rr_Zone = z, rr_Room = r\<rparr>, ex_CrossZone = cross\<rparr>"

definition town :: Zone where
  "town = \<lparr>zn_ID = ''town'', zn_Name = ''Town'',
     zn_Rooms = fmap_of_list
       [(''plaza'', ex_room ''plaza'' [ex_exit ''north'' ''town'' ''gate'' False, ex_exit ''east'' ''crypt'' ''hall'' True]),
        (''gate'', ex_room ''gate'' [ex_exit ''south'' ''town'' ''plaza'' False])],
     zn_Partition = PartitionFor ''town'', zn_Components = [], zn_Fallback = ''plaza''\<rparr>"

definition crypt :: Zone where
  "crypt = \<lparr>zn_ID = ''crypt'', zn_Name = ''Crypt'',
     zn_Rooms = fmap_of_list [(''hall'', ex_room ''hall'' [ex_exit ''west'' ''town'' ''plaza'' True])],
     zn_Partition = PartitionFor ''crypt'', zn_Components = [], zn_Fallback = ''hall''\<rparr>"

definition ex_world :: World where
  "ex_world = \<lparr>w_Zones = fmap_of_list [(''crypt'', crypt), (''town'', town)]\<rparr>"

definition ann :: EntityState where
  "ann = zero_entity\<lparr>en_ID := ''ann'', en_Template := CharacterTemplate, en_Room := ''plaza'', en_Name := ''Ann''\<rparr>"

definition ex_state :: WorldState where
  "ex_state = upd_zone ''town'' (put_entity ann) (NewWorldState ex_world 1 [PartitionFor ''town'', PartitionFor ''crypt''])"

definition ex_tick :: "WorldState \<Rightarrow> tick_state" where
  "ex_tick s = \<lparr>tk_State = s, tk_Events = [], tk_Outbound = [], tk_handoffs = Map.empty, tk_StaleArrivals = 0, tk_Linkdead = [],
     tk_Purges = [], tk_bind = None, tk_jump = None\<rparr>"

definition ex_cmd :: "ZoneID \<Rightarrow> EntityID \<Rightarrow> Command \<Rightarrow> LoggedCommand" where
  "ex_cmd zid actor c = \<lparr>lc_ZoneId = zid, lc_ActorId = actor, lc_SessionId = ''s1'', lc_ClientRef = '''', lc_TraceId = '''',
     lc_AcceptedAtUnixNano = 0, lc_Command = c\<rparr>"

definition ex_ctx :: "u64 \<Rightarrow> ZoneID \<Rightarrow> LoggedCommand \<Rightarrow> apply_ctx" where
  "ex_ctx tick zid cmd = \<lparr>ac_Tick = tick, ac_World = ex_world, ac_Templates = None, ac_Zone = zid,
     ac_Record = \<lparr>rc_Partition = PartitionFor zid, rc_Offset = 0, rc_Command = cmd\<rparr>, ac_versions = fmempty,
     ac_replaying = False, ac_consumed = True, ac_MapOrder = (\<lambda>xs. xs)\<rparr>"

lemmas ex_defs = ex_world_def town_def crypt_def ex_room_def ex_exit_def

lemma ex_world_zones: "fmlookup (w_Zones ex_world) zid = (if zid = ''crypt'' then Some crypt else if zid = ''town'' then Some town else None)"
  by (simp add: ex_world_def fmap_of_list_simps)

lemma town_rooms: "fmlookup (zn_Rooms town) rid =
   (if rid = ''plaza'' then Some (ex_room ''plaza'' [ex_exit ''north'' ''town'' ''gate'' False, ex_exit ''east'' ''crypt'' ''hall'' True])
    else if rid = ''gate'' then Some (ex_room ''gate'' [ex_exit ''south'' ''town'' ''plaza'' False]) else None)"
  by (simp add: town_def fmap_of_list_simps)

lemma crypt_rooms: "fmlookup (zn_Rooms crypt) rid =
   (if rid = ''hall'' then Some (ex_room ''hall'' [ex_exit ''west'' ''town'' ''plaza'' True]) else None)"
  by (simp add: crypt_def fmap_of_list_simps)

lemma ex_fields [simp]:
  "zn_ID town = ''town''" "zn_ID crypt = ''crypt''" "zn_Fallback town = ''plaza''" "zn_Fallback crypt = ''hall''"
  "zn_Partition town = PartitionFor ''town''" "zn_Partition crypt = PartitionFor ''crypt''"
  "rm_ID (ex_room rid es) = rid" "rm_Exits (ex_room rid es) = es"
  "ex_Direction (ex_exit d z r c) = d" "ex_To (ex_exit d z r c) = \<lparr>rr_Zone = z, rr_Room = r\<rparr>" "ex_CrossZone (ex_exit d z r c) = c"
  by (simp_all add: town_def crypt_def ex_room_def ex_exit_def)

lemma ex_Resolve: "Resolve ex_world \<lparr>rr_Zone = z, rr_Room = r\<rparr> =
   (if z = ''crypt'' then fmlookup (zn_Rooms crypt) r else if z = ''town'' then fmlookup (zn_Rooms town) r else None)"
  by (simp add: Resolve_def ex_world_zones)

lemma wf_ex_world: "wf_world ex_world"
  by (auto simp: wf_world_def wf_zone_def wf_room_def wf_exit_def fmpred_iff ex_world_zones town_rooms crypt_rooms ex_Resolve
      fmdom_notI fmlookup_dom_iff split: if_splits)

lemma wf_ex_ctx: "zid = ''town'' \<or> zid = ''crypt'' \<Longrightarrow> wf_ctx (ex_ctx t zid cmd)"
  by (auto simp: wf_ctx_def ex_ctx_def wf_ex_world ex_world_zones)

lemma ex_ctx_fields [simp]:
  "ac_Tick (ex_ctx t zid cmd) = t" "ac_World (ex_ctx t zid cmd) = ex_world" "ac_Zone (ex_ctx t zid cmd) = zid"
  "ac_consumed (ex_ctx t zid cmd)" "ac_Templates (ex_ctx t zid cmd) = None" "ac_replaying (ex_ctx t zid cmd) = False"
  "rc_Command (ac_Record (ex_ctx t zid cmd)) = cmd" "ac_MapOrder (ex_ctx t zid cmd) = (\<lambda>xs. xs)"
  by (simp_all add: ex_ctx_def)

lemma ex_cmd_fields [simp]:
  "lc_ZoneId (ex_cmd zid actor c) = zid" "lc_ActorId (ex_cmd zid actor c) = actor" "lc_Command (ex_cmd zid actor c) = c"
  by (simp_all add: ex_cmd_def)

lemma ex_tick_State [simp]: "tk_State (ex_tick s) = s" "tk_Outbound (ex_tick s) = []" "tk_Events (ex_tick s) = []"
  by (simp_all add: ex_tick_def)

lemma zone_of_New: "zone_of (NewWorldState w seed ps) zid = empty_zone zid"
  by (simp add: zone_of_def NewWorldState_def fmap_of_list.rep_eq map_of_map_restrict restrict_map_def o_def split: option.split)

lemma zone_of_ex: "zone_of ex_state zid = (if zid = ''town'' then put_entity ann (empty_zone ''town'') else empty_zone zid)"
  by (simp add: ex_state_def zone_of_New)

lemma ann_fields [simp]: "en_ID ann = ''ann''" "en_Room ann = ''plaza''" "Present ann" "\<not> Linkdead ann" "en_HandoffSeq ann = 0"
  by (simp_all add: ann_def zero_entity_def Present_def Linkdead_def)

lemma locate_ann:
  "locate (ex_ctx t ''town'' cmd) (ex_cmd ''town'' ''ann'' c) (ex_tick ex_state) =
     Inr (ann, ex_room ''plaza'' [ex_exit ''north'' ''town'' ''gate'' False, ex_exit ''east'' ''crypt'' ''hall'' True])"
  by (simp add: locate_def here_def entity_here_def zone_of_ex ex_Resolve town_rooms)

section \<open>The verb table\<close>

text \<open>
  C19. Every handler of the verb table keeps to the Zone it was dispatched to: no other Zone, not the
  tick, the offsets, the seed nor the random generator changes, its Zone's fault flag is left alone,
  the Events it emits take consecutive IDs from the World's counter and carry the tick that applies
  them, and what earlier records of the tick reported or produced is kept.
\<close>
theorem verb_table_contract:
  assumes "Handlers (KindOf cmd) = Some f"
  shows "zone_step (ac_Tick a) (ac_Zone a) h (reached (f a cmd h))"
  using handler.step[OF Handlers_handler[OF assms]] .

theorem verb_table_contract_witness:
  "let cmd = ex_cmd ''town'' ''ann'' (Move ''east''); a = ex_ctx 7 ''town'' cmd
   in zone_step 7 ''town'' (ex_tick ex_state) (reached (applyMove a cmd (ex_tick ex_state)))"
  using verb_table_contract[of "ex_cmd ''town'' ''ann'' (Move ''east'')" applyMove "ex_ctx 7 ''town'' (ex_cmd ''town'' ''ann'' (Move ''east''))"]
  by (simp add: Handlers_def KindOf_def Let_def)

section \<open>Rejections and panics\<close>

definition registered :: "apply_ctx \<Rightarrow> HandlerError \<Rightarrow> bool" where
  "registered a err = (case err of ErrNotConsumed \<Rightarrow> \<not> ac_consumed a | RejectError code stage _ \<Rightarrow> stage = StageValidate \<and> code \<in> set RejectCodes)"

definition pure_reject :: "Apply \<Rightarrow> apply_ctx \<Rightarrow> LoggedCommand \<Rightarrow> tick_state \<Rightarrow> bool" where
  "pure_reject f a cmd h = (case f a cmd h of Done _ \<Rightarrow> True | Rejected err h' \<Rightarrow> h' = h \<and> registered a err | Panicked _ _ \<Rightarrow> False)"

lemma registered_simps [simp]:
  "registered a ErrNotConsumed \<longleftrightarrow> \<not> ac_consumed a" "registered a transitReject"
  "registered a (RejectError code stage msg) \<longleftrightarrow> stage = StageValidate \<and> code \<in> set RejectCodes"
  by (simp_all add: registered_def transitReject_def RejectCodes_def)

lemma locate_registered: "locate a cmd h = Inl err \<Longrightarrow> registered a err"
  by (auto simp: locate_def RejectCodes_def split: if_splits option.splits)

lemma validateMove_registered: "validateMove a cmd h = Inl err \<Longrightarrow> registered a err"
  using locate_registered[of a cmd h err]
  by (auto simp: validateMove_def Let_def RejectCodes_def split: sum.splits if_splits option.splits)

lemma validateGoto_registered: "validateGoto a cmd h = Inl err \<Longrightarrow> registered a err"
  using locate_registered[of a cmd h err]
  by (auto simp: validateGoto_def Let_def RejectCodes_def split: sum.splits if_splits option.splits)

lemma validateArrive_registered: "validateArrive a cmd h = Inl err \<Longrightarrow> registered a err"
  by (auto simp: validateArrive_def Let_def RejectCodes_def split: if_splits option.splits)

lemma place_Done: "wf_ctx a \<Longrightarrow> \<exists>h'. place a cmd p v h = Done h'"
  using wf_world_fallback[of "ac_World a" "ac_Zone a"]
  by (auto simp: place_def Let_def wf_ctx_def split: option.splits)

lemma arrive_pure: "wf_ctx a \<Longrightarrow> pure_reject applyArrive a cmd h"
  using place_Done[of a cmd] validateArrive_registered[of a cmd h]
  by (auto simp: pure_reject_def applyArrive_def Let_def split: sum.splits option.splits outcome.splits)
    (metis outcome.distinct outcome.simps)+

lemma bind_pure: "pure_reject applyBindCharacter a cmd h"
proof -
  have "case bind_new a bind eid h of Done _ \<Rightarrow> True | Rejected err h' \<Rightarrow> h' = h \<and> registered a err | Panicked _ _ \<Rightarrow> False" for bind eid
    by (auto simp: bind_new_def Let_def RejectCodes_def split: option.splits)
  then show ?thesis
    by (simp add: pure_reject_def applyBindCharacter_def Let_def bind_here_def bind_elsewhere_def split: option.splits)
qed

lemma table_pure:
  assumes "Handlers k = Some f" "wf_ctx a"
  shows "pure_reject f a cmd h"
  using assms(1)
proof (cases rule: Handlers_cases)
  case 1
  then show ?thesis using locate_registered[of a cmd h]
    by (simp add: pure_reject_def applyLook_def validateLook_def split: sum.splits)
next
  case 2
  then show ?thesis using validateMove_registered[of a cmd h]
    by (simp add: pure_reject_def applyMove_def Let_def split: sum.splits option.splits)
next
  case 3
  then show ?thesis using validateGoto_registered[of a cmd h]
    by (simp add: pure_reject_def applyGoto_def Let_def split: sum.splits)
next
  case 4
  then show ?thesis using arrive_pure[OF assms(2)] by simp
next
  case 5
  then show ?thesis by (simp add: pure_reject_def applyHandoffAck_def split: option.splits prod.splits)
next
  case 6
  then show ?thesis using bind_pure by simp
next
  case 7
  then show ?thesis by (simp add: pure_reject_def applyUnbindCharacter_def Let_def split: option.splits)
next
  case 8
  then show ?thesis by (simp add: pure_reject_def applyMarkLinkdead_def Let_def split: option.splits)
next
  case 9
  then show ?thesis by (simp add: pure_reject_def applyPurgeCharacter_def purge_here_def Let_def split: option.splits)
qed

text \<open>
  C18. In a well-formed World no handler of the verb table panics, whatever the Command and the state
  (so no Zone is ever quarantined by content that \<^verbatim>\<open>BuildWorld\<close> accepted), and a handler that rejects
  a Command has changed nothing at all: the World, the Events, what was produced and what was
  reported are as before, and the rejection carries one of the registered codes and the validate stage,
  the one of \<^verbatim>\<open>template_missing\<close>, which \<^verbatim>\<open>character.go\<close>'s comment assigns to apply, included.
\<close>
theorem handlers_reject_purely_and_never_panic:
  assumes "Handlers (KindOf cmd) = Some f" "wf_ctx a"
  shows "(\<nexists>m h'. f a cmd h = Panicked m h') \<and> (\<forall>err h'. f a cmd h = Rejected err h' \<longrightarrow> h' = h
     \<and> (case err of ErrNotConsumed \<Rightarrow> \<not> ac_consumed a | RejectError code stage msg \<Rightarrow> stage = StageValidate \<and> code \<in> set RejectCodes))"
  using table_pure[OF assms, of cmd h] by (auto simp: pure_reject_def registered_def split: HandlerError.splits)

theorem handlers_reject_purely_and_never_panic_witness:
  "let cmd = ex_cmd ''town'' ''ann'' (Move ''up''); a = ex_ctx 7 ''town'' cmd; h = ex_tick ex_state
   in applyMove a cmd h = Rejected (RejectError ''no_such_exit'' StageValidate ''there is no exit up'') h
      \<and> ''no_such_exit'' \<in> set RejectCodes"
proof -
  let ?cmd = "ex_cmd ''town'' ''ann'' (Move ''up'')"
  have "applyMove (ex_ctx 7 ''town'' ?cmd) ?cmd (ex_tick ex_state) =
      Rejected (RejectError ''no_such_exit'' StageValidate ''there is no exit up'') (ex_tick ex_state)"
    by (simp add: applyMove_def validateMove_def locate_ann GetDirection_def)
  then show ?thesis
    using handlers_reject_purely_and_never_panic[of ?cmd applyMove "ex_ctx 7 ''town'' ?cmd" "ex_tick ex_state"]
    by (simp add: Handlers_def KindOf_def Let_def wf_ex_ctx)
qed


section \<open>look\<close>

lemma Emit_Events:
  "\<exists>ev. Emit a sc p h = h\<lparr>tk_State := (tk_State h)\<lparr>ws_NextEventID := ws_NextEventID (tk_State h) + 1\<rparr>, tk_Events := tk_Events h @ [ev]\<rparr>
     \<and> ev_Scope ev = sc \<and> env_Payload (ev_Envelope ev) = p \<and> ev_ID ev = ws_NextEventID (tk_State h)"
  by (auto simp: Emit_def emit_def Let_def)

lemma describe_occupants:
  "set (rd_Occupants (describe zid z room viewer)) = {DisplayName e | e eid. fmlookup (zs_Entities z) eid = Some e \<and> eid \<noteq> viewer
      \<and> en_Room e = rm_ID room \<and> \<not> en_Dormant e}"
  "set (rd_Linkdead (describe zid z room viewer)) = {DisplayName e | e eid. fmlookup (zs_Entities z) eid = Some e \<and> eid \<noteq> viewer
      \<and> en_Room e = rm_ID room \<and> \<not> en_Dormant e \<and> Linkdead e}"
  unfolding describe_def Let_def by (auto simp: set_entries image_iff; blast)+

text \<open>
  A look changes nothing but the Event counter, produces nothing, and emits exactly one Event, a
  RoomDescribed addressed to the actor alone: the Room it stands in, the Room's Exits, and as
  occupants exactly the other bodies present in that Room, with the linkdead ones among them.
\<close>
theorem look_describes_room_to_actor:
  assumes "ac_consumed a" "locate a cmd h = Inr (actor, room)" "en_ID actor \<noteq> ''''"
  shows "\<exists>ev d. applyLook a cmd h = Done (h\<lparr>tk_State := (tk_State h)\<lparr>ws_NextEventID := ws_NextEventID (tk_State h) + 1\<rparr>,
       tk_Events := tk_Events h @ [ev]\<rparr>)
     \<and> env_Payload (ev_Envelope ev) = PRoomDescribed d \<and> sc_Entities (ev_Scope ev) = [en_ID actor] \<and> \<not> Zoned (ev_Scope ev) \<and> \<not> sc_World (ev_Scope ev)
     \<and> rd_ZoneId d = ac_Zone a \<and> rd_RoomId d = rm_ID room \<and> mset (rd_Exits d) = mset (map ex_Direction (rm_Exits room)) \<and> sorted (rd_Exits d)
     \<and> sorted (rd_Occupants d) \<and> sorted (rd_Linkdead d)
     \<and> set (rd_Occupants d) = {DisplayName e | e eid. fmlookup (zs_Entities (here a h)) eid = Some e \<and> eid \<noteq> en_ID actor
          \<and> en_Room e = rm_ID room \<and> \<not> en_Dormant e}
     \<and> set (rd_Linkdead d) = {DisplayName e | e eid. fmlookup (zs_Entities (here a h)) eid = Some e \<and> eid \<noteq> en_ID actor
          \<and> en_Room e = rm_ID room \<and> \<not> en_Dormant e \<and> Linkdead e}"
proof -
  let ?d = "describe (ac_Zone a) (here a h) room (en_ID actor)"
  obtain ev where ev: "Emit a (ScopeEntities [en_ID actor]) (PRoomDescribed ?d) h =
      h\<lparr>tk_State := (tk_State h)\<lparr>ws_NextEventID := ws_NextEventID (tk_State h) + 1\<rparr>, tk_Events := tk_Events h @ [ev]\<rparr>"
    "ev_Scope ev = ScopeEntities [en_ID actor]" "env_Payload (ev_Envelope ev) = PRoomDescribed ?d"
    using Emit_Events by blast
  have sc: "sc_Entities (ScopeEntities [en_ID actor]) = [en_ID actor]" "\<not> Zoned (ScopeEntities [en_ID actor])" "\<not> sc_World (ScopeEntities [en_ID actor])"
    using assms(3) by (simp_all add: ScopeEntities_def With_def zero_scope_def Zoned_def zero_ref_def)
  have "applyLook a cmd h = Done (Emit a (ScopeEntities [en_ID actor]) (PRoomDescribed ?d) h)"
    using assms(1,2) by (simp add: applyLook_def validateLook_def)
  then show ?thesis using ev sc describe_occupants[of "ac_Zone a" "here a h" room "en_ID actor"]
    by (intro exI[of _ ev] exI[of _ ?d]) (simp add: describe_def Let_def)
qed

theorem look_describes_room_to_actor_witness:
  "let cmd = ex_cmd ''town'' ''ann'' Look; a = ex_ctx 7 ''town'' cmd; h = ex_tick ex_state
   in \<exists>ev d. applyLook a cmd h = Done (h\<lparr>tk_State := (tk_State h)\<lparr>ws_NextEventID := ws_NextEventID (tk_State h) + 1\<rparr>, tk_Events := [ev]\<rparr>)
     \<and> env_Payload (ev_Envelope ev) = PRoomDescribed d \<and> rd_RoomId d = ''plaza'' \<and> set (rd_Exits d) = {''north'', ''east''}
     \<and> rd_Occupants d = []"
proof -
  let ?cmd = "ex_cmd ''town'' ''ann'' Look"
  obtain ev d where e: "applyLook (ex_ctx 7 ''town'' ?cmd) ?cmd (ex_tick ex_state) = Done ((ex_tick ex_state)
      \<lparr>tk_State := (tk_State (ex_tick ex_state))\<lparr>ws_NextEventID := ws_NextEventID (tk_State (ex_tick ex_state)) + 1\<rparr>,
       tk_Events := tk_Events (ex_tick ex_state) @ [ev]\<rparr>)"
    and p: "env_Payload (ev_Envelope ev) = PRoomDescribed d" and r: "rd_RoomId d = ''plaza''" and x: "mset (rd_Exits d) = mset [''north'', ''east'']"
    and oc: "set (rd_Occupants d) = {DisplayName e | e eid. fmlookup (zs_Entities (here (ex_ctx 7 ''town'' ?cmd) (ex_tick ex_state))) eid = Some e
      \<and> eid \<noteq> ''ann'' \<and> en_Room e = ''plaza'' \<and> \<not> en_Dormant e}"
    using look_describes_room_to_actor[of "ex_ctx 7 ''town'' ?cmd" ?cmd "ex_tick ex_state", OF _ locate_ann] by auto
  have "set (rd_Occupants d) = {}" unfolding oc by (auto simp: here_def zone_of_ex split: if_splits)
  moreover have "set (rd_Exits d) = {''north'', ''east''}" using mset_eq_setD[OF x] by auto
  ultimately show ?thesis using e p r by (auto simp: Let_def)
qed

section \<open>move\<close>

lemma mutate_id: "fmlookup (zs_Entities z) eid = Some e \<Longrightarrow> f e = e \<Longrightarrow> mutate_entity eid f z = z"
proof -
  assume l: "fmlookup (zs_Entities z) eid = Some e" and "f e = e"
  moreover have "fmupd eid e (zs_Entities z) = zs_Entities z" using l by (intro fmap_ext) auto
  ultimately show ?thesis by (simp add: mutate_entity_def)
qed

lemma move_local:
  assumes "ac_consumed a" "validateMove a cmd h = Inr (actor, room, e)" "\<not> ex_CrossZone e"
  shows "\<exists>h'. applyMove a cmd h = Done h' \<and> tk_Outbound h' = tk_Outbound h \<and> (\<forall>zid. zone_of (tk_State h') zid =
     (if zid = ac_Zone a then mutate_entity (lc_ActorId cmd) (\<lambda>e'. e'\<lparr>en_Room := rr_Room (ex_To e)\<rparr>) (zone_of (tk_State h) zid)
      else zone_of (tk_State h) zid))"
  using assms by (auto simp: applyMove_def Let_def split: option.split)

text \<open>
  Moving within a Zone through an Exit and back through the Exit that leads home leaves every
  Zone as it was: each body, transit record and mark, the mover's Room included. In between, the
  mover stands in the Exit's target, a Room the World has, and nothing else has changed.
\<close>
theorem move_there_and_back:
  assumes wf: "wf_ctx a" and a: "ac_consumed a" "ac_consumed b" "ac_World b = ac_World a" "ac_Zone b = ac_Zone a"
    and go: "validateMove a cmd h = Inr (actor, room, e)" "\<not> ex_CrossZone e"
    and d: "Resolve (ac_World a) (ex_To e) = Some dest"
    and home: "find (\<lambda>x. ex_Direction x = GetDirection cmd') (rm_Exits dest) = Some e'" "ex_To e' = \<lparr>rr_Zone = ac_Zone a, rr_Room = rm_ID room\<rparr>"
    and same: "lc_ActorId cmd' = lc_ActorId cmd"
  shows "\<exists>h1 h2. applyMove a cmd h = Done h1 \<and> applyMove b cmd' h1 = Done h2
     \<and> fmlookup (zs_Entities (zone_of (tk_State h1) (ac_Zone a))) (lc_ActorId cmd) = Some (actor\<lparr>en_Room := rm_ID dest\<rparr>)
     \<and> (\<forall>zid. zone_of (tk_State h2) zid = zone_of (tk_State h) zid) \<and> tk_Outbound h2 = tk_Outbound h"
proof -
  note v = validateMove_Inr[OF go(1)] and l = locate_Inr[OF validateMove_Inr(1)[OF go(1)]]
  have we: "wf_exit (ac_World a) (ac_Zone a) e" using wf_exit_of[OF wf l(4) v(3)] .
  have w: "wf_world (ac_World a)" using wf by (simp add: wf_ctx_def)
  have to: "ex_To e = \<lparr>rr_Zone = ac_Zone a, rr_Room = rm_ID dest\<rparr>" "rm_ID dest \<noteq> ''''"
    using we go(2) Resolve_wf(1,2)[OF w d] by (cases "ex_To e"; simp add: wf_exit_def)+
  have rid: "rm_ID room = en_Room actor" using Resolve_wf(1)[OF w l(4)] by simp
  obtain h1 where h1: "applyMove a cmd h = Done h1" "tk_Outbound h1 = tk_Outbound h" "\<And>zid. zone_of (tk_State h1) zid =
     (if zid = ac_Zone a then mutate_entity (lc_ActorId cmd) (\<lambda>e'. e'\<lparr>en_Room := rm_ID dest\<rparr>) (zone_of (tk_State h) zid)
      else zone_of (tk_State h) zid)"
    using move_local[OF a(1) go] to by auto
  let ?moved = "actor\<lparr>en_Room := rm_ID dest\<rparr>"
  have mv: "fmlookup (zs_Entities (zone_of (tk_State h1) (ac_Zone a))) (lc_ActorId cmd) = Some ?moved"
    using l(2) by (simp add: h1(3) lookup_mutate_entity)
  have "locate b cmd' h1 = Inr (?moved, dest)"
    using mv l(1,3) d to by (simp add: locate_def here_def entity_here_def a same h1(3) Present_def)
  then have go': "validateMove b cmd' h1 = Inr (?moved, dest, e')"
    using v(2) home(1) by (simp add: validateMove_def Linkdead_def)
  have "e' \<in> set (rm_Exits dest)" using home(1) by (auto simp: find_Some_iff)
  then have "wf_exit (ac_World a) (ac_Zone a) e'" using wf_exit_of[OF wf _] d to by metis
  then have loc: "\<not> ex_CrossZone e'" using home(2) by (simp add: wf_exit_def)
  obtain h2 where h2: "applyMove b cmd' h1 = Done h2" "tk_Outbound h2 = tk_Outbound h1" "\<And>zid. zone_of (tk_State h2) zid =
     (if zid = ac_Zone a then mutate_entity (lc_ActorId cmd) (\<lambda>e'. e'\<lparr>en_Room := rm_ID room\<rparr>) (zone_of (tk_State h1) zid)
      else zone_of (tk_State h1) zid)"
    using move_local[OF a(2) go' loc] home(2) a same by auto
  have "zone_of (tk_State h2) zid = zone_of (tk_State h) zid" for zid
    using l(2) rid by (simp add: h2(3) h1(3) mutate_mutate mutate_id[OF l(2)])
  then show ?thesis using h1 h2 mv by auto
qed

theorem move_there_and_back_witness:
  "let cmd = ex_cmd ''town'' ''ann'' (Move ''north''); cmd' = ex_cmd ''town'' ''ann'' (Move ''south'');
       a = ex_ctx 7 ''town'' cmd; b = ex_ctx 8 ''town'' cmd'; h = ex_tick ex_state
   in \<exists>h1 h2. applyMove a cmd h = Done h1 \<and> applyMove b cmd' h1 = Done h2
     \<and> fmlookup (zs_Entities (zone_of (tk_State h1) ''town'')) ''ann'' = Some (ann\<lparr>en_Room := ''gate''\<rparr>)
     \<and> (\<forall>zid. zone_of (tk_State h2) zid = zone_of (tk_State h) zid)"
proof -
  let ?cmd = "ex_cmd ''town'' ''ann'' (Move ''north'')" and ?cmd' = "ex_cmd ''town'' ''ann'' (Move ''south'')"
  let ?plaza = "ex_room ''plaza'' [ex_exit ''north'' ''town'' ''gate'' False, ex_exit ''east'' ''crypt'' ''hall'' True]"
  let ?gate = "ex_room ''gate'' [ex_exit ''south'' ''town'' ''plaza'' False]"
  have "validateMove (ex_ctx 7 ''town'' ?cmd) ?cmd (ex_tick ex_state) =
      Inr (ann, ex_room ''plaza'' [ex_exit ''north'' ''town'' ''gate'' False, ex_exit ''east'' ''crypt'' ''hall'' True], ex_exit ''north'' ''town'' ''gate'' False)"
    by (simp add: validateMove_def locate_ann GetDirection_def Let_def)
  then show ?thesis
    using move_there_and_back[of "ex_ctx 7 ''town'' ?cmd" "ex_ctx 8 ''town'' ?cmd'" ?cmd "ex_tick ex_state" ann ?plaza
        "ex_exit ''north'' ''town'' ''gate'' False" ?gate ?cmd' "ex_exit ''south'' ''town'' ''plaza'' False"]
    by (simp add: wf_ex_ctx ex_Resolve town_rooms GetDirection_def Let_def) blast
qed

end
