(* ===== verification/Tick_Invariants.thy ===== *)
theory Tick_Invariants
  imports Engine Handler_Properties
begin

text \<open>
  How an invariant is carried through a tick. The locale \<open>tick_invariant\<close> is the interface: a property
  of the tick's state that the verb table, emitting, moving offsets and despawning keep; its lemmas
  show that dispatching the records of a tick and the linkdead expiry keep it. \<open>world_invariant\<close> adds
  what a content swap does. The invariants of the simulation are interpretations.
\<close>

section \<open>A well-formed Engine\<close>

text \<open>
  The Engine as the server builds it: the verb table's handlers, a map order that visits every
  Zone, a well-formed World whose Zones are exactly the Zones that have state, each filed under its
  ID. Content sources build well-formed Worlds, which is \<^verbatim>\<open>BuildWorld\<close>'s promise.
\<close>

definition wf_engine :: "Engine \<Rightarrow> bool" where
  "wf_engine e \<longleftrightarrow> cfg_Handlers (en_cfg e) = Handlers \<and> (\<forall>xs. set (cfg_MapOrder (en_cfg e) xs) = set xs) \<and> wf_world (en_world e)
     \<and> (\<forall>prep v cs t. cfg_Content (en_cfg e) = Some prep \<longrightarrow> prep v cs = Inr t \<longrightarrow> wf_world (the_world t))
     \<and> fmdom (ws_Zones (en_state e)) = fmdom (w_Zones (en_world e)) \<and> keyed_state (en_state e)"

lemma wf_ctx_context_of: "wf_engine e \<Longrightarrow> zid |\<in>| fmdom (w_Zones (en_world e)) \<Longrightarrow> wf_ctx (context_of e t zid r)"
  by (auto simp: wf_engine_def wf_ctx_def context_of_def)

lemma zone_step_dom:
  assumes "zone_step t zid h h'" "zid |\<in>| fmdom (ws_Zones (tk_State h))"
  shows "fmdom (ws_Zones (tk_State h')) = fmdom (ws_Zones (tk_State h))"
proof (rule fset_eqI)
  fix zid'
  show "zid' |\<in>| fmdom (ws_Zones (tk_State h')) \<longleftrightarrow> zid' |\<in>| fmdom (ws_Zones (tk_State h))"
    using assms by (cases "zid' = zid") (auto simp: zone_step_def same_world_but_def fmlookup_dom_iff)
qed

lemma upd_zone_dom: "zid |\<in>| fmdom (ws_Zones s) \<Longrightarrow> fmdom (ws_Zones (upd_zone zid f s)) = fmdom (ws_Zones s)"
  by auto

lemma context_of_fields [simp]:
  "ac_Tick (context_of e t zid r) = t" "ac_World (context_of e t zid r) = en_world e" "ac_Zone (context_of e t zid r) = zid"
  "ac_consumed (context_of e t zid r)" "ac_Record (context_of e t zid r) = r"
  by (simp_all add: context_of_def)

lemma applyOne_None:
  "cfg_Handlers (en_cfg e) (KindOf (rc_Command r)) = None \<Longrightarrow> \<exists>out p. applyOne e t zid r ss =
     (True, observe zid r out (st_emit t zid (lc_SessionId (rc_Command r)) (lc_ClientRef (rc_Command r)) (ScopeEntities [lc_ActorId (rc_Command r)]) p ss))"
  by (auto simp: applyOne_def Let_def)

lemma applyOne_Done:
  "cfg_Handlers (en_cfg e) (KindOf (rc_Command r)) = Some f \<Longrightarrow>
   f (context_of e t zid r) (rc_Command r) ((st_h ss)\<lparr>tk_bind := None, tk_jump := None\<rparr>) = Done h \<Longrightarrow>
   \<exists>out. applyOne e t zid r ss = (True, observe zid r out (ss\<lparr>st_h := h\<rparr>))"
  by (auto simp: applyOne_def Let_def)

lemma applyOne_Rejected:
  "cfg_Handlers (en_cfg e) (KindOf (rc_Command r)) = Some f \<Longrightarrow>
   f (context_of e t zid r) (rc_Command r) ((st_h ss)\<lparr>tk_bind := None, tk_jump := None\<rparr>) = Rejected err h \<Longrightarrow>
   \<exists>out p. applyOne e t zid r ss = (True, observe zid r out (st_emit t zid (lc_SessionId (rc_Command r)) (lc_ClientRef (rc_Command r))
     (ScopeEntities [lc_ActorId (rc_Command r)]) p (ss\<lparr>st_h := h\<rparr>)))"
  by (auto simp: applyOne_def Let_def split: prod.split)

section \<open>The interface\<close>

locale tick_invariant =
  fixes tick :: u64 and ok :: "LoggedCommand \<Rightarrow> bool" and Q :: "World \<Rightarrow> tick_state \<Rightarrow> bool" and env :: "apply_ctx \<Rightarrow> bool"
  assumes Q_handler: "Q (ac_World a) h \<Longrightarrow> wf_ctx a \<Longrightarrow> env a \<Longrightarrow> ac_Tick a = tick \<Longrightarrow> Handlers (KindOf cmd) = Some f \<Longrightarrow>
      lc_ZoneId cmd = ac_Zone a \<Longrightarrow> ok cmd \<Longrightarrow> Q (ac_World a) (reached (f a cmd h))"
    and Q_emit: "wf_scope sc \<Longrightarrow> Q w h \<Longrightarrow> Q w (emit tick zid ses ref sc p h)"
    and Q_report: "Q w h \<Longrightarrow> Q w (h\<lparr>tk_bind := b, tk_jump := j\<rparr>)" "Q w h \<Longrightarrow> Q w (h\<lparr>tk_Linkdead := l\<rparr>)"
    and Q_offsets: "Q w h \<Longrightarrow> Q w (h\<lparr>tk_State := (tk_State h)\<lparr>ws_Offsets := off\<rparr>\<rparr>)"
    and Q_despawn: "Q w h \<Longrightarrow> fmlookup (zs_Entities (zone_of (tk_State h) zid)) eid = Some ent \<Longrightarrow>
      Q w (h\<lparr>tk_State := upd_zone zid (mutate_entity eid (despawn_fields tick)) (tk_State h)\<rparr>)"
begin

definition Inv :: "World \<Rightarrow> tick_state \<Rightarrow> bool" where
  "Inv w h \<longleftrightarrow> Q w h \<and> fmdom (ws_Zones (tk_State h)) = fmdom (w_Zones w)"

lemma Inv_emit: "wf_scope sc \<Longrightarrow> Inv w h \<Longrightarrow> Inv w (emit tick zid ses ref sc p h)"
  by (simp add: Inv_def Q_emit)

lemma Inv_dispatch:
  assumes "wf_ctx a" "env a" "ac_Tick a = tick" "Handlers (KindOf cmd) = Some f" "lc_ZoneId cmd = ac_Zone a" "ok cmd" "Inv (ac_World a) h"
    and "ac_Zone a |\<in>| fmdom (w_Zones (ac_World a))"
  shows "Inv (ac_World a) (reached (f a cmd h))"
proof -
  have q: "Q (ac_World a) (reached (f a cmd h))" using Q_handler[OF _ assms(1-6)] assms(7) by (simp add: Inv_def)
  have "zone_step (ac_Tick a) (ac_Zone a) h (reached (f a cmd h))" using handler.step[OF Handlers_handler[OF assms(4)]] .
  from zone_step_dom[OF this] have "fmdom (ws_Zones (tk_State (reached (f a cmd h)))) = fmdom (w_Zones (ac_World a))"
    using assms(7,8) by (simp add: Inv_def)
  with q show ?thesis by (simp add: Inv_def)
qed

lemma Inv_reset: "Inv w h \<Longrightarrow> Inv w (h\<lparr>tk_bind := b, tk_jump := j\<rparr>)"
  using Q_report(1) by (simp add: Inv_def)

definition kept :: "World \<Rightarrow> step_state \<Rightarrow> step_state \<Rightarrow> bool" where
  "kept w ss ss' \<longleftrightarrow> Inv w (st_h ss') \<and> st_Unapplied ss' = st_Unapplied ss \<and> st_Faults ss' = st_Faults ss"

lemma kept_emit: "kept w ss ss' \<Longrightarrow> wf_scope sc \<Longrightarrow> kept w ss (observe z r out (st_emit tick zid ses ref sc p ss'))"
  by (simp add: kept_def observe_def st_emit_def Inv_emit)

lemma kept_h: "Inv w h \<Longrightarrow> kept w ss (ss\<lparr>st_h := h\<rparr>)"
  by (simp add: kept_def)

lemma kept_observe: "kept w ss ss' \<Longrightarrow> kept w ss (observe z r out ss')"
  by (simp add: kept_def observe_def)

lemma Inv_applyOne:
  assumes "wf_engine e" "zid = lc_ZoneId (rc_Command r)" "zid |\<in>| fmdom (w_Zones (en_world e))" "ok (rc_Command r)" "Inv (en_world e) (st_h ss)"
    and "\<forall>t zid r. env (context_of e t zid r)"
  shows "\<exists>ss'. applyOne e tick zid r ss = (True, ss') \<and> kept (en_world e) ss ss'"
proof -
  let ?h = "(st_h ss)\<lparr>tk_bind := None, tk_jump := None\<rparr>" and ?a = "context_of e tick zid r"
  have ctx: "wf_ctx ?a" using wf_ctx_context_of[OF assms(1,3)] .
  have cfg: "cfg_Handlers (en_cfg e) = Handlers" using assms(1) by (simp add: wf_engine_def)
  show ?thesis
  proof (cases "Handlers (KindOf (rc_Command r))")
    case None
    have "kept (en_world e) ss ss" using assms(5) by (simp add: kept_def)
    with applyOne_None[of e r tick zid ss] None cfg show ?thesis by (metis kept_emit wf_scope_constructors(3))
  next
    case (Some f)
    have "Inv (ac_World ?a) (reached (f ?a (rc_Command r) ?h))"
      by (rule Inv_dispatch[OF ctx _ _ Some _ assms(4)]) (use assms(2,3,6) Inv_reset[OF assms(5)] in simp_all)
    then have reach: "Inv (en_world e) (reached (f ?a (rc_Command r) ?h))" by simp
    have pure: "pure_reject f ?a (rc_Command r) ?h" using table_pure[OF Some ctx] .
    show ?thesis
    proof (cases "f ?a (rc_Command r) ?h")
      case (Done h)
      with reach have "kept (en_world e) ss (ss\<lparr>st_h := h\<rparr>)" by (simp add: kept_h)
      with applyOne_Done[of e r f tick zid ss h] Done Some cfg show ?thesis by (metis kept_observe)
    next
      case (Rejected err h)
      with reach have k: "kept (en_world e) ss (ss\<lparr>st_h := h\<rparr>)" by (simp add: kept_h)
      with applyOne_Rejected[of e r f tick zid ss err h] Rejected Some cfg show ?thesis by (metis kept_emit wf_scope_constructors(3))
    next
      case (Panicked m h)
      then show ?thesis using pure by (simp add: pure_reject_def)
    qed
  qed
qed

lemma Inv_advance: "Inv w (st_h ss) \<Longrightarrow> Inv w (st_h (advance p r ss))"
  by (simp add: Inv_def advance_def Q_offsets)

lemma kept_advance: "kept w ss ss' \<Longrightarrow> kept w ss (advance p r ss')"
  using Inv_advance[of w ss' p r] by (simp add: kept_def) (simp add: advance_def)

lemma kept_reject_unplaced: "Inv w (st_h ss) \<Longrightarrow> kept w ss (reject_unplaced tick zid code msg r ss)"
  unfolding reject_unplaced_def Let_def by (rule kept_emit) (simp_all add: kept_def)

lemma kept_trans: "kept w ss ss' \<Longrightarrow> kept w ss' ss'' \<Longrightarrow> kept w ss ss''"
  by (simp add: kept_def)

lemma kept_Inv: "kept w ss ss' \<Longrightarrow> Inv w (st_h ss')"
  by (simp add: kept_def)

lemma Inv_applyPartition:
  assumes "wf_engine e" "\<forall>r \<in> set rs. ok (rc_Command r)" "Inv (en_world e) (st_h ss)"
    and "\<forall>t zid r. env (context_of e t zid r)"
  shows "kept (en_world e) ss (applyPartition e tick p rs ss)"
  using assms(2,3)
proof (induction rs arbitrary: ss)
  case Nil
  then show ?case by (simp add: kept_def)
next
  case (Cons r rs)
  let ?zid = "lc_ZoneId (rc_Command r)"
  have IH: "kept (en_world e) ss (applyPartition e tick p rs (advance p r ss'))" if "kept (en_world e) ss ss'" for ss'
    using kept_trans[OF kept_advance[OF that] Cons.IH[OF _ kept_Inv[OF kept_advance[OF that]]]] Cons.prems(1) by simp
  have "kept (en_world e) ss (ss\<lparr>st_consumed := st_consumed ss @ [r]\<rparr>)" using Cons.prems(2) by (simp add: kept_def)
  note swap = IH[OF this] and rej = IH[OF kept_reject_unplaced[OF Cons.prems(2)]]
  show ?case
  proof (cases "KindOf (rc_Command r) = ''content_swap'' \<or> fmlookup (ws_Zones (tk_State (st_h ss))) ?zid = None \<or> PartitionFor ?zid \<noteq> p")
    case True
    then show ?thesis using swap rej by (auto simp: Let_def split: option.split)
  next
    case False
    then obtain z where z: "fmlookup (ws_Zones (tk_State (st_h ss))) ?zid = Some z" by auto
    then have "?zid |\<in>| fmdom (w_Zones (en_world e))" using Cons.prems(2) unfolding Inv_def by (metis fmdomI)
    from Inv_applyOne[OF assms(1) refl this _ Cons.prems(2) assms(4)] Cons.prems(1)
    obtain ss' where "applyOne e tick ?zid r ss = (True, ss')" "kept (en_world e) ss ss'" by auto
    then show ?thesis using False z IH[of ss'] by (simp add: Let_def)
  qed
qed

lemma Inv_applyRecords:
  assumes "wf_engine e" "\<forall>r \<in> set records. ok (rc_Command r)" "Q (en_world e) (st_h (start e))"
    and "\<forall>t zid r. env (context_of e t zid r)"
  shows "kept (en_world e) (start e) (applyRecords e tick records)"
proof -
  have "kept (en_world e) (start e) ss \<Longrightarrow>
     kept (en_world e) (start e) (foldl (\<lambda>ss p. applyPartition e tick p (byPart records p) ss) ss ps)" for ss ps
  proof (induction ps arbitrary: ss)
    case (Cons p ps)
    have "\<forall>r \<in> set (byPart records p). ok (rc_Command r)" using assms(2) by (simp add: byPart_def)
    from kept_trans[OF Cons.prems Inv_applyPartition[OF assms(1) this kept_Inv[OF Cons.prems] assms(4)]] show ?case
      using Cons.IH by simp
  qed simp
  moreover have "kept (en_world e) (start e) (start e)"
    using assms by (simp add: kept_def Inv_def start_def wf_engine_def)
  ultimately show ?thesis unfolding applyRecords_def by blast
qed

lemma Inv_expire_one: "zid |\<in>| fmdom (w_Zones w) \<Longrightarrow> Inv w h \<Longrightarrow> Inv w (expire_one tick zid h eid)"
  by (auto simp: expire_one_def despawn_def Let_def Inv_def Q_emit Q_report Q_despawn split: option.split)

lemma Inv_expire_zone:
  assumes "zid |\<in>| fmdom (w_Zones w)" "Inv w h"
  shows "Inv w (expire_zone tick h zid)"
proof -
  have "Inv w h \<Longrightarrow> Inv w (foldl (expire_one tick zid) h ids)" for h ids
    by (induction ids arbitrary: h) (simp_all add: Inv_expire_one[OF assms(1)])
  then show ?thesis using assms(2) by (simp add: expire_zone_def Let_def)
qed

lemma Inv_expireLinkdead:
  assumes "Inv w h"
  shows "Inv w (expireLinkdead tick h)"
proof -
  have "set zids \<subseteq> fset (fmdom (w_Zones w)) \<Longrightarrow> Inv w h \<Longrightarrow> Inv w (foldl (expire_zone tick) h zids)" for h zids
    by (induction zids arbitrary: h) (simp_all add: Inv_expire_zone)
  moreover have "set (SortedZoneIDs (tk_State h)) = fset (fmdom (w_Zones w))"
    using assms by (simp add: SortedZoneIDs_def Inv_def fmdom'_alt_def)
  ultimately show ?thesis using assms by (simp add: expireLinkdead_def)
qed

end


section \<open>Content swaps\<close>

fun chain :: "World \<Rightarrow> preparedSwap list \<Rightarrow> bool" where
  "chain w [] = True"
| "chain w (p # ps) = (if ps_refused p \<noteq> None then chain w ps
     else fmdom (w_Zones w) |\<subseteq>| fmdom (w_Zones (the_world (ps_topo p))) \<and> wf_world (the_world (ps_topo p)) \<and> chain (the_world (ps_topo p)) ps)"

lemma chain_weaken: "chain w ps \<Longrightarrow> fmdom (w_Zones w0) |\<subseteq>| fmdom (w_Zones w) \<Longrightarrow> chain w0 ps"
proof (induction ps arbitrary: w w0)
  case (Cons p ps)
  show ?case
  proof (cases "ps_refused p")
    case None
    then show ?thesis using Cons.prems by auto
  next
    case (Some r)
    then show ?thesis using Cons.prems Cons.IH[of w w0] by simp
  qed
qed simp

lemma removedZone_none:
  assumes "wf_world w" "removedZone w w' = ''''"
  shows "fmdom (w_Zones w) |\<subseteq>| fmdom (w_Zones w')"
proof
  fix zid assume z: "zid |\<in>| fmdom (w_Zones w)"
  have "fmlookup (w_Zones w) '''' = None"
    using assms(1) by (cases "fmlookup (w_Zones w) ''''") (auto simp: wf_world_def wf_zone_def fmpred_iff)
  then have "'''' \<notin> set (keys (w_Zones w))" by (simp add: fmdom'_lookup)
  then have "find (\<lambda>zid. fmlookup (w_Zones w') zid = None) (keys (w_Zones w)) = None"
  proof (cases "find (\<lambda>zid. fmlookup (w_Zones w') zid = None) (keys (w_Zones w))")
    case (Some z)
    then have "z \<in> set (keys (w_Zones w))" unfolding find_Some_iff by (metis nth_mem)
    moreover have "z = ''''" using assms(2) Some by (simp add: removedZone_def)
    ultimately show ?thesis using \<open>'''' \<notin> set (keys (w_Zones w))\<close> by simp
  qed
  then show "zid |\<in>| fmdom (w_Zones w')" using z by (auto simp: find_None_iff fmdom'_lookup fmlookup_dom_iff) (metis option.distinct(1))
qed

lemma prepareLoop_chain:
  assumes "prepareLoop src v d w rs = Inr ps" "wf_world w" "\<forall>prep v cs t. src = Some prep \<longrightarrow> prep v cs = Inr t \<longrightarrow> wf_world (the_world t)"
  shows "chain w ps"
  using assms(1,2)
proof (induction rs arbitrary: v d w ps)
  case (Cons r rs)
  let ?cs = "GetContentSwap (rc_Command r)"
  have refused: "chain w ps" if "map_sum (\<lambda>x. x) (\<lambda>out. refuse r ?cs reason # out) (prepareLoop src v d w rs) = Inr ps" for reason
    using that Cons.IH[of v d w] Cons.prems(2) by (cases "prepareLoop src v d w rs") (auto simp: refuse_def)
  show ?case
  proof (cases "\<exists>reason. map_sum (\<lambda>x. x) (\<lambda>out. refuse r ?cs reason # out) (prepareLoop src v d w rs) = Inr ps")
    case True
    then show ?thesis using refused by blast
  next
    case False
    then obtain prep t where src: "src = Some prep" and t: "prep v ?cs = Inr t"
      and rz: "removedZone w (the_world t) = ''''" and rest: "map_sum (\<lambda>x. x) (\<lambda>out. \<lparr>ps_rec = r, ps_swap = ?cs, ps_topo = t\<lparr>tp_World := Some (the_world t)\<rparr>,
          ps_digest = ContentDigest (t\<lparr>tp_World := Some (the_world t)\<rparr>), ps_versions = fmupd (sw_PackId ?cs) (sw_Version ?cs) v,
          ps_refused = None\<rparr> # out) (prepareLoop src (fmupd (sw_PackId ?cs) (sw_Version ?cs) v) (ContentDigest (t\<lparr>tp_World := Some (the_world t)\<rparr>)) (the_world t) rs) = Inr ps"
      using Cons.prems(1) by (auto simp: Let_def the_world_def split: if_splits option.splits sum.splits)
    have wf: "wf_world (the_world t)" using assms(3) src t by blast
    have "the_world (t\<lparr>tp_World := Some (the_world t)\<rparr>) = the_world t" by (simp add: the_world_def)
    then show ?thesis using rest wf removedZone_none[OF Cons.prems(2) rz]
        Cons.IH[of "fmupd (sw_PackId ?cs) (sw_Version ?cs) v" "ContentDigest (t\<lparr>tp_World := Some (the_world t)\<rparr>)" "the_world t"]
      by (auto simp: map_sum_def split: sum.splits)
  qed
qed simp

locale world_invariant = tick_invariant +
  assumes Q_world: "Q w h \<Longrightarrow> Q w' h"
    and Q_relocate: "Q w h \<Longrightarrow> fmlookup (zs_Entities (zone_of (tk_State h) zid)) eid = Some ent \<Longrightarrow>
      Q w (h\<lparr>tk_State := upd_zone zid (mutate_entity eid (\<lambda>x. x\<lparr>en_Room := room\<rparr>)) (tk_State h)\<rparr>)"
    and Q_add_zones: "Q w h \<Longrightarrow> Q w (h\<lparr>tk_State := add_zones w' (tk_State h)\<rparr>)"
begin

lemma Inv_relocate:
  "zid |\<in>| fmdom (w_Zones w) \<Longrightarrow> Inv w (fst hr) \<Longrightarrow> Inv w (fst (relocate tick nz zid hr eid))"
  by (cases hr) (auto simp: relocate_def Let_def Inv_def Q_emit Q_relocate split: option.split)

lemma Inv_relocate_zone:
  assumes "zid |\<in>| fmdom (w_Zones w)" "Inv w (fst hr)"
  shows "Inv w (fst (relocate_zone tick w' hr zid))"
proof -
  have "Inv w (fst hr) \<Longrightarrow> Inv w (fst (foldl (relocate tick nz zid) hr ids))" for hr nz ids
    by (induction ids arbitrary: hr) (simp_all add: Inv_relocate[OF assms(1)])
  then show ?thesis using assms(2) by (simp add: relocate_zone_def split: option.split)
qed

lemma Inv_relocate_zones:
  "set zids \<subseteq> fset (fmdom (w_Zones w)) \<Longrightarrow> Inv w (fst hr) \<Longrightarrow> Inv w (fst (foldl (relocate_zone tick w') hr zids))"
  by (induction zids arbitrary: hr) (simp_all add: Inv_relocate_zone)

end

lemma lookup_add_zones:
  "fmlookup (ws_Zones (add_zones w s)) zid = (case fmlookup (ws_Zones s) zid of Some z \<Rightarrow> Some z
     | None \<Rightarrow> if zid |\<in>| fmdom (w_Zones w) then Some (empty_zone zid) else None)"
proof -
  have "map_of (map (\<lambda>zid. (zid, empty_zone zid)) xs) zid = (if zid \<in> set xs then Some (empty_zone zid) else None)" for xs
    by (induction xs) auto
  then have m: "fmlookup (fmap_of_list (map (\<lambda>zid. (zid, empty_zone zid)) xs)) zid = (if zid \<in> set xs then Some (empty_zone zid) else None)" for xs
    by (simp add: fmap_of_list.rep_eq)
  show ?thesis by (auto simp: add_zones_def m fmdom'_alt_def fmdom_notD fset_of_list_elem split: option.split)
qed

lemma fmdom_add_zones:
  assumes "fmdom (ws_Zones s) |\<subseteq>| fmdom (w_Zones w)"
  shows "fmdom (ws_Zones (add_zones w s)) = fmdom (w_Zones w)"
proof (rule fset_eqI)
  fix zid
  show "zid |\<in>| fmdom (ws_Zones (add_zones w s)) \<longleftrightarrow> zid |\<in>| fmdom (w_Zones w)"
    using assms by (cases "fmlookup (ws_Zones s) zid") (auto simp: fmlookup_dom_iff lookup_add_zones dest: fmdomI)
qed

context world_invariant
begin

lemma Inv_applySwap:
  assumes "Inv w h" "fmdom (w_Zones w) |\<subseteq>| fmdom (w_Zones (the_world (ps_topo p)))" "applySwap tick p e h = (e', h', sa)"
  shows "Inv (the_world (ps_topo p)) h' \<and> en_world e' = the_world (ps_topo p) \<and> en_cfg e' = en_cfg e"
proof -
  define w' where "w' = the_world (ps_topo p)"
  define h1 where "h1 = fst (foldl (relocate_zone tick w') (h, []) (keys (ws_Zones (tk_State h))))"
  have "set (keys (ws_Zones (tk_State h))) \<subseteq> fset (fmdom (w_Zones w))" using assms(1) by (simp add: Inv_def fmdom'_alt_def)
  from Inv_relocate_zones[OF this, of "(h, [])"] assms(1) have r: "Inv w h1" by (simp add: h1_def)
  then have q: "Q w' (h1\<lparr>tk_State := add_zones w' (tk_State h1)\<rparr>)" using Q_world Q_add_zones unfolding Inv_def by blast
  have "fmdom (ws_Zones (add_zones w' (tk_State h1))) = fmdom (w_Zones w')"
    using r assms(2) by (intro fmdom_add_zones) (simp add: Inv_def w'_def)
  with q have i: "Inv w' (h1\<lparr>tk_State := add_zones w' (tk_State h1)\<rparr>)" by (simp add: Inv_def)
  have "h' = h1\<lparr>tk_State := add_zones w' (tk_State h1)\<rparr>" "en_world e' = w'" "en_cfg e' = en_cfg e"
    using assms(3) by (auto simp: applySwap_def Let_def h1_def w'_def)
  with i show ?thesis by (simp add: w'_def)
qed

definition swap_ok :: "swap_state \<Rightarrow> Config \<Rightarrow> bool" where
  "swap_ok x cfg \<longleftrightarrow> wf_world (en_world (wp_e x)) \<and> Inv (en_world (wp_e x)) (st_h (wp_ss x)) \<and> en_cfg (wp_e x) = cfg"

lemma swap_ok_finish:
  assumes "swap_ok x cfg" "chain (en_world (wp_e x)) (p # ps)"
  shows "swap_ok (finishSwap tick x p) cfg \<and> chain (en_world (wp_e (finishSwap tick x p))) ps"
proof (cases "ps_rec p \<in> set (st_consumed (wp_ss x)) \<and> ps_refused p = None")
  case True
  obtain e' h' sa where a: "applySwap tick p (wp_e x) (st_h (wp_ss x)) = (e', h', sa)" by (metis prod_cases3)
  have f: "wp_e (finishSwap tick x p) = e'" "st_h (wp_ss (finishSwap tick x p)) = h'"
    using True a by (simp_all add: finishSwap_def observe_def)
  show ?thesis using Inv_applySwap[OF _ _ a, of "en_world (wp_e x)"] assms True f by (simp add: swap_ok_def)
next
  case False
  then have f: "wp_e (finishSwap tick x p) = wp_e x" "st_h (wp_ss (finishSwap tick x p)) = st_h (wp_ss x)"
    by (auto simp: finishSwap_def observe_def split: option.split)
  have "chain (en_world (wp_e x)) ps"
    using assms(2) chain_weaken[of "the_world (ps_topo p)" ps "en_world (wp_e x)"] by (auto split: if_splits)
  then show ?thesis using assms(1) f by (simp add: swap_ok_def)
qed

lemma swap_ok_fold: "swap_ok x cfg \<Longrightarrow> chain (en_world (wp_e x)) ps \<Longrightarrow> swap_ok (foldl (finishSwap tick) x ps) cfg"
proof (induction ps arbitrary: x)
  case (Cons p ps)
  from swap_ok_finish[OF Cons.prems] Cons.IH show ?case by simp
qed simp

lemma Inv_run_tick:
  assumes "wf_engine e" "\<forall>r \<in> set records. ok (rc_Command r)" "Q (en_world e) (st_h (start e))" "prepareSwaps e sw = Inr prepared"
    and "tick = ws_Tick (en_state e) + 1" "\<forall>t zid r. env (context_of e t zid r)"
  shows "swap_ok (run_tick e records prepared) (en_cfg e)"
proof -
  have "Inv (en_world e) (st_h (applyRecords e tick records))" using kept_Inv[OF Inv_applyRecords[OF assms(1-3,6)]] .
  then have "Inv (en_world e) (expireLinkdead tick (st_h (applyRecords e tick records)))" by (rule Inv_expireLinkdead)
  moreover have "wf_world (en_world e)" using assms(1) by (simp add: wf_engine_def)
  moreover have "chain (en_world e) prepared"
    using assms(1,4) by (intro prepareLoop_chain[of "cfg_Content (en_cfg e)" "en_versions e" "en_digest e" _ sw]) (auto simp: prepareSwaps_def wf_engine_def)
  ultimately show ?thesis unfolding run_tick_def Let_def assms(5)[symmetric]
    by (intro swap_ok_fold) (simp_all add: swap_ok_def)
qed

text \<open>The end of the tick: what holds of the tick's last state holds of the Engine it leaves.\<close>

lemma Step_invariant:
  assumes "wf_engine e" "\<forall>r \<in> set records. ok (rc_Command r)" "Q (en_world e) (st_h (start e))" "Step e records = Inr (e', res)"
    and "tick = ws_Tick (en_state e) + 1" "\<forall>t zid r. env (context_of e t zid r)"
  obtains h where "Inv (en_world e') h" "en_state e' = (tk_State h)\<lparr>ws_Tick := tick\<rparr>" "sr_Outbound res = tk_Outbound h" "sr_Events res = tk_Events h"
    "en_handoffs e' = tk_handoffs h" "wf_world (en_world e')" "en_cfg e' = en_cfg e" "sr_Tick res = tick"
proof -
  obtain prepared where p: "prepareSwaps e (swapRecs records) = Inr prepared" and v: "validate_input (en_state e) records (parts_of records) = None"
    using assms(4) by (auto simp: Step_def split: option.splits sum.splits)
  let ?x = "run_tick e records prepared"
  have ok: "swap_ok ?x (en_cfg e)" using Inv_run_tick[OF assms(1-3) p assms(5,6)] .
  have "e' = (wp_e ?x)\<lparr>en_state := (tk_State (st_h (wp_ss ?x)))\<lparr>ws_Tick := tick\<rparr>, en_handoffs := tk_handoffs (st_h (wp_ss ?x))\<rparr>"
    "sr_Outbound res = tk_Outbound (st_h (wp_ss ?x))" "sr_Events res = tk_Events (st_h (wp_ss ?x))" "sr_Tick res = tick"
    using assms(4,5) p v by (auto simp: Step_def Let_def)
  then show thesis using ok by (intro that[of "st_h (wp_ss ?x)"]) (simp_all add: swap_ok_def)
qed

end

end
