(* ===== verification/Engine_Properties.thy ===== *)
theory Engine_Properties
  imports Tick_Invariants
begin

text \<open>
  What holds after every tick of a well-formed Engine: it is well-formed again, its Events are numbered
  without gap from the counter on, and its Tick Boundary Record counts and hashes what the tick did.
\<close>

section \<open>The Engine stays well-formed\<close>

lemma keyed_step: "zone_step t zid h h' \<Longrightarrow> keyed_state (tk_State h) \<Longrightarrow> keyed_state (tk_State h')"
  by (simp add: zone_step_def same_world_but_def)

lemma keyed_mutate: "keyed_state s \<Longrightarrow> (\<And>e. en_ID (f e) = en_ID e) \<Longrightarrow> keyed_state (upd_zone zid (mutate_entity eid f) s)"
  using zone_update_mutate[of f eid] by (auto simp: zone_update_def intro!: keyed_upd_zone)

lemma keyed_add_zones: "keyed_state s \<Longrightarrow> keyed_state (add_zones w s)"
  by (auto simp: keyed_state_def fmpred_iff lookup_add_zones split: option.splits if_splits)

lemma keyed_frame [simp]: "keyed_state (s\<lparr>ws_NextEventID := n\<rparr>) = keyed_state s" "keyed_state (s\<lparr>ws_Offsets := off\<rparr>) = keyed_state s"
  "keyed_state (s\<lparr>ws_Tick := t\<rparr>) = keyed_state s"
  by (simp_all add: keyed_state_def)

interpretation keyed_inv: world_invariant tick "\<lambda>_. True" "\<lambda>_ h. keyed_state (tk_State h)" "\<lambda>_. True" for tick
proof unfold_locales
  show "keyed_state (tk_State (reached (f a cmd h)))"
    if "keyed_state (tk_State h)" "Handlers (KindOf cmd) = Some f" for a h cmd f
    using keyed_step[OF handler.step[OF Handlers_handler[OF that(2)]] that(1)] .
qed (auto simp: emit_def Let_def intro!: keyed_mutate keyed_add_zones)

lemma wf_engine_Step:
  assumes "wf_engine e" "Step e records = Inr (e', res)"
  shows "wf_engine e'"
proof -
  have "keyed_state (tk_State (st_h (start e)))" using assms(1) by (simp add: start_def wf_engine_def)
  from keyed_inv.Step_invariant[OF assms(1) _ this assms(2) refl]
  obtain h where "keyed_inv.Inv (en_world e') h" "en_state e' = (tk_State h)\<lparr>ws_Tick := ws_Tick (en_state e) + 1\<rparr>"
    "wf_world (en_world e')" "en_cfg e' = en_cfg e" by auto
  then show ?thesis using assms(1) by (simp add: wf_engine_def keyed_inv.Inv_def)
qed

section \<open>An Engine for examples\<close>

definition ex_config :: Config where
  "ex_config = \<lparr>cfg_Seed = 1, cfg_Partitions = [PartitionFor ''town'', PartitionFor ''crypt''], cfg_Handlers = Handlers, cfg_Content = None,
     cfg_HandoffRetryTicks = 0, cfg_HandoffRetryMaxTicks = 0, cfg_HandoffRetryBatch = 0, cfg_MapOrder = (\<lambda>xs. xs)\<rparr>"

definition ex_engine :: Engine where
  "ex_engine = (NewEngine ex_world None ex_config)\<lparr>en_state := ex_state\<rparr>"

definition ex_record :: "ZoneID \<Rightarrow> int \<Rightarrow> Command \<Rightarrow> Record" where
  "ex_record zid off c = \<lparr>rc_Partition = PartitionFor zid, rc_Offset = off, rc_Command = ex_cmd zid ''ann'' c\<rparr>"

lemma ex_engine_fields [simp]: "en_world ex_engine = ex_world" "en_state ex_engine = ex_state" "cfg_Handlers (en_cfg ex_engine) = Handlers"
  "cfg_Content (en_cfg ex_engine) = None" "cfg_MapOrder (en_cfg ex_engine) = (\<lambda>xs. xs)" "en_versions ex_engine = fmempty"
  "en_handoffs ex_engine = Map.empty" "\<not> en_replaying ex_engine"
  by (simp_all add: ex_engine_def NewEngine_def ex_config_def Let_def)

lemma keyed_NewWorldState: "keyed_state (NewWorldState w seed ps)" "fmdom (ws_Zones (NewWorldState w seed ps)) = fmdom (w_Zones w)"
  by (auto simp: keyed_state_def NewWorldState_def fmpred_iff fmap_of_list.rep_eq fset_eq_iff fset_of_list_elem fmdom'_alt_def
      dest!: map_of_SomeD)

lemma wf_ex_engine: "wf_engine ex_engine"
proof -
  have "keyed_state ex_state"
    unfolding ex_state_def by (intro keyed_upd_zone keyed_put_entity keyed_NewWorldState)
  moreover have "''town'' |\<in>| fmdom (w_Zones ex_world)" by (simp add: ex_world_def)
  then have "fmdom (ws_Zones ex_state) = fmdom (w_Zones ex_world)"
    by (auto simp: ex_state_def keyed_NewWorldState fset_eq_iff)
  ultimately show ?thesis by (simp add: wf_engine_def wf_ex_world)
qed

lemma Step_returns:
  assumes "validate_input (en_state e) records (parts_of records) = None" "swapRecs records = []"
  obtains e' res where "Step e records = Inr (e', res)"
  using assms by (auto simp: Step_def Let_def prepareSwaps_def)

lemma ex_Step_returns:
  assumes "KindOf (ex_cmd zid ''ann'' c) \<noteq> ''content_swap''" "zid = ''town'' \<or> zid = ''crypt''"
  obtains e' res where "Step ex_engine [ex_record zid 0 c] = Inr (e', res)"
proof (rule Step_returns)
  have "fmlookup (ws_Offsets ex_state) (PartitionFor zid) = Some 0"
    using assms(2) by (auto simp: ex_state_def NewWorldState_def upd_zone_def fmap_of_list.rep_eq)
  moreover have "FaultedPartitions ex_state = []"
    by (simp add: FaultedPartitions_def zone_of_ex empty_zone_def)
  ultimately show "validate_input (en_state ex_engine) [ex_record zid 0 c] (parts_of [ex_record zid 0 c]) = None"
    by (simp add: parts_of_def ex_record_def byPart_def)
  show "swapRecs [ex_record zid 0 c] = []" using assms(1) by (simp add: swapRecs_def parts_of_def byPart_def ex_record_def)
qed

section \<open>Events\<close>

definition counted :: "u64 \<Rightarrow> u64 \<Rightarrow> tick_state \<Rightarrow> bool" where
  "counted tick n h \<longleftrightarrow> numbered tick n (tk_Events h) \<and> ws_NextEventID (tk_State h) = n + of_nat (length (tk_Events h))"

lemma counted_step:
  assumes "zone_step t zid h h'" "counted t n h"
  shows "counted t n h'"
proof -
  obtain evs where "tk_Events h' = tk_Events h @ evs" "numbered t (ws_NextEventID (tk_State h)) evs"
    "ws_NextEventID (tk_State h') = ws_NextEventID (tk_State h) + of_nat (length evs)"
    using assms(1) by (auto simp: zone_step_def)
  then show ?thesis using assms(2) numbered_append[of t n "tk_Events h" evs] by (simp add: counted_def)
qed

lemma ws_NextEventID_frame [simp]: "ws_NextEventID (add_zones w s) = ws_NextEventID s"
  by (simp add: add_zones_def)

interpretation events_inv: world_invariant tick "\<lambda>_. True" "\<lambda>_. counted tick n" "\<lambda>_. True" for tick n
proof unfold_locales
  show "counted tick n (reached (f a cmd h))"
    if "counted tick n h" "Handlers (KindOf cmd) = Some f" "ac_Tick a = tick" for a h cmd f
    using counted_step[OF handler.step[OF Handlers_handler[OF that(2)], of a h cmd]] that(1,3) by simp
  show "counted tick n (emit tick zid ses ref sc p h)" if "wf_scope sc" "counted tick n h" for sc h zid ses ref p
    using counted_step[OF zone_step_emit[OF that(1) zone_step_refl] that(2)] .
qed (simp_all add: counted_def)

text \<open>
  C20. Event IDs have no gap and no repeat across ticks: the Events of a tick take the IDs from the
  World's counter on, one after the other, each carries the tick, its payload's type and its
  redacted form, and the counter is left just past the last. The Tick Boundary Record counts them.
\<close>
theorem Step_event_ids_contiguous:
  assumes "wf_engine e" "Step e records = Inr (e', res)"
  shows "numbered (ws_Tick (en_state e) + 1) (ws_NextEventID (en_state e)) (sr_Events res)
     \<and> ws_NextEventID (en_state e') = ws_NextEventID (en_state e) + of_nat (length (sr_Events res))
     \<and> tc_EventsEmitted (sr_Completed res) = of_nat (length (sr_Events res))
     \<and> ws_Tick (en_state e') = ws_Tick (en_state e) + 1 \<and> tc_Tick (sr_Completed res) = ws_Tick (en_state e')
     \<and> tc_StateHash (sr_Completed res) = StateHash (en_state e')"
proof -
  have "counted (ws_Tick (en_state e) + 1) (ws_NextEventID (en_state e)) (st_h (start e))"
    by (simp add: counted_def start_def)
  from events_inv.Step_invariant[OF assms(1) _ this assms(2) refl]
  obtain h where "events_inv.Inv (ws_Tick (en_state e) + 1) (ws_NextEventID (en_state e)) (en_world e') h"
    "en_state e' = (tk_State h)\<lparr>ws_Tick := ws_Tick (en_state e) + 1\<rparr>" "sr_Events res = tk_Events h" by auto
  moreover have "tc_EventsEmitted (sr_Completed res) = of_nat (length (sr_Events res))" "tc_Tick (sr_Completed res) = ws_Tick (en_state e) + 1"
    "tc_StateHash (sr_Completed res) = StateHash (en_state e')"
    using assms(2) by (auto simp: Step_def Let_def split: option.splits sum.splits)
  ultimately show ?thesis by (simp add: events_inv.Inv_def counted_def)
qed

theorem Step_event_ids_contiguous_witness:
  "\<exists>e' res. Step ex_engine [ex_record ''town'' 0 Look] = Inr (e', res) \<and> numbered 1 1 (sr_Events res)
     \<and> ws_NextEventID (en_state e') = 1 + of_nat (length (sr_Events res)) \<and> tc_StateHash (sr_Completed res) = StateHash (en_state e')"
proof -
  obtain e' res where "Step ex_engine [ex_record ''town'' 0 Look] = Inr (e', res)"
    by (rule ex_Step_returns[of "''town''" Look]) (simp_all add: KindOf_def ex_cmd_def)
  with Step_event_ids_contiguous[OF wf_ex_engine this] show ?thesis
    by (auto simp: ex_state_def NewWorldState_def upd_zone_def)
qed

section \<open>Handoffs\<close>

text \<open>
  The messages a tick may deliver are those sent before it: \<open>msgs\<close>. While no sequence wraps, the
  Zones and the messages, those the tick has produced included, keep the protocol's invariant.
\<close>

definition sound_so_far :: "LoggedCommand set \<Rightarrow> tick_state \<Rightarrow> bool" where
  "sound_so_far msgs h \<longleftrightarrow> keyed_state (tk_State h)
     \<and> ((\<forall>c \<in> set (tk_Outbound h). unwrapped c) \<longrightarrow> sound (tk_State h) (msgs \<union> set (tk_Outbound h)))"

lemma sent_mono: "sent msgs c \<Longrightarrow> msgs \<subseteq> msgs' \<Longrightarrow> sent msgs' c"
  by (auto simp: sent_def)

lemma view_zones: "(\<And>zid. zone_of s' zid = zone_of s zid) \<Longrightarrow> view eid s' msgs = view eid s msgs"
  by (simp add: view_def)

lemma sound_zones: "(\<And>zid. zone_of s' zid = zone_of s zid) \<Longrightarrow> sound s' msgs = sound s msgs"
  unfolding sound_def by (metis view_zones)

lemma sound_alter:
  assumes "sound s msgs" "fmlookup (zs_Entities (zone_of s zid)) k = Some e" "en_HandoffSeq (f e) = en_HandoffSeq e"
  shows "sound (upd_zone zid (mutate_entity k f) s) msgs"
proof (rule soundI[OF assms(1)])
  have z: "zone_to zid s (upd_zone zid (mutate_entity k f) s) (mutate_entity k f (zone_of s zid))" by (simp add: zone_to_def)
  show "pstep (view eid s msgs) (view eid (upd_zone zid (mutate_entity k f) s) msgs)" for eid
    using pstep.Keep[OF step_alter[OF z assms(2,3), of eid msgs]] by simp
qed

lemma zone_of_add_zones: "zone_of (add_zones w s) zid = zone_of s zid"
  by (auto simp: zone_of_def lookup_add_zones split: option.splits)

lemma sound_handler:
  assumes "Handlers (KindOf cmd) = Some f" "wf_ctx a" "lc_ZoneId cmd = ac_Zone a" "sent msgs cmd" "sound_so_far msgs h"
  shows "sound_so_far msgs (reached (f a cmd h))"
proof -
  have k: "keyed_state (tk_State h)" using assms(5) by (simp add: sound_so_far_def)
  have "sound (tk_State (reached (f a cmd h))) (msgs \<union> set (tk_Outbound (reached (f a cmd h))))"
    if w: "\<forall>c \<in> set (tk_Outbound (reached (f a cmd h))). unwrapped c"
  proof -
    have "sent (msgs \<union> set (tk_Outbound h)) cmd" using sent_mono[OF assms(4)] by blast
    from assms(1,2) k this assms(3) w show ?thesis
    proof (rule handler_view)
      fix outs
      assume o: "tk_Outbound (reached (f a cmd h)) = tk_Outbound h @ outs"
        and v: "\<And>eid. pstep (view eid (tk_State h) (msgs \<union> set (tk_Outbound h)))
           (view eid (tk_State (reached (f a cmd h))) (msgs \<union> set (tk_Outbound h) \<union> set outs))"
      have "sound (tk_State h) (msgs \<union> set (tk_Outbound h))" using assms(5) w o by (simp add: sound_so_far_def)
      from soundI[OF this v] show ?thesis using o by (simp add: Un_assoc)
    qed
  qed
  moreover have "keyed_state (tk_State (reached (f a cmd h)))"
    using keyed_step[OF handler.step[OF Handlers_handler[OF assms(1)]] k] .
  ultimately show ?thesis by (simp add: sound_so_far_def)
qed

lemma despawn_fields_seq [simp]: "en_HandoffSeq (despawn_fields t e) = en_HandoffSeq e"
  by (simp add: despawn_fields_def clearLinkdead_def)

lemma sound_so_far_alter:
  assumes "sound_so_far msgs h" "fmlookup (zs_Entities (zone_of (tk_State h) zid)) k = Some e"
    and "\<And>e. en_HandoffSeq (f e) = en_HandoffSeq e" "\<And>e. en_ID (f e) = en_ID e"
  shows "sound_so_far msgs (h\<lparr>tk_State := upd_zone zid (mutate_entity k f) (tk_State h)\<rparr>)"
  using assms by (simp add: sound_so_far_def sound_alter keyed_mutate)

lemma sound_so_far_frame:
  assumes "sound_so_far msgs h" "tk_Outbound h' = tk_Outbound h" "\<And>zid. zone_of (tk_State h') zid = zone_of (tk_State h) zid" "keyed_state (tk_State h')"
  shows "sound_so_far msgs h'"
  using assms sound_zones[of "tk_State h'" "tk_State h"] by (simp add: sound_so_far_def)

interpretation sound_inv: world_invariant tick "sent msgs" "\<lambda>_. sound_so_far msgs" "\<lambda>_. True" for tick msgs
proof unfold_locales
  show "sound_so_far msgs (reached (f a cmd h))"
    if "sound_so_far msgs h" "wf_ctx a" "Handlers (KindOf cmd) = Some f" "lc_ZoneId cmd = ac_Zone a" "sent msgs cmd" for a h cmd f
    using sound_handler[OF that(3,2,4,5,1)] .
  show "sound_so_far msgs (emit tick zid ses ref sc p h)" if "sound_so_far msgs h" for sc h zid ses ref p
    using that by (rule sound_so_far_frame) (use that in \<open>simp_all add: emit_def Let_def sound_so_far_def\<close>)
  show "sound_so_far msgs (h\<lparr>tk_State := upd_zone zid (mutate_entity eid (despawn_fields tick)) (tk_State h)\<rparr>)"
    if "sound_so_far msgs h" "fmlookup (zs_Entities (zone_of (tk_State h) zid)) eid = Some ent" for h zid eid ent
    using that by (rule sound_so_far_alter) simp_all
  show "sound_so_far msgs (h\<lparr>tk_State := upd_zone zid (mutate_entity eid (\<lambda>x. x\<lparr>en_Room := room\<rparr>)) (tk_State h)\<rparr>)"
    if "sound_so_far msgs h" "fmlookup (zs_Entities (zone_of (tk_State h) zid)) eid = Some ent" for h zid eid ent room
    using that by (rule sound_so_far_alter) simp_all
  show "sound_so_far msgs (h\<lparr>tk_State := add_zones w (tk_State h)\<rparr>)" if "sound_so_far msgs h" for h w
    using that by (rule sound_so_far_frame) (use that in \<open>simp_all add: zone_of_add_zones sound_so_far_def keyed_add_zones\<close>)
qed (simp_all add: sound_so_far_def sound_zones[of "s\<lparr>ws_Offsets := x\<rparr>" s for s x])

lemma Step_sound:
  assumes "wf_engine e" "sound (en_state e) msgs" "\<forall>r \<in> set records. sent msgs (rc_Command r)" "Step e records = Inr (e', res)"
    and "\<forall>c \<in> set (sr_Outbound res). unwrapped c"
  shows "sound (en_state e') (msgs \<union> set (sr_Outbound res))"
proof -
  have "sound_so_far msgs (st_h (start e))" using assms(1,2) by (simp add: sound_so_far_def start_def wf_engine_def)
  from sound_inv.Step_invariant[OF assms(1,3) this assms(4) refl]
  obtain h where "sound_inv.Inv msgs (en_world e') h" "en_state e' = (tk_State h)\<lparr>ws_Tick := ws_Tick (en_state e) + 1\<rparr>" "sr_Outbound res = tk_Outbound h"
    by auto
  then show ?thesis using assms(5) sound_zones[of "(tk_State h)\<lparr>ws_Tick := ws_Tick (en_state e) + 1\<rparr>" "tk_State h"]
    by (simp add: sound_inv.Inv_def sound_so_far_def)
qed


text \<open>A body that can be reached stays so, unless the tick carries its purge.\<close>

definition live_so_far :: "EntityID \<Rightarrow> LoggedCommand set \<Rightarrow> tick_state \<Rightarrow> bool" where
  "live_so_far eid msgs h \<longleftrightarrow> sound_so_far msgs h
     \<and> ((\<forall>c \<in> set (tk_Outbound h). unwrapped c) \<longrightarrow> live (view eid (tk_State h) (msgs \<union> set (tk_Outbound h))))"

definition kept_alive :: "EntityID \<Rightarrow> LoggedCommand set \<Rightarrow> LoggedCommand \<Rightarrow> bool" where
  "kept_alive eid msgs c \<longleftrightarrow> sent msgs c \<and> purge_target c \<noteq> Some eid"

lemma live_handler:
  assumes "Handlers (KindOf cmd) = Some f" "wf_ctx a" "lc_ZoneId cmd = ac_Zone a" "kept_alive eid msgs cmd" "live_so_far eid msgs h"
  shows "live_so_far eid msgs (reached (f a cmd h))"
proof -
  have s: "sound_so_far msgs h" "sent msgs cmd" "purge_target cmd \<noteq> Some eid"
    using assms(4,5) by (simp_all add: live_so_far_def kept_alive_def)
  have "live (view eid (tk_State (reached (f a cmd h))) (msgs \<union> set (tk_Outbound (reached (f a cmd h)))))"
    if w: "\<forall>c \<in> set (tk_Outbound (reached (f a cmd h))). unwrapped c"
  proof -
    have k: "keyed_state (tk_State h)" using s(1) by (simp add: sound_so_far_def)
    have "sent (msgs \<union> set (tk_Outbound h)) cmd" using sent_mono[OF s(2)] by blast
    from assms(1,2) k this assms(3) w show ?thesis
    proof (rule handler_view)
      fix outs
      assume o: "tk_Outbound (reached (f a cmd h)) = tk_Outbound h @ outs"
        and "\<And>eid. purge_target cmd \<noteq> Some eid \<Longrightarrow> pkeep (view eid (tk_State h) (msgs \<union> set (tk_Outbound h)))
           (view eid (tk_State (reached (f a cmd h))) (msgs \<union> set (tk_Outbound h) \<union> set outs))"
      from this(2)[OF s(3)] have p: "pkeep (view eid (tk_State h) (msgs \<union> set (tk_Outbound h)))
           (view eid (tk_State (reached (f a cmd h))) (msgs \<union> set (tk_Outbound h) \<union> set outs))" .
      have "handoff_inv (view eid (tk_State h) (msgs \<union> set (tk_Outbound h)))" "live (view eid (tk_State h) (msgs \<union> set (tk_Outbound h)))"
        using assms(5) w o by (simp_all add: live_so_far_def sound_so_far_def sound_def)
      from live_pkeep[OF p this] show ?thesis using o by (simp add: Un_assoc)
    qed
  qed
  then show ?thesis using sound_handler[OF assms(1-3) s(2,1)] by (simp add: live_so_far_def)
qed

lemma live_alter:
  assumes "live_so_far k' msgs h" "fmlookup (zs_Entities (zone_of (tk_State h) zid)) k = Some e"
    and "\<And>e. en_HandoffSeq (f e) = en_HandoffSeq e" "\<And>e. en_ID (f e) = en_ID e"
  shows "live_so_far k' msgs (h\<lparr>tk_State := upd_zone zid (mutate_entity k f) (tk_State h)\<rparr>)"
proof -
  have z: "zone_to zid (tk_State h) (upd_zone zid (mutate_entity k f) (tk_State h)) (mutate_entity k f (zone_of (tk_State h) zid))"
    by (simp add: zone_to_def)
  have "pkeep (view k' (tk_State h) ms) (view k' (upd_zone zid (mutate_entity k f) (tk_State h)) ms)" for ms
    using step_alter[OF z assms(2,3), of k' ms] by simp
  then have "live (view k' (upd_zone zid (mutate_entity k f) (tk_State h)) (msgs \<union> set (tk_Outbound h)))"
    if "\<forall>c \<in> set (tk_Outbound h). unwrapped c"
    using live_pkeep assms(1) that unfolding live_so_far_def sound_so_far_def sound_def by blast
  moreover have "sound_so_far msgs (h\<lparr>tk_State := upd_zone zid (mutate_entity k f) (tk_State h)\<rparr>)"
    using assms by (intro sound_so_far_alter) (simp_all add: live_so_far_def)
  ultimately show ?thesis by (simp add: live_so_far_def)
qed

lemma live_frame:
  assumes "live_so_far k msgs h" "tk_Outbound h' = tk_Outbound h" "\<And>zid. zone_of (tk_State h') zid = zone_of (tk_State h) zid" "keyed_state (tk_State h')"
  shows "live_so_far k msgs h'"
  using assms sound_so_far_frame[OF _ assms(2-4)] view_zones[of "tk_State h'" "tk_State h" k] by (simp add: live_so_far_def)

lemma live_keyed: "live_so_far k msgs h \<Longrightarrow> keyed_state (tk_State h)"
  by (simp add: live_so_far_def sound_so_far_def)

interpretation live_inv: world_invariant tick "kept_alive k msgs" "\<lambda>_. live_so_far k msgs" "\<lambda>_. True" for tick k msgs
proof unfold_locales
  show "live_so_far k msgs (reached (f a cmd h))"
    if "live_so_far k msgs h" "wf_ctx a" "Handlers (KindOf cmd) = Some f" "lc_ZoneId cmd = ac_Zone a" "kept_alive k msgs cmd" for a h cmd f
    using live_handler[OF that(3,2,4,5,1)] .
  show "live_so_far k msgs (h\<lparr>tk_State := upd_zone zid (mutate_entity eid (despawn_fields tick)) (tk_State h)\<rparr>)"
    if "live_so_far k msgs h" "fmlookup (zs_Entities (zone_of (tk_State h) zid)) eid = Some ent" for h zid eid ent
    using that by (rule live_alter) simp_all
  show "live_so_far k msgs (h\<lparr>tk_State := upd_zone zid (mutate_entity eid (\<lambda>x. x\<lparr>en_Room := room\<rparr>)) (tk_State h)\<rparr>)"
    if "live_so_far k msgs h" "fmlookup (zs_Entities (zone_of (tk_State h) zid)) eid = Some ent" for h zid eid ent room
    using that by (rule live_alter) simp_all
  show "live_so_far k msgs (emit tick zid ses ref sc p h)" if "live_so_far k msgs h" for sc h zid ses ref p
    using that by (rule live_frame) (use live_keyed[OF that] in \<open>simp_all add: emit_def Let_def\<close>)
  show "live_so_far k msgs (h\<lparr>tk_bind := b, tk_jump := j\<rparr>)" "live_so_far k msgs (h\<lparr>tk_Linkdead := l\<rparr>)"
    "live_so_far k msgs (h\<lparr>tk_State := (tk_State h)\<lparr>ws_Offsets := off\<rparr>\<rparr>)" if "live_so_far k msgs h" for h b j l off
    using that by (rule live_frame; use live_keyed[OF that] in simp)+
  show "live_so_far k msgs (h\<lparr>tk_State := add_zones w (tk_State h)\<rparr>)" if "live_so_far k msgs h" for h w
    using that by (rule live_frame) (use live_keyed[OF that] in \<open>simp_all add: zone_of_add_zones keyed_add_zones\<close>)
qed

lemma Step_live:
  assumes "wf_engine e" "sound (en_state e) msgs" "live (view k (en_state e) msgs)" "\<forall>r \<in> set records. kept_alive k msgs (rc_Command r)"
    and "Step e records = Inr (e', res)" "\<forall>c \<in> set (sr_Outbound res). unwrapped c"
  shows "live (view k (en_state e') (msgs \<union> set (sr_Outbound res)))"
proof -
  have "live_so_far k msgs (st_h (start e))" using assms(1-3) by (simp add: live_so_far_def sound_so_far_def start_def wf_engine_def)
  from live_inv.Step_invariant[OF assms(1,4) this assms(5) refl]
  obtain h where "live_inv.Inv k msgs (en_world e') h" "en_state e' = (tk_State h)\<lparr>ws_Tick := ws_Tick (en_state e) + 1\<rparr>" "sr_Outbound res = tk_Outbound h"
    by auto
  then show ?thesis using assms(6) view_zones[of "(tk_State h)\<lparr>ws_Tick := ws_Tick (en_state e) + 1\<rparr>" "tk_State h" k]
    by (simp add: live_inv.Inv_def live_so_far_def)
qed

end
