(* ===== verification/Sample_Run.thy ===== *)
theory Sample_Run
  imports Engine_Properties
begin

text \<open>
  A run of the simulation for examples: the Engine boots on the sample World, Ann's Character is
  bound in the plaza in tick 1, and in tick 2 she walks east, towards the crypt, and is in transit.
  The states are given field by field, as far as the examples need them.
\<close>

section \<open>A tick of one record\<close>

lemma expireLinkdead_none:
  assumes "\<And>zid eid ent. fmlookup (zs_Entities (zone_of (tk_State h) zid)) eid = Some ent \<Longrightarrow> \<not> Linkdead ent"
  shows "expireLinkdead tick h = h"
proof -
  have "expire_zone tick h zid = h" for zid
  proof -
    have "filter (\<lambda>(_, ent). overdue tick ent) (entries (zs_Entities (zone_of (tk_State h) zid))) = []"
      using assms by (auto simp: filter_empty_conv set_entries overdue_def)
    then show ?thesis unfolding expire_zone_def Let_def by simp
  qed
  then have "foldl (expire_zone tick) h zids = h" for zids by (induction zids) simp_all
  then show ?thesis by (simp add: expireLinkdead_def)
qed

lemma Step_one:
  assumes cmd: "r = \<lparr>rc_Partition = PartitionFor zid, rc_Offset = off, rc_Command = cmd\<rparr>" "lc_ZoneId cmd = zid" "KindOf cmd \<noteq> ''content_swap''"
    and e: "fmlookup (ws_Zones (en_state e)) zid = Some z" "fmlookup (ws_Offsets (en_state e)) (PartitionFor zid) = Some off"
      "FaultedPartitions (en_state e) = []"
    and f: "cfg_Handlers (en_cfg e) (KindOf cmd) = Some f" "f (context_of e (ws_Tick (en_state e) + 1) zid r) cmd (st_h (start e)) = Done h"
    and quiet: "\<And>zid eid ent. fmlookup (zs_Entities (zone_of (tk_State h) zid)) eid = Some ent \<Longrightarrow> \<not> Linkdead ent"
  shows "\<exists>res. Step e [r] = Inr (e\<lparr>en_state := (tk_State h)\<lparr>ws_Offsets := fmupd (PartitionFor zid) (off + 1) (ws_Offsets (tk_State h)),
      ws_Tick := ws_Tick (en_state e) + 1\<rparr>, en_handoffs := tk_handoffs h\<rparr>, res) \<and> sr_Outbound res = tk_Outbound h \<and> sr_Events res = tk_Events h"
proof -
  let ?t = "ws_Tick (en_state e) + 1"
  have "validate_input (en_state e) [r] (parts_of [r]) = None" using e by (simp add: parts_of_def byPart_def cmd(1))
  moreover have "prepareSwaps e (swapRecs [r]) = Inr []" using cmd(3) by (simp add: swapRecs_def parts_of_def byPart_def cmd(1) prepareSwaps_def)
  moreover obtain out where one: "applyOne e ?t zid r (start e) = (True, observe zid r out ((start e)\<lparr>st_h := h\<rparr>))"
    using applyOne_Done[of e r f ?t zid "start e" h] f by (auto simp: start_def cmd(1))
  have "applyRecords e ?t [r] = advance (PartitionFor zid) r (observe zid r out ((start e)\<lparr>st_h := h\<rparr>))"
    using cmd(2,3) e(1) one by (simp add: applyRecords_def parts_of_def byPart_def cmd(1) start_def Let_def)
  then have a: "st_h (applyRecords e ?t [r]) = h\<lparr>tk_State := (tk_State h)\<lparr>ws_Offsets := fmupd (PartitionFor zid) (off + 1) (ws_Offsets (tk_State h))\<rparr>\<rparr>"
    by (simp add: advance_def observe_def cmd(1))
  moreover have "expireLinkdead ?t (st_h (applyRecords e ?t [r])) = st_h (applyRecords e ?t [r])"
    by (rule expireLinkdead_none) (use quiet in \<open>simp add: a\<close>)
  ultimately show ?thesis by (simp add: Step_def run_tick_def Let_def)
qed

section \<open>Boot\<close>

definition sample_templates :: TemplateRegistry where
  "sample_templates = \<lparr>tr_corePack = ''andara.core'', tr_templates = fmap_of_list [(CharacterTemplate,
     \<lparr>tm_Ref = CharacterTemplate, tm_Kind = KindEntity, tm_Chain = [CharacterTemplate], tm_Components = [], tm_Provenance = [],
      tm_File = '''', tm_Source = ''''\<rparr>)], tr_byPack = fmap_of_list [(''andara.core'', [CharacterTemplate])]\<rparr>"

definition boot :: Engine where
  "boot = NewEngine ex_world (Some sample_templates) ex_config"

definition sample_ann :: EntityState where
  "sample_ann = zero_entity\<lparr>en_ID := ''ann'', en_Template := CharacterTemplate,
     en_ContentVersion := ContentVersionOf fmempty (the (Registry_Get (Some sample_templates) CharacterTemplate)), en_Room := ''plaza'', en_Name := ''Ann''\<rparr>"

definition bind_record :: Record where
  "bind_record = ex_record ''town'' 0 (BindCharacter \<lparr>bm_CharacterId = ''ann'', bm_AccountId = ''acc'', bm_Name = ''Ann'',
     bm_SpawnRoomId = ''plaza''\<rparr>)"

definition move_record :: Record where
  "move_record = ex_record ''town'' 1 (Move ''east'')"

definition engine1 :: Engine where
  "engine1 = fst (projr (Step boot [bind_record]))"

definition engine2 :: Engine where
  "engine2 = fst (projr (Step engine1 [move_record]))"

definition sent2 :: "LoggedCommand list" where
  "sent2 = sr_Outbound (snd (projr (Step engine1 [move_record])))"

lemma boot_fields [simp]: "en_world boot = ex_world" "en_templates boot = Some sample_templates" "cfg_Handlers (en_cfg boot) = Handlers"
  "cfg_Content (en_cfg boot) = None" "cfg_MapOrder (en_cfg boot) = (\<lambda>xs. xs)" "en_versions boot = fmempty" "en_handoffs boot = Map.empty"
  "\<not> en_replaying boot" "ws_Tick (en_state boot) = 0" "zone_of (en_state boot) zid = empty_zone zid"
  by (simp_all add: boot_def NewEngine_def ex_config_def Let_def zone_of_New) (simp_all add: NewWorldState_def)

lemma boot_state: "en_state boot = NewWorldState ex_world 1 (sort [PartitionFor ''town'', PartitionFor ''crypt''])"
  by (simp add: boot_def NewEngine_def ex_config_def Let_def)

lemma wf_boot: "wf_engine boot"
  by (simp add: wf_engine_def wf_ex_world boot_state keyed_NewWorldState)

lemma Handlers_bind: "Handlers ''bind_character'' = Some applyBindCharacter" "Handlers ''move'' = Some applyMove"
  by (simp_all add: Handlers_def)

lemma bind_done:
  "applyBindCharacter (context_of boot 1 ''town'' bind_record) (rc_Command bind_record) (st_h (start boot)) =
     Done (bound (GetBindCharacter (rc_Command bind_record)) ''ann'' ''town'' ''plaza'' BindSpawned
       (Emit (context_of boot 1 ''town'' bind_record) (With (ScopeRoom ''town'' ''plaza'') [''ann'']) (arrived ''town'' ''plaza'' ''Ann'')
         (upd_here (context_of boot 1 ''town'' bind_record) (put_entity sample_ann) (st_h (start boot)))))"
proof -
  have "GetBindCharacter (rc_Command bind_record) = \<lparr>bm_CharacterId = ''ann'', bm_AccountId = ''acc'', bm_Name = ''Ann'', bm_SpawnRoomId = ''plaza''\<rparr>"
    "lc_ActorId (rc_Command bind_record) = ''ann''"
    by (simp_all add: bind_record_def ex_record_def GetBindCharacter_def)
  moreover have "Registry_Get (Some sample_templates) CharacterTemplate = Some \<lparr>tm_Ref = CharacterTemplate, tm_Kind = KindEntity,
      tm_Chain = [CharacterTemplate], tm_Components = [], tm_Provenance = [], tm_File = '''', tm_Source = ''''\<rparr>"
    by (simp add: Registry_Get_def sample_templates_def fmap_of_list_simps)
  ultimately show ?thesis
    by (simp add: applyBindCharacter_def Let_def body_of_def entity_here_def here_def elsewhere_def bind_new_def
        find_None_iff[THEN iffD2] list_ex_iff context_of_def start_def empty_zone_def ex_Resolve town_rooms Instantiate_def sample_ann_def
        sortComponents_def zero_entity_def DisplayName_def)
qed

section \<open>Tick 1: Ann enters the plaza\<close>

lemma sample_ann_fields [simp]: "en_ID sample_ann = ''ann''" "en_Room sample_ann = ''plaza''" "Present sample_ann" "\<not> Linkdead sample_ann"
  "en_HandoffSeq sample_ann = 0" "DisplayName sample_ann = ''Ann''"
  by (simp_all add: sample_ann_def zero_entity_def Present_def Linkdead_def DisplayName_def)

lemma boot_offsets: "fmlookup (ws_Offsets (en_state boot)) (PartitionFor ''town'') = Some 0"
  by (simp add: boot_state NewWorldState_def fmap_of_list.rep_eq map_of_map_restrict o_def restrict_map_def)

lemma boot_zones: "fmlookup (ws_Zones (en_state boot)) zid = (if zid |\<in>| fmdom (w_Zones ex_world) then Some (empty_zone zid) else None)"
  by (simp add: boot_state NewWorldState_def fmap_of_list.rep_eq map_of_map_restrict o_def restrict_map_def fmdom'_alt_def)

lemma ex_dom [simp]: "''town'' |\<in>| fmdom (w_Zones ex_world)" "''crypt'' |\<in>| fmdom (w_Zones ex_world)"
  by (simp_all add: ex_world_def)

lemma no_faults: "(\<And>zid. \<not> zs_Faulted (zone_of s zid)) \<Longrightarrow> FaultedPartitions s = []"
  by (simp add: FaultedPartitions_def)

lemma engine1_step:
  obtains res where "Step boot [bind_record] = Inr (engine1, res)" "sr_Outbound res = []"
    "zone_of (en_state engine1) zid = (if zid = ''town'' then put_entity sample_ann (empty_zone ''town'') else empty_zone zid)"
    "fmlookup (ws_Zones (en_state engine1)) ''town'' = Some (put_entity sample_ann (empty_zone ''town''))"
    "fmlookup (ws_Offsets (en_state engine1)) (PartitionFor ''town'') = Some 1" "ws_Tick (en_state engine1) = 1"
    "en_world engine1 = ex_world" "en_cfg engine1 = en_cfg boot" "\<not> en_replaying engine1"
proof -
  let ?a = "context_of boot 1 ''town'' bind_record"
  define h where "h = bound (GetBindCharacter (rc_Command bind_record)) ''ann'' ''town'' ''plaza'' BindSpawned
       (Emit ?a (With (ScopeRoom ''town'' ''plaza'') [''ann'']) (arrived ''town'' ''plaza'' ''Ann'') (upd_here ?a (put_entity sample_ann) (st_h (start boot))))"
  have z: "zone_of (tk_State h) zid = (if zid = ''town'' then put_entity sample_ann (empty_zone ''town'') else empty_zone zid)" for zid
    by (simp add: h_def start_def)
  have "\<exists>res. Step boot [bind_record] = Inr (boot\<lparr>en_state := (tk_State h)\<lparr>ws_Offsets := fmupd (PartitionFor ''town'') (0 + 1) (ws_Offsets (tk_State h)),
      ws_Tick := ws_Tick (en_state boot) + 1\<rparr>, en_handoffs := tk_handoffs h\<rparr>, res) \<and> sr_Outbound res = tk_Outbound h \<and> sr_Events res = tk_Events h"
  proof (rule Step_one)
    show "bind_record = \<lparr>rc_Partition = PartitionFor ''town'', rc_Offset = 0, rc_Command = rc_Command bind_record\<rparr>" by (simp add: bind_record_def ex_record_def)
    show "cfg_Handlers (en_cfg boot) (KindOf (rc_Command bind_record)) = Some applyBindCharacter"
      by (simp add: KindOf_def bind_record_def ex_record_def Handlers_bind)
    show "applyBindCharacter (context_of boot (ws_Tick (en_state boot) + 1) ''town'' bind_record) (rc_Command bind_record) (st_h (start boot)) = Done h"
      using bind_done by (simp add: h_def)
    show "\<not> Linkdead ent" if "fmlookup (zs_Entities (zone_of (tk_State h) zid)) eid = Some ent" for zid eid ent
      using that by (auto simp: z empty_zone_def put_entity_def split: if_splits)
    show "fmlookup (ws_Zones (en_state boot)) ''town'' = Some (empty_zone ''town'')" by (simp add: boot_zones)
  qed (simp_all add: bind_record_def ex_record_def KindOf_def boot_offsets no_faults empty_zone_def)
  then obtain res where s: "Step boot [bind_record] = Inr (boot\<lparr>en_state := (tk_State h)\<lparr>ws_Offsets := fmupd (PartitionFor ''town'') (0 + 1) (ws_Offsets (tk_State h)),
      ws_Tick := ws_Tick (en_state boot) + 1\<rparr>, en_handoffs := tk_handoffs h\<rparr>, res)" "sr_Outbound res = tk_Outbound h" by blast
  have e: "engine1 = boot\<lparr>en_state := (tk_State h)\<lparr>ws_Offsets := fmupd (PartitionFor ''town'') (0 + 1) (ws_Offsets (tk_State h)),
      ws_Tick := ws_Tick (en_state boot) + 1\<rparr>, en_handoffs := tk_handoffs h\<rparr>" using s(1) by (simp add: engine1_def)
  show thesis
    by (rule that[of res]) (use s z in \<open>simp_all add: e h_def start_def zone_of_def boot_zones upd_here_def upd_zone_def bound_def Emit_def emit_def Let_def\<close>)
qed

lemma engine1_fields [simp]:
  "zone_of (en_state engine1) zid = (if zid = ''town'' then put_entity sample_ann (empty_zone ''town'') else empty_zone zid)"
  "fmlookup (ws_Zones (en_state engine1)) ''town'' = Some (put_entity sample_ann (empty_zone ''town''))"
  "fmlookup (ws_Offsets (en_state engine1)) (PartitionFor ''town'') = Some 1" "ws_Tick (en_state engine1) = 1"
  "en_world engine1 = ex_world" "en_cfg engine1 = en_cfg boot" "\<not> en_replaying engine1"
  by (rule engine1_step[of zid], assumption)+

section \<open>Tick 2: Ann walks east\<close>

definition sample_transit :: TransitRecord where
  "sample_transit = departure sample_ann \<lparr>rr_Zone = ''crypt'', rr_Room = ''hall''\<rparr> ''east''"

definition sample_arrive :: LoggedCommand where
  "sample_arrive = (ex_cmd ''crypt'' ''ann'' (Arrive (arriveFor ''town'' sample_transit)))"

lemma move_done:
  obtains h where "applyMove (context_of engine1 2 ''town'' move_record) (rc_Command move_record) (st_h (start engine1)) = Done h"
    "\<And>zid. zone_of (tk_State h) zid = (if zid = ''town'' then setTransit sample_transit (empty_zone ''town'') else empty_zone zid)"
    "tk_Outbound h = [sample_arrive]"
proof -
  let ?a = "context_of engine1 2 ''town'' move_record" and ?h = "st_h (start engine1)" and ?c = "rc_Command move_record"
  let ?to = "\<lparr>rr_Zone = ''crypt'', rr_Room = ''hall''\<rparr>"
  have c: "lc_ActorId ?c = ''ann''" "lc_Command ?c = Move ''east''" by (simp_all add: move_record_def ex_record_def)
  have l: "locate ?a ?c ?h = Inr (sample_ann, ex_room ''plaza'' [ex_exit ''north'' ''town'' ''gate'' False, ex_exit ''east'' ''crypt'' ''hall'' True])"
    using c by (simp add: locate_def here_def entity_here_def start_def ex_Resolve town_rooms empty_zone_def)
  have "validateMove ?a ?c ?h = Inr (sample_ann, ex_room ''plaza'' [ex_exit ''north'' ''town'' ''gate'' False, ex_exit ''east'' ''crypt'' ''hall'' True],
      ex_exit ''east'' ''crypt'' ''hall'' True)"
    using c by (simp add: validateMove_def l Let_def GetDirection_def)
  then have d: "applyMove ?a ?c ?h = Done (depart ?a ?c sample_ann ?to ''east''
      (Emit ?a (With (ScopeRoom ''town'' ''plaza'') [''ann'']) (PCharacterLeft ''town'' ''plaza'' ''Ann'' ''east'') ?h))"
    by (simp add: applyMove_def Let_def)
  have "fmdrop ''ann'' (fmupd ''ann'' sample_ann fmempty) = fmempty" by (rule fmap_ext) simp
  then show thesis
    by (intro that[OF d]) (auto simp: depart_def Let_def noteHandoff_def start_def sample_transit_def departure_def sample_arrive_def
        move_record_def ex_record_def ex_cmd_def del_entity_def put_entity_def empty_zone_def)
qed

lemma engine2_step:
  obtains res where "Step engine1 [move_record] = Inr (engine2, res)" "sr_Outbound res = [sample_arrive]" "sent2 = [sample_arrive]"
    "zone_of (en_state engine2) zid = (if zid = ''town'' then setTransit sample_transit (empty_zone ''town'') else empty_zone zid)"
    "en_world engine2 = ex_world" "en_cfg engine2 = en_cfg boot"
proof -
  obtain h where d: "applyMove (context_of engine1 2 ''town'' move_record) (rc_Command move_record) (st_h (start engine1)) = Done h"
    and z: "\<And>zid. zone_of (tk_State h) zid = (if zid = ''town'' then setTransit sample_transit (empty_zone ''town'') else empty_zone zid)"
    and o: "tk_Outbound h = [sample_arrive]" by (rule move_done) blast
  have "\<exists>res. Step engine1 [move_record] = Inr (engine1\<lparr>en_state := (tk_State h)\<lparr>ws_Offsets := fmupd (PartitionFor ''town'') (1 + 1) (ws_Offsets (tk_State h)),
      ws_Tick := ws_Tick (en_state engine1) + 1\<rparr>, en_handoffs := tk_handoffs h\<rparr>, res) \<and> sr_Outbound res = tk_Outbound h \<and> sr_Events res = tk_Events h"
  proof (rule Step_one)
    show "move_record = \<lparr>rc_Partition = PartitionFor ''town'', rc_Offset = 1, rc_Command = rc_Command move_record\<rparr>" by (simp add: move_record_def ex_record_def)
    show "cfg_Handlers (en_cfg engine1) (KindOf (rc_Command move_record)) = Some applyMove"
      by (simp add: KindOf_def move_record_def ex_record_def Handlers_bind)
    show "applyMove (context_of engine1 (ws_Tick (en_state engine1) + 1) ''town'' move_record) (rc_Command move_record) (st_h (start engine1)) = Done h"
      using d by simp
    show "\<not> Linkdead ent" if "fmlookup (zs_Entities (zone_of (tk_State h) zid)) eid = Some ent" for zid eid ent
      using that by (auto simp: z empty_zone_def setTransit_def split: if_splits)
    show "fmlookup (ws_Zones (en_state engine1)) ''town'' = Some (put_entity sample_ann (empty_zone ''town''))" by simp
  qed (simp_all add: move_record_def ex_record_def KindOf_def no_faults empty_zone_def)
  then obtain res where s: "Step engine1 [move_record] = Inr (engine1\<lparr>en_state := (tk_State h)\<lparr>ws_Offsets := fmupd (PartitionFor ''town'') (1 + 1) (ws_Offsets (tk_State h)),
      ws_Tick := ws_Tick (en_state engine1) + 1\<rparr>, en_handoffs := tk_handoffs h\<rparr>, res)" "sr_Outbound res = tk_Outbound h" by blast
  have e: "engine2 = engine1\<lparr>en_state := (tk_State h)\<lparr>ws_Offsets := fmupd (PartitionFor ''town'') (1 + 1) (ws_Offsets (tk_State h)),
      ws_Tick := ws_Tick (en_state engine1) + 1\<rparr>, en_handoffs := tk_handoffs h\<rparr>" using s by (simp add: engine2_def)
  show thesis by (rule that[of res]) (use s z o in \<open>simp_all add: e sent2_def\<close>)
qed

lemma engine2_fields [simp]:
  "zone_of (en_state engine2) zid = (if zid = ''town'' then setTransit sample_transit (empty_zone ''town'') else empty_zone zid)"
  "en_world engine2 = ex_world" "en_cfg engine2 = en_cfg boot" "sent2 = [sample_arrive]"
  by (rule engine2_step[of zid], assumption)+

end
