(* ===== verification/Retry.thy ===== *)
theory Retry
  imports Sample_Run "HOL-Library.Product_Lexorder"
begin

text \<open>
  The handoff retry pass (\<^verbatim>\<open>server/sim/handoff.go\<close>): which Arrives are sent again and when, and the
  simulation as a system of ticks and retry passes over an unordered, duplicating log, in which the
  handoff protocol's promises hold of every reachable state.

  The number of attempts is a Go \<^verbatim>\<open>int\<close>, here a natural number; ticks are 64-bit and wrap.
\<close>

section \<open>The schedule\<close>

definition retryTicks :: "Config \<Rightarrow> u64" where
  "retryTicks cfg = (if cfg_HandoffRetryTicks cfg > 0 then cfg_HandoffRetryTicks cfg else 10)"

definition retryMaxTicks :: "Config \<Rightarrow> u64" where
  "retryMaxTicks cfg = (if cfg_HandoffRetryMaxTicks cfg > 0 then cfg_HandoffRetryMaxTicks cfg else 100)"

definition retryBatch :: "Config \<Rightarrow> int" where
  "retryBatch cfg = (if cfg_HandoffRetryBatch cfg > 0 then cfg_HandoffRetryBatch cfg else 50)"

definition maxBackoffShift :: nat where
  "maxBackoffShift = 16"

definition retryInterval :: "Config \<Rightarrow> nat \<Rightarrow> u64" where
  "retryInterval cfg attempts =
     (let first = retryTicks cfg;
          longest = (if retryMaxTicks cfg < first then first else retryMaxTicks cfg);
          shift = attempts - 1;
          shift' = (if shift > maxBackoffShift then maxBackoffShift else shift);
          interval = push_bit shift' first
      in if interval > longest \<or> interval < first then longest else interval)"

record due =
  du_at :: u64
  du_rec :: TransitRecord
  du_zid :: ZoneID

record HandoffRetry =
  hr_Command :: LoggedCommand
  hr_Entity :: EntityID
  hr_From :: ZoneID
  hr_To :: ZoneID
  hr_Seq :: u64
  hr_Attempt :: nat

definition due_record :: "Engine \<Rightarrow> u64 \<Rightarrow> ZoneID \<Rightarrow> EntityID \<times> TransitRecord \<Rightarrow> due list" where
  "due_record e tick zid ir = (case ir of (eid, rec) \<Rightarrow>
     (case en_handoffs e (eid, en_HandoffSeq (tx_Entity rec)) of
        Some s \<Rightarrow> let at = hs_last s + retryInterval (en_cfg e) (hs_attempts s) in
          if tick < at then [] else [\<lparr>du_at = at, du_rec = rec, du_zid = zid\<rparr>]
      | None \<Rightarrow> [\<lparr>du_at = 0, du_rec = rec, du_zid = zid\<rparr>]))"

definition frozen :: "WorldState \<Rightarrow> ZoneID \<Rightarrow> bool" where
  "frozen s zid \<longleftrightarrow> zs_Faulted (zone_of s zid) \<or> PartitionFor zid \<in> set (FaultedPartitions s)"

definition dues :: "Engine \<Rightarrow> u64 \<Rightarrow> due list" where
  "dues e tick = concat (map (\<lambda>zid. if frozen (en_state e) zid then []
     else concat (map (due_record e tick zid) (entries (zs_Transit (zone_of (en_state e) zid))))) (SortedZoneIDs (en_state e)))"

definition due_key :: "due \<Rightarrow> u64 \<times> EntityID \<times> ZoneID" where
  "due_key d = (du_at d, en_ID (tx_Entity (du_rec d)), du_zid d)"

definition retry_of :: "due \<Rightarrow> nat \<Rightarrow> HandoffRetry" where
  "retry_of d attempt =
     (let rec = du_rec d; ent = tx_Entity rec in
      \<lparr>hr_Command = \<lparr>lc_ZoneId = tx_To rec, lc_ActorId = en_ID ent, lc_SessionId = '''', lc_ClientRef = '''', lc_TraceId = '''',
         lc_AcceptedAtUnixNano = 0, lc_Command = Arrive (arriveFor (du_zid d) rec)\<rparr>,
       hr_Entity = en_ID ent, hr_From = du_zid d, hr_To = tx_To rec, hr_Seq = en_HandoffSeq ent, hr_Attempt = attempt\<rparr>)"

definition resend :: "u64 \<Rightarrow> Engine \<times> HandoffRetry list \<Rightarrow> due \<Rightarrow> Engine \<times> HandoffRetry list" where
  "resend tick eo d = (case eo of (e, out) \<Rightarrow>
     let key = (en_ID (tx_Entity (du_rec d)), en_HandoffSeq (tx_Entity (du_rec d)));
         attempt = (case en_handoffs e key of Some s \<Rightarrow> Suc (hs_attempts s) | None \<Rightarrow> 1)
     in (e\<lparr>en_handoffs := (en_handoffs e)(key \<mapsto> \<lparr>hs_attempts = attempt, hs_last = tick\<rparr>)\<rparr>, out @ [retry_of d attempt]))"

definition DueHandoffs :: "Engine \<Rightarrow> u64 \<Rightarrow> Engine \<times> HandoffRetry list" where
  "DueHandoffs e tick = foldl (resend tick) (e, []) (take (nat (retryBatch (en_cfg e))) (sort_key due_key (dues e tick)))"

definition HandoffsInTransit :: "WorldState \<Rightarrow> nat" where
  "HandoffsInTransit s = sum_list (map (\<lambda>zid. length (keys (zs_Transit (zone_of s zid)))) (keys (ws_Zones s)))"

definition HandoffPlacedEntries :: "WorldState \<Rightarrow> nat" where
  "HandoffPlacedEntries s = sum_list (map (\<lambda>zid. length (keys (zs_Placed (zone_of s zid)))) (keys (ws_Zones s)))"

section \<open>Backoff\<close>

lemma retryTicks_pos: "0 < retryTicks cfg" "0 < retryMaxTicks cfg" "0 < retryBatch cfg"
  by (simp_all add: retryTicks_def retryMaxTicks_def retryBatch_def)

text \<open>
  C36. The backoff is exact. Whatever the number of attempts and however the shift overflows, the wait is
  never zero, never shorter than the first interval and never longer than the larger of the first
  interval and the configured maximum. For every first interval below \<^verbatim>\<open>2^48\<close> ticks, where the shift
  cannot overflow, it is the first interval doubled once for each attempt after the first but at most 16
  times, cut off at that longest wait: a maximum above \<^verbatim>\<open>2^16\<close> times the first interval is never reached.
\<close>
theorem retryInterval_bounds:
  "0 < retryInterval cfg n \<and> retryTicks cfg \<le> retryInterval cfg n \<and> retryInterval cfg n \<le> max (retryTicks cfg) (retryMaxTicks cfg)
   \<and> (unat (retryTicks cfg) < 2 ^ 48
       \<longrightarrow> unat (retryInterval cfg n) = min (unat (retryTicks cfg) * 2 ^ min (n - 1) 16) (unat (max (retryTicks cfg) (retryMaxTicks cfg))))"
proof -
  define first where "first = retryTicks cfg"
  define longest where "longest = (if retryMaxTicks cfg < first then first else retryMaxTicks cfg)"
  define iv where "iv = push_bit (min (n - 1) 16) first"
  have "(if n - 1 > maxBackoffShift then maxBackoffShift else n - 1) = min (n - 1) 16" by (simp add: maxBackoffShift_def min_def)
  then have r: "retryInterval cfg n = (if iv > longest \<or> iv < first then longest else iv)"
    by (simp only: retryInterval_def Let_def first_def longest_def iv_def)
  have f: "0 < first" "first \<le> longest" by (auto simp: first_def longest_def retryTicks_pos not_less)
  have lm: "longest = max first (retryMaxTicks cfg)" by (auto simp: longest_def max_def)
  have bounds: "first \<le> retryInterval cfg n \<and> retryInterval cfg n \<le> longest"
    unfolding r using f by (auto simp: not_less)
  moreover have "unat (retryInterval cfg n) = min (unat first * 2 ^ min (n - 1) 16) (unat longest)" if small: "unat first < 2 ^ 48"
  proof -
    let ?m = "unat first * 2 ^ min (n - 1) 16"
    have "iv = word_of_nat ?m" by (simp add: iv_def push_bit_eq_mult)
    then have "unat iv = ?m mod 2 ^ 64" by (simp only: unsigned_of_nat take_bit_eq_mod) simp
    moreover have "?m < 2 ^ 48 * 2 ^ 16" by (rule mult_less_le_imp_less[OF small]) (rule power_increasing, simp_all)
    ultimately have u: "unat iv = ?m" by simp
    have "unat first \<le> ?m" by simp
    then have "\<not> iv < first" using u by (simp add: word_less_nat_alt)
    then show ?thesis unfolding r using u by (auto simp: word_less_nat_alt min_def)
  qed
  ultimately show ?thesis using f by (auto simp: first_def[symmetric] lm)
qed

theorem retryInterval_bounds_witness:
  "unat (retryInterval ex_config 3) = 40 \<and> unat (retryInterval ex_config 40) = 100"
  using retryInterval_bounds[of ex_config 3] retryInterval_bounds[of ex_config 40]
  by (simp add: ex_config_def retryTicks_def retryMaxTicks_def)

section \<open>What a retry pass sends\<close>

definition sends :: "HandoffRetry list \<Rightarrow> LoggedCommand set" where
  "sends out = hr_Command ` set out"

lemma set_dues: "d \<in> set (dues e tick) \<longleftrightarrow> (\<exists>zid eid rec. zid |\<in>| fmdom (ws_Zones (en_state e)) \<and> \<not> frozen (en_state e) zid
    \<and> fmlookup (zs_Transit (zone_of (en_state e) zid)) eid = Some rec \<and> d \<in> set (due_record e tick zid (eid, rec)))"
  by (force simp: dues_def SortedZoneIDs_def set_entries fmdom'_alt_def)

lemma due_record_fields: "d \<in> set (due_record e tick zid (eid, rec)) \<Longrightarrow> du_rec d = rec \<and> du_zid d = zid"
  by (auto simp: due_record_def Let_def split: option.splits if_splits)

definition same_but_schedule :: "Engine \<Rightarrow> Engine \<Rightarrow> bool" where
  "same_but_schedule e e' \<longleftrightarrow> en_state e' = en_state e \<and> en_world e' = en_world e \<and> en_cfg e' = en_cfg e \<and> en_templates e' = en_templates e
     \<and> en_versions e' = en_versions e \<and> en_digest e' = en_digest e \<and> en_replaying e' = en_replaying e"

lemma foldl_resend:
  "same_but_schedule e (fst (foldl (resend tick) (e, out) ds))
   \<and> (\<exists>att. snd (foldl (resend tick) (e, out) ds) = out @ map (\<lambda>(d, n). retry_of d n) (zip ds att) \<and> length att = length ds)"
proof (induction ds arbitrary: e out)
  case (Cons d ds)
  obtain e1 n where r: "resend tick (e, out) d = (e1, out @ [retry_of d n])" and e1: "same_but_schedule e e1"
    by (simp add: resend_def Let_def same_but_schedule_def)
  obtain att where "snd (foldl (resend tick) (e1, out @ [retry_of d n]) ds) = (out @ [retry_of d n]) @ map (\<lambda>(d, n). retry_of d n) (zip ds att)"
    "length att = length ds" and "same_but_schedule e1 (fst (foldl (resend tick) (e1, out @ [retry_of d n]) ds))" using Cons.IH by blast
  then show ?case using e1 by (intro conjI exI[of _ "n # att"]) (simp_all add: r same_but_schedule_def)
qed (simp add: same_but_schedule_def)

lemma DueHandoffs_frame: "same_but_schedule e (fst (DueHandoffs e tick))"
  unfolding DueHandoffs_def using foldl_resend by blast

lemma DueHandoffs_map:
  obtains att where "snd (DueHandoffs e tick) = map (\<lambda>(d, n). retry_of d n) (zip (take (nat (retryBatch (en_cfg e))) (sort_key due_key (dues e tick))) att)"
    "length att = length (take (nat (retryBatch (en_cfg e))) (sort_key due_key (dues e tick)))"
  using foldl_resend[of e tick "[]" "take (nat (retryBatch (en_cfg e))) (sort_key due_key (dues e tick))"]
  by (auto simp: DueHandoffs_def)

lemma sends_DueHandoffs:
  "sends (snd (DueHandoffs e tick)) = (\<lambda>d. hr_Command (retry_of d 0)) ` set (take (nat (retryBatch (en_cfg e))) (sort_key due_key (dues e tick)))"
proof -
  obtain att where a: "snd (DueHandoffs e tick) = map (\<lambda>(d, n). retry_of d n) (zip (take (nat (retryBatch (en_cfg e))) (sort_key due_key (dues e tick))) att)"
    "length att = length (take (nat (retryBatch (en_cfg e))) (sort_key due_key (dues e tick)))" by (rule DueHandoffs_map)
  have "hr_Command ` (\<lambda>(d, n). retry_of d n) ` set (zip ds att) = (\<lambda>d. hr_Command (retry_of d 0)) ` set ds"
    if "length att = length ds" for ds
  proof -
    have "(\<lambda>x. hr_Command (case x of (d, n) \<Rightarrow> retry_of d n)) = (\<lambda>x. hr_Command (retry_of (fst x) 0))"
      by (auto simp: fun_eq_iff retry_of_def Let_def)
    then have "hr_Command ` (\<lambda>(d, n). retry_of d n) ` set (zip ds att) = (\<lambda>d. hr_Command (retry_of d 0)) ` fst ` set (zip ds att)"
      unfolding image_image by (simp only:)
    then show ?thesis using that by (metis list.set_map map_fst_zip)
  qed
  then show ?thesis using a by (simp add: sends_def)
qed

lemma sends_in_transit:
  assumes "c \<in> sends (snd (DueHandoffs e tick))"
  obtains zid eid rec where "\<not> frozen (en_state e) zid" "fmlookup (zs_Transit (zone_of (en_state e) zid)) eid = Some rec"
    "lc_ZoneId c = tx_To rec" "lc_Command c = Arrive (arriveFor zid rec)"
proof -
  obtain d where d: "d \<in> set (dues e tick)" "c = hr_Command (retry_of d 0)"
    using assms set_take_subset[of "nat (retryBatch (en_cfg e))" "sort_key due_key (dues e tick)"] by (auto simp: sends_DueHandoffs)
  obtain zid eid rec where z: "\<not> frozen (en_state e) zid" "fmlookup (zs_Transit (zone_of (en_state e) zid)) eid = Some rec"
    "d \<in> set (due_record e tick zid (eid, rec))" using d(1) by (auto simp: set_dues)
  show thesis using that[OF z(1,2)] due_record_fields[OF z(3)] d(2) by (simp add: retry_of_def Let_def)
qed

section \<open>The running simulation\<close>

text \<open>
  A state of the running system is the Engine and every handoff message sent so far. Ticks deliver
  records in any order and as often as they like, the handoff messages among them being ones that
  were sent; the retry pass sends more; a restart loses the retry schedule. \<open>moves\<close> carries the
  records a move consumes.
\<close>

inductive moves :: "Record list \<Rightarrow> Engine \<times> LoggedCommand set \<Rightarrow> Engine \<times> LoggedCommand set \<Rightarrow> bool" where
  tick: "\<forall>r \<in> set records. sent msgs (rc_Command r) \<Longrightarrow> Step e records = Inr (e', res) \<Longrightarrow> \<forall>c \<in> set (sr_Outbound res). unwrapped c \<Longrightarrow>
    moves records (e, msgs) (e', msgs \<union> set (sr_Outbound res))"
| retry: "DueHandoffs e t = (e', out) \<Longrightarrow> moves [] (e, msgs) (e', msgs \<union> sends out)"
| restart: "moves [] (e, msgs) (e\<lparr>en_handoffs := Map.empty\<rparr>, msgs)"

inductive runs :: "Record list \<Rightarrow> Engine \<times> LoggedCommand set \<Rightarrow> Engine \<times> LoggedCommand set \<Rightarrow> bool" where
  stay: "runs [] x x"
| move: "runs rs x y \<Longrightarrow> moves rs' y z \<Longrightarrow> runs (rs @ rs') x z"

definition boots :: "Engine \<Rightarrow> bool" where
  "boots e \<longleftrightarrow> wf_engine e \<and> (\<exists>w templates cfg. e = NewEngine w templates cfg)"

definition reachable :: "Engine \<times> LoggedCommand set \<Rightarrow> bool" where
  "reachable x \<longleftrightarrow> (\<exists>e rs. boots e \<and> runs rs (e, {}) x)"

lemma resend_keep:
  assumes "keyed_state s" "fmlookup (zs_Transit (zone_of s zid)) eid = Some rec" "lc_ZoneId c = tx_To rec" "lc_Command c = Arrive (arriveFor zid rec)"
  shows "pkeep (view k s msgs) (view k s (insert c msgs))"
proof -
  have id: "en_ID (tx_Entity rec) = eid" using keyed_zone_of[OF assms(1), of zid] assms(2) by (auto simp: keyed_zone_def fmpred_iff)
  have a: "ack_of k c = {}" "arrive_of k c = (if eid = k then {(unat (en_HandoffSeq (tx_Entity rec)), tx_To rec, zid, contents (tx_Entity rec))} else {})"
    using assms(3,4) id by (simp_all add: ack_of_def arrive_of_def arriveFor_def contents_def Entity_Proto_def)
  show ?thesis
  proof (cases "eid = k")
    case True
    then have "pr_transit (view k s msgs) zid = Some (unat (en_HandoffSeq (tx_Entity rec)), tx_To rec, contents (tx_Entity rec))"
      using assms(2) by (simp add: view_transit_def)
    from pkeep.Resend[OF this] show ?thesis using a True by (simp add: view_def)
  next
    case False
    then show ?thesis using a pkeep.Idle by (simp add: view_def)
  qed
qed

lemma sends_sound:
  assumes "wf_engine e" "sound (en_state e) msgs" "finite F" "F \<subseteq> sends (snd (DueHandoffs e t))"
  shows "sound (en_state e) (msgs \<union> F) \<and> (live (view k (en_state e) msgs) \<longrightarrow> live (view k (en_state e) (msgs \<union> F)))"
  using assms(3,4)
proof (induction F rule: finite_induct)
  case (insert c F)
  have "c \<in> sends (snd (DueHandoffs e t))" using insert.prems by simp
  then obtain zid eid rec where "fmlookup (zs_Transit (zone_of (en_state e) zid)) eid = Some rec" "lc_ZoneId c = tx_To rec"
    "lc_Command c = Arrive (arriveFor zid rec)" by (rule sends_in_transit)
  then have keep: "pkeep (view k' (en_state e) (msgs \<union> F)) (view k' (en_state e) (insert c (msgs \<union> F)))" for k'
    using assms(1) by (intro resend_keep) (simp_all add: wf_engine_def)
  have IH: "sound (en_state e) (msgs \<union> F)" "live (view k (en_state e) msgs) \<longrightarrow> live (view k (en_state e) (msgs \<union> F))"
    using insert.IH insert.prems by simp_all
  have "sound (en_state e) (insert c (msgs \<union> F))" using soundI[OF IH(1) pstep.Keep[OF keep]] .
  moreover have "live (view k (en_state e) (insert c (msgs \<union> F)))" if "live (view k (en_state e) msgs)"
    using live_pkeep[OF keep] IH that unfolding sound_def by blast
  ultimately show ?case by simp
qed (use assms(2) in simp)

lemma finite_sends: "finite (sends out)"
  by (simp add: sends_def)

definition sound_system :: "Engine \<times> LoggedCommand set \<Rightarrow> bool" where
  "sound_system x \<longleftrightarrow> wf_engine (fst x) \<and> sound (en_state (fst x)) (snd x)"

lemma moves_sound: "moves rs x y \<Longrightarrow> sound_system x \<Longrightarrow> sound_system y"
proof (induction rule: moves.induct)
  case (tick records msgs e e' res)
  then show ?case using wf_engine_Step Step_sound by (simp add: sound_system_def) blast
next
  case (retry e t e' out msgs)
  have "same_but_schedule e e'" using DueHandoffs_frame[of e t] retry.hyps by simp
  moreover from this have "wf_engine e'" using retry.prems by (simp add: wf_engine_def same_but_schedule_def sound_system_def)
  moreover have "sound (en_state e) (msgs \<union> sends out)"
    using sends_sound[of e msgs "sends out" t] retry by (simp add: sound_system_def finite_sends)
  ultimately show ?case by (simp add: same_but_schedule_def sound_system_def)
next
  case (restart e msgs)
  then show ?case by (simp add: sound_system_def wf_engine_def)
qed

lemma runs_sound: "runs rs x y \<Longrightarrow> sound_system x \<Longrightarrow> sound_system y"
  by (induction rule: runs.induct) (simp_all add: moves_sound)

lemma zone_of_NewWorldState: "zone_of (NewWorldState w seed ps) zid = empty_zone zid"
  using zone_of_New by simp

lemma boots_sound: "boots e \<Longrightarrow> sound_system (e, {})"
proof -
  assume b: "boots e"
  then obtain w seed ps where "en_state e = NewWorldState w seed ps" by (auto simp: boots_def NewEngine_def Let_def)
  then have "view eid (en_state e) {} = \<lparr>pr_body = Map.empty, pr_transit = Map.empty, pr_mark = (\<lambda>_. 0), pr_arrives = {}, pr_acks = {}\<rparr>" for eid
    by (simp add: view_def zone_of_NewWorldState view_body_def view_transit_def view_mark_def mark_of_def empty_zone_def)
  moreover have "good \<lparr>pr_body = Map.empty, pr_transit = Map.empty, pr_mark = (\<lambda>_. 0), pr_arrives = {}, pr_acks = {}\<rparr> 0 (\<lambda>_. undefined)"
    by (simp add: good_def routed_def gone_def)
  ultimately show ?thesis using b by (auto simp: sound_system_def sound_def handoff_inv_def boots_def)
qed

lemma reachable_sound: "reachable x \<Longrightarrow> sound_system x"
  using boots_sound runs_sound unfolding reachable_def by blast

lemma moves_live:
  "moves rs x y \<Longrightarrow> sound_system x \<Longrightarrow> live (view k (en_state (fst x)) (snd x)) \<Longrightarrow> \<forall>r \<in> set rs. purge_target (rc_Command r) \<noteq> Some k \<Longrightarrow>
   live (view k (en_state (fst y)) (snd y))"
proof (induction rule: moves.induct)
  case (tick records msgs e e' res)
  then show ?case using Step_live[of e msgs k records e' res] by (simp add: sound_system_def kept_alive_def)
next
  case (retry e t e' out msgs)
  have "same_but_schedule e e'" using DueHandoffs_frame[of e t] retry.hyps by simp
  moreover have "live (view k (en_state e) (msgs \<union> sends out))"
    using sends_sound[of e msgs "sends out" t k] retry by (simp add: sound_system_def finite_sends)
  ultimately show ?case by (simp add: same_but_schedule_def)
qed simp

lemma runs_live:
  "runs rs x y \<Longrightarrow> sound_system x \<Longrightarrow> live (view k (en_state (fst x)) (snd x)) \<Longrightarrow> \<forall>r \<in> set rs. purge_target (rc_Command r) \<noteq> Some k \<Longrightarrow>
   live (view k (en_state (fst y)) (snd y))"
proof (induction rule: runs.induct)
  case (move rs x y rs' z)
  then show ?case using moves_live[OF move.hyps(2), of k] runs_sound[OF move.hyps(1)] by simp
qed simp

section \<open>Where a body is\<close>

definition body_in :: "WorldState \<Rightarrow> ZoneID \<Rightarrow> EntityID \<Rightarrow> bool" where
  "body_in s zid eid \<longleftrightarrow> fmlookup (zs_Entities (zone_of s zid)) eid \<noteq> None"

text \<open>On its way: a transit record whose handoff the Zone it names has not placed.\<close>

definition in_flight :: "WorldState \<Rightarrow> ZoneID \<Rightarrow> EntityID \<Rightarrow> bool" where
  "in_flight s zid eid \<longleftrightarrow> (case fmlookup (zs_Transit (zone_of s zid)) eid of None \<Rightarrow> False
     | Some rec \<Rightarrow> pm_Seq (mark_of (zone_of s (tx_To rec)) eid) < en_HandoffSeq (tx_Entity rec))"

lemma body_in_view: "body_in s zid eid \<longleftrightarrow> pr_body (view eid s msgs) zid \<noteq> None"
  by (simp add: body_in_def view_body_def)

lemma in_flight_view: "in_flight s zid eid \<longleftrightarrow> deliverable (view eid s msgs) zid"
  by (auto simp: in_flight_def deliverable_def view_transit_def view_mark_def word_less_nat_alt split: option.splits)
    (metis prod_cases4)

lemma live_view: "live (view eid s msgs) \<longleftrightarrow> (\<exists>zid. body_in s zid eid) \<or> (\<exists>zid. in_flight s zid eid)"
  by (simp add: live_def body_in_view[of s _ eid msgs] in_flight_view[of s _ eid msgs])

lemma reachable_inv: "reachable (e, msgs) \<Longrightarrow> handoff_inv (view eid (en_state e) msgs)"
  using reachable_sound[of "(e, msgs)"] by (simp add: sound_system_def sound_def)

text \<open>The sample run reaches a state with Ann in the plaza, and one with Ann between the Zones.\<close>

lemma sample_reachable: "reachable (boot, {})" "reachable (engine1, {})" "reachable (engine2, {sample_arrive})"
  and sample_runs: "runs [move_record] (engine1, {}) (engine2, {sample_arrive})"
  and sample_moves: "moves [bind_record] (boot, {}) (engine1, {})" "moves [move_record] (engine1, {}) (engine2, {sample_arrive})"
  and boots_boot: "boots boot"
proof -
  show b: "boots boot" using wf_boot by (auto simp: boots_def boot_def)
  obtain res where 1: "Step boot [bind_record] = Inr (engine1, res)" "sr_Outbound res = []" by (rule engine1_step)
  have m1: "moves [bind_record] (boot, {}) (engine1, {} \<union> set (sr_Outbound res))"
    by (rule moves.tick[OF _ 1(1)]) (simp_all add: 1(2) sent_def quiet_def bind_record_def ex_record_def)
  then show "moves [bind_record] (boot, {}) (engine1, {})" by (simp add: 1(2))
  from runs.move[OF runs.stay m1] have r1: "runs [bind_record] (boot, {}) (engine1, {})" by (simp add: 1(2))
  obtain res2 where 2: "Step engine1 [move_record] = Inr (engine2, res2)" "sr_Outbound res2 = [sample_arrive]" by (rule engine2_step)
  have m: "moves [move_record] (engine1, {}) (engine2, {} \<union> set (sr_Outbound res2))"
    by (rule moves.tick[OF _ 2(1)]) (simp_all add: 2(2) sent_def quiet_def move_record_def ex_record_def unwrapped_def sample_arrive_def
        arriveFor_def sample_transit_def departure_def)
  then show "moves [move_record] (engine1, {}) (engine2, {sample_arrive})" by (simp add: 2(2))
  from runs.move[OF runs.stay m] show "runs [move_record] (engine1, {}) (engine2, {sample_arrive})" by (simp add: 2(2))
  from runs.move[OF r1 m] have "runs [bind_record, move_record] (boot, {}) (engine2, {sample_arrive})" by (simp add: 2(2))
  with b r1 show "reachable (boot, {})" "reachable (engine1, {})" "reachable (engine2, {sample_arrive})"
    unfolding reachable_def by (blast intro: runs.stay)+
qed

lemma sample_transit_fields [simp]: "tx_To sample_transit = ''crypt''" "en_ID (tx_Entity sample_transit) = ''ann''"
  "en_HandoffSeq (tx_Entity sample_transit) = 1"
  by (simp_all add: sample_transit_def departure_def)

lemma sample_where: "body_in (en_state engine1) ''town'' ''ann''" "in_flight (en_state engine2) ''town'' ''ann''"
  "fmlookup (zs_Transit (zone_of (en_state engine2) ''town'')) ''ann'' = Some sample_transit"
  by (simp_all add: body_in_def in_flight_def mark_of_def empty_zone_def)

text \<open>
  C1. Exactly-once presence: in every state the running system reaches, whatever was lost, repeated,
  delayed or reordered on the way, an Entity has at most one body in all Zones, at most one handoff
  under way, and never both.
\<close>
theorem handoff_one_body:
  assumes "reachable (e, msgs)"
  shows "(body_in (en_state e) z1 eid \<and> body_in (en_state e) z2 eid \<longrightarrow> z1 = z2)
     \<and> (in_flight (en_state e) z1 eid \<and> in_flight (en_state e) z2 eid \<longrightarrow> z1 = z2)
     \<and> \<not> (body_in (en_state e) z1 eid \<and> in_flight (en_state e) z2 eid)"
  using one_body[OF reachable_inv[OF assms], of eid z1 z2] body_or_flight[OF reachable_inv[OF assms], of eid]
  unfolding body_in_view[of _ _ eid msgs] in_flight_view[of _ _ eid msgs] by blast

theorem handoff_one_body_witness: "in_flight (en_state engine2) ''town'' ''ann'' \<and> \<not> body_in (en_state engine2) ''crypt'' ''ann''"
  using handoff_one_body[OF sample_reachable(3), of "''crypt''" "''ann''" "''town''"] sample_where(2) by blast

text \<open>
  C2. No body is lost: an Entity that has a body, or is on its way to one, still has or is after any
  number of ticks, retry passes and restarts, unless a consumed record purges it.
\<close>
theorem handoff_never_loses:
  assumes "reachable (e, msgs)" "body_in (en_state e) z eid \<or> in_flight (en_state e) z eid" "runs rs (e, msgs) (e', msgs')"
    and "\<forall>r \<in> set rs. purge_target (rc_Command r) \<noteq> Some eid"
  shows "\<exists>z'. body_in (en_state e') z' eid \<or> in_flight (en_state e') z' eid"
proof -
  have "live (view eid (en_state e) msgs)" using assms(2) live_view by blast
  then have "live (view eid (en_state e') msgs')" using runs_live[OF assms(3) reachable_sound[OF assms(1)] _ assms(4)] by simp
  then show ?thesis using live_view by blast
qed

theorem handoff_never_loses_witness:
  "body_in (en_state engine1) ''town'' ''ann'' \<and> (\<exists>z. body_in (en_state engine2) z ''ann'' \<or> in_flight (en_state engine2) z ''ann'')"
proof -
  have "\<forall>r \<in> set [move_record]. purge_target (rc_Command r) \<noteq> Some ''ann''" by (simp add: move_record_def ex_record_def purge_target_def)
  from handoff_never_loses[OF sample_reachable(2) _ sample_runs this, of "''town''"] sample_where(1) show ?thesis by blast
qed

section \<open>Delivery\<close>

lemma place_done:
  assumes "wf_ctx a"
  obtains h' where "place a c p v h = Done h'"
proof -
  obtain z where z: "fmlookup (w_Zones (ac_World a)) (ac_Zone a) = Some z" using assms by (auto simp: wf_ctx_def)
  obtain fb where "fmlookup (zn_Rooms z) (zn_Fallback z) = Some fb" using wf_world_fallback[OF _ z] assms by (auto simp: wf_ctx_def)
  with z show thesis
    by (cases "Resolve (ac_World a) \<lparr>rr_Zone = ac_Zone a, rr_Room = ar_RoomId (GetArrive c)\<rparr>") (auto simp: place_def Let_def intro: that)
qed

text \<open>What an Arrive does where nothing stands in its way.\<close>

definition clear_for :: "apply_ctx \<Rightarrow> ArriveMsg \<Rightarrow> pb_Entity \<Rightarrow> tick_state \<Rightarrow> bool" where
  "clear_for a arr p h \<longleftrightarrow> pm_Seq (mark_of (here a h) (pe_Id p)) < ar_HandoffSeq arr \<and> entity_here a h (pe_Id p) = None
     \<and> (\<forall>rec. fmlookup (zs_Transit (here a h)) (pe_Id p) = Some rec \<longrightarrow> en_HandoffSeq (tx_Entity rec) < ar_HandoffSeq arr)"

lemma applyArrive_places:
  assumes ctx: "wf_ctx a" "ac_consumed a" and c: "lc_Command c = Arrive arr" "ar_Entity arr = Some p" "\<not> invalidArrival arr"
    and clear: "clear_for a arr p h"
  obtains h' room where "applyArrive a c h = Done h'" "room_here a room" "tk_Outbound h' = tk_Outbound h @ acks arr (pe_Id p) (lc_TraceId c)"
    "zone_to (ac_Zone a) (tk_State h) (tk_State h') (markPlaced (pe_Id p) (ar_HandoffSeq arr) (put_entity (EntityFromProto p room)
        (del_transit (pe_Id p) (here a h))))"
proof -
  define v where "v = \<lparr>av_id = pe_Id p, av_seq = ar_HandoffSeq arr, av_drop = fmlookup (zs_Transit (here a h)) (pe_Id p) \<noteq> None,
    av_stale = False, av_retry = False, av_reissue = False\<rparr>"
  have g: "GetArrive c = arr" using c(1) by (simp add: GetArrive_def)
  have v: "validateArrive a c h = Inr v"
    using clear c(2,3) by (auto simp: validateArrive_def g Let_def v_def clear_for_def not_le split: option.split)
  define h1 where "h1 = (if av_drop v then dropTransit a (pe_Id p) h else h)"
  have h1: "zone_of (tk_State h1) (ac_Zone a) = del_transit (pe_Id p) (here a h)" "tk_Outbound h1 = tk_Outbound h"
    by (auto simp: h1_def v_def here_def del_transit_absent)
  have f: "applyArrive a c h = place a c p v h1" using v ctx(2) c(2) g by (simp add: applyArrive_def h1_def v_def Let_def)
  obtain h' where d: "place a c p v h1 = Done h'" using place_done[OF ctx(1)] .
  have seq: "av_seq v = ar_HandoffSeq arr" "av_id v = pe_Id p" by (simp_all add: v_def)
  obtain room where r: "room_here a room" "tk_Outbound (reached (place a c p v h1)) = tk_Outbound h1 @ acks arr (av_id v) (lc_TraceId c)"
    "zone_of (tk_State (reached (place a c p v h1))) (ac_Zone a) =
       markPlaced (av_id v) (av_seq v) (put_entity (EntityFromProto p room) (zone_of (tk_State h1) (ac_Zone a)))"
    using place_effect[OF ctx(1) c(1) seq(1)] by blast
  have "zone_to (ac_Zone a) (tk_State h) (tk_State h') (zone_of (tk_State h') (ac_Zone a))"
    using zone_to_step[OF arrive.step[of a h c]] f d by (simp add: reached_def)
  then show thesis using that[OF _ r(1), of h'] r f d h1 seq by (simp add: reached_def)
qed

lemma clear_for_sent:
  assumes "handoff_inv (view (pe_Id p) (tk_State h) msgs)" "c \<in> msgs" "lc_Command c = Arrive arr" "ar_Entity arr = Some p" "lc_ZoneId c = ac_Zone a"
    and "pm_Seq (mark_of (here a h) (pe_Id p)) < ar_HandoffSeq arr"
  shows "clear_for a arr p h"
proof -
  have m: "(unat (ar_HandoffSeq arr), ac_Zone a, ar_OriginZoneId arr, wire_contents p) \<in> pr_arrives (view (pe_Id p) (tk_State h) msgs)"
    using sent_arrive[of msgs c arr p] assms(2-5) by (simp add: sent_def)
  have less: "pr_mark (view (pe_Id p) (tk_State h) msgs) (ac_Zone a) < unat (ar_HandoffSeq arr)"
    using assms(6) by (simp add: view_mark_def here_def word_less_nat_alt)
  note d = delivery_accepted[OF assms(1) m less]
  show ?thesis using d assms(6)
    by (auto simp: clear_for_def entity_here_def here_def view_body_def view_transit_def word_less_nat_alt)
qed

text \<open>
  C8. A delivery is never refused: in every reachable state an Arrive that was sent and whose handoff
  has not been placed is applied, whatever else the Zone has seen. The body stands in a Room of the
  Zone as the message carries it, the mark moves to the handoff's number, any older transit record
  of the Entity there is dropped, and an acknowledgement goes to the Zone it came from.
\<close>
theorem arrive_delivers:
  assumes "reachable (e, msgs)" "c \<in> msgs" "lc_Command c = Arrive arr" "ar_Entity arr = Some p" "\<not> invalidArrival arr"
    and "wf_ctx a" "ac_consumed a" "ac_Zone a = lc_ZoneId c" "tk_State h = en_state e" "pm_Seq (mark_of (here a h) (pe_Id p)) < ar_HandoffSeq arr"
  shows "\<exists>h' room. applyArrive a c h = Done h' \<and> Resolve (ac_World a) \<lparr>rr_Zone = ac_Zone a, rr_Room = room\<rparr> \<noteq> None
     \<and> fmlookup (zs_Entities (here a h')) (pe_Id p) = Some (EntityFromProto p room)
     \<and> fmlookup (zs_Transit (here a h')) (pe_Id p) = None \<and> pm_Seq (mark_of (here a h') (pe_Id p)) = ar_HandoffSeq arr
     \<and> tk_Outbound h' = tk_Outbound h @ acks arr (pe_Id p) (lc_TraceId c)"
proof -
  have "clear_for a arr p h"
    using reachable_inv[OF assms(1), of "pe_Id p"] assms(2-4,8-10) by (intro clear_for_sent[of p h msgs c]) simp_all
  from assms(6,7,3-5) this obtain h' room where "applyArrive a c h = Done h'" "room_here a room"
    "tk_Outbound h' = tk_Outbound h @ acks arr (pe_Id p) (lc_TraceId c)"
    "zone_to (ac_Zone a) (tk_State h) (tk_State h') (markPlaced (pe_Id p) (ar_HandoffSeq arr) (put_entity (EntityFromProto p room)
        (del_transit (pe_Id p) (here a h))))" by (rule applyArrive_places)
  then show ?thesis
    by (intro exI[of _ h'] exI[of _ room]) (simp add: zone_to_def here_def room_here_def mark_of_def markPlaced_def put_entity_def del_transit_def EntityFromProto_def)
qed

definition sample_tick :: tick_state where
  "sample_tick = st_h (start engine2)"

lemma sample_tick_fields [simp]: "tk_State sample_tick = en_state engine2" "tk_Outbound sample_tick = []"
  by (simp_all add: sample_tick_def start_def)

lemma sample_arrive_fields: "lc_Command sample_arrive = Arrive (arriveFor ''town'' sample_transit)" "lc_ZoneId sample_arrive = ''crypt''"
  "ar_Entity (arriveFor ''town'' sample_transit) = Some (Entity_Proto (tx_Entity sample_transit))"
  "\<not> invalidArrival (arriveFor ''town'' sample_transit)" "ar_HandoffSeq (arriveFor ''town'' sample_transit) = 1"
  "pe_Id (Entity_Proto (tx_Entity sample_transit)) = ''ann''"
  by (simp_all add: sample_arrive_def arriveFor_def invalidArrival_def Entity_Proto_def)

theorem arrive_delivers_witness:
  "\<exists>h' room. applyArrive (ex_ctx 3 ''crypt'' sample_arrive) sample_arrive sample_tick = Done h'
     \<and> fmlookup (zs_Entities (here (ex_ctx 3 ''crypt'' sample_arrive) h')) ''ann'' = Some (EntityFromProto (Entity_Proto (tx_Entity sample_transit)) room)"
proof -
  have "pm_Seq (mark_of (here (ex_ctx 3 ''crypt'' sample_arrive) sample_tick) (pe_Id (Entity_Proto (tx_Entity sample_transit))))
      < ar_HandoffSeq (arriveFor ''town'' sample_transit)"
    by (simp add: here_def sample_arrive_fields mark_of_def empty_zone_def)
  from arrive_delivers[OF sample_reachable(3) _ sample_arrive_fields(1,3,4) _ _ _ _ this] show ?thesis
    by (auto simp: wf_ex_ctx sample_arrive_fields)
qed

lemma applyArrive_seen:
  assumes "ac_consumed a" "lc_Command c = Arrive arr" "ar_Entity arr = Some p" "\<not> invalidArrival arr"
    and "ar_HandoffSeq arr \<le> pm_Seq (mark_of (here a h) (pe_Id p))"
  shows "\<exists>h'. applyArrive a c h = Done h' \<and> tk_State h' = tk_State h \<and> tk_Events h' = tk_Events h"
proof -
  have "tk_Events (ack c eid seq h') = tk_Events h'" "tk_Events (staleArrival h') = tk_Events h'" for eid seq h'
    by (simp_all add: ack_def Let_def Produce_def staleArrival_def)
  then show ?thesis using assms
    by (auto simp: applyArrive_def validateArrive_def GetArrive_def Let_def split: option.split)
qed

lemma applyArrive_DoneD:
  assumes "applyArrive a c h = Done h'" "lc_Command c = Arrive arr"
  obtains p where "ac_consumed a" "ar_Entity arr = Some p" "\<not> invalidArrival arr"
    "ar_HandoffSeq arr \<le> pm_Seq (mark_of (here a h) (pe_Id p)) \<or> clear_for a arr p h"
proof -
  have g: "GetArrive c = arr" using assms(2) by (simp add: GetArrive_def)
  have c: "ac_consumed a" and v: "\<not> (\<exists>err. validateArrive a c h = Inl err)" using assms(1) by (auto simp: applyArrive_def split: if_splits)
  have i: "\<not> invalidArrival arr" using v g by (auto simp: validateArrive_def split: if_splits)
  then obtain p where p: "ar_Entity arr = Some p" by (auto simp: invalidArrival_def split: option.splits)
  have "ar_HandoffSeq arr \<le> pm_Seq (mark_of (here a h) (pe_Id p)) \<or> clear_for a arr p h"
    using v g p i by (auto simp: validateArrive_def Let_def clear_for_def not_le split: if_splits option.splits)
  with that c i p show thesis by blast
qed

text \<open>
  C9. Arrive is idempotent: delivering an Arrive a second time leaves every Zone, and so the state
  hash, as the first delivery left it, and emits nothing.
\<close>
theorem arrive_idempotent:
  assumes "wf_ctx a" "lc_Command c = Arrive arr" "applyArrive a c h = Done h'"
  shows "\<exists>h''. applyArrive a c h' = Done h'' \<and> tk_State h'' = tk_State h' \<and> tk_Events h'' = tk_Events h'"
proof -
  obtain p where p: "ac_consumed a" "ar_Entity arr = Some p" "\<not> invalidArrival arr"
    and "ar_HandoffSeq arr \<le> pm_Seq (mark_of (here a h) (pe_Id p)) \<or> clear_for a arr p h"
    using applyArrive_DoneD[OF assms(3,2)] by blast
  then consider (seen) "ar_HandoffSeq arr \<le> pm_Seq (mark_of (here a h) (pe_Id p))" | (new) "clear_for a arr p h" by blast
  then have "ar_HandoffSeq arr \<le> pm_Seq (mark_of (here a h') (pe_Id p))"
  proof cases
    case seen
    then show ?thesis using applyArrive_seen[OF p(1) assms(2) p(2,3) seen] assms(3) by (simp add: here_def)
  next
    case new
    from assms(1) p(1) assms(2) p(2,3) new show ?thesis
      by (rule applyArrive_places) (use assms(3) in \<open>simp add: zone_to_def here_def mark_of_def markPlaced_def\<close>)
  qed
  from applyArrive_seen[OF p(1) assms(2) p(2,3) this] show ?thesis .
qed

theorem arrive_idempotent_witness:
  "\<exists>h' h''. applyArrive (ex_ctx 3 ''crypt'' sample_arrive) sample_arrive sample_tick = Done h' \<and> tk_State h' \<noteq> en_state engine2
     \<and> applyArrive (ex_ctx 3 ''crypt'' sample_arrive) sample_arrive h' = Done h'' \<and> tk_State h'' = tk_State h'"
proof -
  have c: "clear_for (ex_ctx 3 ''crypt'' sample_arrive) (arriveFor ''town'' sample_transit) (Entity_Proto (tx_Entity sample_transit)) sample_tick"
    by (simp add: clear_for_def here_def entity_here_def mark_of_def sample_arrive_fields empty_zone_def)
  have w: "wf_ctx (ex_ctx 3 ''crypt'' sample_arrive)" by (simp add: wf_ex_ctx)
  obtain h' room where "applyArrive (ex_ctx 3 ''crypt'' sample_arrive) sample_arrive sample_tick = Done h'"
    "zone_to ''crypt'' (en_state engine2) (tk_State h') (markPlaced ''ann'' 1 (put_entity (EntityFromProto (Entity_Proto (tx_Entity sample_transit)) room)
        (del_transit ''ann'' (empty_zone ''crypt''))))"
    by (rule applyArrive_places[OF w _ sample_arrive_fields(1,3,4) c]) (simp_all add: sample_arrive_fields here_def)
  moreover have "tk_State h' \<noteq> en_state engine2"
  proof
    assume "tk_State h' = en_state engine2"
    with calculation(2) have "zs_Placed (empty_zone ''crypt'') = fmupd ''ann'' \<lparr>pm_Seq = 1, pm_Rejected = False\<rparr> (zs_Placed (empty_zone ''crypt''))"
      by (auto simp: zone_to_def markPlaced_def put_entity_def del_transit_def dest: arg_cong[of _ _ zs_Placed])
    then have "fmlookup (zs_Placed (empty_zone ''crypt'')) ''ann'' \<noteq> None" by (metis fmupd_lookup option.distinct(1))
    then show False by (simp add: empty_zone_def)
  qed
  ultimately show ?thesis using arrive_idempotent[OF w sample_arrive_fields(1)] by blast
qed

lemma transit_elsewhere: "handoff_inv v \<Longrightarrow> pr_transit v z = Some (q, z', p) \<Longrightarrow> z' \<noteq> z"
  unfolding handoff_inv_def good_def routed_def by (metis fst_conv snd_conv)

lemma retry_command:
  "lc_Command (hr_Command (retry_of \<lparr>du_at = t, du_rec = rec, du_zid = z\<rparr> n)) = Arrive (arriveFor z rec)"
  "lc_ZoneId (hr_Command (retry_of \<lparr>du_at = t, du_rec = rec, du_zid = z\<rparr> n)) = tx_To rec"
  by (simp_all add: retry_of_def Let_def)

text \<open>After the Arrive and its acknowledgement, nothing of the Entity is under way.\<close>

lemma settled:
  assumes "handoff_inv (view eid s msgs)" "in_flight s z eid" "z' \<noteq> z"
    and t: "zone_to z' s s1 (markPlaced eid q (put_entity ent (del_transit eid (zone_of s z'))))" "pm_Seq (mark_of (zone_of s z') eid) < q"
    and d: "zone_to z s1 s2 (del_transit eid (zone_of s1 z))"
  shows "\<not> in_flight s2 y eid"
proof
  assume y: "in_flight s2 y eid"
  have z2: "zone_of s2 x = (if x = z then del_transit eid (zone_of s z) else if x = z' then markPlaced eid q (put_entity ent (del_transit eid (zone_of s z')))
      else zone_of s x)" for x using t(1) d assms(3) by (auto simp: zone_to_def)
  have "fmlookup (zs_Transit (zone_of s2 z)) eid = None" "fmlookup (zs_Transit (zone_of s2 z')) eid = None"
    unfolding z2 by (simp_all add: del_transit_def markPlaced_def put_entity_def)
  then have "y \<noteq> z" "y \<noteq> z'" using y by (auto simp: in_flight_def)
  moreover have "pm_Seq (mark_of (zone_of s x) eid) \<le> pm_Seq (mark_of (zone_of s2 x) eid)" for x
    using t(2) assms(3) by (auto simp: z2 mark_of_def markPlaced_def)
  ultimately have "in_flight s y eid" using y z2[of y]
    by (auto simp: in_flight_def split: option.splits) (meson order.strict_trans1)
  then have "y = z" using body_or_flight(2)[OF assms(1)] assms(2) unfolding in_flight_view[of s _ eid msgs] by blast
  with \<open>y \<noteq> z\<close> show False by simp
qed

lemma applyHandoffAck_drops:
  assumes "ac_consumed b" "lc_Command k = HandoffAck eid seq" "fmlookup (zs_Transit (here b h)) eid = Some rec" "en_HandoffSeq (tx_Entity rec) = seq"
  obtains h' where "applyHandoffAck b k h = Done h'" "zone_to (ac_Zone b) (tk_State h) (tk_State h') (del_transit eid (here b h))"
  using assms by (intro that[of "dropTransit b eid h"]) (simp_all add: applyHandoffAck_def GetHandoffAck_def zone_to_def here_def)

text \<open>
  C7. A handoff completes: in every reachable state, for every handoff under way, delivering the
  Arrive a retry pass sends for it and then the acknowledgement that produces, in ticks of the
  origin's and the target's Zone, leaves the body in a Room of the target Zone with the contents it
  departed with, no transit record at the origin, and no handoff under way.
\<close>
theorem handoff_completes:
  assumes "reachable (e, msgs)" "in_flight (en_state e) z eid" "fmlookup (zs_Transit (zone_of (en_state e) z)) eid = Some rec"
    and "z \<noteq> ''''" "eid \<noteq> ''''" "c = hr_Command (retry_of \<lparr>du_at = t, du_rec = rec, du_zid = z\<rparr> n)"
    and "wf_ctx a" "ac_consumed a" "ac_Zone a = tx_To rec" "wf_ctx b" "ac_consumed b" "ac_Zone b = z" "tk_State h = en_state e" "tk_Outbound h = []"
  shows "\<exists>h1 ack h2 ent. applyArrive a c h = Done h1 \<and> tk_Outbound h1 = [ack] \<and> applyHandoffAck b ack h1 = Done h2
     \<and> fmlookup (zs_Entities (zone_of (tk_State h2) (tx_To rec))) eid = Some ent \<and> contents ent = contents (tx_Entity rec)
     \<and> Resolve (ac_World a) \<lparr>rr_Zone = tx_To rec, rr_Room = en_Room ent\<rparr> \<noteq> None
     \<and> fmlookup (zs_Transit (zone_of (tk_State h2) z)) eid = None \<and> (\<forall>z'. \<not> in_flight (tk_State h2) z' eid)"
proof -
  let ?arr = "arriveFor z rec" and ?p = "Entity_Proto (tx_Entity rec)" and ?q = "en_HandoffSeq (tx_Entity rec)"
  have key: "keyed_state (en_state e)" and inv: "\<And>k. handoff_inv (view k (en_state e) msgs)"
    using reachable_sound[OF assms(1)] by (simp_all add: sound_system_def sound_def wf_engine_def)
  have id: "en_ID (tx_Entity rec) = eid" using keyed_zone_of[OF key, of z] assms(3) by (auto simp: keyed_zone_def fmpred_iff)
  have to: "tx_To rec \<noteq> z" using transit_elsewhere[OF inv[of eid], of z] assms(3) by (simp add: view_transit_def)
  have less: "pm_Seq (mark_of (zone_of (en_state e) (tx_To rec)) eid) < ?q" using assms(2,3) by (simp add: in_flight_def)
  have c: "lc_Command c = Arrive ?arr" "lc_ZoneId c = tx_To rec" by (simp_all add: assms(6) retry_command)
  have arr: "ar_Entity ?arr = Some ?p" "ar_HandoffSeq ?arr = ?q" "ar_OriginZoneId ?arr = z" "pe_Id ?p = eid" "pe_HandoffSeq ?p = ?q"
    by (simp_all add: arriveFor_def Entity_Proto_def id)
  have valid: "\<not> invalidArrival ?arr" using arr less assms(5) by (auto simp: invalidArrival_def)
  have "handoff_inv (view eid (en_state e) (insert c msgs))"
    using pkeep_inv[OF resend_keep[OF key assms(3) c(2,1)] inv] .
  then have "clear_for a ?arr ?p h"
    using clear_for_sent[of ?p h "insert c msgs" c ?arr a] c arr assms(9,13) less by (simp add: here_def)
  from assms(7,8) c(1) arr(1) valid this obtain h1 room where h1: "applyArrive a c h = Done h1" "room_here a room"
      "tk_Outbound h1 = tk_Outbound h @ acks ?arr (pe_Id ?p) (lc_TraceId c)"
    and t1: "zone_to (ac_Zone a) (tk_State h) (tk_State h1) (markPlaced (pe_Id ?p) (ar_HandoffSeq ?arr) (put_entity (EntityFromProto ?p room)
        (del_transit (pe_Id ?p) (here a h))))" by (rule applyArrive_places)
  obtain k where k: "tk_Outbound h1 = [k]" "lc_Command k = HandoffAck eid ?q"
    using h1(3) arr assms(4,14) by (simp add: acks_def)
  have "fmlookup (zs_Transit (here b h1)) eid = Some rec" using t1 to assms(3,9,12,13) by (simp add: zone_to_def here_def)
  from assms(11) k(2) this refl obtain h2 where h2: "applyHandoffAck b k h1 = Done h2"
    and t2: "zone_to z (tk_State h1) (tk_State h2) (del_transit eid (zone_of (tk_State h1) z))"
    by (rule applyHandoffAck_drops) (simp add: assms(12) here_def)
  have "\<not> in_flight (tk_State h2) y eid" for y
    by (rule settled[OF inv assms(2) to _ less t2]) (use t1 arr assms(9,13) in \<open>simp add: here_def\<close>)
  moreover have "fmlookup (zs_Entities (zone_of (tk_State h2) (tx_To rec))) eid = Some (EntityFromProto ?p room)"
    using t1 t2 to arr assms(9) by (simp add: zone_to_def markPlaced_def put_entity_def EntityFromProto_def del_transit_def)
  moreover have "contents (EntityFromProto ?p room) = contents (tx_Entity rec)" by (simp add: contents_FromProto) (simp add: contents_def)
  moreover have "Resolve (ac_World a) \<lparr>rr_Zone = tx_To rec, rr_Room = en_Room (EntityFromProto ?p room)\<rparr> \<noteq> None"
    using h1(2) assms(9) by (simp add: room_here_def EntityFromProto_def)
  moreover have "fmlookup (zs_Transit (zone_of (tk_State h2) z)) eid = None" using t2 by (simp add: zone_to_def del_transit_def)
  ultimately show ?thesis using h1(1) h2 k(1) by blast
qed

theorem handoff_completes_witness:
  "\<exists>h1 ack h2 ent. applyArrive (ex_ctx 3 ''crypt'' sample_arrive) (hr_Command (retry_of \<lparr>du_at = 0, du_rec = sample_transit, du_zid = ''town''\<rparr> 2)) sample_tick = Done h1
     \<and> applyHandoffAck (ex_ctx 4 ''town'' sample_arrive) ack h1 = Done h2
     \<and> fmlookup (zs_Entities (zone_of (tk_State h2) ''crypt'')) ''ann'' = Some ent \<and> (\<forall>z'. \<not> in_flight (tk_State h2) z' ''ann'')"
proof -
  have w: "wf_ctx (ex_ctx 3 ''crypt'' sample_arrive)" "wf_ctx (ex_ctx 4 ''town'' sample_arrive)" by (simp_all add: wf_ex_ctx)
  from handoff_completes[OF sample_reachable(3) sample_where(2,3) _ _ refl w(1) _ _ w(2) _ _ sample_tick_fields, of 0 2] show ?thesis
    by auto
qed

end
