(* ===== verification/Build.thy ===== *)
theory Build
  imports Canonical
begin

text \<open>
  Building the World from content (\<^verbatim>\<open>server/sim/build.go\<close>, \<^verbatim>\<open>errors.go\<close>): the findings, the check of a
  Component set against the server's registry, and \<^verbatim>\<open>BuildWorld\<close>, which collects Zone Definitions,
  validates them against each other and assembles the topology. The theorems show that what it
  builds is what every reader of a World assumes, that it builds exactly the declared Zones and
  Rooms, and that it refuses content exactly when it has a finding that is not a warning.

  A finding's prose (\<^verbatim>\<open>Detail\<close>) is left out; every other member is kept. A nil element of a repeated
  message field is one whose name, id or type is empty: the code treats the two alike and tells
  them apart in the prose only. Go's maps of accumulated Zones and Rooms are finite maps.
\<close>

section \<open>Findings\<close>

type_synonym ErrCode = string

record ValidationError =
  ve_File :: string
  ve_Line :: nat
  ve_Zone :: ZoneID
  ve_Room :: RoomID
  ve_Exit :: Direction
  ve_Component :: ComponentType
  ve_Chain :: "TemplateRef list"
  ve_Template :: TemplateRef
  ve_Code :: ErrCode

definition finding0 :: "string \<Rightarrow> ErrCode \<Rightarrow> ValidationError" where
  "finding0 file code = \<lparr>ve_File = file, ve_Line = 0, ve_Zone = '''', ve_Room = '''', ve_Exit = '''', ve_Component = '''', ve_Chain = [],
     ve_Template = '''', ve_Code = code\<rparr>"

definition warningCodes :: "ErrCode list" where
  "warningCodes = [''orphan_room'', ''missing_reverse_exit'']"

definition IsWarning :: "ValidationError \<Rightarrow> bool \<Rightarrow> bool" where
  "IsWarning e strictOrphans = (if ve_Code e = ''orphan_room'' then \<not> strictOrphans else ve_Code e \<in> set warningCodes)"

definition Fatal :: "ValidationError \<Rightarrow> bool" where
  "Fatal e = (\<not> IsWarning e False)"

definition AllErrCodes :: "ErrCode list" where
  "AllErrCodes = [''unknown_room'', ''unknown_zone'', ''duplicate_room'', ''duplicate_zone'', ''unsupported_format_version'', ''malformed_file'',
     ''no_zones_found'', ''orphan_room'', ''unknown_direction'', ''unknown_component_type'', ''duplicate_component_type'',
     ''invalid_component_field'', ''missing_reverse_exit'', ''unresolved_extends'', ''unflattened_template'', ''duplicate_template'',
     ''chain_mismatch'', ''chain_too_deep'', ''invalid_provenance'', ''pack_mismatch'', ''fallback_missing'', ''zone_removed'',
     ''spawn_room_removed'', ''duplicate_direction'']"

section \<open>Component sets\<close>

record componentSite =
  cs_file :: string
  cs_zone :: ZoneID
  cs_room :: RoomID
  cs_line :: "nat \<Rightarrow> nat"

definition site_finding :: "componentSite \<Rightarrow> nat \<Rightarrow> ErrCode \<Rightarrow> ValidationError" where
  "site_finding s i code = (finding0 (cs_file s) code)\<lparr>ve_Line := cs_line s i, ve_Zone := cs_zone s, ve_Room := cs_room s\<rparr>"

text \<open>One field: refused without a name, undeclared, repeated or of the wrong kind; seen before its kind is checked.\<close>

fun scanFields :: "(string \<times> FieldKind) list \<Rightarrow> ValidationError \<Rightarrow> pb_ComponentField list \<Rightarrow> string list \<Rightarrow> ValidationError list \<times> ComponentField list" where
  "scanFields spec err [] seen = ([], [])"
| "scanFields spec err (fd # fds) seen =
     (if pbf_Name fd = '''' then map_prod (Cons err) (\<lambda>fs. fs) (scanFields spec err fds seen)
      else case map_of spec (pbf_Name fd) of
        None \<Rightarrow> map_prod (Cons err) (\<lambda>fs. fs) (scanFields spec err fds seen)
      | Some want \<Rightarrow>
          if pbf_Name fd \<in> set seen then map_prod (Cons err) (\<lambda>fs. fs) (scanFields spec err fds seen)
          else if cf_Kind (fieldValue fd) \<noteq> want then
            map_prod (Cons err) (\<lambda>fs. fs) (scanFields spec err fds (pbf_Name fd # seen))
          else map_prod (\<lambda>es. es) (Cons (fieldValue fd)) (scanFields spec err fds (pbf_Name fd # seen)))"

definition validateComponentFields :: "pb_ComponentValue \<Rightarrow> (string \<times> FieldKind) list \<Rightarrow> componentSite \<Rightarrow> nat \<Rightarrow> ComponentField list \<times> ValidationError list" where
  "validateComponentFields cd spec site i =
     (case scanFields spec (site_finding site i ''invalid_component_field'') (pbc_Fields cd) [] of
        (errs, fs) \<Rightarrow> (sort_key cf_Name fs, errs))"

fun scanComponents :: "componentSite \<Rightarrow> nat \<Rightarrow> pb_ComponentValue list \<Rightarrow> ComponentType list \<Rightarrow> ValidationError list \<times> Component list" where
  "scanComponents site i [] seen = ([], [])"
| "scanComponents site i (cd # cds) seen =
     (if pbc_Type cd = '''' then map_prod (Cons (site_finding site i ''malformed_file'')) (\<lambda>cs. cs) (scanComponents site (i + 1) cds seen)
      else case map_of componentRegistry (pbc_Type cd) of
        None \<Rightarrow> map_prod (Cons (site_finding site i ''unknown_component_type'')) (\<lambda>cs. cs) (scanComponents site (i + 1) cds seen)
      | Some spec \<Rightarrow>
          if pbc_Type cd \<in> set seen then
            map_prod (Cons (site_finding site i ''duplicate_component_type'')) (\<lambda>cs. cs) (scanComponents site (i + 1) cds seen)
          else case validateComponentFields cd spec site i of (fs, fieldErrs) \<Rightarrow>
            let errs = map (\<lambda>e. e\<lparr>ve_Component := pbc_Type cd\<rparr>) fieldErrs;
                rest = scanComponents site (i + 1) cds (pbc_Type cd # seen)
            in if fieldErrs \<noteq> [] then map_prod (\<lambda>es. errs @ es) (\<lambda>cs. cs) rest
               else map_prod (\<lambda>es. es) (Cons \<lparr>comp_Type = pbc_Type cd, comp_Fields = fs\<rparr>) rest)"

definition validateComponents :: "pb_ComponentValue list \<Rightarrow> componentSite \<Rightarrow> Component list \<times> ValidationError list" where
  "validateComponents defs site = (case scanComponents site 0 defs [] of (errs, comps) \<Rightarrow> (sort_key comp_Type comps, errs))"

section \<open>Zone Definitions\<close>

record ExitDefinition =
  ed_Direction :: string
  ed_ToZone :: string
  ed_ToRoom :: string

record RoomDefinition =
  rd_Id :: string
  rd_Title :: string
  rd_Description :: string
  rd_Exits :: "ExitDefinition list"
  rd_Components :: "pb_ComponentValue list"

record ZoneDefinition =
  zd_FormatVersion :: u32
  zd_Id :: string
  zd_Name :: string
  zd_FallbackRoom :: string
  zd_Rooms :: "RoomDefinition list"
  zd_Components :: "pb_ComponentValue list"

record RoomPositions =
  rp_Line :: nat
  rp_Exits :: "nat list"
  rp_Components :: "nat list"

record Positions =
  po_ZoneComponents :: "nat list"
  po_Rooms :: "RoomPositions list"

record Input =
  in_File :: string
  in_Def :: "ZoneDefinition option"
  in_Pos :: "Positions option"

record Options =
  op_StrictOrphans :: bool

definition MinFormatVersion :: u32 where
  "MinFormatVersion = 1"

definition MaxFormatVersion :: u32 where
  "MaxFormatVersion = 1"

definition lineAt :: "nat list \<Rightarrow> nat \<Rightarrow> nat" where
  "lineAt lines i = (if i \<ge> length lines then 0 else lines ! i)"

definition roomPos :: "Input \<Rightarrow> nat \<Rightarrow> RoomPositions" where
  "roomPos inp ri = (case in_Pos inp of None \<Rightarrow> \<lparr>rp_Line = 0, rp_Exits = [], rp_Components = []\<rparr>
     | Some pos \<Rightarrow> if ri \<ge> length (po_Rooms pos) then \<lparr>rp_Line = 0, rp_Exits = [], rp_Components = []\<rparr> else po_Rooms pos ! ri)"

definition zoneComponentLine :: "Input \<Rightarrow> nat \<Rightarrow> nat" where
  "zoneComponentLine inp ci = (case in_Pos inp of None \<Rightarrow> 0 | Some pos \<Rightarrow> lineAt (po_ZoneComponents pos) ci)"

definition roomLine :: "Input \<Rightarrow> nat \<Rightarrow> nat" where
  "roomLine inp ri = rp_Line (roomPos inp ri)"

definition exitLine :: "Input \<Rightarrow> nat \<Rightarrow> nat \<Rightarrow> nat" where
  "exitLine inp ri ei = lineAt (rp_Exits (roomPos inp ri)) ei"

definition roomComponentLine :: "Input \<Rightarrow> nat \<Rightarrow> nat \<Rightarrow> nat" where
  "roomComponentLine inp ri ci = lineAt (rp_Components (roomPos inp ri)) ci"

section \<open>Collecting\<close>

record exitAcc =
  xa_dir :: Direction
  xa_toZone :: ZoneID
  xa_toRoom :: RoomID
  xa_line :: nat

record roomAcc =
  ra_file :: string
  ra_id :: RoomID
  ra_title :: string
  ra_desc :: string
  ra_exits :: "exitAcc list"
  ra_components :: "Component list"

record zoneAcc =
  za_file :: string
  za_name :: string
  za_fallback :: RoomID
  za_rooms :: "(RoomID, roomAcc) fmap"
  za_components :: "Component list"

fun scanExits :: "Input \<Rightarrow> ZoneID \<Rightarrow> RoomID \<Rightarrow> nat \<Rightarrow> nat \<Rightarrow> ExitDefinition list \<Rightarrow> Direction list \<Rightarrow> ValidationError list \<times> exitAcc list" where
  "scanExits inp zid rid ri ei [] seen = ([], [])"
| "scanExits inp zid rid ri ei (ed # eds) seen =
     (let line = exitLine inp ri ei;
          err = (\<lambda>code. (finding0 (in_File inp) code)\<lparr>ve_Line := line, ve_Zone := zid, ve_Room := rid\<rparr>);
          dir = ed_Direction ed in
      if dir = '''' then map_prod (Cons (err ''malformed_file'')) (\<lambda>xs. xs) (scanExits inp zid rid ri (ei + 1) eds seen)
      else if \<not> Valid dir then map_prod (Cons (err ''unknown_direction'')) (\<lambda>xs. xs) (scanExits inp zid rid ri (ei + 1) eds seen)
      else if dir \<in> set seen then
        map_prod (Cons ((err ''duplicate_direction'')\<lparr>ve_Exit := dir\<rparr>)) (\<lambda>xs. xs) (scanExits inp zid rid ri (ei + 1) eds seen)
      else if ed_ToRoom ed = '''' then
        map_prod (Cons ((err ''malformed_file'')\<lparr>ve_Exit := dir\<rparr>)) (\<lambda>xs. xs) (scanExits inp zid rid ri (ei + 1) eds (dir # seen))
      else map_prod (\<lambda>es. es)
        (Cons \<lparr>xa_dir = dir, xa_toZone = (if ed_ToZone ed = '''' then zid else ed_ToZone ed), xa_toRoom = ed_ToRoom ed, xa_line = line\<rparr>)
        (scanExits inp zid rid ri (ei + 1) eds (dir # seen)))"

definition scanRoom :: "Input \<Rightarrow> ZoneID \<Rightarrow> nat \<Rightarrow> RoomDefinition \<Rightarrow> ValidationError list \<times> roomAcc" where
  "scanRoom inp zid ri rd =
     (let rid = rd_Id rd;
          vc = validateComponents (rd_Components rd)
            \<lparr>cs_file = in_File inp, cs_zone = zid, cs_room = rid, cs_line = roomComponentLine inp ri\<rparr>;
          sx = scanExits inp zid rid ri 0 (rd_Exits rd) []
      in (snd vc @ fst sx, \<lparr>ra_file = in_File inp, ra_id = rid, ra_title = rd_Title rd, ra_desc = rd_Description rd, ra_exits = snd sx,
            ra_components = fst vc\<rparr>))"

fun scanRooms :: "Input \<Rightarrow> ZoneID \<Rightarrow> nat \<Rightarrow> RoomDefinition list \<Rightarrow> (RoomID, roomAcc) fmap \<Rightarrow> ValidationError list \<times> (RoomID, roomAcc) fmap" where
  "scanRooms inp zid ri [] rooms = ([], rooms)"
| "scanRooms inp zid ri (rd # rds) rooms =
     (if rd_Id rd = '''' then
        map_prod (Cons ((finding0 (in_File inp) ''malformed_file'')\<lparr>ve_Zone := zid\<rparr>)) (\<lambda>m. m) (scanRooms inp zid (ri + 1) rds rooms)
      else if fmlookup rooms (rd_Id rd) \<noteq> None then
        map_prod (Cons ((finding0 (in_File inp) ''duplicate_room'')\<lparr>ve_Line := roomLine inp ri, ve_Zone := zid, ve_Room := rd_Id rd\<rparr>)) (\<lambda>m. m)
          (scanRooms inp zid (ri + 1) rds rooms)
      else case scanRoom inp zid ri rd of (errs, ra) \<Rightarrow>
        map_prod (\<lambda>es. errs @ es) (\<lambda>m. m) (scanRooms inp zid (ri + 1) rds (fmupd (rd_Id rd) ra rooms)))"

definition scanZone :: "Input \<Rightarrow> ZoneDefinition \<Rightarrow> ValidationError list \<times> zoneAcc" where
  "scanZone inp def =
     (let zid = zd_Id def;
          vc = validateComponents (zd_Components def) \<lparr>cs_file = in_File inp, cs_zone = zid, cs_room = '''', cs_line = zoneComponentLine inp\<rparr>;
          sr = scanRooms inp zid 0 (zd_Rooms def) fmempty
      in (snd vc @ fst sr, \<lparr>za_file = in_File inp, za_name = zd_Name def, za_fallback = zd_FallbackRoom def, za_rooms = snd sr,
            za_components = fst vc\<rparr>))"

record collected =
  cl_errs :: "ValidationError list"
  cl_byID :: "(ZoneID, zoneAcc) fmap"
  cl_order :: "ZoneID list"

definition collect :: "collected \<Rightarrow> Input \<Rightarrow> collected" where
  "collect c inp =
     (case in_Def inp of
        None \<Rightarrow> c\<lparr>cl_errs := cl_errs c @ [finding0 (in_File inp) ''malformed_file'']\<rparr>
      | Some def \<Rightarrow>
          if zd_FormatVersion def < MinFormatVersion \<or> zd_FormatVersion def > MaxFormatVersion then
            c\<lparr>cl_errs := cl_errs c @ [(finding0 (in_File inp) ''unsupported_format_version'')\<lparr>ve_Zone := zd_Id def\<rparr>]\<rparr>
          else if zd_Id def = '''' then c\<lparr>cl_errs := cl_errs c @ [finding0 (in_File inp) ''malformed_file'']\<rparr>
          else case fmlookup (cl_byID c) (zd_Id def) of
            Some existing \<Rightarrow>
              c\<lparr>cl_errs := cl_errs c @ (finding0 (in_File inp) ''duplicate_zone'')\<lparr>ve_Zone := zd_Id def\<rparr>
                # map (\<lambda>rd. (finding0 (in_File inp) ''duplicate_room'')\<lparr>ve_Zone := zd_Id def, ve_Room := rd_Id rd\<rparr>)
                    (filter (\<lambda>rd. rd_Id rd \<noteq> '''' \<and> fmlookup (za_rooms existing) (rd_Id rd) \<noteq> None) (zd_Rooms def))\<rparr>
          | None \<Rightarrow>
              (case scanZone inp def of (errs, acc) \<Rightarrow>
                 c\<lparr>cl_errs := cl_errs c @ errs, cl_byID := fmupd (zd_Id def) acc (cl_byID c), cl_order := cl_order c @ [zd_Id def]\<rparr>))"

section \<open>Checks across the set\<close>

type_synonym zoneAccs = "(ZoneID, zoneAcc) fmap"

definition fallbackFindings :: "ZoneID \<Rightarrow> zoneAcc \<Rightarrow> ValidationError list" where
  "fallbackFindings zid z =
     (if za_fallback z = '''' then [(finding0 (za_file z) ''fallback_missing'')\<lparr>ve_Zone := zid\<rparr>]
      else if fmlookup (za_rooms z) (za_fallback z) = None then
        [(finding0 (za_file z) ''fallback_missing'')\<lparr>ve_Zone := zid, ve_Room := za_fallback z\<rparr>]
      else [])"

definition exitFinding :: "zoneAccs \<Rightarrow> ZoneID \<Rightarrow> roomAcc \<Rightarrow> RoomID \<Rightarrow> exitAcc \<Rightarrow> ValidationError list" where
  "exitFinding byID zid r rid e =
     (case fmlookup byID (xa_toZone e) of
        None \<Rightarrow> [(finding0 (ra_file r) ''unknown_zone'')\<lparr>ve_Zone := zid, ve_Room := rid, ve_Exit := xa_dir e\<rparr>]
      | Some tz \<Rightarrow> if fmlookup (za_rooms tz) (xa_toRoom e) = None then
            [(finding0 (ra_file r) ''unknown_room'')\<lparr>ve_Zone := zid, ve_Room := rid, ve_Exit := xa_dir e\<rparr>]
          else [])"

definition reverseFinding :: "zoneAccs \<Rightarrow> ZoneID \<Rightarrow> roomAcc \<Rightarrow> RoomID \<Rightarrow> exitAcc \<Rightarrow> ValidationError list" where
  "reverseFinding byID zid r rid e =
     (case Reverse (xa_dir e) of None \<Rightarrow> []
      | Some way \<Rightarrow> (case fmlookup byID (xa_toZone e) of None \<Rightarrow> []
          | Some tz \<Rightarrow> (case fmlookup (za_rooms tz) (xa_toRoom e) of None \<Rightarrow> []
              | Some tr \<Rightarrow> if list_ex (\<lambda>te. xa_dir te = way \<and> xa_toZone te = zid \<and> xa_toRoom te = rid) (ra_exits tr) then []
                  else [(finding0 (ra_file r) ''missing_reverse_exit'')\<lparr>ve_Line := xa_line e, ve_Zone := zid, ve_Room := rid, ve_Exit := xa_dir e\<rparr>])))"

definition orphanFindings :: "ZoneID \<Rightarrow> zoneAcc \<Rightarrow> ValidationError list" where
  "orphanFindings zid z =
     (if length (keys (za_rooms z)) = 1 then []
      else let inbound = concat (map (\<lambda>(_, r). map xa_toRoom (filter (\<lambda>e. xa_toZone e = zid \<and> xa_toRoom e \<noteq> ra_id r) (ra_exits r)))
                 (entries (za_rooms z)))
        in map (\<lambda>(rid, r). (finding0 (ra_file r) ''orphan_room'')\<lparr>ve_Zone := zid, ve_Room := rid\<rparr>)
             (filter (\<lambda>(rid, _). rid \<notin> set inbound) (entries (za_rooms z))))"

text \<open>A pass over every Exit: Zones in order, their Rooms in order, each Room's Exits as declared.\<close>

definition perExit :: "(ZoneID \<Rightarrow> roomAcc \<Rightarrow> RoomID \<Rightarrow> exitAcc \<Rightarrow> ValidationError list) \<Rightarrow> ZoneID \<Rightarrow> zoneAcc \<Rightarrow> ValidationError list" where
  "perExit f zid z = concat (map (\<lambda>(rid, r). concat (map (f zid r rid) (ra_exits r))) (entries (za_rooms z)))"

definition perZone :: "zoneAccs \<Rightarrow> ZoneID list \<Rightarrow> (ZoneID \<Rightarrow> zoneAcc \<Rightarrow> ValidationError list) \<Rightarrow> ValidationError list" where
  "perZone byID order f = concat (map (\<lambda>zid. case fmlookup byID zid of None \<Rightarrow> [] | Some z \<Rightarrow> f zid z) order)"

section \<open>Assembling\<close>

definition buildExit :: "ZoneID \<Rightarrow> exitAcc \<Rightarrow> Exit" where
  "buildExit zid e = \<lparr>ex_Direction = xa_dir e, ex_To = \<lparr>rr_Zone = xa_toZone e, rr_Room = xa_toRoom e\<rparr>, ex_CrossZone = (xa_toZone e \<noteq> zid)\<rparr>"

definition buildRoom :: "ZoneID \<Rightarrow> RoomID \<Rightarrow> roomAcc \<Rightarrow> Room" where
  "buildRoom zid rid ra = \<lparr>rm_ID = rid, rm_Title = ra_title ra, rm_Description = ra_desc ra,
     rm_Exits = sort_key ex_Direction (map (buildExit zid) (ra_exits ra)), rm_Components = ra_components ra\<rparr>"

definition buildZone :: "ZoneID \<Rightarrow> zoneAcc \<Rightarrow> Zone" where
  "buildZone zid z = \<lparr>zn_ID = zid, zn_Name = za_name z,
     zn_Rooms = fmap_of_list (map (\<lambda>(rid, ra). (rid, buildRoom zid rid ra)) (entries (za_rooms z))),
     zn_Partition = PartitionFor zid, zn_Components = za_components z, zn_Fallback = za_fallback z\<rparr>"

definition checks :: "zoneAccs \<Rightarrow> ZoneID list \<Rightarrow> ValidationError list" where
  "checks byID order = perZone byID order fallbackFindings @ perZone byID order (perExit (exitFinding byID))
     @ perZone byID order (perExit (reverseFinding byID)) @ perZone byID order orphanFindings"

definition BuildWorld :: "Input list \<Rightarrow> Options \<Rightarrow> World option \<times> ValidationError list" where
  "BuildWorld inputs opts =
     (if inputs = [] then (None, [finding0 '''' ''no_zones_found''])
      else
        let c = foldl collect \<lparr>cl_errs = [], cl_byID = fmempty, cl_order = []\<rparr> inputs;
            order = sort (cl_order c);
            errs = cl_errs c @ checks (cl_byID c) order;
            refusals = filter (\<lambda>e. \<not> IsWarning e (op_StrictOrphans opts)) errs
        in if refusals \<noteq> [] then (None, refusals)
           else (Some \<lparr>w_Zones = fmap_of_list (map (\<lambda>zid. (zid, buildZone zid (the (fmlookup (cl_byID c) zid)))) order)\<rparr>, errs))"

section \<open>What the scans keep\<close>

lemma fst_snd_map_prod [simp]: "fst (map_prod f g x) = f (fst x)" "snd (map_prod f g x) = g (snd x)"
  by (simp_all add: map_prod_def split: prod.split)

lemma scanFields_ok:
  "distinct (map cf_Name (snd (scanFields spec err fds seen))) \<and> list_all canonical_field (snd (scanFields spec err fds seen))
   \<and> set (map cf_Name (snd (scanFields spec err fds seen))) \<inter> set seen = {}"
proof (induction fds arbitrary: seen)
  case (Cons fd fds)
  have "cf_Name (fieldValue fd) = pbf_Name fd" by (simp add: fieldValue_def Let_def split: pb_value.split)
  then show ?case using Cons[of seen] Cons[of "pbf_Name fd # seen"] by (auto simp: Let_def split: option.split)
qed simp

lemma validateComponentFields_ok: "list_all canonical_field (fst (validateComponentFields cd spec site i)) \<and>
    sorted (map cf_Name (fst (validateComponentFields cd spec site i))) \<and> distinct (map cf_Name (fst (validateComponentFields cd spec site i)))"
  using scanFields_ok[of spec "site_finding site i ''invalid_component_field''" "pbc_Fields cd" "[]"]
  by (auto simp: validateComponentFields_def distinct_map_sort_key list_all_iff split: prod.split)

lemma scanComponents_ok:
  "distinct (map comp_Type (snd (scanComponents site i cds seen))) \<and> list_all canonical_component (snd (scanComponents site i cds seen))
   \<and> set (map comp_Type (snd (scanComponents site i cds seen))) \<inter> set seen = {}"
proof (induction cds arbitrary: i seen)
  case (Cons cd cds)
  have "canonical_component \<lparr>comp_Type = pbc_Type cd, comp_Fields = fst (validateComponentFields cd spec site i)\<rparr>" for spec
    using validateComponentFields_ok[of cd spec site i] by (simp add: canonical_component_def)
  then show ?case using Cons[of "i + 1" seen] Cons[of "i + 1" "pbc_Type cd # seen"]
    by (auto simp: Let_def split: option.split prod.split) (metis fst_conv)+
qed simp

lemma validateComponents_ok: "canonical_components (fst (validateComponents defs site))"
  using scanComponents_ok[of site 0 defs "[]"]
  by (auto simp: validateComponents_def canonical_components_def distinct_map_sort_key list_all_iff split: prod.split)

lemma scanExits_ok:
  "distinct (map xa_dir (snd (scanExits inp zid rid ri ei eds seen))) \<and> (\<forall>e \<in> set (snd (scanExits inp zid rid ri ei eds seen)). Valid (xa_dir e) \<and> xa_dir e \<notin> set seen)"
proof (induction eds arbitrary: ei seen)
  case (Cons ed eds)
  then show ?case using Cons[of "ei + 1" seen] Cons[of "ei + 1" "ed_Direction ed # seen"] by (auto simp: Let_def)
qed simp

definition good_roomAcc :: "RoomID \<Rightarrow> roomAcc \<Rightarrow> bool" where
  "good_roomAcc rid ra \<longleftrightarrow> rid \<noteq> '''' \<and> canonical_components (ra_components ra) \<and> distinct (map xa_dir (ra_exits ra))
     \<and> (\<forall>e \<in> set (ra_exits ra). Valid (xa_dir e))"

lemma scanRoom_ok: "rd_Id rd \<noteq> '''' \<Longrightarrow> good_roomAcc (rd_Id rd) (snd (scanRoom inp zid ri rd))"
  using scanExits_ok[of inp zid "rd_Id rd" ri 0 "rd_Exits rd" "[]"] by (auto simp: scanRoom_def Let_def good_roomAcc_def validateComponents_ok)

lemma scanRooms_ok: "fmpred good_roomAcc rooms \<Longrightarrow> fmpred good_roomAcc (snd (scanRooms inp zid ri rds rooms))"
proof (induction rds arbitrary: ri rooms)
  case (Cons rd rds)
  have "fmpred good_roomAcc (fmupd (rd_Id rd) ra rooms)" if "scanRoom inp zid ri rd = (errs, ra)" "rd_Id rd \<noteq> ''''" for errs ra
    using scanRoom_ok[OF that(2), of inp zid ri] that(1) Cons.prems by (simp add: fmpred_upd)
  then show ?case using Cons by (auto split: prod.split)
qed simp

definition good_zoneAcc :: "ZoneID \<Rightarrow> zoneAcc \<Rightarrow> bool" where
  "good_zoneAcc zid z \<longleftrightarrow> zid \<noteq> '''' \<and> canonical_components (za_components z) \<and> fmpred good_roomAcc (za_rooms z)"

lemma scanZone_ok: "zd_Id def \<noteq> '''' \<Longrightarrow> good_zoneAcc (zd_Id def) (snd (scanZone inp def))"
  using scanRooms_ok[of fmempty] by (simp add: scanZone_def Let_def good_zoneAcc_def validateComponents_ok)

definition good_collected :: "collected \<Rightarrow> bool" where
  "good_collected c \<longleftrightarrow> fmpred good_zoneAcc (cl_byID c) \<and> distinct (cl_order c) \<and> set (cl_order c) = fmdom' (cl_byID c)"

lemma collect_ok: "good_collected c \<Longrightarrow> good_collected (collect c inp)"
  using scanZone_ok[of "the (in_Def inp)" inp]
  by (auto simp: collect_def good_collected_def fmpred_upd fmdom'_lookup split: option.split prod.split)

lemma foldl_collect_ok: "good_collected c \<Longrightarrow> good_collected (foldl collect c inputs)"
  by (induction inputs arbitrary: c) (simp_all add: collect_ok)

section \<open>What collecting reports\<close>

text \<open>Nothing found while collecting is a warning, and every code is registered.\<close>

definition refusal :: "ValidationError \<Rightarrow> bool" where
  "refusal e \<longleftrightarrow> ve_Code e \<in> set AllErrCodes \<and> ve_Code e \<notin> set warningCodes"

lemma refusal_not_warning: "refusal e \<Longrightarrow> \<not> IsWarning e strict"
  by (auto simp: refusal_def IsWarning_def warningCodes_def)

lemma refusal_code [simp]: "refusal (e\<lparr>ve_Line := l\<rparr>) = refusal e" "refusal (e\<lparr>ve_Zone := z\<rparr>) = refusal e" "refusal (e\<lparr>ve_Room := r\<rparr>) = refusal e"
  "refusal (e\<lparr>ve_Exit := d\<rparr>) = refusal e" "refusal (e\<lparr>ve_Component := t\<rparr>) = refusal e"
  "refusal (finding0 f code) \<longleftrightarrow> code \<in> set AllErrCodes \<and> code \<notin> set warningCodes"
  by (simp_all add: refusal_def finding0_def)

lemma scanFields_refusals: "refusal err \<Longrightarrow> list_all refusal (fst (scanFields spec err fds seen))"
  by (induction fds arbitrary: seen) (auto split: option.split)

lemma scanComponents_refusals: "list_all refusal (fst (scanComponents site i cds seen))"
proof (induction cds arbitrary: i seen)
  case (Cons cd cds)
  have "list_all refusal (snd (validateComponentFields cd spec site i))" for spec
    using scanFields_refusals[of "site_finding site i ''invalid_component_field''" spec "pbc_Fields cd" "[]"]
    by (auto simp: validateComponentFields_def site_finding_def AllErrCodes_def warningCodes_def split: prod.split)
  then have "list_all refusal (map (\<lambda>e. e\<lparr>ve_Component := t\<rparr>) (snd (validateComponentFields cd spec site i)))" for spec t
    by (simp add: list_all_iff)
  then show ?case using Cons
    by (auto simp: Let_def site_finding_def AllErrCodes_def warningCodes_def split: option.split prod.split) (metis snd_conv)+
qed simp

lemma validateComponents_refusals: "list_all refusal (snd (validateComponents defs site))"
  using scanComponents_refusals[of site 0 defs "[]"] by (auto simp: validateComponents_def split: prod.split)

lemma scanExits_refusals: "list_all refusal (fst (scanExits inp zid rid ri ei eds seen))"
  by (induction eds arbitrary: ei seen) (auto simp: Let_def AllErrCodes_def warningCodes_def)

lemma scanRooms_refusals: "list_all refusal (fst (scanRooms inp zid ri rds rooms))"
proof (induction rds arbitrary: ri rooms)
  case (Cons rd rds)
  have "list_all refusal (fst (scanRoom inp zid ri rd))"
    by (simp add: scanRoom_def Let_def validateComponents_refusals scanExits_refusals)
  then show ?case using Cons by (auto simp: AllErrCodes_def warningCodes_def split: prod.split)
qed simp

lemma scanZone_refusals: "list_all refusal (fst (scanZone inp def))"
  by (simp add: scanZone_def Let_def validateComponents_refusals scanRooms_refusals)

lemma collect_refusals: "list_all refusal (cl_errs c) \<Longrightarrow> list_all refusal (cl_errs (collect c inp))"
proof -
  have "refusal (finding0 f ''malformed_file'')" "refusal (finding0 f ''unsupported_format_version'')" "refusal (finding0 f ''duplicate_zone'')"
    "refusal (finding0 f ''duplicate_room'')" for f by (simp_all add: AllErrCodes_def warningCodes_def)
  then show "list_all refusal (cl_errs c) \<Longrightarrow> ?thesis"
    using scanZone_refusals[of inp "the (in_Def inp)"]
    by (auto simp: collect_def list_all_iff split: option.split prod.split)
qed

lemma foldl_collect_refusals: "list_all refusal (cl_errs c) \<Longrightarrow> list_all refusal (cl_errs (foldl collect c inputs))"
  by (induction inputs arbitrary: c) (simp_all add: collect_refusals)

lemma checks_codes:
  assumes "e \<in> set (checks byID order)"
  shows "ve_Code e \<in> set AllErrCodes"
proof -
  have z: "e \<in> set (perZone byID order f) \<Longrightarrow> \<exists>zid z. e \<in> set (f zid z)" for f
    by (auto simp: perZone_def split: option.splits)
  have x: "e \<in> set (perExit f zid z) \<Longrightarrow> \<exists>r rid x. e \<in> set (f zid r rid x)" for f zid z
    by (fastforce simp: perExit_def split: prod.splits)
  consider zid zz where "e \<in> set (fallbackFindings zid zz)" | zid r rid x where "e \<in> set (exitFinding byID zid r rid x)"
    | zid r rid x where "e \<in> set (reverseFinding byID zid r rid x)" | zid zz where "e \<in> set (orphanFindings zid zz)"
    using assms z x unfolding checks_def by (metis Un_iff set_append)
  then show ?thesis
    by cases (auto simp: fallbackFindings_def exitFinding_def reverseFinding_def orphanFindings_def Let_def finding0_def AllErrCodes_def
        split: if_splits option.splits prod.splits)
qed

section \<open>Clean content\<close>

text \<open>Content with nothing to refuse while collecting: a condition on each input, and distinct Zone IDs.\<close>

definition clean_input :: "Input \<Rightarrow> bool" where
  "clean_input inp \<longleftrightarrow> (case in_Def inp of None \<Rightarrow> False | Some def \<Rightarrow> zd_FormatVersion def = 1 \<and> zd_Id def \<noteq> '''' \<and> fst (scanZone inp def) = [])"

definition input_id :: "Input \<Rightarrow> ZoneID" where
  "input_id inp = (case in_Def inp of None \<Rightarrow> '''' | Some def \<Rightarrow> zd_Id def)"

definition input_acc :: "Input \<Rightarrow> zoneAcc" where
  "input_acc inp = snd (scanZone inp (the (in_Def inp)))"

definition clean :: "Input list \<Rightarrow> bool" where
  "clean inputs \<longleftrightarrow> list_all clean_input inputs \<and> distinct (map input_id inputs)"

definition collect0 :: collected where
  "collect0 = \<lparr>cl_errs = [], cl_byID = fmempty, cl_order = []\<rparr>"

lemma collect_errs: "\<exists>es. cl_errs (collect c inp) = cl_errs c @ es"
  by (auto simp: collect_def split: option.split prod.split)

lemma version_ok: "\<not> (v < MinFormatVersion \<or> v > MaxFormatVersion) \<longleftrightarrow> v = 1" for v :: u32
  by (auto simp: MinFormatVersion_def MaxFormatVersion_def word_less_nat_alt word_unat_eq_iff)

lemma collect_clean:
  assumes "cl_errs (collect c inp) = []"
  shows "cl_errs c = []" "clean_input inp" "fmlookup (cl_byID c) (input_id inp) = None"
    "collect c inp = c\<lparr>cl_byID := fmupd (input_id inp) (input_acc inp) (cl_byID c), cl_order := cl_order c @ [input_id inp]\<rparr>"
proof -
  show e: "cl_errs c = []" using assms collect_errs[of c inp] by auto
  obtain def where d: "in_Def inp = Some def" using assms by (cases "in_Def inp") (simp_all add: collect_def)
  have v: "zd_FormatVersion def = 1" using assms version_ok[of "zd_FormatVersion def"] d by (auto simp: collect_def split: if_splits)
  have n: "zd_Id def \<noteq> ''''" using assms d by (auto simp: collect_def split: if_splits)
  have f: "fmlookup (cl_byID c) (zd_Id def) = None" using assms d v n version_ok[of 1] by (cases "fmlookup (cl_byID c) (zd_Id def)") (simp_all add: collect_def)
  have s: "fst (scanZone inp def) = []" using assms d v n f version_ok[of 1] by (simp add: collect_def split: prod.splits)
  show "clean_input inp" "fmlookup (cl_byID c) (input_id inp) = None" using d v n f s by (simp_all add: clean_input_def input_id_def)
  show "collect c inp = c\<lparr>cl_byID := fmupd (input_id inp) (input_acc inp) (cl_byID c), cl_order := cl_order c @ [input_id inp]\<rparr>"
    using d v n f s version_ok[of 1] by (cases "scanZone inp def") (simp add: collect_def input_id_def input_acc_def)
qed

lemma clean_collect:
  assumes "clean_input inp" "fmlookup (cl_byID c) (input_id inp) = None"
  shows "collect c inp = c\<lparr>cl_byID := fmupd (input_id inp) (input_acc inp) (cl_byID c), cl_order := cl_order c @ [input_id inp]\<rparr>"
  using assms version_ok[of 1] by (auto simp: collect_def clean_input_def input_id_def input_acc_def split: option.splits prod.split)

lemma foldl_collect_clean:
  "cl_errs (foldl collect collect0 inputs) = [] \<longleftrightarrow> clean inputs"
  "clean inputs \<Longrightarrow> cl_order (foldl collect collect0 inputs) = map input_id inputs
     \<and> fmlookup (cl_byID (foldl collect collect0 inputs)) = map_of (map (\<lambda>i. (input_id i, input_acc i)) inputs)"
proof (induction inputs rule: rev_induct)
  case Nil
  { case 1 show ?case by (simp add: clean_def collect0_def) next case 2 show ?case by (simp add: collect0_def) }
next
  case (snoc inp inputs)
  let ?c = "foldl collect collect0 inputs"
  have dom: "fmlookup (cl_byID ?c) (input_id inp) = None \<longleftrightarrow> input_id inp \<notin> set (map input_id inputs)" if "clean inputs"
    using snoc(2)[OF that] by (force simp: map_of_eq_None_iff)
  have cl: "clean (inputs @ [inp]) \<longleftrightarrow> clean inputs \<and> clean_input inp \<and> input_id inp \<notin> set (map input_id inputs)" by (auto simp: clean_def)
  {
    case 1
    show ?case
    proof
      assume "cl_errs (foldl collect collect0 (inputs @ [inp])) = []"
      then have "cl_errs (collect ?c inp) = []" by simp
      from collect_clean[OF this] snoc(1) dom cl show "clean (inputs @ [inp])" by simp
    next
      assume "clean (inputs @ [inp])"
      with cl dom have "clean inputs" "clean_input inp" "fmlookup (cl_byID ?c) (input_id inp) = None" by simp_all
      with clean_collect[of inp ?c] snoc(1) show "cl_errs (foldl collect collect0 (inputs @ [inp])) = []" by simp
    qed
  next
    case 2
    then have "clean inputs" "clean_input inp" "fmlookup (cl_byID ?c) (input_id inp) = None" "input_id inp \<notin> set (map input_id inputs)" using cl dom by auto
    with clean_collect[of inp ?c] snoc(2) show ?case by (auto simp: fun_eq_iff map_add_def split: option.split)
  }
qed

section \<open>What a built World is\<close>

lemma refusals_none:
  assumes "filter (\<lambda>e. \<not> IsWarning e strict) (cl_errs c @ checks byID order) = []" "list_all refusal (cl_errs c)"
  shows "cl_errs c = []" "e \<in> set (checks byID order) \<Longrightarrow> IsWarning e strict"
  using assms by (auto simp: filter_empty_conv list_all_iff dest: refusal_not_warning) (metis list.set_intros(1) neq_Nil_conv refusal_not_warning)

lemma lookup_map_entries: "fmlookup (fmap_of_list (map (\<lambda>(k, v). (k, f k v)) (entries m))) k = map_option (f k) (fmlookup m k)"
proof -
  have "map_of (map (\<lambda>(k, v). (k, f k v)) xs) k = map_option (f k) (map_of xs k)" for xs by (induction xs) auto
  then show ?thesis by (simp add: fmap_of_list.rep_eq)
qed

lemma good_collect0: "good_collected collect0" "list_all refusal (cl_errs collect0)"
  by (simp_all add: good_collected_def collect0_def)

lemma BuildWorld_Some:
  assumes "BuildWorld inputs opts = (Some w, errs)"
  defines "byID \<equiv> cl_byID (foldl collect collect0 inputs)"
  shows "inputs \<noteq> []" "clean inputs" "errs = checks byID (sort (map input_id inputs))" "\<forall>e \<in> set errs. IsWarning e (op_StrictOrphans opts)"
    "fmlookup (w_Zones w) zid = map_option (buildZone zid) (fmlookup byID zid)" "fmpred good_zoneAcc byID" "set (map input_id inputs) = fmdom' byID"
proof -
  define c where "c = foldl collect collect0 inputs"
  have r: "list_all refusal (cl_errs c)" and g: "good_collected c"
    unfolding c_def using foldl_collect_refusals foldl_collect_ok good_collect0 by blast+
  show "inputs \<noteq> []" using assms(1) by (auto simp: BuildWorld_def)
  then have f: "filter (\<lambda>e. \<not> IsWarning e (op_StrictOrphans opts)) (cl_errs c @ checks (cl_byID c) (sort (cl_order c))) = []"
    and w: "w = \<lparr>w_Zones = fmap_of_list (map (\<lambda>zid. (zid, buildZone zid (the (fmlookup (cl_byID c) zid)))) (sort (cl_order c)))\<rparr>"
    and e: "errs = cl_errs c @ checks (cl_byID c) (sort (cl_order c))"
    using assms(1) by (auto simp: BuildWorld_def Let_def c_def collect0_def split: if_splits)
  note n = refusals_none[OF f r]
  show cl: "clean inputs" using n(1) foldl_collect_clean(1) by (simp add: c_def)
  have o: "cl_order c = map input_id inputs" using foldl_collect_clean(2)[OF cl] by (simp add: c_def)
  show "errs = checks byID (sort (map input_id inputs))" using e n(1) o by (simp add: byID_def c_def)
  show "\<forall>e \<in> set errs. IsWarning e (op_StrictOrphans opts)" using n(2) e n(1) by simp
  show "fmpred good_zoneAcc byID" "set (map input_id inputs) = fmdom' byID"
    using g o by (simp_all add: good_collected_def byID_def c_def)
  have "fmlookup (fmap_of_list (map (\<lambda>zid. (zid, buildZone zid (the (fmlookup (cl_byID c) zid)))) xs)) zid =
      (if zid \<in> set xs then Some (buildZone zid (the (fmlookup (cl_byID c) zid))) else None)" for xs
    by (simp add: fmap_of_list.rep_eq map_of_map_restrict restrict_map_def o_def)
  then show "fmlookup (w_Zones w) zid = map_option (buildZone zid) (fmlookup byID zid)"
    using g by (auto simp: w good_collected_def byID_def c_def fmdom'_lookup)
qed

lemma perZone_empty: "zid \<in> set order \<Longrightarrow> fmlookup byID zid = Some z \<Longrightarrow> \<forall>e \<in> set (perZone byID order f). P e \<Longrightarrow> \<forall>e \<in> set (f zid z). P e"
  by (force simp: perZone_def)

lemma perExit_empty: "fmlookup (za_rooms z) rid = Some r \<Longrightarrow> e \<in> set (ra_exits r) \<Longrightarrow> \<forall>x \<in> set (perExit f zid z). P x \<Longrightarrow> \<forall>x \<in> set (f zid r rid e). P x"
  by (force simp: perExit_def set_entries[symmetric])

lemma built_clean:
  assumes b: "BuildWorld inputs opts = (Some w, errs)" and z: "fmlookup (cl_byID (foldl collect collect0 inputs)) zid = Some z"
  shows "fmlookup (za_rooms z) (za_fallback z) \<noteq> None"
    "fmlookup (za_rooms z) rid = Some r \<Longrightarrow> e \<in> set (ra_exits r) \<Longrightarrow> Resolve w \<lparr>rr_Zone = xa_toZone e, rr_Room = xa_toRoom e\<rparr> \<noteq> None"
proof -
  define byID where "byID = cl_byID (foldl collect collect0 inputs)"
  note w = BuildWorld_Some[OF b, folded byID_def]
  have zid: "zid \<in> set (sort (map input_id inputs))" using w(7) z by (simp add: byID_def fmdom'_lookup)
  have c: "\<forall>e \<in> set (checks byID (sort (map input_id inputs))). IsWarning e (op_StrictOrphans opts)" using w(3,4) by simp
  have "\<forall>e \<in> set (fallbackFindings zid z). IsWarning e (op_StrictOrphans opts)"
    by (rule perZone_empty[OF zid z]) (use c in \<open>simp add: checks_def byID_def\<close>)
  then show "fmlookup (za_rooms z) (za_fallback z) \<noteq> None"
    by (auto simp: fallbackFindings_def IsWarning_def finding0_def warningCodes_def split: if_splits)
  assume r: "fmlookup (za_rooms z) rid = Some r" "e \<in> set (ra_exits r)"
  have "\<forall>x \<in> set (perExit (exitFinding byID) zid z). IsWarning x (op_StrictOrphans opts)"
    by (rule perZone_empty[OF zid z]) (use c in \<open>simp add: checks_def byID_def\<close>)
  from perExit_empty[OF r this] obtain tz where "fmlookup byID (xa_toZone e) = Some tz" "fmlookup (za_rooms tz) (xa_toRoom e) \<noteq> None"
    by (auto simp: exitFinding_def IsWarning_def finding0_def warningCodes_def split: option.splits if_splits)
  then show "Resolve w \<lparr>rr_Zone = xa_toZone e, rr_Room = xa_toRoom e\<rparr> \<noteq> None"
    using w(5)[of "xa_toZone e"] by (auto simp: Resolve_def buildZone_def lookup_map_entries)
qed

lemma BuildWorld_wf:
  assumes b: "BuildWorld inputs opts = (Some w, errs)"
  shows "wf_world w" "canonical_world w"
proof -
  note w = BuildWorld_Some[OF b]
  have zone: "wf_zone w zid z \<and> good_topo_zone (zid, z)" if zl: "fmlookup (w_Zones w) zid = Some z" for zid z
  proof -
    obtain a where a: "fmlookup (cl_byID (foldl collect collect0 inputs)) zid = Some a" "z = buildZone zid a" using w(5)[of zid] zl by (metis map_option_eq_Some)
    have g: "good_zoneAcc zid a" using w(6) a(1) by (simp add: fmpred_iff)
    have room: "wf_room w zid rid r \<and> good_room (rid, r)" if rl: "fmlookup (zn_Rooms z) rid = Some r" for rid r
    proof -
      obtain ra where ra: "fmlookup (za_rooms a) rid = Some ra" "r = buildRoom zid rid ra" using rl a(2) by (auto simp: buildZone_def lookup_map_entries)
      have "wf_exit w zid (buildExit zid e)" if "e \<in> set (ra_exits ra)" for e
        using built_clean(2)[OF b a(1) ra(1) that] by (simp add: wf_exit_def buildExit_def)
      then show ?thesis using g ra by (auto simp: wf_room_def good_room_def buildRoom_def list_all_iff good_zoneAcc_def fmpred_iff good_roomAcc_def)
    qed
    have "fmlookup (zn_Rooms z) (zn_Fallback z) \<noteq> None"
      using built_clean(1)[OF b a(1)] by (simp add: a(2) buildZone_def lookup_map_entries)
    then have "zn_Fallback z |\<in>| fmdom (zn_Rooms z)" by (metis fmdom_notD)
    then show ?thesis using g room a(2)
      by (auto simp: wf_zone_def good_topo_zone_def fmpred_iff list_all_iff set_entries good_zoneAcc_def buildZone_def)
  qed
  show "wf_world w" using zone by (simp add: wf_world_def fmpred_iff)
  show "canonical_world w" using zone by (auto simp: canonical_world_def list_all_iff set_entries)
qed

section \<open>Sample content\<close>

text \<open>A town of two Rooms, with a way to a crypt and back.\<close>

definition sample_room :: "string \<Rightarrow> ExitDefinition list \<Rightarrow> RoomDefinition" where
  "sample_room rid exits = \<lparr>rd_Id = rid, rd_Title = rid, rd_Description = '''', rd_Exits = exits, rd_Components = []\<rparr>"

definition sample_input :: "string \<Rightarrow> string \<Rightarrow> RoomDefinition list \<Rightarrow> Input" where
  "sample_input zid fallback rooms = \<lparr>in_File = zid @ ''.json'', in_Def = Some \<lparr>zd_FormatVersion = 1, zd_Id = zid, zd_Name = zid,
     zd_FallbackRoom = fallback, zd_Rooms = rooms, zd_Components = []\<rparr>, in_Pos = None\<rparr>"

definition sample_content :: "Input list" where
  "sample_content = [
     sample_input ''town'' ''plaza'' [
       sample_room ''plaza'' [\<lparr>ed_Direction = ''north'', ed_ToZone = '''', ed_ToRoom = ''gate''\<rparr>, \<lparr>ed_Direction = ''east'', ed_ToZone = ''crypt'', ed_ToRoom = ''hall''\<rparr>],
       sample_room ''gate'' [\<lparr>ed_Direction = ''south'', ed_ToZone = '''', ed_ToRoom = ''plaza''\<rparr>]],
     sample_input ''crypt'' ''hall'' [sample_room ''hall'' [\<lparr>ed_Direction = ''west'', ed_ToZone = ''town'', ed_ToRoom = ''plaza''\<rparr>]]]"

lemma sample_built: "\<exists>w errs. BuildWorld sample_content \<lparr>op_StrictOrphans = True\<rparr> = (Some w, errs)"
proof -
  have "fst (BuildWorld sample_content \<lparr>op_StrictOrphans = True\<rparr>) \<noteq> None" by code_simp
  then show ?thesis by (metis not_None_eq prod.collapse)
qed

text \<open>
  C24. What BuildWorld builds is what every reader of a World assumes: keys agree with IDs, none is
  empty, every Zone's fallback is one of its Rooms and its Partition the hash of its ID, every Exit
  leads to a Room that exists and knows whether it leaves its Zone, a Room's Exits are in Direction
  order with no Direction twice and none outside the vocabulary, Component sets are canonical. What
  remains to report is advisory.
\<close>
theorem BuildWorld_wellformed:
  assumes "BuildWorld inputs opts = (Some w, errs)"
  shows "wf_world w \<and> canonical_world w \<and> (\<forall>e \<in> set errs. IsWarning e (op_StrictOrphans opts))
     \<and> (\<forall>ref room. Resolve w ref = Some room \<longrightarrow> sorted_wrt (<) (map ex_Direction (rm_Exits room)) \<and> (\<forall>e \<in> set (rm_Exits room). Valid (ex_Direction e)))"
proof -
  note w = BuildWorld_Some[OF assms]
  have "sorted_wrt (<) (map ex_Direction (rm_Exits room)) \<and> (\<forall>e \<in> set (rm_Exits room). Valid (ex_Direction e))"
    if rl: "Resolve w ref = Some room" for ref room
  proof -
    obtain a ra where a: "fmlookup (cl_byID (foldl collect collect0 inputs)) (rr_Zone ref) = Some a" "fmlookup (za_rooms a) (rr_Room ref) = Some ra"
      and r: "room = buildRoom (rr_Zone ref) (rr_Room ref) ra"
      using rl w(5)[of "rr_Zone ref"] by (auto simp: Resolve_def buildZone_def lookup_map_entries split: option.splits)
    have g: "good_roomAcc (rr_Room ref) ra" using w(6) a by (auto simp: fmpred_iff good_zoneAcc_def)
    have "map ex_Direction (map (buildExit (rr_Zone ref)) (ra_exits ra)) = map xa_dir (ra_exits ra)" by (simp add: buildExit_def)
    then have "distinct (map ex_Direction (map (buildExit (rr_Zone ref)) (ra_exits ra)))" using g by (simp only: good_roomAcc_def)
    then have "distinct (map ex_Direction (rm_Exits room))" by (simp add: r buildRoom_def distinct_map_sort_key)
    moreover have "sorted (map ex_Direction (rm_Exits room))" by (simp add: r buildRoom_def)
    ultimately show ?thesis using g by (auto simp: strict_sorted_iff r buildRoom_def good_roomAcc_def buildExit_def)
  qed
  then show ?thesis using BuildWorld_wf[OF assms] w(4) by blast
qed

theorem BuildWorld_wellformed_witness:
  "\<exists>w errs. BuildWorld sample_content \<lparr>op_StrictOrphans = True\<rparr> = (Some w, errs) \<and> wf_world w \<and> canonical_world w"
  using sample_built BuildWorld_wellformed by blast

text \<open>
  C25. Content is refused exactly when something other than a warning was found, and a refusal reports
  the refusals alone, at least one, each with a registered code. Without content the one finding
  says so.
\<close>
theorem BuildWorld_refusals:
  "case BuildWorld inputs opts of
     (None, errs) \<Rightarrow> errs \<noteq> [] \<and> (\<forall>e \<in> set errs. \<not> IsWarning e (op_StrictOrphans opts) \<and> ve_Code e \<in> set AllErrCodes)
   | (Some w, errs) \<Rightarrow> inputs \<noteq> [] \<and> (\<forall>e \<in> set errs. IsWarning e (op_StrictOrphans opts) \<and> ve_Code e \<in> set AllErrCodes)"
proof -
  define c where "c = foldl collect collect0 inputs"
  have "list_all refusal (cl_errs c)" unfolding c_def using foldl_collect_refusals good_collect0 by blast
  then have codes: "\<forall>e \<in> set (cl_errs c @ checks (cl_byID c) (sort (cl_order c))). ve_Code e \<in> set AllErrCodes"
    using checks_codes by (auto simp: list_all_iff refusal_def)
  show ?thesis
  proof (cases "BuildWorld inputs opts")
    case (Pair ow errs)
    show ?thesis
    proof (cases ow)
      case (Some w)
      then show ?thesis using BuildWorld_Some(1,3,4)[of inputs opts w errs] Pair checks_codes by auto
    next
      case None
      show ?thesis
      proof (cases "inputs = []")
        case True
        then show ?thesis by (simp add: BuildWorld_def IsWarning_def finding0_def warningCodes_def AllErrCodes_def)
      next
        case False
        then have e: "errs = filter (\<lambda>e. \<not> IsWarning e (op_StrictOrphans opts)) (cl_errs c @ checks (cl_byID c) (sort (cl_order c)))" "errs \<noteq> []"
          using Pair None by (auto simp: BuildWorld_def Let_def c_def collect0_def split: if_splits)
        have "\<forall>x \<in> set errs. \<not> IsWarning x (op_StrictOrphans opts) \<and> ve_Code x \<in> set AllErrCodes"
          using codes unfolding e(1) by auto
        then show ?thesis using Pair None e(2) by simp
      qed
    qed
  qed
qed

theorem BuildWorld_refusals_witness:
  "\<exists>errs. BuildWorld [sample_input ''town'' ''nowhere'' []] \<lparr>op_StrictOrphans = False\<rparr> = (None, errs) \<and> errs \<noteq> []
     \<and> list_all (\<lambda>e. \<not> IsWarning e False) errs"
proof -
  have "fst (BuildWorld [sample_input ''town'' ''nowhere'' []] \<lparr>op_StrictOrphans = False\<rparr>) = None" by code_simp
  then obtain errs where b: "BuildWorld [sample_input ''town'' ''nowhere'' []] \<lparr>op_StrictOrphans = False\<rparr> = (None, errs)" by (metis prod.collapse)
  with BuildWorld_refusals[where inputs = "[sample_input ''town'' ''nowhere'' []]" and opts = "\<lparr>op_StrictOrphans = False\<rparr>"] show ?thesis by (auto simp: list_all_iff)
qed

lemma BuildWorld_clean:
  assumes "clean inputs" "inputs \<noteq> []"
  defines "byID \<equiv> cl_byID (foldl collect collect0 inputs)" and "order \<equiv> sort (map input_id inputs)"
  shows "BuildWorld inputs opts =
     (if filter (\<lambda>e. \<not> IsWarning e (op_StrictOrphans opts)) (checks byID order) \<noteq> [] then
        (None, filter (\<lambda>e. \<not> IsWarning e (op_StrictOrphans opts)) (checks byID order))
      else (Some \<lparr>w_Zones = fmap_of_list (map (\<lambda>zid. (zid, buildZone zid (the (fmlookup byID zid)))) order)\<rparr>, checks byID order))"
proof -
  have "cl_errs (foldl collect collect0 inputs) = []" "cl_order (foldl collect collect0 inputs) = map input_id inputs"
    using foldl_collect_clean assms(1) by blast+
  then show ?thesis using assms(2) unfolding BuildWorld_def Let_def collect0_def[symmetric] byID_def order_def by simp
qed

lemma clean_perm:
  assumes "clean xs" "mset xs = mset ys"
  shows "clean ys" "cl_byID (foldl collect collect0 xs) = cl_byID (foldl collect collect0 ys)" "sort (map input_id xs) = sort (map input_id ys)"
proof -
  have s: "set xs = set ys" using assms(2) by (rule mset_eq_setD)
  have m: "mset (map input_id xs) = mset (map input_id ys)" using assms(2) by simp
  show c: "clean ys" using assms(1) s mset_eq_imp_distinct_iff[OF m] by (simp add: clean_def list_all_iff)
  have "map_of (map (\<lambda>i. (input_id i, input_acc i)) xs) = map_of (map (\<lambda>i. (input_id i, input_acc i)) ys)"
    using assms(1) c s by (subst map_of_inject_set) (simp_all add: clean_def comp_def)
  then show "cl_byID (foldl collect collect0 xs) = cl_byID (foldl collect collect0 ys)"
    using foldl_collect_clean(2)[OF assms(1)] foldl_collect_clean(2)[OF c] by (metis fmap_ext)
  show "sort (map input_id xs) = sort (map input_id ys)" using m by (metis properties_for_sort mset_sort sorted_sort)
qed

text \<open>
  C26. The order in which content is read does not matter: a list of Zone Definitions and any
  permutation of it build the same World, or neither is built.
\<close>
theorem BuildWorld_order_irrelevant:
  assumes "mset inputs = mset inputs'"
  shows "fst (BuildWorld inputs opts) = fst (BuildWorld inputs' opts)"
proof -
  have built: "fst (BuildWorld ys opts) = Some w" if p: "mset xs = mset ys" and b: "fst (BuildWorld xs opts) = Some w" for xs ys w
  proof -
    obtain errs where "BuildWorld xs opts = (Some w, errs)" using b by (metis fst_conv surj_pair)
    from BuildWorld_Some(1,2)[OF this] have x: "xs \<noteq> []" "clean xs" by simp_all
    then have "ys \<noteq> []" using p by auto
    then have "BuildWorld ys opts = BuildWorld xs opts"
      using BuildWorld_clean[OF x(2,1), of opts] BuildWorld_clean[OF clean_perm(1)[OF x(2) p], of opts] clean_perm(2,3)[OF x(2) p] by simp
    with b show ?thesis by simp
  qed
  show ?thesis
  proof (cases "fst (BuildWorld inputs opts)")
    case None
    then show ?thesis using built[OF assms[symmetric]] by (cases "fst (BuildWorld inputs' opts)") auto
  next
    case (Some w)
    then show ?thesis using built[OF assms] by simp
  qed
qed

theorem BuildWorld_order_irrelevant_witness:
  "\<exists>w. fst (BuildWorld (rev sample_content) \<lparr>op_StrictOrphans = True\<rparr>) = Some w
     \<and> fst (BuildWorld sample_content \<lparr>op_StrictOrphans = True\<rparr>) = Some w"
  using sample_built BuildWorld_order_irrelevant[of "rev sample_content" sample_content "\<lparr>op_StrictOrphans = True\<rparr>"] by auto

section \<open>What is built is what is declared\<close>

text \<open>Without a finding, a scan keeps every element.\<close>

definition declared_target :: "ZoneID \<Rightarrow> ExitDefinition \<Rightarrow> Direction \<times> RoomRef" where
  "declared_target zid ed = (ed_Direction ed, \<lparr>rr_Zone = (if ed_ToZone ed = '''' then zid else ed_ToZone ed), rr_Room = ed_ToRoom ed\<rparr>)"

lemma scanExits_keeps:
  "fst (scanExits inp zid rid ri ei eds seen) = [] \<Longrightarrow>
   map (\<lambda>e. (xa_dir e, \<lparr>rr_Zone = xa_toZone e, rr_Room = xa_toRoom e\<rparr>)) (snd (scanExits inp zid rid ri ei eds seen)) = map (declared_target zid) eds"
proof (induction eds arbitrary: ei seen)
  case (Cons ed eds)
  then show ?case using Cons.IH[of "ei + 1" "ed_Direction ed # seen"]
    by (auto simp: Let_def declared_target_def split: if_splits)
qed simp

lemma scanComponents_keeps:
  "fst (scanComponents site i cds seen) = [] \<Longrightarrow> map comp_Type (snd (scanComponents site i cds seen)) = map pbc_Type cds"
proof (induction cds arbitrary: i seen)
  case (Cons cd cds)
  then show ?case using Cons.IH[of "i + 1" "pbc_Type cd # seen"]
    by (auto simp: Let_def split: if_splits option.splits prod.splits)
qed simp

lemma validateComponents_keeps:
  "snd (validateComponents defs site) = [] \<Longrightarrow> mset (map comp_Type (fst (validateComponents defs site))) = mset (map pbc_Type defs)"
  using scanComponents_keeps[of site 0 defs "[]"] by (auto simp: validateComponents_def split: prod.splits) (metis mset_map)

definition keeps_room :: "ZoneID \<Rightarrow> RoomDefinition \<Rightarrow> roomAcc \<Rightarrow> bool" where
  "keeps_room zid rd ra \<longleftrightarrow> ra_title ra = rd_Title rd \<and> ra_desc ra = rd_Description rd
     \<and> map (\<lambda>e. (xa_dir e, \<lparr>rr_Zone = xa_toZone e, rr_Room = xa_toRoom e\<rparr>)) (ra_exits ra) = map (declared_target zid) (rd_Exits rd)
     \<and> mset (map comp_Type (ra_components ra)) = mset (map pbc_Type (rd_Components rd))"

lemma scanRoom_keeps: "fst (scanRoom inp zid ri rd) = [] \<Longrightarrow> keeps_room zid rd (snd (scanRoom inp zid ri rd))"
  by (simp add: scanRoom_def Let_def keeps_room_def scanExits_keeps validateComponents_keeps del: mset_map)

lemma scanRooms_keeps:
  assumes "fst (scanRooms inp zid ri rds rooms) = []"
  shows "distinct (map rd_Id rds) \<and> (\<forall>rd \<in> set rds. fmlookup rooms (rd_Id rd) = None)
    \<and> fmdom' (snd (scanRooms inp zid ri rds rooms)) = fmdom' rooms \<union> rd_Id ` set rds
    \<and> (\<forall>rid. rid \<notin> rd_Id ` set rds \<longrightarrow> fmlookup (snd (scanRooms inp zid ri rds rooms)) rid = fmlookup rooms rid)
    \<and> (\<forall>rd \<in> set rds. \<exists>ra. fmlookup (snd (scanRooms inp zid ri rds rooms)) (rd_Id rd) = Some ra \<and> keeps_room zid rd ra)"
  using assms
proof (induction rds arbitrary: ri rooms)
  case (Cons rd rds)
  let ?ra = "snd (scanRoom inp zid ri rd)"
  have e: "rd_Id rd \<noteq> ''''" "fmlookup rooms (rd_Id rd) = None" "fst (scanRoom inp zid ri rd) = []"
    and rest: "fst (scanRooms inp zid (ri + 1) rds (fmupd (rd_Id rd) ?ra rooms)) = []"
    using Cons.prems by (auto split: if_splits prod.splits)
  have s: "snd (scanRooms inp zid ri (rd # rds) rooms) = snd (scanRooms inp zid (ri + 1) rds (fmupd (rd_Id rd) ?ra rooms))"
    using e by (simp split: prod.split)
  note IH = Cons.IH[OF rest]
  have "rd_Id rd \<notin> rd_Id ` set rds" using IH by auto
  then show ?case using IH e scanRoom_keeps[OF e(3)] unfolding s by (auto split: if_splits)
qed simp

definition matches_room :: "ZoneID \<Rightarrow> RoomDefinition \<Rightarrow> Room \<Rightarrow> bool" where
  "matches_room zid rd r \<longleftrightarrow> rm_Title r = rd_Title rd \<and> rm_Description r = rd_Description rd
     \<and> mset (map (\<lambda>e. (ex_Direction e, ex_To e)) (rm_Exits r)) = mset (map (declared_target zid) (rd_Exits rd))
     \<and> mset (map comp_Type (rm_Components r)) = mset (map pbc_Type (rd_Components rd))"

lemma buildRoom_matches: "keeps_room zid rd ra \<Longrightarrow> matches_room zid rd (buildRoom zid rid ra)"
proof -
  assume k: "keeps_room zid rd ra"
  have "mset (map (\<lambda>e. (ex_Direction e, ex_To e)) (map (buildExit zid) (ra_exits ra))) = mset (map (declared_target zid) (rd_Exits rd))"
    using k by (simp add: keeps_room_def comp_def buildExit_def del: mset_map)
  then show ?thesis using k by (simp add: matches_room_def keeps_room_def buildRoom_def del: map_map)
qed

lemma buildZone_rooms: "fmlookup (zn_Rooms (buildZone zid z)) rid = map_option (buildRoom zid rid) (fmlookup (za_rooms z) rid)"
  by (simp add: buildZone_def lookup_map_entries)

lemma input_acc_rooms:
  assumes "clean_input inp" "in_Def inp = Some def"
  shows "distinct (map rd_Id (zd_Rooms def))" "fmdom' (za_rooms (input_acc inp)) = rd_Id ` set (zd_Rooms def)"
    "rd \<in> set (zd_Rooms def) \<Longrightarrow> \<exists>ra. fmlookup (za_rooms (input_acc inp)) (rd_Id rd) = Some ra \<and> keeps_room (zd_Id def) rd ra"
proof -
  have f: "fst (scanRooms inp (zd_Id def) 0 (zd_Rooms def) fmempty) = []"
    and s: "za_rooms (input_acc inp) = snd (scanRooms inp (zd_Id def) 0 (zd_Rooms def) fmempty)"
    using assms by (simp_all add: clean_input_def scanZone_def Let_def input_acc_def)
  show "distinct (map rd_Id (zd_Rooms def))" "fmdom' (za_rooms (input_acc inp)) = rd_Id ` set (zd_Rooms def)"
    "rd \<in> set (zd_Rooms def) \<Longrightarrow> \<exists>ra. fmlookup (za_rooms (input_acc inp)) (rd_Id rd) = Some ra \<and> keeps_room (zd_Id def) rd ra"
    using scanRooms_keeps[OF f] unfolding s by simp_all
qed

lemma BuildWorld_zone:
  assumes "BuildWorld inputs opts = (Some w, errs)" "inp \<in> set inputs"
  shows "fmlookup (w_Zones w) (input_id inp) = Some (buildZone (input_id inp) (input_acc inp))"
proof -
  note w = BuildWorld_Some[OF assms(1)]
  have "map_of (map (\<lambda>i. (input_id i, input_acc i)) inputs) (input_id inp) = Some (input_acc inp)"
    using w(2) assms(2) by (intro map_of_is_SomeI) (auto simp: clean_def comp_def)
  then show ?thesis using foldl_collect_clean(2)[OF w(2)] w(5)[of "input_id inp"] by simp
qed

text \<open>
  C27. BuildWorld adds nothing and drops nothing: a World that is built has one Zone per definition, with
  the definition's name and fallback, and in it one Room per Room definition, with its title and
  description, its Exits, a target without a Zone meaning the Zone itself, and its Component types.
\<close>
theorem BuildWorld_builds_what_is_declared:
  assumes "BuildWorld inputs opts = (Some w, errs)"
  shows "distinct (map input_id inputs) \<and> fmdom' (w_Zones w) = input_id ` set inputs
     \<and> (\<forall>inp \<in> set inputs. \<exists>def z. in_Def inp = Some def \<and> fmlookup (w_Zones w) (zd_Id def) = Some z \<and> zn_Name z = zd_Name def
          \<and> zn_Fallback z = zd_FallbackRoom def \<and> distinct (map rd_Id (zd_Rooms def)) \<and> fmdom' (zn_Rooms z) = rd_Id ` set (zd_Rooms def)
          \<and> (\<forall>rd \<in> set (zd_Rooms def). \<exists>r. fmlookup (zn_Rooms z) (rd_Id rd) = Some r \<and> rm_Title r = rd_Title rd
               \<and> rm_Description r = rd_Description rd
               \<and> mset (map (\<lambda>e. (ex_Direction e, ex_To e)) (rm_Exits r)) = mset (map (declared_target (zd_Id def)) (rd_Exits rd))
               \<and> mset (map comp_Type (rm_Components r)) = mset (map pbc_Type (rd_Components rd))))"
proof -
  note w = BuildWorld_Some[OF assms]
  have dom: "fmdom' (w_Zones w) = input_id ` set inputs"
    using w(5) w(7) by (auto simp: fmdom'_lookup)
  have "\<exists>def z. in_Def inp = Some def \<and> fmlookup (w_Zones w) (zd_Id def) = Some z \<and> zn_Name z = zd_Name def
      \<and> zn_Fallback z = zd_FallbackRoom def \<and> distinct (map rd_Id (zd_Rooms def)) \<and> fmdom' (zn_Rooms z) = rd_Id ` set (zd_Rooms def)
      \<and> (\<forall>rd \<in> set (zd_Rooms def). \<exists>r. fmlookup (zn_Rooms z) (rd_Id rd) = Some r \<and> matches_room (zd_Id def) rd r)" if i: "inp \<in> set inputs" for inp
  proof -
    have c: "clean_input inp" using w(2) i by (simp add: clean_def list_all_iff)
    then obtain def where d: "in_Def inp = Some def" by (auto simp: clean_input_def split: option.splits)
    let ?z = "buildZone (zd_Id def) (input_acc inp)"
    note r = input_acc_rooms[OF c d]
    have "fmdom' (zn_Rooms ?z) = rd_Id ` set (zd_Rooms def)" unfolding r(2)[symmetric] by (auto simp: fmdom'_lookup buildZone_rooms)
    moreover have "\<forall>rd \<in> set (zd_Rooms def). \<exists>r. fmlookup (zn_Rooms ?z) (rd_Id rd) = Some r \<and> matches_room (zd_Id def) rd r"
      using r(3) buildRoom_matches by (fastforce simp: buildZone_rooms)
    moreover have "fmlookup (w_Zones w) (zd_Id def) = Some ?z" using BuildWorld_zone[OF assms i] d by (simp add: input_id_def)
    moreover have "zn_Name ?z = zd_Name def" "zn_Fallback ?z = zd_FallbackRoom def"
      using d by (simp_all add: buildZone_def input_acc_def scanZone_def Let_def)
    ultimately show ?thesis using d r(1) by blast
  qed
  then show ?thesis using w(2) dom unfolding matches_room_def clean_def by blast
qed

theorem BuildWorld_builds_what_is_declared_witness:
  "\<exists>w errs. BuildWorld sample_content \<lparr>op_StrictOrphans = True\<rparr> = (Some w, errs) \<and> fmdom' (w_Zones w) = {''town'', ''crypt''}"
proof -
  obtain w errs where b: "BuildWorld sample_content \<lparr>op_StrictOrphans = True\<rparr> = (Some w, errs)" using sample_built by blast
  have "input_id ` set sample_content = {''town'', ''crypt''}" by (simp add: sample_content_def sample_input_def input_id_def)
  with BuildWorld_builds_what_is_declared[OF b] b show ?thesis by auto
qed

end
