(* ===== verification/Templates.thy ===== *)
theory Templates
  imports Build "HOL-Library.Product_Lexorder"
begin

text \<open>
  The Template registry (\<^verbatim>\<open>server/sim/template.go\<close>): a definition on its own, its inheritance chain
  against the set, \<^verbatim>\<open>BuildTemplates\<close>. The theorems show that a registry that loads is closed under
  inheritance, with every ancestor present, of one kind, and nothing it carries missing below, and
  that the registry's canonical bytes do not determine it.

  A finding's prose is left out, and with it the map of refused names, which only the prose reads.
\<close>

section \<open>Definitions\<close>

datatype pb_TemplateKind = TEMPLATE_KIND_UNSPECIFIED | ENTITY | ITEM | BEHAVIOR | UnrecognizedKind int

record SourceRef =
  sf_File :: string
  sf_Line :: u32

record TemplateDefinition =
  td_Name :: string
  td_Kind :: pb_TemplateKind
  td_Chain :: "string list"
  td_Components :: "pb_ComponentValue list"
  td_Provenance :: "FieldProvenance list"
  td_Resolved :: bool
  td_Source :: "SourceRef option"
  td_FormatVersion :: u32

record TemplateInput =
  ti_File :: string
  ti_Def :: "TemplateDefinition option"

definition MaxChainDepth :: nat where
  "MaxChainDepth = 16"

definition DefaultCorePack :: string where
  "DefaultCorePack = ''andara.core''"

definition TemplateFormatVersion :: u32 where
  "TemplateFormatVersion = 1"

definition kindFromProto :: "pb_TemplateKind \<Rightarrow> TemplateKind option" where
  "kindFromProto k = (case k of ENTITY \<Rightarrow> Some KindEntity | ITEM \<Rightarrow> Some KindItem | BEHAVIOR \<Rightarrow> Some KindBehavior | _ \<Rightarrow> None)"

definition sourceOf :: "TemplateDefinition \<Rightarrow> string" where
  "sourceOf def = (case td_Source def of None \<Rightarrow> '''' | Some src \<Rightarrow> if sf_File src = '''' then '''' else sf_File src @ '':'' @ FormatUint (sf_Line src))"

definition templateFinding :: "string \<Rightarrow> TemplateRef \<Rightarrow> ErrCode \<Rightarrow> ValidationError" where
  "templateFinding file ref code = (finding0 file code)\<lparr>ve_Template := ref\<rparr>"

section \<open>One definition\<close>

definition chainFindings :: "string \<Rightarrow> TemplateRef \<Rightarrow> TemplateRef list \<Rightarrow> ValidationError list" where
  "chainFindings file ref chain =
     (if chain = [] then [templateFinding file ref ''chain_mismatch'']
      else if last chain \<noteq> ref then [templateFinding file ref ''chain_mismatch'']
      else if length chain > MaxChainDepth then [(templateFinding file ref ''chain_too_deep'')\<lparr>ve_Chain := chain\<rparr>]
      else [])"

text \<open>The chain up to its first repeated reference, which is where the loop stops.\<close>

fun seenInChain :: "TemplateRef list \<Rightarrow> TemplateRef list \<Rightarrow> TemplateRef list" where
  "seenInChain [] seen = seen"
| "seenInChain (c # cs) seen = (if c \<in> set seen then seen else seenInChain cs (c # seen))"

definition cycleFindings :: "string \<Rightarrow> TemplateRef \<Rightarrow> TemplateRef list \<Rightarrow> ValidationError list" where
  "cycleFindings file ref chain = (if distinct chain then [] else [templateFinding file ref ''chain_mismatch''])"

definition provenanceFinding :: "string \<Rightarrow> TemplateRef \<Rightarrow> ComponentType list \<Rightarrow> Component list \<Rightarrow> TemplateRef list \<Rightarrow> FieldProvenance \<Rightarrow> ValidationError list" where
  "provenanceFinding file ref refused comps seen p =
     (if fp_Component p \<in> set refused then []
      else case findComponent comps (fp_Component p) of
        None \<Rightarrow> [templateFinding file ref ''invalid_provenance'']
      | Some c \<Rightarrow>
          if Component_Field c (fp_Field p) = None then [templateFinding file ref ''invalid_provenance'']
          else if fp_From p \<notin> set seen then [templateFinding file ref ''invalid_provenance'']
          else [])"

definition validateTemplate :: "TemplateInput \<Rightarrow> Template option \<times> ValidationError list" where
  "validateTemplate inp =
     (case ti_Def inp of None \<Rightarrow> (None, [finding0 (ti_File inp) ''malformed_file''])
      | Some def \<Rightarrow>
          let ref = td_Name def; file = ti_File inp; fail = (\<lambda>code. (None, [templateFinding file ref code])) in
          if ref = '''' \<or> Ref_Pack ref = '''' \<or> last ref = CHR ''.'' then fail ''malformed_file''
          else if td_FormatVersion def \<noteq> TemplateFormatVersion then fail ''unsupported_format_version''
          else if \<not> td_Resolved def then fail ''unflattened_template''
          else case kindFromProto (td_Kind def) of None \<Rightarrow> fail ''malformed_file''
          | Some kind \<Rightarrow>
              let chain = td_Chain def;
                  vc = validateComponents (td_Components def) \<lparr>cs_file = file, cs_zone = '''', cs_room = '''', cs_line = (\<lambda>_. 0)\<rparr>;
                  comps = fst vc;
                  cerrs = map (\<lambda>e. e\<lparr>ve_Template := ref\<rparr>) (snd vc);
                  prov = sort_key (\<lambda>p. (fp_Component p, fp_Field p)) (td_Provenance def);
                  refused = filter (\<lambda>t. findComponent comps t = None) (map pbc_Type (td_Components def));
                  errs = chainFindings file ref chain @ cycleFindings file ref chain @ cerrs
                    @ concat (map (provenanceFinding file ref refused comps (seenInChain chain [])) prov)
              in if errs \<noteq> [] then (None, errs)
                 else (Some \<lparr>tm_Ref = ref, tm_Kind = kind, tm_Chain = chain, tm_Components = comps, tm_Provenance = prov, tm_File = file,
                        tm_Source = sourceOf def\<rparr>, []))"

section \<open>The chain against the set\<close>

definition missingFields :: "string \<Rightarrow> TemplateRef \<Rightarrow> Component list \<Rightarrow> Component \<Rightarrow> ValidationError list" where
  "missingFields file ref comps pc =
     (case findComponent comps (comp_Type pc) of
        None \<Rightarrow> [templateFinding file ref ''chain_mismatch'']
      | Some c \<Rightarrow> map (\<lambda>_. templateFinding file ref ''chain_mismatch'') (filter (\<lambda>pf. Component_Field c (cf_Name pf) = None) (comp_Fields pc)))"

definition validateChain :: "string \<Rightarrow> (TemplateRef, Template) fmap \<Rightarrow> Template \<Rightarrow> ValidationError list" where
  "validateChain corePack templates t =
     (let finding = templateFinding (tm_File t) (tm_Ref t); parentRef = Template_Parent t in
      if length (tm_Chain t) < 2 then []
      else if Ref_Pack parentRef \<noteq> Ref_Pack (tm_Ref t) \<and> Ref_Pack parentRef \<noteq> corePack then [finding ''unresolved_extends'']
      else case fmlookup templates parentRef of None \<Rightarrow> [finding ''unresolved_extends'']
      | Some parent \<Rightarrow>
          (if tm_Chain t \<noteq> tm_Chain parent @ [tm_Ref t] then [finding ''chain_mismatch''] else [])
          @ (if tm_Kind parent \<noteq> tm_Kind t then [finding ''chain_mismatch''] else [])
          @ concat (map (missingFields (tm_File t) (tm_Ref t) (tm_Components t)) (tm_Components parent)))"

definition addTemplate :: "(TemplateRef, Template) fmap \<times> ValidationError list \<Rightarrow> TemplateInput \<Rightarrow> (TemplateRef, Template) fmap \<times> ValidationError list" where
  "addTemplate me inp = (case me of (m, errs) \<Rightarrow>
     (case validateTemplate inp of
        (None, terrs) \<Rightarrow> (m, errs @ terrs)
      | (Some t, terrs) \<Rightarrow>
          if fmlookup m (tm_Ref t) \<noteq> None then (m, errs @ terrs @ [templateFinding (ti_File inp) (tm_Ref t) ''duplicate_template''])
          else (fmupd (tm_Ref t) t m, errs @ terrs)))"

definition BuildTemplates :: "TemplateInput list \<Rightarrow> string \<Rightarrow> TemplateRegistry option \<times> ValidationError list" where
  "BuildTemplates inputs corePackOpt =
     (let core = (if corePackOpt = '''' then DefaultCorePack else corePackOpt);
          me = foldl addTemplate (fmempty, []) inputs;
          templates = fst me;
          errs = snd me @ concat (map (validateChain core templates \<circ> snd) (entries templates))
      in if list_ex (\<lambda>e. \<not> IsWarning e False) errs then (None, errs)
         else (Some \<lparr>tr_corePack = core, tr_templates = templates,
                tr_byPack = foldl (\<lambda>m ref. fmupd (Ref_Pack ref) ((case fmlookup m (Ref_Pack ref) of Some rs \<Rightarrow> rs | None \<Rightarrow> []) @ [ref]) m) fmempty
                  (keys templates)\<rparr>, errs))"

definition Registry_Pack :: "TemplateRegistry option \<Rightarrow> string \<Rightarrow> TemplateRef list" where
  "Registry_Pack reg pack = (case reg of None \<Rightarrow> [] | Some r \<Rightarrow> (case fmlookup (tr_byPack r) pack of Some rs \<Rightarrow> rs | None \<Rightarrow> []))"

definition Registry_Packs :: "TemplateRegistry option \<Rightarrow> string list" where
  "Registry_Packs reg = (case reg of None \<Rightarrow> [] | Some r \<Rightarrow> keys (tr_byPack r))"

definition Registry_Len :: "TemplateRegistry option \<Rightarrow> nat" where
  "Registry_Len reg = (case reg of None \<Rightarrow> 0 | Some r \<Rightarrow> length (keys (tr_templates r)))"

section \<open>What a loaded Template is\<close>

lemma templateFinding_refusal [simp]: "refusal (templateFinding file ref code) \<longleftrightarrow> code \<in> set AllErrCodes \<and> code \<notin> set warningCodes"
  "refusal (e\<lparr>ve_Template := r\<rparr>) = refusal e" "refusal (e\<lparr>ve_Chain := cs\<rparr>) = refusal e"
  by (simp_all add: templateFinding_def refusal_def finding0_def)

lemmas template_codes = AllErrCodes_def warningCodes_def

lemma validateTemplate_refusals: "list_all refusal (snd (validateTemplate inp))"
proof -
  have "list_all refusal (chainFindings fl ref chain)" "list_all refusal (cycleFindings fl ref chain)"
    "list_all refusal (provenanceFinding fl ref refused comps seen p)" for fl ref chain refused comps seen p
    by (auto simp: chainFindings_def cycleFindings_def provenanceFinding_def template_codes split: option.split)
  moreover have "list_all refusal (map (\<lambda>e. e\<lparr>ve_Template := ref\<rparr>) (snd (validateComponents defs site)))" for ref defs site
    using validateComponents_refusals[of defs site] by (simp add: list_all_iff)
  moreover have "refusal (finding0 fl ''malformed_file'')" "refusal (templateFinding fl ref ''malformed_file'')"
    "refusal (templateFinding fl ref ''unsupported_format_version'')" "refusal (templateFinding fl ref ''unflattened_template'')" for fl ref
    by (simp_all add: template_codes)
  ultimately show ?thesis
    by (auto simp: validateTemplate_def Let_def list_all_iff simp del: templateFinding_refusal(1) refusal_code(6) split: option.split)
qed

definition good_template :: "TemplateRef \<Rightarrow> Template \<Rightarrow> bool" where
  "good_template ref t \<longleftrightarrow> tm_Ref t = ref \<and> tm_Chain t \<noteq> [] \<and> last (tm_Chain t) = ref \<and> length (tm_Chain t) \<le> MaxChainDepth
     \<and> distinct (tm_Chain t) \<and> canonical_components (tm_Components t)"

lemma validateTemplate_Some:
  assumes "validateTemplate inp = (Some t, errs)"
  shows "errs = []" "good_template (tm_Ref t) t"
  using assms
  by (auto simp: validateTemplate_def Let_def good_template_def chainFindings_def cycleFindings_def validateComponents_ok
      split: option.splits if_splits)

lemma foldl_addTemplate:
  assumes "fmpred good_template (fst me)" "list_all refusal (snd me)"
  shows "fmpred good_template (fst (foldl addTemplate me inputs)) \<and> list_all refusal (snd (foldl addTemplate me inputs))"
  using assms
proof (induction inputs arbitrary: me)
  case (Cons inp inputs)
  obtain m errs where me: "me = (m, errs)" by (cases me)
  have "fmpred good_template (fst (addTemplate me inp)) \<and> list_all refusal (snd (addTemplate me inp))"
    using Cons.prems validateTemplate_refusals[of inp] validateTemplate_Some[of inp]
    by (auto simp: me addTemplate_def template_codes fmpred_upd split: prod.split option.split)
  then show ?case using Cons.IH by simp
qed simp

lemma validateChain_refusals: "list_all refusal (validateChain core templates t)"
  by (auto simp: validateChain_def Let_def missingFields_def template_codes list_all_iff split: option.splits)

section \<open>Inheritance\<close>

text \<open>Whatever \<open>a\<close> carries, \<open>t\<close> carries: every Component type, and in it every field.\<close>

definition carries :: "Template \<Rightarrow> Template \<Rightarrow> bool" where
  "carries t a \<longleftrightarrow> (\<forall>c \<in> set (tm_Components a). \<exists>c'. findComponent (tm_Components t) (comp_Type c) = Some c'
     \<and> (\<forall>f \<in> set (comp_Fields c). Component_Field c' (cf_Name f) \<noteq> None))"

lemma findComponent_Some: "findComponent cs ty = Some c \<Longrightarrow> c \<in> set cs \<and> comp_Type c = ty"
  by (auto simp: findComponent_def find_Some_iff)

lemma Component_Field_Some: "Component_Field c n \<noteq> None \<longleftrightarrow> (\<exists>f \<in> set (comp_Fields c). cf_Name f = n)"
  by (auto simp: Component_Field_def find_None_iff)

lemma findComponent_own:
  assumes "canonical_components cs" "c \<in> set cs"
  shows "findComponent cs (comp_Type c) = Some c"
proof (cases "findComponent cs (comp_Type c)")
  case None
  then show ?thesis using assms(2) by (auto simp: findComponent_def find_None_iff)
next
  case (Some c')
  have "inj_on comp_Type (set cs)" using assms(1) by (simp add: canonical_components_def distinct_map)
  then have "c' = c" using findComponent_Some[OF Some] assms(2) by (auto dest: inj_onD)
  then show ?thesis using Some by simp
qed

lemma carries_refl: "canonical_components (tm_Components t) \<Longrightarrow> carries t t"
  unfolding carries_def Component_Field_Some using findComponent_own by blast

lemma carries_trans:
  assumes "carries t b" "carries b a"
  shows "carries t a"
  unfolding carries_def
proof
  fix c assume "c \<in> set (tm_Components a)"
  then obtain c1 where c1: "findComponent (tm_Components b) (comp_Type c) = Some c1" "\<forall>f \<in> set (comp_Fields c). Component_Field c1 (cf_Name f) \<noteq> None"
    using assms(2) by (auto simp: carries_def)
  then have m: "c1 \<in> set (tm_Components b)" "comp_Type c1 = comp_Type c" using findComponent_Some by blast+
  then obtain c2 where c2: "findComponent (tm_Components t) (comp_Type c) = Some c2" "\<forall>f \<in> set (comp_Fields c1). Component_Field c2 (cf_Name f) \<noteq> None"
    using assms(1)[unfolded carries_def, THEN bspec, OF m(1)] by (auto simp: m(2))
  have "Component_Field c2 (cf_Name f) \<noteq> None" if "f \<in> set (comp_Fields c)" for f
  proof -
    have "\<exists>f1 \<in> set (comp_Fields c1). cf_Name f1 = cf_Name f" using c1(2) that Component_Field_Some[of c1 "cf_Name f"] by blast
    then obtain f1 where f1: "f1 \<in> set (comp_Fields c1)" "cf_Name f1 = cf_Name f" by blast
    from bspec[OF c2(2) f1(1)] show ?thesis by (simp add: f1(2))
  qed
  then show "\<exists>c'. findComponent (tm_Components t) (comp_Type c) = Some c' \<and> (\<forall>f \<in> set (comp_Fields c). Component_Field c' (cf_Name f) \<noteq> None)"
    using c2(1) by blast
qed

definition parent_ok :: "(TemplateRef, Template) fmap \<Rightarrow> Template \<Rightarrow> Template \<Rightarrow> bool" where
  "parent_ok m t p \<longleftrightarrow> fmlookup m (tm_Ref p) = Some p \<and> tm_Chain t = tm_Chain p @ [tm_Ref t] \<and> tm_Kind p = tm_Kind t \<and> carries t p"

lemma validateChain_ok:
  assumes "validateChain core m t = []" "fmpred good_template m" "2 \<le> length (tm_Chain t)"
  obtains p where "parent_ok m t p" "Ref_Pack (tm_Ref p) = Ref_Pack (tm_Ref t) \<or> Ref_Pack (tm_Ref p) = core"
proof -
  obtain p where p: "fmlookup m (Template_Parent t) = Some p" "tm_Chain t = tm_Chain p @ [tm_Ref t]" "tm_Kind p = tm_Kind t"
    "\<forall>c \<in> set (tm_Components p). missingFields (tm_File t) (tm_Ref t) (tm_Components t) c = []"
    "Ref_Pack (Template_Parent t) = Ref_Pack (tm_Ref t) \<or> Ref_Pack (Template_Parent t) = core"
    using assms(1,3) by (auto simp: validateChain_def Let_def split: option.splits if_splits)
  have "carries t p" using p(4) by (auto simp: carries_def missingFields_def filter_empty_conv split: option.splits)
  moreover have "tm_Ref p = Template_Parent t" using p(1) assms(2) by (auto simp: fmpred_iff good_template_def)
  ultimately show thesis using p(1-3,5) by (intro that[of p]) (simp_all add: parent_ok_def)
qed

definition ancestor_ok :: "(TemplateRef, Template) fmap \<Rightarrow> Template \<Rightarrow> nat \<Rightarrow> bool" where
  "ancestor_ok m t i \<longleftrightarrow> (\<exists>a. fmlookup m (tm_Chain t ! i) = Some a \<and> tm_Chain a = take (Suc i) (tm_Chain t) \<and> tm_Kind a = tm_Kind t \<and> carries t a)"

lemma chain_closed:
  assumes "fmpred good_template m" "\<forall>t. (\<exists>ref. fmlookup m ref = Some t) \<longrightarrow> validateChain core m t = []"
  shows "fmlookup m (tm_Ref t) = Some t \<Longrightarrow> i < length (tm_Chain t) \<Longrightarrow> ancestor_ok m t i"
proof (induction "length (tm_Chain t)" arbitrary: t i rule: less_induct)
  case less
  have g: "good_template (tm_Ref t) t" using assms(1) less.prems(1) by (simp add: fmpred_iff)
  show ?case
  proof (cases "i = length (tm_Chain t) - 1")
    case True
    moreover have "tm_Chain t ! (length (tm_Chain t) - 1) = tm_Ref t" using g last_conv_nth[of "tm_Chain t"] by (simp add: good_template_def)
    ultimately show ?thesis using g less.prems carries_refl[of t] by (auto simp: ancestor_ok_def good_template_def)
  next
    case False
    then have len: "2 \<le> length (tm_Chain t)" using less.prems(2) by linarith
    have "validateChain core m t = []" using assms(2) less.prems(1) by blast
    from validateChain_ok[OF this assms(1) len] obtain p where p: "parent_ok m t p" by blast
    then have lt: "length (tm_Chain p) < length (tm_Chain t)" "i < length (tm_Chain p)" using False less.prems(2) by (auto simp: parent_ok_def)
    from less.hyps[OF lt(1) _ lt(2)] p have "ancestor_ok m p i" by (simp add: parent_ok_def)
    then show ?thesis using p lt(2) carries_trans unfolding ancestor_ok_def parent_ok_def by (auto simp: nth_append)
  qed
qed

section \<open>The registry\<close>

lemma BuildTemplates_Some:
  assumes "BuildTemplates inputs core = (Some reg, errs)"
  shows "errs = []" "fmpred good_template (tr_templates reg)"
    "\<forall>t. (\<exists>ref. fmlookup (tr_templates reg) ref = Some t) \<longrightarrow> validateChain (tr_corePack reg) (tr_templates reg) t = []"
proof -
  define me where "me = foldl addTemplate (fmempty, []) inputs"
  have g: "fmpred good_template (fst me)" "list_all refusal (snd me)" unfolding me_def using foldl_addTemplate[of "(fmempty, [])"] by simp_all
  have e: "errs = snd me @ concat (map (validateChain (tr_corePack reg) (fst me) \<circ> snd) (entries (fst me)))"
    "\<not> list_ex (\<lambda>e. \<not> IsWarning e False) errs" "tr_templates reg = fst me"
    using assms by (auto simp: BuildTemplates_def Let_def me_def split: if_splits)
  have "list_all refusal errs"
    unfolding e(1) using g(2) validateChain_refusals[of "tr_corePack reg" "fst me"] by (auto simp: list_all_iff)
  then show n: "errs = []" using e(2) refusal_not_warning by (cases errs) auto
  show "fmpred good_template (tr_templates reg)" using g e(3) by simp
  show "\<forall>t. (\<exists>ref. fmlookup (tr_templates reg) ref = Some t) \<longrightarrow> validateChain (tr_corePack reg) (tr_templates reg) t = []"
    using n e(1,3) by (auto simp: set_entries[symmetric])
qed

text \<open>
  C28. A registry that loads is closed under inheritance: every Template is filed under its reference,
  its chain ends in it, repeats nothing and is at most sixteen deep; every reference of the chain
  is a Template of the registry, of the same kind, whose own chain is the chain up to it; and
  whatever Component and field an ancestor carries, the Template carries.
\<close>
theorem BuildTemplates_closed_under_inheritance:
  assumes "BuildTemplates inputs core = (Some reg, errs)" "fmlookup (tr_templates reg) ref = Some t"
  shows "errs = [] \<and> tm_Ref t = ref \<and> last (tm_Chain t) = ref \<and> distinct (tm_Chain t) \<and> length (tm_Chain t) \<le> 16
     \<and> (\<forall>i < length (tm_Chain t). \<exists>a. fmlookup (tr_templates reg) (tm_Chain t ! i) = Some a \<and> tm_Chain a = take (Suc i) (tm_Chain t)
          \<and> tm_Kind a = tm_Kind t
          \<and> (\<forall>c \<in> set (tm_Components a). \<exists>c'. findComponent (tm_Components t) (comp_Type c) = Some c'
               \<and> (\<forall>f \<in> set (comp_Fields c). Component_Field c' (cf_Name f) \<noteq> None)))"
proof -
  note b = BuildTemplates_Some[OF assms(1)]
  have g: "good_template ref t" using b(2) assms(2) by (simp add: fmpred_iff)
  then have "ancestor_ok (tr_templates reg) t i" if "i < length (tm_Chain t)" for i
    using chain_closed[OF b(2,3) _ that] assms(2) by (simp add: good_template_def)
  then show ?thesis using g b(1) by (auto simp: ancestor_ok_def carries_def good_template_def MaxChainDepth_def)
qed

text \<open>Two Templates, one extending the other, in the core pack.\<close>

definition sample_template :: "string \<Rightarrow> string list \<Rightarrow> TemplateInput" where
  "sample_template name chain = \<lparr>ti_File = name, ti_Def = Some \<lparr>td_Name = name, td_Kind = ENTITY, td_Chain = chain, td_Components = [],
     td_Provenance = [], td_Resolved = True, td_Source = None, td_FormatVersion = 1\<rparr>\<rparr>"

definition sample_pack :: "TemplateInput list" where
  "sample_pack = [sample_template ''c.Npc'' [''c.Thing'', ''c.Npc''], sample_template ''c.Thing'' [''c.Thing'']]"

theorem BuildTemplates_closed_under_inheritance_witness:
  "\<exists>reg t a. fst (BuildTemplates sample_pack ''c'') = Some reg \<and> fmlookup (tr_templates reg) ''c.Npc'' = Some t
     \<and> fmlookup (tr_templates reg) (tm_Chain t ! 0) = Some a \<and> tm_Kind a = tm_Kind t"
proof -
  have "(case fst (BuildTemplates sample_pack ''c'') of None \<Rightarrow> False
      | Some reg \<Rightarrow> (case fmlookup (tr_templates reg) ''c.Npc'' of None \<Rightarrow> False | Some t \<Rightarrow> length (tm_Chain t) = 2))" by code_simp
  then obtain reg errs t where r: "BuildTemplates sample_pack ''c'' = (Some reg, errs)" "fmlookup (tr_templates reg) ''c.Npc'' = Some t" "length (tm_Chain t) = 2"
    by (cases "BuildTemplates sample_pack ''c''") (auto split: option.splits)
  have "0 < length (tm_Chain t)" using r(3) by simp
  then have "\<exists>a. fmlookup (tr_templates reg) (tm_Chain t ! 0) = Some a \<and> tm_Kind a = tm_Kind t"
    using BuildTemplates_closed_under_inheritance[OF r(1,2)] by blast
  then show ?thesis using r by auto
qed

text \<open>
  C40. The canonical bytes of a registry do not determine it: the chain is written as its references
  joined with a greater-than sign, which a reference may itself contain. Two lists of definitions
  that both load give registries that differ in a Template's chain and have the same bytes, and so
  the same content digest.
\<close>
theorem TemplatesCanonicalBytes_not_injective:
  "\<exists>inputs1 inputs2 reg1 reg2. BuildTemplates inputs1 ''c'' = (Some reg1, []) \<and> BuildTemplates inputs2 ''c'' = (Some reg2, [])
     \<and> tr_templates reg1 \<noteq> tr_templates reg2 \<and> TemplatesCanonicalBytes (Some reg1) = TemplatesCanonicalBytes (Some reg2)"
proof -
  let ?both = "[sample_template ''c.A'' [''c.A''], sample_template ''c.B'' [''c.A'', ''c.B''], sample_template ''c.A>c.B'' [''c.A>c.B'']]"
  let ?xs = "sample_template ''c.A>c.T'' [''c.A'', ''c.B'', ''c.A>c.T''] # ?both" and ?ys = "sample_template ''c.A>c.T'' [''c.A>c.B'', ''c.A>c.T''] # ?both"
  have ok: "(case fst (BuildTemplates ?xs ''c'') of None \<Rightarrow> False | Some r1 \<Rightarrow> (case fst (BuildTemplates ?ys ''c'') of None \<Rightarrow> False | Some r2 \<Rightarrow>
      map_option tm_Chain (fmlookup (tr_templates r1) ''c.A>c.T'') \<noteq> map_option tm_Chain (fmlookup (tr_templates r2) ''c.A>c.T'')
      \<and> TemplatesCanonicalBytes (Some r1) = TemplatesCanonicalBytes (Some r2)))" by code_simp
  have none: "snd (BuildTemplates ?xs ''c'') = []" "snd (BuildTemplates ?ys ''c'') = []" by (code_simp, code_simp)
  obtain r1 where r1: "fst (BuildTemplates ?xs ''c'') = Some r1" using ok by (cases "fst (BuildTemplates ?xs ''c'')") (simp_all only: option.case)
  obtain r2 where r2: "fst (BuildTemplates ?ys ''c'') = Some r2" using ok unfolding r1 option.case
    by (cases "fst (BuildTemplates ?ys ''c'')") (simp_all only: option.case)
  have b: "BuildTemplates ?xs ''c'' = (Some r1, [])" "BuildTemplates ?ys ''c'' = (Some r2, [])" 
    using r1 r2 none by (metis prod.collapse)+
  have "tr_templates r1 \<noteq> tr_templates r2" "TemplatesCanonicalBytes (Some r1) = TemplatesCanonicalBytes (Some r2)"
    using ok unfolding r1 r2 option.case by metis+
  with b show ?thesis by metis
qed

end
