(* ===== verification/Snapshot_Key.thy ===== *)
theory Snapshot_Key
  imports Sim_State
begin

text \<open>
  The keys snapshots are stored under (\<^verbatim>\<open>SnapshotKey\<close>, \<^verbatim>\<open>SnapshotRoundPrefix\<close> and
  \<^verbatim>\<open>ParseSnapshotKey\<close> of \<^verbatim>\<open>server/sim/snapshot.go\<close>), with the parts of \<^verbatim>\<open>fmt\<close>,
  \<^verbatim>\<open>strconv\<close> and \<^verbatim>\<open>strings\<close> they use. The facts proved are the two the stores and the recovery rely
  on: a key reads back as what it was made of, and the lexical order of a Zone's keys is the
  order of their ticks.
\<close>

section \<open>Formatting and reading\<close>

definition SnapshotKeyDigits :: nat where
  "SnapshotKeyDigits = 20"

text \<open>The verb \<^verbatim>\<open>%0*d\<close>: zeros to the width, after the sign, which counts.\<close>

definition padZero :: "nat \<Rightarrow> string \<Rightarrow> string" where
  "padZero n s = replicate (n - length s) (CHR ''0'') @ s"

definition FormatPadded :: "nat \<Rightarrow> int \<Rightarrow> string" where
  "FormatPadded n i = (if i < 0 then CHR ''-'' # padZero (n - 1) (FormatNat (nat (- i))) else padZero n (FormatNat (nat i)))"

definition SnapshotKey :: "ZoneID \<Rightarrow> u32 \<Rightarrow> u64 \<Rightarrow> int \<Rightarrow> string" where
  "SnapshotKey zone stateVersion tick offset =
     zone @ ''/'' @ FormatPadded SnapshotKeyDigits (uint tick) @ ''/'' @ FormatUint stateVersion @ ''/'' @ FormatPadded SnapshotKeyDigits offset"

definition SnapshotRoundPrefix :: "ZoneID \<Rightarrow> u64 \<Rightarrow> string" where
  "SnapshotRoundPrefix zone tick = zone @ ''/'' @ FormatPadded SnapshotKeyDigits (uint tick) @ ''/''"

text \<open>\<^verbatim>\<open>strings.Split\<close> with a separator of one byte.\<close>

fun Split :: "char \<Rightarrow> string \<Rightarrow> string list" where
  "Split c [] = [[]]"
| "Split c (x # xs) = (if x = c then [] # Split c xs else (x # hd (Split c xs)) # tl (Split c xs))"

definition is_digit :: "char \<Rightarrow> bool" where
  "is_digit c \<longleftrightarrow> 48 \<le> (of_char c :: nat) \<and> (of_char c :: nat) \<le> 57"

text \<open>\<^verbatim>\<open>strconv.ParseUint(s, 10, bits)\<close> and \<^verbatim>\<open>strconv.ParseInt(s, 10, 64)\<close>; \<^const>\<open>None\<close> is an error, of syntax or of range.\<close>

definition ParseUint :: "nat \<Rightarrow> string \<Rightarrow> nat option" where
  "ParseUint bits s = (if s = [] \<or> \<not> list_all is_digit s \<or> parse_digits 0 s \<ge> 2 ^ bits then None else Some (parse_digits 0 s))"

definition ParseInt :: "string \<Rightarrow> int option" where
  "ParseInt s =
     (let neg = (s \<noteq> [] \<and> hd s = CHR ''-''); digits = (if s \<noteq> [] \<and> (hd s = CHR ''-'' \<or> hd s = CHR ''+'') then tl s else s) in
      case ParseUint 64 digits of None \<Rightarrow> None
      | Some n \<Rightarrow> if \<not> neg \<and> n \<ge> 2 ^ 63 then None else if neg \<and> n > 2 ^ 63 then None else Some (if neg then - int n else int n))"

definition ParseSnapshotKey :: "string \<Rightarrow> (ZoneID \<times> u32 \<times> u64 \<times> int) option" where
  "ParseSnapshotKey key =
     (let parts = Split (CHR ''/'') key in
      if length parts \<noteq> 4 \<or> parts ! 0 = '''' then None
      else case ParseUint 64 (parts ! 1) of None \<Rightarrow> None
      | Some tk \<Rightarrow> (case ParseUint 32 (parts ! 2) of None \<Rightarrow> None
      | Some v \<Rightarrow> (case ParseInt (parts ! 3) of None \<Rightarrow> None
      | Some off \<Rightarrow> Some (parts ! 0, of_nat v, of_nat tk, off))))"

section \<open>Digits\<close>

lemma len64: "LENGTH(64) = 64" and len32: "LENGTH(32) = 32"
  by simp_all

lemma Split_neq_Nil [simp]: "Split c s \<noteq> []"
  by (induction s) auto

lemma Split_clean: "c \<notin> set s \<Longrightarrow> Split c s = [s]"
  by (induction s) auto

lemma Split_append: "c \<notin> set s \<Longrightarrow> Split c (s @ c # t) = s # Split c t"
  by (induction s) auto

lemma length_Split: "length (Split c s) = Suc (count_list s c)"
  by (induction s) (auto simp: neq_Nil_conv)

lemma digits_FormatNat: "list_all is_digit (FormatNat n)"
  using FormatNat_digits by (simp add: list_all_iff is_digit_def)

lemma digits_padZero: "list_all is_digit (padZero n s) \<longleftrightarrow> list_all is_digit s"
  by (auto simp: padZero_def list_all_iff is_digit_def)

lemma parse_zeros: "parse_digits 0 (replicate k (CHR ''0'') @ s) = parse_digits 0 s"
  by (induction k) auto

lemma parse_padZero: "parse_digits 0 (padZero n s) = parse_digits 0 s"
  by (simp add: padZero_def parse_zeros)

lemma ParseUint_padded: "n < 2 ^ bits \<Longrightarrow> ParseUint bits (padZero k (FormatNat n)) = Some n"
  using digits_FormatNat[of n] by (auto simp: ParseUint_def digits_padZero parse_padZero parse_FormatNat) (simp add: padZero_def)

lemma ParseUint_FormatNat: "n < 2 ^ bits \<Longrightarrow> ParseUint bits (FormatNat n) = Some n"
  using ParseUint_padded[of n bits 0] by (simp add: padZero_def)

lemma hd_digits: "list_all is_digit s \<Longrightarrow> s \<noteq> [] \<Longrightarrow> hd s \<noteq> CHR ''-'' \<and> hd s \<noteq> CHR ''+''"
  by (cases s) (auto simp: is_digit_def)

lemma ParseInt_padded:
  assumes "- (2 ^ 63) \<le> i" "i < 2 ^ 63"
  shows "ParseInt (FormatPadded k i) = Some i"
proof (cases "i < 0")
  case True
  have "nat (- i) < 2 ^ 64" "nat (- i) \<le> 2 ^ 63" using assms by simp_all
  then show ?thesis using True assms by (simp add: ParseInt_def FormatPadded_def Let_def ParseUint_padded)
next
  case False
  have d: "list_all is_digit (padZero k (FormatNat (nat i)))" "padZero k (FormatNat (nat i)) \<noteq> []"
    using digits_FormatNat by (simp_all add: digits_padZero) (simp add: padZero_def)
  have "nat i < 2 ^ 64" "nat i < 2 ^ 63" using assms by simp_all
  then show ?thesis using False hd_digits[OF d] by (simp add: ParseInt_def FormatPadded_def Let_def ParseUint_padded)
qed

lemma no_slash:
  "CHR ''/'' \<notin> set (FormatNat n)" "CHR ''/'' \<notin> set (padZero k (FormatNat n))" "CHR ''/'' \<notin> set (FormatPadded k i)"
proof -
  show a: "CHR ''/'' \<notin> set (FormatNat n)" for n using FormatNat_digits[of "CHR ''/''" n] by auto
  then show b: "CHR ''/'' \<notin> set (padZero k (FormatNat n))" for n k by (auto simp: padZero_def)
  show "CHR ''/'' \<notin> set (FormatPadded k i)" using b by (simp add: FormatPadded_def)
qed

lemma ParseSnapshotKey_parts: "length (Split (CHR ''/'') key) \<noteq> 4 \<Longrightarrow> ParseSnapshotKey key = None"
  by (simp add: ParseSnapshotKey_def)

lemma Split_SnapshotKey:
  assumes "CHR ''/'' \<notin> set zone"
  shows "Split (CHR ''/'') (SnapshotKey zone sv tick offset)
    = [zone, padZero 20 (FormatNat (unat tick)), FormatNat (unat sv), FormatPadded 20 offset]"
proof -
  have "FormatPadded 20 (uint tick) = padZero 20 (FormatNat (unat tick))" by (simp add: FormatPadded_def)
  then have "SnapshotKey zone sv tick offset = zone @ CHR ''/'' # padZero 20 (FormatNat (unat tick)) @ CHR ''/'' # FormatNat (unat sv)
      @ CHR ''/'' # FormatPadded 20 offset"
    by (simp add: SnapshotKey_def SnapshotKeyDigits_def FormatUint_def)
  then show ?thesis using assms by (simp only: Split_append Split_clean no_slash not_False_eq_True)
qed

lemma parse_key:
  assumes "- (2 ^ 63) \<le> offset" "offset < 2 ^ 63"
  shows "ParseSnapshotKey (SnapshotKey zone sv tick offset) =
     (if zone = '''' \<or> CHR ''/'' \<in> set zone then None else Some (zone, sv, tick, offset))"
proof (cases "CHR ''/'' \<in> set zone")
  case True
  then have "count_list zone (CHR ''/'') \<noteq> 0" by (simp add: count_list_0_iff)
  moreover have "count_list (SnapshotKey zone sv tick offset) (CHR ''/'') \<ge> count_list zone (CHR ''/'') + 3"
    unfolding SnapshotKey_def by simp
  ultimately have "length (Split (CHR ''/'') (SnapshotKey zone sv tick offset)) \<noteq> 4" by (simp only: length_Split)
  from ParseSnapshotKey_parts[OF this] True show ?thesis by simp
next
  case False
  have "unat tick < 2 ^ 64" "unat sv < 2 ^ 32" using unsigned_less[of tick, where 'a = nat] unsigned_less[of sv, where 'a = nat] by (simp_all only: len64 len32)
  then have u: "ParseUint 64 (padZero 20 (FormatNat (unat tick))) = Some (unat tick)" "ParseUint 32 (FormatNat (unat sv)) = Some (unat sv)"
    by (simp_all only: ParseUint_padded ParseUint_FormatNat)
  show ?thesis unfolding ParseSnapshotKey_def Split_SnapshotKey[OF False]
    using False by (simp add: u ParseInt_padded[OF assms])
qed

text \<open>
  C32. A snapshot key reads back as the Zone, state version, tick and offset it was made of, whenever
  the Zone's ID is not empty and has no slash; with one, the key of the snapshot is never
  recognised as a key at all.
\<close>
theorem ParseSnapshotKey_SnapshotKey:
  assumes "- (2 ^ 63) \<le> offset" "offset < 2 ^ 63"
  shows "ParseSnapshotKey (SnapshotKey zone sv tick offset) =
     (if zone = '''' \<or> CHR ''/'' \<in> set zone then None else Some (zone, sv, tick, offset))"
  using assms by (rule parse_key)

theorem ParseSnapshotKey_SnapshotKey_witness:
  "ParseSnapshotKey (SnapshotKey ''town'' 1 42 7) = Some (''town'', 1, 42, 7) \<and> ParseSnapshotKey (SnapshotKey ''old/town'' 1 42 7) = None"
  using ParseSnapshotKey_SnapshotKey[of 7 "''town''" 1 42] ParseSnapshotKey_SnapshotKey[of 7 "''old/town''" 1 42] by simp

section \<open>Order\<close>

lemma less_append_same: "(xs :: 'a::linorder list) @ ys < xs @ zs \<longleftrightarrow> ys < zs"
  by (induction xs) auto

lemma less_append_both: "length (xs :: 'a::linorder list) = length ys \<Longrightarrow> xs < ys \<Longrightarrow> xs @ us < ys @ vs"
  by (induction xs ys rule: list_induct2) auto

lemma parse_digits_acc: "parse_digits a s = a * 10 ^ length s + parse_digits 0 s"
proof (induction s arbitrary: a)
  case (Cons c s)
  show ?case using Cons[of "10 * a + (of_char c - 48)"] Cons[of "of_char c - 48"] by (simp add: algebra_simps)
qed simp

lemma parse_digits_bound: "list_all is_digit s \<Longrightarrow> parse_digits 0 s < 10 ^ length s"
proof (induction s)
  case (Cons c s)
  then have d: "of_char c - 48 \<le> (9::nat)" by (auto simp: is_digit_def)
  have "parse_digits 0 (c # s) = (of_char c - 48) * 10 ^ length s + parse_digits 0 s" using parse_digits_acc[of "of_char c - 48" s] by simp
  also have "\<dots> < (of_char c - 48) * 10 ^ length s + 10 ^ length s" using Cons by simp
  also have "\<dots> \<le> 9 * 10 ^ length s + 10 ^ length s" using d by (simp add: mult_le_mono1)
  finally show ?case by simp
qed simp

lemma digits_less:
  "length s = length t \<Longrightarrow> list_all is_digit s \<Longrightarrow> list_all is_digit t \<Longrightarrow> parse_digits 0 s < parse_digits 0 t \<Longrightarrow> s < t"
proof (induction s t rule: list_induct2)
  case (Cons c s d t)
  have e: "parse_digits 0 (c # s) = (of_char c - 48) * 10 ^ length s + parse_digits 0 s"
    "parse_digits 0 (d # t) = (of_char d - 48) * 10 ^ length s + parse_digits 0 t"
    using parse_digits_acc[of "of_char c - 48" s] parse_digits_acc[of "of_char d - 48" t] Cons.hyps by simp_all
  have dig: "48 \<le> (of_char c :: nat)" "48 \<le> (of_char d :: nat)" using Cons.prems by (simp_all add: is_digit_def)
  have "\<not> d < c"
  proof
    assume "d < c"
    then have "Suc (of_char d - 48) \<le> of_char c - 48" using dig by (simp add: less_char_def)
    then have "Suc (of_char d - 48) * 10 ^ length s \<le> (of_char c - 48) * 10 ^ length s" by (rule mult_le_mono1)
    moreover have "parse_digits 0 t < 10 ^ length s" using parse_digits_bound[of t] Cons.prems Cons.hyps by simp
    ultimately show False using Cons.prems(3) unfolding e by simp
  qed
  then consider "c < d" | "c = d" by fastforce
  then show ?case
  proof cases
    case 2
    then have "parse_digits 0 s < parse_digits 0 t" using Cons.prems(3) unfolding e by simp
    then show ?thesis using Cons 2 by simp
  qed simp
qed simp

lemma length_FormatNat: "n < 10 ^ k \<Longrightarrow> 0 < k \<Longrightarrow> length (FormatNat n) \<le> k"
proof (induction k arbitrary: n)
  case (Suc k)
  show ?case
  proof (cases "n < 10")
    case True
    then show ?thesis by (subst FormatNat.simps) simp
  next
    case False
    then have "0 < k" using Suc.prems by (cases k) auto
    moreover have "n div 10 < 10 ^ k" using Suc.prems by (simp add: less_mult_imp_div_less mult.commute)
    ultimately have "length (FormatNat (n div 10)) \<le> k" using Suc.IH by simp
    then show ?thesis using False by (subst FormatNat.simps) simp
  qed
qed simp

lemma length_padded: "n < 10 ^ k \<Longrightarrow> 0 < k \<Longrightarrow> length (padZero k (FormatNat n)) = k"
  using length_FormatNat[of n k] by (simp add: padZero_def)

lemma padded_less: "m < n \<Longrightarrow> n < 10 ^ k \<Longrightarrow> 0 < k \<Longrightarrow> padZero k (FormatNat m) < padZero k (FormatNat n)"
  by (rule digits_less) (simp_all add: length_padded digits_padZero digits_FormatNat parse_padZero parse_FormatNat)

text \<open>
  The lexical order of one Zone's keys is the order of their ticks, and at one tick and state
  version the order of their offsets: for every tick and every offset Kafka can give.
\<close>
theorem SnapshotKey_order:
  assumes "tick < tick' \<or> tick = tick' \<and> sv = sv' \<and> offset < offset'" "0 \<le> offset" "offset' < 2 ^ 63"
  shows "SnapshotKey zone sv tick offset < SnapshotKey zone sv' tick' offset'"
proof -
  have t: "FormatPadded 20 (uint x) = padZero 20 (FormatNat (unat x))" for x :: u64 by (simp add: FormatPadded_def)
  have u: "unat x < 10 ^ 20" for x :: u64
  proof (rule less_le_trans)
    show "unat x < 2 ^ 64" using unsigned_less[of x, where 'a = nat] by (simp only: len64)
  qed simp
  consider "tick < tick'" | "tick = tick'" "sv = sv'" "offset < offset'" using assms(1) by blast
  then show ?thesis
  proof cases
    case 1
    then have "padZero 20 (FormatNat (unat tick)) < padZero 20 (FormatNat (unat tick'))"
      by (intro padded_less u) (simp_all add: word_less_nat_alt)
    moreover have "length (padZero 20 (FormatNat (unat x))) = 20" for x :: u64 by (intro length_padded u) simp
    ultimately show ?thesis unfolding SnapshotKey_def SnapshotKeyDigits_def t
      by (simp add: less_append_same less_append_both)
  next
    case 2
    have "nat offset < nat offset'" "nat offset' < 10 ^ 20" using 2 assms by simp_all
    then have "padZero 20 (FormatNat (nat offset)) < padZero 20 (FormatNat (nat offset'))" by (rule padded_less) simp
    then show ?thesis using 2 assms unfolding SnapshotKey_def SnapshotKeyDigits_def t
      by (simp add: less_append_same FormatPadded_def)
  qed
qed

theorem SnapshotKey_order_witness: "SnapshotKey ''town'' 1 9 500 < SnapshotKey ''town'' 1 10 3"
  by (rule SnapshotKey_order) simp_all

end
