(* ===== verification/Snapshot.thy ===== *)
theory Snapshot
  imports Snapshot_Key Engine
begin

text \<open>
  Zone snapshots (\<^verbatim>\<open>server/sim/snapshot.go\<close> and \<^verbatim>\<open>snapshot_codec.go\<close>): the cut \<^verbatim>\<open>SnapshotAll\<close>
  takes at a tick boundary, the message a Zone's state is written as, the envelope around it, and
  the reader's side: \<^verbatim>\<open>ZoneStateFromProto\<close> and \<^verbatim>\<open>BodyStateHash\<close> with its refusals. The
  protobuf encoder is a parameter; the model works on the messages. A Snapshot's hash,
  cached in the code, is computed where it is asked for.
\<close>

section \<open>The cut\<close>

record PartitionOffset =
  po_Partition :: int
  po_Offset :: int

record Snapshot =
  sn_Zone :: ZoneID
  sn_Tick :: u64
  sn_StateVersion :: u32
  sn_Offsets :: "PartitionOffset list"
  sn_TakenAtUnixNano :: int
  sn_body :: ZoneState
  sn_prng :: rng
  sn_nextEventID :: u64
  sn_content :: "(string, u64) fmap"
  sn_simSeed :: u64
  sn_contentDigest :: bytes

definition Entity_Clone :: "EntityState \<Rightarrow> EntityState" where
  "Entity_Clone e = e\<lparr>en_Components := map (\<lambda>c. \<lparr>comp_Type = comp_Type c, comp_Fields = comp_Fields c\<rparr>) (en_Components e)\<rparr>"

definition Zone_Clone :: "ZoneState \<Rightarrow> ZoneState" where
  "Zone_Clone z = \<lparr>zs_ID = zs_ID z, zs_Entities = fmmap Entity_Clone (zs_Entities z), zs_Faulted = zs_Faulted z, zs_FaultedTick = zs_FaultedTick z,
     zs_Transit = fmmap (\<lambda>r. r\<lparr>tx_Entity := Entity_Clone (tx_Entity r)\<rparr>) (zs_Transit z), zs_Placed = zs_Placed z\<rparr>"

definition offsets_of :: "(int, int) fmap \<Rightarrow> PartitionOffset list" where
  "offsets_of m = map (\<lambda>(p, off). \<lparr>po_Partition = p, po_Offset = off\<rparr>) (entries m)"

definition snapshot_of :: "Engine \<Rightarrow> int \<Rightarrow> ZoneID \<Rightarrow> Snapshot" where
  "snapshot_of e takenAtUnixNano zid =
     (let s = en_state e; z = zone_of s zid in
      \<lparr>sn_Zone = zs_ID z, sn_Tick = ws_Tick s, sn_StateVersion = ws_Version s, sn_Offsets = offsets_of (ws_Offsets s),
       sn_TakenAtUnixNano = takenAtUnixNano, sn_body = Zone_Clone z, sn_prng = ws_RNG s, sn_nextEventID = ws_NextEventID s,
       sn_content = en_versions e, sn_simSeed = ws_Seed s, sn_contentDigest = en_digest e\<rparr>)"

definition SnapshotAll :: "Engine \<Rightarrow> int \<Rightarrow> Snapshot list" where
  "SnapshotAll e takenAtUnixNano = map (snapshot_of e takenAtUnixNano) (keys (ws_Zones (en_state e)))"

definition Snapshot_StateHash :: "Snapshot \<Rightarrow> bytes" where
  "Snapshot_StateHash s = SnapshotHash (sn_body s) (sn_Tick s) (sn_prng s) (sn_nextEventID s)"

definition Snapshot_PartitionOf :: "Snapshot \<Rightarrow> PartitionOffset \<times> bool" where
  "Snapshot_PartitionOf s =
     (case find (\<lambda>po. po_Partition po = PartitionFor (sn_Zone s)) (sn_Offsets s) of
        Some po \<Rightarrow> (po, True) | None \<Rightarrow> (\<lparr>po_Partition = PartitionFor (sn_Zone s), po_Offset = 0\<rparr>, False))"

definition Key :: "Snapshot \<Rightarrow> string" where
  "Key s = SnapshotKey (sn_Zone s) (sn_StateVersion s) (sn_Tick s) (po_Offset (fst (Snapshot_PartitionOf s)))"

section \<open>The messages of \<open>state.v1\<close>\<close>

record pb_EntityState =
  pes_EntityId :: string
  pes_RoomId :: string
  pes_Template :: string
  pes_ContentVersion :: string
  pes_Name :: string
  pes_Dormant :: bool
  pes_DormantSinceTick :: u64
  pes_LinkdeadSinceTick :: u64
  pes_LinkdeadDeadlineTick :: u64
  pes_LinkdeadCeilingTick :: u64
  pes_LinkdeadExtensionTicks :: u64
  pes_HandoffSeq :: u64
  pes_Components :: "pb_ComponentValue list"

record pb_TransitRecord =
  ptr_Entity :: "pb_EntityState option"
  ptr_ToZoneId :: string
  ptr_RoomId :: string
  ptr_Direction :: string

record pb_PlacedArrival =
  ppa_EntityId :: string
  ppa_HandoffSeq :: u64
  ppa_Rejected :: bool

record pb_ZoneState =
  pzs_ZoneId :: string
  pzs_Tick :: u64
  pzs_PrngState :: bytes
  pzs_Entities :: "pb_EntityState list"
  pzs_Deferred :: "LoggedCommand list"
  pzs_NextEventId :: u64
  pzs_Faulted :: bool
  pzs_FaultedTick :: u64
  pzs_Transit :: "pb_TransitRecord list"
  pzs_Placed :: "pb_PlacedArrival list"

record pb_SnapshotEnvelope =
  pse_StateVersion :: u32
  pse_Tick :: u64
  pse_Offsets :: "PartitionOffset list"
  pse_StateHash :: bytes
  pse_ZoneId :: string
  pse_TakenAtUnixNano :: int
  pse_Body :: bytes
  pse_Content :: "(string \<times> u64) list"
  pse_ContentDigest :: bytes
  pse_SimSeed :: u64

text \<open>A message that is absent reads as the zero message.\<close>

definition GetEntity :: "pb_TransitRecord \<Rightarrow> pb_EntityState" where
  "GetEntity t = (case ptr_Entity t of Some e \<Rightarrow> e
     | None \<Rightarrow> \<lparr>pes_EntityId = '''', pes_RoomId = '''', pes_Template = '''', pes_ContentVersion = '''', pes_Name = '''', pes_Dormant = False,
         pes_DormantSinceTick = 0, pes_LinkdeadSinceTick = 0, pes_LinkdeadDeadlineTick = 0, pes_LinkdeadCeilingTick = 0,
         pes_LinkdeadExtensionTicks = 0, pes_HandoffSeq = 0, pes_Components = []\<rparr>)"

section \<open>Writing\<close>

definition PRNGStateBytes :: nat where
  "PRNGStateBytes = 32"

text \<open>\<^verbatim>\<open>binary.BigEndian.PutUint64\<close>.\<close>

definition PutUint64 :: "u64 \<Rightarrow> bytes" where
  "PutUint64 w = map (\<lambda>k. char_of (unat (drop_bit k w))) [56, 48, 40, 32, 24, 16, 8, 0]"

definition encodePRNG :: "rng \<Rightarrow> bytes" where
  "encodePRNG s = (case s of (r0, r1, r2, r3) \<Rightarrow> PutUint64 r0 @ PutUint64 r1 @ PutUint64 r2 @ PutUint64 r3)"

definition entityStateProto :: "EntityState \<Rightarrow> pb_EntityState" where
  "entityStateProto e = \<lparr>pes_EntityId = en_ID e, pes_RoomId = en_Room e, pes_Template = en_Template e, pes_ContentVersion = en_ContentVersion e,
     pes_Name = en_Name e, pes_Dormant = en_Dormant e, pes_DormantSinceTick = en_DormantSince e,
     pes_LinkdeadSinceTick = en_LinkdeadSince e, pes_LinkdeadDeadlineTick = en_LinkdeadDeadline e, pes_LinkdeadCeilingTick = en_LinkdeadCeiling e,
     pes_LinkdeadExtensionTicks = en_LinkdeadExtension e, pes_HandoffSeq = en_HandoffSeq e,
     pes_Components = map componentProto (sortComponents (en_Components e))\<rparr>"

definition transitProto :: "TransitRecord \<Rightarrow> pb_TransitRecord" where
  "transitProto r = \<lparr>ptr_Entity = Some (entityStateProto (tx_Entity r)), ptr_ToZoneId = tx_To r, ptr_RoomId = tx_Room r, ptr_Direction = tx_Direction r\<rparr>"

definition placedProto :: "EntityID \<times> PlacedMark \<Rightarrow> pb_PlacedArrival" where
  "placedProto im = (case im of (eid, m) \<Rightarrow> \<lparr>ppa_EntityId = eid, ppa_HandoffSeq = pm_Seq m, ppa_Rejected = pm_Rejected m\<rparr>)"

definition BodyProto :: "Snapshot \<Rightarrow> pb_ZoneState" where
  "BodyProto s = (let z = sn_body s in
     \<lparr>pzs_ZoneId = zs_ID z, pzs_Tick = sn_Tick s, pzs_PrngState = encodePRNG (sn_prng s),
      pzs_Entities = map (entityStateProto \<circ> snd) (entries (zs_Entities z)), pzs_Deferred = [], pzs_NextEventId = sn_nextEventID s,
      pzs_Faulted = zs_Faulted z, pzs_FaultedTick = zs_FaultedTick z,
      pzs_Transit = map (transitProto \<circ> snd) (entries (zs_Transit z)),
      pzs_Placed = map placedProto (entries (zs_Placed z))\<rparr>)"

definition envelope_of :: "Snapshot \<Rightarrow> bytes \<Rightarrow> pb_SnapshotEnvelope" where
  "envelope_of s body = \<lparr>pse_StateVersion = sn_StateVersion s, pse_Tick = sn_Tick s,
     pse_Offsets = sort_key po_Partition (sn_Offsets s), pse_StateHash = Snapshot_StateHash s, pse_ZoneId = sn_Zone s,
     pse_TakenAtUnixNano = sn_TakenAtUnixNano s, pse_Body = body, pse_Content = entries (sn_content s),
     pse_ContentDigest = (if sn_content s = fmempty then [] else sn_contentDigest s), pse_SimSeed = sn_simSeed s\<rparr>"

text \<open>\<^verbatim>\<open>canonical.Marshal\<close> of a body and of an envelope are parameters; either may fail.\<close>

definition Encode :: "(pb_ZoneState \<Rightarrow> string + bytes) \<Rightarrow> (pb_SnapshotEnvelope \<Rightarrow> string + bytes) \<Rightarrow> Snapshot \<Rightarrow> string + bytes" where
  "Encode marshalBody marshalEnvelope s =
     (case marshalBody (BodyProto s) of Inl err \<Rightarrow> Inl err
      | Inr body \<Rightarrow> marshalEnvelope (envelope_of s body))"

section \<open>Reading\<close>

datatype SnapshotError =
    PRNGWidth nat
  | CarriesDeferred ZoneID nat
  | LinkdeadWithoutDeadline EntityID
  | DormantSinceAwake EntityID
  | TransitNoEntity
  | TransitUnsorted EntityID
  | TransitAlsoHere EntityID
  | TransitDormantOrLinkdead EntityID
  | TransitDormantOrLinkdeadFields EntityID
  | PlacedNoEntity
  | PlacedUnsorted EntityID
  | PlacedZero EntityID
  | PlacedContradiction EntityID

definition DecodePRNG :: "bytes \<Rightarrow> SnapshotError + rng" where
  "DecodePRNG b = (if length b \<noteq> PRNGStateBytes then Inl (PRNGWidth (length b))
     else Inr (BigEndianUint64 b, BigEndianUint64 (drop 8 b), BigEndianUint64 (drop 16 b), BigEndianUint64 (drop 24 b)))"

definition entityStateFromProto :: "pb_EntityState \<Rightarrow> EntityState" where
  "entityStateFromProto ep = \<lparr>en_ID = pes_EntityId ep, en_Template = pes_Template ep, en_ContentVersion = pes_ContentVersion ep,
     en_Components = sortComponents (map componentFromProto (pes_Components ep)), en_Room = pes_RoomId ep, en_Name = pes_Name ep,
     en_Dormant = pes_Dormant ep, en_DormantSince = pes_DormantSinceTick ep, en_LinkdeadSince = pes_LinkdeadSinceTick ep,
     en_LinkdeadDeadline = pes_LinkdeadDeadlineTick ep, en_LinkdeadCeiling = pes_LinkdeadCeilingTick ep,
     en_LinkdeadExtension = pes_LinkdeadExtensionTicks ep, en_HandoffSeq = pes_HandoffSeq ep\<rparr>"

text \<open>A map filled from a list in order: the last entry for a key stands.\<close>

definition fill :: "('k \<times> 'v) list \<Rightarrow> ('k, 'v) fmap" where
  "fill xs = fmap_of_list (rev xs)"

definition transitFromProto :: "pb_TransitRecord \<Rightarrow> TransitRecord" where
  "transitFromProto tp = \<lparr>tx_Entity = entityStateFromProto (GetEntity tp), tx_To = ptr_ToZoneId tp, tx_Room = ptr_RoomId tp, tx_Direction = ptr_Direction tp\<rparr>"

definition ZoneStateFromProto :: "pb_ZoneState \<Rightarrow> ZoneState" where
  "ZoneStateFromProto p = \<lparr>zs_ID = pzs_ZoneId p,
     zs_Entities = fill (map (\<lambda>ep. let e = entityStateFromProto ep in (en_ID e, e)) (pzs_Entities p)),
     zs_Faulted = pzs_Faulted p, zs_FaultedTick = pzs_FaultedTick p,
     zs_Transit = fill (map (\<lambda>tp. let r = transitFromProto tp in (en_ID (tx_Entity r), r)) (pzs_Transit p)),
     zs_Placed = fill (map (\<lambda>pp. (ppa_EntityId pp, \<lparr>pm_Seq = ppa_HandoffSeq pp, pm_Rejected = ppa_Rejected pp\<rparr>)) (pzs_Placed p))\<rparr>"

definition stray_linkdead :: "pb_EntityState \<Rightarrow> bool" where
  "stray_linkdead e \<longleftrightarrow> (pes_LinkdeadSinceTick e OR pes_LinkdeadCeilingTick e OR pes_LinkdeadExtensionTicks e) \<noteq> 0"

fun checkEntities :: "pb_EntityState list \<Rightarrow> SnapshotError option" where
  "checkEntities [] = None"
| "checkEntities (e # es) =
     (if pes_LinkdeadDeadlineTick e = 0 \<and> stray_linkdead e then Some (LinkdeadWithoutDeadline (pes_EntityId e))
      else if \<not> pes_Dormant e \<and> pes_DormantSinceTick e \<noteq> 0 then Some (DormantSinceAwake (pes_EntityId e))
      else checkEntities es)"

text \<open>The ID seen before, none for the first.\<close>

fun checkTransit :: "EntityID set \<Rightarrow> EntityID option \<Rightarrow> pb_TransitRecord list \<Rightarrow> SnapshotError option" where
  "checkTransit ids prev [] = None"
| "checkTransit ids prev (t # ts) =
     (let e = GetEntity t; eid = pes_EntityId e in
      if eid = '''' then Some TransitNoEntity
      else if (case prev of None \<Rightarrow> False | Some p \<Rightarrow> eid \<le> p) then Some (TransitUnsorted eid)
      else if eid \<in> ids then Some (TransitAlsoHere eid)
      else if pes_Dormant e \<or> pes_LinkdeadDeadlineTick e \<noteq> 0 then Some (TransitDormantOrLinkdead eid)
      else if pes_DormantSinceTick e \<noteq> 0 \<or> stray_linkdead e then Some (TransitDormantOrLinkdeadFields eid)
      else checkTransit ids (Some eid) ts)"

fun checkPlaced :: "(EntityID \<rightharpoonup> u64) \<Rightarrow> EntityID option \<Rightarrow> pb_PlacedArrival list \<Rightarrow> SnapshotError option" where
  "checkPlaced seqs prev [] = None"
| "checkPlaced seqs prev (m # ms) =
     (let eid = ppa_EntityId m in
      if eid = '''' then Some PlacedNoEntity
      else if (case prev of None \<Rightarrow> False | Some p \<Rightarrow> eid \<le> p) then Some (PlacedUnsorted eid)
      else if ppa_HandoffSeq m = 0 then Some (PlacedZero eid)
      else if ppa_Rejected m \<and> seqs eid = Some (ppa_HandoffSeq m) then Some (PlacedContradiction eid)
      else checkPlaced seqs (Some eid) ms)"

definition checkHandoffBody :: "pb_ZoneState \<Rightarrow> SnapshotError option" where
  "checkHandoffBody p =
     (let seqs = map_of (rev (map (\<lambda>e. (pes_EntityId e, pes_HandoffSeq e)) (pzs_Entities p)));
          ids = set (map pes_EntityId (pzs_Entities p)) in
      case checkTransit ids None (pzs_Transit p) of Some err \<Rightarrow> Some err
      | None \<Rightarrow> checkPlaced seqs None (pzs_Placed p))"

definition BodyStateHash :: "pb_ZoneState \<Rightarrow> SnapshotError + bytes" where
  "BodyStateHash p =
     (if pzs_Deferred p \<noteq> [] then Inl (CarriesDeferred (pzs_ZoneId p) (length (pzs_Deferred p)))
      else case checkEntities (pzs_Entities p) of Some err \<Rightarrow> Inl err
      | None \<Rightarrow> (case checkHandoffBody p of Some err \<Rightarrow> Inl err
      | None \<Rightarrow> (case DecodePRNG (pzs_PrngState p) of Inl err \<Rightarrow> Inl err
      | Inr prng \<Rightarrow> Inr (SnapshotHash (ZoneStateFromProto p) (pzs_Tick p) prng (pzs_NextEventId p)))))"

section \<open>A copy is the Zone\<close>

lemma Component_eta [simp]: "\<lparr>comp_Type = comp_Type c, comp_Fields = comp_Fields c\<rparr> = c"
  by (cases c) simp

lemma Entity_Clone: "Entity_Clone = (\<lambda>e. e)"
proof
  show "Entity_Clone e = e" for e by (cases e) (simp add: Entity_Clone_def)
qed

lemma Zone_Clone [simp]: "Zone_Clone z = z"
  by (cases z) (simp add: Zone_Clone_def Entity_Clone fmap.map_ident)

lemma snapshot_of_fields [simp]:
  "sn_Zone (snapshot_of e t zid) = zs_ID (zone_of (en_state e) zid)" "sn_body (snapshot_of e t zid) = zone_of (en_state e) zid"
  "sn_Tick (snapshot_of e t zid) = ws_Tick (en_state e)" "sn_StateVersion (snapshot_of e t zid) = ws_Version (en_state e)"
  "sn_Offsets (snapshot_of e t zid) = offsets_of (ws_Offsets (en_state e))" "sn_prng (snapshot_of e t zid) = ws_RNG (en_state e)"
  "sn_nextEventID (snapshot_of e t zid) = ws_NextEventID (en_state e)" "sn_content (snapshot_of e t zid) = en_versions e"
  "sn_simSeed (snapshot_of e t zid) = ws_Seed (en_state e)" "sn_contentDigest (snapshot_of e t zid) = en_digest e"
  "sn_TakenAtUnixNano (snapshot_of e t zid) = t"
  by (simp_all add: snapshot_of_def Let_def)

section \<open>The generator's words\<close>

lemma byte_step: "push_bit 8 (drop_bit (n + 8) w) OR of_char (char_of (unat (drop_bit n w))) = drop_bit n (w :: u64)"
proof -
  have "(of_char (char_of (unat (drop_bit n w))) :: u64) = take_bit 8 (drop_bit n w)"
  proof -
    have "(of_char (char_of (unat (drop_bit n w))) :: u64) = of_nat (of_char (char_of (unat (drop_bit n w))))"
      by (rule of_nat_of_char[symmetric])
    also have "\<dots> = of_nat (unat (take_bit 8 (drop_bit n w)))" by (simp only: of_char_of unsigned_take_bit_eq) (simp add: take_bit_eq_mod)
    finally show ?thesis by simp
  qed
  then show ?thesis by (intro bit_word_eqI) (auto simp: bit_or_iff bit_push_bit_iff bit_drop_bit_eq bit_take_bit_iff not_less)
qed

lemma BigEndianUint64_PutUint64: "BigEndianUint64 (PutUint64 w @ bs) = w"
proof -
  have s: "push_bit 8 (drop_bit m w) OR of_char (char_of (unat (drop_bit n w))) = drop_bit n w" if "m = n + 8" for m n
    using byte_step[of n w] that by simp
  have z: "(0 :: u64) = drop_bit 64 w" by (rule bit_word_eqI) (simp add: bit_drop_bit_eq bit_word_iff_drop_bit_and)
  have "BigEndianUint64 (PutUint64 w @ bs) = foldl (\<lambda>acc c. push_bit 8 acc OR of_char c) 0 (PutUint64 w)"
    by (simp add: BigEndianUint64_def PutUint64_def)
  also have "\<dots> = foldl (\<lambda>acc c. push_bit 8 acc OR of_char c) (drop_bit 64 w) (PutUint64 w)" using z by simp
  also have "\<dots> = drop_bit 0 w" unfolding PutUint64_def list.map foldl.simps
    by (simp only: s[of 64 56] s[of 56 48] s[of 48 40] s[of 40 32] s[of 32 24] s[of 24 16] s[of 16 8] s[of 8 0] arith_simps arith_special rel_simps)
  finally show ?thesis by simp
qed

lemma length_PutUint64 [simp]: "length (PutUint64 w) = 8"
  by (simp add: PutUint64_def)

lemma DecodePRNG_encodePRNG [simp]: "DecodePRNG (encodePRNG r) = Inr r"
proof -
  obtain r0 r1 r2 r3 where r: "r = (r0, r1, r2, r3)" by (metis prod_cases4)
  have "BigEndianUint64 (PutUint64 w) = w" for w using BigEndianUint64_PutUint64[of w "[]"] by simp
  then show ?thesis by (simp add: r DecodePRNG_def encodePRNG_def PRNGStateBytes_def BigEndianUint64_PutUint64)
qed

section \<open>What is written reads back\<close>

lemma entityState_roundtrip:
  "canonical_components (en_Components e) \<Longrightarrow> entityStateFromProto (entityStateProto e) = e"
  by (cases e) (simp add: entityStateFromProto_def entityStateProto_def map_componentFromProto sortComponents_canonical)

lemma fill_entries: "(\<And>k v. fmlookup m k = Some v \<Longrightarrow> f (k, v) = (k, v)) \<Longrightarrow> fill (map f (entries m)) = m"
proof -
  assume f: "\<And>k v. fmlookup m k = Some v \<Longrightarrow> f (k, v) = (k, v)"
  have "map f (entries m) = entries m" by (rule map_idI) (use f in \<open>auto simp: set_entries\<close>)
  moreover have "map_of (rev (entries m)) = map_of (entries m)" by (rule map_of_inject_set[THEN iffD2]) (simp_all add: rev_map[symmetric])
  ultimately show ?thesis by (intro fmap_ext) (simp add: fill_def fmap_of_list.rep_eq)
qed

lemma ZoneStateFromProto_BodyProto:
  assumes "good_zone (sn_body s)"
  shows "ZoneStateFromProto (BodyProto s) = sn_body s"
proof -
  let ?z = "sn_body s"
  have e: "en_ID e = k \<and> canonical_components (en_Components e)" if "fmlookup (zs_Entities ?z) k = Some e" for k e
    using assms that by (auto simp: good_zone_def keyed_zone_def canonical_zone_def canonical_entity_def fmpred_iff)
  have t: "en_ID (tx_Entity r) = k \<and> canonical_components (en_Components (tx_Entity r))" if "fmlookup (zs_Transit ?z) k = Some r" for k r
    using assms that by (auto simp: good_zone_def keyed_zone_def canonical_zone_def canonical_entity_def fmpred_iff)
  have "fill (map (\<lambda>x. (en_ID (entityStateFromProto (entityStateProto (snd x))), entityStateFromProto (entityStateProto (snd x)))) (entries (zs_Entities ?z))) = zs_Entities ?z"
    by (rule fill_entries) (simp add: entityState_roundtrip e)
  moreover have "fill (map (\<lambda>x. (en_ID (tx_Entity (transitFromProto (transitProto (snd x)))), transitFromProto (transitProto (snd x)))) (entries (zs_Transit ?z))) = zs_Transit ?z"
    by (rule fill_entries) (simp add: transitFromProto_def transitProto_def GetEntity_def entityState_roundtrip t)
  moreover have "fill (map (\<lambda>x. (ppa_EntityId (placedProto x), \<lparr>pm_Seq = ppa_HandoffSeq (placedProto x), pm_Rejected = ppa_Rejected (placedProto x)\<rparr>)) (entries (zs_Placed ?z))) = zs_Placed ?z"
    by (rule fill_entries) (simp add: placedProto_def)
  ultimately show ?thesis by (simp add: ZoneStateFromProto_def BodyProto_def Let_def comp_def)
qed

section \<open>The hash covers the body\<close>

lemma SnapshotCanonicalBytes_records:
  "SnapshotCanonicalBytes z tick (r0, r1, r2, r3) next =
     writeRecords ((zone_head z # zone_body z) @ [[''snapshot'', FormatUint tick, FormatUint r0, FormatUint r1, FormatUint r2, FormatUint r3, FormatUint next]])"
  by (simp add: SnapshotCanonicalBytes_def ZoneCanonicalBytes_def zone_records_blocks)

lemma SnapshotCanonicalBytes_inject:
  assumes good: "ordered_zone z" "ordered_zone z'" and eq: "SnapshotCanonicalBytes z tick prng next = SnapshotCanonicalBytes z' tick' prng' next'"
  shows "z = z' \<and> tick = tick' \<and> prng = prng' \<and> next = next'"
proof -
  obtain r0 r1 r2 r3 where r: "prng = (r0, r1, r2, r3)" by (metis prod_cases4)
  obtain q0 q1 q2 q3 where q: "prng' = (q0, q1, q2, q3)" by (metis prod_cases4)
  let ?last = "\<lambda>t w0 w1 w2 w3 n. [''snapshot'', FormatUint (t :: u64), FormatUint (w0 :: u64), FormatUint (w1 :: u64), FormatUint (w2 :: u64), FormatUint (w3 :: u64), FormatUint (n :: u64)]"
  have ne: "[] \<notin> set ((zone_head x # zone_body x) @ [?last t w0 w1 w2 w3 n])" for x t w0 w1 w2 w3 n
    using zone_block_tags[of "[]" x] by (auto simp: tag_def)
  have e: "(zone_head z # zone_body z) @ [?last tick r0 r1 r2 r3 next] = (zone_head z' # zone_body z') @ [?last tick' q0 q1 q2 q3 next']"
    using writeRecords_inject[OF ne ne] eq unfolding r q SnapshotCanonicalBytes_records by blast
  then have "zone_head z = zone_head z'" "zone_body z = zone_body z'" "?last tick r0 r1 r2 r3 next = ?last tick' q0 q1 q2 q3 next'"
    by simp_all
  then show ?thesis using zone_body_inject[OF good] r q by simp
qed

text \<open>A set of Components that names no type twice, and none of whose members names a field twice.\<close>

definition plain_components :: "pb_ComponentValue list \<Rightarrow> bool" where
  "plain_components cs \<longleftrightarrow> distinct (map pbc_Type cs) \<and> list_all (\<lambda>c. distinct (map pbf_Name (pbc_Fields c))) cs"

lemma cf_Name_fieldValue [simp]: "cf_Name (fieldValue fd) = pbf_Name fd"
  by (simp add: fieldValue_def Let_def split: pb_value.splits)

lemma canonical_fromProto: "plain_components cs \<Longrightarrow> canonical_components (sortComponents (map componentFromProto cs))"
  by (rule canonical_sortComponents) (auto simp: plain_components_def list_all_iff componentFromProto_def comp_def)

lemma ordered_fromProto: "ordered_components (sortComponents (map componentFromProto cs))"
  by (rule ordered_sortComponents) (auto simp: list_all_iff componentFromProto_def)

lemma stray_linkdead_iff: "\<not> stray_linkdead e \<longleftrightarrow>
    pes_LinkdeadSinceTick e = 0 \<and> pes_LinkdeadCeilingTick e = 0 \<and> pes_LinkdeadExtensionTicks e = 0"
  by (auto simp: stray_linkdead_def or_eq_0_iff)

lemma checkEntities_None: "checkEntities es = None \<longleftrightarrow>
    (\<forall>e \<in> set es. (pes_LinkdeadDeadlineTick e = 0 \<longrightarrow> \<not> stray_linkdead e) \<and> (\<not> pes_Dormant e \<longrightarrow> pes_DormantSinceTick e = 0))"
  by (induction es) auto

lemma lookup_fill: "fmlookup (fill xs) k = Some v \<Longrightarrow> (k, v) \<in> set xs"
  by (auto simp: fill_def fmap_of_list.rep_eq dest: map_of_SomeD)

lemma checkTransit_None:
  "checkTransit ids prev ts = None \<Longrightarrow> \<forall>t \<in> set ts. let e = GetEntity t in
     pes_EntityId e \<noteq> '''' \<and> pes_EntityId e \<notin> ids \<and> \<not> pes_Dormant e \<and> pes_LinkdeadDeadlineTick e = 0 \<and> pes_DormantSinceTick e = 0 \<and> \<not> stray_linkdead e"
  by (induction ts arbitrary: prev) (auto simp: Let_def split: if_splits)

lemma BodyStateHash_Inr:
  assumes "BodyStateHash p = Inr h"
  shows "pzs_Deferred p = []" "checkEntities (pzs_Entities p) = None" "checkHandoffBody p = None"
    "\<exists>prng. DecodePRNG (pzs_PrngState p) = Inr prng \<and> h = SnapshotHash (ZoneStateFromProto p) (pzs_Tick p) prng (pzs_NextEventId p)"
  using assms by (auto simp: BodyStateHash_def split: if_splits option.splits sum.splits)

lemma ordered_zone_accepted:
  assumes "BodyStateHash p = Inr h"
  shows "ordered_zone (ZoneStateFromProto p)"
proof -
  note b = BodyStateHash_Inr[OF assms]
  have t: "\<forall>t \<in> set (pzs_Transit p). let e = GetEntity t in pes_EntityId e \<noteq> '''' \<and> pes_EntityId e \<notin> set (map pes_EntityId (pzs_Entities p))
      \<and> \<not> pes_Dormant e \<and> pes_LinkdeadDeadlineTick e = 0 \<and> pes_DormantSinceTick e = 0 \<and> \<not> stray_linkdead e"
    using b(3) by (intro checkTransit_None[of _ None]) (simp add: checkHandoffBody_def Let_def split: option.splits)
  have e1: "ordered_entity (entityStateFromProto e)" if "e \<in> set (pzs_Entities p)" for e
    using b(2) that unfolding checkEntities_None
    by (auto simp: ordered_entity_def entityStateFromProto_def stray_linkdead_iff ordered_fromProto)
  have e2: "ordered_entity (entityStateFromProto (GetEntity t))" if "t \<in> set (pzs_Transit p)" for t
    using t that by (auto simp: ordered_entity_def entityStateFromProto_def stray_linkdead_iff Let_def ordered_fromProto)
  have e3: "ordered_entity (tx_Entity (transitFromProto t))" if "t \<in> set (pzs_Transit p)" for t
    using e2[OF that] by (simp add: transitFromProto_def)
  show ?thesis
    by (auto simp: ordered_zone_def keyed_zone_def fmpred_iff ZoneStateFromProto_def Let_def
        dest!: lookup_fill intro: e1 e3)
qed

definition body_bytes :: "pb_ZoneState \<Rightarrow> bytes" where
  "body_bytes p = (case DecodePRNG (pzs_PrngState p) of Inl _ \<Rightarrow> []
     | Inr prng \<Rightarrow> SnapshotCanonicalBytes (ZoneStateFromProto p) (pzs_Tick p) prng (pzs_NextEventId p))"

text \<open>
  C23. The hash of a stored body covers everything a restore reads from it: two bodies the reader
  accepts under one hash rebuild the same Zone, tick, generator state and next Event ID, or their
  canonical bytes are a SHA-256 collision. No corruption of a stored body passes for the original, not even
  into one that repeats a Component or a field, which the reader accepts; those keep the order of the
  body here, where \<^verbatim>\<open>sort.Slice\<close> promises none among equals.
\<close>
theorem BodyStateHash_covers_body:
  assumes "BodyStateHash p = Inr h" "BodyStateHash p' = Inr h"
  shows "ZoneStateFromProto p = ZoneStateFromProto p' \<and> pzs_Tick p = pzs_Tick p' \<and> DecodePRNG (pzs_PrngState p) = DecodePRNG (pzs_PrngState p')
      \<and> pzs_NextEventId p = pzs_NextEventId p'
    \<or> body_bytes p \<noteq> body_bytes p' \<and> sha256 (body_bytes p) = sha256 (body_bytes p')"
proof -
  obtain r where r: "DecodePRNG (pzs_PrngState p) = Inr r" "h = SnapshotHash (ZoneStateFromProto p) (pzs_Tick p) r (pzs_NextEventId p)"
    using BodyStateHash_Inr(4)[OF assms(1)] by blast
  obtain r' where r': "DecodePRNG (pzs_PrngState p') = Inr r'" "h = SnapshotHash (ZoneStateFromProto p') (pzs_Tick p') r' (pzs_NextEventId p')"
    using BodyStateHash_Inr(4)[OF assms(2)] by blast
  note inject = SnapshotCanonicalBytes_inject[OF ordered_zone_accepted[OF assms(1)] ordered_zone_accepted[OF assms(2)],
    of "pzs_Tick p" r "pzs_NextEventId p" "pzs_Tick p'" r' "pzs_NextEventId p'"]
  have "sha256 (body_bytes p) = sha256 (body_bytes p')" using r r' by (simp add: SnapshotHash_def body_bytes_def)
  then show ?thesis using inject r(1) r'(1) by (auto simp: body_bytes_def)
qed

text \<open>A body of two Entities, in the order given.\<close>

definition sample_body :: "EntityID list \<Rightarrow> pb_ZoneState" where
  "sample_body ids = \<lparr>pzs_ZoneId = ''town'', pzs_Tick = 7, pzs_PrngState = encodePRNG (1, 2, 3, 4),
     pzs_Entities = map (\<lambda>eid. entityStateProto (zero_entity\<lparr>en_ID := eid\<rparr>)) ids, pzs_Deferred = [], pzs_NextEventId = 5, pzs_Faulted = False,
     pzs_FaultedTick = 0, pzs_Transit = [], pzs_Placed = []\<rparr>"

theorem BodyStateHash_covers_body_witness:
  "let p = sample_body [''ann'', ''bob'']; p' = sample_body [''bob'', ''ann''] in
     (\<exists>h. BodyStateHash p = Inr h \<and> BodyStateHash p' = Inr h)
     \<and> (ZoneStateFromProto p = ZoneStateFromProto p' \<and> pzs_Tick p = pzs_Tick p' \<or> body_bytes p \<noteq> body_bytes p' \<and> sha256 (body_bytes p) = sha256 (body_bytes p'))"
proof -
  let ?p = "sample_body [''ann'', ''bob'']" and ?q = "sample_body [''bob'', ''ann'']"
  have "fill [(k, v), (k', v')] = fill [(k', v'), (k, v)]" if "k \<noteq> k'" for k k' :: string and v v' :: EntityState
    using that by (intro fmap_ext) (simp add: fill_def fmap_of_list.rep_eq)
  then have z: "ZoneStateFromProto ?q = ZoneStateFromProto ?p"
    by (simp add: ZoneStateFromProto_def sample_body_def Let_def entityStateFromProto_def entityStateProto_def)
  have "checkEntities (pzs_Entities ?p) = None" "checkEntities (pzs_Entities ?q) = None" unfolding checkEntities_None
    by (simp_all add: sample_body_def entityStateProto_def zero_entity_def stray_linkdead_def)
  moreover have "checkHandoffBody ?p = None" "checkHandoffBody ?q = None" by (simp_all add: checkHandoffBody_def sample_body_def)
  moreover have "pzs_Deferred ?p = []" "pzs_Deferred ?q = []" "DecodePRNG (pzs_PrngState ?p) = Inr (1, 2, 3, 4)" "DecodePRNG (pzs_PrngState ?q) = Inr (1, 2, 3, 4)"
    "pzs_Tick ?q = pzs_Tick ?p" "pzs_NextEventId ?q = pzs_NextEventId ?p" by (simp_all add: sample_body_def)
  ultimately obtain h where h: "BodyStateHash ?p = Inr h" "BodyStateHash ?q = Inr h" using z by (simp add: BodyStateHash_def)
  from BodyStateHash_covers_body[OF h] h show ?thesis unfolding Let_def by blast
qed

section \<open>What is written is accepted\<close>

text \<open>What \<^const>\<open>checkHandoffBody\<close> asks, of the state rather than of the message.\<close>

definition handoff_zone :: "ZoneState \<Rightarrow> bool" where
  "handoff_zone z \<longleftrightarrow>
     fmpred (\<lambda>eid r. eid \<noteq> '''' \<and> fmlookup (zs_Entities z) eid = None \<and> \<not> en_Dormant (tx_Entity r) \<and> \<not> Linkdead (tx_Entity r)) (zs_Transit z)
     \<and> fmpred (\<lambda>eid m. eid \<noteq> '''' \<and> pm_Seq m \<noteq> 0
          \<and> (pm_Rejected m \<longrightarrow> map_option en_HandoffSeq (fmlookup (zs_Entities z) eid) \<noteq> Some (pm_Seq m))) (zs_Placed z)"

lemma checkTransit_sorted:
  assumes "sorted_wrt (<) (map (pes_EntityId \<circ> GetEntity) ts)" "\<forall>p. prev = Some p \<longrightarrow> (\<forall>t \<in> set ts. p < pes_EntityId (GetEntity t))"
    "\<forall>t \<in> set ts. let e = GetEntity t in pes_EntityId e \<noteq> '''' \<and> pes_EntityId e \<notin> ids \<and> \<not> pes_Dormant e \<and> pes_LinkdeadDeadlineTick e = 0
       \<and> pes_DormantSinceTick e = 0 \<and> \<not> stray_linkdead e"
  shows "checkTransit ids prev ts = None"
  using assms
proof (induction ts arbitrary: prev)
  case (Cons t ts)
  have "checkTransit ids (Some (pes_EntityId (GetEntity t))) ts = None" using Cons.prems by (intro Cons.IH) simp_all
  then show ?case using Cons.prems(2,3) by (auto simp: Let_def split: option.splits)
qed simp

lemma checkPlaced_sorted:
  assumes "sorted_wrt (<) (map ppa_EntityId ms)" "\<forall>p. prev = Some p \<longrightarrow> (\<forall>m \<in> set ms. p < ppa_EntityId m)"
    "\<forall>m \<in> set ms. ppa_EntityId m \<noteq> '''' \<and> ppa_HandoffSeq m \<noteq> 0 \<and> (ppa_Rejected m \<longrightarrow> seqs (ppa_EntityId m) \<noteq> Some (ppa_HandoffSeq m))"
  shows "checkPlaced seqs prev ms = None"
  using assms
proof (induction ms arbitrary: prev)
  case (Cons m ms)
  have "checkPlaced seqs (Some (ppa_EntityId m)) ms = None" using Cons.prems by (intro Cons.IH) simp_all
  then show ?case using Cons.prems(2,3) by (auto simp: Let_def split: option.splits)
qed simp

lemma stray_entityStateProto: "canonical_entity e \<Longrightarrow> \<not> Linkdead e \<Longrightarrow> \<not> stray_linkdead (entityStateProto e)"
  by (simp add: stray_linkdead_iff entityStateProto_def canonical_entity_def Linkdead_def)

lemma entityStateProto_simps [simp]:
  "pes_EntityId (entityStateProto e) = en_ID e" "pes_HandoffSeq (entityStateProto e) = en_HandoffSeq e" "pes_Dormant (entityStateProto e) = en_Dormant e"
  "pes_LinkdeadDeadlineTick (entityStateProto e) = en_LinkdeadDeadline e" "pes_DormantSinceTick (entityStateProto e) = en_DormantSince e"
  by (simp_all add: entityStateProto_def)

lemma GetEntity_transitProto [simp]: "GetEntity (transitProto r) = entityStateProto (tx_Entity r)"
  by (simp add: GetEntity_def transitProto_def)

lemma placedProto_simps [simp]:
  "ppa_EntityId (placedProto x) = fst x" "ppa_HandoffSeq (placedProto x) = pm_Seq (snd x)" "ppa_Rejected (placedProto x) = pm_Rejected (snd x)"
  by (simp_all add: placedProto_def split_def)

lemma map_values_entries: "(\<And>k v. fmlookup m k = Some v \<Longrightarrow> f v = k) \<Longrightarrow> map (\<lambda>x. f (snd x)) (entries m) = keys m"
  by (auto simp: entries_keys comp_def fmdom'_lookup intro!: map_idI)

lemma seqs_entries:
  assumes "\<And>k e. fmlookup m k = Some e \<Longrightarrow> en_ID e = k"
  shows "map_of (rev (map (\<lambda>x. (en_ID (snd x), en_HandoffSeq (snd x))) (entries m))) k = map_option en_HandoffSeq (fmlookup m k)"
proof -
  have e: "map (\<lambda>x. (en_ID (snd x), en_HandoffSeq (snd x))) (entries m) = map (\<lambda>(k, e). (k, en_HandoffSeq e)) (entries m)"
    using assms by (auto simp: set_entries)
  have "map_of (rev (map (\<lambda>(k, e). (k, en_HandoffSeq e)) (entries m))) = map_of (map (\<lambda>(k, e). (k, en_HandoffSeq e)) (entries m))"
    by (rule map_of_inject_set[THEN iffD2]) (simp_all add: rev_map[symmetric] comp_def split_def)
  then show ?thesis unfolding e by (simp add: map_of_map comp_def)
qed

lemma checkHandoffBody_BodyProto:
  assumes "good_zone (sn_body s)" "handoff_zone (sn_body s)"
  shows "checkHandoffBody (BodyProto s) = None"
proof -
  let ?z = "sn_body s"
  have ids: "fmlookup (zs_Entities ?z) k = Some e \<Longrightarrow> en_ID e = k" "fmlookup (zs_Transit ?z) k = Some r \<Longrightarrow> en_ID (tx_Entity r) = k \<and> canonical_entity (tx_Entity r)" for k e r
    using assms(1) by (auto simp: good_zone_def keyed_zone_def canonical_zone_def fmpred_iff)
  have t: "checkTransit (set (map (pes_EntityId \<circ> (entityStateProto \<circ> snd)) (entries (zs_Entities ?z)))) None (map (transitProto \<circ> snd) (entries (zs_Transit ?z))) = None"
  proof (rule checkTransit_sorted)
    show "sorted_wrt (<) (map (pes_EntityId \<circ> GetEntity) (map (transitProto \<circ> snd) (entries (zs_Transit ?z))))"
      using map_values_entries[of "zs_Transit ?z" "\<lambda>r. en_ID (tx_Entity r)"] ids(2) by (simp add: comp_def)
    have "let e = tx_Entity r in en_ID e \<noteq> '''' \<and> en_ID e \<notin> fmdom' (zs_Entities ?z) \<and> \<not> en_Dormant e \<and> en_LinkdeadDeadline e = 0
        \<and> en_DormantSince e = 0 \<and> \<not> stray_linkdead (entityStateProto e)" if "fmlookup (zs_Transit ?z) k = Some r" for k r
      using assms(2) ids(2)[OF that] that stray_entityStateProto[of "tx_Entity r"]
      by (auto simp: handoff_zone_def fmpred_iff Let_def Linkdead_def canonical_entity_def fmdom'_lookup)
    moreover have "set (map (pes_EntityId \<circ> (entityStateProto \<circ> snd)) (entries (zs_Entities ?z))) = fmdom' (zs_Entities ?z)"
      using map_values_entries[of "zs_Entities ?z" en_ID] ids(1) by (simp add: comp_def flip: set_keys)
    ultimately show "\<forall>t \<in> set (map (transitProto \<circ> snd) (entries (zs_Transit ?z))). let e = GetEntity t in pes_EntityId e \<noteq> ''''
        \<and> pes_EntityId e \<notin> set (map (pes_EntityId \<circ> (entityStateProto \<circ> snd)) (entries (zs_Entities ?z)))
        \<and> \<not> pes_Dormant e \<and> pes_LinkdeadDeadlineTick e = 0 \<and> pes_DormantSinceTick e = 0 \<and> \<not> stray_linkdead e"
      by (auto simp: set_entries Let_def)
  qed simp
  have p: "checkPlaced (map_of (rev (map (\<lambda>x. (en_ID (snd x), en_HandoffSeq (snd x))) (entries (zs_Entities ?z))))) None (map placedProto (entries (zs_Placed ?z))) = None"
    by (rule checkPlaced_sorted) (use assms(2) in \<open>auto simp: comp_def handoff_zone_def fmpred_iff set_entries seqs_entries[OF ids(1)]\<close>)
  show ?thesis using t p by (simp add: checkHandoffBody_def BodyProto_def Let_def comp_def)
qed

lemma BodyStateHash_BodyProto:
  assumes "good_zone (sn_body s)" "handoff_zone (sn_body s)"
  shows "BodyStateHash (BodyProto s) = Inr (Snapshot_StateHash s)"
proof -
  have "checkEntities (pzs_Entities (BodyProto s)) = None" unfolding checkEntities_None
    using assms(1) stray_entityStateProto
    by (auto simp: BodyProto_def Let_def set_entries good_zone_def canonical_zone_def fmpred_iff canonical_entity_def Linkdead_def)
  moreover note checkHandoffBody_BodyProto[OF assms] ZoneStateFromProto_BodyProto[OF assms(1)]
  moreover have "pzs_Deferred (BodyProto s) = []" "pzs_PrngState (BodyProto s) = encodePRNG (sn_prng s)" "pzs_Tick (BodyProto s) = sn_Tick s"
    "pzs_NextEventId (BodyProto s) = sn_nextEventID s" by (simp_all add: BodyProto_def Let_def)
  ultimately show ?thesis by (simp add: BodyStateHash_def Snapshot_StateHash_def)
qed

end
