(* ===== verification/Storable.thy ===== *)
theory Storable
  imports Retry Snapshot
begin

text \<open>
  The states the simulation reaches can be stored: every Zone of a running Engine meets what
  \<^const>\<open>BodyStateHash\<close> asks of a body, so every snapshot of it is accepted by its own reader and reads
  back as the Zone it was taken of. The invariant is proved over the effects of the handlers, on
  one condition on the records (\<open>orderly_record\<close>): no \<^verbatim>\<open>MarkLinkdead\<close> whose deadline wraps to zero,
  no \<^verbatim>\<open>BindCharacter\<close> with an empty ID. The Templates in effect are ones the loader produces.
\<close>

section \<open>A storable Zone\<close>

definition storable_zone :: "ZoneState \<Rightarrow> bool" where
  "storable_zone z \<longleftrightarrow>
     fmpred (\<lambda>eid e. eid \<noteq> '''' \<and> tidy e) (zs_Entities z)
     \<and> fmpred (\<lambda>eid r. eid \<noteq> '''' \<and> fmlookup (zs_Entities z) eid = None \<and> tidy (tx_Entity r) \<and> \<not> en_Dormant (tx_Entity r) \<and> \<not> Linkdead (tx_Entity r))
         (zs_Transit z)
     \<and> fmpred (\<lambda>eid m. eid \<noteq> '''' \<and> pm_Seq m \<noteq> 0 \<and> \<not> pm_Rejected m) (zs_Placed z)"

definition plain_msg :: "LoggedCommand \<Rightarrow> bool" where
  "plain_msg cmd = (case lc_Command cmd of
       Arrive arr \<Rightarrow> (case ar_Entity arr of Some p \<Rightarrow> plain_components (pe_Components p) | None \<Rightarrow> True)
     | _ \<Rightarrow> True)"

definition named_bind :: "LoggedCommand \<Rightarrow> bool" where
  "named_bind cmd = (case lc_Command cmd of BindCharacter b \<Rightarrow> body_of cmd (bm_CharacterId b) \<noteq> '''' | _ \<Rightarrow> True)"

definition orderly_record :: "u64 \<Rightarrow> LoggedCommand \<Rightarrow> bool" where
  "orderly_record t cmd \<longleftrightarrow> sane_mark t cmd \<and> named_bind cmd"

lemma storable_zone_parts:
  assumes "storable_zone z" "keyed_zone zid z"
  shows "good_zone z" "handoff_zone z"
  using assms by (auto simp: storable_zone_def good_zone_def canonical_zone_def handoff_zone_def fmpred_iff tidy_def keyed_zone_def)

lemma storable_empty [simp]: "storable_zone (empty_zone zid)"
  by (simp add: storable_zone_def)

lemma plain_quiet: "quiet c \<Longrightarrow> plain_msg c"
  by (simp add: quiet_def plain_msg_def split: Command.splits)

lemma plain_acks: "c \<in> set (acks arr eid trace) \<Longrightarrow> plain_msg c"
  by (auto simp: acks_def plain_msg_def split: if_splits)

lemma plain_Entity_Proto: "canonical_components (en_Components e) \<Longrightarrow> plain_components (pe_Components (Entity_Proto e))"
  by (auto simp: plain_components_def Entity_Proto_def canonical_components_def canonical_component_def list_all_iff componentProto_def fieldProto_def comp_def)

lemma plain_arriveFor: "tidy (tx_Entity r) \<Longrightarrow> lc_Command c = Arrive (arriveFor zid r) \<Longrightarrow> plain_msg c"
  by (simp add: plain_msg_def arriveFor_def plain_Entity_Proto tidy_def canonical_entity_def)

lemma tidy_EntityFromProto: "plain_components (pe_Components p) \<Longrightarrow> tidy (EntityFromProto p room)"
  by (simp add: tidy_def canonical_entity_def EntityFromProto_def zero_entity_def Linkdead_def canonical_fromProto)

lemma lookup_mutate: "fmlookup (zs_Entities (mutate_entity eid f z)) k = (if k = eid then map_option f (fmlookup (zs_Entities z) eid) else fmlookup (zs_Entities z) k)"
  by (auto simp: mutate_entity_def split: option.split)

lemma mutate_frame [simp]: "zs_Transit (mutate_entity eid f z) = zs_Transit z" "zs_Placed (mutate_entity eid f z) = zs_Placed z"
  by (simp_all add: mutate_entity_def split: option.split)

lemma storable_mutate:
  assumes "storable_zone z" "\<And>e. fmlookup (zs_Entities z) eid = Some e \<Longrightarrow> tidy e \<Longrightarrow> tidy (f e)"
  shows "storable_zone (mutate_entity eid f z)"
  using assms unfolding storable_zone_def fmpred_iff by (auto simp: lookup_mutate split: if_splits)

lemma storable_effect:
  assumes "effect a cmd s z outs" "\<And>zid. storable_zone (zone_of s zid)" "keyed_state s"
    and "plain_msg cmd" "orderly_record (ac_Tick a) cmd" "canonical_registry (ac_Templates a)"
  shows "storable_zone z \<and> (\<forall>c \<in> set outs. plain_msg c)"
  using assms(1)
proof cases
  case keep
  then show ?thesis using assms(2) plain_quiet by (auto simp: list_all_iff)
next
  case (alter eid e f)
  then show ?thesis using storable_mutate[where z = "zone_of s (ac_Zone a)" and eid = eid and f = f] assms(2,5) by (auto simp: orderly_record_def)
next
  case (depart actor to out dir)
  have id: "en_ID actor = lc_ActorId cmd"
    using keyed_zone_of[OF assms(3), of "ac_Zone a"] depart(3) by (auto simp: keyed_zone_def fmpred_iff)
  have t: "tidy actor" "lc_ActorId cmd \<noteq> ''''" using assms(2)[of "ac_Zone a"] depart(3) by (auto simp: storable_zone_def fmpred_iff)
  have d: "tidy (tx_Entity (departure actor to dir))" "\<not> en_Dormant (tx_Entity (departure actor to dir))" "\<not> Linkdead (tx_Entity (departure actor to dir))"
    "en_ID (tx_Entity (departure actor to dir)) = lc_ActorId cmd"
    using t(1) depart(5,6) id by (simp_all add: departure_def Present_def Linkdead_def)
  have "storable_zone z" using assms(2)[of "ac_Zone a"] d t(2) id unfolding depart(1) storable_zone_def fmpred_iff
    by (auto simp: fmlookup_drop split: if_splits)
  moreover have "plain_msg out" using plain_arriveFor[OF d(1) depart(9)] .
  ultimately show ?thesis using depart(2) by simp
next
  case (seen arr p)
  then show ?thesis using assms(2) plain_acks by auto
next
  case (place arr p room)
  have "tidy (EntityFromProto p room)" using assms(4) place(3,4) by (intro tidy_EntityFromProto) (simp add: plain_msg_def)
  moreover have "pe_Id p \<noteq> ''''" "ar_HandoffSeq arr \<noteq> 0" using place(4,5) by (auto simp: invalidArrival_def)
  ultimately have "storable_zone z" using assms(2)[of "ac_Zone a"] unfolding place(1) storable_zone_def fmpred_iff
    by (auto simp: fmlookup_drop split: if_splits)
  then show ?thesis using place(2) plain_acks by auto
next
  case (drop eid seq rec)
  then show ?thesis using assms(2)[of "ac_Zone a"] unfolding storable_zone_def fmpred_iff by (auto simp: fmlookup_drop split: if_splits)
next
  case (spawn e b)
  have "tidy e" "en_ID e \<noteq> ''''" "fmlookup (zs_Transit (zone_of s (ac_Zone a))) (en_ID e) = None"
    using spawn assms(5,6) by (auto simp: orderly_record_def named_bind_def nowhere_def)
  then show ?thesis using assms(2)[of "ac_Zone a"] spawn(2) unfolding spawn(1) storable_zone_def fmpred_iff by (auto split: if_splits)
next
  case (purge eid e)
  then show ?thesis using assms(2)[of "ac_Zone a"] unfolding storable_zone_def fmpred_iff by (auto simp: fmlookup_drop split: if_splits)
qed

section \<open>Every tick keeps it\<close>

definition storable_so_far :: "tick_state \<Rightarrow> bool" where
  "storable_so_far h \<longleftrightarrow> keyed_state (tk_State h) \<and> (\<forall>zid. storable_zone (zone_of (tk_State h) zid)) \<and> (\<forall>c \<in> set (tk_Outbound h). plain_msg c)"

lemma same_world_zone_of: "same_world_but zid s s' \<Longrightarrow> zid' \<noteq> zid \<Longrightarrow> zone_of s' zid' = zone_of s zid'"
  by (simp add: same_world_but_def zone_of_def)

lemma storable_handler:
  assumes "Handlers (KindOf cmd) = Some f" "wf_ctx a" "plain_msg cmd" "orderly_record (ac_Tick a) cmd" "canonical_registry (ac_Templates a)"
    and "storable_so_far h"
  shows "storable_so_far (reached (f a cmd h))"
proof -
  let ?h = "reached (f a cmd h)"
  have st: "zone_step (ac_Tick a) (ac_Zone a) h ?h" using handler.step[OF Handlers_handler[OF assms(1)]] .
  obtain outs where o: "tk_Outbound ?h = tk_Outbound h @ outs" "effect a cmd (tk_State h) (zone_of (tk_State ?h) (ac_Zone a)) outs"
    using handler_effect[OF assms(1,2)] by (auto simp: has_effect_def)
  have e: "storable_zone (zone_of (tk_State ?h) (ac_Zone a)) \<and> (\<forall>c \<in> set outs. plain_msg c)"
    by (rule storable_effect[OF o(2)]) (use assms in \<open>simp_all add: storable_so_far_def\<close>)
  have "storable_zone (zone_of (tk_State ?h) zid)" for zid
    using e assms(6) same_world_zone_of[of "ac_Zone a" "tk_State h" "tk_State ?h" zid] st
    by (cases "zid = ac_Zone a") (simp_all add: storable_so_far_def zone_step_def)
  then show ?thesis using assms(6) o(1) e keyed_step[OF st] by (auto simp: storable_so_far_def)
qed

lemma storable_alter:
  assumes "storable_so_far h" "\<And>e. tidy e \<Longrightarrow> tidy (f e)" "\<And>e. en_ID (f e) = en_ID e"
  shows "storable_so_far (h\<lparr>tk_State := upd_zone zid (mutate_entity eid f) (tk_State h)\<rparr>)"
  using assms by (auto simp: storable_so_far_def intro: keyed_mutate storable_mutate)

interpretation storable_inv: world_invariant tick "\<lambda>c. plain_msg c \<and> orderly_record tick c" "\<lambda>_. storable_so_far"
  "\<lambda>a. canonical_registry (ac_Templates a)" for tick
proof unfold_locales
  show "storable_so_far (reached (f a cmd h))"
    if "storable_so_far h" "wf_ctx a" "canonical_registry (ac_Templates a)" "ac_Tick a = tick" "Handlers (KindOf cmd) = Some f" "plain_msg cmd \<and> orderly_record tick cmd"
    for a h cmd f
    using storable_handler[OF that(5,2)] that by simp
  show "storable_so_far (h\<lparr>tk_State := upd_zone zid (mutate_entity eid (despawn_fields tick)) (tk_State h)\<rparr>)" if "storable_so_far h" for h zid eid
    using that by (rule storable_alter) simp_all
  show "storable_so_far (h\<lparr>tk_State := upd_zone zid (mutate_entity eid (\<lambda>x. x\<lparr>en_Room := room\<rparr>)) (tk_State h)\<rparr>)" if "storable_so_far h" for h zid eid room
    using that by (rule storable_alter) simp_all
qed (simp_all add: storable_so_far_def zone_of_add_zones keyed_add_zones emit_def Let_def)

text \<open>The state version, the seed and the generator do not change: no handler draws.\<close>

interpretation fixed_inv: world_invariant tick "\<lambda>_. True" "\<lambda>_ h. ws_Version (tk_State h) = v \<and> ws_Seed (tk_State h) = sd \<and> ws_RNG (tk_State h) = g" "\<lambda>_. True"
  for tick v sd g
proof unfold_locales
  show "ws_Version (tk_State (reached (f a cmd h))) = v \<and> ws_Seed (tk_State (reached (f a cmd h))) = sd \<and> ws_RNG (tk_State (reached (f a cmd h))) = g"
    if "ws_Version (tk_State h) = v \<and> ws_Seed (tk_State h) = sd \<and> ws_RNG (tk_State h) = g" "Handlers (KindOf cmd) = Some f" for a h cmd f
    using handler.step[OF Handlers_handler[OF that(2)], where a = a and cmd = cmd and h = h] that(1) by (simp add: zone_step_def same_world_but_def)
qed (simp_all add: add_zones_def emit_def Let_def)

lemma Step_fixed:
  assumes "wf_engine e" "Step e records = Inr (e', res)"
  shows "ws_Version (en_state e') = ws_Version (en_state e) \<and> ws_Seed (en_state e') = ws_Seed (en_state e) \<and> ws_RNG (en_state e') = ws_RNG (en_state e)"
proof -
  have "ws_Version (tk_State (st_h (start e))) = ws_Version (en_state e) \<and> ws_Seed (tk_State (st_h (start e))) = ws_Seed (en_state e)
      \<and> ws_RNG (tk_State (st_h (start e))) = ws_RNG (en_state e)" by (simp add: start_def)
  from fixed_inv.Step_invariant[OF assms(1) _ this assms(2) refl]
  obtain h where "fixed_inv.Inv (ws_Version (en_state e)) (ws_Seed (en_state e)) (ws_RNG (en_state e)) (en_world e') h"
    "en_state e' = (tk_State h)\<lparr>ws_Tick := ws_Tick (en_state e) + 1\<rparr>" by auto
  then show ?thesis by (simp add: fixed_inv.Inv_def)
qed

lemma Step_storable:
  assumes "wf_engine e" "\<forall>zid. storable_zone (zone_of (en_state e) zid)" "canonical_registry (en_templates e)"
    and "\<forall>r \<in> set records. plain_msg (rc_Command r) \<and> orderly_record (ws_Tick (en_state e) + 1) (rc_Command r)" "Step e records = Inr (e', res)"
  shows "(\<forall>zid. storable_zone (zone_of (en_state e') zid)) \<and> (\<forall>c \<in> set (sr_Outbound res). plain_msg c)"
proof -
  have "storable_so_far (st_h (start e))" using assms(1,2) by (simp add: storable_so_far_def start_def wf_engine_def)
  from storable_inv.Step_invariant[OF assms(1,4) this assms(5) refl]
  obtain h where "storable_inv.Inv (en_world e') h" "en_state e' = (tk_State h)\<lparr>ws_Tick := ws_Tick (en_state e) + 1\<rparr>" "sr_Outbound res = tk_Outbound h"
    using assms(3) by (auto simp: context_of_def)
  then show ?thesis by (simp add: storable_inv.Inv_def storable_so_far_def)
qed

section \<open>The content in effect\<close>

text \<open>The digest an Engine records is that of the content it runs, once a swap has applied.\<close>

definition content_in_effect :: "Engine \<Rightarrow> bool" where
  "content_in_effect e \<longleftrightarrow> canonical_registry (en_templates e)
     \<and> (en_versions e \<noteq> fmempty \<longrightarrow> en_digest e = ContentDigest \<lparr>tp_World = Some (en_world e), tp_Templates = en_templates e\<rparr>)
     \<and> (en_versions e = fmempty \<longrightarrow> en_digest e = zero_digest)"

definition canonical_source :: "Config \<Rightarrow> bool" where
  "canonical_source cfg \<longleftrightarrow> (\<forall>prep v cs t. cfg_Content cfg = Some prep \<longrightarrow> prep v cs = Inr t \<longrightarrow> canonical_registry (tp_Templates t))"

definition prepared_ok :: "preparedSwap \<Rightarrow> bool" where
  "prepared_ok p \<longleftrightarrow> ps_refused p = None \<longrightarrow> canonical_registry (tp_Templates (ps_topo p))
     \<and> ps_versions p \<noteq> fmempty \<and> ps_digest p = ContentDigest \<lparr>tp_World = Some (the_world (ps_topo p)), tp_Templates = tp_Templates (ps_topo p)\<rparr>"

lemma topology_eta: "tp_World t = Some w \<Longrightarrow> \<lparr>tp_World = Some (the_world t), tp_Templates = tp_Templates t\<rparr> = t"
  by (cases t) (simp add: the_world_def)

lemma fmupd_not_empty: "fmupd k v m \<noteq> fmempty"
  by (metis fmempty_lookup fmupd_lookup option.distinct(1))

lemma prepared_ok_refuse [simp]: "prepared_ok (refuse r cs reason)"
  by (simp add: prepared_ok_def refuse_def)

lemma prepareLoop_ok:
  assumes "\<And>prep v cs t. src = Some prep \<Longrightarrow> prep v cs = Inr t \<Longrightarrow> canonical_registry (tp_Templates t)"
  shows "prepareLoop src versions digest world rs = Inr out \<Longrightarrow> list_all prepared_ok out"
proof (induction rs arbitrary: versions digest world out)
  case (Cons r rs)
  let ?cs = "GetContentSwap (rc_Command r)"
  have refused: "list_all prepared_ok out" if "map_sum (\<lambda>x. x) (\<lambda>out. refuse r ?cs reason # out) (prepareLoop src versions digest world rs) = Inr out" for reason
    using that Cons.IH[of versions digest world] by (cases "prepareLoop src versions digest world rs") auto
  show ?case
  proof (cases "\<exists>reason. map_sum (\<lambda>x. x) (\<lambda>out. refuse r ?cs reason # out) (prepareLoop src versions digest world rs) = Inr out")
    case False
    with Cons.prems obtain prep t v' d' w' where s: "src = Some prep" "prep versions ?cs = Inr t" and v: "v' = fmupd (sw_PackId ?cs) (sw_Version ?cs) versions"
      and o: "map_sum (\<lambda>x. x) (\<lambda>out. \<lparr>ps_rec = r, ps_swap = ?cs, ps_topo = t\<lparr>tp_World := Some (the_world t)\<rparr>,
          ps_digest = ContentDigest (t\<lparr>tp_World := Some (the_world t)\<rparr>), ps_versions = v', ps_refused = None\<rparr> # out) (prepareLoop src v' d' w' rs) = Inr out"
      by (auto simp: Let_def split: if_splits option.splits sum.splits)
    have t: "t\<lparr>tp_World := Some (the_world t)\<rparr> = \<lparr>tp_World = Some (the_world (t\<lparr>tp_World := Some (the_world t)\<rparr>)), tp_Templates = tp_Templates t\<rparr>"
      by (cases t) (simp add: the_world_def)
    have "prepared_ok \<lparr>ps_rec = r, ps_swap = ?cs, ps_topo = t\<lparr>tp_World := Some (the_world t)\<rparr>,
          ps_digest = ContentDigest (t\<lparr>tp_World := Some (the_world t)\<rparr>), ps_versions = v', ps_refused = None\<rparr>"
      using assms[OF s] t fmupd_not_empty by (simp add: prepared_ok_def v)
    then show ?thesis using o Cons.IH[of v' d' w'] by (cases "prepareLoop src v' d' w' rs") auto
  qed (use refused in blast)
qed simp

lemma content_finishSwap:
  assumes "content_in_effect (wp_e x)" "prepared_ok p"
  shows "content_in_effect (wp_e (finishSwap tick x p))"
  using assms by (auto simp: finishSwap_def applySwap_def Let_def content_in_effect_def prepared_ok_def split: option.splits)

lemma content_fold: "content_in_effect (wp_e x) \<Longrightarrow> list_all prepared_ok ps \<Longrightarrow> content_in_effect (wp_e (foldl (finishSwap tick) x ps))"
  by (induction ps arbitrary: x) (simp_all add: content_finishSwap)

lemma Step_content:
  assumes "content_in_effect e" "canonical_source (en_cfg e)" "Step e records = Inr (e', res)"
  shows "content_in_effect e'"
proof -
  obtain prepared where p: "prepareSwaps e (swapRecs records) = Inr prepared" and v: "validate_input (en_state e) records (parts_of records) = None"
    using assms(3) by (auto simp: Step_def split: option.splits sum.splits)
  have "list_all prepared_ok prepared"
    using prepareLoop_ok[OF _ p[unfolded prepareSwaps_def]] assms(2) unfolding canonical_source_def by blast
  then have "content_in_effect (wp_e (run_tick e records prepared))"
    unfolding run_tick_def Let_def using assms(1) by (intro content_fold) simp_all
  then show ?thesis using assms(3) p v by (auto simp: Step_def Let_def content_in_effect_def)
qed

section \<open>The orderly runs\<close>

inductive orderly :: "Engine \<times> LoggedCommand set \<Rightarrow> bool" where
  boot: "boots e \<Longrightarrow> canonical_registry (en_templates e) \<Longrightarrow> canonical_source (en_cfg e) \<Longrightarrow> orderly (e, {})"
| step: "orderly x \<Longrightarrow> moves rs x y \<Longrightarrow> \<forall>r \<in> set rs. orderly_record (ws_Tick (en_state (fst x)) + 1) (rc_Command r) \<Longrightarrow> orderly y"

definition storable_system :: "Engine \<times> LoggedCommand set \<Rightarrow> bool" where
  "storable_system x \<longleftrightarrow> content_in_effect (fst x) \<and> canonical_source (en_cfg (fst x)) \<and> (\<forall>zid. storable_zone (zone_of (en_state (fst x)) zid))
     \<and> (\<forall>c \<in> snd x. plain_msg c) \<and> ws_Version (en_state (fst x)) = StateVersion"

lemma orderly_reachable: "orderly x \<Longrightarrow> reachable x"
proof (induction rule: orderly.induct)
  case (boot e)
  then show ?case unfolding reachable_def using runs.stay by blast
next
  case (step x rs y)
  then show ?case unfolding reachable_def using runs.move by blast
qed

lemma sent_plain: "sent msgs c \<Longrightarrow> \<forall>m \<in> msgs. plain_msg m \<Longrightarrow> plain_msg c"
  by (auto simp: sent_def plain_msg_def quiet_def split: Command.splits)

lemma moves_storable:
  assumes "moves rs x y" "wf_engine (fst x)" "storable_system x" "\<forall>r \<in> set rs. orderly_record (ws_Tick (en_state (fst x)) + 1) (rc_Command r)"
  shows "storable_system y"
  using assms
proof cases
  case (tick msgs e e' res)
  have "\<forall>r \<in> set rs. plain_msg (rc_Command r) \<and> orderly_record (ws_Tick (en_state e) + 1) (rc_Command r)"
    using tick assms(3,4) sent_plain by (auto simp: storable_system_def)
  from Step_storable[OF _ _ _ this tick(4)] have st: "(\<forall>zid. storable_zone (zone_of (en_state e') zid)) \<and> (\<forall>c \<in> set (sr_Outbound res). plain_msg c)"
    using assms(2,3) tick by (simp add: storable_system_def content_in_effect_def)
  moreover have "content_in_effect e'" using Step_content[OF _ _ tick(4)] assms(3) tick by (simp add: storable_system_def)
  moreover have "en_cfg e' = en_cfg e" using tick(4) assms(2) tick(1) keyed_inv.Step_invariant[OF _ _ _ tick(4) refl] by (auto simp: wf_engine_def start_def)
  moreover have "ws_Version (en_state e') = StateVersion" using Step_fixed[OF _ tick(4)] assms(2,3) tick(1) by (simp add: storable_system_def)
  ultimately show ?thesis using assms(3) tick(1,2) by (auto simp: storable_system_def)
next
  case (retry e t e' out msgs)
  have same: "same_but_schedule e e'" using DueHandoffs_frame[of e t] retry by simp
  have "plain_msg c" if c: "c \<in> sends out" for c
  proof -
    obtain zid eid rec where "fmlookup (zs_Transit (zone_of (en_state e) zid)) eid = Some rec" "lc_Command c = Arrive (arriveFor zid rec)"
      by (rule sends_in_transit[of c e t]) (use c retry in simp_all)
    then show ?thesis using assms(3) retry(2) by (intro plain_arriveFor) (auto simp: storable_system_def storable_zone_def fmpred_iff)
  qed
  then show ?thesis using same assms(3) retry by (auto simp: storable_system_def same_but_schedule_def content_in_effect_def)
next
  case (restart e msgs)
  then show ?thesis using assms(3) by (simp add: storable_system_def content_in_effect_def)
qed

lemma orderly_storable: "orderly x \<Longrightarrow> storable_system x"
proof (induction rule: orderly.induct)
  case (boot e)
  then show ?case by (auto simp: storable_system_def boots_def NewEngine_def Let_def zone_of_New content_in_effect_def) (simp_all add: NewWorldState_def)
next
  case (step x rs y)
  then show ?case using moves_storable[OF step.hyps(2) _ step.IH step.hyps(3)] reachable_sound[OF orderly_reachable[OF step.hyps(1)]]
    by (simp add: sound_system_def)
qed

lemma orderly_wf: "orderly (e, msgs) \<Longrightarrow> wf_engine e"
  using reachable_sound[OF orderly_reachable, of "(e, msgs)"] by (simp add: sound_system_def)

lemma orderly_zone:
  assumes "orderly (e, msgs)"
  shows "good_zone (zone_of (en_state e) zid)" "handoff_zone (zone_of (en_state e) zid)" "keyed_zone zid (zone_of (en_state e) zid)"
proof -
  show k: "keyed_zone zid (zone_of (en_state e) zid)" using orderly_wf[OF assms] by (intro keyed_zone_of) (simp add: wf_engine_def)
  have "storable_zone (zone_of (en_state e) zid)" using orderly_storable[OF assms] by (simp add: storable_system_def)
  from storable_zone_parts[OF this k] show "good_zone (zone_of (en_state e) zid)" "handoff_zone (zone_of (en_state e) zid)" by blast+
qed

lemma sample_orderly: "orderly (boot, {})" "orderly (engine1, {})" "orderly (engine2, {sample_arrive})"
proof -
  have "canonical_registry (Some sample_templates)"
    by (auto simp: canonical_registry_def Registry_Get_def sample_templates_def fmap_of_list_simps canonical_components_def)
  then show 0: "orderly (boot, {})" by (intro orderly.boot[OF boots_boot]) (simp_all add: canonical_source_def)
  show 1: "orderly (engine1, {})"
    by (rule orderly.step[OF 0 sample_moves(1)]) (simp add: orderly_record_def sane_mark_def named_bind_def bind_record_def ex_record_def body_of_def)
  show "orderly (engine2, {sample_arrive})"
    by (rule orderly.step[OF 1 sample_moves(2)]) (simp add: orderly_record_def sane_mark_def named_bind_def move_record_def ex_record_def)
qed

lemma orderly_zone_state:
  assumes "orderly (e, msgs)" "zid |\<in>| fmdom (w_Zones (en_world e))"
  shows "fmlookup (ws_Zones (en_state e)) zid = Some (zone_of (en_state e) zid)"
proof -
  have "zid |\<in>| fmdom (ws_Zones (en_state e))" using orderly_wf[OF assms(1)] assms(2) by (simp add: wf_engine_def)
  then show ?thesis by (auto simp: zone_of_def fmlookup_dom_iff)
qed

text \<open>
  In every state an orderly run reaches, every snapshot taken is accepted by its own reader
  under the hash its envelope carries, and reads back as the Zone it was taken of: bodies, handoffs
  under way and marks included, whatever was in progress at the boundary.
\<close>
theorem snapshots_read_back:
  assumes "orderly (e, msgs)" "s \<in> set (SnapshotAll e takenAt)"
  shows "BodyStateHash (BodyProto s) = Inr (Snapshot_StateHash s) \<and> fmlookup (ws_Zones (en_state e)) (sn_Zone s) = Some (ZoneStateFromProto (BodyProto s))"
proof -
  obtain zid where z: "zid \<in> fmdom' (ws_Zones (en_state e))" "s = snapshot_of e takenAt zid"
    using assms(2) by (auto simp: SnapshotAll_def)
  note o = orderly_zone[OF assms(1), of zid]
  have "fmlookup (ws_Zones (en_state e)) zid = Some (zone_of (en_state e) zid)" using z(1) by (auto simp: zone_of_def fmdom'_lookup)
  then show ?thesis using BodyStateHash_BodyProto[of s] ZoneStateFromProto_BodyProto[of s] o z by (simp add: keyed_zone_def)
qed

theorem snapshots_read_back_witness:
  "fmlookup (zs_Transit (ZoneStateFromProto (BodyProto (snapshot_of engine2 0 ''town'')))) ''ann'' = Some sample_transit
     \<and> BodyStateHash (BodyProto (snapshot_of engine2 0 ''town'')) = Inr (Snapshot_StateHash (snapshot_of engine2 0 ''town''))"
proof -
  have z: "fmlookup (ws_Zones (en_state engine2)) ''town'' = Some (zone_of (en_state engine2) ''town'')"
    by (rule orderly_zone_state[OF sample_orderly(3)]) (simp add: ex_world_def)
  then have "snapshot_of engine2 0 ''town'' \<in> set (SnapshotAll engine2 0)" by (simp add: SnapshotAll_def fmdom'_lookup)
  moreover have "zs_ID (zone_of (en_state engine2) ''town'') = ''town''" using orderly_zone(3)[OF sample_orderly(3), of "''town''"] by (simp add: keyed_zone_def)
  ultimately show ?thesis using snapshots_read_back[OF sample_orderly(3), of "snapshot_of engine2 0 ''town''" 0] z sample_where(3) by simp
qed

end
