(* ===== verification/Restore.thy ===== *)
theory Restore
  imports Storable
begin

text \<open>
  Building an Engine from a decoded snapshot round (\<^verbatim>\<open>server/sim/restore.go\<close>) and the topology its
  recorded content builds (\<^verbatim>\<open>PrepareContent\<close> of \<^verbatim>\<open>content.go\<close>). The main result is the round trip:
  a cut of a running Engine restores to that Engine, but for the retry schedule, which a restart
  rebuilds.
\<close>

section \<open>Rounds and refusals\<close>

record RoundState =
  rd_Tick :: u64
  rd_StateVersion :: u32
  rd_PRNG :: rng
  rd_NextEventID :: u64
  rd_Offsets :: "PartitionOffset list"
  rd_Zones :: "ZoneState list"
  rd_Content :: "(string, u64) fmap"
  rd_ContentDigest :: bytes
  rd_SimSeed :: u64
  rd_RecordedHash :: bytes

datatype RestoreError =
    RestoreStateVersion u32 u32
  | NoRecordedHash u64
  | RestoreContentDigest u64 bytes bytes
  | SeedMismatch u64 u64 u64
  | ErrRoundZoneUnknown u64 ZoneID
  | ErrRoundZoneDuplicate u64 ZoneID
  | RestoreMismatch u64 bytes bytes

definition RestoreOutcome :: "RestoreError option \<Rightarrow> string" where
  "RestoreOutcome err = (case err of None \<Rightarrow> ''ok'' | Some (SeedMismatch _ _ _) \<Rightarrow> ''seed_mismatch''
     | Some (RestoreMismatch _ _ _) \<Rightarrow> ''hash_mismatch'' | Some _ \<Rightarrow> '''')"

definition EffectiveSeed :: "u64 \<Rightarrow> u64" where
  "EffectiveSeed configured = (if configured \<noteq> 0 then configured else DeriveSeed EmptyWorld)"

section \<open>Restoring\<close>

fun restoreZones :: "u64 \<Rightarrow> ZoneID list \<Rightarrow> (ZoneID, ZoneState) fmap \<Rightarrow> ZoneState list \<Rightarrow> RestoreError + (ZoneID, ZoneState) fmap" where
  "restoreZones tick seen zones [] = Inr zones"
| "restoreZones tick seen zones (z # zs) =
     (if fmlookup zones (zs_ID z) = None then Inl (ErrRoundZoneUnknown tick (zs_ID z))
      else if zs_ID z \<in> set seen then Inl (ErrRoundZoneDuplicate tick (zs_ID z))
      else restoreZones tick (zs_ID z # seen) (fmupd (zs_ID z) (Zone_Clone z) zones) zs)"

text \<open>The Engine of a restore before any body is loaded: the round's partitions and its content.\<close>

definition restore_start :: "World \<Rightarrow> TemplateRegistry option \<Rightarrow> Config \<Rightarrow> RoundState \<Rightarrow> bytes \<Rightarrow> Engine" where
  "restore_start w templates cfg r digest =
     (let e = NewEngine w templates (cfg\<lparr>cfg_Partitions := map po_Partition (rd_Offsets r)\<rparr>)
      in if rd_Content r \<noteq> fmempty then e\<lparr>en_versions := rd_Content r, en_digest := digest\<rparr> else e)"

text \<open>The round's values and bodies, and the hash they must come to.\<close>

definition load_round :: "Engine \<Rightarrow> RoundState \<Rightarrow> RestoreError + Engine" where
  "load_round e r =
     (let offsets = foldl (\<lambda>m po. fmupd (po_Partition po) (po_Offset po) m) (ws_Offsets (en_state e)) (rd_Offsets r) in
      case restoreZones (rd_Tick r) [] (ws_Zones (en_state e)) (rd_Zones r) of
        Inl err \<Rightarrow> Inl err
      | Inr zones \<Rightarrow>
          let s = (en_state e)\<lparr>ws_Tick := rd_Tick r, ws_RNG := rd_PRNG r, ws_NextEventID := rd_NextEventID r, ws_Offsets := offsets, ws_Zones := zones\<rparr>
          in if StateHash s \<noteq> rd_RecordedHash r then Inl (RestoreMismatch (rd_Tick r) (rd_RecordedHash r) (StateHash s))
             else Inr (e\<lparr>en_state := s\<rparr>))"

definition RestoreEngine :: "World \<Rightarrow> TemplateRegistry option \<Rightarrow> Config \<Rightarrow> RoundState \<Rightarrow> RestoreError + Engine" where
  "RestoreEngine w templates cfg r =
     (if rd_StateVersion r \<noteq> StateVersion then Inl (RestoreStateVersion (rd_StateVersion r) StateVersion)
      else if rd_RecordedHash r = [] then Inl (NoRecordedHash (rd_Tick r))
      else let digest = ContentDigest \<lparr>tp_World = Some w, tp_Templates = templates\<rparr> in
      if rd_Content r \<noteq> fmempty \<and> digest \<noteq> rd_ContentDigest r then Inl (RestoreContentDigest (rd_Tick r) (rd_ContentDigest r) digest)
      else let seed = EffectiveSeed (cfg_Seed cfg) in
      if rd_SimSeed r \<noteq> 0 \<and> rd_SimSeed r \<noteq> seed then Inl (SeedMismatch (rd_Tick r) (rd_SimSeed r) seed)
      else load_round (restore_start w templates (cfg\<lparr>cfg_Seed := seed\<rparr>) r digest) r)"

text \<open>
  The topology of the versions in effect: the last pack by name prepared as a swap on the rest. The
  content source is a parameter, as it is in the code; the swap carries a pack and a version only.
\<close>

datatype ContentError = NoContentSource | SourceError string

definition PrepareContent :: "ContentSource option \<Rightarrow> (string, u64) fmap \<Rightarrow> ContentError + ContentTopology" where
  "PrepareContent src versions =
     (if versions = fmempty then Inr \<lparr>tp_World = Some EmptyWorld, tp_Templates = None\<rparr>
      else case src of None \<Rightarrow> Inl NoContentSource
      | Some prepare \<Rightarrow>
          let pack = last (keys versions) in
          (case prepare (fmdrop pack versions) \<lparr>sw_PackId = pack, sw_Version = the (fmlookup versions pack), sw_WorldDigest = [], sw_BaseDigest = [], sw_ZoneCount = 0\<rparr> of
             Inl err \<Rightarrow> Inl (SourceError err)
           | Inr topo \<Rightarrow> Inr (topo\<lparr>tp_World := Some (the_world topo)\<rparr>)))"

section \<open>The parts of a restore\<close>

lemma fmadd_upd_first: "k \<notin> fst ` set kvs \<Longrightarrow> fmupd k v m ++\<^sub>f fmap_of_list kvs = m ++\<^sub>f fmap_of_list ((k, v) # kvs)"
  by (rule fmap_ext) (auto simp: fmlookup_of_list fset_of_list_elem intro: rev_image_eqI)

lemma restoreZones_all:
  "distinct (map zs_ID zs) \<Longrightarrow> set seen \<inter> set (map zs_ID zs) = {} \<Longrightarrow> set (map zs_ID zs) \<subseteq> fmdom' zones \<Longrightarrow>
   restoreZones tick seen zones zs = Inr (zones ++\<^sub>f fmap_of_list (map (\<lambda>z. (zs_ID z, z)) zs))"
proof (induction zs arbitrary: seen zones)
  case (Cons z zs)
  have "restoreZones tick (zs_ID z # seen) (fmupd (zs_ID z) z zones) zs = Inr (fmupd (zs_ID z) z zones ++\<^sub>f fmap_of_list (map (\<lambda>z. (zs_ID z, z)) zs))"
    using Cons.prems by (intro Cons.IH) auto
  moreover have "zs_ID z \<notin> fst ` set (map (\<lambda>z. (zs_ID z, z)) zs)" using Cons.prems(1) by force
  ultimately show ?case using Cons.prems fmadd_upd_first[of "zs_ID z" "map (\<lambda>z. (zs_ID z, z)) zs" z zones] by (auto simp: fmdom'_lookup)
qed simp

lemma lookup_restored:
  "distinct (map fst kvs) \<Longrightarrow> fmlookup (foldl (\<lambda>m po. fmupd (po_Partition po) (po_Offset po) m) m0 (map (\<lambda>(p, off). \<lparr>po_Partition = p, po_Offset = off\<rparr>) kvs)) k
     = (case map_of kvs k of Some v \<Rightarrow> Some v | None \<Rightarrow> fmlookup m0 k)"
proof (induction kvs arbitrary: m0)
  case (Cons kv kvs)
  obtain p off where kv: "kv = (p, off)" by (metis surj_pair)
  have "map_of kvs p = None" using Cons.prems by (simp add: kv map_of_eq_None_iff)
  then show ?case using Cons.IH[of "fmupd p off m0"] Cons.prems by (simp add: kv split: option.split)
qed simp

lemma restore_offsets:
  assumes "fmdom m0 |\<subseteq>| fmdom m"
  shows "foldl (\<lambda>m po. fmupd (po_Partition po) (po_Offset po) m) m0 (offsets_of m) = m"
proof (rule fmap_ext)
  fix k
  have "fmlookup m0 k = None" if "fmlookup m k = None"
  proof -
    have "k |\<notin>| fmdom m" using that by (simp add: fmlookup_dom_iff)
    then have "k |\<notin>| fmdom m0" using assms by blast
    then show ?thesis by (rule fmdom_notD)
  qed
  then show "fmlookup (foldl (\<lambda>m po. fmupd (po_Partition po) (po_Offset po) m) m0 (offsets_of m)) k = fmlookup m k"
    unfolding offsets_of_def lookup_restored[OF map_fst_entries[of m, THEN arg_cong[of _ _ distinct], THEN iffD2, OF distinct_keys]]
    by (auto split: option.split)
qed

lemma partitions_of_offsets: "map po_Partition (offsets_of m) = keys m"
  by (simp add: offsets_of_def comp_def split_def)

lemma StateHash_not_empty: "StateHash s \<noteq> []"
  unfolding StateHash_def by (metis length_sha256 list.size(3) zero_neq_numeral)

section \<open>A cut restores to the Engine it was taken of\<close>

text \<open>The round a cut makes: every Zone, and the values that are the process's.\<close>

definition round_of :: "Engine \<Rightarrow> RoundState" where
  "round_of e = (let s = en_state e in
     \<lparr>rd_Tick = ws_Tick s, rd_StateVersion = ws_Version s, rd_PRNG = ws_RNG s, rd_NextEventID = ws_NextEventID s, rd_Offsets = offsets_of (ws_Offsets s),
      rd_Zones = map sn_body (SnapshotAll e 0), rd_Content = en_versions e, rd_ContentDigest = (if en_versions e = fmempty then [] else en_digest e),
      rd_SimSeed = ws_Seed s, rd_RecordedHash = StateHash s\<rparr>)"

definition restored :: "Engine \<Rightarrow> Config \<Rightarrow> Engine" where
  "restored e cfg = e\<lparr>en_cfg := cfg\<lparr>cfg_Seed := ws_Seed (en_state e), cfg_Partitions := keys (ws_Offsets (en_state e))\<rparr>,
     en_handoffs := Map.empty, en_replaying := False\<rparr>"

lemma RestoreEngine_round_of:
  assumes wf: "wf_engine e" and content: "content_in_effect e" and v: "ws_Version (en_state e) = StateVersion"
    and seed: "EffectiveSeed (cfg_Seed cfg) = ws_Seed (en_state e)" "ws_Seed (en_state e) \<noteq> 0"
  shows "RestoreEngine (en_world e) (en_templates e) cfg (round_of e) = Inr (restored e cfg)"
proof -
  let ?s = "en_state e" and ?w = "en_world e"
  let ?cfg = "cfg\<lparr>cfg_Seed := ws_Seed ?s, cfg_Partitions := keys (ws_Offsets ?s)\<rparr>"
  define e0 where "e0 = NewEngine ?w (en_templates e) ?cfg"
  have e0: "en_state e0 = NewWorldState ?w (ws_Seed ?s) (keys (ws_Offsets ?s))" "en_world e0 = ?w" "en_templates e0 = en_templates e" "en_cfg e0 = ?cfg"
    "en_versions e0 = fmempty" "en_digest e0 = zero_digest" "en_handoffs e0 = Map.empty" "\<not> en_replaying e0"
    using seed(2) by (simp_all add: e0_def NewEngine_def Let_def sort_key_id_if_sorted)
  have dom: "fmdom (ws_Zones ?s) = fmdom (w_Zones ?w)" "keyed_state ?s" using wf by (simp_all add: wf_engine_def)
  have ids: "zs_ID (zone_of ?s zid) = zid" for zid using keyed_zone_of[OF dom(2), of zid] by (simp add: keyed_zone_def)
  have zs: "map sn_body (SnapshotAll e 0) = map (zone_of ?s) (keys (ws_Zones ?s))" by (simp add: SnapshotAll_def comp_def)
  let ?z0 = "ws_Zones (en_state e0)"
  have z0: "fmdom ?z0 = fmdom (w_Zones ?w)" unfolding e0(1)
    by (rule fset_eqI) (auto simp: NewWorldState_def fset_of_list_elem fmdom'_alt_def)
  have kvs: "map (\<lambda>z. (zs_ID z, z)) (map (zone_of ?s) (keys (ws_Zones ?s))) = entries (ws_Zones ?s)"
    by (auto simp: entries_keys ids fmdom'_lookup zone_of_lookup)
  have "restoreZones (ws_Tick ?s) [] ?z0 (map sn_body (SnapshotAll e 0)) = Inr (?z0 ++\<^sub>f fmap_of_list (entries (ws_Zones ?s)))"
    unfolding zs kvs[symmetric] by (rule restoreZones_all) (simp_all add: comp_def ids z0 dom(1) fmdom'_alt_def)
  moreover have "?z0 ++\<^sub>f ws_Zones ?s = ws_Zones ?s" by (rule fmap_ext) (simp add: dom(1) z0 fmdom_notD)
  ultimately have zones: "restoreZones (ws_Tick ?s) [] ?z0 (map sn_body (SnapshotAll e 0)) = Inr (ws_Zones ?s)" by simp
  have "fmdom (ws_Offsets (en_state e0)) |\<subseteq>| fmdom (ws_Offsets ?s)" unfolding e0(1)
    by (auto simp: NewWorldState_def fset_of_list_elem fmdom'_alt_def)
  note offs = restore_offsets[OF this]
  have st: "(en_state e0)\<lparr>ws_Tick := ws_Tick ?s, ws_RNG := ws_RNG ?s, ws_NextEventID := ws_NextEventID ?s, ws_Offsets := ws_Offsets ?s, ws_Zones := ws_Zones ?s\<rparr> = ?s"
    unfolding e0(1) using v by (cases ?s) (simp add: NewWorldState_def)
  have r: "rd_Tick (round_of e) = ws_Tick ?s" "rd_StateVersion (round_of e) = ws_Version ?s" "rd_PRNG (round_of e) = ws_RNG ?s"
    "rd_NextEventID (round_of e) = ws_NextEventID ?s" "rd_Offsets (round_of e) = offsets_of (ws_Offsets ?s)" "rd_Zones (round_of e) = map sn_body (SnapshotAll e 0)"
    "rd_Content (round_of e) = en_versions e" "rd_ContentDigest (round_of e) = (if en_versions e = fmempty then [] else en_digest e)"
    "rd_SimSeed (round_of e) = ws_Seed ?s" "rd_RecordedHash (round_of e) = StateHash ?s" by (simp_all add: round_of_def Let_def)
  let ?d = "ContentDigest \<lparr>tp_World = Some ?w, tp_Templates = en_templates e\<rparr>"
  have e1: "restore_start ?w (en_templates e) (cfg\<lparr>cfg_Seed := ws_Seed ?s\<rparr>) (round_of e) ?d = (restored e cfg)\<lparr>en_state := en_state e0\<rparr>"
    using content e0 unfolding restore_start_def r partitions_of_offsets Let_def e0_def[symmetric]
    by (cases e; cases e0) (auto simp: restored_def content_in_effect_def e0_def[symmetric])
  have "load_round ((restored e cfg)\<lparr>en_state := en_state e0\<rparr>) (round_of e) = Inr ((restored e cfg)\<lparr>en_state := ?s\<rparr>)"
    unfolding load_round_def r by (simp add: zones offs st)
  moreover have "(restored e cfg)\<lparr>en_state := ?s\<rparr> = restored e cfg" by (cases e) (simp add: restored_def)
  moreover have "\<not> (en_versions e \<noteq> fmempty \<and> ?d \<noteq> rd_ContentDigest (round_of e))" using content by (auto simp: content_in_effect_def r)
  ultimately show ?thesis using StateHash_not_empty[of ?s] v seed e1 by (simp add: RestoreEngine_def r Let_def)
qed

text \<open>
  A cut of an orderly run restores to the Engine it was taken of: the same state, topology and
  content in effect, on the partitions the round records. Only the retry schedule is not carried,
  and the configuration is the restoring process's, whose seed must be the one the World ran with.
\<close>
theorem restore_round_trip:
  assumes "orderly (e, msgs)" "EffectiveSeed (cfg_Seed cfg) = ws_Seed (en_state e)" "ws_Seed (en_state e) \<noteq> 0"
  shows "RestoreEngine (en_world e) (en_templates e) cfg (round_of e) = Inr (restored e cfg)"
  using RestoreEngine_round_of[OF orderly_wf[OF assms(1)] _ _ assms(2,3)] orderly_storable[OF assms(1)] by (simp add: storable_system_def)

lemma sample_seed: "ws_Seed (en_state engine2) = 1"
proof -
  obtain res where 1: "Step boot [bind_record] = Inr (engine1, res)" by (rule engine1_step)
  obtain res2 where 2: "Step engine1 [move_record] = Inr (engine2, res2)" by (rule engine2_step)
  show ?thesis using Step_fixed[OF wf_boot 1] Step_fixed[OF orderly_wf[OF sample_orderly(2)] 2] by (simp add: boot_state NewWorldState_def)
qed

theorem restore_round_trip_witness:
  "(case RestoreEngine (en_world engine2) (en_templates engine2) ex_config (round_of engine2) of Inl _ \<Rightarrow> False
     | Inr e \<Rightarrow> fmlookup (zs_Transit (zone_of (en_state e) ''town'')) ''ann'' = Some sample_transit)"
proof -
  have "EffectiveSeed (cfg_Seed ex_config) = ws_Seed (en_state engine2)" "ws_Seed (en_state engine2) \<noteq> 0"
    by (simp_all add: sample_seed EffectiveSeed_def ex_config_def)
  from restore_round_trip[OF sample_orderly(3) this] sample_where(3) show ?thesis by (simp add: restored_def)
qed

section \<open>What a restore that succeeds has checked\<close>

lemma restoreZones_Inr:
  assumes "restoreZones tick seen zones zs = Inr zones'"
  shows "distinct (map zs_ID zs) \<and> set seen \<inter> set (map zs_ID zs) = {} \<and> set (map zs_ID zs) \<subseteq> fmdom' zones
    \<and> (\<forall>zid. fmlookup zones' zid = (case find (\<lambda>z. zs_ID z = zid) zs of Some z \<Rightarrow> Some z | None \<Rightarrow> fmlookup zones zid))"
  using assms
proof (induction zs arbitrary: seen zones)
  case (Cons z zs)
  then have c: "fmlookup zones (zs_ID z) \<noteq> None" "zs_ID z \<notin> set seen"
    "restoreZones tick (zs_ID z # seen) (fmupd (zs_ID z) z zones) zs = Inr zones'" by (auto split: if_splits)
  have IH: "distinct (map zs_ID zs)" "zs_ID z \<notin> set (map zs_ID zs)" "set seen \<inter> set (map zs_ID zs) = {}" "set (map zs_ID zs) \<subseteq> insert (zs_ID z) (fmdom' zones)"
    "fmlookup zones' zid = (case find (\<lambda>z. zs_ID z = zid) zs of Some z \<Rightarrow> Some z | None \<Rightarrow> fmlookup (fmupd (zs_ID z) z zones) zid)" for zid
    using Cons.IH[OF c(3)] by simp_all
  have n: "find (\<lambda>z'. zs_ID z' = zs_ID z) zs = None" unfolding find_None_iff using IH(2) imageI[of _ "set zs" zs_ID] by (metis list.set_map)
  have "fmlookup zones' zid = (case find (\<lambda>z. zs_ID z = zid) (z # zs) of Some z \<Rightarrow> Some z | None \<Rightarrow> fmlookup zones zid)" for zid
    using IH(5)[of zid] n by (cases "zs_ID z = zid"; cases "find (\<lambda>z. zs_ID z = zid) zs") simp_all
  moreover have "zs_ID z \<in> fmdom' zones" using c(1) by (simp add: fmdom'_lookup)
  then have "set (map zs_ID (z # zs)) \<subseteq> fmdom' zones" using IH(4) by auto
  ultimately show ?case using IH(1-3) c(2) by simp
qed simp

lemma load_round_Inr:
  assumes "load_round e0 r = Inr e"
  shows "restoreZones (rd_Tick r) [] (ws_Zones (en_state e0)) (rd_Zones r) = Inr (ws_Zones (en_state e))" "StateHash (en_state e) = rd_RecordedHash r"
    "en_world e = en_world e0" "en_templates e = en_templates e0"
proof -
  obtain zones where z: "restoreZones (rd_Tick r) [] (ws_Zones (en_state e0)) (rd_Zones r) = Inr zones"
  proof (cases "restoreZones (rd_Tick r) [] (ws_Zones (en_state e0)) (rd_Zones r)")
    case (Inl err)
    then show ?thesis using assms unfolding load_round_def Inl Let_def sum.case by blast
  qed
  define s where "s = (en_state e0)\<lparr>ws_Tick := rd_Tick r, ws_RNG := rd_PRNG r, ws_NextEventID := rd_NextEventID r,
      ws_Offsets := foldl (\<lambda>m po. fmupd (po_Partition po) (po_Offset po) m) (ws_Offsets (en_state e0)) (rd_Offsets r), ws_Zones := zones\<rparr>"
  have "(if StateHash s \<noteq> rd_RecordedHash r then Inl (RestoreMismatch (rd_Tick r) (rd_RecordedHash r) (StateHash s)) else Inr (e0\<lparr>en_state := s\<rparr>)) = Inr e"
    using assms unfolding load_round_def z Let_def sum.case s_def .
  then have "e = e0\<lparr>en_state := s\<rparr>" "StateHash s = rd_RecordedHash r" by (simp_all split: if_splits)
  moreover have "ws_Zones s = zones" by (simp add: s_def)
  ultimately show "restoreZones (rd_Tick r) [] (ws_Zones (en_state e0)) (rd_Zones r) = Inr (ws_Zones (en_state e))" "StateHash (en_state e) = rd_RecordedHash r"
    "en_world e = en_world e0" "en_templates e = en_templates e0" using z by simp_all
qed

lemma restore_start_fields [simp]:
  "en_world (restore_start w templates cfg r d) = w" "en_templates (restore_start w templates cfg r d) = templates"
  "ws_Zones (en_state (restore_start w templates cfg r d)) = ws_Zones (NewWorldState w 0 [])"
  by (simp_all add: restore_start_def Let_def NewEngine_def NewWorldState_def)

lemma RestoreEngine_load:
  assumes "RestoreEngine w templates cfg r = Inr e"
  shows "load_round (restore_start w templates (cfg\<lparr>cfg_Seed := EffectiveSeed (cfg_Seed cfg)\<rparr>) r (ContentDigest \<lparr>tp_World = Some w, tp_Templates = templates\<rparr>)) r = Inr e"
  using assms unfolding RestoreEngine_def Let_def by (simp split: if_splits)

lemma find_distinct: "distinct (map f xs) \<Longrightarrow> x \<in> set xs \<Longrightarrow> find (\<lambda>y. f y = f x) xs = Some x"
  by (induction xs) auto

lemma lookup_NewWorldState: "fmlookup (ws_Zones (NewWorldState w seed ps)) zid = (if fmlookup (w_Zones w) zid = None then None else Some (empty_zone zid))"
proof -
  have "map_of (map (\<lambda>zid. (zid, empty_zone zid)) xs) zid = (if zid \<in> set xs then Some (empty_zone zid) else None)" for xs by (induction xs) auto
  then show ?thesis unfolding NewWorldState_def by (simp add: fmap_of_list.rep_eq) (simp add: fmdom'_lookup)
qed

text \<open>
  A restore that succeeds has loaded the whole round and nothing else: every Zone the round
  carries is there as it was stored, every other Zone of the World is empty, no Zone came twice or
  was dropped, and the state hashes to what the round's tick recorded.
\<close>
theorem restore_loads_the_round:
  assumes "RestoreEngine w templates cfg r = Inr e"
  shows "StateHash (en_state e) = rd_RecordedHash r \<and> en_world e = w \<and> en_templates e = templates
    \<and> distinct (map zs_ID (rd_Zones r))
    \<and> list_all (\<lambda>z. fmlookup (w_Zones w) (zs_ID z) \<noteq> None \<and> fmlookup (ws_Zones (en_state e)) (zs_ID z) = Some z) (rd_Zones r)
    \<and> (\<forall>zid. fmlookup (ws_Zones (en_state e)) zid = (case find (\<lambda>z. zs_ID z = zid) (rd_Zones r) of Some z \<Rightarrow> Some z
         | None \<Rightarrow> if fmlookup (w_Zones w) zid = None then None else Some (empty_zone zid)))"
proof -
  note l = load_round_Inr[OF RestoreEngine_load[OF assms], simplified]
  note r = restoreZones_Inr[OF l(1)]
  have d: "distinct (map zs_ID (rd_Zones r))" "set (map zs_ID (rd_Zones r)) \<subseteq> fmdom' (ws_Zones (NewWorldState w 0 []))"
    and look: "\<And>zid. fmlookup (ws_Zones (en_state e)) zid = (case find (\<lambda>z. zs_ID z = zid) (rd_Zones r) of Some z \<Rightarrow> Some z
         | None \<Rightarrow> if fmlookup (w_Zones w) zid = None then None else Some (empty_zone zid))"
    using r by (auto simp: lookup_NewWorldState split: option.split)
  have "fmlookup (w_Zones w) (zs_ID z) \<noteq> None \<and> fmlookup (ws_Zones (en_state e)) (zs_ID z) = Some z" if z: "z \<in> set (rd_Zones r)" for z
  proof -
    have "fmlookup (ws_Zones (NewWorldState w 0 [])) (zs_ID z) \<noteq> None" using d(2) z by (auto simp: fmdom'_lookup)
    then show ?thesis using find_distinct[OF d(1) z] by (simp add: look lookup_NewWorldState split: if_splits)
  qed
  then show ?thesis using d(1) l look by (simp add: list_all_iff)
qed

theorem restore_loads_the_round_witness:
  "\<exists>e. RestoreEngine (en_world engine2) (en_templates engine2) ex_config (round_of engine2) = Inr e \<and> StateHash (en_state e) = StateHash (en_state engine2)"
proof -
  have "EffectiveSeed (cfg_Seed ex_config) = ws_Seed (en_state engine2)" "ws_Seed (en_state engine2) \<noteq> 0"
    by (simp_all add: sample_seed EffectiveSeed_def ex_config_def)
  then have "RestoreEngine (en_world engine2) (en_templates engine2) ex_config (round_of engine2) = Inr (restored engine2 ex_config)"
    using orderly_storable[OF sample_orderly(3)] by (intro RestoreEngine_round_of[OF orderly_wf[OF sample_orderly(3)]]) (simp_all add: storable_system_def)
  from this restore_loads_the_round[OF this] show ?thesis by (intro exI[of _ "restored engine2 ex_config"]) (simp add: round_of_def Let_def)
qed

lemma canonical_restored:
  assumes "RestoreEngine w templates cfg r = Inr e" "list_all good_zone (rd_Zones r)"
  shows "canonical_state (en_state e)"
proof -
  note l = load_round_Inr[OF RestoreEngine_load[OF assms(1)], simplified]
  have look: "fmlookup (ws_Zones (en_state e)) zid = (case find (\<lambda>z. zs_ID z = zid) (rd_Zones r) of Some z \<Rightarrow> Some z
         | None \<Rightarrow> fmlookup (ws_Zones (NewWorldState w 0 [])) zid)" for zid using restoreZones_Inr[OF l(1)] by simp
  have "keyed_zone zid z \<and> canonical_zone z" if z: "fmlookup (ws_Zones (en_state e)) zid = Some z" for zid z
  proof (cases "find (\<lambda>z. zs_ID z = zid) (rd_Zones r)")
    case None
    then have "z = empty_zone zid" using z by (simp add: look lookup_NewWorldState split: if_splits)
    then show ?thesis by (simp add: canonical_zone_def)
  next
    case (Some z')
    then have "z' \<in> set (rd_Zones r)" "zs_ID z' = zid" by (auto simp: find_Some_iff)
    moreover have "z' = z" using z Some by (simp add: look)
    ultimately show ?thesis using assms(2) by (auto simp: list_all_iff good_zone_def)
  qed
  then show ?thesis by (simp add: canonical_state_def keyed_state_def fmpred_iff)
qed

text \<open>
  C17. A restore yields the recorded World or none: if the round's tick recorded the hash of a
  state, an Engine that \<^verbatim>\<open>RestoreEngine\<close> returns is in that very state, or the two states are a
  SHA-256 collision. A round that was mixed, altered or restored onto other content is refused.
\<close>
theorem restore_is_the_recorded_state:
  assumes "RestoreEngine w templates cfg r = Inr e" "list_all good_zone (rd_Zones r)" "canonical_state s" "rd_RecordedHash r = StateHash s"
  shows "en_state e = s \<or> WorldState_CanonicalBytes (en_state e) \<noteq> WorldState_CanonicalBytes s
     \<and> sha256 (WorldState_CanonicalBytes (en_state e)) = sha256 (WorldState_CanonicalBytes s)"
proof -
  have "StateHash (en_state e) = StateHash s" using load_round_Inr(2)[OF RestoreEngine_load[OF assms(1)]] assms(4) by simp
  then show ?thesis using state_bytes_inject[OF canonical_restored[OF assms(1,2)] assms(3)] by (auto simp: StateHash_def)
qed

lemma orderly_canonical: "orderly (e, msgs) \<Longrightarrow> canonical_state (en_state e)"
  using orderly_wf[of e msgs] orderly_zone(1)[of e msgs]
  by (fastforce simp: canonical_state_def wf_engine_def fmpred_iff good_zone_def dest: zone_of_lookup)

theorem restore_is_the_recorded_state_witness:
  "\<exists>e. RestoreEngine (en_world engine2) (en_templates engine2) ex_config (round_of engine2) = Inr e
     \<and> (en_state e = en_state engine2 \<or> WorldState_CanonicalBytes (en_state e) \<noteq> WorldState_CanonicalBytes (en_state engine2)
         \<and> sha256 (WorldState_CanonicalBytes (en_state e)) = sha256 (WorldState_CanonicalBytes (en_state engine2)))"
proof -
  have "EffectiveSeed (cfg_Seed ex_config) = ws_Seed (en_state engine2)" "ws_Seed (en_state engine2) \<noteq> 0"
    by (simp_all add: sample_seed EffectiveSeed_def ex_config_def)
  then have r: "RestoreEngine (en_world engine2) (en_templates engine2) ex_config (round_of engine2) = Inr (restored engine2 ex_config)"
    using orderly_storable[OF sample_orderly(3)] by (intro RestoreEngine_round_of[OF orderly_wf[OF sample_orderly(3)]]) (simp_all add: storable_system_def)
  have "list_all good_zone (rd_Zones (round_of engine2))"
    by (auto simp: round_of_def Let_def list_all_iff SnapshotAll_def simp del: engine2_fields intro: orderly_zone(1)[OF sample_orderly(3)])
  from restore_is_the_recorded_state[OF r this orderly_canonical[OF sample_orderly(3)]] r show ?thesis by (auto simp: round_of_def Let_def)
qed

end
