(* ===== verification/Determinism.thy ===== *)
theory Determinism
  imports Restore
begin

text \<open>
  What a tick depends on. The retry schedule, the flag that a replay is under way, the order Go's
  maps are met in and the configuration other than the verb table and the content source have no
  part in what a tick does: \<open>plain\<close> removes them from an Engine, and stepping commutes with it. The
  map order drops out because an Entity has at most one body, which is the handoff invariant.
\<close>

section \<open>Handlers\<close>

definition plain_ctx :: "apply_ctx \<Rightarrow> apply_ctx" where
  "plain_ctx a = a\<lparr>ac_replaying := True, ac_MapOrder := (\<lambda>xs. xs)\<rparr>"

definition forget :: "tick_state \<Rightarrow> tick_state" where
  "forget h = h\<lparr>tk_handoffs := Map.empty\<rparr>"

fun forget_out :: "outcome \<Rightarrow> outcome" where
  "forget_out (Done h) = Done (forget h)"
| "forget_out (Rejected err h) = Rejected err (forget h)"
| "forget_out (Panicked m h) = Panicked m (forget h)"

lemma plain_ctx_fields [simp]:
  "ac_Tick (plain_ctx a) = ac_Tick a" "ac_World (plain_ctx a) = ac_World a" "ac_Templates (plain_ctx a) = ac_Templates a" "ac_Zone (plain_ctx a) = ac_Zone a"
  "ac_Record (plain_ctx a) = ac_Record a" "ac_versions (plain_ctx a) = ac_versions a" "ac_consumed (plain_ctx a) = ac_consumed a"
  by (simp_all add: plain_ctx_def)

lemma forget_fields [simp]:
  "tk_State (forget h) = tk_State h" "tk_Events (forget h) = tk_Events h" "tk_Outbound (forget h) = tk_Outbound h" "tk_StaleArrivals (forget h) = tk_StaleArrivals h"
  "tk_Linkdead (forget h) = tk_Linkdead h" "tk_Purges (forget h) = tk_Purges h" "tk_bind (forget h) = tk_bind h" "tk_jump (forget h) = tk_jump h"
  "tk_handoffs (forget h) = Map.empty"
  by (simp_all add: forget_def)

lemma forget_upd [simp]:
  "(forget h)\<lparr>tk_State := s\<rparr> = forget (h\<lparr>tk_State := s\<rparr>)" "(forget h)\<lparr>tk_Events := evs\<rparr> = forget (h\<lparr>tk_Events := evs\<rparr>)"
  "(forget h)\<lparr>tk_Outbound := out\<rparr> = forget (h\<lparr>tk_Outbound := out\<rparr>)" "(forget h)\<lparr>tk_StaleArrivals := n\<rparr> = forget (h\<lparr>tk_StaleArrivals := n\<rparr>)"
  "(forget h)\<lparr>tk_Linkdead := l\<rparr> = forget (h\<lparr>tk_Linkdead := l\<rparr>)" "(forget h)\<lparr>tk_Purges := p\<rparr> = forget (h\<lparr>tk_Purges := p\<rparr>)"
  "(forget h)\<lparr>tk_bind := b\<rparr> = forget (h\<lparr>tk_bind := b\<rparr>)" "(forget h)\<lparr>tk_jump := j\<rparr> = forget (h\<lparr>tk_jump := j\<rparr>)"
  "forget (h\<lparr>tk_handoffs := m\<rparr>) = forget h" "(forget h)\<lparr>tk_handoffs := Map.empty\<rparr> = forget h"
  by (simp_all add: forget_def)

lemma here_plain [simp]: "here (plain_ctx a) (forget h) = here a h" "entity_here (plain_ctx a) (forget h) eid = entity_here a h eid"
  by (simp_all add: here_def entity_here_def)

lemma upd_here_plain [simp]: "upd_here (plain_ctx a) f (forget h) = forget (upd_here a f h)"
  by (simp add: upd_here_def)

lemma emit_plain [simp]: "emit t z ses ref sc p (forget h) = forget (emit t z ses ref sc p h)" "Emit (plain_ctx a) sc p (forget h) = forget (Emit a sc p h)"
  by (simp_all add: Emit_def emit_def Let_def)

lemma report_plain [simp]:
  "Produce c (forget h) = forget (Produce c h)" "staleArrival (forget h) = forget (staleArrival h)" "linkdead (plain_ctx a) ch (forget h) = forget (linkdead a ch h)"
  "purged (plain_ctx a) pu (forget h) = forget (purged a pu h)" "bound b eid z room k (forget h) = forget (bound b eid z room k h)"
  "noteHandoff (plain_ctx a) eid seq (forget h) = forget (noteHandoff a eid seq h)"
  by (simp_all add: Produce_def staleArrival_def linkdead_def purged_def bound_def noteHandoff_def) (simp add: plain_ctx_def)

lemma dropTransit_plain [simp]: "dropTransit (plain_ctx a) eid (forget h) = forget (dropTransit a eid h)"
  by (simp add: dropTransit_def split: option.split)

lemma describeTo_plain [simp]: "describeTo (plain_ctx a) room eid (forget h) = forget (describeTo a room eid h)"
  by (simp add: describeTo_def)

lemma validate_plain [simp]:
  "locate (plain_ctx a) cmd (forget h) = locate a cmd h" "validateLook (plain_ctx a) cmd (forget h) = validateLook a cmd h"
  "validateMove (plain_ctx a) cmd (forget h) = validateMove a cmd h" "validateGoto (plain_ctx a) cmd (forget h) = validateGoto a cmd h"
  "validateArrive (plain_ctx a) cmd (forget h) = validateArrive a cmd h"
proof -
  show l: "locate (plain_ctx a) cmd (forget h) = locate a cmd h" unfolding locate_def here_plain plain_ctx_fields by (rule refl)
  show "validateLook (plain_ctx a) cmd (forget h) = validateLook a cmd h" "validateMove (plain_ctx a) cmd (forget h) = validateMove a cmd h"
    "validateGoto (plain_ctx a) cmd (forget h) = validateGoto a cmd h" unfolding validateLook_def validateMove_def validateGoto_def l plain_ctx_fields by (rule refl)+
  show "validateArrive (plain_ctx a) cmd (forget h) = validateArrive a cmd h" unfolding validateArrive_def here_plain by (rule refl)
qed

lemma moves_plain [simp]: "depart (plain_ctx a) cmd actor to dir (forget h) = forget (depart a cmd actor to dir h)" "ack cmd eid seq (forget h) = forget (ack cmd eid seq h)"
  by (simp_all add: depart_def ack_def Let_def)

lemma reconnect_plain [simp]: "reconnect (plain_ctx a) eid ent (forget h) = forget (reconnect a eid ent h)"
  by (simp add: reconnect_def Let_def)

lemma despawn_plain [simp]:
  "despawn zid eid ent t reason (Emit (plain_ctx a)) (linkdead (plain_ctx a)) (forget h) = forget (despawn zid eid ent t reason (Emit a) (linkdead a) h)"
  by (simp add: despawn_def Let_def)

lemma look_plain: "applyLook (plain_ctx a) cmd (forget h) = forget_out (applyLook a cmd h)"
  by (simp add: applyLook_def split: sum.split prod.split)

lemma move_plain: "applyMove (plain_ctx a) cmd (forget h) = forget_out (applyMove a cmd h)"
  by (simp add: applyMove_def Let_def split: sum.split prod.split option.split)

lemma goto_plain: "applyGoto (plain_ctx a) cmd (forget h) = forget_out (applyGoto a cmd h)"
  by (simp add: applyGoto_def Let_def split: sum.split prod.split)

lemma place_plain: "place (plain_ctx a) cmd p v (forget h) = forget_out (place a cmd p v h)"
  by (simp add: place_def Let_def split: option.split)

lemma arrive_plain: "applyArrive (plain_ctx a) cmd (forget h) = forget_out (applyArrive a cmd h)"
  by (simp add: applyArrive_def Let_def place_plain split: sum.split option.split)

lemma ack_plain: "applyHandoffAck (plain_ctx a) cmd (forget h) = forget_out (applyHandoffAck a cmd h)"
  by (simp add: applyHandoffAck_def split: prod.split option.split)

lemma mark_plain: "applyMarkLinkdead (plain_ctx a) cmd (forget h) = forget_out (applyMarkLinkdead a cmd h)"
  by (simp add: applyMarkLinkdead_def Let_def split: option.split)

lemma unbind_plain: "applyUnbindCharacter (plain_ctx a) cmd (forget h) = forget_out (applyUnbindCharacter a cmd h)"
  by (simp add: applyUnbindCharacter_def Let_def split: option.split)

lemma purge_plain: "applyPurgeCharacter (plain_ctx a) cmd (forget h) = forget_out (applyPurgeCharacter a cmd h)"
proof -
  have "character_at (forget h) = character_at h" by (intro ext) (simp add: character_at_def)
  moreover have "purge_here (plain_ctx a) eid ent (forget h) = forget_out (purge_here a eid ent h)" for eid ent by (simp add: purge_here_def Let_def)
  ultimately show ?thesis by (simp add: applyPurgeCharacter_def Let_def split: option.split)
qed

text \<open>At most one Zone holds a body, so the first one found is the same in every order.\<close>

definition single :: "WorldState \<Rightarrow> bool" where
  "single s \<longleftrightarrow> (\<forall>eid z z'. fmlookup (zs_Entities (zone_of s z)) eid \<noteq> None \<and> fmlookup (zs_Entities (zone_of s z')) eid \<noteq> None \<longrightarrow> z = z')"

lemma find_unique:
  assumes "set xs = set ys" "\<And>x y. P x \<Longrightarrow> P y \<Longrightarrow> x = y"
  shows "find P xs = find P ys"
proof (cases "find P xs")
  case None
  then show ?thesis using assms(1) by (metis find_None_iff)
next
  case (Some x)
  then have x: "P x" "x \<in> set xs" by (auto simp: find_Some_iff)
  then obtain y where y: "find P ys = Some y" using assms(1) by (metis find_None_iff not_Some_eq)
  then have "P y" by (auto simp: find_Some_iff)
  then show ?thesis using Some y x(1) assms(2) by metis
qed

lemma bind_plain:
  assumes "single (tk_State h)" "wf_ctx a"
  shows "applyBindCharacter (plain_ctx a) cmd (forget h) = forget_out (applyBindCharacter a cmd h)"
proof -
  have "elsewhere (plain_ctx a) eid (forget h) = elsewhere a eid h" for eid
    unfolding elsewhere_def plain_ctx_fields forget_fields using assms by (intro find_unique) (auto simp: plain_ctx_def wf_ctx_def single_def)
  moreover have "bind_here (plain_ctx a) b eid ent (forget h) = forget_out (bind_here a b eid ent h)" for b eid ent
    by (simp add: bind_here_def Let_def)
  moreover have "bind_elsewhere (plain_ctx a) cmd eid zid ent (forget h) = forget_out (bind_elsewhere a cmd eid zid ent h)" for eid zid ent
    by (simp add: bind_elsewhere_def Let_def)
  moreover have "bind_new (plain_ctx a) b eid (forget h) = forget_out (bind_new a b eid h)" for b eid
    by (simp add: bind_new_def Let_def split: option.split)
  ultimately show ?thesis by (simp add: applyBindCharacter_def Let_def split: option.split)
qed

lemma handler_plain:
  assumes "Handlers k = Some f" "single (tk_State h)" "wf_ctx a"
  shows "f (plain_ctx a) cmd (forget h) = forget_out (f a cmd h)"
  using assms(1) bind_plain[OF assms(2,3)] unfolding Handlers_def
  by (auto simp: look_plain move_plain goto_plain arrive_plain ack_plain mark_plain unbind_plain purge_plain split: if_splits)

section \<open>One record\<close>

definition plain_cfg :: "Config \<Rightarrow> Config" where
  "plain_cfg cfg = cfg\<lparr>cfg_Seed := 0, cfg_Partitions := [], cfg_HandoffRetryTicks := 0, cfg_HandoffRetryMaxTicks := 0, cfg_HandoffRetryBatch := 0,
     cfg_MapOrder := (\<lambda>xs. xs)\<rparr>"

definition plain :: "Engine \<Rightarrow> Engine" where
  "plain e = e\<lparr>en_cfg := plain_cfg (en_cfg e), en_handoffs := Map.empty, en_replaying := True\<rparr>"

definition forget_ss :: "step_state \<Rightarrow> step_state" where
  "forget_ss ss = ss\<lparr>st_h := forget (st_h ss)\<rparr>"

lemma plain_fields [simp]:
  "en_world (plain e) = en_world e" "en_templates (plain e) = en_templates e" "en_state (plain e) = en_state e" "en_versions (plain e) = en_versions e"
  "en_digest (plain e) = en_digest e" "cfg_Handlers (en_cfg (plain e)) = cfg_Handlers (en_cfg e)" "cfg_Content (en_cfg (plain e)) = cfg_Content (en_cfg e)"
  by (simp_all add: plain_def plain_cfg_def)

lemma wf_plain: "wf_engine e \<Longrightarrow> wf_engine (plain e)"
  by (simp add: wf_engine_def) (simp add: plain_def plain_cfg_def)

lemma context_plain: "context_of (plain e) t zid r = plain_ctx (context_of e t zid r)"
  by (simp add: context_of_def plain_ctx_def plain_def plain_cfg_def)

lemma forget_ss_fields [simp]:
  "st_h (forget_ss ss) = forget (st_h ss)" "st_CommandsApplied (forget_ss ss) = st_CommandsApplied ss" "st_Unapplied (forget_ss ss) = st_Unapplied ss"
  "st_Faults (forget_ss ss) = st_Faults ss" "st_Observed (forget_ss ss) = st_Observed ss" "st_consumed (forget_ss ss) = st_consumed ss"
  "(forget_ss ss)\<lparr>st_h := forget h\<rparr> = forget_ss (ss\<lparr>st_h := h\<rparr>)" "(forget_ss ss)\<lparr>st_consumed := rs\<rparr> = forget_ss (ss\<lparr>st_consumed := rs\<rparr>)"
  "(forget_ss ss)\<lparr>st_Faults := fs\<rparr> = forget_ss (ss\<lparr>st_Faults := fs\<rparr>)"
  by (simp_all add: forget_ss_def)

lemma engine_plain [simp]:
  "observe z r out (forget_ss ss) = forget_ss (observe z r out ss)" "st_emit t z ses ref sc p (forget_ss ss) = forget_ss (st_emit t z ses ref sc p ss)"
  "advance pt r (forget_ss ss) = forget_ss (advance pt r ss)" "reject_unplaced t z code msg r (forget_ss ss) = forget_ss (reject_unplaced t z code msg r ss)"
  "start (plain e) = forget_ss (start e)"
proof -
  show o: "observe z r out (forget_ss ss) = forget_ss (observe z r out ss)" for z r out ss by (simp add: observe_def forget_ss_def)
  show s: "st_emit t z ses ref sc p (forget_ss ss) = forget_ss (st_emit t z ses ref sc p ss)" for t z ses ref sc p ss by (simp add: st_emit_def)
  show "reject_unplaced t z code msg r (forget_ss ss) = forget_ss (reject_unplaced t z code msg r ss)" by (simp add: reject_unplaced_def Let_def o s)
  show "advance pt r (forget_ss ss) = forget_ss (advance pt r ss)" by (simp add: advance_def forget_ss_def)
  show "start (plain e) = forget_ss (start e)" by (simp add: start_def forget_ss_def forget_def) (simp add: plain_def)
qed

lemma applyOne_plain:
  assumes "cfg_Handlers (en_cfg e) = Handlers" "single (tk_State (st_h ss))" "wf_ctx (context_of e t zid r)"
  shows "applyOne (plain e) t zid r (forget_ss ss) = map_prod (\<lambda>b. b) forget_ss (applyOne e t zid r ss)"
proof (cases "Handlers (KindOf (rc_Command r))")
  case None
  then show ?thesis by (simp add: applyOne_def Let_def assms(1))
next
  case (Some f)
  let ?h = "(st_h ss)\<lparr>tk_bind := None, tk_jump := None\<rparr>" and ?a = "context_of e t zid r"
  have f: "f (plain_ctx ?a) (rc_Command r) (forget ?h) = forget_out (f ?a (rc_Command r) ?h)"
    using handler_plain[OF Some, of ?h ?a] assms(2,3) by simp
  show ?thesis
  proof (cases "f ?a (rc_Command r) ?h")
    case (Rejected err h)
    then show ?thesis using f by (simp add: applyOne_def Let_def assms(1) Some context_plain split: prod.split)
  qed (use f in \<open>simp_all add: applyOne_def Let_def assms(1) Some context_plain\<close>)
qed

text \<open>What a record does before its offset moves; \<open>applyPartition\<close> is a fold of it while nothing panics.\<close>

definition consume :: "Engine \<Rightarrow> u64 \<Rightarrow> int \<Rightarrow> Record \<Rightarrow> step_state \<Rightarrow> step_state" where
  "consume e tick p r ss = (let cmd = rc_Command r in
     if KindOf cmd = ''content_swap'' then ss\<lparr>st_consumed := st_consumed ss @ [r]\<rparr>
     else case fmlookup (ws_Zones (tk_State (st_h ss))) (lc_ZoneId cmd) of
       None \<Rightarrow> reject_unplaced tick '''' ''unknown_zone'' ''that place is not in this world'' r ss
     | Some zone \<Rightarrow> if PartitionFor (lc_ZoneId cmd) \<noteq> p then reject_unplaced tick (lc_ZoneId cmd) ''misrouted'' ''the command reached the wrong partition'' r ss
         else snd (applyOne e tick (lc_ZoneId cmd) r ss))"

context tick_invariant
begin

lemma consume_applyOne:
  assumes "wf_engine e" "ok (rc_Command r)" "Inv (en_world e) (st_h ss)" "\<forall>t zid r. env (context_of e t zid r)"
    and "fmlookup (ws_Zones (tk_State (st_h ss))) (lc_ZoneId (rc_Command r)) = Some z"
  shows "\<exists>ss'. applyOne e tick (lc_ZoneId (rc_Command r)) r ss = (True, ss') \<and> kept (en_world e) ss ss'"
proof -
  have "lc_ZoneId (rc_Command r) |\<in>| fmdom (w_Zones (en_world e))" using assms(3,5) unfolding Inv_def by (metis fmdomI)
  from Inv_applyOne[OF assms(1) refl this assms(2-4)] show ?thesis .
qed

lemma applyPartition_Cons:
  assumes "wf_engine e" "ok (rc_Command r)" "Inv (en_world e) (st_h ss)" "\<forall>t zid r. env (context_of e t zid r)"
  shows "applyPartition e tick p (r # rs) ss = applyPartition e tick p rs (advance p r (consume e tick p r ss))"
  using consume_applyOne[OF assms] by (cases "fmlookup (ws_Zones (tk_State (st_h ss))) (lc_ZoneId (rc_Command r))") (auto simp: consume_def Let_def)

lemma kept_consume:
  assumes "wf_engine e" "ok (rc_Command r)" "Inv (en_world e) (st_h ss)" "\<forall>t zid r. env (context_of e t zid r)"
  shows "kept (en_world e) ss (consume e tick p r ss)"
proof (cases "fmlookup (ws_Zones (tk_State (st_h ss))) (lc_ZoneId (rc_Command r))")
  case None
  then show ?thesis using kept_reject_unplaced[OF assms(3)] assms(3) by (auto simp: consume_def kept_def Let_def)
next
  case (Some z)
  then show ?thesis using consume_applyOne[OF assms Some] kept_reject_unplaced[OF assms(3)] assms(3) by (auto simp: consume_def kept_def Let_def)
qed

end

interpretation zones_inv: world_invariant tick "\<lambda>_. True" "\<lambda>_ _. True" "\<lambda>_. True" for tick
  by unfold_locales simp_all

interpretation outbound_inv: world_invariant tick "\<lambda>_. True" "\<lambda>_ h. \<exists>outs. tk_Outbound h = ob @ outs" "\<lambda>_. True" for tick ob
proof unfold_locales
  show "\<exists>outs. tk_Outbound (reached (f a cmd h)) = ob @ outs"
    if "\<exists>outs. tk_Outbound h = ob @ outs" "wf_ctx a" "Handlers (KindOf cmd) = Some f" for a h cmd f
    using handler_effect[OF that(3,2), of h] that(1) by (auto simp: has_effect_def)
qed simp_all

section \<open>A tick\<close>

definition unwrapped_all :: "tick_state \<Rightarrow> bool" where
  "unwrapped_all h \<longleftrightarrow> (\<forall>c \<in> set (tk_Outbound h). unwrapped c)"

lemma single_sound: "sound s msgs \<Longrightarrow> single s"
  unfolding single_def using one_body[of "view eid s msgs" for eid] by (fastforce simp: sound_def view_body_def)

lemma single_Inv: "sound_inv.Inv msgs w h \<Longrightarrow> unwrapped_all h \<Longrightarrow> single (tk_State h)"
  using single_sound by (auto simp: sound_inv.Inv_def sound_so_far_def unwrapped_all_def)

lemma consume_plain:
  assumes "wf_engine e" "fmdom (ws_Zones (tk_State (st_h ss))) = fmdom (w_Zones (en_world e))" "single (tk_State (st_h ss))"
  shows "consume (plain e) t p r (forget_ss ss) = forget_ss (consume e t p r ss)"
proof (cases "fmlookup (ws_Zones (tk_State (st_h ss))) (lc_ZoneId (rc_Command r))")
  case None
  then show ?thesis by (simp add: consume_def Let_def)
next
  case (Some z)
  then have "lc_ZoneId (rc_Command r) |\<in>| fmdom (w_Zones (en_world e))" using assms(2) by (metis fmdomI)
  from applyOne_plain[OF _ assms(3) wf_ctx_context_of[OF assms(1) this]]
  have "applyOne (plain e) t (lc_ZoneId (rc_Command r)) r (forget_ss ss) = map_prod (\<lambda>b. b) forget_ss (applyOne e t (lc_ZoneId (rc_Command r)) r ss)"
    using assms(1) by (simp add: wf_engine_def)
  then show ?thesis using Some by (simp add: consume_def Let_def snd_map_prod)
qed

lemma unwrapped_before:
  assumes "wf_engine e" "fmdom (ws_Zones (tk_State (st_h ss))) = fmdom (w_Zones (en_world e))" "unwrapped_all (st_h (applyPartition e tick p rs ss))"
  shows "unwrapped_all (st_h ss)"
  using outbound_inv.Inv_applyPartition[OF assms(1), of rs "tk_Outbound (st_h ss)" ss tick p] assms(2,3)
  by (auto simp: outbound_inv.Inv_def outbound_inv.kept_def unwrapped_all_def)

lemma unwrapped_forget [simp]: "unwrapped_all (forget h) = unwrapped_all h"
  by (simp add: unwrapped_all_def)

lemma applyPartition_plain:
  assumes "wf_engine e"
  shows "\<forall>r \<in> set rs. sent msgs (rc_Command r) \<Longrightarrow> sound_inv.Inv msgs (en_world e) (st_h ss) \<Longrightarrow>
    unwrapped_all (st_h (applyPartition e tick p rs ss)) \<or> unwrapped_all (st_h (applyPartition (plain e) tick p rs (forget_ss ss))) \<Longrightarrow>
    applyPartition (plain e) tick p rs (forget_ss ss) = forget_ss (applyPartition e tick p rs ss)"
proof (induction rs arbitrary: ss)
  case (Cons r rs)
  have dom: "fmdom (ws_Zones (tk_State (st_h ss))) = fmdom (w_Zones (en_world e))" using Cons.prems(2) by (simp add: sound_inv.Inv_def)
  have "unwrapped_all (st_h ss)"
    using Cons.prems(3) unwrapped_before[OF assms dom] unwrapped_before[OF wf_plain[OF assms], of "forget_ss ss"] dom by (auto simp del: applyPartition.simps)
  then have single: "single (tk_State (st_h ss))" using single_Inv[OF Cons.prems(2)] by blast
  let ?ss = "advance p r (consume e tick p r ss)"
  have e: "applyPartition e tick p (r # rs) ss = applyPartition e tick p rs ?ss"
    by (rule sound_inv.applyPartition_Cons[OF assms _ Cons.prems(2)]) (use Cons.prems(1) in simp_all)
  have "applyPartition (plain e) tick p (r # rs) (forget_ss ss) = applyPartition (plain e) tick p rs (advance p r (consume (plain e) tick p r (forget_ss ss)))"
    by (rule zones_inv.applyPartition_Cons[OF wf_plain[OF assms]]) (simp_all add: zones_inv.Inv_def dom)
  then have p: "applyPartition (plain e) tick p (r # rs) (forget_ss ss) = applyPartition (plain e) tick p rs (forget_ss ?ss)"
    by (simp add: consume_plain[OF assms dom single])
  have "sound_inv.kept msgs (en_world e) ss (consume e tick p r ss)"
    by (rule sound_inv.kept_consume[OF assms _ Cons.prems(2)]) (use Cons.prems(1) in simp_all)
  then have "sound_inv.Inv msgs (en_world e) (st_h ?ss)" by (intro sound_inv.Inv_advance sound_inv.kept_Inv)
  from Cons.IH[OF _ this] Cons.prems(1,3) show ?case unfolding e p by simp
qed simp

lemma applyRecords_plain:
  assumes "wf_engine e" "sound (en_state e) msgs" "\<forall>r \<in> set records. sent msgs (rc_Command r)"
    and "unwrapped_all (st_h (applyRecords e tick records)) \<or> unwrapped_all (st_h (applyRecords (plain e) tick records))"
  shows "applyRecords (plain e) tick records = forget_ss (applyRecords e tick records)"
proof -
  let ?f = "\<lambda>e ss p. applyPartition e tick p (byPart records p) ss"
  have "foldl (?f (plain e)) (forget_ss ss) ps = forget_ss (foldl (?f e) ss ps)"
    if "sound_inv.Inv msgs (en_world e) (st_h ss)" "unwrapped_all (st_h (foldl (?f e) ss ps)) \<or> unwrapped_all (st_h (foldl (?f (plain e)) (forget_ss ss) ps))" for ss ps
    using that
  proof (induction ps arbitrary: ss)
    case (Cons p ps)
    have dom: "fmdom (ws_Zones (tk_State (st_h ss))) = fmdom (w_Zones (en_world e))" using Cons.prems(1) by (simp add: sound_inv.Inv_def)
    have sent: "\<forall>r \<in> set (byPart records p). sent msgs (rc_Command r)" using assms(3) by (simp add: byPart_def)
    have before: "unwrapped_all (st_h ss)" if "wf_engine e" "unwrapped_all (st_h (foldl (?f e) ss ps))" "fmdom (ws_Zones (tk_State (st_h ss))) = fmdom (w_Zones (en_world e))" for e ss ps
      using that(2,3)
    proof (induction ps arbitrary: ss)
      case (Cons p ps)
      have "zones_inv.kept (en_world e) ss (?f e ss p)" by (rule zones_inv.Inv_applyPartition[OF that(1)]) (use Cons.prems(2) in \<open>simp_all add: zones_inv.Inv_def\<close>)
      then have "unwrapped_all (st_h (?f e ss p))" using Cons.IH[of "?f e ss p"] Cons.prems by (simp add: zones_inv.kept_def zones_inv.Inv_def)
      then show ?case by (rule unwrapped_before[OF that(1) Cons.prems(2)])
    qed simp
    have k: "sound_inv.Inv msgs (en_world e) (st_h (?f e ss p))"
      by (rule sound_inv.kept_Inv[OF sound_inv.Inv_applyPartition[OF assms(1) sent Cons.prems(1)]]) simp
    have "zones_inv.kept (en_world e) (forget_ss ss) (?f (plain e) (forget_ss ss) p)"
      using zones_inv.Inv_applyPartition[OF wf_plain[OF assms(1)], of "byPart records p" "forget_ss ss" tick p] dom by (simp add: zones_inv.Inv_def)
    then have "unwrapped_all (st_h (?f e ss p)) \<or> unwrapped_all (st_h (?f (plain e) (forget_ss ss) p))"
      using Cons.prems(2) before[OF assms(1), of "?f e ss p" ps] before[OF wf_plain[OF assms(1)], of "?f (plain e) (forget_ss ss) p" ps] k
      by (auto simp: zones_inv.kept_def zones_inv.Inv_def sound_inv.Inv_def)
    from applyPartition_plain[OF assms(1) sent Cons.prems(1) this] Cons.IH[OF k] Cons.prems(2) show ?case by simp
  qed simp
  moreover have "sound_inv.Inv msgs (en_world e) (st_h (start e))"
    using assms(1,2) by (simp add: sound_inv.Inv_def sound_so_far_def start_def wf_engine_def)
  ultimately show ?thesis using assms(4) by (simp add: applyRecords_def)
qed

lemma despawn_emit_plain [simp]:
  "despawn zid eid ent t reason (emit t z ses ref) (\<lambda>c h. h\<lparr>tk_Linkdead := tk_Linkdead h @ [c]\<rparr>) (forget h)
     = forget (despawn zid eid ent t reason (emit t z ses ref) (\<lambda>c h. h\<lparr>tk_Linkdead := tk_Linkdead h @ [c]\<rparr>) h)"
  by (simp add: despawn_def Let_def)

lemma foldl_commute: "(\<And>x y. f (g x) y = g (f x y)) \<Longrightarrow> foldl f (g x) ys = g (foldl f x ys)"
  by (induction ys arbitrary: x) simp_all

lemma expire_plain [simp]: "expireLinkdead t (forget h) = forget (expireLinkdead t h)"
proof -
  have "expire_one t zid (forget h) eid = forget (expire_one t zid h eid)" for zid h eid by (simp add: expire_one_def split: option.split)
  note one = foldl_commute[of "expire_one t zid" forget for zid, OF this]
  have "expire_zone t (forget h) zid = forget (expire_zone t h zid)" for zid h by (simp add: expire_zone_def Let_def one)
  note zone = foldl_commute[of "expire_zone t" forget, OF this]
  show ?thesis by (simp add: expireLinkdead_def zone)
qed

lemma relocate_plain: "foldl (relocate_zone t w) (map_prod forget (\<lambda>x. x) hr) zids = map_prod forget (\<lambda>x. x) (foldl (relocate_zone t w) hr zids)"
proof -
  have "relocate t nz zid (map_prod forget (\<lambda>x. x) hr) eid = map_prod forget (\<lambda>x. x) (relocate t nz zid hr eid)" for nz zid hr eid
    by (cases hr) (simp add: relocate_def Let_def split: option.split)
  note one = foldl_commute[of "relocate t nz zid" "map_prod forget (\<lambda>x. x)" for nz zid, OF this]
  have "relocate_zone t w (map_prod forget (\<lambda>x. x) hr) zid = map_prod forget (\<lambda>x. x) (relocate_zone t w hr zid)" for zid hr
    by (simp add: relocate_zone_def one fst_map_prod split: option.split)
  then show ?thesis by (rule foldl_commute)
qed

lemma applySwap_plain: "applySwap t p (plain e) (forget h) = (case applySwap t p e h of (e', h', sa) \<Rightarrow> (plain e', forget h', sa))"
  using relocate_plain[of t "the_world (ps_topo p)" "(h, [])"] by (simp add: applySwap_def Let_def fst_map_prod snd_map_prod) (simp add: plain_def)

definition plain_swap :: "swap_state \<Rightarrow> swap_state" where
  "plain_swap w = w\<lparr>wp_e := plain (wp_e w), wp_ss := forget_ss (wp_ss w)\<rparr>"

lemma finishSwap_plain: "finishSwap t (plain_swap w) p = plain_swap (finishSwap t w p)"
proof (cases "ps_rec p \<in> set (st_consumed (wp_ss w)) \<and> ps_refused p = None")
  case True
  obtain e' h' sa where "applySwap t p (wp_e w) (st_h (wp_ss w)) = (e', h', sa)" by (metis prod_cases3)
  then show ?thesis using True by (simp add: finishSwap_def plain_swap_def applySwap_plain)
qed (auto simp: finishSwap_def plain_swap_def split: option.split)

lemma run_tick_plain:
  assumes "wf_engine e" "sound (en_state e) msgs" "\<forall>r \<in> set records. sent msgs (rc_Command r)"
    and "unwrapped_all (st_h (applyRecords e (ws_Tick (en_state e) + 1) records)) \<or> unwrapped_all (st_h (applyRecords (plain e) (ws_Tick (en_state e) + 1) records))"
  shows "run_tick (plain e) records prepared = plain_swap (run_tick e records prepared)"
proof -
  let ?t = "ws_Tick (en_state e) + 1"
  have "foldl (finishSwap ?t) (plain_swap w) prepared = plain_swap (foldl (finishSwap ?t) w prepared)" for w
    by (rule foldl_commute[of "finishSwap ?t" plain_swap, OF finishSwap_plain])
  from this[of "\<lparr>wp_e = e, wp_ss = (applyRecords e ?t records)\<lparr>st_h := expireLinkdead ?t (st_h (applyRecords e ?t records))\<rparr>, wp_Swaps = [], wp_Refused = []\<rparr>"]
  show ?thesis by (simp add: run_tick_def Let_def applyRecords_plain[OF assms] plain_swap_def)
qed

lemma unwrapped_run_tick:
  assumes "wf_engine e" "prepareSwaps e sw = Inr prepared" "unwrapped_all (st_h (wp_ss (run_tick e records prepared)))"
  shows "unwrapped_all (st_h (applyRecords e (ws_Tick (en_state e) + 1) records))"
proof -
  let ?t = "ws_Tick (en_state e) + 1"
  let ?h = "st_h (applyRecords e ?t records)"
  have "zones_inv.Inv (en_world e) ?h" by (rule zones_inv.kept_Inv[OF zones_inv.Inv_applyRecords[OF assms(1)]]) simp_all
  then have "outbound_inv.Inv (tk_Outbound ?h) (en_world e) ?h" by (simp add: outbound_inv.Inv_def zones_inv.Inv_def)
  then have i: "outbound_inv.Inv (tk_Outbound ?h) (en_world e) (expireLinkdead ?t ?h)" by (rule outbound_inv.Inv_expireLinkdead)
  have "chain (en_world e) prepared"
    using assms(1,2) by (intro prepareLoop_chain[of "cfg_Content (en_cfg e)" "en_versions e" "en_digest e" _ sw]) (auto simp: prepareSwaps_def wf_engine_def)
  then have "outbound_inv.swap_ok (tk_Outbound ?h) (run_tick e records prepared) (en_cfg e)"
    unfolding run_tick_def Let_def using i assms(1) by (intro outbound_inv.swap_ok_fold) (simp_all add: outbound_inv.swap_ok_def wf_engine_def)
  then show ?thesis using assms(3) by (auto simp: outbound_inv.swap_ok_def outbound_inv.Inv_def unwrapped_all_def)
qed

lemma Step_plain:
  assumes "wf_engine e" "sound (en_state e) msgs" "\<forall>r \<in> set records. sent msgs (rc_Command r)"
    and "(\<exists>e' res. Step e records = Inr (e', res) \<and> (\<forall>c \<in> set (sr_Outbound res). unwrapped c))
      \<or> (\<exists>e' res. Step (plain e) records = Inr (e', res) \<and> (\<forall>c \<in> set (sr_Outbound res). unwrapped c))"
  shows "Step (plain e) records = map_sum (\<lambda>x. x) (map_prod plain (\<lambda>x. x)) (Step e records)"
proof -
  have prep: "prepareSwaps (plain e) sw = prepareSwaps e sw" for sw by (simp add: prepareSwaps_def)
  obtain prepared where v: "validate_input (en_state e) records (parts_of records) = None" and p: "prepareSwaps e (swapRecs records) = Inr prepared"
    using assms(4) by (auto simp: Step_def prep split: option.splits sum.splits)
  have "unwrapped_all (st_h (wp_ss (run_tick e records prepared))) \<or> unwrapped_all (st_h (wp_ss (run_tick (plain e) records prepared)))"
    using assms(4) by (auto simp: Step_def v p prep Let_def unwrapped_all_def)
  then have "unwrapped_all (st_h (applyRecords e (ws_Tick (en_state e) + 1) records)) \<or> unwrapped_all (st_h (applyRecords (plain e) (ws_Tick (en_state e) + 1) records))"
    using unwrapped_run_tick[OF assms(1) p] unwrapped_run_tick[OF wf_plain[OF assms(1)]] p by (auto simp: prep)
  from run_tick_plain[OF assms(1-3) this, of prepared] show ?thesis
    by (simp add: Step_def v p prep Let_def plain_swap_def) (simp add: plain_def)
qed

end
