(* ===== verification/Rounds.thy ===== *)
theory Rounds
  imports Restore "HOL-Library.Product_Lexorder"
begin

text \<open>
  Reading snapshots back from a store (\<^verbatim>\<open>server/store/migrate.go\<close> and \<^verbatim>\<open>rounds.go\<close>): decoding and
  verifying one object, carrying an older body forward, grouping a store's keys into rounds, and
  judging whether a round is one consistent cut of the World. The store, the protobuf decoder and
  the resolution of recorded content to Zones are parameters, as they are interfaces in the code;
  contexts, read observers and reason texts are left out.
\<close>

section \<open>One object\<close>

datatype ReadError =
    DecodeEnvelope
  | NewerStateVersion u32 u32
  | DecodeBody ZoneID
  | ErrHashInvalid
  | NoHasher u32
  | StateVersionZero
  | NoMigration u32
  | MigrationFailed u32 string

type_synonym migration = "pb_ZoneState \<Rightarrow> string + pb_ZoneState"

text \<open>Both registries are empty at state version 1.\<close>

definition migrations :: "(u32, migration) fmap" where
  "migrations = fmempty"

definition hashers :: "(u32, pb_ZoneState \<Rightarrow> bytes) fmap" where
  "hashers = fmempty"

definition hashAt :: "pb_ZoneState \<Rightarrow> u32 \<Rightarrow> u32 \<Rightarrow> ReadError + bytes" where
  "hashAt body version current =
     (if version = current then (case BodyStateHash body of Inl _ \<Rightarrow> Inl ErrHashInvalid | Inr h \<Rightarrow> Inr h)
      else case fmlookup hashers version of None \<Rightarrow> Inl (NoHasher version) | Some h \<Rightarrow> Inr (h body))"

text \<open>The steps from a version, \<open>n\<close> of them.\<close>

fun migrateFrom :: "(u32, migration) fmap \<Rightarrow> nat \<Rightarrow> u32 \<Rightarrow> pb_ZoneState \<Rightarrow> ReadError + pb_ZoneState" where
  "migrateFrom migs 0 v body = Inr body"
| "migrateFrom migs (Suc n) v body =
     (case fmlookup migs v of None \<Rightarrow> Inl (NoMigration v)
      | Some step \<Rightarrow> (case step body of Inl err \<Rightarrow> Inl (MigrationFailed v err) | Inr body' \<Rightarrow> migrateFrom migs n (v + 1) body'))"

definition Migrate :: "(u32, migration) fmap \<Rightarrow> pb_ZoneState \<Rightarrow> u32 \<Rightarrow> u32 \<Rightarrow> ReadError + pb_ZoneState" where
  "Migrate migs body from to = (if from = 0 then Inl StateVersionZero else migrateFrom migs (unat to - unat from) from body)"

record codec =
  unmarshalEnvelope :: "bytes \<Rightarrow> pb_SnapshotEnvelope option"
  unmarshalBody :: "bytes \<Rightarrow> pb_ZoneState option"

definition readVerified :: "codec \<Rightarrow> bytes \<Rightarrow> u32 \<Rightarrow> bool \<Rightarrow> ReadError + (pb_SnapshotEnvelope \<times> pb_ZoneState)" where
  "readVerified cd envelope to verify =
     (case unmarshalEnvelope cd envelope of None \<Rightarrow> Inl DecodeEnvelope
      | Some env \<Rightarrow>
          let version = pse_StateVersion env in
          if version > to then Inl (NewerStateVersion version to)
          else case unmarshalBody cd (pse_Body env) of None \<Rightarrow> Inl (DecodeBody (pse_ZoneId env))
          | Some body \<Rightarrow>
              (case (if verify then (case hashAt body version to of Inl err \<Rightarrow> Some err
                       | Inr got \<Rightarrow> if got \<noteq> pse_StateHash env then Some ErrHashInvalid else None) else None) of
                 Some err \<Rightarrow> Inl err
               | None \<Rightarrow> (case Migrate migrations body version to of Inl err \<Rightarrow> Inl err | Inr body' \<Rightarrow> Inr (env, body'))))"

definition Decode :: "codec \<Rightarrow> bytes \<Rightarrow> ReadError + (pb_SnapshotEnvelope \<times> ZoneState)" where
  "Decode cd envelope = (case readVerified cd envelope StateVersion False of Inl err \<Rightarrow> Inl err | Inr (env, body) \<Rightarrow> Inr (env, ZoneStateFromProto body))"

section \<open>Rounds\<close>

datatype GetError = ErrSnapshotNotFound | ErrStoreUnavailable string

record WorldStore =
  ws_List :: "ZoneID \<Rightarrow> string + string list"
  ws_Get :: "string \<Rightarrow> GetError + bytes"

datatype ZonesAtError = ErrContentVersionUnknown string u64 | ZonesAtFailed string

type_synonym ZonesAt = "(string, u64) fmap \<Rightarrow> ZonesAtError + ZoneID list option"

record ZoneSnapshotRef =
  zr_Zone :: ZoneID
  zr_Key :: string
  zr_Offset :: int
  zr_Bytes :: nat
  zr_Valid :: bool
  zr_Cause :: string

text \<open>The typed refusals of cause \<^verbatim>\<open>content\<close>.\<close>

datatype RoundErr = RoundContent u64 "(string, u64) fmap" string u64 | RoundZoneUnknown u64 ZoneID

record Round =
  ro_Tick :: u64
  ro_StateVersion :: u32
  ro_Zones :: "ZoneSnapshotRef list"
  ro_Complete :: bool
  ro_Cause :: string
  ro_CauseZones :: "ZoneID list"
  ro_Err :: "RoundErr option"
  ro_TakenAt :: int
  ro_Tags :: "string list"
  ro_Tagged :: bool

datatype StoreErr = ListFailed ZoneID string | ReadFailed string string | ZonesFailed u64 string

definition foundRef :: "ZoneID \<Rightarrow> string \<Rightarrow> ((u64 \<times> u32) \<times> ZoneSnapshotRef) list" where
  "foundRef z k = (case ParseSnapshotKey k of None \<Rightarrow> []
     | Some (zone, v, tick, off) \<Rightarrow> if zone \<noteq> z then []
         else [((tick, v), \<lparr>zr_Zone = zone, zr_Key = k, zr_Offset = off, zr_Bytes = 0, zr_Valid = False, zr_Cause = ''''\<rparr>)])"

fun listAll :: "WorldStore \<Rightarrow> ZoneID list \<Rightarrow> StoreErr + ((u64 \<times> u32) \<times> ZoneSnapshotRef) list" where
  "listAll st [] = Inr []"
| "listAll st (z # zs) =
     (case ws_List st z of Inl err \<Rightarrow> Inl (ListFailed z err)
      | Inr ks \<Rightarrow> map_sum (\<lambda>x. x) (\<lambda>rest. concat (map (foundRef z) ks) @ rest) (listAll st zs))"

definition round_at :: "((u64 \<times> u32) \<times> ZoneSnapshotRef) list \<Rightarrow> u64 \<times> u32 \<Rightarrow> Round" where
  "round_at found rk = \<lparr>ro_Tick = fst rk, ro_StateVersion = snd rk,
     ro_Zones = sort_key (\<lambda>r. (zr_Zone r, zr_Offset r)) (map snd (filter (\<lambda>x. fst x = rk) found)),
     ro_Complete = False, ro_Cause = '''', ro_CauseZones = [], ro_Err = None, ro_TakenAt = 0, ro_Tags = [], ro_Tagged = False\<rparr>"

text \<open>Newest tick first; within a tick, the higher state version first.\<close>

definition discover :: "WorldStore \<Rightarrow> ZoneID list \<Rightarrow> StoreErr + Round list" where
  "discover st listed = map_sum (\<lambda>x. x) (\<lambda>found. map (round_at found) (rev (sort (remdups (map fst found))))) (listAll st listed)"

section \<open>Verifying a round\<close>

definition sameContent :: "(string, u64) fmap \<Rightarrow> bytes \<Rightarrow> (string, u64) fmap \<Rightarrow> bytes \<Rightarrow> bool" where
  "sameContent a ad b bd \<longleftrightarrow> length (keys a) = length (keys b) \<and> ad = bd
     \<and> list_all (\<lambda>(p, v). (case fmlookup b p of Some x \<Rightarrow> x | None \<Rightarrow> 0) = v) (entries a)"

record reading =
  rg_state :: RoundState
  rg_first :: bool
  rg_TakenAt :: int
  rg_refs :: "ZoneSnapshotRef list"

definition invalid :: "string \<Rightarrow> ZoneSnapshotRef \<Rightarrow> reading \<Rightarrow> reading" where
  "invalid cause ref g = g\<lparr>rg_refs := rg_refs g @ [ref\<lparr>zr_Cause := cause\<rparr>]\<rparr>"

text \<open>The object read and hash-valid: it must agree with the rest of the round, or is the first.\<close>

definition admit :: "ZoneSnapshotRef \<Rightarrow> pb_SnapshotEnvelope \<Rightarrow> pb_ZoneState \<Rightarrow> rng \<Rightarrow> reading \<Rightarrow> reading" where
  "admit ref env body prng g =
     (let st = rg_state g;
          content = fill (pse_Content env);
          offsets = sort_key po_Partition (pse_Offsets env);
          valid = (\<lambda>st'. g\<lparr>rg_state := st'\<lparr>rd_Zones := rd_Zones st' @ [ZoneStateFromProto body]\<rparr>, rg_first := False, rg_refs := rg_refs g @ [ref\<lparr>zr_Valid := True\<rparr>]\<rparr>)
      in if rg_first g then
           valid (let st1 = st\<lparr>rd_PRNG := prng, rd_NextEventID := pzs_NextEventId body, rd_Offsets := offsets, rd_SimSeed := pse_SimSeed env\<rparr>
                  in if content \<noteq> fmempty then st1\<lparr>rd_Content := content, rd_ContentDigest := pse_ContentDigest env\<rparr> else st1)
         else if \<not> sameContent content (pse_ContentDigest env) (rd_Content st) (rd_ContentDigest st) then invalid ''disagree'' ref g
         else if prng \<noteq> rd_PRNG st \<or> pzs_NextEventId body \<noteq> rd_NextEventID st then invalid ''disagree'' ref g
         else if pse_SimSeed env \<noteq> rd_SimSeed st then invalid ''disagree'' ref g
         else if offsets \<noteq> rd_Offsets st then invalid ''disagree'' ref g
         else valid st)"

definition readRef :: "codec \<Rightarrow> WorldStore \<Rightarrow> u64 \<Rightarrow> ZoneSnapshotRef \<Rightarrow> reading \<Rightarrow> StoreErr + reading" where
  "readRef cd st tick ref0 g =
     (case ws_Get st (zr_Key ref0) of
        Inl ErrSnapshotNotFound \<Rightarrow> Inr (invalid ''missing'' ref0 g)
      | Inl (ErrStoreUnavailable err) \<Rightarrow> Inl (ReadFailed (zr_Key ref0) err)
      | Inr raw \<Rightarrow>
          let ref = ref0\<lparr>zr_Bytes := length raw\<rparr> in
          (case readVerified cd raw StateVersion True of
             Inl _ \<Rightarrow> Inr (invalid ''hash'' ref g)
           | Inr (env, body) \<Rightarrow>
               let g1 = g\<lparr>rg_TakenAt := (if pse_TakenAtUnixNano env > rg_TakenAt g then pse_TakenAtUnixNano env else rg_TakenAt g)\<rparr> in
               if zs_ID (ZoneStateFromProto body) \<noteq> zr_Zone ref \<or> pse_Tick env \<noteq> tick then Inr (invalid ''hash'' ref g1)
               else (case DecodePRNG (pzs_PrngState body) of Inl _ \<Rightarrow> Inr (invalid ''hash'' ref g1)
                 | Inr prng \<Rightarrow> Inr (admit ref env body prng g1))))"

fun readRefs :: "codec \<Rightarrow> WorldStore \<Rightarrow> u64 \<Rightarrow> ZoneSnapshotRef list \<Rightarrow> reading \<Rightarrow> StoreErr + reading" where
  "readRefs cd st tick [] g = Inr g"
| "readRefs cd st tick (r # rs) g = (case readRef cd st tick r g of Inl err \<Rightarrow> Inl err | Inr g' \<Rightarrow> readRefs cd st tick rs g')"

record problem =
  pb_cause :: string
  pb_zones :: "ZoneID list"
  pb_err :: "RoundErr option"

definition objectProblems :: "ZoneSnapshotRef list \<Rightarrow> problem list" where
  "objectProblems refs = map (\<lambda>r. \<lparr>pb_cause = zr_Cause r, pb_zones = [zr_Zone r], pb_err = None\<rparr>) (filter (\<lambda>r. \<not> zr_Valid r) refs)"

definition duplicateProblems :: "ZoneID list \<Rightarrow> problem list" where
  "duplicateProblems present =
     map (\<lambda>z. \<lparr>pb_cause = ''duplicate'', pb_zones = [z], pb_err = None\<rparr>) (filter (\<lambda>z. count_list present z > 1) (sort (remdups present)))"

text \<open>
  The Zones the round must hold, none where the content cannot be resolved, and what that shows. The
  nil slice is \<^term>\<open>None\<close>, and is treated as no answer.
\<close>

definition ownedZones :: "ZonesAt option \<Rightarrow> ZoneID list \<Rightarrow> u64 \<Rightarrow> (string, u64) fmap \<Rightarrow> ZoneID list \<Rightarrow> StoreErr + ZoneID list \<times> problem list" where
  "ownedZones zonesAt listed tick content present =
     (case zonesAt of None \<Rightarrow> Inr (listed, [])
      | Some at \<Rightarrow>
          if content = fmempty then Inr (listed, [])
          else (case at content of
             Inl (ErrContentVersionUnknown p v) \<Rightarrow> Inr ([], [\<lparr>pb_cause = ''content'', pb_zones = [], pb_err = Some (RoundContent tick content p v)\<rparr>])
           | Inl (ZonesAtFailed err) \<Rightarrow> Inl (ZonesFailed tick err)
           | Inr None \<Rightarrow> Inr ([], [])
           | Inr (Some zs) \<Rightarrow> Inr (zs, map (\<lambda>z. \<lparr>pb_cause = ''content'', pb_zones = [z], pb_err = Some (RoundZoneUnknown tick z)\<rparr>)
               (filter (\<lambda>z. z \<notin> set zs) (sort (remdups present))))))"

definition missingProblems :: "ZoneID list \<Rightarrow> ZoneID list \<Rightarrow> problem list" where
  "missingProblems owned present =
     (let missing = filter (\<lambda>z. z \<notin> set present) owned
      in if missing = [] then [] else [\<lparr>pb_cause = ''missing'', pb_zones = missing, pb_err = None\<rparr>])"

definition reading0 :: "u64 \<Rightarrow> reading" where
  "reading0 tick = \<lparr>rg_state = \<lparr>rd_Tick = tick, rd_StateVersion = StateVersion, rd_PRNG = (0, 0, 0, 0), rd_NextEventID = 0, rd_Offsets = [], rd_Zones = [],
       rd_Content = fmempty, rd_ContentDigest = [], rd_SimSeed = 0, rd_RecordedHash = []\<rparr>, rg_first = True, rg_TakenAt = 0, rg_refs = []\<rparr>"

text \<open>The state is returned for a complete round only.\<close>

definition verify :: "codec \<Rightarrow> WorldStore \<Rightarrow> ZoneID list \<Rightarrow> ZonesAt option \<Rightarrow> Round \<Rightarrow> StoreErr + Round \<times> RoundState option" where
  "verify cd st listed zonesAt r =
     (case readRefs cd st (ro_Tick r) (ro_Zones r) (reading0 (ro_Tick r)) of Inl err \<Rightarrow> Inl err
      | Inr g \<Rightarrow>
          let present = map zr_Zone (ro_Zones r) in
          (case ownedZones zonesAt listed (ro_Tick r) (rd_Content (rg_state g)) present of Inl err \<Rightarrow> Inl err
           | Inr (owned, contentProblems) \<Rightarrow>
               let problems = objectProblems (rg_refs g) @ duplicateProblems present @ contentProblems @ missingProblems owned present;
                   r1 = r\<lparr>ro_Zones := rg_refs g, ro_TakenAt := (if rg_TakenAt g > ro_TakenAt r then rg_TakenAt g else ro_TakenAt r)\<rparr>
               in case problems of
                    [] \<Rightarrow> if ro_Zones r = [] then Inr (r1\<lparr>ro_Complete := False\<rparr>, None) else Inr (r1\<lparr>ro_Complete := True\<rparr>, Some (rg_state g))
                  | p # _ \<Rightarrow> Inr (r1\<lparr>ro_Complete := False, ro_Cause := pb_cause p, ro_CauseZones := pb_zones p, ro_Err := pb_err p\<rparr>, None)))"

section \<open>Choosing a round\<close>

datatype SelectError = SelectStore StoreErr | SelectContent RoundErr | ErrRoundIncomplete u64 string "ZoneID list" | SelectVersion u32 u32

fun newestOf :: "codec \<Rightarrow> WorldStore \<Rightarrow> ZoneID list \<Rightarrow> ZonesAt option \<Rightarrow> Round list \<Rightarrow> SelectError + (Round \<times> RoundState) option" where
  "newestOf cd st listed zonesAt [] = Inr None"
| "newestOf cd st listed zonesAt (r # rs) =
     (case verify cd st listed zonesAt r of Inl err \<Rightarrow> Inl (SelectStore err)
      | Inr (r', state) \<Rightarrow>
          if ro_Cause r' = ''content'' then Inl (SelectContent (the (ro_Err r')))
          else case state of Some s \<Rightarrow> Inr (Some (r', s)) | None \<Rightarrow> newestOf cd st listed zonesAt rs)"

definition NewestComplete :: "codec \<Rightarrow> WorldStore \<Rightarrow> ZoneID list \<Rightarrow> ZonesAt option \<Rightarrow> SelectError + (Round \<times> RoundState) option" where
  "NewestComplete cd st listed zonesAt = (case discover st listed of Inl err \<Rightarrow> Inl (SelectStore err) | Inr rounds \<Rightarrow> newestOf cd st listed zonesAt rounds)"

text \<open>The Round is returned beside the error, the zero Round where the code returns none.\<close>

definition zero_round :: Round where
  "zero_round = \<lparr>ro_Tick = 0, ro_StateVersion = 0, ro_Zones = [], ro_Complete = False, ro_Cause = '''', ro_CauseZones = [], ro_Err = None,
     ro_TakenAt = 0, ro_Tags = [], ro_Tagged = False\<rparr>"

definition RoundAt :: "codec \<Rightarrow> WorldStore \<Rightarrow> ZoneID list \<Rightarrow> ZonesAt option \<Rightarrow> u64 \<Rightarrow> Round \<times> (SelectError + RoundState)" where
  "RoundAt cd st listed zonesAt tick =
     (case discover st listed of Inl err \<Rightarrow> (zero_round, Inl (SelectStore err))
      | Inr rounds \<Rightarrow>
          let group = filter (\<lambda>r. ro_Tick r = tick) rounds in
          if group = [] then (zero_round\<lparr>ro_Tick := tick\<rparr>, Inl (ErrRoundIncomplete tick ''missing'' listed))
          else case find (\<lambda>r. ro_StateVersion r \<le> StateVersion) group of
            None \<Rightarrow> (hd group, Inl (SelectVersion (ro_StateVersion (hd group)) StateVersion))
          | Some r \<Rightarrow>
              (case verify cd st listed zonesAt r of Inl err \<Rightarrow> (zero_round, Inl (SelectStore err))
               | Inr (r', state) \<Rightarrow>
                   if ro_Cause r' = ''content'' then (r', Inl (SelectContent (the (ro_Err r'))))
                   else case state of None \<Rightarrow> (r', Inl (ErrRoundIncomplete tick (ro_Cause r') (ro_CauseZones r'))) | Some s \<Rightarrow> (r', Inr s)))"

definition StateVersionOf :: "WorldStore \<Rightarrow> ZoneID list \<Rightarrow> StoreErr + u32" where
  "StateVersionOf st listed = map_sum (\<lambda>x. x) (\<lambda>rounds. foldl (\<lambda>newest r. max newest (ro_StateVersion r)) 0 rounds) (discover st listed)"

section \<open>Migration\<close>

text \<open>
  A body is carried forward through every version in between, in order and none skipped, or not
  at all: a migration to a version beyond an intermediate one is the migration to the intermediate
  one followed by the rest, a step that is missing is an error, and a body of the target version
  is left as it is.
\<close>
theorem Migrate_in_steps:
  assumes "from \<noteq> 0" "from \<le> mid" "mid \<le> to"
  shows "Migrate migs body from to = (case Migrate migs body from mid of Inl err \<Rightarrow> Inl err | Inr body' \<Rightarrow> Migrate migs body' mid to)
    \<and> Migrate migs body to to = Inr body
    \<and> (from < to \<and> fmlookup migs from = None \<longrightarrow> Migrate migs body from to = Inl (NoMigration from))"
proof -
  have split: "migrateFrom migs (m + n) v b = (case migrateFrom migs m v b of Inl err \<Rightarrow> Inl err | Inr b' \<Rightarrow> migrateFrom migs n (v + of_nat m) b')" for m n v b
  proof (induction m arbitrary: v b)
    case (Suc m)
    have "v + of_nat (Suc m) = (v + 1) + of_nat m" by simp
    then show ?case using Suc.IH[of "v + 1"] by (simp add: add.assoc split: option.split sum.split)
  qed simp
  have le: "unat from \<le> unat mid" "unat mid \<le> unat to" using assms by (simp_all add: word_le_nat_alt)
  have nz: "mid \<noteq> 0" "to \<noteq> 0" using assms by auto
  have v: "from + of_nat (unat mid - unat from) = mid" using le(1) by (simp add: of_nat_diff)
  have "unat to - unat from = (unat mid - unat from) + (unat to - unat mid)" using le by simp
  then have "Migrate migs body from to = (case Migrate migs body from mid of Inl err \<Rightarrow> Inl err | Inr body' \<Rightarrow> Migrate migs body' mid to)"
    using split[of "unat mid - unat from" "unat to - unat mid" "from" body] assms(1) nz(1)
    unfolding v by (simp add: Migrate_def cong: sum.case_cong)
  moreover have "Migrate migs body from to = Inl (NoMigration from)" if "from < to" "fmlookup migs from = None"
  proof -
    obtain n where "unat to - unat from = Suc n" using \<open>from < to\<close> by (metis Suc_diff_Suc word_less_nat_alt)
    then show ?thesis using that(2) assms(1) by (simp add: Migrate_def)
  qed
  ultimately show ?thesis using nz(2) by (simp add: Migrate_def)
qed

theorem Migrate_in_steps_witness:
  "Migrate fmempty (sample_body []) 1 3 = Inl (NoMigration 1)"
  using conjunct2[OF conjunct2[OF Migrate_in_steps[of 1 1 3 fmempty "sample_body []"]]] by simp

section \<open>A hash-valid object\<close>

lemma readVerified_Inr:
  assumes "readVerified cd raw StateVersion True = Inr (env, body)"
  shows "unmarshalEnvelope cd raw = Some env \<and> unmarshalBody cd (pse_Body env) = Some body \<and> pse_StateVersion env = StateVersion
    \<and> BodyStateHash body = Inr (pse_StateHash env)"
proof -
  from assms obtain b where e: "unmarshalEnvelope cd raw = Some env" "pse_StateVersion env \<le> 1" "unmarshalBody cd (pse_Body env) = Some b"
    "hashAt b (pse_StateVersion env) 1 = Inr (pse_StateHash env)" "Migrate migrations b (pse_StateVersion env) 1 = Inr body"
    by (auto simp: readVerified_def StateVersion_def Let_def split: option.splits sum.splits if_splits)
  have v: "pse_StateVersion env = 1"
    using e(4) by (auto simp: hashAt_def hashers_def split: if_splits)
  then have "body = b" using e(5) by (simp add: Migrate_def)
  then show ?thesis using e v by (auto simp: hashAt_def StateVersion_def split: sum.splits)
qed

section \<open>A complete round is one cut\<close>

text \<open>The object behind a reference, and what it shares with the round.\<close>

definition agrees :: "codec \<Rightarrow> WorldStore \<Rightarrow> RoundState \<Rightarrow> ZoneSnapshotRef \<Rightarrow> ZoneState \<Rightarrow> bool" where
  "agrees cd st s ref z \<longleftrightarrow> (\<exists>raw env body. ws_Get st (zr_Key ref) = Inr raw \<and> readVerified cd raw StateVersion True = Inr (env, body)
     \<and> z = ZoneStateFromProto body \<and> zs_ID z = zr_Zone ref \<and> pse_Tick env = rd_Tick s \<and> DecodePRNG (pzs_PrngState body) = Inr (rd_PRNG s)
     \<and> pzs_NextEventId body = rd_NextEventID s \<and> pse_SimSeed env = rd_SimSeed s \<and> sort_key po_Partition (pse_Offsets env) = rd_Offsets s
     \<and> (pse_Content env \<noteq> [] \<longrightarrow> sameContent (fill (pse_Content env)) (pse_ContentDigest env) (rd_Content s) (rd_ContentDigest s)))"

lemma agrees_Zones [simp]: "agrees cd st (s\<lparr>rd_Zones := zs\<rparr>) = agrees cd st s"
  by (intro ext) (simp add: agrees_def)

lemma sameContent_refl: "sameContent a d a d"
  by (auto simp: sameContent_def list_all_iff set_entries)

lemma fill_empty_iff: "fill xs = fmempty \<longleftrightarrow> xs = []"
proof
  assume "fill xs = fmempty"
  then have "fmlookup (fmap_of_list (rev xs)) k = None" for k by (simp add: fill_def)
  then have "map_of (rev xs) k = None" for k by (simp add: fmap_of_list.rep_eq)
  then show "xs = []" by (metis ext empty_eq_map_of_iff rev_is_Nil_conv)
qed (simp add: fill_def)

text \<open>What has been read so far.\<close>

definition reading_ok :: "codec \<Rightarrow> WorldStore \<Rightarrow> u64 \<Rightarrow> ZoneSnapshotRef list \<Rightarrow> reading \<Rightarrow> bool" where
  "reading_ok cd st tick refs g \<longleftrightarrow> rd_Tick (rg_state g) = tick \<and> map zr_Zone (rg_refs g) = map zr_Zone refs \<and> map zr_Key (rg_refs g) = map zr_Key refs
     \<and> list_all2 (agrees cd st (rg_state g)) (filter zr_Valid (rg_refs g)) (rd_Zones (rg_state g))
     \<and> (rg_first g \<longrightarrow> rd_Zones (rg_state g) = [])"

lemma reading_invalid:
  "reading_ok cd st tick refs g \<Longrightarrow> zr_Zone r' = zr_Zone r \<Longrightarrow> zr_Key r' = zr_Key r \<Longrightarrow> \<not> zr_Valid r' \<Longrightarrow>
   reading_ok cd st tick (refs @ [r]) (invalid cause r' g)"
  by (simp add: reading_ok_def invalid_def)

lemma reading_admit:
  assumes g: "reading_ok cd st tick refs g" and r: "zr_Zone r' = zr_Zone r" "zr_Key r' = zr_Key r" "\<not> zr_Valid r'"
    and o: "ws_Get st (zr_Key r) = Inr raw" "readVerified cd raw StateVersion True = Inr (env, body)" "zs_ID (ZoneStateFromProto body) = zr_Zone r"
      "pse_Tick env = tick" "DecodePRNG (pzs_PrngState body) = Inr prng"
  shows "reading_ok cd st tick (refs @ [r]) (admit r' env body prng g)"
proof (cases "rg_first g")
  case True
  define s1 where "s1 = (let st1 = (rg_state g)\<lparr>rd_PRNG := prng, rd_NextEventID := pzs_NextEventId body, rd_Offsets := sort_key po_Partition (pse_Offsets env), rd_SimSeed := pse_SimSeed env\<rparr>
    in if fill (pse_Content env) \<noteq> fmempty then st1\<lparr>rd_Content := fill (pse_Content env), rd_ContentDigest := pse_ContentDigest env\<rparr> else st1)"
  have a: "admit r' env body prng g = g\<lparr>rg_state := s1\<lparr>rd_Zones := rd_Zones s1 @ [ZoneStateFromProto body]\<rparr>, rg_first := False, rg_refs := rg_refs g @ [r'\<lparr>zr_Valid := True\<rparr>]\<rparr>"
    using True by (simp add: admit_def s1_def Let_def)
  have s: "rd_Zones s1 = []" "rd_Tick s1 = tick" using g True by (simp_all add: s1_def Let_def reading_ok_def)
  moreover have "agrees cd st s1 (r'\<lparr>zr_Valid := True\<rparr>) (ZoneStateFromProto body)"
    unfolding agrees_def using o r s(2)
    by (intro exI[of _ raw] exI[of _ env] exI[of _ body]) (simp add: s1_def Let_def fill_empty_iff sameContent_refl)
  moreover have "filter zr_Valid (rg_refs g) = []" using g True by (auto simp: reading_ok_def)
  ultimately show ?thesis unfolding a using g r by (simp add: reading_ok_def)
next
  case False
  let ?ok = "sameContent (fill (pse_Content env)) (pse_ContentDigest env) (rd_Content (rg_state g)) (rd_ContentDigest (rg_state g))
    \<and> prng = rd_PRNG (rg_state g) \<and> pzs_NextEventId body = rd_NextEventID (rg_state g) \<and> pse_SimSeed env = rd_SimSeed (rg_state g)
    \<and> sort_key po_Partition (pse_Offsets env) = rd_Offsets (rg_state g)"
  show ?thesis
  proof (cases ?ok)
    case ok: True
    then have a: "admit r' env body prng g = g\<lparr>rg_state := (rg_state g)\<lparr>rd_Zones := rd_Zones (rg_state g) @ [ZoneStateFromProto body]\<rparr>, rg_first := False, rg_refs := rg_refs g @ [r'\<lparr>zr_Valid := True\<rparr>]\<rparr>"
      using False by (simp add: admit_def Let_def)
    have "agrees cd st (rg_state g) (r'\<lparr>zr_Valid := True\<rparr>) (ZoneStateFromProto body)"
      unfolding agrees_def using ok o r g by (intro exI[of _ raw] exI[of _ env] exI[of _ body]) (simp add: reading_ok_def)
    then show ?thesis unfolding a using g r by (simp add: reading_ok_def list_all2_appendI)
  next
    case bad: False
    then have "admit r' env body prng g = invalid ''disagree'' r' g" using False unfolding admit_def Let_def by auto
    then show ?thesis using reading_invalid[OF g r] by simp
  qed
qed

lemma reading_TakenAt [simp]: "reading_ok cd st tick refs (g\<lparr>rg_TakenAt := t\<rparr>) = reading_ok cd st tick refs g"
  by (simp add: reading_ok_def)

lemma reading_readRef:
  assumes "reading_ok cd st tick refs g" "readRef cd st tick r g = Inr g'" "\<not> zr_Valid r"
  shows "reading_ok cd st tick (refs @ [r]) g'"
proof (cases "ws_Get st (zr_Key r)")
  case (Inl err)
  then show ?thesis using assms reading_invalid[OF assms(1) refl refl assms(3)] by (cases err) (auto simp: readRef_def)
next
  case (Inr raw)
  note inv = reading_invalid[of cd st tick refs _ "r\<lparr>zr_Bytes := length raw\<rparr>" r, simplified]
  show ?thesis
  proof (cases "readVerified cd raw StateVersion True")
    case (Inl err)
    then show ?thesis using assms inv Inr by (auto simp: readRef_def Let_def)
  next
    case ok: (Inr eb)
    obtain env body where eb: "eb = (env, body)" by (metis surj_pair)
    define g1 where "g1 = g\<lparr>rg_TakenAt := (if pse_TakenAtUnixNano env > rg_TakenAt g then pse_TakenAtUnixNano env else rg_TakenAt g)\<rparr>"
    have g1: "reading_ok cd st tick refs g1" using assms(1) by (simp add: g1_def)
    have e: "readRef cd st tick r g = (if zs_ID (ZoneStateFromProto body) \<noteq> zr_Zone r \<or> pse_Tick env \<noteq> tick then Inr (invalid ''hash'' (r\<lparr>zr_Bytes := length raw\<rparr>) g1)
        else (case DecodePRNG (pzs_PrngState body) of Inl _ \<Rightarrow> Inr (invalid ''hash'' (r\<lparr>zr_Bytes := length raw\<rparr>) g1)
          | Inr prng \<Rightarrow> Inr (admit (r\<lparr>zr_Bytes := length raw\<rparr>) env body prng g1)))"
      unfolding readRef_def Inr ok eb Let_def sum.case prod.case g1_def[symmetric] by simp
    show ?thesis
    proof (cases "zs_ID (ZoneStateFromProto body) \<noteq> zr_Zone r \<or> pse_Tick env \<noteq> tick")
      case True
      then show ?thesis using inv[OF g1, of "''hash''"] assms(2,3) e by auto
    next
      case False
      then show ?thesis using inv[OF g1, of "''hash''"] reading_admit[OF g1 _ _ _ Inr ok[unfolded eb], of "r\<lparr>zr_Bytes := length raw\<rparr>"] assms(2,3) e by (cases "DecodePRNG (pzs_PrngState body)") auto
    qed
  qed
qed

lemma reading_readRefs:
  "reading_ok cd st tick refs g \<Longrightarrow> readRefs cd st tick rs g = Inr g' \<Longrightarrow> \<forall>r \<in> set rs. \<not> zr_Valid r \<Longrightarrow> reading_ok cd st tick (refs @ rs) g'"
proof (induction rs arbitrary: refs g)
  case (Cons r rs)
  then obtain g1 where g1: "readRef cd st tick r g = Inr g1" "readRefs cd st tick rs g1 = Inr g'" by (auto split: sum.splits)
  have "reading_ok cd st tick (refs @ [r]) g1" using reading_readRef[OF Cons.prems(1) g1(1)] Cons.prems(3) by simp
  from Cons.IH[OF this g1(2)] Cons.prems(3) show ?case by simp
qed simp

lemma reading_ok0: "reading_ok cd st tick [] (reading0 tick)"
  by (simp add: reading_ok_def reading0_def)

lemma distinct_counts: "distinct xs \<longleftrightarrow> (\<forall>x \<in> set xs. count_list xs x \<le> 1)"
proof (induction xs)
  case (Cons a xs)
  then show ?case by (auto simp: count_list_0_iff)
qed simp

lemma problems_Nil:
  "objectProblems refs = [] \<longleftrightarrow> (\<forall>r \<in> set refs. zr_Valid r)"
  "duplicateProblems present = [] \<longleftrightarrow> distinct present"
  "missingProblems owned present = [] \<longleftrightarrow> set owned \<subseteq> set present"
proof -
  show "duplicateProblems present = [] \<longleftrightarrow> distinct present"
    unfolding duplicateProblems_def by (simp add: filter_empty_conv distinct_counts not_less)
qed (auto simp: objectProblems_def missingProblems_def Let_def filter_empty_conv)

lemma list_all2_zones: "list_all2 (agrees cd st s) refs zs \<Longrightarrow> map zs_ID zs = map zr_Zone refs"
  by (induction refs zs rule: list_all2_induct) (auto simp: agrees_def)

text \<open>One consistent cut of the Zones the round must hold.\<close>

definition one_cut :: "codec \<Rightarrow> WorldStore \<Rightarrow> ZoneID list \<Rightarrow> ZonesAt option \<Rightarrow> Round \<Rightarrow> RoundState \<Rightarrow> bool" where
  "one_cut cd st listed zonesAt r s \<longleftrightarrow> ro_Zones r \<noteq> [] \<and> rd_Tick s = ro_Tick r \<and> rd_StateVersion s = StateVersion
     \<and> list_all2 (agrees cd st s) (ro_Zones r) (rd_Zones s) \<and> distinct (map zs_ID (rd_Zones s))
     \<and> (\<exists>owned. ownedZones zonesAt listed (ro_Tick r) (rd_Content s) (map zs_ID (rd_Zones s)) = Inr (owned, []) \<and> set owned \<subseteq> set (map zs_ID (rd_Zones s)))"

lemma verify_one_cut:
  assumes "verify cd st listed zonesAt r = Inr (r', Some s)" "\<forall>x \<in> set (ro_Zones r). \<not> zr_Valid x"
  shows "one_cut cd st listed zonesAt r' s" "ro_Tick r' = ro_Tick r" "map zr_Key (ro_Zones r') = map zr_Key (ro_Zones r)"
proof -
  obtain g where g: "readRefs cd st (ro_Tick r) (ro_Zones r) (reading0 (ro_Tick r)) = Inr g"
    using assms(1) by (auto simp: verify_def split: sum.splits)
  note ok = reading_readRefs[OF reading_ok0 g assms(2), simplified]
  let ?present = "map zr_Zone (ro_Zones r)"
  obtain owned cps where o: "ownedZones zonesAt listed (ro_Tick r) (rd_Content (rg_state g)) ?present = Inr (owned, cps)"
    using assms(1) by (auto simp: verify_def g Let_def split: sum.splits prod.splits)
  have none: "objectProblems (rg_refs g) @ duplicateProblems ?present @ cps @ missingProblems owned ?present = []" and ne: "ro_Zones r \<noteq> []"
    and s: "s = rg_state g" and r': "r' = r\<lparr>ro_Zones := rg_refs g, ro_TakenAt := (if rg_TakenAt g > ro_TakenAt r then rg_TakenAt g else ro_TakenAt r), ro_Complete := True\<rparr>"
    using assms(1) by (auto simp: verify_def g o Let_def split: list.splits if_splits)
  have valid: "filter zr_Valid (rg_refs g) = rg_refs g" "distinct ?present" "set owned \<subseteq> set ?present" "cps = []"
    using none by (auto simp: problems_Nil)
  have all2: "list_all2 (agrees cd st s) (rg_refs g) (rd_Zones s)" "map zr_Zone (rg_refs g) = ?present" "rd_Tick s = ro_Tick r" "map zr_Key (rg_refs g) = map zr_Key (ro_Zones r)"
    using ok valid(1) s by (simp_all add: reading_ok_def)
  have ids: "map zs_ID (rd_Zones s) = ?present" using list_all2_zones[OF all2(1)] all2(2) by simp
  have ver: "rd_StateVersion (rg_state g) = StateVersion"
  proof -
    have adm: "rd_StateVersion (rg_state (admit x env body prng h)) = rd_StateVersion (rg_state h)" for x env body prng h
      by (simp add: admit_def Let_def invalid_def)
    have one: "rd_StateVersion (rg_state h') = rd_StateVersion (rg_state h)" if "readRef cd st t x h = Inr h'" for x t h h'
      using that by (auto simp: readRef_def Let_def adm invalid_def split: sum.splits GetError.splits if_splits prod.splits)
    have "readRefs cd st t xs h = Inr h' \<Longrightarrow> rd_StateVersion (rg_state h') = rd_StateVersion (rg_state h)" for xs t h h'
      by (induction xs arbitrary: h) (auto dest: one split: sum.splits)
    from this[OF g] show ?thesis by (simp add: reading0_def)
  qed
  have "rg_refs g \<noteq> []" using all2(2) ne by auto
  then show "one_cut cd st listed zonesAt r' s" using all2 ids valid o s ver by (simp add: one_cut_def r')
  show "ro_Tick r' = ro_Tick r" "map zr_Key (ro_Zones r') = map zr_Key (ro_Zones r)" using all2(4) by (simp_all add: r')
qed

lemma newestOf_one_cut:
  "newestOf cd st listed zonesAt rs = Inr (Some (r', s)) \<Longrightarrow> \<forall>r \<in> set rs. \<forall>x \<in> set (ro_Zones r). \<not> zr_Valid x \<Longrightarrow>
   one_cut cd st listed zonesAt r' s \<and> (\<exists>r \<in> set rs. ro_Tick r' = ro_Tick r \<and> map zr_Key (ro_Zones r') = map zr_Key (ro_Zones r))"
proof (induction rs)
  case (Cons r rs)
  then obtain r1 state where v: "verify cd st listed zonesAt r = Inr (r1, state)" by (auto split: sum.splits)
  show ?case
  proof (cases state)
    case None
    then show ?thesis using Cons v by (auto split: if_splits)
  next
    case (Some s1)
    then have "r1 = r'" "s1 = s" using Cons.prems(1) v by (auto split: if_splits)
    then show ?thesis using verify_one_cut[of cd st listed zonesAt r r' s] v Some Cons.prems(2) by auto
  qed
qed simp

lemma discover_fresh:
  assumes "discover st listed = Inr rounds" "r \<in> set rounds" "x \<in> set (ro_Zones r)"
  shows "\<not> zr_Valid x"
proof -
  have f: "listAll st zs = Inr found \<Longrightarrow> y \<in> snd ` set found \<Longrightarrow> \<not> zr_Valid y" for zs found y
  proof (induction zs arbitrary: found)
    case (Cons z zs)
    then obtain ks rest where "found = concat (map (foundRef z) ks) @ rest" "listAll st zs = Inr rest"
      by (cases "listAll st zs") (auto split: sum.splits)
    then show ?case using Cons by (force simp: foundRef_def split: option.splits if_splits)
  qed simp
  obtain found where l: "listAll st listed = Inr found" using assms(1) by (cases "listAll st listed") (auto simp: discover_def)
  have "x \<in> snd ` set found" using assms by (auto simp: discover_def l round_at_def rev_image_eqI)
  then show ?thesis by (rule f[OF l])
qed

text \<open>
  C11. A round that is chosen is one consistent cut: it has exactly one object for every Zone it must
  hold, each present and accepted under the hash its envelope carries, all of one tick, and all
  agreeing on the generator, the next Event ID, the seed and the partition offsets. Two cuts are
  never assembled into one, and a Zone is never missing or doubled.
\<close>
theorem NewestComplete_is_one_cut:
  assumes "NewestComplete cd st listed zonesAt = Inr (Some (r, s))"
  shows "one_cut cd st listed zonesAt r s
    \<and> (\<forall>x z. (x, z) \<in> set (zip (ro_Zones r) (rd_Zones s)) \<longrightarrow> (\<exists>raw env body. ws_Get st (zr_Key x) = Inr raw \<and> unmarshalEnvelope cd raw = Some env
         \<and> unmarshalBody cd (pse_Body env) = Some body \<and> BodyStateHash body = Inr (pse_StateHash env) \<and> z = ZoneStateFromProto body))"
proof -
  obtain rounds where d: "discover st listed = Inr rounds" "newestOf cd st listed zonesAt rounds = Inr (Some (r, s))"
    using assms by (auto simp: NewestComplete_def split: sum.splits)
  have one: "one_cut cd st listed zonesAt r s" using newestOf_one_cut[OF d(2)] discover_fresh[OF d(1)] by blast
  have "\<exists>raw env body. ws_Get st (zr_Key x) = Inr raw \<and> unmarshalEnvelope cd raw = Some env
         \<and> unmarshalBody cd (pse_Body env) = Some body \<and> BodyStateHash body = Inr (pse_StateHash env) \<and> z = ZoneStateFromProto body"
    if "(x, z) \<in> set (zip (ro_Zones r) (rd_Zones s))" for x z
  proof -
    have "agrees cd st s x z" using one that by (auto simp: one_cut_def list_all2_iff)
    then show ?thesis using readVerified_Inr by (fastforce simp: agrees_def)
  qed
  then show ?thesis using one by blast
qed

section \<open>A stored cut is found\<close>

text \<open>
  The store after a round was written: under each Zone the key of its snapshot, before older ones
  if any, and at the key the encoded snapshot; the decoder reads back what was encoded.
\<close>

definition stored_round :: "codec \<Rightarrow> (pb_ZoneState \<Rightarrow> string + bytes) \<Rightarrow> (pb_SnapshotEnvelope \<Rightarrow> string + bytes) \<Rightarrow> WorldStore \<Rightarrow> Engine \<Rightarrow> int \<Rightarrow> bool" where
  "stored_round cd marshalBody marshalEnvelope st e takenAt \<longleftrightarrow>
     (\<forall>zid \<in> fmdom' (ws_Zones (en_state e)). \<exists>raw body older. let s = snapshot_of e takenAt zid in
        Encode marshalBody marshalEnvelope s = Inr raw \<and> ws_Get st (Key s) = Inr raw \<and> ws_List st zid = Inr (Key s # older)
        \<and> list_all (\<lambda>k. case ParseSnapshotKey k of None \<Rightarrow> True | Some (_, _, t, _) \<Rightarrow> t < ws_Tick (en_state e)) older
        \<and> marshalBody (BodyProto s) = Inr body \<and> unmarshalBody cd body = Some (BodyProto s)
        \<and> unmarshalEnvelope cd raw = Some (envelope_of s body))"

definition storable_keys :: "Engine \<Rightarrow> bool" where
  "storable_keys e \<longleftrightarrow> list_all (\<lambda>zid. CHR ''/'' \<notin> set zid) (keys (ws_Zones (en_state e)))
     \<and> list_all (\<lambda>(p, off). - (2 ^ 63) \<le> off \<and> off < 2 ^ 63) (entries (ws_Offsets (en_state e))) \<and> ws_Zones (en_state e) \<noteq> fmempty"

lemma keys_not_Nil: "m \<noteq> fmempty \<Longrightarrow> keys m \<noteq> []"
  by (metis entries_fmempty entries_inject entries_keys map_is_Nil_conv)

lemma sorted_offsets: "sort_key po_Partition (offsets_of m) = offsets_of m"
  by (rule sort_key_id_if_sorted) (simp add: partitions_of_offsets)

lemma read_stored:
  assumes "orderly (e, msgs)" "unmarshalBody cd body = Some (BodyProto (snapshot_of e t zid))" "unmarshalEnvelope cd raw = Some (envelope_of (snapshot_of e t zid) body)"
  shows "readVerified cd raw StateVersion True = Inr (envelope_of (snapshot_of e t zid) body, BodyProto (snapshot_of e t zid))"
proof -
  let ?s = "snapshot_of e t zid"
  have v: "ws_Version (en_state e) = StateVersion" using orderly_storable[OF assms(1)] by (simp add: storable_system_def)
  have h: "BodyStateHash (BodyProto ?s) = Inr (Snapshot_StateHash ?s)"
    using BodyStateHash_BodyProto[of ?s] orderly_zone(1,2)[OF assms(1), of zid] by simp
  have e: "pse_StateVersion (envelope_of ?s body) = 1" "pse_Body (envelope_of ?s body) = body" "pse_StateHash (envelope_of ?s body) = Snapshot_StateHash ?s"
    using v by (simp_all add: envelope_of_def StateVersion_def)
  show ?thesis using assms(2,3) h by (simp add: readVerified_def Let_def e hashAt_def StateVersion_def Migrate_def)
qed

lemma Key_parses:
  assumes "orderly (e, msgs)" "storable_keys e" "zid \<in> fmdom' (ws_Zones (en_state e))"
  shows "\<exists>off. ParseSnapshotKey (Key (snapshot_of e t zid)) = Some (zid, StateVersion, ws_Tick (en_state e), off)"
proof -
  let ?s = "snapshot_of e t zid"
  have "zid |\<in>| fmdom (w_Zones (en_world e))" using assms(1,3) orderly_wf[of e msgs] by (simp add: wf_engine_def fmdom'_alt_def)
  moreover have "wf_world (en_world e)" using orderly_wf[OF assms(1)] by (simp add: wf_engine_def)
  ultimately have ne: "zid \<noteq> ''''" by (auto simp: wf_world_def wf_zone_def fmpred_iff fmlookup_dom_iff)
  have sl: "CHR ''/'' \<notin> set zid" using assms(2,3) by (simp add: storable_keys_def list_all_iff)
  define off where "off = po_Offset (fst (Snapshot_PartitionOf ?s))"
  have "- (2 ^ 63) \<le> off \<and> off < 2 ^ 63"
  proof (cases "find (\<lambda>po. po_Partition po = PartitionFor (sn_Zone ?s)) (sn_Offsets ?s)")
    case None
    then show ?thesis by (simp add: off_def Snapshot_PartitionOf_def)
  next
    case (Some po)
    then have "po \<in> set (offsets_of (ws_Offsets (en_state e)))" by (auto simp: find_Some_iff)
    then show ?thesis using Some assms(2) by (auto simp: off_def Snapshot_PartitionOf_def offsets_of_def storable_keys_def list_all_iff)
  qed
  moreover have "zs_ID (zone_of (en_state e) zid) = zid" using orderly_zone(3)[OF assms(1), of zid] by (simp add: keyed_zone_def)
  moreover have "ws_Version (en_state e) = StateVersion" using orderly_storable[OF assms(1)] by (simp add: storable_system_def)
  ultimately show ?thesis using parse_key[of off zid StateVersion "ws_Tick (en_state e)"] ne sl by (simp add: Key_def off_def)
qed

text \<open>The reference to a stored snapshot, as the listing finds it.\<close>

definition ref_of :: "Engine \<Rightarrow> int \<Rightarrow> ZoneID \<Rightarrow> ZoneSnapshotRef" where
  "ref_of e t zid = \<lparr>zr_Zone = zid, zr_Key = Key (snapshot_of e t zid), zr_Offset = (case ParseSnapshotKey (Key (snapshot_of e t zid)) of Some (_, _, _, off) \<Rightarrow> off | None \<Rightarrow> 0),
     zr_Bytes = 0, zr_Valid = False, zr_Cause = ''''\<rparr>"

abbreviation newest_key :: "Engine \<Rightarrow> u64 \<times> u32" where
  "newest_key e \<equiv> (ws_Tick (en_state e), StateVersion)"

lemma foundRef_older:
  "list_all (\<lambda>k. case ParseSnapshotKey k of None \<Rightarrow> True | Some (_, _, t, _) \<Rightarrow> t < T) ks \<Longrightarrow> x \<in> set (concat (map (foundRef z) ks)) \<Longrightarrow> fst (fst x) < T"
proof -
  assume ks: "list_all (\<lambda>k. case ParseSnapshotKey k of None \<Rightarrow> True | Some (_, _, t, _) \<Rightarrow> t < T) ks" and x: "x \<in> set (concat (map (foundRef z) ks))"
  then obtain k where k: "k \<in> set ks" "x \<in> set (foundRef z k)" by auto
  have "case ParseSnapshotKey k of None \<Rightarrow> True | Some (_, _, t, _) \<Rightarrow> t < T" using ks k(1) by (simp add: list_all_iff)
  then show ?thesis using k(2) by (auto simp: foundRef_def split: option.splits if_splits)
qed

lemma listAll_stored:
  assumes "orderly (e, msgs)" "storable_keys e" "stored_round cd mb me st e t" "set zids \<subseteq> fmdom' (ws_Zones (en_state e))"
  shows "\<exists>found. listAll st zids = Inr found \<and> map snd (filter (\<lambda>x. fst x = newest_key e) found) = map (ref_of e t) zids
    \<and> (\<forall>x \<in> set found. fst x = newest_key e \<or> fst (fst x) < ws_Tick (en_state e))"
  using assms(4)
proof (induction zids)
  case (Cons z zids)
  let ?T = "ws_Tick (en_state e)" and ?k = "Key (snapshot_of e t z)"
  obtain found where f: "listAll st zids = Inr found" "map snd (filter (\<lambda>x. fst x = newest_key e) found) = map (ref_of e t) zids"
    "\<forall>x \<in> set found. fst x = newest_key e \<or> fst (fst x) < ?T" using Cons by auto
  obtain older where o: "ws_List st z = Inr (?k # older)" "list_all (\<lambda>k. case ParseSnapshotKey k of None \<Rightarrow> True | Some (_, _, t, _) \<Rightarrow> t < ?T) older"
    using assms(3) Cons.prems unfolding stored_round_def Let_def by auto
  obtain off where p: "ParseSnapshotKey ?k = Some (z, StateVersion, ?T, off)" using Key_parses[OF assms(1,2), of z t] Cons.prems by auto
  have k: "foundRef z ?k = [(newest_key e, ref_of e t z)]" by (simp add: foundRef_def p ref_of_def)
  have old: "fst (fst x) < ?T" if "x \<in> set (concat (map (foundRef z) older))" for x using foundRef_older[OF o(2) that] .
  then have "filter (\<lambda>x. fst x = newest_key e) (concat (map (foundRef z) older)) = []" by (fastforce simp: filter_empty_conv)
  moreover have "listAll st (z # zids) = Inr (foundRef z ?k @ concat (map (foundRef z) older) @ found)" using o(1) f(1) by simp
  moreover have "fst x = newest_key e \<or> fst (fst x) < ?T" if "x \<in> set (foundRef z ?k @ concat (map (foundRef z) older) @ found)" for x
    using that old[of x] f(3) unfolding k by (simp only: set_append Un_iff list.set insert_iff empty_iff) auto
  ultimately show ?case using f(2)
    by (intro exI[of _ "foundRef z ?k @ concat (map (foundRef z) older) @ found"] conjI) (simp_all add: k del: listAll.simps set_concat)
qed simp

lemma sorted_le_last: "sorted xs \<Longrightarrow> x \<in> set xs \<Longrightarrow> x \<le> last (xs :: 'a::linorder list)"
  by (induction xs) auto

lemma rev_sort_top:
  assumes "x \<in> set ys" "\<And>y. y \<in> set ys \<Longrightarrow> y \<le> (x :: 'a::linorder)"
  shows "\<exists>rest. rev (sort ys) = x # rest"
proof -
  have ne: "sort ys \<noteq> []" using assms(1) by (metis empty_iff list.set(1) set_sort)
  have "x \<le> last (sort ys)" using sorted_le_last[of "sort ys" x] assms(1) by simp
  moreover have "last (sort ys) \<le> x" using assms(2)[of "last (sort ys)"] last_in_set[OF ne] by simp
  ultimately have l: "last (sort ys) = x" by simp
  have "rev (butlast (sort ys) @ [last (sort ys)]) = x # rev (butlast (sort ys))" by (simp add: l)
  then show ?thesis unfolding append_butlast_last_id[OF ne] by blast
qed

lemma discover_stored:
  assumes "orderly (e, msgs)" "storable_keys e" "stored_round cd mb me st e t"
  shows "\<exists>r rest. discover st (keys (ws_Zones (en_state e))) = Inr (r # rest) \<and> ro_Tick r = ws_Tick (en_state e)
    \<and> ro_Zones r = map (ref_of e t) (keys (ws_Zones (en_state e))) \<and> ro_Cause r = ''''"
proof -
  let ?zs = "keys (ws_Zones (en_state e))"
  obtain found where f: "listAll st ?zs = Inr found" "map snd (filter (\<lambda>x. fst x = newest_key e) found) = map (ref_of e t) ?zs"
    "\<forall>x \<in> set found. fst x = newest_key e \<or> fst (fst x) < ws_Tick (en_state e)" using listAll_stored[OF assms, of ?zs] by auto
  have "?zs \<noteq> []" using assms(2) keys_not_Nil by (auto simp: storable_keys_def)
  then have "filter (\<lambda>x. fst x = newest_key e) found \<noteq> []" using f(2) by auto
  then have m: "newest_key e \<in> set (remdups (map fst found))" by (auto simp: filter_empty_conv rev_image_eqI)
  have "y \<le> newest_key e" if "y \<in> set (remdups (map fst found))" for y using f(3) that by (auto simp: less_eq_prod_def)
  from rev_sort_top[OF m this] obtain rest where r: "rev (sort (remdups (map fst found))) = newest_key e # rest" by blast
  have "sorted_wrt (\<lambda>x y. (x, zr_Offset (ref_of e t x)) \<le> (y, zr_Offset (ref_of e t y))) ?zs"
    by (rule sorted_wrt_mono_rel[OF _ strict_sorted_keys]) (simp add: less_eq_prod_def)
  then have "sorted (map (\<lambda>r. (zr_Zone r, zr_Offset r)) (map (ref_of e t) ?zs))" by (simp add: sorted_wrt_map comp_def) (simp add: ref_of_def)
  then have "ro_Zones (round_at found (newest_key e)) = map (ref_of e t) ?zs" by (simp add: round_at_def f(2) sort_key_id_if_sorted)
  moreover have "ro_Tick (round_at found (newest_key e)) = ws_Tick (en_state e)" "ro_Cause (round_at found (newest_key e)) = ''''" by (simp_all add: round_at_def)
  ultimately show ?thesis using f(1) r by (auto simp: discover_def)
qed

text \<open>What reading the round of an Engine yields, after some of its Zones.\<close>

definition cut :: "Engine \<Rightarrow> ZoneState list \<Rightarrow> RoundState" where
  "cut e zs = (round_of e)\<lparr>rd_RecordedHash := [], rd_Zones := zs\<rparr>"

definition read_so_far :: "Engine \<Rightarrow> ZoneState list \<Rightarrow> reading \<Rightarrow> bool" where
  "read_so_far e zs g \<longleftrightarrow> (rg_first g \<longleftrightarrow> zs = []) \<and> rg_state g = (if zs = [] then rg_state (reading0 (ws_Tick (en_state e))) else cut e zs)
     \<and> (\<forall>r \<in> set (rg_refs g). zr_Valid r)"

lemma round_of_fields [simp]:
  "rd_Tick (round_of e) = ws_Tick (en_state e)" "rd_StateVersion (round_of e) = ws_Version (en_state e)" "rd_PRNG (round_of e) = ws_RNG (en_state e)"
  "rd_NextEventID (round_of e) = ws_NextEventID (en_state e)" "rd_Offsets (round_of e) = offsets_of (ws_Offsets (en_state e))" "rd_Content (round_of e) = en_versions e"
  "rd_ContentDigest (round_of e) = (if en_versions e = fmempty then [] else en_digest e)" "rd_SimSeed (round_of e) = ws_Seed (en_state e)"
  "rd_RecordedHash (round_of e) = StateHash (en_state e)" "rd_Zones (round_of e) = map (zone_of (en_state e)) (keys (ws_Zones (en_state e)))"
  by (simp_all add: round_of_def Let_def SnapshotAll_def comp_def)

lemma admit_stored:
  assumes "read_so_far e zs g" "ZoneStateFromProto (BodyProto (snapshot_of e t zid)) = z" "ws_Version (en_state e) = StateVersion"
  shows "read_so_far e (zs @ [z]) (admit ref (envelope_of (snapshot_of e t zid) body) (BodyProto (snapshot_of e t zid)) (ws_RNG (en_state e)) g)"
proof -
  let ?env = "envelope_of (snapshot_of e t zid) body" and ?b = "BodyProto (snapshot_of e t zid)"
  have env: "fill (pse_Content ?env) = en_versions e" "sort_key po_Partition (pse_Offsets ?env) = offsets_of (ws_Offsets (en_state e))"
    "pse_ContentDigest ?env = (if en_versions e = fmempty then [] else en_digest e)" "pse_SimSeed ?env = ws_Seed (en_state e)"
    "pzs_NextEventId ?b = ws_NextEventID (en_state e)"
    using fill_entries[of "en_versions e" "\<lambda>x. x"] by (simp_all add: envelope_of_def sorted_offsets BodyProto_def Let_def)
  show ?thesis
  proof (cases "zs = []")
    case True
    then have g: "rg_first g" "rg_state g = rg_state (reading0 (ws_Tick (en_state e)))" "\<forall>r \<in> set (rg_refs g). zr_Valid r"
      using assms(1) by (simp_all add: read_so_far_def)
    then show ?thesis using True assms(2,3) unfolding admit_def Let_def env
      by (cases "round_of e") (auto simp: read_so_far_def cut_def reading0_def round_of_def Let_def)
  next
    case False
    then have g: "\<not> rg_first g" "rg_state g = cut e zs" "\<forall>r \<in> set (rg_refs g). zr_Valid r" using assms(1) by (simp_all add: read_so_far_def)
    then show ?thesis using False assms(2) unfolding admit_def Let_def env
      by (simp add: read_so_far_def cut_def sameContent_refl)
  qed
qed

lemma readRef_stored:
  assumes "orderly (e, msgs)" "stored_round cd mb me st e t" "zid \<in> fmdom' (ws_Zones (en_state e))" "read_so_far e zs g"
  shows "\<exists>g'. readRef cd st (ws_Tick (en_state e)) (ref_of e t zid) g = Inr g' \<and> read_so_far e (zs @ [zone_of (en_state e) zid]) g'"
proof -
  let ?s = "snapshot_of e t zid"
  obtain raw body where r: "ws_Get st (Key ?s) = Inr raw" "unmarshalBody cd body = Some (BodyProto ?s)" "unmarshalEnvelope cd raw = Some (envelope_of ?s body)"
    using assms(2,3) unfolding stored_round_def Let_def by blast
  note rv = read_stored[OF assms(1) r(2,3)]
  have z: "ZoneStateFromProto (BodyProto ?s) = zone_of (en_state e) zid" "zs_ID (zone_of (en_state e) zid) = zid"
    using ZoneStateFromProto_BodyProto[of ?s] orderly_zone[OF assms(1), of zid] by (simp_all add: keyed_zone_def)
  have v: "ws_Version (en_state e) = StateVersion" using orderly_storable[OF assms(1)] by (simp add: storable_system_def)
  define g1 where "g1 = g\<lparr>rg_TakenAt := (if pse_TakenAtUnixNano (envelope_of ?s body) > rg_TakenAt g then pse_TakenAtUnixNano (envelope_of ?s body) else rg_TakenAt g)\<rparr>"
  have g1: "read_so_far e zs g1" using assms(4) by (simp add: g1_def read_so_far_def)
  have p: "DecodePRNG (pzs_PrngState (BodyProto ?s)) = Inr (ws_RNG (en_state e))" "pse_Tick (envelope_of ?s body) = ws_Tick (en_state e)"
    by (simp_all add: BodyProto_def Let_def envelope_of_def)
  have k: "zr_Key (ref_of e t zid) = Key ?s" "zr_Zone (ref_of e t zid) = zid" by (simp_all add: ref_of_def)
  have "readRef cd st (ws_Tick (en_state e)) (ref_of e t zid) g
      = Inr (admit ((ref_of e t zid)\<lparr>zr_Bytes := length raw\<rparr>) (envelope_of ?s body) (BodyProto ?s) (ws_RNG (en_state e)) g1)"
    unfolding readRef_def k r(1) rv Let_def sum.case prod.case g1_def[symmetric] by (simp add: z p k)
  then show ?thesis using admit_stored[OF g1 z(1) v] by blast
qed

lemma readRefs_stored:
  assumes "orderly (e, msgs)" "stored_round cd mb me st e t" "set zids \<subseteq> fmdom' (ws_Zones (en_state e))" "read_so_far e zs g"
  shows "\<exists>g'. readRefs cd st (ws_Tick (en_state e)) (map (ref_of e t) zids) g = Inr g' \<and> read_so_far e (zs @ map (zone_of (en_state e)) zids) g'"
  using assms(3,4)
proof (induction zids arbitrary: zs g)
  case (Cons z zids)
  then obtain g1 where g1: "readRef cd st (ws_Tick (en_state e)) (ref_of e t z) g = Inr g1" "read_so_far e (zs @ [zone_of (en_state e) z]) g1"
    using readRef_stored[OF assms(1,2), of z zs g] by auto
  from Cons.IH[OF _ g1(2)] Cons.prems(1) show ?case by (simp add: g1(1))
qed simp

text \<open>The content's Zones, where they are asked for, are those of the running World.\<close>

definition resolves :: "ZonesAt option \<Rightarrow> Engine \<Rightarrow> bool" where
  "resolves zonesAt e = (case zonesAt of None \<Rightarrow> True | Some at \<Rightarrow> at (en_versions e) = Inr (Some (keys (ws_Zones (en_state e)))))"

lemma NewestComplete_stored:
  assumes "orderly (e, msgs)" "storable_keys e" "stored_round cd mb me st e t" "resolves zonesAt e"
  shows "\<exists>r. NewestComplete cd st (keys (ws_Zones (en_state e))) zonesAt = Inr (Some (r, (round_of e)\<lparr>rd_RecordedHash := []\<rparr>))"
proof -
  let ?zs = "keys (ws_Zones (en_state e))"
  obtain r rest where r: "discover st ?zs = Inr (r # rest)" "ro_Tick r = ws_Tick (en_state e)" "ro_Zones r = map (ref_of e t) ?zs"
    and c: "ro_Cause r = ''''"
    using discover_stored[OF assms(1-3)] by blast
  have ne: "?zs \<noteq> []" using assms(2) keys_not_Nil by (auto simp: storable_keys_def)
  have "read_so_far e [] (reading0 (ws_Tick (en_state e)))" by (simp add: read_so_far_def reading0_def)
  from readRefs_stored[OF assms(1,3) _ this, of ?zs]
  obtain g where g: "readRefs cd st (ro_Tick r) (ro_Zones r) (reading0 (ro_Tick r)) = Inr g" "read_so_far e (map (zone_of (en_state e)) ?zs) g"
    unfolding r(2,3) by auto
  have s: "rg_state g = (round_of e)\<lparr>rd_RecordedHash := []\<rparr>" "\<forall>x \<in> set (rg_refs g). zr_Valid x"
    using g(2) ne by (simp_all add: read_so_far_def cut_def)
  have present: "map zr_Zone (ro_Zones r) = ?zs" by (simp add: r(3) comp_def ref_of_def)
  have "ownedZones zonesAt ?zs (ro_Tick r) (en_versions e) ?zs = Inr (?zs, [])"
    using assms(4) by (auto simp: ownedZones_def resolves_def split: option.splits)
  moreover have "objectProblems (rg_refs g) = []" "duplicateProblems ?zs = []" "missingProblems ?zs ?zs = []" using s(2) by (simp_all add: problems_Nil)
  ultimately have "\<exists>r'. verify cd st ?zs zonesAt r = Inr (r', Some (rg_state g)) \<and> ro_Cause r' = ro_Cause r"
    using ne unfolding verify_def g(1) present sum.case Let_def s(1) by (simp add: r(3))
  then show ?thesis using r(1) c by (auto simp: NewestComplete_def s(1))
qed

lemma stored_restores:
  assumes "orderly (e, msgs)" "storable_keys e" "stored_round cd mb me st e t" "resolves zonesAt e"
    and "EffectiveSeed (cfg_Seed cfg) = ws_Seed (en_state e)" "ws_Seed (en_state e) \<noteq> 0"
  shows "\<exists>r s. NewestComplete cd st (keys (ws_Zones (en_state e))) zonesAt = Inr (Some (r, s))
    \<and> RestoreEngine (en_world e) (en_templates e) cfg (s\<lparr>rd_RecordedHash := StateHash (en_state e)\<rparr>) = Inr (restored e cfg)"
proof -
  obtain r where r: "NewestComplete cd st (keys (ws_Zones (en_state e))) zonesAt = Inr (Some (r, (round_of e)\<lparr>rd_RecordedHash := []\<rparr>))"
    using NewestComplete_stored[OF assms(1-4)] by blast
  have same: "(round_of e)\<lparr>rd_RecordedHash := []\<rparr>\<lparr>rd_RecordedHash := StateHash (en_state e)\<rparr> = round_of e"
    by (cases "round_of e") (simp add: round_of_def Let_def)
  have "RestoreEngine (en_world e) (en_templates e) cfg (round_of e) = Inr (restored e cfg)"
    using orderly_storable[OF assms(1)] by (intro RestoreEngine_round_of[OF orderly_wf[OF assms(1)] _ _ assms(5,6)]) (simp_all add: storable_system_def)
  then show ?thesis using r by (intro exI[of _ r] exI[of _ "(round_of e)\<lparr>rd_RecordedHash := []\<rparr>"] conjI) (simp_all only: same)
qed

text \<open>
  C10. A World that is stored comes back: once the snapshots of every Zone of an orderly run are
  written at a tick boundary, the round they form is discovered as the newest, is complete, and
  restores under the hash the tick recorded to the Engine it was cut from. Older rounds in the
  store, complete or torn, do not get in the way.
\<close>
theorem stored_world_comes_back:
  assumes "orderly (e, msgs)" "storable_keys e" "stored_round cd mb me st e t" "resolves zonesAt e"
    and "EffectiveSeed (cfg_Seed cfg) = ws_Seed (en_state e)" "ws_Seed (en_state e) \<noteq> 0"
  shows "\<exists>r s. NewestComplete cd st (keys (ws_Zones (en_state e))) zonesAt = Inr (Some (r, s))
    \<and> RestoreEngine (en_world e) (en_templates e) cfg (s\<lparr>rd_RecordedHash := StateHash (en_state e)\<rparr>) = Inr (restored e cfg)"
  using assms by (rule stored_restores)

text \<open>A store of one round, and a decoder for it: an object is the name of its Zone.\<close>

definition sample_codec :: "Engine \<Rightarrow> codec" where
  "sample_codec e = \<lparr>unmarshalEnvelope = (\<lambda>raw. Some (envelope_of (snapshot_of e 0 raw) raw)), unmarshalBody = (\<lambda>body. Some (BodyProto (snapshot_of e 0 body)))\<rparr>"

definition sample_store :: "Engine \<Rightarrow> WorldStore" where
  "sample_store e = \<lparr>ws_List = (\<lambda>zid. Inr [Key (snapshot_of e 0 zid)]),
     ws_Get = (\<lambda>k. case ParseSnapshotKey k of None \<Rightarrow> Inl ErrSnapshotNotFound | Some (zid, _, _, _) \<Rightarrow> Inr zid)\<rparr>"

lemma sample_stored:
  assumes "orderly (e, msgs)" "storable_keys e"
  shows "stored_round (sample_codec e) (\<lambda>p. Inr (pzs_ZoneId p)) (\<lambda>env. Inr (pse_ZoneId env)) (sample_store e) e 0"
proof -
  have id: "zs_ID (zone_of (en_state e) zid) = zid" for zid using orderly_zone(3)[OF assms(1), of zid] by (simp add: keyed_zone_def)
  have "\<exists>off. ParseSnapshotKey (Key (snapshot_of e 0 zid)) = Some (zid, StateVersion, ws_Tick (en_state e), off)" if "zid \<in> fmdom' (ws_Zones (en_state e))" for zid
    by (rule Key_parses[OF assms that])
  then show ?thesis unfolding stored_round_def Let_def
    by (intro ballI exI[of _ "zid" for zid] exI[of _ "[]"]) (fastforce simp: sample_codec_def sample_store_def Encode_def envelope_of_def BodyProto_def Let_def id)
qed

lemma boot_keys: "storable_keys boot"
proof -
  have "list_all (\<lambda>zid. CHR ''/'' \<notin> set zid) (keys (ws_Zones (en_state boot)))"
    by (auto simp: list_all_iff fmdom'_lookup boot_zones ex_world_def split: if_splits)
  moreover have "list_all (\<lambda>(p, off). - (2 ^ 63) \<le> off \<and> off < 2 ^ 63) (entries (ws_Offsets (en_state boot)))"
    by (auto simp: list_all_iff set_entries boot_state NewWorldState_def fmap_of_list.rep_eq map_of_map_restrict o_def restrict_map_def split: if_splits)
  moreover have "ws_Zones (en_state boot) \<noteq> fmempty" using boot_zones[of "''town''"] by auto
  ultimately show ?thesis by (simp add: storable_keys_def)
qed

theorem stored_world_comes_back_witness:
  "\<exists>r s. NewestComplete (sample_codec boot) (sample_store boot) (keys (ws_Zones (en_state boot))) None = Inr (Some (r, s))
     \<and> RestoreEngine ex_world (Some sample_templates) ex_config (s\<lparr>rd_RecordedHash := StateHash (en_state boot)\<rparr>) = Inr (restored boot ex_config)"
proof -
  have "EffectiveSeed (cfg_Seed ex_config) = ws_Seed (en_state boot)" "ws_Seed (en_state boot) \<noteq> 0"
    by (simp_all add: boot_state NewWorldState_def EffectiveSeed_def ex_config_def)
  from stored_world_comes_back[OF sample_orderly(1) boot_keys sample_stored[OF sample_orderly(1) boot_keys] _ this, of None] show ?thesis
    by (simp add: resolves_def)
qed

theorem NewestComplete_is_one_cut_witness:
  "\<exists>r s. NewestComplete (sample_codec boot) (sample_store boot) (keys (ws_Zones (en_state boot))) None = Inr (Some (r, s))
     \<and> one_cut (sample_codec boot) (sample_store boot) (keys (ws_Zones (en_state boot))) None r s"
proof -
  have "resolves None boot" by (simp add: resolves_def)
  from NewestComplete_stored[OF sample_orderly(1) boot_keys sample_stored[OF sample_orderly(1) boot_keys] this]
  obtain r s where n: "NewestComplete (sample_codec boot) (sample_store boot) (keys (ws_Zones (en_state boot))) None = Inr (Some (r, s))" by blast
  from n NewestComplete_is_one_cut[OF n] show ?thesis by blast
qed

end
