(* ===== verification/Recovery.thy ===== *)
theory Recovery
  imports Determinism Rounds
begin

text \<open>
  Recovery: a World restored from a round and replayed from its Tick Boundary Records is the World
  that was running. The parts are that a tick consumes exactly the records of its input
  (\<open>Step_offsets\<close>), that \<^const>\<open>Replay\<close> fetches those records again, in an order that makes no
  difference, and that a tick does the same whatever process runs it (theory \<^verbatim>\<open>Determinism\<close>).
\<close>

section \<open>The records a tick consumes\<close>

lemma applyOne_offsets:
  assumes "cfg_Handlers (en_cfg e) = Handlers"
  shows "ws_Offsets (tk_State (st_h (snd (applyOne e t zid r ss)))) = ws_Offsets (tk_State (st_h ss))"
proof (cases "Handlers (KindOf (rc_Command r))")
  case None
  then show ?thesis by (simp add: applyOne_def Let_def assms observe_def st_emit_def emit_def)
next
  case (Some f)
  let ?h = "(st_h ss)\<lparr>tk_bind := None, tk_jump := None\<rparr>" and ?a = "context_of e t zid r"
  have "ws_Offsets (tk_State (reached (f ?a (rc_Command r) ?h))) = ws_Offsets (tk_State (st_h ss))"
    using handler.clock(2)[OF Handlers_handler[OF Some], of ?a "rc_Command r" ?h] by simp
  then show ?thesis by (cases "f ?a (rc_Command r) ?h")
      (simp_all add: applyOne_def Let_def assms Some observe_def st_emit_def emit_def upd_zone_def split: prod.split)
qed

lemma consume_offsets: "wf_engine e \<Longrightarrow> ws_Offsets (tk_State (st_h (consume e t p r ss))) = ws_Offsets (tk_State (st_h ss))"
  by (auto simp: consume_def Let_def reject_unplaced_def observe_def st_emit_def emit_def wf_engine_def applyOne_offsets split: option.split)

lemma advance_offsets: "ws_Offsets (tk_State (st_h (advance p r ss))) = fmupd p (rc_Offset r + 1) (ws_Offsets (tk_State (st_h ss)))"
  by (simp add: advance_def)

lemma applyPartition_offsets:
  assumes "wf_engine e"
  shows "zones_inv.Inv (en_world e) (st_h ss) \<Longrightarrow> check_offsets p next rs = None \<Longrightarrow>
    ws_Offsets (tk_State (st_h (applyPartition e t p rs ss))) = (if rs = [] then ws_Offsets (tk_State (st_h ss)) else fmupd p (next + int (length rs)) (ws_Offsets (tk_State (st_h ss))))"
proof (induction rs arbitrary: ss "next")
  case (Cons r rs)
  let ?ss = "advance p r (consume e t p r ss)"
  have c: "rc_Offset r = next" "check_offsets p (next + 1) rs = None" using Cons.prems(2) by (simp_all split: if_splits)
  have e: "applyPartition e t p (r # rs) ss = applyPartition e t p rs ?ss"
    by (rule zones_inv.applyPartition_Cons[OF assms _ Cons.prems(1)]) simp_all
  have "zones_inv.Inv (en_world e) (st_h ?ss)"
    by (intro zones_inv.Inv_advance zones_inv.kept_Inv[OF zones_inv.kept_consume[OF assms _ Cons.prems(1)]]) simp_all
  from Cons.IH[OF this c(2)] show ?case unfolding e by (simp add: advance_offsets consume_offsets[OF assms] c(1) fmupd_idem add.assoc)
qed simp

lemma validate_parts:
  "validate_input s records ps = None \<Longrightarrow> p \<in> set ps \<Longrightarrow> \<exists>next. fmlookup (ws_Offsets s) p = Some next \<and> check_offsets p next (byPart records p) = None"
  by (induction ps) (auto split: option.splits if_splits)

lemma set_parts_of: "set (parts_of records) = rc_Partition ` set records" "distinct (parts_of records)"
  by (simp_all add: parts_of_def)

lemma byPart_Nil: "byPart records p = [] \<longleftrightarrow> p \<notin> set (parts_of records)"
  by (auto simp: byPart_def set_parts_of filter_empty_conv)

lemma applyRecords_offsets:
  assumes "wf_engine e" "validate_input (en_state e) records (parts_of records) = None"
  shows "fmlookup (ws_Offsets (tk_State (st_h (applyRecords e t records)))) p = map_option (\<lambda>off. off + int (length (byPart records p))) (fmlookup (ws_Offsets (en_state e)) p)"
proof -
  let ?f = "\<lambda>ss p. applyPartition e t p (byPart records p) ss" and ?o = "\<lambda>ss. ws_Offsets (tk_State (st_h ss))"
  have "fmlookup (?o (foldl ?f ss ps)) p = (if p \<in> set ps then map_option (\<lambda>off. off + int (length (byPart records p))) (fmlookup (?o ss) p) else fmlookup (?o ss) p)"
    if "zones_inv.Inv (en_world e) (st_h ss)" "distinct ps" "set ps \<subseteq> set (parts_of records)" "\<forall>p \<in> set ps. fmlookup (?o ss) p = fmlookup (ws_Offsets (en_state e)) p" for ss ps
    using that
  proof (induction ps arbitrary: ss)
    case (Cons q ps)
    obtain n where n: "fmlookup (ws_Offsets (en_state e)) q = Some n" "check_offsets q n (byPart records q) = None"
      using validate_parts[OF assms(2)] Cons.prems(3) by auto
    have ne: "byPart records q \<noteq> []" using Cons.prems(3) by (simp add: byPart_Nil)
    have o: "?o (?f ss q) = fmupd q (n + int (length (byPart records q))) (?o ss)"
      using applyPartition_offsets[OF assms(1) Cons.prems(1) n(2)] ne by simp
    have i: "zones_inv.Inv (en_world e) (st_h (?f ss q))"
      by (rule zones_inv.kept_Inv[OF zones_inv.Inv_applyPartition[OF assms(1) _ Cons.prems(1)]]) simp_all
    have "\<forall>p \<in> set ps. fmlookup (?o (?f ss q)) p = fmlookup (ws_Offsets (en_state e)) p" using Cons.prems(2,4) by (auto simp: o)
    from Cons.IH[OF i _ _ this] Cons.prems(2-4) n(1) show ?case by (auto simp: o)
  qed simp
  moreover have "zones_inv.Inv (en_world e) (st_h (start e))" using assms(1) by (simp add: zones_inv.Inv_def start_def wf_engine_def)
  moreover have "?o (start e) = ws_Offsets (en_state e)" by (simp add: start_def)
  ultimately have "fmlookup (?o (applyRecords e t records)) p
      = (if p \<in> set (parts_of records) then map_option (\<lambda>off. off + int (length (byPart records p))) (fmlookup (ws_Offsets (en_state e)) p) else fmlookup (ws_Offsets (en_state e)) p)"
    by (simp add: applyRecords_def set_parts_of)
  then show ?thesis using byPart_Nil[of records p] by (cases "fmlookup (ws_Offsets (en_state e)) p") auto
qed

lemma foldl_frame: "(\<And>x y. g (f x y) = g x) \<Longrightarrow> g (foldl f x ys) = g x"
  by (induction ys arbitrary: x) simp_all

lemma expire_offsets [simp]: "ws_Offsets (tk_State (expireLinkdead t h)) = ws_Offsets (tk_State h)"
proof -
  have one: "ws_Offsets (tk_State (expire_one t zid h eid)) = ws_Offsets (tk_State h)" for zid h eid
    by (simp add: expire_one_def despawn_def Let_def emit_def upd_zone_def split: option.split)
  have "ws_Offsets (tk_State (expire_zone t h zid)) = ws_Offsets (tk_State h)" for zid h
    by (simp add: expire_zone_def Let_def foldl_frame[of "\<lambda>h. ws_Offsets (tk_State h)" "expire_one t zid", OF one])
  then show ?thesis unfolding expireLinkdead_def by (rule foldl_frame)
qed

lemma applySwap_offsets: "applySwap t p e h = (e', h', sa) \<Longrightarrow> ws_Offsets (tk_State h') = ws_Offsets (tk_State h)"
proof -
  have one: "ws_Offsets (tk_State (fst (relocate t nz zid hr eid))) = ws_Offsets (tk_State (fst hr))" for nz zid hr eid
    by (cases hr) (auto simp: relocate_def Let_def emit_def upd_zone_def split: option.split)
  have zone: "ws_Offsets (tk_State (fst (relocate_zone t w hr zid))) = ws_Offsets (tk_State (fst hr))" for w hr zid
    by (simp add: relocate_zone_def foldl_frame[of "\<lambda>hr. ws_Offsets (tk_State (fst hr))" "relocate t nz zid" for nz, OF one] split: option.split)
  assume "applySwap t p e h = (e', h', sa)"
  then show ?thesis using foldl_frame[of "\<lambda>hr. ws_Offsets (tk_State (fst hr))" "relocate_zone t (the_world (ps_topo p))" "(h, [])", OF zone]
    by (auto simp: applySwap_def Let_def add_zones_def)
qed

lemma finishSwap_offsets: "ws_Offsets (tk_State (st_h (wp_ss (finishSwap t w p)))) = ws_Offsets (tk_State (st_h (wp_ss w)))"
proof (cases "ps_rec p \<in> set (st_consumed (wp_ss w)) \<and> ps_refused p = None")
  case True
  obtain e' h' sa where a: "applySwap t p (wp_e w) (st_h (wp_ss w)) = (e', h', sa)" by (metis prod_cases3)
  then show ?thesis using True applySwap_offsets[OF a] by (simp add: finishSwap_def observe_def)
qed (auto simp: finishSwap_def observe_def split: option.split)

lemma Step_input:
  assumes "Step e records = Inr (e', res)"
  shows "validate_input (en_state e) records (parts_of records) = None" "tc_Offsets (sr_Completed res) = ws_Offsets (en_state e')"
    "tc_Tick (sr_Completed res) = ws_Tick (en_state e) + 1" "tc_StateVersion (sr_Completed res) = ws_Version (en_state e')" "tc_StateHash (sr_Completed res) = StateHash (en_state e')"
    "ws_Tick (en_state e') = ws_Tick (en_state e) + 1"
  using assms by (auto simp: Step_def Let_def split: option.splits sum.splits)

lemma Step_offsets:
  assumes "wf_engine e" "Step e records = Inr (e', res)"
  shows "fmlookup (ws_Offsets (en_state e')) p = map_option (\<lambda>off. off + int (length (byPart records p))) (fmlookup (ws_Offsets (en_state e)) p)"
proof -
  let ?t = "ws_Tick (en_state e) + 1"
  obtain prepared where "en_state e' = (tk_State (st_h (wp_ss (run_tick e records prepared))))\<lparr>ws_Tick := ?t\<rparr>"
    using assms(2) by (auto simp: Step_def Let_def split: option.splits sum.splits)
  moreover have "ws_Offsets (tk_State (st_h (wp_ss (run_tick e records prepared)))) = ws_Offsets (tk_State (st_h (applyRecords e ?t records)))"
    unfolding run_tick_def Let_def by (subst foldl_frame[of "\<lambda>w. ws_Offsets (tk_State (st_h (wp_ss w)))", OF finishSwap_offsets]) simp
  ultimately show ?thesis using applyRecords_offsets[OF assms(1) Step_input(1)[OF assms(2)]] by simp
qed

section \<open>The records a replay fetches\<close>

text \<open>The log: every record under its Partition and offset, and a source that reads ranges of it.\<close>

type_synonym log = "int \<Rightarrow> int \<Rightarrow> Record"

definition Fetch :: "log \<Rightarrow> RecordSource" where
  "Fetch lg p from to = Inr (map (lg p) [from .. to - 1])"

definition logged :: "log \<Rightarrow> Record list \<Rightarrow> bool" where
  "logged lg records \<longleftrightarrow> list_all (\<lambda>r. lg (rc_Partition r) (rc_Offset r) = r) records"

lemma check_offsets_upto: "check_offsets p next rs = None \<Longrightarrow> map rc_Offset rs = [next .. next + int (length rs) - 1]"
proof (induction rs arbitrary: "next")
  case (Cons r rs)
  then have "rc_Offset r = next" "map rc_Offset rs = [next + 1 .. next + 1 + int (length rs) - 1]" by (simp_all split: if_splits)
  then show ?case using upto_rec1[of "next" "next + int (length (r # rs)) - 1"] by (simp add: algebra_simps)
qed simp

lemma fetch_part:
  assumes "logged lg records" "check_offsets p next (byPart records p) = None"
  shows "map (lg p) [next .. next + int (length (byPart records p)) - 1] = byPart records p"
proof -
  have "map (lg p \<circ> rc_Offset) (byPart records p) = byPart records p"
    using assms(1) by (auto simp: logged_def list_all_iff byPart_def intro!: map_idI)
  then show ?thesis unfolding check_offsets_upto[OF assms(2), symmetric] by (simp only: map_map)
qed

lemma gather_logged:
  assumes "wf_engine e" "Step e records = Inr (e', res)" "logged lg records" "set ps \<subseteq> fmdom' (ws_Offsets (en_state e))"
  shows "gather (en_state e) (sr_Completed res) (Fetch lg) ps = Inr (concat (map (byPart records) ps))"
  using assms(4)
proof (induction ps)
  case (Cons p ps)
  note i = Step_input[OF assms(2)]
  obtain off where at: "fmlookup (ws_Offsets (en_state e)) p = Some off" using Cons.prems by (auto simp: fmdom'_lookup)
  then have to: "fmlookup (tc_Offsets (sr_Completed res)) p = Some (off + int (length (byPart records p)))"
    using Step_offsets[OF assms(1,2), of p] i(2) by simp
  have IH: "gather (en_state e) (sr_Completed res) (Fetch lg) ps = Inr (concat (map (byPart records) ps))" using Cons by simp
  show ?case
  proof (cases "byPart records p = []")
    case True
    then show ?thesis using at to IH by simp
  next
    case False
    then have "check_offsets p off (byPart records p) = None" using validate_parts[OF i(1), of p] at byPart_Nil[of records p] by auto
    then have "Fetch lg p off (off + int (length (byPart records p))) = Inr (byPart records p)" by (simp add: Fetch_def fetch_part[OF assms(3)])
    then show ?thesis using at to IH False by simp
  qed
qed simp

text \<open>A tick's input is grouped by Partition, so the order Partitions are concatenated in is immaterial.\<close>

lemma Step_regroup:
  assumes "byPart records' = byPart records" "parts_of records' = parts_of records"
  shows "Step e records' = Step e records"
proof -
  have v: "validate_input s records' ps = validate_input s records ps" for s ps by (induction ps) (simp_all add: assms(1) split: option.split)
  have w: "swapRecs records' = swapRecs records" by (simp add: swapRecs_def assms)
  have r: "run_tick e records' prepared = run_tick e records prepared" for prepared by (simp add: run_tick_def applyRecords_def assms)
  show ?thesis unfolding Step_def v w r assms(2) by (rule refl)
qed

lemma regroup:
  assumes "distinct ps" "set (parts_of records) \<subseteq> set ps"
  shows "byPart (concat (map (byPart records) ps)) = byPart records" "parts_of (concat (map (byPart records) ps)) = parts_of records"
proof -
  have one: "byPart (byPart records q) p = (if p = q then byPart records p else [])" for p q by (auto simp: byPart_def filter_empty_conv)
  have "byPart (concat (map (byPart records) ps)) p = (if p \<in> set ps then byPart records p else [])" if "distinct ps" for p ps
    using that
  proof (induction ps)
    case Nil
    then show ?case by (simp add: byPart_def)
  next
    case (Cons q ps)
    have "byPart (xs @ ys) p = byPart xs p @ byPart ys p" for xs ys by (simp add: byPart_def)
    then show ?case using Cons by (simp add: one)
  qed
  from this[OF assms(1)] show b: "byPart (concat (map (byPart records) ps)) = byPart records"
    using assms(2) byPart_Nil[of records] by (intro ext) (metis subsetD)
  then have "set (parts_of (concat (map (byPart records) ps))) = set (parts_of records)" by (metis byPart_Nil subset_antisym subsetI)
  then show "parts_of (concat (map (byPart records) ps)) = parts_of records"
    by (intro sorted_distinct_set_unique) (simp_all add: parts_of_def)
qed

lemma keys_offsets_Step:
  assumes "wf_engine e" "Step e records = Inr (e', res)"
  shows "keys (tc_Offsets (sr_Completed res)) = keys (ws_Offsets (en_state e))"
proof -
  have "fmdom' (ws_Offsets (en_state e')) = fmdom' (ws_Offsets (en_state e))" using Step_offsets[OF assms] by (auto simp: fmdom'_lookup)
  then show ?thesis unfolding Step_input(2)[OF assms(2)] by (intro sorted_distinct_set_unique) simp_all
qed

lemma replay_input:
  assumes "wf_engine e" "Step e records = Inr (e', res)" "logged lg records"
  shows "\<exists>again. gather (en_state e) (sr_Completed res) (Fetch lg) (keys (tc_Offsets (sr_Completed res))) = Inr again \<and> (\<forall>e2. Step e2 again = Step e2 records)"
proof -
  let ?ps = "keys (ws_Offsets (en_state e))"
  have "set (parts_of records) \<subseteq> set ?ps" using validate_parts[OF Step_input(1)[OF assms(2)]] by (fastforce simp: fmdom'_lookup)
  note r = regroup[OF distinct_keys this]
  have "gather (en_state e) (sr_Completed res) (Fetch lg) ?ps = Inr (concat (map (byPart records) ?ps))" by (rule gather_logged[OF assms]) simp
  then show ?thesis using Step_regroup[OF r] keys_offsets_Step[OF assms(1,2)] by auto
qed

section \<open>Replay\<close>

text \<open>
  What the running system did from a state on: ticks, with retry passes and restarts between them,
  and the results the ticks left. Every record is in the log.
\<close>

inductive history :: "log \<Rightarrow> Engine \<times> LoggedCommand set \<Rightarrow> StepResult list \<Rightarrow> Engine \<times> LoggedCommand set \<Rightarrow> bool" for lg where
  none: "history lg x [] x"
| tick: "\<forall>r \<in> set records. sent msgs (rc_Command r) \<Longrightarrow> logged lg records \<Longrightarrow> Step e records = Inr (e', res) \<Longrightarrow> \<forall>c \<in> set (sr_Outbound res). unwrapped c \<Longrightarrow>
    history lg (e', msgs \<union> set (sr_Outbound res)) ress y \<Longrightarrow> history lg (e, msgs) (res # ress) y"
| retry: "DueHandoffs e t = (e', out) \<Longrightarrow> history lg (e', msgs \<union> sends out) ress y \<Longrightarrow> history lg (e, msgs) ress y"
| restart: "history lg (e\<lparr>en_handoffs := Map.empty\<rparr>, msgs) ress y \<Longrightarrow> history lg (e, msgs) ress y"

lemma Step_twin:
  assumes "wf_engine e" "sound (en_state e) msgs" "\<forall>r \<in> set records. sent msgs (rc_Command r)" "Step e records = Inr (e', res)"
    and "\<forall>c \<in> set (sr_Outbound res). unwrapped c" "wf_engine e2" "plain e2 = plain e"
  shows "\<exists>e2'. Step e2 records = Inr (e2', res) \<and> plain e2' = plain e'"
proof -
  have p: "Step (plain e2) records = Inr (plain e', res)"
    using Step_plain[OF assms(1-3)] assms(4,5,7) by auto
  have "en_state e2 = en_state e" using arg_cong[OF assms(7), of en_state] by simp
  then have "Step (plain e2) records = map_sum (\<lambda>x. x) (map_prod plain (\<lambda>x. x)) (Step e2 records)"
    using assms(2,3,5) p by (intro Step_plain[OF assms(6), of msgs]) auto
  then show ?thesis using p by (cases "Step e2 records") auto
qed

lemma plain_schedule: "same_but_schedule e e' \<Longrightarrow> plain e' = plain e"
  by (simp add: same_but_schedule_def plain_def)

lemma replay_loop:
  assumes "history lg x ress y" "sound_system x" "wf_engine e2" "plain e2 = plain (fst x)" "\<forall>res \<in> set ress. after res = None"
  shows "\<exists>e2'. replayLoop e2 (map sr_Completed ress) (Fetch lg) after = Inr e2' \<and> plain e2' = plain (fst y)"
  using assms
proof (induction arbitrary: e2 rule: history.induct)
  case (tick records msgs e e' res ress y)
  have wf: "wf_engine e" "sound (en_state e) msgs" using tick.prems(1) by (simp_all add: sound_system_def)
  have st: "en_state e2 = en_state e" using arg_cong[OF tick.prems(3), of en_state] by simp
  obtain e2' where s: "Step e2 records = Inr (e2', res)" "plain e2' = plain e'"
    using Step_twin[OF wf tick.hyps(1,3,4) tick.prems(2)] tick.prems(3) by auto
  note i = Step_input[OF s(1)]
  have ver: "ws_Version (en_state e2') = ws_Version (en_state e2)" using Step_fixed[OF tick.prems(2) s(1)] by simp
  obtain again where g: "gather (en_state e2) (sr_Completed res) (Fetch lg) (keys (tc_Offsets (sr_Completed res))) = Inr again" "Step e2 again = Inr (e2', res)"
    using replay_input[OF tick.prems(2) s(1) tick.hyps(2)] s(1) by auto
  have "sound_system (e', msgs \<union> set (sr_Outbound res))"
    using moves_sound[OF moves.tick[OF tick.hyps(1,3,4)] tick.prems(1)] .
  from tick.IH[OF this wf_engine_Step[OF tick.prems(2) s(1)]] s(2) tick.prems(4)
  show ?case using g ver by (simp add: i(3,4))
next
  case (retry e t e' out msgs ress y)
  have same: "same_but_schedule e e'" using DueHandoffs_frame[of e t] retry.hyps(1) by simp
  have "sound_system (e', msgs \<union> sends out)" using moves_sound[OF moves.retry[OF retry.hyps(1)] retry.prems(1)] .
  from retry.IH[OF this retry.prems(2)] retry.prems(3,4) plain_schedule[OF same] show ?case by simp
next
  case (restart e msgs ress y)
  have "sound_system (e\<lparr>en_handoffs := Map.empty\<rparr>, msgs)" using moves_sound[OF moves.restart restart.prems(1)] .
  from restart.IH[OF this restart.prems(2)] restart.prems(3,4) show ?case by (simp add: plain_def)
qed simp

text \<open>
  C6. A tick does the same in every process: two Engines in the same state, on the same topology,
  content and verb table, produce the same Events, handoff messages, faults and Tick Boundary Record
  from the same records and end in the same state, whatever order their maps are met in, whatever
  their retry schedules hold, and whether or not one of them is replaying.
\<close>
theorem tick_deterministic:
  assumes "reachable (e, msgs)" "\<forall>r \<in> set records. sent msgs (rc_Command r)" "Step e records = Inr (e', res)" "\<forall>c \<in> set (sr_Outbound res). unwrapped c"
    and "wf_engine e2" "en_state e2 = en_state e" "en_world e2 = en_world e" "en_templates e2 = en_templates e" "en_versions e2 = en_versions e"
      "en_digest e2 = en_digest e" "cfg_Content (en_cfg e2) = cfg_Content (en_cfg e)"
  shows "\<exists>e2'. Step e2 records = Inr (e2', res) \<and> en_state e2' = en_state e' \<and> en_world e2' = en_world e' \<and> en_templates e2' = en_templates e'
    \<and> en_versions e2' = en_versions e' \<and> en_digest e2' = en_digest e'"
proof -
  have s: "wf_engine e" "sound (en_state e) msgs" using reachable_sound[OF assms(1)] by (simp_all add: sound_system_def)
  have "plain e2 = plain e" using assms(5-11) s(1) by (simp add: plain_def plain_cfg_def wf_engine_def)
  from Step_twin[OF s assms(2-5) this] obtain e2' where "Step e2 records = Inr (e2', res)" "plain e2' = plain e'" by blast
  then show ?thesis by (metis plain_fields(1-5))
qed

text \<open>An Engine like the sample one in another process: replaying, and meeting maps backwards.\<close>

definition other_process :: "Engine \<Rightarrow> Engine" where
  "other_process e = e\<lparr>en_cfg := (en_cfg e)\<lparr>cfg_MapOrder := rev, cfg_HandoffRetryBatch := 7\<rparr>, en_replaying := True\<rparr>"

theorem tick_deterministic_witness:
  "\<exists>e2' res. Step (other_process engine1) [move_record] = Inr (e2', res) \<and> sr_Outbound res = [sample_arrive]
     \<and> fmlookup (zs_Transit (zone_of (en_state e2') ''town'')) ''ann'' = Some sample_transit"
proof -
  obtain res where s: "Step engine1 [move_record] = Inr (engine2, res)" "sr_Outbound res = [sample_arrive]" by (rule engine2_step)
  have "wf_engine engine1" using orderly_wf[OF sample_orderly(2)] .
  then have "wf_engine (other_process engine1)" by (simp add: wf_engine_def other_process_def)
  moreover have "\<forall>r \<in> set [move_record]. sent {} (rc_Command r)" by (simp add: sent_def quiet_def move_record_def ex_record_def)
  moreover have "\<forall>c \<in> set (sr_Outbound res). unwrapped c"
    by (simp add: s(2) unwrapped_def sample_arrive_def arriveFor_def sample_transit_def departure_def)
  ultimately have "\<exists>e2'. Step (other_process engine1) [move_record] = Inr (e2', res) \<and> en_state e2' = en_state engine2 \<and> en_world e2' = en_world engine2
      \<and> en_templates e2' = en_templates engine2 \<and> en_versions e2' = en_versions engine2 \<and> en_digest e2' = en_digest engine2"
    by (intro tick_deterministic[OF sample_reachable(2) _ s(1)]) (simp_all add: other_process_def)
  then show ?thesis using s(2) sample_where(3) by metis
qed

text \<open>
  C5. Replay reproduces the run: whatever ticks ran from a reachable state, with retry passes and
  restarts in between, an Engine in that state that replays their Tick Boundary Records against the
  log verifies every one of them and ends in the state, topology and content the run ended in.
\<close>
theorem Replay_reproduces_run:
  assumes "reachable (e, msgs)" "history lg (e, msgs) ress (e', msgs')"
    and "wf_engine e2" "en_state e2 = en_state e" "en_world e2 = en_world e" "en_templates e2 = en_templates e" "en_versions e2 = en_versions e"
      "en_digest e2 = en_digest e" "cfg_Content (en_cfg e2) = cfg_Content (en_cfg e)"
  shows "\<exists>e2'. Replay e2 (map sr_Completed ress) (Fetch lg) = Inr e2' \<and> en_state e2' = en_state e' \<and> en_world e2' = en_world e' \<and> en_templates e2' = en_templates e'
    \<and> en_versions e2' = en_versions e' \<and> en_digest e2' = en_digest e' \<and> \<not> en_replaying e2'"
proof -
  have s: "sound_system (e, msgs)" using reachable_sound[OF assms(1)] .
  then have wf: "wf_engine e" by (simp add: sound_system_def)
  let ?e2 = "e2\<lparr>en_replaying := True\<rparr>"
  have p: "plain ?e2 = plain e" using assms(3-9) wf by (simp add: plain_def plain_cfg_def wf_engine_def)
  have "wf_engine ?e2" using assms(3) by (simp add: wf_engine_def)
  from replay_loop[OF assms(2) s this, of "\<lambda>_. None"] p
  obtain x where "replayLoop ?e2 (map sr_Completed ress) (Fetch lg) (\<lambda>_. None) = Inr x" "plain x = plain e'" by auto
  then show ?thesis using plain_fields(1-5)[of x] plain_fields(1-5)[of e'] by (intro exI[of _ "x\<lparr>en_replaying := False\<rparr>"]) (simp add: Replay_def ReplayEach_def)
qed

definition sample_log :: log where
  "sample_log p off = (if off = 0 then bind_record else move_record)"

lemma sample_history: "\<exists>ress. history sample_log (boot, {}) ress (engine2, {sample_arrive}) \<and> length ress = 2"
proof -
  obtain res where 1: "Step boot [bind_record] = Inr (engine1, res)" "sr_Outbound res = []" by (rule engine1_step)
  obtain res2 where 2: "Step engine1 [move_record] = Inr (engine2, res2)" "sr_Outbound res2 = [sample_arrive]" by (rule engine2_step)
  have "history sample_log (engine1, {}) [res2] (engine2, {} \<union> set (sr_Outbound res2))"
    by (rule history.tick[OF _ _ 2(1) _ history.none])
      (simp_all add: 2(2) sent_def quiet_def move_record_def ex_record_def unwrapped_def sample_arrive_def arriveFor_def sample_transit_def departure_def logged_def sample_log_def)
  then have "history sample_log (engine1, {} \<union> set (sr_Outbound res)) [res2] (engine2, {sample_arrive})" by (simp add: 1(2) 2(2))
  from history.tick[OF _ _ 1(1) _ this] have "history sample_log (boot, {}) [res, res2] (engine2, {sample_arrive})"
    by (simp add: 1(2) sent_def quiet_def bind_record_def ex_record_def logged_def sample_log_def)
  then show ?thesis by (intro exI[of _ "[res, res2]"]) simp
qed

theorem Replay_reproduces_run_witness:
  "\<exists>(ress :: StepResult list) e2. length ress = 2 \<and> Replay (boot\<lparr>en_cfg := (en_cfg boot)\<lparr>cfg_MapOrder := rev\<rparr>\<rparr>) (map sr_Completed ress) (Fetch sample_log) = Inr e2
     \<and> fmlookup (zs_Transit (zone_of (en_state e2) ''town'')) ''ann'' = Some sample_transit"
proof -
  obtain ress where h: "history sample_log (boot, {}) ress (engine2, {sample_arrive})" "length ress = 2" using sample_history by blast
  have "wf_engine (boot\<lparr>en_cfg := (en_cfg boot)\<lparr>cfg_MapOrder := rev\<rparr>\<rparr>)" using wf_boot by (simp add: wf_engine_def)
  from Replay_reproduces_run[OF sample_reachable(1) h(1) this]
  obtain e2 where "Replay (boot\<lparr>en_cfg := (en_cfg boot)\<lparr>cfg_MapOrder := rev\<rparr>\<rparr>) (map sr_Completed ress) (Fetch sample_log) = Inr e2" "en_state e2 = en_state engine2"
    by auto
  then show ?thesis using h(2) sample_where(3) by (intro exI[of _ ress] exI[of _ e2]) simp
qed

text \<open>
  C3. Recovery reaches the running World: store the snapshots of an orderly run at a tick boundary
  and let it run on; a process that finds the newest complete round, restores it under the hash its
  boundary recorded and replays the boundaries after it ends in the state, topology and content the
  run had reached.
\<close>
theorem recovery_reaches_running_world:
  assumes "orderly (e, msgs)" "storable_keys e" "stored_round cd mb me st e t" "resolves zonesAt e"
    and "EffectiveSeed (cfg_Seed cfg) = ws_Seed (en_state e)" "ws_Seed (en_state e) \<noteq> 0"
    and "cfg_Handlers cfg = Handlers" "cfg_Content cfg = cfg_Content (en_cfg e)" "\<forall>xs. set (cfg_MapOrder cfg xs) = set xs"
    and "history lg (e, msgs) ress (e', msgs')"
  shows "\<exists>r s e0 e2. NewestComplete cd st (keys (ws_Zones (en_state e))) zonesAt = Inr (Some (r, s))
    \<and> RestoreEngine (en_world e) (en_templates e) cfg (s\<lparr>rd_RecordedHash := StateHash (en_state e)\<rparr>) = Inr e0
    \<and> Replay e0 (map sr_Completed ress) (Fetch lg) = Inr e2
    \<and> en_state e2 = en_state e' \<and> en_world e2 = en_world e' \<and> en_templates e2 = en_templates e' \<and> en_versions e2 = en_versions e' \<and> en_digest e2 = en_digest e'"
proof -
  note wf = orderly_wf[OF assms(1)]
  obtain r s where r: "NewestComplete cd st (keys (ws_Zones (en_state e))) zonesAt = Inr (Some (r, s))"
    "RestoreEngine (en_world e) (en_templates e) cfg (s\<lparr>rd_RecordedHash := StateHash (en_state e)\<rparr>) = Inr (restored e cfg)"
    using stored_restores[OF assms(1-6)] by blast
  let ?e2 = "(restored e cfg)\<lparr>en_replaying := True\<rparr>"
  have "plain ?e2 = plain e" using assms(7,8) wf by (simp add: plain_def plain_cfg_def wf_engine_def restored_def)
  moreover have "wf_engine ?e2" using wf assms(7-9) by (simp add: wf_engine_def restored_def)
  ultimately obtain x where "replayLoop ?e2 (map sr_Completed ress) (Fetch lg) (\<lambda>_. None) = Inr x" "plain x = plain e'"
    using replay_loop[OF assms(10) reachable_sound[OF orderly_reachable[OF assms(1)]], of ?e2 "\<lambda>_. None"] by auto
  then have "Replay (restored e cfg) (map sr_Completed ress) (Fetch lg) = Inr (x\<lparr>en_replaying := False\<rparr>)" "en_state x = en_state e'" "en_world x = en_world e'"
    "en_templates x = en_templates e'" "en_versions x = en_versions e'" "en_digest x = en_digest e'"
    using plain_fields(1-5)[of x] plain_fields(1-5)[of e'] by (simp_all add: Replay_def ReplayEach_def)
  then show ?thesis using r by (intro exI[of _ r] exI[of _ s] exI[of _ "restored e cfg"] exI[of _ "x\<lparr>en_replaying := False\<rparr>"]) simp
qed

theorem recovery_reaches_running_world_witness:
  "\<exists>r s e0 (ress :: StepResult list) e2. NewestComplete (sample_codec boot) (sample_store boot) (keys (ws_Zones (en_state boot))) None = Inr (Some (r, s))
     \<and> RestoreEngine ex_world (Some sample_templates) ex_config (s\<lparr>rd_RecordedHash := StateHash (en_state boot)\<rparr>) = Inr e0
     \<and> length ress = 2 \<and> Replay e0 (map sr_Completed ress) (Fetch sample_log) = Inr e2
     \<and> fmlookup (zs_Transit (zone_of (en_state e2) ''town'')) ''ann'' = Some sample_transit"
proof -
  obtain ress where h: "history sample_log (boot, {}) ress (engine2, {sample_arrive})" "length ress = 2" using sample_history by blast
  have "EffectiveSeed (cfg_Seed ex_config) = ws_Seed (en_state boot)" "ws_Seed (en_state boot) \<noteq> 0"
    by (simp_all add: boot_state NewWorldState_def EffectiveSeed_def ex_config_def)
  moreover have "resolves None boot" "cfg_Handlers ex_config = Handlers" "cfg_Content ex_config = cfg_Content (en_cfg boot)" "\<forall>xs. set (cfg_MapOrder ex_config xs) = set xs"
    by (simp_all add: resolves_def ex_config_def)
  ultimately obtain r s e0 e2 where "NewestComplete (sample_codec boot) (sample_store boot) (keys (ws_Zones (en_state boot))) None = Inr (Some (r, s))"
    "RestoreEngine ex_world (Some sample_templates) ex_config (s\<lparr>rd_RecordedHash := StateHash (en_state boot)\<rparr>) = Inr e0"
    "Replay e0 (map sr_Completed ress) (Fetch sample_log) = Inr e2" "en_state e2 = en_state engine2"
    using recovery_reaches_running_world[OF sample_orderly(1) boot_keys sample_stored[OF sample_orderly(1) boot_keys] _ _ _ _ _ _ h(1), of None ex_config] by auto
  then show ?thesis using h(2) sample_where(3) by (intro exI[of _ r] exI[of _ s] exI[of _ e0] exI[of _ ress] exI[of _ e2]) simp
qed

end
