(* ===== verification/Boot_Recovery.thy ===== *)
theory Boot_Recovery
  imports Recovery "HOL-Library.Sublist"
begin

text \<open>
  The boot-time path back to a World (\<^verbatim>\<open>server/recovery/recover.go\<close> and \<^verbatim>\<open>errors.go\<close>): choosing a
  round, finding its boundary in the log, restoring, replaying to the head, and the exit code of every
  refusal. The boundary stream is a reader with a state of its own, whose operations are parameters,
  as they are an interface in the code; a loop that reads it may not end, and is \<^term>\<open>None\<close> then. Logs,
  metrics, spans, phases and the cache of resolved Zones are left out.
\<close>

section \<open>Errors and exit codes\<close>

datatype LogError = LogGapError int int | LogFailed string

datatype RecoveryError =
    RecSelect SelectError
  | RecNoStore u64
  | RecContent u64 "(string, u64) fmap" string u64
  | RecPrepare string
  | RecTickZero
  | RecLog LogError
  | RecRestore RestoreError
  | RecOpen string
  | RecReplay ReplayError
  | RecDigest ReplayError

record Failure =
  fl_Err :: RecoveryError
  fl_Exit :: nat
  fl_Reason :: string
  fl_Restore :: string

definition ExitOK :: nat where "ExitOK = 0"
definition ExitConfig :: nat where "ExitConfig = 1"
definition ExitLogGap :: nat where "ExitLogGap = 3"
definition ExitStateVersion :: nat where "ExitStateVersion = 4"
definition ExitRestore :: nat where "ExitRestore = 6"
definition ExitRound :: nat where "ExitRound = 7"
definition ExitHashMismatch :: nat where "ExitHashMismatch = 8"

lemmas exit_codes = ExitOK_def ExitConfig_def ExitLogGap_def ExitStateVersion_def ExitRestore_def ExitRound_def ExitHashMismatch_def

definition Reasons :: "string list" where
  "Reasons = [''hash'', ''restore'', ''gap'', ''version'', ''round'', ''store'']"

text \<open>
  The cases in the code's order, by the typed error an error wraps. \<^const>\<open>RecDigest\<close> is the failure
  \<^verbatim>\<open>Recover\<close> makes of a content digest met in replay.
\<close>

definition Classify :: "RecoveryError \<Rightarrow> Failure" where
  "Classify err =
     (let fail = (\<lambda>exit reason restore. \<lparr>fl_Err = err, fl_Exit = exit, fl_Reason = reason, fl_Restore = restore\<rparr>)
      in case err of
        RecDigest _ \<Rightarrow> fail ExitHashMismatch ''hash'' ''''
      | RecSelect (SelectVersion _ _) \<Rightarrow> fail ExitStateVersion ''version'' ''''
      | RecRestore (RestoreStateVersion _ _) \<Rightarrow> fail ExitStateVersion ''version'' ''''
      | RecReplay (ErrStateVersion _ _) \<Rightarrow> fail ExitStateVersion ''version'' ''''
      | RecSelect (ErrRoundIncomplete _ _ _) \<Rightarrow> fail ExitRound ''round'' ''''
      | RecRestore (ErrRoundZoneDuplicate tick z) \<Rightarrow>
          \<lparr>fl_Err = RecSelect (ErrRoundIncomplete tick ''duplicate'' [z]), fl_Exit = ExitRound, fl_Reason = ''round'', fl_Restore = ''''\<rparr>
      | RecRestore (RestoreMismatch _ _ _) \<Rightarrow> fail ExitRestore ''restore'' ''hash''
      | RecRestore (SeedMismatch _ _ _) \<Rightarrow> fail ExitRestore ''restore'' ''seed''
      | RecRestore (RestoreContentDigest _ _ _) \<Rightarrow> fail ExitRestore ''restore'' ''content''
      | RecReplay (ReplayStep _ (ContentDigestError _ _ _ _)) \<Rightarrow> fail ExitRestore ''restore'' ''content''
      | RecRestore (ErrRoundZoneUnknown _ _) \<Rightarrow> fail ExitRestore ''restore'' ''content''
      | RecSelect (SelectContent _) \<Rightarrow> fail ExitRestore ''restore'' ''content''
      | RecContent _ _ _ _ \<Rightarrow> fail ExitRestore ''restore'' ''content''
      | RecReplay (HashMismatch _ _ _) \<Rightarrow> fail ExitHashMismatch ''hash'' ''''
      | RecLog (LogGapError _ _) \<Rightarrow> fail ExitLogGap ''gap'' ''''
      | RecReplay (ErrBoundaryGap _ _) \<Rightarrow> fail ExitLogGap ''gap'' ''''
      | RecReplay (ReplayOffsetGap _ _ _ _) \<Rightarrow> fail ExitLogGap ''gap'' ''''
      | RecReplay (ReplayStep _ (ErrOffsetGap _ _ _)) \<Rightarrow> fail ExitLogGap ''gap'' ''''
      | _ \<Rightarrow> fail ExitConfig ''store'' '''')"

definition ExitCode :: "RecoveryError option \<Rightarrow> nat" where
  "ExitCode err = (case err of None \<Rightarrow> ExitOK | Some e \<Rightarrow> fl_Exit (Classify e))"

section \<open>The boundary stream\<close>

record Boundary =
  bo_Completed :: TickCompleted
  bo_ProducedAt :: int

abbreviation bo_Tick :: "Boundary \<Rightarrow> u64" where
  "bo_Tick b \<equiv> tc_Tick (bo_Completed b)"

record 'b Boundaries =
  bd_SeekAfter :: "u64 \<Rightarrow> 'b \<Rightarrow> (LogError + int) \<times> 'b"
  bd_BoundaryAfter :: "'b \<Rightarrow> bool"
  bd_Next :: "nat \<Rightarrow> 'b \<Rightarrow> (LogError + Boundary list) \<times> 'b"
  bd_HeadTick :: "'b \<Rightarrow> (LogError + u64) \<times> 'b"

record Options =
  op_Store :: "WorldStore option"
  op_Codec :: codec
  op_Listed :: "ZoneID list"
  op_ZonesAt :: "ZonesAt option"
  op_OpenRecords :: "(int, int) fmap \<Rightarrow> string + RecordSource"
  op_Config :: Config
  op_PrepareContent :: "(string, u64) fmap \<Rightarrow> ZonesAtError + ContentTopology"
  op_Prepare :: "((string, u64) fmap \<Rightarrow> ZonesAtError + ContentTopology) option"
  op_Round :: "u64 option"
  op_RequireSnapshot :: bool
  op_ReplayBatch :: int
  op_After :: "StepResult \<Rightarrow> string option"

text \<open>The default of \<^verbatim>\<open>Prepare\<close> is \<^verbatim>\<open>sim.PrepareContent\<close> over the content source.\<close>

definition prepare_of :: "Options \<Rightarrow> (string, u64) fmap \<Rightarrow> ZonesAtError + ContentTopology" where
  "prepare_of opts = (case op_Prepare opts of None \<Rightarrow> op_PrepareContent opts | Some prepare \<Rightarrow> prepare)"

definition replay_batch :: "Options \<Rightarrow> nat" where
  "replay_batch opts = (if op_ReplayBatch opts \<le> 0 then 4096 else nat (op_ReplayBatch opts))"

definition NewZonesAt :: "((string, u64) fmap \<Rightarrow> ZonesAtError + ContentTopology) \<Rightarrow> ZonesAt" where
  "NewZonesAt prepare versions = (case prepare versions of Inl err \<Rightarrow> Inl err
     | Inr topo \<Rightarrow> Inr (Some (case tp_World topo of None \<Rightarrow> [] | Some w \<Rightarrow> keys (w_Zones w))))"

definition zonesAt_of :: "Options \<Rightarrow> ZonesAt option" where
  "zonesAt_of opts = (case op_ZonesAt opts of Some f \<Rightarrow> Some f | None \<Rightarrow> Some (NewZonesAt (prepare_of opts)))"

definition selectRound :: "Options \<Rightarrow> RecoveryError + (Round \<times> RoundState) option" where
  "selectRound opts =
     (let missing = (if op_RequireSnapshot opts then Inl (RecSelect (ErrRoundIncomplete 0 ''missing'' (op_Listed opts))) else Inr None)
      in case op_Round opts of
        Some tick \<Rightarrow> (case op_Store opts of None \<Rightarrow> Inl (RecNoStore tick)
          | Some st \<Rightarrow> (case RoundAt (op_Codec opts) st (op_Listed opts) (zonesAt_of opts) tick of (_, Inl err) \<Rightarrow> Inl (RecSelect err) | (r, Inr s) \<Rightarrow> Inr (Some (r, s))))
      | None \<Rightarrow> (case op_Store opts of None \<Rightarrow> missing
          | Some st \<Rightarrow> (case StateVersionOf st (op_Listed opts) of Inl err \<Rightarrow> Inl (RecSelect (SelectStore err))
              | Inr v \<Rightarrow> if v > StateVersion then Inl (RecSelect (SelectVersion v StateVersion))
                  else (case NewestComplete (op_Codec opts) st (op_Listed opts) (zonesAt_of opts) of Inl err \<Rightarrow> Inl (RecSelect err)
                    | Inr (Some rs) \<Rightarrow> Inr (Some rs) | Inr None \<Rightarrow> missing))))"

partial_function (option) roundLoop :: "'b Boundaries \<Rightarrow> u64 \<Rightarrow> 'b \<Rightarrow> ((RecoveryError + Boundary) \<times> 'b) option" where
  "roundLoop bd rnd b =
     (case bd_Next bd 1 b of
        (Inl err, b') \<Rightarrow> Some (Inl (RecLog err), b')
      | (Inr bs, b') \<Rightarrow>
          if bs = [] \<or> bo_Tick (hd bs) < rnd then roundLoop bd rnd b'
          else if bo_Tick (hd bs) = rnd then Some (Inr (hd bs), b')
          else Some (Inl (RecLog (LogGapError (sint rnd) (sint (bo_Tick (hd bs))))), b'))"

definition roundBoundary :: "'b Boundaries \<Rightarrow> u64 \<Rightarrow> 'b \<Rightarrow> ((RecoveryError + Boundary) \<times> 'b) option" where
  "roundBoundary bd rnd b =
     (if rnd = 0 then Some (Inl RecTickZero, b)
      else case bd_SeekAfter bd (rnd - 1) b of
        (Inl err, b') \<Rightarrow> Some (Inl (RecLog err), b')
      | (Inr _, b') \<Rightarrow> if \<not> bd_BoundaryAfter bd b' then Some (Inl (RecLog (LogGapError (sint rnd) (-1))), b') else roundLoop bd rnd b')"

section \<open>Replay to the head\<close>

record Report =
  rp_Round :: Round
  rp_Replayed :: u64
  rp_Tick :: u64
  rp_Match :: bool
  rp_Expected :: bytes
  rp_Actual :: bytes
  rp_MismatchTick :: u64
  rp_HeadProducedAt :: int

definition no_report :: Report where
  "no_report = \<lparr>rp_Round = zero_round, rp_Replayed = 0, rp_Tick = 0, rp_Match = False, rp_Expected = zero_digest, rp_Actual = zero_digest, rp_MismatchTick = 0, rp_HeadProducedAt = 0\<rparr>"

definition due :: "u64 \<Rightarrow> Engine \<Rightarrow> Boundary list \<Rightarrow> Boundary list" where
  "due head e bs = filter (\<lambda>b. bo_Tick b > ws_Tick (en_state e) \<and> bo_Tick b \<le> head) bs"

definition head_seen :: "u64 \<Rightarrow> Boundary list \<Rightarrow> Report \<Rightarrow> Report" where
  "head_seen head bs rep = foldl (\<lambda>rep b. if bo_Tick b = head then rep\<lparr>rp_HeadProducedAt := bo_ProducedAt b\<rparr> else rep) rep bs"

partial_function (option) replayFrom :: "'b Boundaries \<Rightarrow> Options \<Rightarrow> RecordSource \<Rightarrow> u64 \<Rightarrow> Engine \<Rightarrow> Report \<Rightarrow> 'b \<Rightarrow> ((RecoveryError + Engine) \<times> Report) option" where
  "replayFrom bd opts src head e rep b =
     (if \<not> ws_Tick (en_state e) < head then Some (Inr e, rep)
      else case bd_Next bd (replay_batch opts) b of
        (Inl err, _) \<Rightarrow> Some (Inl (RecLog err), rep)
      | (Inr bs, b') \<Rightarrow>
          (let tcs = due head e bs; rep' = head_seen head tcs rep in
           if tcs = [] then replayFrom bd opts src head e rep b'
           else case ReplayEach e (map bo_Completed tcs) src (op_After opts) of
             Inl err \<Rightarrow> Some (Inl (RecReplay err), rep')
           | Inr e' \<Rightarrow> replayFrom bd opts src head e' (rep'\<lparr>rp_Replayed := rp_Replayed rep' + of_nat (length tcs)\<rparr>) b'))"

definition replay :: "'b Boundaries \<Rightarrow> Options \<Rightarrow> RecordSource \<Rightarrow> Engine \<Rightarrow> Report \<Rightarrow> 'b \<Rightarrow> ((RecoveryError + Engine) \<times> Report) option" where
  "replay bd opts src e rep b = (case bd_HeadTick bd b of (Inl err, _) \<Rightarrow> Some (Inl (RecLog err), rep) | (Inr head, b') \<Rightarrow> replayFrom bd opts src head e rep b')"

section \<open>Recover\<close>

text \<open>Restoring the chosen round, or starting empty: the Engine, where its records begin, and the reader.\<close>

definition restoreRound :: "'b Boundaries \<Rightarrow> Options \<Rightarrow> Round \<Rightarrow> RoundState \<Rightarrow> Report \<Rightarrow> 'b \<Rightarrow> ((RecoveryError + Engine \<times> (int, int) fmap) \<times> Report \<times> 'b) option" where
  "restoreRound bd opts rnd state rep b =
     (case prepare_of opts (rd_Content state) of
        Inl (ErrContentVersionUnknown p v) \<Rightarrow> Some (Inl (RecContent (ro_Tick rnd) (rd_Content state) p v), rep, b)
      | Inl (ZonesAtFailed err) \<Rightarrow> Some (Inl (RecPrepare err), rep, b)
      | Inr topo \<Rightarrow> (case roundBoundary bd (ro_Tick rnd) b of
            None \<Rightarrow> None
          | Some (Inl err, b') \<Rightarrow> Some (Inl err, rep, b')
          | Some (Inr rb, b') \<Rightarrow>
              (let rep' = rep\<lparr>rp_HeadProducedAt := bo_ProducedAt rb\<rparr> in
               case RestoreEngine (the_world topo) (tp_Templates topo) (op_Config opts) (state\<lparr>rd_RecordedHash := tc_StateHash (bo_Completed rb)\<rparr>) of
                 Inl err \<Rightarrow> Some (Inl (RecRestore err), rep', b')
               | Inr e \<Rightarrow> Some (Inr (e, fmap_of_list (rev (map (\<lambda>po. (po_Partition po, po_Offset po)) (rd_Offsets state)))), rep', b'))))"

definition startCold :: "Options \<Rightarrow> RecoveryError + Engine \<times> (int, int) fmap" where
  "startCold opts =
     (case (case op_Prepare opts of None \<Rightarrow> Inr \<lparr>tp_World = Some EmptyWorld, tp_Templates = None\<rparr> | Some prepare \<Rightarrow> prepare fmempty) of
        Inl (ErrContentVersionUnknown p v) \<Rightarrow> Inl (RecPrepare p)
      | Inl (ZonesAtFailed err) \<Rightarrow> Inl (RecPrepare err)
      | Inr topo \<Rightarrow> let e = NewEngine (the_world topo) (tp_Templates topo) (op_Config opts) in Inr (e, fmmap (\<lambda>_. 0) (ws_Offsets (en_state e))))"

text \<open>A replay that failed: a mismatch is reported, and a content digest halts as one does.\<close>

definition replayFailure :: "RecoveryError \<Rightarrow> Report \<Rightarrow> RecoveryError \<times> Report" where
  "replayFailure err rep = (case err of
       RecReplay (HashMismatch tick recorded replayed) \<Rightarrow> (err, rep\<lparr>rp_MismatchTick := tick, rp_Expected := recorded, rp_Actual := replayed\<rparr>)
     | RecReplay (ReplayStep tick (ContentDigestError p v recorded built)) \<Rightarrow> (RecDigest (ReplayStep tick (ContentDigestError p v recorded built)), rep)
     | _ \<Rightarrow> (err, rep))"

definition finishReplay :: "((RecoveryError + Engine) \<times> Report) \<Rightarrow> (Failure + Engine) \<times> Report" where
  "finishReplay res = (case res of
       (Inl err, rep) \<Rightarrow> (case replayFailure err rep of (err', rep') \<Rightarrow> (Inl (Classify err'), rep'))
     | (Inr e, rep) \<Rightarrow> (Inr e, rep\<lparr>rp_Tick := ws_Tick (en_state e), rp_Match := True, rp_Actual := StateHash (en_state e), rp_Expected := StateHash (en_state e)\<rparr>))"

definition openAndReplay :: "'b Boundaries \<Rightarrow> Options \<Rightarrow> Engine \<Rightarrow> (int, int) fmap \<Rightarrow> Report \<Rightarrow> 'b \<Rightarrow> ((Failure + Engine) \<times> Report) option" where
  "openAndReplay bd opts e offsets rep b =
     (case op_OpenRecords opts offsets of Inl err \<Rightarrow> Some (Inl (Classify (RecOpen err)), rep)
      | Inr src \<Rightarrow> map_option finishReplay (replay bd opts src e rep b))"

definition Recover :: "'b Boundaries \<Rightarrow> Options \<Rightarrow> 'b \<Rightarrow> ((Failure + Engine) \<times> Report) option" where
  "Recover bd opts b =
     (case selectRound opts of Inl err \<Rightarrow> Some (Inl (Classify err), no_report)
      | Inr (Some (rnd, state)) \<Rightarrow>
          (let rep = no_report\<lparr>rp_Round := rnd\<rparr> in
           case restoreRound bd opts rnd state rep b of None \<Rightarrow> None
           | Some (Inl err, rep', _) \<Rightarrow> Some (Inl (Classify err), rep')
           | Some (Inr (e, offsets), rep', b') \<Rightarrow> openAndReplay bd opts e offsets rep' b')
      | Inr None \<Rightarrow> (case startCold opts of Inl err \<Rightarrow> Some (Inl (Classify err), no_report)
          | Inr (e, offsets) \<Rightarrow> openAndReplay bd opts e offsets no_report b))"

section \<open>Replaying in batches\<close>

lemma Step_replaying: "Step e records = Inr (e', res) \<Longrightarrow> en_replaying e' = en_replaying e"
proof -
  have one: "en_replaying (wp_e (finishSwap t w p)) = en_replaying (wp_e w)" for t w p
    by (simp add: finishSwap_def applySwap_def Let_def split: option.split)
  have "en_replaying (wp_e (run_tick e records prepared)) = en_replaying e" for prepared
    unfolding run_tick_def Let_def by (subst foldl_frame[of "\<lambda>w. en_replaying (wp_e w)", OF one]) simp
  then show "Step e records = Inr (e', res) \<Longrightarrow> en_replaying e' = en_replaying e"
    by (auto simp: Step_def Let_def split: option.splits sum.splits)
qed

lemma replayLoop_Cons:
  assumes "replayLoop e (b # bs) src after = Inr e'"
  obtains records e1 res where "Step e records = Inr (e1, res)" "tc_Tick b = ws_Tick (en_state e) + 1" "replayLoop e1 bs src after = Inr e'"
    "tc_StateHash b = StateHash (en_state e1)"
proof -
  obtain records where g: "gather (en_state e) b src (keys (tc_Offsets b)) = Inr records" "tc_Tick b = ws_Tick (en_state e) + 1" "tc_StateVersion b = ws_Version (en_state e)"
    using assms by (auto split: if_splits sum.splits)
  obtain e1 res where s: "Step e records = Inr (e1, res)" using assms g by (cases "Step e records") auto
  have "replayLoop e1 bs src after = Inr e'" "tc_StateHash b = tc_StateHash (sr_Completed res)" using assms g s by (auto split: if_splits option.splits)
  then show thesis using that[OF s g(2)] Step_input(5)[OF s] by simp
qed

lemma replayLoop_keeps:
  "replayLoop e bs src after = Inr e' \<Longrightarrow> en_replaying e' = en_replaying e \<and> ws_Tick (en_state e') = last (ws_Tick (en_state e) # map tc_Tick bs)
     \<and> (bs \<noteq> [] \<longrightarrow> StateHash (en_state e') = tc_StateHash (last bs))"
proof (induction bs arbitrary: e)
  case (Cons b bs)
  obtain records e1 res where s: "Step e records = Inr (e1, res)" "tc_Tick b = ws_Tick (en_state e) + 1" "replayLoop e1 bs src after = Inr e'" "tc_StateHash b = StateHash (en_state e1)"
    by (rule replayLoop_Cons[OF Cons.prems])
  have "e' = e1" if "bs = []" using s(3) that by simp
  then show ?case using Cons.IH[OF s(3)] Step_replaying[OF s(1)] Step_input(6)[OF s(1)] s(2,4) by auto
qed simp

lemma replayLoop_append:
  "replayLoop e (bs @ cs) src after = (case replayLoop e bs src after of Inl err \<Rightarrow> Inl err | Inr e' \<Rightarrow> replayLoop e' cs src after)"
proof (induction bs arbitrary: e)
  case (Cons b bs)
  then show ?case by (simp split: sum.split option.split)
qed simp

lemma replaying_again: "en_replaying e \<Longrightarrow> e\<lparr>en_replaying := True\<rparr> = e"
  by (cases e) simp

lemma ReplayEach_append:
  "ReplayEach e (bs @ cs) src after = (case ReplayEach e bs src after of Inl err \<Rightarrow> Inl err | Inr e' \<Rightarrow> ReplayEach e' cs src after)"
proof (cases "replayLoop (e\<lparr>en_replaying := True\<rparr>) bs src after")
  case (Inr e1)
  then have "e1\<lparr>en_replaying := True\<rparr> = e1" using replayLoop_keeps[OF Inr] by (simp add: replaying_again)
  then show ?thesis using Inr by (simp add: ReplayEach_def replayLoop_append)
qed (simp add: ReplayEach_def replayLoop_append)

lemma ReplayEach_keeps:
  assumes "ReplayEach e bs src after = Inr e'"
  shows "\<not> en_replaying e'" "ws_Tick (en_state e') = last (ws_Tick (en_state e) # map tc_Tick bs)" "bs \<noteq> [] \<Longrightarrow> StateHash (en_state e') = tc_StateHash (last bs)"
proof -
  obtain e1 where "replayLoop (e\<lparr>en_replaying := True\<rparr>) bs src after = Inr e1" "e' = e1\<lparr>en_replaying := False\<rparr>"
    using assms by (cases "replayLoop (e\<lparr>en_replaying := True\<rparr>) bs src after") (auto simp: ReplayEach_def)
  then show "\<not> en_replaying e'" "ws_Tick (en_state e') = last (ws_Tick (en_state e) # map tc_Tick bs)" "bs \<noteq> [] \<Longrightarrow> StateHash (en_state e') = tc_StateHash (last bs)"
    using replayLoop_keeps by fastforce+
qed

lemma ReplayEach_Nil: "\<not> en_replaying e \<Longrightarrow> ReplayEach e [] src after = Inr e"
  by (cases e) (simp add: ReplayEach_def)

section \<open>A World that is served reproduced its history\<close>















section \<open>Recovery reaches the head\<close>

text \<open>
  A reader that will deliver some boundaries: whatever number is asked for, it answers with as many of the
  next ones as it has ready, none at all if a poll times out, but not forever.
\<close>

inductive serves :: "'b Boundaries \<Rightarrow> 'b \<Rightarrow> Boundary list \<Rightarrow> bool" for bd where
  serves_done: "serves bd b []"
| serves_more: "(\<And>max. 1 \<le> max \<Longrightarrow> \<exists>j b'. j \<le> max \<and> bd_Next bd max b = (Inr (take j bs), b') \<and> serves bd b' (drop j bs)) \<Longrightarrow> serves bd b bs"

text \<open>Seeking to a tick finds the boundaries after it; asking for the head moves nothing.\<close>

definition reads :: "'b Boundaries \<Rightarrow> 'b \<Rightarrow> u64 \<Rightarrow> Boundary list \<Rightarrow> u64 \<Rightarrow> bool" where
  "reads bd b tick bs head \<longleftrightarrow> (\<exists>at b1. bd_SeekAfter bd (tick - 1) b = (Inr at, b1) \<and> bd_BoundaryAfter bd b1 \<and> serves bd b1 bs)
     \<and> (\<forall>b cs. serves bd b cs \<longrightarrow> (\<exists>b'. bd_HeadTick bd b = (Inr head, b') \<and> serves bd b' cs))"

lemma roundLoop_finds:
  assumes "serves bd b bs" "bs = skipped @ rb # rest" "\<forall>x \<in> set skipped. bo_Tick x < tick" "bo_Tick rb = tick"
  shows "\<exists>b'. roundLoop bd tick b = Some (Inr rb, b') \<and> serves bd b' rest"
  using assms
proof (induction arbitrary: skipped rule: serves.induct)
  case (serves_more b bs)
  obtain j b' where j: "j \<le> 1" "bd_Next bd 1 b = (Inr (take j bs), b')" "serves bd b' (drop j bs)"
    and ih: "\<And>sk. drop j bs = sk @ rb # rest \<Longrightarrow> \<forall>x \<in> set sk. bo_Tick x < tick \<Longrightarrow> \<exists>b''. roundLoop bd tick b' = Some (Inr rb, b'') \<and> serves bd b'' rest"
    using serves_more.IH[of 1] serves_more.prems(3) by blast
  show ?case
  proof (cases j)
    case 0
    then show ?thesis using ih[of skipped] j(2) serves_more.prems(1,2) by (simp add: roundLoop.simps[of bd tick b])
  next
    case (Suc n)
    then have j1: "j = 1" using j(1) by simp
    show ?thesis
    proof (cases skipped)
      case Nil
      then show ?thesis using j(2,3) serves_more.prems(1,3) by (simp add: roundLoop.simps[of bd tick b] j1)
    next
      case (Cons x xs)
      have "drop j bs = xs @ rb # rest" "\<forall>x \<in> set xs. bo_Tick x < tick" using Cons serves_more.prems(1,2) by (simp_all add: j1)
      from ih[OF this] show ?thesis using j(2) Cons serves_more.prems(1,2) by (simp add: roundLoop.simps[of bd tick b] j1)
    qed
  qed
qed simp

lemma due_all:
  assumes "sorted_wrt (<) (ws_Tick (en_state e) # map bo_Tick bs)" "last (ws_Tick (en_state e) # map bo_Tick bs) = head"
  shows "due head e (take j bs) = take j bs"
proof -
  have "ws_Tick (en_state e) < bo_Tick b \<and> bo_Tick b \<le> head" if "b \<in> set bs" for b
  proof
    show "ws_Tick (en_state e) < bo_Tick b" using assms(1) that by simp
    have "sorted (map bo_Tick bs)" using assms(1) by (simp add: strict_sorted_imp_sorted)
    moreover have "head = last (map bo_Tick bs)" using assms(2) that by (cases bs) auto
    ultimately show "bo_Tick b \<le> head" using that sorted_le_last[of "map bo_Tick bs" "bo_Tick b"] by simp
  qed
  then show ?thesis unfolding due_def by (intro filter_True) (auto dest: in_set_takeD)
qed

lemma replayFrom_reaches:
  assumes "serves bd b bs" "sorted_wrt (<) (ws_Tick (en_state e) # map bo_Tick bs)" "last (ws_Tick (en_state e) # map bo_Tick bs) = head"
    and "ReplayEach e (map bo_Completed bs) src (op_After opts) = Inr e'" "\<not> en_replaying e"
  shows "\<exists>rep'. replayFrom bd opts src head e rep b = Some (Inr e', rep') \<and> rp_Replayed rep' = rp_Replayed rep + of_nat (length bs)"
  using assms
proof (induction arbitrary: e rep rule: serves.induct)
  case (serves_done b)
  then have "e' = e" using ReplayEach_Nil[of e] by simp
  then show ?case using serves_done by (simp add: replayFrom.simps[of bd opts src head e rep b])
next
  case (serves_more b bs)
  note P = serves_more.prems
  show ?case
  proof (cases "bs = []")
    case True
    then have "e' = e" using P(3,4) ReplayEach_Nil[of e] by simp
    then show ?thesis using P(2) True by (simp add: replayFrom.simps[of bd opts src head e rep b])
  next
    case False
    have "last (map bo_Tick bs) = head" "last (map bo_Tick bs) \<in> set (map bo_Tick bs)" using P(2) False last_in_set[of "map bo_Tick bs"] by (cases bs; simp)+
    then have lt: "ws_Tick (en_state e) < head" using P(1) by (auto simp del: last_in_set)
    have m: "1 \<le> replay_batch opts" by (auto simp: replay_batch_def Suc_le_eq)
    obtain j b' where j: "bd_Next bd (replay_batch opts) b = (Inr (take j bs), b')"
      and ih: "\<And>e rep. sorted_wrt (<) (ws_Tick (en_state e) # map bo_Tick (drop j bs)) \<Longrightarrow> last (ws_Tick (en_state e) # map bo_Tick (drop j bs)) = head \<Longrightarrow>
        ReplayEach e (map bo_Completed (drop j bs)) src (op_After opts) = Inr e' \<Longrightarrow> \<not> en_replaying e \<Longrightarrow>
        \<exists>rep'. replayFrom bd opts src head e rep b' = Some (Inr e', rep') \<and> rp_Replayed rep' = rp_Replayed rep + of_nat (length (drop j bs))"
      using serves_more.IH[OF m] by blast
    note d = due_all[OF P(1,2), of j]
    show ?thesis
    proof (cases "take j bs = []")
      case True
      then have "drop j bs = bs" using False by (cases j; cases bs) auto
      then show ?thesis using ih[OF _ _ _ P(4), of rep] P(1-3) lt j d True by (simp add: replayFrom.simps[of bd opts src head e rep b] Let_def)
    next
      case some: False
      have split: "map bo_Completed bs = map bo_Completed (take j bs) @ map bo_Completed (drop j bs)" by (metis append_take_drop_id map_append)
      obtain e1 where e1: "ReplayEach e (map bo_Completed (take j bs)) src (op_After opts) = Inr e1" "ReplayEach e1 (map bo_Completed (drop j bs)) src (op_After opts) = Inr e'"
        using P(3) unfolding split ReplayEach_append by (auto split: sum.splits)
      note k = ReplayEach_keeps[OF e1(1)]
      have tick: "ws_Tick (en_state e1) = last (map bo_Tick (take j bs))" using k(2) some by (simp add: comp_def)
      have parts: "map bo_Tick bs = map bo_Tick (take j bs) @ map bo_Tick (drop j bs)" by (metis append_take_drop_id map_append)
      have mem: "last (map bo_Tick (take j bs)) \<in> set (map bo_Tick (take j bs))" using some by (intro last_in_set) simp
      have "sorted_wrt (<) (map bo_Tick (take j bs) @ map bo_Tick (drop j bs))" using P(1) unfolding parts[symmetric] by simp
      then have srt: "sorted_wrt (<) (ws_Tick (en_state e1) # map bo_Tick (drop j bs))" using mem unfolding sorted_wrt_append tick sorted_wrt.simps by blast
      have lst: "last (ws_Tick (en_state e1) # map bo_Tick (drop j bs)) = head"
        using P(2) False some unfolding parts tick by (cases "drop j bs = []") (simp_all add: last_map)
      let ?rep = "(head_seen head (take j bs) rep)\<lparr>rp_Replayed := rp_Replayed (head_seen head (take j bs) rep) + of_nat (length (take j bs))\<rparr>"
      have "rp_Replayed (head_seen head cs r) = rp_Replayed r" for cs r unfolding head_seen_def by (rule foldl_frame) simp
      then have r: "rp_Replayed ?rep = rp_Replayed rep + of_nat (length (take j bs))" by simp
      obtain rep' where rep': "replayFrom bd opts src head e1 ?rep b' = Some (Inr e', rep')" "rp_Replayed rep' = rp_Replayed ?rep + of_nat (length (drop j bs))"
        using ih[OF srt lst e1(2) k(1)] by blast
      have "length (take j bs) + length (drop j bs) = length bs" by (metis append_take_drop_id length_append)
      then have "rp_Replayed rep' = rp_Replayed rep + of_nat (length bs)" unfolding rep'(2) r by (metis add.assoc of_nat_add)
      then show ?thesis using rep'(1) lt j d some e1(1) by (simp add: replayFrom.simps[of bd opts src head e rep b] Let_def)
    qed
  qed
qed

text \<open>The ticks of a replay ascend, short of the end of the 64-bit range.\<close>

lemma replayLoop_ascends:
  "replayLoop e bs src after = Inr e' \<Longrightarrow> unat (ws_Tick (en_state e)) + length bs < 2 ^ 64 \<Longrightarrow> sorted_wrt (<) (ws_Tick (en_state e) # map tc_Tick bs)"
proof (induction bs arbitrary: e)
  case (Cons b bs)
  obtain records e1 res where s: "Step e records = Inr (e1, res)" "tc_Tick b = ws_Tick (en_state e) + 1" "replayLoop e1 bs src after = Inr e'"
    by (rule replayLoop_Cons[OF Cons.prems(1)])
  have t: "ws_Tick (en_state e1) = tc_Tick b" using Step_input(6)[OF s(1)] s(2) by simp
  have u: "unat (tc_Tick b) = unat (ws_Tick (en_state e)) + 1" using Cons.prems(2) unfolding s(2) by (simp add: unat_word_ariths)
  then have "sorted_wrt (<) (tc_Tick b # map tc_Tick bs)" using Cons.IH[OF s(3)] Cons.prems(2) unfolding t by simp
  moreover have "ws_Tick (en_state e) < tc_Tick b" using u by (simp add: word_less_nat_alt)
  ultimately show ?case by (auto intro: order.strict_trans)
qed simp

text \<open>
  What booting a process on the store and log of a run needs: the World's Zones are the ones listed,
  the run's seed and verb table, a content source that rebuilds the recorded topology, and the log's records.
\<close>

definition boots :: "Options \<Rightarrow> WorldStore \<Rightarrow> codec \<Rightarrow> Engine \<Rightarrow> log \<Rightarrow> bool" where
  "boots opts st cd e lg \<longleftrightarrow> op_Store opts = Some st \<and> op_Codec opts = cd \<and> op_Listed opts = keys (ws_Zones (en_state e)) \<and> op_ZonesAt opts = None \<and> op_Round opts = None
     \<and> prepare_of opts (en_versions e) = Inr \<lparr>tp_World = Some (en_world e), tp_Templates = en_templates e\<rparr>
     \<and> (\<forall>offsets. op_OpenRecords opts offsets = Inr (Fetch lg))
     \<and> EffectiveSeed (cfg_Seed (op_Config opts)) = ws_Seed (en_state e) \<and> ws_Seed (en_state e) \<noteq> 0
     \<and> cfg_Handlers (op_Config opts) = Handlers \<and> cfg_Content (op_Config opts) = cfg_Content (en_cfg e) \<and> (\<forall>xs. set (cfg_MapOrder (op_Config opts) xs) = set xs)
     \<and> (case StateVersionOf st (op_Listed opts) of Inl _ \<Rightarrow> False | Inr v \<Rightarrow> v \<le> StateVersion)"

lemma boots_resolves:
  assumes "wf_engine e" "boots opts st cd e lg"
  shows "resolves (zonesAt_of opts) e"
proof -
  have "keys (w_Zones (en_world e)) = keys (ws_Zones (en_state e))"
    using assms(1) by (intro sorted_distinct_set_unique) (simp_all add: wf_engine_def fmdom'_alt_def)
  then show ?thesis using assms(2) by (simp add: boots_def zonesAt_of_def resolves_def NewZonesAt_def)
qed

lemma stored_found:
  assumes "orderly (e, msgs)" "storable_keys e" "stored_round cd mb me st e t" "resolves zonesAt e"
    and "EffectiveSeed (cfg_Seed cfg) = ws_Seed (en_state e)" "ws_Seed (en_state e) \<noteq> 0"
  shows "\<exists>r s. NewestComplete cd st (keys (ws_Zones (en_state e))) zonesAt = Inr (Some (r, s))
    \<and> RestoreEngine (en_world e) (en_templates e) cfg (s\<lparr>rd_RecordedHash := StateHash (en_state e)\<rparr>) = Inr (restored e cfg)
    \<and> ro_Tick r = ws_Tick (en_state e) \<and> rd_Content s = en_versions e"
proof -
  let ?zs = "keys (ws_Zones (en_state e))"
  obtain r where n: "NewestComplete cd st ?zs zonesAt = Inr (Some (r, (round_of e)\<lparr>rd_RecordedHash := []\<rparr>))" using NewestComplete_stored[OF assms(1-4)] by blast
  obtain rounds where d: "discover st ?zs = Inr rounds" "newestOf cd st ?zs zonesAt rounds = Inr (Some (r, (round_of e)\<lparr>rd_RecordedHash := []\<rparr>))"
    using n by (auto simp: NewestComplete_def split: sum.splits)
  have "one_cut cd st ?zs zonesAt r ((round_of e)\<lparr>rd_RecordedHash := []\<rparr>)" using newestOf_one_cut[OF d(2)] discover_fresh[OF d(1)] by blast
  then have "ro_Tick r = ws_Tick (en_state e)" by (simp add: one_cut_def)
  moreover obtain r' s' where "NewestComplete cd st ?zs zonesAt = Inr (Some (r', s'))" "RestoreEngine (en_world e) (en_templates e) cfg (s'\<lparr>rd_RecordedHash := StateHash (en_state e)\<rparr>) = Inr (restored e cfg)"
    using stored_restores[OF assms] by blast
  ultimately show ?thesis using n by auto
qed

lemma Recover_boots:
  assumes "orderly (e, msgs)" "storable_keys e" "stored_round cd mb me st e t" "boots opts st cd e lg"
    and "history lg (e, msgs) ress (e', msgs')" "\<forall>res \<in> set ress. op_After opts res = None"
    and "reads bd b (ws_Tick (en_state e)) (skipped @ rb # rest) (ws_Tick (en_state e'))"
    and "\<forall>x \<in> set skipped. bo_Tick x < ws_Tick (en_state e)" "bo_Tick rb = ws_Tick (en_state e)" "tc_StateHash (bo_Completed rb) = StateHash (en_state e)"
    and "map bo_Completed rest = map sr_Completed ress" "0 < unat (ws_Tick (en_state e))" "unat (ws_Tick (en_state e)) + length ress < 2 ^ 64"
  shows "\<exists>e2 rep. Recover bd opts b = Some (Inr e2, rep) \<and> en_state e2 = en_state e' \<and> en_world e2 = en_world e' \<and> en_templates e2 = en_templates e'
    \<and> en_versions e2 = en_versions e' \<and> en_digest e2 = en_digest e' \<and> rp_Replayed rep = of_nat (length ress)"
proof -
  note wf = orderly_wf[OF assms(1)] and B = assms(4)[unfolded boots_def]
  obtain r s where r: "NewestComplete cd st (keys (ws_Zones (en_state e))) (zonesAt_of opts) = Inr (Some (r, s))"
    "RestoreEngine (en_world e) (en_templates e) (op_Config opts) (s\<lparr>rd_RecordedHash := StateHash (en_state e)\<rparr>) = Inr (restored e (op_Config opts))"
    "ro_Tick r = ws_Tick (en_state e)" "rd_Content s = en_versions e"
    using stored_found[OF assms(1-3) boots_resolves[OF wf assms(4)]] B by blast
  have sel: "selectRound opts = Inr (Some (r, s))"
    using B r(1) by (auto simp: selectRound_def Let_def split: sum.splits)
  obtain at b1 where sk: "bd_SeekAfter bd (ws_Tick (en_state e) - 1) b = (Inr at, b1)" "bd_BoundaryAfter bd b1" "serves bd b1 (skipped @ rb # rest)"
    using assms(7) by (auto simp: reads_def)
  obtain b2 where rl: "roundLoop bd (ws_Tick (en_state e)) b1 = Some (Inr rb, b2)" "serves bd b2 rest" using roundLoop_finds[OF sk(3) refl assms(8,9)] by blast
  have rbd: "roundBoundary bd (ro_Tick r) b = Some (Inr rb, b2)" using assms(12) sk(1,2) rl(1) by (auto simp: roundBoundary_def r(3))
  let ?e0 = "restored e (op_Config opts)"
  define offsets where "offsets = fmap_of_list (rev (map (\<lambda>po. (po_Partition po, po_Offset po)) (rd_Offsets s)))"
  define rep1 where "rep1 = no_report\<lparr>rp_Round := r, rp_HeadProducedAt := bo_ProducedAt rb\<rparr>"
  have rr: "restoreRound bd opts r s (no_report\<lparr>rp_Round := r\<rparr>) b = Some (Inr (?e0, offsets), rep1, b2)"
    using B r(2,4) rbd by (simp add: restoreRound_def the_world_def assms(10) offsets_def rep1_def)
  obtain b3 where hd: "bd_HeadTick bd b2 = (Inr (ws_Tick (en_state e')), b3)" "serves bd b3 rest" using assms(7) rl(2) unfolding reads_def by blast
  have ep: "plain (?e0\<lparr>en_replaying := True\<rparr>) = plain e" using B wf by (simp add: plain_def plain_cfg_def wf_engine_def restored_def)
  moreover have "wf_engine (?e0\<lparr>en_replaying := True\<rparr>)" using wf B by (simp add: wf_engine_def restored_def)
  ultimately obtain x where x: "replayLoop (?e0\<lparr>en_replaying := True\<rparr>) (map bo_Completed rest) (Fetch lg) (op_After opts) = Inr x" "plain x = plain e'"
    using replay_loop[OF assms(5) reachable_sound[OF orderly_reachable[OF assms(1)]], of "?e0\<lparr>en_replaying := True\<rparr>" "op_After opts"] assms(6,11) by auto
  have st: "ws_Tick (en_state ?e0) = ws_Tick (en_state e)" "\<not> en_replaying ?e0" by (simp_all add: restored_def)
  have len: "length rest = length ress" using arg_cong[OF assms(11), of length] by simp
  have each: "ReplayEach ?e0 (map bo_Completed rest) (Fetch lg) (op_After opts) = Inr (x\<lparr>en_replaying := False\<rparr>)" using x(1) by (simp add: ReplayEach_def)
  have asc: "sorted_wrt (<) (ws_Tick (en_state ?e0) # map bo_Tick rest)"
    using replayLoop_ascends[OF x(1)] assms(13) st(1) len by (simp add: comp_def)
  have xs: "en_state x = en_state e'" "en_world x = en_world e'" "en_templates x = en_templates e'" "en_versions x = en_versions e'" "en_digest x = en_digest e'"
    using plain_fields(1-5)[of x] plain_fields(1-5)[of e'] x(2) by simp_all
  have lst: "last (ws_Tick (en_state ?e0) # map bo_Tick rest) = ws_Tick (en_state e')" using replayLoop_keeps[OF x(1)] xs(1) by (simp add: comp_def)
  obtain rep2 where rp: "replayFrom bd opts (Fetch lg) (ws_Tick (en_state e')) ?e0 rep1 b3 = Some (Inr (x\<lparr>en_replaying := False\<rparr>), rep2)" "rp_Replayed rep2 = rp_Replayed rep1 + of_nat (length rest)"
    using replayFrom_reaches[OF hd(2) asc lst each st(2)] by blast
  have "openAndReplay bd opts ?e0 offsets rep1 b2 = map_option finishReplay (Some (Inr (x\<lparr>en_replaying := False\<rparr>), rep2))"
    using B by (simp add: openAndReplay_def replay_def hd(1) rp(1))
  then show ?thesis using rp(2) len xs unfolding Recover_def sel sum.case option.case prod.case Let_def rr
    by (simp add: finishReplay_def rep1_def no_report_def)
qed

text \<open>
  C4. A process that boots on the store and the log of an orderly run, which had stored its snapshots at
  some tick and run on, ends its recovery: it finds the round, finds the round's boundary in the log,
  restores, and replays to the head, in whatever batches the boundaries come and however many polls
  come back empty. It serves the World the run had reached, having replayed every tick after the
  round.
\<close>
theorem Recover_reaches_running_world:
  assumes "orderly (e, msgs)" "storable_keys e" "stored_round cd mb me st e t" "boots opts st cd e lg"
    and "history lg (e, msgs) ress (e', msgs')" "\<forall>res \<in> set ress. op_After opts res = None"
    and "reads bd b (ws_Tick (en_state e)) (skipped @ rb # rest) (ws_Tick (en_state e'))"
    and "\<forall>x \<in> set skipped. bo_Tick x < ws_Tick (en_state e)" "bo_Tick rb = ws_Tick (en_state e)" "tc_StateHash (bo_Completed rb) = StateHash (en_state e)"
    and "map bo_Completed rest = map sr_Completed ress" "0 < unat (ws_Tick (en_state e))" "unat (ws_Tick (en_state e)) + length ress < 2 ^ 64"
  shows "\<exists>e2 rep. Recover bd opts b = Some (Inr e2, rep) \<and> en_state e2 = en_state e' \<and> en_world e2 = en_world e' \<and> en_templates e2 = en_templates e'
    \<and> en_versions e2 = en_versions e' \<and> en_digest e2 = en_digest e' \<and> rp_Replayed rep = of_nat (length ress)"
  using assms by (rule Recover_boots)

section \<open>A process that boots\<close>

text \<open>A reader over a list of boundaries.\<close>

definition list_reader :: "u64 \<Rightarrow> Boundary list Boundaries" where
  "list_reader head = \<lparr>bd_SeekAfter = (\<lambda>_ bs. (Inr 0, bs)), bd_BoundaryAfter = (\<lambda>bs. bs \<noteq> []), bd_Next = (\<lambda>max bs. (Inr (take max bs), drop max bs)),
     bd_HeadTick = (\<lambda>bs. (Inr head, bs))\<rparr>"

lemma serves_list: "serves (list_reader head) bs bs"
proof (induction "length bs" arbitrary: bs rule: less_induct)
  case less
  show ?case
  proof (cases "bs = []")
    case False
    show ?thesis
    proof (rule serves_more)
      fix max :: nat assume "1 \<le> max"
      then have "serves (list_reader head) (drop max bs) (drop max bs)" using less[of "drop max bs"] False by simp
      then show "\<exists>j b'. j \<le> max \<and> bd_Next (list_reader head) max bs = (Inr (take j bs), b') \<and> serves (list_reader head) b' (drop j bs)"
        by (intro exI[of _ max] exI[of _ "drop max bs"]) (simp add: list_reader_def)
    qed
  qed (simp add: serves_done)
qed

lemma reads_list: "bs \<noteq> [] \<Longrightarrow> reads (list_reader head) bs tick bs head"
  using serves_list[of head bs] by (auto simp: reads_def list_reader_def)

definition sample_options :: "Engine \<Rightarrow> Options" where
  "sample_options e = \<lparr>op_Store = Some (sample_store e), op_Codec = sample_codec e, op_Listed = keys (ws_Zones (en_state e)), op_ZonesAt = None,
     op_OpenRecords = (\<lambda>_. Inr (Fetch sample_log)), op_Config = ex_config, op_PrepareContent = (\<lambda>_. Inr \<lparr>tp_World = Some (en_world e), tp_Templates = en_templates e\<rparr>),
     op_Prepare = None, op_Round = None, op_RequireSnapshot = True, op_ReplayBatch = 0, op_After = (\<lambda>_. None)\<rparr>"

lemma sample_version:
  assumes "orderly (e, msgs)" "storable_keys e"
  shows "case StateVersionOf (sample_store e) (keys (ws_Zones (en_state e))) of Inl _ \<Rightarrow> False | Inr v \<Rightarrow> v \<le> StateVersion"
proof -
  have f: "snd (fst x) = StateVersion" if "listAll (sample_store e) zs = Inr found" "x \<in> set found" "set zs \<subseteq> fmdom' (ws_Zones (en_state e))" for zs found x
    using that
  proof (induction zs arbitrary: found)
    case (Cons z zs)
    obtain rest where r: "listAll (sample_store e) zs = Inr rest" "found = foundRef z (Key (snapshot_of e 0 z)) @ rest"
      using Cons.prems(1) by (cases "listAll (sample_store e) zs") (auto simp: sample_store_def)
    obtain off where k: "ParseSnapshotKey (Key (snapshot_of e 0 z)) = Some (z, StateVersion, ws_Tick (en_state e), off)"
      using Key_parses[OF assms, of z 0] Cons.prems(3) by auto
    show ?case
    proof (cases "x \<in> set rest")
      case True
      then show ?thesis using Cons.IH[OF r(1)] Cons.prems(3) by simp
    next
      case False
      then show ?thesis using Cons.prems(2) r(2) k by (simp add: foundRef_def)
    qed
  qed simp
  obtain r rest where d: "discover (sample_store e) (keys (ws_Zones (en_state e))) = Inr (r # rest)" using discover_stored[OF assms sample_stored[OF assms]] by blast
  obtain found where l: "listAll (sample_store e) (keys (ws_Zones (en_state e))) = Inr found" "r # rest = map (round_at found) (rev (sort (remdups (map fst found))))"
    using d by (cases "listAll (sample_store e) (keys (ws_Zones (en_state e)))") (auto simp: discover_def)
  have "ro_StateVersion x = StateVersion" if "x \<in> set (r # rest)" for x using that f[OF l(1)] unfolding l(2) by (auto simp: round_at_def)
  moreover have "\<forall>x \<in> set xs. ro_StateVersion x = StateVersion \<Longrightarrow> v \<le> StateVersion \<Longrightarrow> foldl (\<lambda>newest x. max newest (ro_StateVersion x)) v xs \<le> StateVersion" for xs v
    by (induction xs arbitrary: v) simp_all
  ultimately have "foldl (\<lambda>newest x. max newest (ro_StateVersion x)) 0 (r # rest) \<le> StateVersion" by (metis word_zero_le)
  then show ?thesis by (simp add: StateVersionOf_def d)
qed

lemma engine1_keys: "storable_keys engine1"
proof -
  obtain res where s: "Step boot [bind_record] = Inr (engine1, res)" by (rule engine1_step)
  have wf: "wf_engine engine1" "wf_engine boot" using orderly_wf sample_orderly(1,2) by blast+
  have dom: "fmdom' (ws_Zones (en_state engine1)) = fmdom' (ws_Zones (en_state boot))" using wf by (simp add: wf_engine_def fmdom'_alt_def)
  have "list_all (\<lambda>zid. CHR ''/'' \<notin> set zid) (keys (ws_Zones (en_state engine1)))" using boot_keys dom by (simp add: storable_keys_def list_all_iff)
  moreover have "list_all (\<lambda>(p, off). - (2 ^ 63) \<le> off \<and> off < 2 ^ 63) (entries (ws_Offsets (en_state engine1)))"
  proof -
    have "0 \<le> off \<and> off \<le> 1" if o: "fmlookup (ws_Offsets (en_state engine1)) p = Some off" for p off
    proof -
      obtain off0 where "fmlookup (ws_Offsets (en_state boot)) p = Some off0" "off = off0 + int (length (byPart [bind_record] p))" 
        using Step_offsets[OF wf(2) s, of p] o by (cases "fmlookup (ws_Offsets (en_state boot)) p") auto
      moreover have "off0 = 0" using calculation(1) by (auto simp: boot_state NewWorldState_def fmap_of_list.rep_eq map_of_map_restrict o_def restrict_map_def split: if_splits)
      ultimately show ?thesis by (simp add: byPart_def)
    qed
    then show ?thesis by (fastforce simp: list_all_iff set_entries)
  qed
  moreover have "ws_Zones (en_state engine1) \<noteq> fmempty" by (metis engine1_fields(2) fmempty_lookup option.distinct(1))
  ultimately show ?thesis by (simp add: storable_keys_def)
qed

lemma sample_boots: "boots (sample_options engine1) (sample_store engine1) (sample_codec engine1) engine1 sample_log"
proof -
  obtain res where s: "Step boot [bind_record] = Inr (engine1, res)" by (rule engine1_step)
  have "ws_Seed (en_state engine1) = ws_Seed (en_state boot)" using Step_fixed[OF wf_boot s] by simp
  then have "EffectiveSeed (cfg_Seed ex_config) = ws_Seed (en_state engine1)" "ws_Seed (en_state engine1) \<noteq> 0"
    by (simp_all add: boot_state NewWorldState_def EffectiveSeed_def ex_config_def)
  then show ?thesis using sample_version[OF sample_orderly(2) engine1_keys]
    by (simp add: boots_def sample_options_def prepare_of_def ex_config_def)
qed

text \<open>The boundaries of ticks 1 and 2 of the sample run, the first its round's own.\<close>

lemma sample_tail:
  obtains res where "history sample_log (engine1, {}) [res] (engine2, {sample_arrive})" "ws_Tick (en_state engine2) = 2"
proof -
  obtain res where r: "Step engine1 [move_record] = Inr (engine2, res)" "sr_Outbound res = [sample_arrive]" by (rule engine2_step)
  have "history sample_log (engine1, {}) [res] (engine2, {} \<union> set (sr_Outbound res))"
    by (rule history.tick[OF _ _ r(1) _ history.none])
      (simp_all add: r(2) sent_def quiet_def move_record_def ex_record_def unwrapped_def sample_arrive_def arriveFor_def sample_transit_def departure_def logged_def sample_log_def)
  moreover have "ws_Tick (en_state engine2) = 2" using Step_input(6)[OF r(1)] by simp
  ultimately show thesis using that[of res] by (simp add: r(2))
qed

definition sample_boundary :: Boundary where
  "sample_boundary = \<lparr>bo_Completed = \<lparr>tc_Tick = 1, tc_Offsets = fmempty, tc_StateHash = StateHash (en_state engine1), tc_StateVersion = 1, tc_EventsEmitted = 0, tc_CommandsApplied = 0\<rparr>,
     bo_ProducedAt = 0\<rparr>"

theorem Recover_reaches_running_world_witness:
  "\<exists>bs e2 rep. Recover (list_reader 2) (sample_options engine1) bs = Some (Inr e2, rep) \<and> rp_Replayed rep = 1
     \<and> fmlookup (zs_Transit (zone_of (en_state e2) ''town'')) ''ann'' = Some sample_transit"
proof -
  obtain res where h: "history sample_log (engine1, {}) [res] (engine2, {sample_arrive})" "ws_Tick (en_state engine2) = 2" by (rule sample_tail)
  define last_b where "last_b = \<lparr>bo_Completed = sr_Completed res, bo_ProducedAt = 7\<rparr>"
  have "\<exists>e2 rep. Recover (list_reader 2) (sample_options engine1) ([] @ sample_boundary # [last_b]) = Some (Inr e2, rep) \<and> en_state e2 = en_state engine2 \<and> en_world e2 = en_world engine2
      \<and> en_templates e2 = en_templates engine2 \<and> en_versions e2 = en_versions engine2 \<and> en_digest e2 = en_digest engine2 \<and> rp_Replayed rep = of_nat (length [res])"
    by (rule Recover_reaches_running_world[where skipped = "[]" and rb = sample_boundary and rest = "[last_b]", OF sample_orderly(2) engine1_keys sample_stored[OF sample_orderly(2) engine1_keys] sample_boots h(1)])
      (use reads_list[of "[] @ sample_boundary # [last_b]" 2 1] in \<open>simp_all add: sample_options_def h(2) sample_boundary_def last_b_def\<close>)
  then obtain e2 rep where "Recover (list_reader 2) (sample_options engine1) ([] @ sample_boundary # [last_b]) = Some (Inr e2, rep)" "en_state e2 = en_state engine2" "rp_Replayed rep = 1" by auto
  then show ?thesis using sample_where(3) by (intro exI[of _ "[] @ sample_boundary # [last_b]"] exI[of _ e2] exI[of _ rep]) simp
qed


end
