(* ===== verification/Fault_Replay.thy ===== *)
theory Fault_Replay
  imports Recovery
begin

text \<open>
  A tick in which a Zone faults, and its replay (\<^verbatim>\<open>server/sim/engine.go\<close>). The comment on
  \<^verbatim>\<open>ZoneState.Faulted\<close> says that the same records panic at the same point on replay. The boundary of
  such a tick records the offset the Partition stopped at, before the record that panicked, so the
  replay of that boundary never fetches it, while the hash it must come to is that of the faulted Zone.
\<close>

lemma expire_faulted: "zs_Faulted (zone_of (tk_State (expireLinkdead t h)) z) = zs_Faulted (zone_of (tk_State h) z)"
proof -
  have one: "zs_Faulted (zone_of (tk_State (expire_one t zid h eid)) z) = zs_Faulted (zone_of (tk_State h) z)" for zid h eid
    by (auto simp: expire_one_def despawn_def Let_def emit_def upd_zone_def zone_of_def mutate_entity_def split: option.split)
  have "zs_Faulted (zone_of (tk_State (expire_zone t h zid)) z) = zs_Faulted (zone_of (tk_State h) z)" for zid h
    by (simp add: expire_zone_def Let_def foldl_frame[of "\<lambda>h. zs_Faulted (zone_of (tk_State h) z)" "expire_one t zid", OF one])
  then show ?thesis unfolding expireLinkdead_def by (rule foldl_frame)
qed

text \<open>
  C35. A tick of one record whose handler panics, in a Zone that is sound: the tick succeeds and records the
  fault, and the replay of its boundary is refused, whatever the log holds, unless two different
  states have one State Hash.
\<close>
theorem faulted_tick_does_not_replay:
  assumes "validate_input (en_state e) [r] (parts_of [r]) = None" "KindOf (rc_Command r) \<noteq> ''content_swap''" "PartitionFor (lc_ZoneId (rc_Command r)) = rc_Partition r"
    and "lc_ZoneId (rc_Command r) |\<in>| fmdom (ws_Zones (en_state e))" "cfg_Handlers (en_cfg e) (KindOf (rc_Command r)) = Some applyf"
    and "applyf (context_of e (ws_Tick (en_state e) + 1) (lc_ZoneId (rc_Command r)) r) (rc_Command r) (st_h (start e)) = Panicked m h" "ws_Offsets (tk_State h) = ws_Offsets (en_state e)"
  shows "\<exists>e' res. Step e [r] = Inr (e', res) \<and> sr_Faults res \<noteq> [] \<and> sr_Unapplied res = [r]
    \<and> (\<forall>src e2. Replay e [sr_Completed res] src = Inr e2 \<longrightarrow> en_state e2 \<noteq> en_state e' \<and> StateHash (en_state e2) = StateHash (en_state e'))"
proof -
  let ?z = "lc_ZoneId (rc_Command r)" and ?t = "ws_Tick (en_state e) + 1"
  have parts: "parts_of [r] = [rc_Partition r]" "byPart [r] (rc_Partition r) = [r]" "swapRecs [r] = []"
    using assms(2) by (simp_all add: parts_of_def byPart_def swapRecs_def)
  have start: "(st_h (start e))\<lparr>tk_bind := None, tk_jump := None\<rparr> = st_h (start e)" by (simp add: start_def)
  obtain zone where zone: "fmlookup (ws_Zones (en_state e)) ?z = Some zone" using assms(4) by (auto simp: fmlookup_dom_iff)
  define ss1 where "ss1 = snd (applyOne e ?t ?z r (start e))"
  have one: "applyOne e ?t ?z r (start e) = (False, ss1)" "ws_Offsets (tk_State (st_h ss1)) = ws_Offsets (en_state e)" "zs_Faulted (zone_of (tk_State (st_h ss1)) ?z)"
    "st_Faults ss1 \<noteq> []" "st_Unapplied ss1 = []"
    unfolding ss1_def applyOne_def assms(5) option.case Let_def start assms(6) outcome.case
    using assms(7) by (simp_all add: observe_def st_emit_def emit_def fault_zone_def start_def Let_def)
  define ss where "ss = applyRecords e ?t [r]"
  have "ss = ss1\<lparr>st_Unapplied := [r]\<rparr>"
    using assms(2,3) zone one(1,5) by (simp add: ss_def applyRecords_def parts Let_def) (simp add: start_def)
  then have ss: "ws_Offsets (tk_State (st_h ss)) = ws_Offsets (en_state e)" "zs_Faulted (zone_of (tk_State (st_h ss)) ?z)" "st_Faults ss \<noteq> []" "st_Unapplied ss = [r]"
    using one by simp_all
  have "prepareSwaps e [] = Inr []" for e by (simp add: prepareSwaps_def)
  then obtain e' res where s: "Step e [r] = Inr (e', res)" "en_state e' = (tk_State (expireLinkdead ?t (st_h ss)))\<lparr>ws_Tick := ?t\<rparr>" "sr_Faults res = st_Faults ss" "sr_Unapplied res = [r]"
    using assms(1) ss(4) by (simp add: Step_def parts(3) run_tick_def Let_def ss_def)
  note i = Step_input[OF s(1)]
  have off: "tc_Offsets (sr_Completed res) = ws_Offsets (en_state e)" using i(2) s(2) ss(1) by simp
  have faulted: "zs_Faulted (zone_of (en_state e') ?z)" using ss(2) by (simp add: s(2) expire_faulted zone_of_def[of "x\<lparr>ws_Tick := ?t\<rparr>" for x] zone_of_def[symmetric])
  have "rc_Partition r \<notin> set (FaultedPartitions (en_state e))" using assms(1) unfolding parts(1) by (auto split: option.splits if_splits)
  then have sound: "\<not> zs_Faulted (zone_of (en_state e) ?z)" using assms(3,4)
    by (auto simp: FaultedPartitions_def fmdom'_alt_def dest: notE[OF _ rev_image_eqI])
  have "en_state e2 \<noteq> en_state e' \<and> StateHash (en_state e2) = StateHash (en_state e')" if R: "Replay e [sr_Completed res] src = Inr e2" for src e2
  proof -
    let ?e = "e\<lparr>en_replaying := True\<rparr>"
    have "gather (en_state e) (sr_Completed res) src ps = Inr []" if "set ps \<subseteq> fmdom' (ws_Offsets (en_state e))" for ps
      using that by (induction ps) (auto simp: off fmdom'_lookup)
    then have g: "gather (en_state ?e) (sr_Completed res) src (keys (tc_Offsets (sr_Completed res))) = Inr []" by (simp add: off)
    obtain x where x: "replayLoop ?e [sr_Completed res] src (\<lambda>_. None) = Inr x" "e2 = x\<lparr>en_replaying := False\<rparr>"
      using R by (cases "replayLoop ?e [sr_Completed res] src (\<lambda>_. None)") (auto simp: Replay_def ReplayEach_def)
    obtain res2 where st: "Step ?e [] = Inr (x, res2)" "tc_StateHash (sr_Completed res2) = tc_StateHash (sr_Completed res)"
      using x(1) g by (auto split: if_splits sum.splits)
    have "en_state x = (tk_State (expireLinkdead ?t (st_h (start ?e))))\<lparr>ws_Tick := ?t\<rparr>"
      using st(1) \<open>\<And>e. prepareSwaps e [] = Inr []\<close> by (auto simp: Step_def parts_of_def swapRecs_def run_tick_def applyRecords_def Let_def)
    then have "\<not> zs_Faulted (zone_of (en_state x) ?z)" using sound by (simp add: expire_faulted zone_of_def[of "x\<lparr>ws_Tick := ?t\<rparr>" for x] zone_of_def[symmetric]) (simp add: start_def)
    then show ?thesis using faulted x(2) Step_input(5)[OF st(1)] i(5) st(2) by auto
  qed
  then show ?thesis using s(1,3,4) ss(3) by (intro exI[of _ e'] exI[of _ res]) auto
qed

text \<open>The sample World with a verb that panics.\<close>

definition panicking :: Engine where
  "panicking = boot\<lparr>en_cfg := (en_cfg boot)\<lparr>cfg_Handlers := (\<lambda>k. Some (\<lambda>a c h. Panicked ''blew up'' h))\<rparr>\<rparr>"

theorem faulted_tick_does_not_replay_witness:
  "\<exists>e' res. Step panicking [ex_record ''town'' 0 (Move ''east'')] = Inr (e', res) \<and> sr_Faults res \<noteq> []
     \<and> (\<forall>src e2. Replay panicking [sr_Completed res] src = Inr e2 \<longrightarrow> en_state e2 \<noteq> en_state e' \<and> StateHash (en_state e2) = StateHash (en_state e'))"
proof -
  let ?r = "ex_record ''town'' 0 (Move ''east'')"
  have r: "rc_Partition ?r = PartitionFor ''town''" "lc_ZoneId (rc_Command ?r) = ''town''" "rc_Offset ?r = 0" by (simp_all add: ex_record_def ex_cmd_def)
  have st: "en_state panicking = en_state boot" by (simp add: panicking_def)
  have nf: "FaultedPartitions (en_state boot) = []" by (rule no_faults) (simp add: empty_zone_def)
  have v: "validate_input (en_state panicking) [?r] (parts_of [?r]) = None"
    unfolding st by (simp add: parts_of_def byPart_def r boot_offsets nf)
  have d: "''town'' |\<in>| fmdom (ws_Zones (en_state boot))" using boot_zones[of "''town''"] by (intro fmdomI) simp
  have "\<exists>e' res. Step panicking [?r] = Inr (e', res) \<and> sr_Faults res \<noteq> [] \<and> sr_Unapplied res = [?r]
    \<and> (\<forall>src e2. Replay panicking [sr_Completed res] src = Inr e2 \<longrightarrow> en_state e2 \<noteq> en_state e' \<and> StateHash (en_state e2) = StateHash (en_state e'))"
    by (rule faulted_tick_does_not_replay[OF v, where applyf = "\<lambda>a c h. Panicked ''blew up'' h" and m = "''blew up''" and h = "st_h (start panicking)"]) (use d in \<open>simp_all add: r st KindOf_def ex_record_def ex_cmd_def panicking_def start_def\<close>)
  then show ?thesis by blast
qed

end
