(* ===== verification/Round_Tags.thy ===== *)
theory Round_Tags
  imports Rounds
begin

text \<open>
  Round tags (\<^verbatim>\<open>server/store/tags.go\<close>): the grammar of tag names, the key a tag is stored under and
  how it is read back, the tags of a round, and tagging one. A store is the answers it gives; what an
  operation writes is the list of keys it puts, in order.
\<close>

section \<open>Names and keys\<close>

definition tagDir :: string where
  "tagDir = ''.tag''"

text \<open>The pattern \<^verbatim>\<open>^(deploy|rollback):[A-Za-z0-9._@+-]{1,200}$\<close>.\<close>

definition tag_char :: "char \<Rightarrow> bool" where
  "tag_char c \<longleftrightarrow> (CHR ''A'' \<le> c \<and> c \<le> CHR ''Z'') \<or> (CHR ''a'' \<le> c \<and> c \<le> CHR ''z'') \<or> (CHR ''0'' \<le> c \<and> c \<le> CHR ''9'') \<or> c \<in> set ''._@+-''"

definition ValidTagName :: "string \<Rightarrow> bool" where
  "ValidTagName name = list_ex (\<lambda>p. take (length p) name = p \<and> (let rest = drop (length p) name in 1 \<le> length rest \<and> length rest \<le> 200 \<and> list_all tag_char rest))
     [''deploy:'', ''rollback:'']"

definition TagKey :: "string \<Rightarrow> string \<Rightarrow> string" where
  "TagKey objectKey name = objectKey @ tagDir @ ''/'' @ name"

text \<open>\<^verbatim>\<open>strings.LastIndex\<close>.\<close>

definition LastIndex :: "string \<Rightarrow> string \<Rightarrow> nat option" where
  "LastIndex s sub = find (\<lambda>i. take (length sub) (drop i s) = sub) (rev [0..<Suc (length s)])"

definition ParseTagKey :: "string \<Rightarrow> (string \<times> string) option" where
  "ParseTagKey key = (case LastIndex key (tagDir @ ''/'') of None \<Rightarrow> None
     | Some i \<Rightarrow>
         let object = take i key; name = drop (i + length tagDir + 1) key in
         if ParseSnapshotKey object = None \<or> \<not> ValidTagName name then None else Some (object, name))"

section \<open>The tags of a round\<close>

record TagStore =
  ts_store :: WorldStore
  ts_ZoneTags :: "ZoneID \<Rightarrow> string + (string, string list) fmap"
  ts_ListTags :: "string \<Rightarrow> string + string list"
  ts_Delete :: "string \<Rightarrow> GetError option"
  ts_Put :: "string \<Rightarrow> string option"

datatype TagError =
    ErrTagName string
  | NoObjects
  | PutFailed string string
  | ListTagsFailed string
  | ErrRoundNotFound u64
  | TagSelect SelectError
  | ZoneTagsFailed ZoneID string

fun listNames :: "TagStore \<Rightarrow> string list \<Rightarrow> string + string list" where
  "listNames ts [] = Inr []"
| "listNames ts (k # ks) = (case ts_ListTags ts k of Inl err \<Rightarrow> Inl err | Inr names \<Rightarrow> map_sum (\<lambda>x. x) (\<lambda>rest. names @ rest) (listNames ts ks))"

definition RoundTags :: "TagStore option \<Rightarrow> string list \<Rightarrow> string + string list" where
  "RoundTags ts ks = (case ts of None \<Rightarrow> Inr []
     | Some ts \<Rightarrow> map_sum (\<lambda>x. x) (\<lambda>names. filter (\<lambda>n. count_list names n = length ks) (sort (remdups names))) (listNames ts ks))"

fun tagsByKey :: "TagStore \<Rightarrow> ZoneID list \<Rightarrow> (string, string list) fmap \<Rightarrow> TagError + (string, string list) fmap" where
  "tagsByKey ts [] byKey = Inr byKey"
| "tagsByKey ts (z # zs) byKey = (case ts_ZoneTags ts z of Inl err \<Rightarrow> Inl (ZoneTagsFailed z err) | Inr tags \<Rightarrow> tagsByKey ts zs (byKey ++\<^sub>f tags))"

abbreviation tags_at :: "(string, string list) fmap \<Rightarrow> string \<Rightarrow> string list" where
  "tags_at byKey k \<equiv> (case fmlookup byKey k of Some names \<Rightarrow> names | None \<Rightarrow> [])"

definition setTags :: "(string, string list) fmap \<Rightarrow> Round \<Rightarrow> Round" where
  "setTags byKey r =
     (let names = concat (map (\<lambda>ref. tags_at byKey (zr_Key ref)) (ro_Zones r))
      in r\<lparr>ro_Tagged := (names \<noteq> []), ro_Tags := filter (\<lambda>n. count_list names n = length (ro_Zones r)) (sort (remdups names))\<rparr>)"

definition attachTags :: "TagStore option \<Rightarrow> ZoneID list \<Rightarrow> Round list \<Rightarrow> TagError + Round list \<times> (string, string list) fmap" where
  "attachTags ts listed rounds = (case ts of None \<Rightarrow> Inr (rounds, fmempty)
     | Some ts \<Rightarrow> map_sum (\<lambda>x. x) (\<lambda>byKey. (map (setTags byKey) rounds, byKey)) (tagsByKey ts listed fmempty))"

text \<open>A listing of keys filed into the tags by snapshot key, as both stores' \<^verbatim>\<open>ZoneTags\<close> do it.\<close>

definition addTag :: "(string, string list) fmap \<Rightarrow> string \<Rightarrow> (string, string list) fmap" where
  "addTag into key = (case ParseTagKey key of None \<Rightarrow> into | Some (object, name) \<Rightarrow> fmupd object (tags_at into object @ [name]) into)"

definition sortTags :: "(string, string list) fmap \<Rightarrow> (string, string list) fmap" where
  "sortTags m = fmmap sort m"

definition zone_tags :: "string list \<Rightarrow> (string, string list) fmap" where
  "zone_tags ks = sortTags (foldl addTag fmempty ks)"

text \<open>\<^verbatim>\<open>ListRoundsWhere\<close> of \<^verbatim>\<open>rounds.go\<close>: a limit of 0 is none, and no match accepts every round.\<close>

datatype ListError = ListTags TagError | ListStore StoreErr

fun listWhere :: "codec \<Rightarrow> WorldStore \<Rightarrow> ZoneID list \<Rightarrow> ZonesAt option \<Rightarrow> nat \<Rightarrow> (Round \<Rightarrow> bool) option \<Rightarrow> Round list \<Rightarrow> Round list \<Rightarrow> ListError + Round list" where
  "listWhere cd st listed zonesAt limit match out [] = Inr out"
| "listWhere cd st listed zonesAt limit match out (r # rs) =
     (if limit > 0 \<and> length out \<ge> limit then Inr out
      else if (case match of None \<Rightarrow> False | Some f \<Rightarrow> \<not> f r) then listWhere cd st listed zonesAt limit match out rs
      else case verify cd st listed zonesAt r of Inl err \<Rightarrow> Inl (ListStore err)
      | Inr (r', _) \<Rightarrow> listWhere cd st listed zonesAt limit match (out @ [r']) rs)"

definition ListRoundsWhere :: "codec \<Rightarrow> WorldStore \<Rightarrow> TagStore option \<Rightarrow> ZoneID list \<Rightarrow> ZonesAt option \<Rightarrow> nat \<Rightarrow> (Round \<Rightarrow> bool) option \<Rightarrow> ListError + Round list" where
  "ListRoundsWhere cd st ts listed zonesAt limit match =
     (case discover st listed of Inl err \<Rightarrow> Inl (ListStore err)
      | Inr rounds \<Rightarrow> (case attachTags ts listed rounds of Inl err \<Rightarrow> Inl (ListTags err)
          | Inr (rounds', _) \<Rightarrow> listWhere cd st listed zonesAt limit match [] rounds'))"

definition ListRounds :: "codec \<Rightarrow> WorldStore \<Rightarrow> TagStore option \<Rightarrow> ZoneID list \<Rightarrow> ZonesAt option \<Rightarrow> ListError + Round list" where
  "ListRounds cd st ts listed zonesAt = ListRoundsWhere cd st ts listed zonesAt 0 None"

section \<open>Tagging\<close>

text \<open>Each operation returns its error, if any, and the keys it put.\<close>

fun putTags :: "TagStore \<Rightarrow> string \<Rightarrow> string list \<Rightarrow> TagError option \<times> string list" where
  "putTags ts name [] = (None, [])"
| "putTags ts name (k # ks) = (case ts_Put ts (TagKey k name) of Some err \<Rightarrow> (Some (PutFailed k err), [TagKey k name])
     | None \<Rightarrow> map_prod (\<lambda>x. x) (Cons (TagKey k name)) (putTags ts name ks))"

definition TagRound :: "TagStore \<Rightarrow> string list \<Rightarrow> string \<Rightarrow> TagError option \<times> string list" where
  "TagRound ts ks name = (if \<not> ValidTagName name then (Some (ErrTagName name), []) else if ks = [] then (Some NoObjects, []) else putTags ts name ks)"

text \<open>\<^verbatim>\<open>sort.SearchStrings\<close>: the binary search of \<^verbatim>\<open>sort.Search\<close>.\<close>

function search :: "(nat \<Rightarrow> bool) \<Rightarrow> nat \<Rightarrow> nat \<Rightarrow> nat" where
  "search f i j = (if i < j then let h = (i + j) div 2 in if \<not> f h then search f (h + 1) j else search f i h else i)"
  by pat_completeness auto

termination by (relation "measure (\<lambda>(f, i, j). j - i)") auto

declare search.simps [simp del]

definition SearchStrings :: "string list \<Rightarrow> string \<Rightarrow> nat" where
  "SearchStrings a x = search (\<lambda>i. a ! i \<ge> x) 0 (length a)"

definition hasTag :: "string list \<Rightarrow> string \<Rightarrow> bool" where
  "hasTag names name = (let i = SearchStrings names name in i < length names \<and> names ! i = name)"

fun tagRefs :: "TagStore \<Rightarrow> string \<Rightarrow> ZoneSnapshotRef list \<Rightarrow> bool \<Rightarrow> (TagError + bool) \<times> string list" where
  "tagRefs ts name [] already = (Inr already, [])"
| "tagRefs ts name (r # rs) already =
     (case ts_ListTags ts (zr_Key r) of Inl err \<Rightarrow> (Inl (ListTagsFailed err), [])
      | Inr names \<Rightarrow>
          if hasTag names name then tagRefs ts name rs already
          else case ts_Put ts (TagKey (zr_Key r) name) of Some err \<Rightarrow> (Inl (PutFailed (zr_Key r) err), [TagKey (zr_Key r) name])
          | None \<Rightarrow> map_prod (\<lambda>x. x) (Cons (TagKey (zr_Key r) name)) (tagRefs ts name rs False))"

definition roundToTag :: "codec \<Rightarrow> WorldStore \<Rightarrow> ZoneID list \<Rightarrow> ZonesAt option \<Rightarrow> u64 \<Rightarrow> TagError + Round" where
  "roundToTag cd st listed zonesAt tick =
     (if tick = 0 then (case NewestComplete cd st listed zonesAt of Inl err \<Rightarrow> Inl (TagSelect err)
        | Inr None \<Rightarrow> Inl (ErrRoundNotFound 0) | Inr (Some (r, _)) \<Rightarrow> Inr r)
      else case RoundAt cd st listed zonesAt tick of
        (r, Inl err) \<Rightarrow> if (case err of ErrRoundIncomplete _ cause _ \<Rightarrow> cause = ''missing'' \<and> ro_Zones r = [] | _ \<Rightarrow> False) then Inl (ErrRoundNotFound tick) else Inl (TagSelect err)
      | (r, Inr _) \<Rightarrow> Inr r)"

definition TagRoundAt :: "codec \<Rightarrow> TagStore \<Rightarrow> ZoneID list \<Rightarrow> ZonesAt option \<Rightarrow> string \<Rightarrow> u64 \<Rightarrow> (TagError + Round \<times> bool) \<times> string list" where
  "TagRoundAt cd ts listed zonesAt name tick =
     (if \<not> ValidTagName name then (Inl (ErrTagName name), [])
      else case roundToTag cd (ts_store ts) listed zonesAt tick of Inl err \<Rightarrow> (Inl err, [])
      | Inr r \<Rightarrow> (case tagRefs ts name (ro_Zones r) True of (Inl err, puts) \<Rightarrow> (Inl err, puts) | (Inr already, puts) \<Rightarrow> (Inr (r, already), puts)))"

section \<open>A tag key reads back\<close>

lemma tag_char_slash [simp]: "\<not> tag_char (CHR ''/'')"
  by code_simp

lemma ValidTagName_no_slash:
  assumes "ValidTagName name"
  shows "CHR ''/'' \<notin> set name"
proof -
  obtain p where p: "p \<in> {''deploy:'', ''rollback:''}" "take (length p) name = p" "list_all tag_char (drop (length p) name)"
    using assms unfolding ValidTagName_def Let_def list_ex_iff set_simps by blast
  have "CHR ''/'' \<notin> set (drop (length p) name)" using p(3) tag_char_slash unfolding list_all_iff by blast
  moreover have "CHR ''/'' \<notin> set p" using p(1) by (elim insertE emptyE) simp_all
  ultimately show ?thesis using p(2) by (metis Un_iff append_take_drop_id set_append)
qed

lemma take_drop_match:
  assumes "take (length sub) (drop i s) = sub" "sub \<noteq> []"
  shows "i + length sub \<le> length s" "s ! (i + length sub - 1) = last sub"
proof -
  have "min (length s - i) (length sub) = length sub" using arg_cong[OF assms(1), of length] by simp
  then show l: "i + length sub \<le> length s" using assms(2) by (cases sub) auto
  have "drop i s ! (length sub - 1) = take (length sub) (drop i s) ! (length sub - 1)" using assms(2) by (cases sub) simp_all
  then have "sub ! (length sub - 1) = drop i s ! (length sub - 1)" unfolding assms(1) by simp
  then show "s ! (i + length sub - 1) = last sub" using l assms(2) by (simp add: last_conv_nth Suc_leI)
qed

lemma LastIndex_TagKey:
  assumes "CHR ''/'' \<notin> set name"
  shows "LastIndex (TagKey k name) (tagDir @ ''/'') = Some (length k)"
proof -
  let ?s = "TagKey k name" and ?sub = "tagDir @ ''/''"
  let ?P = "\<lambda>i. take (length ?sub) (drop i ?s) = ?sub"
  have at: "?P (length k)" by (simp add: TagKey_def tagDir_def)
  have above: "\<not> ?P i" if "i > length k" for i
  proof
    assume p: "?P i"
    have l: "length ?sub = 5" "last ?sub = CHR ''/''" by (simp_all add: tagDir_def)
    have "i + 5 \<le> length ?s" "?s ! (i + 5 - 1) = CHR ''/''" using take_drop_match[OF p] unfolding l by (simp_all add: tagDir_def)
    moreover have "?s = (k @ ?sub) @ name" by (simp add: TagKey_def)
    ultimately have "name ! (i - length k - 1) = CHR ''/''" "i - length k - 1 < length name"
      using that l by (simp_all only: nth_append length_append) auto
    then show False using assms nth_mem by metis
  qed
  have l: "length k < Suc (length ?s)" by (simp add: TagKey_def)
  have "rev [0..<Suc (length ?s)] = rev [Suc (length k)..<Suc (length ?s)] @ length k # rev [0..<length k]"
    using upt_add_eq_append[of 0 "length k" "Suc (length ?s) - length k"] l by (simp add: upt_conv_Cons)
  moreover have "find ?P (xs @ length k # ys) = Some (length k)" if "\<forall>i \<in> set xs. i > length k" for xs ys
    using that at above by (induction xs) auto
  ultimately show ?thesis unfolding LastIndex_def by (metis (no_types, lifting) atLeastLessThan_iff set_rev set_upt Suc_le_eq)
qed

lemma TagKey_not_snapshot: "ParseSnapshotKey k \<noteq> None \<Longrightarrow> ParseSnapshotKey (TagKey k name) = None"
proof -
  assume "ParseSnapshotKey k \<noteq> None"
  then have "count_list k (CHR ''/'') = 3" using length_Split[of "CHR ''/''" k] by (auto simp: ParseSnapshotKey_def Let_def split: if_splits)
  then have "length (Split (CHR ''/'') (TagKey k name)) \<noteq> 4" by (simp add: length_Split TagKey_def tagDir_def)
  then show ?thesis by (simp add: ParseSnapshotKey_def Let_def)
qed

text \<open>
  A tag key reads back as the snapshot key and the name it was made of, exactly for a name of the
  grammar on a snapshot key, and no tag key is ever read as a snapshot.
\<close>
theorem ParseTagKey_TagKey:
  assumes "ParseSnapshotKey k \<noteq> None"
  shows "ParseSnapshotKey (TagKey k name) = None \<and> (ValidTagName name \<longrightarrow> ParseTagKey (TagKey k name) = Some (k, name))"
proof -
  have "ParseTagKey (TagKey k name) = Some (k, name)" if v: "ValidTagName name"
  proof -
    note i = LastIndex_TagKey[OF ValidTagName_no_slash[OF v], of k]
    have "take (length k) (TagKey k name) = k" "drop (length k + length tagDir + 1) (TagKey k name) = name" by (simp_all add: TagKey_def tagDir_def)
    then show ?thesis using assms v unfolding ParseTagKey_def i option.case Let_def by simp
  qed
  then show ?thesis using TagKey_not_snapshot[OF assms] by blast
qed

definition tagged_key :: string where
  "tagged_key = SnapshotKey ''hall'' 1 120 7"

theorem ParseTagKey_TagKey_witness:
  "ParseSnapshotKey (TagKey tagged_key ''deploy:v1'') = None \<and> ParseTagKey (TagKey tagged_key ''deploy:v1'') = Some (tagged_key, ''deploy:v1'')"
proof -
  have k: "ParseSnapshotKey tagged_key \<noteq> None" unfolding tagged_key_def using parse_key[of 7 "''hall''" 1 120] by simp
  have v: "ValidTagName ''deploy:v1''" by code_simp
  show ?thesis using ParseTagKey_TagKey[OF k, of "''deploy:v1''"] v by blast
qed

section \<open>Searching and tagging\<close>

text \<open>Binary search finds the first index from which the predicate holds.\<close>

lemma search_least:
  "i \<le> j \<Longrightarrow> (\<forall>k. i \<le> k \<and> k < j \<and> f k \<longrightarrow> (\<forall>l. k \<le> l \<and> l < j \<longrightarrow> f l)) \<Longrightarrow>
   i \<le> search f i j \<and> search f i j \<le> j \<and> (\<forall>k. i \<le> k \<and> k < search f i j \<longrightarrow> \<not> f k) \<and> (search f i j < j \<longrightarrow> f (search f i j))"
proof (induction f i j rule: search.induct)
  case (1 f i j)
  show ?case
  proof (cases "i < j")
    case True
    let ?h = "(i + j) div 2"
    have h: "i \<le> ?h" "?h < j" using True by auto
    show ?thesis
    proof (cases "f ?h")
      case fh: True
      have s: "search f i j = search f i ?h" using True fh by (simp add: search.simps[of f i j] Let_def)
      have "\<forall>k. i \<le> k \<and> k < ?h \<and> f k \<longrightarrow> (\<forall>l. k \<le> l \<and> l < ?h \<longrightarrow> f l)"
      proof (intro allI impI)
        fix k l assume a: "i \<le> k \<and> k < ?h \<and> f k" "k \<le> l \<and> l < ?h"
        then have "k < j" "l < j" using h(2) by linarith+
        then show "f l" using 1(4) a by blast
      qed
      from 1(2)[OF True refl _ h(1) this] fh have ih: "i \<le> search f i ?h" "search f i ?h \<le> ?h" "\<forall>k. i \<le> k \<and> k < search f i ?h \<longrightarrow> \<not> f k" "search f i ?h < ?h \<longrightarrow> f (search f i ?h)"
        by blast+
      have "f (search f i ?h)" using ih(2,4) fh by (cases "search f i ?h < ?h") (auto simp: not_less)
      then show ?thesis unfolding s using ih h(2) by auto
    next
      case nf: False
      have s: "search f i j = search f (?h + 1) j" using True nf by (simp add: search.simps[of f i j] Let_def)
      have "\<forall>k. ?h + 1 \<le> k \<and> k < j \<and> f k \<longrightarrow> (\<forall>l. k \<le> l \<and> l < j \<longrightarrow> f l)"
      proof (intro allI impI)
        fix k l assume a: "?h + 1 \<le> k \<and> k < j \<and> f k" "k \<le> l \<and> l < j"
        then have "i \<le> k" using h(1) by linarith
        then show "f l" using 1(4) a by blast
      qed
      from 1(1)[OF True refl nf _ this] h(2) have ih: "?h + 1 \<le> search f (?h + 1) j" "search f (?h + 1) j \<le> j" "\<forall>k. ?h + 1 \<le> k \<and> k < search f (?h + 1) j \<longrightarrow> \<not> f k" "search f (?h + 1) j < j \<longrightarrow> f (search f (?h + 1) j)"
        by auto
      have "\<not> f k" if "i \<le> k" "k < search f (?h + 1) j" for k
      proof (cases "k \<le> ?h")
        case True
        then show ?thesis using nf 1(4) that(1) h(2) le_less_trans by blast
      next
        case False
        then show ?thesis using ih(3) that(2) by simp
      qed
      then show ?thesis unfolding s using ih h(1) by auto
    qed
  next
    case False
    then have "search f i j = j" using 1(3) by (subst search.simps) simp
    then show ?thesis using 1(3) False by auto
  qed
qed

lemma hasTag_iff:
  assumes "sorted names"
  shows "hasTag names name \<longleftrightarrow> name \<in> set names"
proof -
  let ?i = "SearchStrings names name"
  have "\<forall>k. 0 \<le> k \<and> k < length names \<and> names ! k \<ge> name \<longrightarrow> (\<forall>l. k \<le> l \<and> l < length names \<longrightarrow> names ! l \<ge> name)"
    using assms by (meson order_trans sorted_nth_mono)
  from search_least[OF _ this]
  have i: "\<forall>k < ?i. \<not> names ! k \<ge> name" "?i < length names \<longrightarrow> names ! ?i \<ge> name" by (auto simp: SearchStrings_def)
  show ?thesis
  proof
    assume "name \<in> set names"
    then obtain k where k: "k < length names" "names ! k = name" by (auto simp: in_set_conv_nth)
    then have "?i \<le> k" using i(1) by (meson linorder_not_less order_refl)
    then have "names ! ?i = name" using i(2) k assms by (metis dual_order.antisym dual_order.strict_trans2 sorted_nth_mono)
    then show "hasTag names name" using \<open>?i \<le> k\<close> k(1) by (simp add: hasTag_def Let_def)
  next
    assume "hasTag names name"
    then show "name \<in> set names" unfolding hasTag_def Let_def by (metis nth_mem)
  qed
qed

text \<open>The objects that lack the name.\<close>

definition lacking :: "TagStore \<Rightarrow> string \<Rightarrow> ZoneSnapshotRef list \<Rightarrow> string list" where
  "lacking ts name refs = filter (\<lambda>k. case ts_ListTags ts k of Inl _ \<Rightarrow> True | Inr names \<Rightarrow> name \<notin> set names) (map zr_Key refs)"

lemma tagRefs_puts:
  assumes sorted: "\<And>k names. ts_ListTags ts k = Inr names \<Longrightarrow> sorted names"
  shows "tagRefs ts name refs already = (Inr a, puts) \<Longrightarrow>
    puts = map (\<lambda>k. TagKey k name) (lacking ts name refs) \<and> a = (already \<and> puts = []) \<and> (\<forall>k \<in> set puts. ts_Put ts k = None)"
proof (induction refs arbitrary: already a puts)
  case (Cons r refs)
  then obtain names where l: "ts_ListTags ts (zr_Key r) = Inr names" by (auto split: sum.splits)
  note h = hasTag_iff[OF sorted[OF l], of name]
  show ?case
  proof (cases "name \<in> set names")
    case True
    then show ?thesis using Cons l h by (simp add: lacking_def)
  next
    case False
    then obtain rest where p: "ts_Put ts (TagKey (zr_Key r) name) = None" "tagRefs ts name refs False = (Inr a, rest)" "puts = TagKey (zr_Key r) name # rest"
      using Cons.prems l h by (cases "tagRefs ts name refs False") (auto split: option.splits)
    show ?thesis using Cons.IH[OF p(2)] p False l by (simp add: lacking_def)
  qed
qed (auto simp: lacking_def)

text \<open>
  C34. Tagging a round writes the tag on exactly the objects of the round that lack it, in order, each
  accepted by the store: so afterwards every object of the round carries the name, one that carried it
  on every object is reported as already tagged and costs no write, and a tagging that a crash cut
  short is completed by tagging again.
\<close>
theorem TagRoundAt_completes:
  assumes "\<And>k names. ts_ListTags ts k = Inr names \<Longrightarrow> sorted names"
    and "TagRoundAt cd ts listed zonesAt name tick = (Inr (r, already), puts)"
  shows "ValidTagName name \<and> roundToTag cd (ts_store ts) listed zonesAt tick = Inr r
    \<and> puts = map (\<lambda>k. TagKey k name) (lacking ts name (ro_Zones r)) \<and> (already \<longleftrightarrow> puts = []) \<and> (\<forall>k \<in> set puts. ts_Put ts k = None)"
proof -
  have "ValidTagName name" "roundToTag cd (ts_store ts) listed zonesAt tick = Inr r" "tagRefs ts name (ro_Zones r) True = (Inr already, puts)"
    using assms(2) by (auto simp: TagRoundAt_def split: if_splits sum.splits prod.splits)
  then show ?thesis using tagRefs_puts[of ts name "ro_Zones r" True already puts] assms(1) by simp
qed

text \<open>A store that holds no tag yet and takes every write.\<close>

definition untagged :: "WorldStore \<Rightarrow> TagStore" where
  "untagged st = \<lparr>ts_store = st, ts_ZoneTags = (\<lambda>_. Inr fmempty), ts_ListTags = (\<lambda>_. Inr []), ts_Delete = (\<lambda>_. None), ts_Put = (\<lambda>_. None)\<rparr>"

lemma tagRefs_untagged: "\<exists>a puts. tagRefs (untagged st) name refs already = (Inr a, puts)"
proof (induction refs arbitrary: already)
  case (Cons r refs)
  then obtain a puts where "tagRefs (untagged st) name refs False = (Inr a, puts)" by blast
  then show ?case by (simp add: untagged_def hasTag_def Let_def)
qed simp

theorem TagRoundAt_completes_witness:
  "\<exists>r a. TagRoundAt (sample_codec boot) (untagged (sample_store boot)) (keys (ws_Zones (en_state boot))) None ''deploy:v1'' 0
     = (Inr (r, a), map (\<lambda>k. TagKey k ''deploy:v1'') (map zr_Key (ro_Zones r)))"
proof -
  let ?z = "keys (ws_Zones (en_state boot))" and ?ts = "untagged (sample_store boot)"
  have "resolves None boot" by (simp add: resolves_def)
  from NewestComplete_stored[OF sample_orderly(1) boot_keys sample_stored[OF sample_orderly(1) boot_keys] this]
  obtain r s where n: "NewestComplete (sample_codec boot) (sample_store boot) ?z None = Inr (Some (r, s))" by blast
  have v: "ValidTagName ''deploy:v1''" by code_simp
  have st: "ts_store ?ts = sample_store boot" by (simp add: untagged_def)
  have rt: "roundToTag (sample_codec boot) (ts_store ?ts) ?z None 0 = Inr r" unfolding roundToTag_def st n by simp
  obtain a puts where t: "tagRefs ?ts ''deploy:v1'' (ro_Zones r) True = (Inr a, puts)" using tagRefs_untagged by blast
  have e: "TagRoundAt (sample_codec boot) ?ts ?z None ''deploy:v1'' 0 = (Inr (r, a), puts)"
    unfolding TagRoundAt_def rt sum.case t prod.case using v by simp
  have "puts = map (\<lambda>k. TagKey k ''deploy:v1'') (lacking ?ts ''deploy:v1'' (ro_Zones r))"
    using TagRoundAt_completes[OF _ e] by (simp add: untagged_def)
  moreover have "lacking ?ts ''deploy:v1'' (ro_Zones r) = map zr_Key (ro_Zones r)" by (simp add: lacking_def untagged_def)
  ultimately show ?thesis using e by auto
qed

section \<open>What the tags of a round are\<close>

lemma count_concat: "count_list (concat xss) n = sum_list (map (\<lambda>xs. count_list xs n) xss)"
  by (induction xss) (simp_all add: count_list_append)

lemma count_distinct: "distinct xs \<Longrightarrow> count_list xs n = (if n \<in> set xs then 1 else 0)"
  by (induction xs) (auto simp: count_list_0_iff)

lemma count_everywhere:
  "\<forall>xs \<in> set xss. distinct xs \<Longrightarrow> count_list (concat xss) n = length xss \<longleftrightarrow> (\<forall>xs \<in> set xss. n \<in> set xs)"
proof (induction xss)
  case (Cons xs xss)
  have le: "distinct ys \<Longrightarrow> count_list ys n \<le> 1" for ys by (simp add: count_distinct)
  have "\<forall>ys \<in> set yss. distinct ys \<Longrightarrow> count_list (concat yss) n \<le> length yss" for yss
    by (induction yss) (auto simp: count_list_append dest: le)
  from this[of xss] have "count_list (concat xss) n \<le> length xss" using Cons.prems by simp
  then show ?case using Cons by (simp add: count_list_append count_distinct)
qed simp

text \<open>What a listing files: the names of exactly the tag keys listed, in order.\<close>

lemma zone_tags_files:
  "n \<in> set (tags_at (zone_tags ks) k) \<longleftrightarrow> (\<exists>key \<in> set ks. ParseTagKey key = Some (k, n))" "sorted (tags_at (zone_tags ks) k)"
proof -
  have f: "set (tags_at (foldl addTag m ks) k) = set (tags_at m k) \<union> {n. \<exists>key \<in> set ks. ParseTagKey key = Some (k, n)}" for m
  proof (induction ks arbitrary: m)
    case (Cons x ks)
    have "set (tags_at (addTag m x) k) = set (tags_at m k) \<union> {n. ParseTagKey x = Some (k, n)}"
      by (cases "ParseTagKey x") (auto simp: addTag_def split: prod.splits)
    then show ?case using Cons.IH[of "addTag m x"] by auto
  qed simp
  have t: "tags_at (zone_tags ks) k = sort (tags_at (foldl addTag fmempty ks) k)"
    by (simp add: zone_tags_def sortTags_def split: option.split)
  show "n \<in> set (tags_at (zone_tags ks) k) \<longleftrightarrow> (\<exists>key \<in> set ks. ParseTagKey key = Some (k, n))" unfolding t using f[of fmempty] by simp
  show "sorted (tags_at (zone_tags ks) k)" unfolding t by simp
qed

text \<open>
  The two rules of the tags of a round are each other's fail-safe: a name is reported for a
  round exactly when every one of its objects carries it, so a tagging cut short names no round, while
  a round counts as tagged, and retention treats it so, as soon as any object carries any name. What is
  reported is in order and free of duplicates.
\<close>
theorem setTags_rules:
  assumes "\<And>k. distinct (tags_at byKey k)" "ro_Zones r \<noteq> []"
  shows "(n \<in> set (ro_Tags (setTags byKey r)) \<longleftrightarrow> (\<forall>x \<in> set (ro_Zones r). n \<in> set (tags_at byKey (zr_Key x))))
    \<and> (ro_Tagged (setTags byKey r) \<longleftrightarrow> (\<exists>x \<in> set (ro_Zones r). tags_at byKey (zr_Key x) \<noteq> []))
    \<and> sorted (ro_Tags (setTags byKey r)) \<and> distinct (ro_Tags (setTags byKey r))"
proof -
  let ?xss = "map (\<lambda>ref. tags_at byKey (zr_Key ref)) (ro_Zones r)"
  have every: "count_list (concat ?xss) n = length (ro_Zones r) \<longleftrightarrow> (\<forall>x \<in> set (ro_Zones r). n \<in> set (tags_at byKey (zr_Key x)))"
    using count_everywhere[of ?xss n] assms(1) by simp
  moreover have "n \<in> set (concat ?xss)" if "\<forall>x \<in> set (ro_Zones r). n \<in> set (tags_at byKey (zr_Key x))"
    using that assms(2) by (cases "ro_Zones r") auto
  ultimately have "n \<in> set (ro_Tags (setTags byKey r)) \<longleftrightarrow> (\<forall>x \<in> set (ro_Zones r). n \<in> set (tags_at byKey (zr_Key x)))"
    by (simp add: setTags_def Let_def del: set_concat) blast
  moreover have "ro_Tagged (setTags byKey r) \<longleftrightarrow> (\<exists>x \<in> set (ro_Zones r). tags_at byKey (zr_Key x) \<noteq> [])"
    by (simp add: setTags_def Let_def)
  moreover have "sorted (ro_Tags (setTags byKey r))" "distinct (ro_Tags (setTags byKey r))" by (simp_all add: setTags_def Let_def sorted_wrt_filter)
  ultimately show ?thesis by blast
qed

text \<open>Two objects, one of them tagged twice: only the name both carry is the round's.\<close>

definition half_tagged :: "(string, string list) fmap" where
  "half_tagged = fmap_of_list [(''a'', [''deploy:v1'', ''deploy:v2'']), (''b'', [''deploy:v2''])]"

definition two_objects :: Round where
  "two_objects = zero_round\<lparr>ro_Zones := map (\<lambda>k. \<lparr>zr_Zone = k, zr_Key = k, zr_Offset = 0, zr_Bytes = 0, zr_Valid = False, zr_Cause = ''''\<rparr>) [''a'', ''b'']\<rparr>"

theorem setTags_rules_witness:
  "''deploy:v2'' \<in> set (ro_Tags (setTags half_tagged two_objects)) \<and> ''deploy:v1'' \<notin> set (ro_Tags (setTags half_tagged two_objects))
    \<and> ro_Tagged (setTags half_tagged two_objects)"
proof -
  have d: "distinct (tags_at half_tagged k)" for k by (auto simp: half_tagged_def fmap_of_list.rep_eq)
  have ne: "ro_Zones two_objects \<noteq> []" by (simp add: two_objects_def)
  have q: "(\<forall>x \<in> set (ro_Zones two_objects). P (zr_Key x)) \<longleftrightarrow> P ''a'' \<and> P ''b''" "(\<exists>x \<in> set (ro_Zones two_objects). P (zr_Key x)) \<longleftrightarrow> P ''a'' \<or> P ''b''" for P
    by (simp_all add: two_objects_def)
  have ab: "tags_at half_tagged ''a'' = [''deploy:v1'', ''deploy:v2'']" "tags_at half_tagged ''b'' = [''deploy:v2'']" by (simp_all add: half_tagged_def fmap_of_list.rep_eq)
  note r = setTags_rules[OF d ne]
  have "(\<forall>x \<in> set (ro_Zones two_objects). n \<in> set (tags_at half_tagged (zr_Key x))) \<longleftrightarrow> n = ''deploy:v2''" for n
    unfolding q(1)[of "\<lambda>k. n \<in> set (tags_at half_tagged k)"] ab by auto
  moreover have "\<exists>x \<in> set (ro_Zones two_objects). tags_at half_tagged (zr_Key x) \<noteq> []"
    unfolding q(2)[of "\<lambda>k. tags_at half_tagged k \<noteq> []"] ab by simp
  ultimately show ?thesis using r[of "''deploy:v2''"] r[of "''deploy:v1''"] by simp
qed

end
