(* ===== verification/Retention.thy ===== *)
theory Retention
  imports Round_Tags
begin

text \<open>
  Retention (\<^verbatim>\<open>server/store/retention.go\<close>): which rounds a sweep keeps, and what it deletes. A store
  is the answers it gives while the sweep runs: a tag written meanwhile shows as an answer of
  \<^verbatim>\<open>ListTags\<close> that differs from the listing. What a sweep does is the list of keys it deletes, in
  order. The lock and the context are left out.
\<close>

section \<open>The policy and the sweep\<close>

record Retention =
  rt_KeepRounds :: int
  rt_KeepTagged :: int
  rt_MaxAge :: int
  rt_Pin :: u64

record SweepResult =
  sr_Deleted :: nat
  sr_KeptTagged :: nat
  sr_KeptUntagged :: nat
  sr_NewestComplete :: u64

type_synonym roundKey = "u64 \<times> u32"

abbreviation round_key :: "Round \<Rightarrow> roundKey" where
  "round_key r \<equiv> (ro_Tick r, ro_StateVersion r)"

record Sweeper =
  sw_takenAt :: "(roundKey, int) fmap"
  sw_incomplete :: "roundKey fset"
  sw_listed :: string

definition NewSweeper :: Sweeper where
  "NewSweeper = \<lparr>sw_takenAt = fmempty, sw_incomplete = {||}, sw_listed = ''''\<rparr>"

datatype SweepError = SweepStore StoreErr | SweepTags TagError | SweepListTags u64 string | SweepDelete u64 GetError

text \<open>\<^verbatim>\<open>fmt.Sprint\<close> of a list of strings.\<close>

definition Sprint :: "string list \<Rightarrow> string" where
  "Sprint xs = ''['' @ strings_Join xs '' '' @ '']''"

text \<open>The first two answers are the Sweeper and the index; the newest round is never remembered.\<close>

fun newestFrom :: "codec \<Rightarrow> WorldStore \<Rightarrow> ZoneID list \<Rightarrow> ZonesAt option \<Rightarrow> nat \<Rightarrow> Round list \<Rightarrow> Sweeper \<Rightarrow> Sweeper \<times> (StoreErr + nat option)" where
  "newestFrom cd st listed zonesAt i [] sw = (sw, Inr None)"
| "newestFrom cd st listed zonesAt i (r # rs) sw =
     (if round_key r |\<in>| sw_incomplete sw then newestFrom cd st listed zonesAt (i + 1) rs sw
      else case verify cd st listed zonesAt r of Inl err \<Rightarrow> (sw, Inl err)
      | Inr (r', _) \<Rightarrow>
          if ro_Complete r' then (sw, Inr (Some i))
          else newestFrom cd st listed zonesAt (i + 1) rs
            (if i > 0 \<and> ro_Cause r' \<noteq> ''content'' then sw\<lparr>sw_incomplete := finsert (round_key r) (sw_incomplete sw)\<rparr> else sw))"

definition newestComplete :: "codec \<Rightarrow> WorldStore \<Rightarrow> ZoneID list \<Rightarrow> ZonesAt option \<Rightarrow> Round list \<Rightarrow> Sweeper \<Rightarrow> Sweeper \<times> (StoreErr + nat option)" where
  "newestComplete cd st listed zonesAt rounds sw =
     (let l = Sprint listed in newestFrom cd st listed zonesAt 0 rounds (if l \<noteq> sw_listed sw then sw\<lparr>sw_listed := l, sw_incomplete := {||}\<rparr> else sw))"

section \<open>Age\<close>

fun takenAt :: "codec \<Rightarrow> WorldStore \<Rightarrow> ZoneSnapshotRef list \<Rightarrow> int" where
  "takenAt cd st [] = 0"
| "takenAt cd st (ref # refs) =
     (case ws_Get st (zr_Key ref) of Inl _ \<Rightarrow> takenAt cd st refs
      | Inr raw \<Rightarrow> (case unmarshalEnvelope cd raw of None \<Rightarrow> takenAt cd st refs
          | Some env \<Rightarrow> if pse_TakenAtUnixNano env \<noteq> 0 then pse_TakenAtUnixNano env else takenAt cd st refs))"

definition older :: "codec \<Rightarrow> WorldStore \<Rightarrow> Round \<Rightarrow> int \<Rightarrow> int \<Rightarrow> Sweeper \<Rightarrow> bool \<times> Sweeper" where
  "older cd st r now maxAge sw =
     (let (at, sw') = (case fmlookup (sw_takenAt sw) (round_key r) of Some at \<Rightarrow> (at, sw)
        | None \<Rightarrow> let at = takenAt cd st (ro_Zones r) in (at, if at \<noteq> 0 then sw\<lparr>sw_takenAt := fmupd (round_key r) at (sw_takenAt sw)\<rparr> else sw))
      in (at \<noteq> 0 \<and> time_Sub now at > maxAge, sw'))"

section \<open>Deleting a round\<close>

text \<open>The error that stopped it, if any, and the keys a delete was asked for.\<close>

fun deleteKeys :: "TagStore \<Rightarrow> (GetError \<Rightarrow> bool) \<Rightarrow> string list \<Rightarrow> GetError option \<times> string list" where
  "deleteKeys ts ignore [] = (None, [])"
| "deleteKeys ts ignore (k # ks) =
     (case ts_Delete ts k of Some err \<Rightarrow> if ignore err then map_prod (\<lambda>x. x) (Cons k) (deleteKeys ts ignore ks) else (Some err, [k])
      | None \<Rightarrow> map_prod (\<lambda>x. x) (Cons k) (deleteKeys ts ignore ks))"

definition tag_keys :: "(string, string list) fmap \<Rightarrow> Round \<Rightarrow> string list" where
  "tag_keys tags r = concat (map (\<lambda>ref. map (TagKey (zr_Key ref)) (tags_at tags (zr_Key ref))) (ro_Zones r))"

definition deleteRound :: "TagStore \<Rightarrow> Round \<Rightarrow> (string, string list) fmap \<Rightarrow> SweepError option \<times> string list" where
  "deleteRound ts r tags =
     (case deleteKeys ts (\<lambda>_. False) (tag_keys tags r) of
        (Some err, ds) \<Rightarrow> (Some (SweepDelete (ro_Tick r) err), ds)
      | (None, ds) \<Rightarrow> map_prod (map_option (SweepDelete (ro_Tick r))) ((@) ds) (deleteKeys ts (\<lambda>err. err = ErrSnapshotNotFound) (map zr_Key (ro_Zones r))))"

fun untouched :: "TagStore \<Rightarrow> (string, string list) fmap \<Rightarrow> ZoneSnapshotRef list \<Rightarrow> string + bool" where
  "untouched ts tags [] = Inr True"
| "untouched ts tags (ref # refs) =
     (case ts_ListTags ts (zr_Key ref) of Inl err \<Rightarrow> Inl err
      | Inr now \<Rightarrow> if length now \<noteq> length (tags_at tags (zr_Key ref)) then Inr False else untouched ts tags refs)"

definition deleteUntouched :: "TagStore \<Rightarrow> Round \<Rightarrow> (string, string list) fmap \<Rightarrow> (SweepError + bool) \<times> string list" where
  "deleteUntouched ts r tags =
     (case untouched ts tags (ro_Zones r) of Inl err \<Rightarrow> (Inl (SweepListTags (ro_Tick r) err), [])
      | Inr False \<Rightarrow> (Inr False, [])
      | Inr True \<Rightarrow> (case deleteRound ts r tags of (Some err, ds) \<Rightarrow> (Inl err, ds) | (None, ds) \<Rightarrow> (Inr True, ds)))"

section \<open>The sweep\<close>

record sweeping =
  sg_sweeper :: Sweeper
  sg_res :: SweepResult
  sg_live :: "roundKey fset"
  sg_deletes :: "string list"

text \<open>Kept by the newest and the pinned rule, or else by the counts and the age.\<close>

definition keeps :: "codec \<Rightarrow> WorldStore \<Rightarrow> Retention \<Rightarrow> int \<Rightarrow> bool \<Rightarrow> Round \<Rightarrow> SweepResult \<Rightarrow> Sweeper \<Rightarrow> bool \<times> Sweeper" where
  "keeps cd st p now isNewest r res sw =
     (if isNewest \<or> rt_Pin p \<noteq> 0 \<and> ro_Tick r = rt_Pin p then (True, sw)
      else if \<not> (if ro_Tagged r then int (sr_KeptTagged res) < rt_KeepTagged p else int (sr_KeptUntagged res) < rt_KeepRounds p) then (False, sw)
      else if rt_MaxAge p > 0 then (case older cd st r now (rt_MaxAge p) sw of (old, sw') \<Rightarrow> (\<not> old, sw'))
      else (True, sw))"

definition count_kept :: "bool \<Rightarrow> SweepResult \<Rightarrow> SweepResult" where
  "count_kept tagged res = (if tagged then res\<lparr>sr_KeptTagged := sr_KeptTagged res + 1\<rparr> else res\<lparr>sr_KeptUntagged := sr_KeptUntagged res + 1\<rparr>)"

definition sweepRound :: "codec \<Rightarrow> TagStore \<Rightarrow> Retention \<Rightarrow> int \<Rightarrow> (string, string list) fmap \<Rightarrow> bool \<Rightarrow> Round \<Rightarrow> sweeping \<Rightarrow> SweepError option \<times> sweeping" where
  "sweepRound cd ts p now tags isNewest r g =
     (case keeps cd (ts_store ts) p now isNewest r (sg_res g) (sg_sweeper g) of (keep, sw) \<Rightarrow>
        let g1 = g\<lparr>sg_sweeper := sw, sg_live := finsert (round_key r) (sg_live g)\<rparr> in
        if keep then (None, g1\<lparr>sg_res := count_kept (ro_Tagged r) (sg_res g)\<rparr>)
        else case deleteUntouched ts r tags of
            (Inl err, ds) \<Rightarrow> (Some err, g1\<lparr>sg_deletes := sg_deletes g @ ds\<rparr>)
          | (Inr True, ds) \<Rightarrow> (None, g1\<lparr>sg_deletes := sg_deletes g @ ds, sg_live := fminus (sg_live g1) {|round_key r|},
                sg_res := (sg_res g)\<lparr>sr_Deleted := sr_Deleted (sg_res g) + 1\<rparr>\<rparr>)
          | (Inr False, ds) \<Rightarrow> (None, g1\<lparr>sg_res := count_kept True (sg_res g)\<rparr>))"

fun sweepLoop :: "codec \<Rightarrow> TagStore \<Rightarrow> Retention \<Rightarrow> int \<Rightarrow> (string, string list) fmap \<Rightarrow> nat option \<Rightarrow> nat \<Rightarrow> Round list \<Rightarrow> sweeping \<Rightarrow> SweepError option \<times> sweeping" where
  "sweepLoop cd ts p now tags newest i [] g = (None, g)"
| "sweepLoop cd ts p now tags newest i (r # rs) g =
     (case sweepRound cd ts p now tags (newest = Some i) r g of (Some err, g') \<Rightarrow> (Some err, g')
      | (None, g') \<Rightarrow> sweepLoop cd ts p now tags newest (i + 1) rs g')"

definition forgetDead :: "roundKey fset \<Rightarrow> Sweeper \<Rightarrow> Sweeper" where
  "forgetDead alive sw = sw\<lparr>sw_takenAt := fmfilter (\<lambda>rk. rk |\<in>| alive) (sw_takenAt sw), sw_incomplete := ffilter (\<lambda>rk. rk |\<in>| alive) (sw_incomplete sw)\<rparr>"

definition zero_result :: SweepResult where
  "zero_result = \<lparr>sr_Deleted = 0, sr_KeptTagged = 0, sr_KeptUntagged = 0, sr_NewestComplete = 0\<rparr>"

definition Sweep :: "codec \<Rightarrow> TagStore \<Rightarrow> ZoneID list \<Rightarrow> ZonesAt option \<Rightarrow> Retention \<Rightarrow> int \<Rightarrow> Sweeper \<Rightarrow> SweepError option \<times> sweeping" where
  "Sweep cd ts listed zonesAt p now sw =
     (let g0 = \<lparr>sg_sweeper = sw, sg_res = zero_result, sg_live = {||}, sg_deletes = []\<rparr> in
      case discover (ts_store ts) listed of Inl err \<Rightarrow> (Some (SweepStore err), g0)
      | Inr rounds0 \<Rightarrow> (case attachTags (Some ts) listed rounds0 of Inl err \<Rightarrow> (Some (SweepTags err), g0)
          | Inr (rounds, tags) \<Rightarrow> (case newestComplete cd (ts_store ts) listed zonesAt rounds sw of
              (sw1, Inl err) \<Rightarrow> (Some (SweepStore err), g0\<lparr>sg_sweeper := sw1\<rparr>)
            | (sw1, Inr newest) \<Rightarrow>
                let res = (case newest of None \<Rightarrow> zero_result | Some i \<Rightarrow> zero_result\<lparr>sr_NewestComplete := ro_Tick (rounds ! i)\<rparr>) in
                (case sweepLoop cd ts p now tags newest 0 rounds (g0\<lparr>sg_sweeper := sw1, sg_res := res\<rparr>) of
                   (Some err, g) \<Rightarrow> (Some err, g)
                 | (None, g) \<Rightarrow> (None, g\<lparr>sg_sweeper := forgetDead (sg_live g) (sg_sweeper g)\<rparr>)))))"

section \<open>The rounds of a listing\<close>

lemma found_parses:
  "listAll st zs = Inr found \<Longrightarrow> x \<in> set found \<Longrightarrow> ParseSnapshotKey (zr_Key (snd x)) = Some (zr_Zone (snd x), snd (fst x), fst (fst x), zr_Offset (snd x))"
proof (induction zs arbitrary: found)
  case (Cons z zs)
  then obtain ks rest where l: "found = concat (map (foundRef z) ks) @ rest" "listAll st zs = Inr rest"
    by (cases "listAll st zs") (auto split: sum.splits)
  consider "x \<in> set rest" | k where "x \<in> set (foundRef z k)" using Cons.prems(2) l(1) by auto
  then show ?case
  proof cases
    case (2 k)
    then show ?thesis by (auto simp: foundRef_def split: option.splits if_splits)
  qed (rule Cons.IH[OF l(2)])
qed simp

lemma discover_found:
  assumes "discover st listed = Inr rounds"
  obtains found where "listAll st listed = Inr found" "rounds = map (round_at found) (rev (sort (remdups (map fst found))))"
  using assms by (cases "listAll st listed") (auto simp: discover_def)

lemma round_key_round_at [simp]: "round_key (round_at found rk) = rk"
  by (simp add: round_at_def)

lemma discover_keys:
  assumes "discover st listed = Inr rounds"
  shows "distinct (map round_key rounds)"
proof -
  obtain found where f: "rounds = map (round_at found) (rev (sort (remdups (map fst found))))" using discover_found[OF assms] by blast
  show ?thesis unfolding f by (simp add: comp_def)
qed

lemma discover_objects:
  assumes "discover st listed = Inr rounds" "r \<in> set rounds"
  shows "ro_Zones r \<noteq> []"
proof -
  obtain found where f: "rounds = map (round_at found) (rev (sort (remdups (map fst found))))" using discover_found[OF assms(1)] by blast
  then obtain x where x: "x \<in> set found" "r = round_at found (fst x)" using assms(2) by auto
  then have "snd x \<in> set (ro_Zones r)" by (auto simp: round_at_def)
  then show ?thesis by auto
qed

lemma discover_parses:
  assumes "discover st listed = Inr rounds" "r \<in> set rounds" "x \<in> set (ro_Zones r)"
  shows "ParseSnapshotKey (zr_Key x) = Some (zr_Zone x, ro_StateVersion r, ro_Tick r, zr_Offset x)"
proof -
  obtain found where f: "listAll st listed = Inr found" "rounds = map (round_at found) (rev (sort (remdups (map fst found))))" using discover_found[OF assms(1)] by blast
  obtain rk where rk: "r = round_at found rk" using assms(2) f(2) by auto
  then obtain y where y: "y \<in> set found" "fst y = rk" "snd y = x" using assms(3) by (auto simp: round_at_def)
  show ?thesis using found_parses[OF f(1) y(1)] y(2,3) rk by (simp add: round_at_def)
qed

text \<open>Rounds share no object, and no tag is an object of a round.\<close>

lemma discover_disjoint:
  assumes "discover st listed = Inr rounds" "r \<in> set rounds" "r' \<in> set rounds" "x \<in> set (ro_Zones r)" "x' \<in> set (ro_Zones r')"
  shows "zr_Key x = zr_Key x' \<Longrightarrow> r = r'" "zr_Key x \<noteq> TagKey (zr_Key x') n"
proof -
  note p = discover_parses[OF assms(1,2,4)] and p' = discover_parses[OF assms(1,3,5)]
  show "r = r'" if k: "zr_Key x = zr_Key x'"
  proof -
    have "round_key r = round_key r'" using p p' unfolding k by simp
    then show ?thesis using discover_keys[OF assms(1)] assms(2,3) by (metis distinct_map inj_onD)
  qed
  have "ParseSnapshotKey (TagKey (zr_Key x') n) = None" using TagKey_not_snapshot[of "zr_Key x'"] p' by simp
  then show "zr_Key x \<noteq> TagKey (zr_Key x') n" using p by force
qed

section \<open>Reading a round with its tags\<close>

lemma setTags_fields [simp]:
  "ro_Tick (setTags b r) = ro_Tick r" "ro_StateVersion (setTags b r) = ro_StateVersion r" "ro_Zones (setTags b r) = ro_Zones r"
  by (simp_all add: setTags_def Let_def)

abbreviation same_verdict :: "Round \<times> RoundState option \<Rightarrow> Round \<times> RoundState option \<Rightarrow> bool" where
  "same_verdict v v' \<equiv> snd v = snd v' \<and> ro_Complete (fst v) = ro_Complete (fst v') \<and> ro_Cause (fst v) = ro_Cause (fst v')"

lemma verify_setTags:
  "rel_sum (=) same_verdict (verify cd st listed zonesAt (setTags b r)) (verify cd st listed zonesAt r)"
proof (cases "readRefs cd st (ro_Tick r) (ro_Zones r) (reading0 (ro_Tick r))")
  case (Inl err)
  then show ?thesis by (simp add: verify_def)
next
  case (Inr g)
  let ?o = "ownedZones zonesAt listed (ro_Tick r) (rd_Content (rg_state g)) (map zr_Zone (ro_Zones r))"
  show ?thesis
  proof (cases ?o)
    case (Inl err)
    then show ?thesis using Inr by (simp add: verify_def Let_def)
  next
    case o: (Inr op)
    have c: "ro_Cause (setTags b r) = ro_Cause r" by (simp add: setTags_def Let_def)
    show ?thesis unfolding verify_def setTags_fields Inr sum.case Let_def o by (cases op) (simp add: c split: list.split)
  qed
qed

lemma verify_Complete: "verify cd st listed zonesAt r = Inr (r', s) \<Longrightarrow> ro_Complete r' \<longleftrightarrow> s \<noteq> None"
  by (auto simp: verify_def Let_def split: sum.splits prod.splits list.splits if_splits)

lemma verify_key: "verify cd st listed zonesAt r = Inr (r', s) \<Longrightarrow> round_key r = round_key r'"
  by (auto simp: verify_def Let_def split: sum.splits prod.splits list.splits if_splits)

text \<open>A round known not to be complete, for a cause that does not change.\<close>

definition unusable :: "codec \<Rightarrow> WorldStore \<Rightarrow> ZoneID list \<Rightarrow> ZonesAt option \<Rightarrow> Round \<Rightarrow> bool" where
  "unusable cd st listed zonesAt r = (case verify cd st listed zonesAt r of Inl _ \<Rightarrow> False | Inr (r', s) \<Rightarrow> s = None \<and> ro_Cause r' \<noteq> ''content'')"

lemma newestOf_unusable: "unusable cd st listed zonesAt r \<Longrightarrow> newestOf cd st listed zonesAt (r # rs) = newestOf cd st listed zonesAt rs"
  by (auto simp: unusable_def split: sum.splits)

lemma newestFrom_finds:
  assumes "newestFrom cd st listed zonesAt i (map (setTags b) rs) sw = (sw', Inr res)"
    and "\<And>r. r \<in> set rs \<Longrightarrow> round_key r |\<in>| sw_incomplete sw \<Longrightarrow> unusable cd st listed zonesAt r"
    and "distinct (map round_key rs)"
  shows "(\<forall>r' s. newestOf cd st listed zonesAt rs = Inr (Some (r', s)) \<longrightarrow>
        (\<exists>j r. res = Some j \<and> (j, r) \<in> set (enumerate i rs) \<and> verify cd st listed zonesAt r = Inr (r', Some s)))
    \<and> (\<forall>r \<in> set rs. round_key r |\<in>| sw_incomplete sw' \<longrightarrow> unusable cd st listed zonesAt r)
    \<and> (\<forall>rk. rk |\<in>| sw_incomplete sw' \<longrightarrow> rk |\<in>| sw_incomplete sw \<or> rk \<in> round_key ` set rs)
    \<and> sw_listed sw' = sw_listed sw"
  using assms
proof (induction rs arbitrary: i sw)
  case (Cons r rs)
  show ?case
  proof (cases "round_key r |\<in>| sw_incomplete sw")
    case True
    then have u: "unusable cd st listed zonesAt r" using Cons.prems(2)[of r] by simp
    have n: "newestFrom cd st listed zonesAt (i + 1) (map (setTags b) rs) sw = (sw', Inr res)" using Cons.prems(1) True by simp
    have "newestOf cd st listed zonesAt (r # rs) = newestOf cd st listed zonesAt rs" by (rule newestOf_unusable[OF u])
    then show ?thesis using Cons.IH[OF n] Cons.prems(2,3) u by (simp del: newestOf.simps) blast
  next
    case False
    obtain r1 s1 where v1: "verify cd st listed zonesAt (setTags b r) = Inr (r1, s1)" using Cons.prems(1) False by (auto split: sum.splits)
    then obtain r2 where v: "verify cd st listed zonesAt r = Inr (r2, s1)" "ro_Complete r1 = ro_Complete r2" "ro_Cause r1 = ro_Cause r2"
      using verify_setTags[of cd st listed zonesAt b r] by (auto elim: rel_sum.cases)
    show ?thesis
    proof (cases "ro_Complete r1")
      case complete: True
      then have e: "sw' = sw" "res = Some i" using Cons.prems(1) False v1 by auto
      obtain s where "s1 = Some s" using verify_Complete[OF v(1)] complete v(2) by auto
      moreover have "unusable cd st listed zonesAt r'" if "r' \<in> set (r # rs)" "round_key r' |\<in>| sw_incomplete sw" for r' by (rule Cons.prems(2)[OF that])
      ultimately show ?thesis using e v(1) by (auto split: if_splits)
    next
      case inc: False
      then have none: "s1 = None" using verify_Complete[OF v(1)] v(2) by simp
      define sw1 where "sw1 = (if i > 0 \<and> ro_Cause r1 \<noteq> ''content'' then sw\<lparr>sw_incomplete := finsert (round_key r) (sw_incomplete sw)\<rparr> else sw)"
      have n: "newestFrom cd st listed zonesAt (i + 1) (map (setTags b) rs) sw1 = (sw', Inr res)" using Cons.prems(1) False v1 inc by (simp add: sw1_def cong: if_cong)
      have "round_key x \<noteq> round_key r" if "x \<in> set rs" for x
        using Cons.prems(3) that unfolding list.map distinct.simps set_map by (metis (no_types, lifting) image_eqI)
      then have old: "unusable cd st listed zonesAt x" if "x \<in> set rs" "round_key x |\<in>| sw_incomplete sw1" for x
        using that Cons.prems(2)[of x] by (auto simp: sw1_def split: if_splits)
      have sw1: "sw_listed sw1 = sw_listed sw" "rk |\<in>| sw_incomplete sw1 \<Longrightarrow> rk |\<in>| sw_incomplete sw \<or> rk = round_key r" for rk by (auto simp: sw1_def split: if_splits)
      have dist: "distinct (map round_key rs)" using Cons.prems(3) by simp
      note ih = Cons.IH[OF n old dist]
      have ks: "rk |\<in>| sw_incomplete sw' \<Longrightarrow> rk |\<in>| sw_incomplete sw \<or> rk \<in> round_key ` set (r # rs)" for rk
        using ih sw1(2)[of rk] by (simp only: list.set image_insert insert_iff) blast
      show ?thesis
      proof (cases "ro_Cause r2 = ''content''")
        case True
        then have "sw1 = sw" using v(3) by (simp add: sw1_def)
        then have "round_key r |\<notin>| sw_incomplete sw'" using ih Cons.prems(3) False by (auto simp del: prod.inject)
        moreover have "newestOf cd st listed zonesAt (r # rs) \<noteq> Inr (Some x)" for x using v(1) True by simp
        ultimately show ?thesis using ih Cons.prems(3) sw1(1) ks by (simp del: newestOf.simps split_paired_All prod.inject)
      next
        case c: False
        then have u: "unusable cd st listed zonesAt r" using v none by (simp add: unusable_def)
        have "newestOf cd st listed zonesAt (r # rs) = newestOf cd st listed zonesAt rs" by (rule newestOf_unusable[OF u])
        then show ?thesis using ih Cons.prems(3) sw1(1) ks u by (simp del: newestOf.simps split_paired_All prod.inject) blast
      qed
    qed
  qed
qed simp

section \<open>What a sweep deletes\<close>

lemma deleteKeys_asked: "deleteKeys ts ignore ks = (e, ds) \<Longrightarrow> set ds \<subseteq> set ks \<and> (e = None \<longrightarrow> ds = ks)"
proof (induction ks arbitrary: e ds)
  case (Cons k ks)
  then show ?case by (cases "deleteKeys ts ignore ks") (auto split: option.splits if_splits)
qed simp

abbreviation object_keys :: "Round \<Rightarrow> string set" where
  "object_keys r \<equiv> zr_Key ` set (ro_Zones r)"

lemma deleteUntouched_asked:
  "deleteUntouched ts r tags = (e, ds) \<Longrightarrow> set ds \<subseteq> set (tag_keys tags r) \<union> object_keys r
     \<and> (e = Inr True \<longrightarrow> object_keys r \<subseteq> set ds) \<and> (e = Inr False \<longrightarrow> ds = [])"
proof -
  assume d: "deleteUntouched ts r tags = (e, ds)"
  show ?thesis
  proof (cases "untouched ts tags (ro_Zones r) = Inr True")
    case False
    then show ?thesis using d by (auto simp: deleteUntouched_def split: sum.splits bool.splits)
  next
    case True
    obtain e1 ds1 where t: "deleteKeys ts (\<lambda>_. False) (tag_keys tags r) = (e1, ds1)" by fastforce
    obtain e2 ds2 where o: "deleteKeys ts (\<lambda>err. err = ErrSnapshotNotFound) (map zr_Key (ro_Zones r)) = (e2, ds2)" by fastforce
    show ?thesis using d deleteKeys_asked[OF t] deleteKeys_asked[OF o] unfolding deleteUntouched_def True deleteRound_def t o
      by (auto split: option.splits)
  qed
qed

text \<open>A round the newest rule or the pin keeps.\<close>

definition exempt :: "Retention \<Rightarrow> nat option \<Rightarrow> nat \<times> Round \<Rightarrow> bool" where
  "exempt p newest x \<longleftrightarrow> newest = Some (fst x) \<or> rt_Pin p \<noteq> 0 \<and> ro_Tick (snd x) = rt_Pin p"

abbreviation swept_count :: "SweepResult \<Rightarrow> nat" where
  "swept_count res \<equiv> sr_Deleted res + sr_KeptTagged res + sr_KeptUntagged res"

lemma older_incomplete: "older cd st r now m sw = (b, sw') \<Longrightarrow> sw_incomplete sw' = sw_incomplete sw \<and> sw_listed sw' = sw_listed sw"
  by (auto simp: older_def Let_def split: option.splits if_splits)

lemma keeps_rules:
  assumes "keeps cd st p now isNewest r res sw = (keep, sw')"
  shows "sw_incomplete sw' = sw_incomplete sw \<and> sw_listed sw' = sw_listed sw" "isNewest \<or> rt_Pin p \<noteq> 0 \<and> ro_Tick r = rt_Pin p \<Longrightarrow> keep"
proof -
  show "sw_incomplete sw' = sw_incomplete sw \<and> sw_listed sw' = sw_listed sw"
    using assms older_incomplete[of cd st r now "rt_MaxAge p" sw] by (auto simp: keeps_def split: if_splits prod.splits)
  show "isNewest \<or> rt_Pin p \<noteq> 0 \<and> ro_Tick r = rt_Pin p \<Longrightarrow> keep" using assms by (auto simp: keeps_def split: if_splits)
qed

text \<open>One round: kept, deleted whole, or stopped on the way.\<close>

lemma sweepRound_cases:
  assumes "sweepRound cd ts p now tags isNewest r g = (e, g')"
  obtains (kept) "e = None" "sg_deletes g' = sg_deletes g" "sr_Deleted (sg_res g') = sr_Deleted (sg_res g)" "swept_count (sg_res g') = Suc (swept_count (sg_res g))"
      "sg_live g' = finsert (round_key r) (sg_live g)"
    | (deleted) ds where "e = None" "\<not> (isNewest \<or> rt_Pin p \<noteq> 0 \<and> ro_Tick r = rt_Pin p)" "sg_deletes g' = sg_deletes g @ ds"
      "set ds \<subseteq> set (tag_keys tags r) \<union> object_keys r" "object_keys r \<subseteq> set ds"
      "sr_Deleted (sg_res g') = Suc (sr_Deleted (sg_res g))" "swept_count (sg_res g') = Suc (swept_count (sg_res g))"
    | (stopped) err ds where "e = Some err" "\<not> (isNewest \<or> rt_Pin p \<noteq> 0 \<and> ro_Tick r = rt_Pin p)" "sg_deletes g' = sg_deletes g @ ds"
      "set ds \<subseteq> set (tag_keys tags r) \<union> object_keys r"
proof -
  obtain keep sw where k: "keeps cd (ts_store ts) p now isNewest r (sg_res g) (sg_sweeper g) = (keep, sw)" by fastforce
  note u = assms[unfolded sweepRound_def k prod.case Let_def]
  show thesis
  proof (cases keep)
    case True
    then show thesis using u by (intro kept) (auto simp: count_kept_def)
  next
    case False
    then have ex: "\<not> (isNewest \<or> rt_Pin p \<noteq> 0 \<and> ro_Tick r = rt_Pin p)" using keeps_rules(2)[OF k] by blast
    obtain d ds where d: "deleteUntouched ts r tags = (d, ds)" by fastforce
    note a = deleteUntouched_asked[OF d]
    show thesis
    proof (cases d)
      case (Inl err)
      then show thesis using u False d a ex by (intro stopped[of err ds]) auto
    next
      case (Inr b)
      show thesis
      proof (cases b)
        case True
        then show thesis using u False d a ex Inr by (intro deleted[of ds]) auto
      next
        case nb: False
        then show thesis using u False d a Inr by (intro kept) (auto simp: count_kept_def)
      qed
    qed
  qed
qed

lemma sweepRound_cache:
  assumes "sweepRound cd ts p now tags isNewest r g = (e, g')"
  shows "sw_incomplete (sg_sweeper g') = sw_incomplete (sg_sweeper g) \<and> sw_listed (sg_sweeper g') = sw_listed (sg_sweeper g)"
proof -
  obtain keep sw where k: "keeps cd (ts_store ts) p now isNewest r (sg_res g) (sg_sweeper g) = (keep, sw)" by fastforce
  have "sg_sweeper g' = sw" using assms unfolding sweepRound_def k prod.case Let_def by (auto split: if_splits prod.splits sum.splits bool.splits)
  then show ?thesis using keeps_rules(1)[OF k] by simp
qed

lemma sweepLoop_deletes:
  assumes "sweepLoop cd ts p now tags newest i rs g = (e, g')"
  shows "\<exists>D ds. D \<subseteq> set (enumerate i rs) \<and> (\<forall>x \<in> D. \<not> exempt p newest x) \<and> sg_deletes g' = sg_deletes g @ ds
    \<and> set ds \<subseteq> (\<Union>x \<in> D. set (tag_keys tags (snd x)) \<union> object_keys (snd x))
    \<and> sw_incomplete (sg_sweeper g') = sw_incomplete (sg_sweeper g) \<and> sw_listed (sg_sweeper g') = sw_listed (sg_sweeper g)
    \<and> (e = None \<longrightarrow> (\<Union>x \<in> D. object_keys (snd x)) \<subseteq> set ds \<and> sr_Deleted (sg_res g') = sr_Deleted (sg_res g) + card D
         \<and> swept_count (sg_res g') = swept_count (sg_res g) + length rs)"
  using assms
proof (induction rs arbitrary: i g)
  case Nil
  then show ?case by (intro exI[of _ "{}"] exI[of _ "[]"]) auto
next
  case (Cons r rs)
  obtain e1 g1 where s: "sweepRound cd ts p now tags (newest = Some i) r g = (e1, g1)" by fastforce
  note c = sweepRound_cache[OF s]
  have fresh: "(i, r) \<notin> set (enumerate (Suc i) rs)" by (auto simp: in_set_enumerate_eq)
  show ?case
  proof (cases rule: sweepRound_cases[OF s])
    case kept: 1
    have l: "sweepLoop cd ts p now tags newest (Suc i) rs g1 = (e, g')" using Cons.prems s kept(1) by simp
    from Cons.IH[OF l] obtain D ds where ih: "D \<subseteq> set (enumerate (Suc i) rs)" "\<forall>x \<in> D. \<not> exempt p newest x" "sg_deletes g' = sg_deletes g1 @ ds"
      "set ds \<subseteq> (\<Union>x \<in> D. set (tag_keys tags (snd x)) \<union> object_keys (snd x))"
      "sw_incomplete (sg_sweeper g') = sw_incomplete (sg_sweeper g1) \<and> sw_listed (sg_sweeper g') = sw_listed (sg_sweeper g1)"
      "e = None \<longrightarrow> (\<Union>x \<in> D. object_keys (snd x)) \<subseteq> set ds \<and> sr_Deleted (sg_res g') = sr_Deleted (sg_res g1) + card D
         \<and> swept_count (sg_res g') = swept_count (sg_res g1) + length rs" by blast
    show ?thesis by (rule exI[of _ D], rule exI[of _ ds]) (use ih kept c in auto)
  next
    case del: (2 ds0)
    have l: "sweepLoop cd ts p now tags newest (Suc i) rs g1 = (e, g')" using Cons.prems s del(1) by simp
    from Cons.IH[OF l] obtain D ds where ih: "D \<subseteq> set (enumerate (Suc i) rs)" "\<forall>x \<in> D. \<not> exempt p newest x" "sg_deletes g' = sg_deletes g1 @ ds"
      "set ds \<subseteq> (\<Union>x \<in> D. set (tag_keys tags (snd x)) \<union> object_keys (snd x))"
      "sw_incomplete (sg_sweeper g') = sw_incomplete (sg_sweeper g1) \<and> sw_listed (sg_sweeper g') = sw_listed (sg_sweeper g1)"
      "e = None \<longrightarrow> (\<Union>x \<in> D. object_keys (snd x)) \<subseteq> set ds \<and> sr_Deleted (sg_res g') = sr_Deleted (sg_res g1) + card D
         \<and> swept_count (sg_res g') = swept_count (sg_res g1) + length rs" by blast
    have "finite D" using ih(1) finite_subset by blast
    then have card: "card (insert (i, r) D) = Suc (card D)" using fresh ih(1) by (intro card_insert_disjoint) auto
    have ex: "\<not> exempt p newest (i, r)" using del(2) by (simp add: exempt_def)
    have "(\<Union>x \<in> insert (i, r) D. object_keys (snd x)) \<subseteq> set (ds0 @ ds)" if "e = None" using ih(6) del(5) that unfolding UN_insert set_append snd_conv by blast
    moreover have "set (ds0 @ ds) \<subseteq> (\<Union>x \<in> insert (i, r) D. set (tag_keys tags (snd x)) \<union> object_keys (snd x))"
      using ih(4) del(4) unfolding UN_insert set_append snd_conv by blast
    moreover have "insert (i, r) D \<subseteq> set (enumerate i (r # rs))" using ih(1) by auto
    ultimately show ?thesis using ih(2,3,5,6) del(3,6,7) c card ex
      by (intro exI[of _ "insert (i, r) D"] exI[of _ "ds0 @ ds"] conjI impI) (simp_all del: UN_insert)
  next
    case (3 err ds)
    have "e = Some err" "g' = g1" using Cons.prems s 3(1) by auto
    moreover have "\<not> exempt p newest (i, r)" using 3(2) by (simp add: exempt_def)
    ultimately show ?thesis by (intro exI[of _ "{(i, r)}"] exI[of _ ds]) (use 3 c in auto)
  qed
qed

section \<open>The store after a sweep\<close>

definition swept :: "string list \<Rightarrow> WorldStore \<Rightarrow> WorldStore" where
  "swept ds st = \<lparr>ws_List = (\<lambda>z. map_sum (\<lambda>x. x) (filter (\<lambda>k. k \<notin> set ds)) (ws_List st z)),
     ws_Get = (\<lambda>k. if k \<in> set ds then Inl ErrSnapshotNotFound else ws_Get st k)\<rparr>"

lemma foundRef_key: "x \<in> set (foundRef z k) \<Longrightarrow> zr_Key (snd x) = k"
  by (auto simp: foundRef_def split: option.splits if_splits)

lemma listAll_swept:
  "listAll (swept ds st) zs = map_sum (\<lambda>x. x) (filter (\<lambda>x. zr_Key (snd x) \<notin> set ds)) (listAll st zs)"
proof (induction zs)
  case (Cons z zs)
  have one: "filter (\<lambda>x. zr_Key (snd x) \<notin> set ds) (foundRef z k) = (if k \<in> set ds then [] else foundRef z k)" for k
    using foundRef_key by (force intro: filter_True filter_False)
  have all: "concat (map (foundRef z) (filter (\<lambda>k. k \<notin> set ds) ks)) = filter (\<lambda>x. zr_Key (snd x) \<notin> set ds) (concat (map (foundRef z) ks))" for ks
    by (induction ks) (simp_all add: one)
  show ?case using Cons.IH by (cases "ws_List st z"; cases "listAll st zs") (simp_all add: swept_def all)
qed simp

lemma discover_swept:
  assumes d: "discover st listed = Inr rounds"
    and whole: "\<And>r. r \<in> set rounds \<Longrightarrow> object_keys r \<subseteq> set ds \<or> object_keys r \<inter> set ds = {}"
  shows "discover (swept ds st) listed = Inr (filter (\<lambda>r. object_keys r \<inter> set ds = {}) rounds)"
proof -
  obtain found where f: "listAll st listed = Inr found" "rounds = map (round_at found) (rev (sort (remdups (map fst found))))" using discover_found[OF d] by blast
  define gone where "gone rk \<longleftrightarrow> object_keys (round_at found rk) \<inter> set ds \<noteq> {}" for rk
  have objs: "object_keys (round_at found rk) = zr_Key ` snd ` {x \<in> set found. fst x = rk}" for rk by (auto simp: round_at_def)
  have key: "zr_Key (snd x) \<notin> set ds \<longleftrightarrow> \<not> gone (fst x)" if x: "x \<in> set found" for x
  proof -
    have m: "zr_Key (snd x) \<in> object_keys (round_at found (fst x))" using x unfolding objs by blast
    have "round_at found (fst x) \<in> set rounds" using x unfolding f(2) by auto
    from whole[OF this] m show ?thesis unfolding gone_def by blast
  qed
  then have ff: "filter (\<lambda>x. zr_Key (snd x) \<notin> set ds) found = filter (\<lambda>x. \<not> gone (fst x)) found" by (rule filter_cong[OF refl])
  have keep: "round_at (filter (\<lambda>x. \<not> gone (fst x)) found) rk = round_at found rk" if "\<not> gone rk" for rk
  proof -
    have "filter (\<lambda>x. fst x = rk) (filter (\<lambda>x. \<not> gone (fst x)) found) = filter (\<lambda>x. fst x = rk) found"
      using that by (induction found) auto
    then show ?thesis by (simp add: round_at_def)
  qed
  have ks: "map fst (filter (\<lambda>x. \<not> gone (fst x)) found) = filter (\<lambda>rk. \<not> gone rk) (map fst found)" by (induction found) simp_all
  have "rev (sort (remdups (map fst (filter (\<lambda>x. \<not> gone (fst x)) found)))) = filter (\<lambda>rk. \<not> gone rk) (rev (sort (remdups (map fst found))))"
    unfolding ks by (simp add: remdups_filter[symmetric] rev_filter[symmetric] filter_sort)
  moreover have "map (round_at (filter (\<lambda>x. \<not> gone (fst x)) found)) (filter (\<lambda>rk. \<not> gone rk) ks) = map (round_at found) (filter (\<lambda>rk. \<not> gone rk) ks)" for ks
    using keep by (intro map_cong refl) simp
  moreover have "map (round_at found) (filter (\<lambda>rk. \<not> gone rk) ks) = filter (\<lambda>r. object_keys r \<inter> set ds = {}) (map (round_at found) ks)" for ks
    by (induction ks) (simp_all add: gone_def)
  ultimately show ?thesis by (simp add: discover_def listAll_swept f ff)
qed

lemma readRef_swept: "zr_Key r \<notin> set ds \<Longrightarrow> readRef cd (swept ds st) tick r g = readRef cd st tick r g"
  by (simp add: readRef_def swept_def)

lemma verify_swept:
  assumes "object_keys r \<inter> set ds = {}"
  shows "verify cd (swept ds st) listed zonesAt r = verify cd st listed zonesAt r"
proof -
  have "zr_Key ` set rs \<inter> set ds = {} \<Longrightarrow> readRefs cd (swept ds st) tick rs g = readRefs cd st tick rs g" for tick rs g
    by (induction rs arbitrary: g) (simp_all add: readRef_swept split: sum.split)
  then show ?thesis using assms by (simp add: verify_def)
qed

lemma unusable_swept: "object_keys r \<inter> set ds = {} \<Longrightarrow> unusable cd (swept ds st) listed zonesAt r = unusable cd st listed zonesAt r"
  by (simp add: unusable_def verify_swept)

text \<open>Choosing among what is left finds the same round, as long as it is left.\<close>

lemma newestOf_swept:
  assumes "newestOf cd st listed zonesAt rs = Inr (Some (r', s))"
    and "\<And>r. r \<in> set rs \<Longrightarrow> verify cd st listed zonesAt r = Inr (r', Some s) \<Longrightarrow> object_keys r \<inter> set ds = {}"
  shows "newestOf cd (swept ds st) listed zonesAt (filter (\<lambda>r. object_keys r \<inter> set ds = {}) rs) = Inr (Some (r', s))"
  using assms
proof (induction rs)
  case (Cons r rs)
  obtain r1 s1 where v: "verify cd st listed zonesAt r = Inr (r1, s1)" "ro_Cause r1 \<noteq> ''content''" using Cons.prems(1) by (auto split: sum.splits if_splits)
  show ?case
  proof (cases s1)
    case None
    then have "newestOf cd st listed zonesAt rs = Inr (Some (r', s))" using Cons.prems(1) v by simp
    from Cons.IH[OF this] Cons.prems(2) v None show ?thesis by (simp add: verify_swept)
  next
    case (Some s2)
    then have e: "r1 = r'" "s1 = Some s" using Cons.prems(1) v by auto
    then have "object_keys r \<inter> set ds = {}" using Cons.prems(2)[of r] v(1) by simp
    then show ?thesis using v e by (simp add: verify_swept)
  qed
qed simp

section \<open>A sweep keeps the World recoverable\<close>

text \<open>What a Sweeper remembers is true of the store.\<close>

definition cache_sound :: "codec \<Rightarrow> WorldStore \<Rightarrow> ZoneID list \<Rightarrow> ZonesAt option \<Rightarrow> Sweeper \<Rightarrow> bool" where
  "cache_sound cd st listed zonesAt sw \<longleftrightarrow> (sw_listed sw = Sprint listed \<longrightarrow> (case discover st listed of Inl _ \<Rightarrow> True
     | Inr rounds \<Rightarrow> list_all (\<lambda>r. round_key r |\<in>| sw_incomplete sw \<longrightarrow> unusable cd st listed zonesAt r) rounds))"

lemma NewSweeper_sound: "cache_sound cd st listed zonesAt NewSweeper"
  by (simp add: cache_sound_def NewSweeper_def Sprint_def)

text \<open>A sweep that got as far as its loop.\<close>

lemma Sweep_loop:
  assumes "Sweep cd ts listed zonesAt p now sw = (e, g)" "sg_deletes g \<noteq> [] \<or> e = None"
  obtains rounds tags sw1 newest res g' where "discover (ts_store ts) listed = Inr rounds"
    "newestComplete cd (ts_store ts) listed zonesAt (map (setTags tags) rounds) sw = (sw1, Inr newest)"
    "sweepLoop cd ts p now tags newest 0 (map (setTags tags) rounds) \<lparr>sg_sweeper = sw1, sg_res = res, sg_live = {||}, sg_deletes = []\<rparr> = (e, g')"
    "swept_count res = 0" "sg_deletes g' = sg_deletes g" "sg_res g' = sg_res g"
    "e = None \<longrightarrow> sg_sweeper g = forgetDead (sg_live g') (sg_sweeper g')"
proof -
  note S = assms(1)[unfolded Sweep_def Let_def]
  obtain rounds where d: "discover (ts_store ts) listed = Inr rounds" using S assms(2) by (cases "discover (ts_store ts) listed") auto
  obtain tags where t: "attachTags (Some ts) listed rounds = Inr (map (setTags tags) rounds, tags)"
    using S assms(2) d by (cases "tagsByKey ts listed fmempty") (auto simp: attachTags_def)
  obtain sw1 n where n: "newestComplete cd (ts_store ts) listed zonesAt (map (setTags tags) rounds) sw = (sw1, n)" by fastforce
  obtain newest where nn: "n = Inr newest" using S assms(2) d t n by (cases n) auto
  define res where "res = (case newest of None \<Rightarrow> zero_result | Some i \<Rightarrow> zero_result\<lparr>sr_NewestComplete := ro_Tick (map (setTags tags) rounds ! i)\<rparr>)"
  obtain e' g' where l: "sweepLoop cd ts p now tags newest 0 (map (setTags tags) rounds) \<lparr>sg_sweeper = sw1, sg_res = res, sg_live = {||}, sg_deletes = []\<rparr> = (e', g')" by fastforce
  have z: "swept_count res = 0" by (simp add: res_def zero_result_def split: option.split)
  have "(case e' of None \<Rightarrow> (None, g'\<lparr>sg_sweeper := forgetDead (sg_live g') (sg_sweeper g')\<rparr>) | Some err \<Rightarrow> (Some err, g')) = (e, g)"
    using S unfolding d t n nn sum.case prod.case res_def[symmetric] by (simp add: l)
  then have x: "e' = e" "sg_deletes g' = sg_deletes g" "sg_res g' = sg_res g" "e = None \<longrightarrow> sg_sweeper g = forgetDead (sg_live g') (sg_sweeper g')"
    by (auto split: option.splits)
  show thesis by (rule that[OF d n[unfolded nn] l[unfolded x(1)] z x(2-4)])
qed

text \<open>The rounds a sweep deleted: none of them exempt, and where it ended well each of them whole.\<close>

lemma Sweep_deleted:
  assumes "Sweep cd ts listed zonesAt p now sw = (e, g)" "sg_deletes g \<noteq> [] \<or> e = None" "cache_sound cd (ts_store ts) listed zonesAt sw"
  shows "\<exists>rounds D. discover (ts_store ts) listed = Inr rounds \<and> D \<subseteq> set rounds
    \<and> (\<forall>r \<in> set rounds. r \<notin> D \<longrightarrow> object_keys r \<inter> set (sg_deletes g) = {})
    \<and> (\<forall>r \<in> D. \<not> (rt_Pin p \<noteq> 0 \<and> ro_Tick r = rt_Pin p))
    \<and> (\<forall>r \<in> D. \<forall>r' s. newestOf cd (ts_store ts) listed zonesAt rounds = Inr (Some (r', s)) \<longrightarrow> verify cd (ts_store ts) listed zonesAt r \<noteq> Inr (r', Some s))
    \<and> (e = None \<longrightarrow> (\<forall>r \<in> D. object_keys r \<subseteq> set (sg_deletes g)) \<and> sr_Deleted (sg_res g) = card D \<and> swept_count (sg_res g) = length rounds
       \<and> (\<forall>r \<in> set rounds. round_key r |\<in>| sw_incomplete (sg_sweeper g) \<longrightarrow> unusable cd (ts_store ts) listed zonesAt r))"
proof -
  let ?st = "ts_store ts"
  obtain rounds tags sw1 newest res g' where d: "discover ?st listed = Inr rounds"
    and n: "newestComplete cd ?st listed zonesAt (map (setTags tags) rounds) sw = (sw1, Inr newest)"
    and l: "sweepLoop cd ts p now tags newest 0 (map (setTags tags) rounds) \<lparr>sg_sweeper = sw1, sg_res = res, sg_live = {||}, sg_deletes = []\<rparr> = (e, g')"
    and z: "swept_count res = 0" and g': "sg_deletes g' = sg_deletes g" "sg_res g' = sg_res g" "e = None \<longrightarrow> sg_sweeper g = forgetDead (sg_live g') (sg_sweeper g')"
    by (rule Sweep_loop[OF assms(1,2)])
  note dist = discover_keys[OF d]
  define sw0 where "sw0 = (if Sprint listed \<noteq> sw_listed sw then sw\<lparr>sw_listed := Sprint listed, sw_incomplete := {||}\<rparr> else sw)"
  have "unusable cd ?st listed zonesAt r" if "r \<in> set rounds" "round_key r |\<in>| sw_incomplete sw0" for r
    using that assms(3) d by (auto simp: cache_sound_def sw0_def list_all_iff split: if_splits)
  note f = newestFrom_finds[OF n[unfolded newestComplete_def Let_def sw0_def[symmetric]] this dist]
  obtain D0 ds where D0: "D0 \<subseteq> set (enumerate 0 (map (setTags tags) rounds))" "\<forall>x \<in> D0. \<not> exempt p newest x" "sg_deletes g = ds"
    "set ds \<subseteq> (\<Union>x \<in> D0. set (tag_keys tags (snd x)) \<union> object_keys (snd x))" "sw_incomplete (sg_sweeper g') = sw_incomplete sw1"
    "e = None \<longrightarrow> (\<Union>x \<in> D0. object_keys (snd x)) \<subseteq> set ds \<and> sr_Deleted (sg_res g) = sr_Deleted res + card D0 \<and> swept_count (sg_res g) = swept_count res + length rounds"
    using sweepLoop_deletes[OF l] g' by auto
  have at: "fst x < length rounds \<and> snd x = setTags tags (rounds ! fst x)" if "x \<in> D0" for x
    using subsetD[OF D0(1) that] unfolding in_set_enumerate_eq by (metis add_0_right diff_zero length_map nth_map)
  define D where "D = (\<lambda>x. rounds ! fst x) ` D0"
  have dr: "distinct rounds" using dist by (simp add: distinct_map)
  have inj: "inj_on (\<lambda>x. rounds ! fst x) D0"
  proof (rule inj_onI)
    fix x y assume x: "x \<in> D0" and y: "y \<in> D0" and "rounds ! fst x = rounds ! fst y"
    then have "fst x = fst y" using at nth_eq_iff_index_eq[OF dr] by blast
    then show "x = y" using at[OF x] at[OF y] by (simp add: prod_eq_iff)
  qed
  have sub: "D \<subseteq> set rounds" using at by (auto simp: D_def)
  have disj: "object_keys r \<inter> set (sg_deletes g) = {}" if r: "r \<in> set rounds" "r \<notin> D" for r
  proof (rule ccontr)
    assume "object_keys r \<inter> set (sg_deletes g) \<noteq> {}"
    then obtain a x where a: "a \<in> set (ro_Zones r)" "x \<in> D0" "zr_Key a \<in> set (tag_keys tags (snd x)) \<union> object_keys (snd x)" using D0(3,4) by blast
    let ?r = "rounds ! fst x"
    have x: "?r \<in> set rounds" "ro_Zones (snd x) = ro_Zones ?r" "?r \<in> D" using at[OF a(2)] a(2) by (auto simp: D_def)
    obtain b where b: "b \<in> set (ro_Zones ?r)" "zr_Key a = zr_Key b \<or> (\<exists>m. zr_Key a = TagKey (zr_Key b) m)"
      using a(3) x(2) by (auto simp: tag_keys_def)
    show False using discover_disjoint[OF d r(1) x(1) a(1) b(1)] b(2) r(2) x(3) by auto
  qed
  have pin: "\<not> (rt_Pin p \<noteq> 0 \<and> ro_Tick r = rt_Pin p)" if rD: "r \<in> D" for r
  proof -
    obtain x where x: "x \<in> D0" "r = rounds ! fst x" using rD unfolding D_def by blast
    show ?thesis using D0(2) x at[OF x(1)] by (auto simp: exempt_def)
  qed
  have new: "verify cd ?st listed zonesAt r \<noteq> Inr (r', Some s)" if rD: "r \<in> D" and nw: "newestOf cd ?st listed zonesAt rounds = Inr (Some (r', s))" for r r' s
  proof
    assume v: "verify cd ?st listed zonesAt r = Inr (r', Some s)"
    obtain x where x: "x \<in> D0" "r = rounds ! fst x" using rD unfolding D_def by blast
    obtain j y where j: "newest = Some j" "(j, y) \<in> set (enumerate 0 rounds)" "verify cd ?st listed zonesAt y = Inr (r', Some s)" using f nw by blast
    have y: "j < length rounds" "rounds ! j = y" using j(2) by (auto simp: in_set_enumerate_eq)
    have "round_key r = round_key r'" "round_key y = round_key r'" using verify_key v j(3) by auto
    then have "round_key (rounds ! fst x) = round_key (rounds ! j)" unfolding x(2) y(2) by simp
    then have "map round_key rounds ! fst x = map round_key rounds ! j" using at[OF x(1)] y(1) by simp
    then have "fst x = j" using nth_eq_iff_index_eq[OF dist, of "fst x" j] at[OF x(1)] y(1) by simp
    then show False using D0(2) x(1) j(1) by (auto simp: exempt_def)
  qed
  have ok: "(\<forall>r \<in> D. object_keys r \<subseteq> set (sg_deletes g)) \<and> sr_Deleted (sg_res g) = card D \<and> swept_count (sg_res g) = length rounds
       \<and> (\<forall>r \<in> set rounds. round_key r |\<in>| sw_incomplete (sg_sweeper g) \<longrightarrow> unusable cd ?st listed zonesAt r)" if e: "e = None"
  proof (intro conjI)
    have "object_keys (rounds ! fst x) \<subseteq> set ds" if x: "x \<in> D0" for x
    proof -
      have "object_keys (snd x) \<subseteq> set ds" using D0(6) e x by blast
      then show ?thesis using at[OF x] by simp
    qed
    then show "\<forall>r \<in> D. object_keys r \<subseteq> set (sg_deletes g)" using D0(3) by (auto simp: D_def)
    show "sr_Deleted (sg_res g) = card D" using D0(6) e z card_image[OF inj] by (simp add: D_def)
    show "swept_count (sg_res g) = length rounds" using D0(6) e z by simp
    show "\<forall>r \<in> set rounds. round_key r |\<in>| sw_incomplete (sg_sweeper g) \<longrightarrow> unusable cd ?st listed zonesAt r"
      using f g'(3) e D0(5) by (simp add: forgetDead_def)
  qed
  show ?thesis by (intro exI[of _ rounds] exI[of _ D] conjI ballI allI impI d sub disj pin new ok)
qed

text \<open>
  C13. A sweep never makes the World unrecoverable. After one that ended well, the store yields the
  same newest complete round it yielded before, whatever the policy says of its age or of how many
  rounds to keep; a pinned round reads exactly as it did; and what the Sweeper remembers about
  incomplete rounds stays true of the store, as it is for a new one.
\<close>
theorem Sweep_keeps_recovery:
  assumes "Sweep cd ts listed zonesAt p now sw = (None, g)" "cache_sound cd (ts_store ts) listed zonesAt sw"
  shows "(NewestComplete cd (ts_store ts) listed zonesAt = Inr (Some (r, s)) \<longrightarrow>
        NewestComplete cd (swept (sg_deletes g) (ts_store ts)) listed zonesAt = Inr (Some (r, s)))
    \<and> (rt_Pin p \<noteq> 0 \<longrightarrow> RoundAt cd (swept (sg_deletes g) (ts_store ts)) listed zonesAt (rt_Pin p) = RoundAt cd (ts_store ts) listed zonesAt (rt_Pin p))
    \<and> cache_sound cd (swept (sg_deletes g) (ts_store ts)) listed zonesAt (sg_sweeper g)"
proof -
  let ?st = "ts_store ts" and ?ds = "sg_deletes g"
  obtain rounds D where d: "discover ?st listed = Inr rounds" and sub: "D \<subseteq> set rounds"
    and disj: "\<forall>r \<in> set rounds. r \<notin> D \<longrightarrow> object_keys r \<inter> set ?ds = {}"
    and pin: "\<forall>r \<in> D. \<not> (rt_Pin p \<noteq> 0 \<and> ro_Tick r = rt_Pin p)"
    and new: "\<forall>r \<in> D. \<forall>r' s. newestOf cd ?st listed zonesAt rounds = Inr (Some (r', s)) \<longrightarrow> verify cd ?st listed zonesAt r \<noteq> Inr (r', Some s)"
    and ok0: "(None :: SweepError option) = None \<longrightarrow> (\<forall>r \<in> D. object_keys r \<subseteq> set ?ds) \<and> sr_Deleted (sg_res g) = card D \<and> swept_count (sg_res g) = length rounds
       \<and> (\<forall>r \<in> set rounds. round_key r |\<in>| sw_incomplete (sg_sweeper g) \<longrightarrow> unusable cd ?st listed zonesAt r)"
    using Sweep_deleted[OF assms(1) disjI2[OF refl] assms(2)] by (elim exE conjE) (rule that)
  have ok: "\<forall>r \<in> D. object_keys r \<subseteq> set ?ds" "\<forall>r \<in> set rounds. round_key r |\<in>| sw_incomplete (sg_sweeper g) \<longrightarrow> unusable cd ?st listed zonesAt r"
    using ok0 by simp_all
  let ?left = "filter (\<lambda>r. object_keys r \<inter> set ?ds = {}) rounds"
  have d': "discover (swept ?ds ?st) listed = Inr ?left" by (rule discover_swept[OF d]) (use ok(1) disj in blast)
  have "NewestComplete cd (swept ?ds ?st) listed zonesAt = Inr (Some (r, s))" if n: "NewestComplete cd ?st listed zonesAt = Inr (Some (r, s))"
  proof -
    have n': "newestOf cd ?st listed zonesAt rounds = Inr (Some (r, s))" using n d by (simp add: NewestComplete_def)
    show ?thesis using newestOf_swept[OF n', of ?ds] disj new n' d' by (auto simp: NewestComplete_def)
  qed
  moreover have "RoundAt cd (swept ?ds ?st) listed zonesAt (rt_Pin p) = RoundAt cd ?st listed zonesAt (rt_Pin p)" if "rt_Pin p \<noteq> 0"
  proof -
    have keep: "object_keys r \<inter> set ?ds = {}" if "r \<in> set rounds" "ro_Tick r = rt_Pin p" for r using disj that pin \<open>rt_Pin p \<noteq> 0\<close> by blast
    have "filter (\<lambda>r. ro_Tick r = rt_Pin p) ?left = filter (\<lambda>r. ro_Tick r = rt_Pin p) rounds"
      using keep unfolding filter_filter by (intro filter_cong) auto
    moreover have "verify cd (swept ?ds ?st) listed zonesAt r = verify cd ?st listed zonesAt r"
      if "find (\<lambda>r. ro_StateVersion r \<le> StateVersion) (filter (\<lambda>r. ro_Tick r = rt_Pin p) rounds) = Some r" for r
    proof (rule verify_swept)
      have "r \<in> set (filter (\<lambda>r. ro_Tick r = rt_Pin p) rounds)" using that by (metis find_Some_iff nth_mem)
      then show "object_keys r \<inter> set ?ds = {}" using keep by simp
    qed
    ultimately show ?thesis unfolding RoundAt_def d d' sum.case by (simp add: Let_def cong: option.case_cong)
  qed
  moreover have "cache_sound cd (swept ?ds ?st) listed zonesAt (sg_sweeper g)"
    using ok(2) by (simp add: cache_sound_def d' list_all_iff unusable_swept)
  ultimately show ?thesis by blast
qed

text \<open>
  C33. The counts of a sweep that ended well partition the rounds the store held: as many rounds as
  were counted deleted are gone from the listing, as many as were counted kept, tagged or not, are
  left in it, and those left are left with every object they had.
\<close>
theorem Sweep_accounts:
  assumes "Sweep cd ts listed zonesAt p now sw = (None, g)" "cache_sound cd (ts_store ts) listed zonesAt sw"
  shows "\<exists>rounds left. discover (ts_store ts) listed = Inr rounds \<and> discover (swept (sg_deletes g) (ts_store ts)) listed = Inr left
    \<and> set left \<subseteq> set rounds \<and> length left = sr_KeptTagged (sg_res g) + sr_KeptUntagged (sg_res g) \<and> length rounds = length left + sr_Deleted (sg_res g)"
proof -
  let ?st = "ts_store ts" and ?ds = "sg_deletes g"
  obtain rounds D where d: "discover ?st listed = Inr rounds" and sub: "D \<subseteq> set rounds"
    and disj: "\<forall>r \<in> set rounds. r \<notin> D \<longrightarrow> object_keys r \<inter> set ?ds = {}"
    and pin: "\<forall>r \<in> D. \<not> (rt_Pin p \<noteq> 0 \<and> ro_Tick r = rt_Pin p)"
    and new: "\<forall>r \<in> D. \<forall>r' s. newestOf cd ?st listed zonesAt rounds = Inr (Some (r', s)) \<longrightarrow> verify cd ?st listed zonesAt r \<noteq> Inr (r', Some s)"
    and ok0: "(None :: SweepError option) = None \<longrightarrow> (\<forall>r \<in> D. object_keys r \<subseteq> set ?ds) \<and> sr_Deleted (sg_res g) = card D \<and> swept_count (sg_res g) = length rounds
       \<and> (\<forall>r \<in> set rounds. round_key r |\<in>| sw_incomplete (sg_sweeper g) \<longrightarrow> unusable cd ?st listed zonesAt r)"
    using Sweep_deleted[OF assms(1) disjI2[OF refl] assms(2)] by (elim exE conjE) (rule that)
  have ok: "\<forall>r \<in> D. object_keys r \<subseteq> set ?ds" "sr_Deleted (sg_res g) = card D" "swept_count (sg_res g) = length rounds" using ok0 by simp_all
  have ne: "object_keys r \<noteq> {}" if "r \<in> set rounds" for r using discover_objects[OF d that] by simp
  let ?left = "filter (\<lambda>r. object_keys r \<inter> set ?ds = {}) rounds"
  have d': "discover (swept ?ds ?st) listed = Inr ?left" by (rule discover_swept[OF d]) (use ok(1) disj in blast)
  have dr: "distinct rounds" using discover_keys[OF d] by (simp add: distinct_map)
  have "r \<in> D \<longleftrightarrow> object_keys r \<inter> set ?ds \<noteq> {}" if r: "r \<in> set rounds" for r
  proof
    assume "r \<in> D"
    then show "object_keys r \<inter> set ?ds \<noteq> {}" using ok(1) ne[OF r] by (metis inf.absorb_iff1)
  qed (use disj r in blast)
  then have left: "set ?left = set rounds - D" unfolding set_filter by blast
  have "length ?left = card (set rounds - D)" unfolding left[symmetric] by (rule distinct_card[OF distinct_filter[OF dr], symmetric])
  moreover have "card (set rounds - D) = card (set rounds) - card D" by (rule card_Diff_subset[OF finite_subset[OF sub finite_set] sub])
  moreover have "card D \<le> card (set rounds)" by (rule card_mono[OF finite_set sub])
  ultimately have "length rounds = length ?left + card D" using distinct_card[OF dr] by linarith
  moreover have "set ?left \<subseteq> set rounds" by (rule filter_is_subset)
  ultimately show ?thesis using ok(2,3) by (intro exI[of _ rounds] exI[of _ ?left] conjI d d') linarith+
qed

section \<open>A sweep of a running World\<close>

lemma newestFrom_ok:
  assumes "newestOf cd st listed zonesAt rs = Inr (Some x)" "sw_incomplete sw = {||}" "distinct (map round_key rs)"
  shows "\<exists>sw' res. newestFrom cd st listed zonesAt i (map (setTags b) rs) sw = (sw', Inr res)"
proof -
  have "\<exists>sw' res. newestFrom cd st listed zonesAt i (map (setTags b) rs) sw = (sw', Inr res)"
    if "newestOf cd st listed zonesAt rs = Inr (Some x)" "\<forall>r \<in> set rs. round_key r |\<notin>| sw_incomplete sw" "distinct (map round_key rs)" for rs i sw
    using that
  proof (induction rs arbitrary: i sw)
    case (Cons r rs)
    obtain r2 s where v: "verify cd st listed zonesAt r = Inr (r2, s)" using Cons.prems(1) by (auto split: sum.splits)
    then obtain r1 where v1: "verify cd st listed zonesAt (setTags b r) = Inr (r1, s)" "ro_Complete r1 = ro_Complete r2"
      using verify_setTags[of cd st listed zonesAt b r] by (cases "verify cd st listed zonesAt (setTags b r)") auto
    have out: "round_key r |\<notin>| sw_incomplete sw" using Cons.prems(2) by simp
    show ?case
    proof (cases s)
      case (Some s1)
      then have "ro_Complete r1" using verify_Complete[OF v] v1(2) by simp
      then show ?thesis using v1(1) out by simp
    next
      case None
      define sw1 where "sw1 = (if i > 0 \<and> ro_Cause r1 \<noteq> ''content'' then sw\<lparr>sw_incomplete := finsert (round_key r) (sw_incomplete sw)\<rparr> else sw)"
      have ks: "round_key y \<noteq> round_key r" if "y \<in> set rs" for y
        using Cons.prems(3) that unfolding list.map distinct.simps set_map by (metis (no_types, lifting) image_eqI)
      have "\<forall>y \<in> set rs. round_key y |\<notin>| sw_incomplete sw1" using ks Cons.prems(2) by (simp add: sw1_def del: prod.inject)
      moreover have "newestOf cd st listed zonesAt rs = Inr (Some x)" using Cons.prems(1) v None by (auto split: if_splits)
      ultimately obtain sw' res where n: "newestFrom cd st listed zonesAt (i + 1) (map (setTags b) rs) sw1 = (sw', Inr res)" using Cons.IH Cons.prems(3) by fastforce
      have "\<not> ro_Complete r1" using verify_Complete[OF v] v1(2) None by simp
      then show ?thesis using n v1(1) out by (simp add: sw1_def cong: if_cong)
    qed
  qed simp
  from this[OF assms(1) _ assms(3)] assms(2) show ?thesis by simp
qed

lemma sweepLoop_untagged: "fst (sweepLoop cd (untagged st) p now fmempty newest i rs g) = None"
proof (induction rs arbitrary: i g)
  case (Cons r rs)
  have k: "deleteKeys (untagged st) ign ks = (None, ks)" for ign ks by (induction ks) (simp_all add: untagged_def)
  have u: "untouched (untagged st) fmempty refs = Inr True" for refs by (induction refs) (simp_all add: untagged_def)
  have d: "\<exists>ds. deleteUntouched (untagged st) r fmempty = (Inr True, ds)" by (simp add: deleteUntouched_def u deleteRound_def k)
  have "fst (sweepRound cd (untagged st) p now fmempty (newest = Some i) r g) = None"
    using d by (auto simp: sweepRound_def Let_def split: prod.splits)
  then show ?case using Cons.IH by (auto split: prod.splits option.splits)
qed simp

text \<open>A Sweeper just made, on a store recovery can read, with no tag and no failing delete: the sweep ends well.\<close>

lemma Sweep_untagged:
  assumes "NewestComplete cd st listed zonesAt = Inr (Some x)"
  shows "\<exists>g. Sweep cd (untagged st) listed zonesAt p now NewSweeper = (None, g)"
proof -
  obtain rounds where d: "discover st listed = Inr rounds" "newestOf cd st listed zonesAt rounds = Inr (Some x)"
    using assms by (auto simp: NewestComplete_def split: sum.splits)
  have "tagsByKey (untagged st) zs fmempty = Inr fmempty" for zs by (induction zs) (simp_all add: untagged_def)
  then have t: "attachTags (Some (untagged st)) listed rounds = Inr (map (setTags fmempty) rounds, fmempty)" by (simp add: attachTags_def)
  have inc: "sw_incomplete (if Sprint listed \<noteq> sw_listed NewSweeper then NewSweeper\<lparr>sw_listed := Sprint listed, sw_incomplete := {||}\<rparr> else NewSweeper) = {||}"
    by (simp add: NewSweeper_def)
  obtain sw' res where n: "newestComplete cd st listed zonesAt (map (setTags fmempty) rounds) NewSweeper = (sw', Inr res)"
    unfolding newestComplete_def Let_def using newestFrom_ok[OF d(2) inc discover_keys[OF d(1)], of 0 fmempty] by blast
  have st: "ts_store (untagged st) = st" by (simp add: untagged_def)
  have l: "\<exists>y. (case sweepLoop cd (untagged st) p now fmempty res 0 (map (setTags fmempty) rounds) g of (Some err, g) \<Rightarrow> (Some err, g) | (None, g) \<Rightarrow> (None, f g)) = (None, y)" for g f
    using sweepLoop_untagged[of cd st p now res 0 "map (setTags fmempty) rounds" g] by (cases "sweepLoop cd (untagged st) p now fmempty res 0 (map (setTags fmempty) rounds) g") simp
  show ?thesis unfolding Sweep_def Let_def st d(1) t sum.case prod.case n
    by (rule l)
qed

text \<open>A policy that keeps nothing it is not told to keep.\<close>

definition keep_nothing :: Retention where
  "keep_nothing = \<lparr>rt_KeepRounds = 0, rt_KeepTagged = 0, rt_MaxAge = 1, rt_Pin = 0\<rparr>"

lemma boot_swept:
  "\<exists>g r s. Sweep (sample_codec boot) (untagged (sample_store boot)) (keys (ws_Zones (en_state boot))) None keep_nothing 0 NewSweeper = (None, g)
     \<and> NewestComplete (sample_codec boot) (sample_store boot) (keys (ws_Zones (en_state boot))) None = Inr (Some (r, s))"
proof -
  have "resolves None boot" by (simp add: resolves_def)
  from NewestComplete_stored[OF sample_orderly(1) boot_keys sample_stored[OF sample_orderly(1) boot_keys] this]
  obtain r s where n: "NewestComplete (sample_codec boot) (sample_store boot) (keys (ws_Zones (en_state boot))) None = Inr (Some (r, s))" by blast
  from n Sweep_untagged[OF n, of keep_nothing 0] show ?thesis by blast
qed

theorem Sweep_keeps_recovery_witness:
  "\<exists>g r s. Sweep (sample_codec boot) (untagged (sample_store boot)) (keys (ws_Zones (en_state boot))) None keep_nothing 0 NewSweeper = (None, g)
     \<and> NewestComplete (sample_codec boot) (swept (sg_deletes g) (sample_store boot)) (keys (ws_Zones (en_state boot))) None = Inr (Some (r, s))"
proof -
  obtain g r s where b: "Sweep (sample_codec boot) (untagged (sample_store boot)) (keys (ws_Zones (en_state boot))) None keep_nothing 0 NewSweeper = (None, g)"
    "NewestComplete (sample_codec boot) (sample_store boot) (keys (ws_Zones (en_state boot))) None = Inr (Some (r, s))" using boot_swept by blast
  have st: "ts_store (untagged (sample_store boot)) = sample_store boot" by (simp add: untagged_def)
  from Sweep_keeps_recovery[OF b(1) NewSweeper_sound, of r s, unfolded st] b show ?thesis by blast
qed

theorem Sweep_accounts_witness:
  "\<exists>g left. Sweep (sample_codec boot) (untagged (sample_store boot)) (keys (ws_Zones (en_state boot))) None keep_nothing 0 NewSweeper = (None, g)
     \<and> discover (swept (sg_deletes g) (sample_store boot)) (keys (ws_Zones (en_state boot))) = Inr left \<and> length left = sr_KeptTagged (sg_res g) + sr_KeptUntagged (sg_res g)"
proof -
  obtain g where b: "Sweep (sample_codec boot) (untagged (sample_store boot)) (keys (ws_Zones (en_state boot))) None keep_nothing 0 NewSweeper = (None, g)" using boot_swept by blast
  have st: "ts_store (untagged (sample_store boot)) = sample_store boot" by (simp add: untagged_def)
  from Sweep_accounts[OF b NewSweeper_sound, unfolded st] b show ?thesis by blast
qed

end
