(* ===== verification/Boundary_Seq.thy ===== *)
theory Boundary_Seq
  imports Andara_Prelude "HOL-Library.Sublist"
begin

text \<open>
  Ordering Tick Boundary Records onto the broker (\<^verbatim>\<open>server/tickloop/boundary_seq.go\<close>). Each critical
  section of the code is a function on the sequencer's state; what runs outside the lock, handing a batch
  to the producer, is a control state of its own, so that publishing, answers from the broker and
  the hand-over interleave as they do in the code. The clock, the producer's room and the broker's
  answers are free at every step. Bodies, the publish-lag times and the text of errors are left out.
\<close>

section \<open>The sequencer\<close>

record pendingBoundary =
  pb_tick :: u64
  pb_handed :: int

record boundarySeq =
  bs_outstanding :: "pendingBoundary list"
  bs_held :: "pendingBoundary list"
  bs_lost :: bool
  bs_lostTick :: u64
  bs_stopped :: bool

definition loseLocked :: "u64 \<Rightarrow> boundarySeq \<Rightarrow> boundarySeq" where
  "loseLocked tick s = s\<lparr>bs_lost := True, bs_lostTick := tick, bs_held := [], bs_stopped := True\<rparr>"

text \<open>A boundary is refused with the tick of the loss, or accepted with the batch to hand over now.\<close>

definition publish :: "int \<Rightarrow> int \<Rightarrow> pendingBoundary \<Rightarrow> boundarySeq \<Rightarrow> boundarySeq \<times> (u64 + pendingBoundary list)" where
  "publish timeout now b s =
     (let s1 = (if \<not> bs_lost s \<and> timeout > 0 \<and> bs_outstanding s \<noteq> [] \<and> time_Sub now (pb_handed (hd (bs_outstanding s))) > timeout
                then loseLocked (pb_tick (hd (bs_outstanding s))) s else s)
      in if bs_lost s1 then (s1, Inl (bs_lostTick s1))
         else if bs_outstanding s1 \<noteq> [] \<or> bs_held s1 \<noteq> [] then (s1\<lparr>bs_held := bs_held s1 @ [b]\<rparr>, Inr [])
         else let b' = b\<lparr>pb_handed := now\<rparr> in (s1\<lparr>bs_outstanding := bs_outstanding s1 @ [b']\<rparr>, Inr [b']))"

fun remove_tick :: "u64 \<Rightarrow> pendingBoundary list \<Rightarrow> pendingBoundary list" where
  "remove_tick tick [] = []"
| "remove_tick tick (b # bs) = (if pb_tick b = tick then bs else b # remove_tick tick bs)"

text \<open>The answer to a boundary: whether it is reported acknowledged, and the batch to hand over.\<close>

definition resolve :: "int \<Rightarrow> u64 \<Rightarrow> bool \<Rightarrow> boundarySeq \<Rightarrow> boundarySeq \<times> bool \<times> pendingBoundary list" where
  "resolve now tick failed s0 =
     (let s = s0\<lparr>bs_outstanding := remove_tick tick (bs_outstanding s0)\<rparr>
      in if bs_lost s then (s, False, [])
         else if failed then (loseLocked tick s, False, [])
         else if bs_outstanding s \<noteq> [] \<or> bs_held s = [] then (s, True, [])
         else let batch = map (\<lambda>b. b\<lparr>pb_handed := now\<rparr>) (bs_held s)
              in (s\<lparr>bs_outstanding := bs_outstanding s @ batch, bs_held := []\<rparr>, True, batch))"

definition lostAt :: "boundarySeq \<Rightarrow> bool \<times> u64" where
  "lostAt s = (bs_lost s, bs_lostTick s)"

section \<open>Hand-over\<close>

text \<open>
  Where \<^verbatim>\<open>handOver\<close> is: before its check of the producer's room, at the head of its loop with what is
  left of the batch, or past the check of \<^verbatim>\<open>stopped\<close> with a boundary about to be produced.
\<close>

datatype handing = Idle | Room "pendingBoundary list" | Loop "pendingBoundary list" | Armed pendingBoundary "pendingBoundary list"

fun loop_at :: "pendingBoundary list \<Rightarrow> handing" where
  "loop_at [] = Idle"
| "loop_at bs = Loop bs"

fun to_hand :: "handing \<Rightarrow> pendingBoundary list" where
  "to_hand Idle = []"
| "to_hand (Room bs) = bs"
| "to_hand (Loop bs) = bs"
| "to_hand (Armed b bs) = b # bs"

definition begin_hand :: "pendingBoundary list \<Rightarrow> handing \<Rightarrow> handing" where
  "begin_hand batch h = (if batch = [] then h else Room batch)"

text \<open>The sequencer, its hand-over, and what it did: accepted, produced, acknowledged and not yet answered, as ticks.\<close>

record publisher =
  pu_seq :: boundarySeq
  pu_hand :: handing
  pu_accepted :: "u64 list"
  pu_produced :: "u64 list"
  pu_acked :: "u64 list"
  pu_unanswered :: "u64 list"

definition answer :: "int \<Rightarrow> u64 \<Rightarrow> bool \<Rightarrow> publisher \<Rightarrow> publisher" where
  "answer now tick failed u =
     (case resolve now tick failed (pu_seq u) of (s, reported, batch) \<Rightarrow>
        u\<lparr>pu_seq := s, pu_acked := (if reported then pu_acked u @ [tick] else pu_acked u), pu_hand := begin_hand batch (pu_hand u)\<rparr>)"

inductive pub_step :: "int \<Rightarrow> publisher \<Rightarrow> publisher \<Rightarrow> bool" for timeout where
  publish_accepted: "publish timeout now b (pu_seq u) = (s, Inr batch) \<Longrightarrow> pb_tick b \<notin> set (pu_accepted u) \<Longrightarrow>
    pub_step timeout u (u\<lparr>pu_seq := s, pu_accepted := pu_accepted u @ [pb_tick b], pu_hand := begin_hand batch (pu_hand u)\<rparr>)"
| publish_refused: "publish timeout now b (pu_seq u) = (s, Inl lostTick) \<Longrightarrow> pub_step timeout u (u\<lparr>pu_seq := s\<rparr>)"
| no_room: "pu_hand u = Room (b # bs) \<Longrightarrow> pub_step timeout u (answer now (pb_tick b) True (u\<lparr>pu_hand := Idle\<rparr>))"
| room: "pu_hand u = Room bs \<Longrightarrow> pub_step timeout u (u\<lparr>pu_hand := loop_at bs\<rparr>)"
| stopped: "pu_hand u = Loop bs \<Longrightarrow> bs_stopped (pu_seq u) \<Longrightarrow> pub_step timeout u (u\<lparr>pu_hand := Idle\<rparr>)"
| armed: "pu_hand u = Loop (b # bs) \<Longrightarrow> \<not> bs_stopped (pu_seq u) \<Longrightarrow> pub_step timeout u (u\<lparr>pu_hand := Armed b bs\<rparr>)"
| produce: "pu_hand u = Armed b bs \<Longrightarrow>
    pub_step timeout u (u\<lparr>pu_hand := loop_at bs, pu_produced := pu_produced u @ [pb_tick b], pu_unanswered := pu_unanswered u @ [pb_tick b]\<rparr>)"
| answered: "tick \<in> set (pu_unanswered u) \<Longrightarrow>
    pub_step timeout u (answer now tick failed (u\<lparr>pu_unanswered := remove1 tick (pu_unanswered u)\<rparr>))"

inductive_cases pub_stepE: "pub_step timeout u u'"

definition new_publisher :: publisher where
  "new_publisher = \<lparr>pu_seq = \<lparr>bs_outstanding = [], bs_held = [], bs_lost = False, bs_lostTick = 0, bs_stopped = False\<rparr>, pu_hand = Idle,
     pu_accepted = [], pu_produced = [], pu_acked = [], pu_unanswered = []\<rparr>"

section \<open>The invariant\<close>

abbreviation ticks :: "pendingBoundary list \<Rightarrow> u64 list" where
  "ticks \<equiv> map pb_tick"

text \<open>
  Always: what is being handed over continues what was produced, in the order accepted. Until a loss:
  everything accepted is produced, being handed over or held; what is outstanding is what was produced and
  not answered, and what is being handed over; nothing is held while nothing is outstanding.
\<close>

definition pub_always :: "publisher \<Rightarrow> bool" where
  "pub_always u \<longleftrightarrow> distinct (pu_accepted u) \<and> prefix (pu_produced u @ ticks (to_hand (pu_hand u))) (pu_accepted u)
     \<and> distinct (pu_unanswered u) \<and> set (pu_unanswered u) \<subseteq> set (pu_produced u) \<and> set (pu_acked u) \<subseteq> set (pu_produced u) - set (pu_unanswered u) \<and> distinct (pu_acked u)
     \<and> (bs_stopped (pu_seq u) \<longleftrightarrow> bs_lost (pu_seq u)) \<and> (bs_lost (pu_seq u) \<longrightarrow> bs_held (pu_seq u) = [] \<and> bs_lostTick (pu_seq u) \<in> set (pu_accepted u))
     \<and> pu_hand u \<noteq> Room [] \<and> pu_hand u \<noteq> Loop []"

definition pub_going :: "publisher \<Rightarrow> bool" where
  "pub_going u \<longleftrightarrow> pu_accepted u = pu_produced u @ ticks (to_hand (pu_hand u)) @ ticks (bs_held (pu_seq u))
     \<and> set (ticks (bs_outstanding (pu_seq u))) = set (pu_unanswered u) \<union> set (ticks (to_hand (pu_hand u)))
     \<and> distinct (ticks (bs_outstanding (pu_seq u)))
     \<and> set (pu_acked u) = set (pu_produced u) - set (pu_unanswered u)
     \<and> (bs_outstanding (pu_seq u) = [] \<longrightarrow> bs_held (pu_seq u) = [])"

definition pub_inv :: "publisher \<Rightarrow> bool" where
  "pub_inv u \<longleftrightarrow> pub_always u \<and> (\<not> bs_lost (pu_seq u) \<longrightarrow> pub_going u)"

lemma to_hand_loop [simp]: "to_hand (loop_at bs) = bs" "loop_at bs \<noteq> Room xs" "loop_at bs \<noteq> Loop []"
  by (cases bs; simp)+

lemma to_hand_Nil: "pu_hand u \<noteq> Room [] \<and> pu_hand u \<noteq> Loop [] \<Longrightarrow> to_hand (pu_hand u) = [] \<longleftrightarrow> pu_hand u = Idle"
  by (cases "pu_hand u") auto

lemma ticks_remove: "distinct (ticks bs) \<Longrightarrow> set (ticks (remove_tick t bs)) = set (ticks bs) - {t} \<and> distinct (ticks (remove_tick t bs))"
  by (induction bs) (auto simp: image_iff)

lemma ticks_handed [simp]: "ticks (map (\<lambda>b. b\<lparr>pb_handed := now\<rparr>) bs) = ticks bs"
  by simp

lemma new_publisher_inv: "pub_inv new_publisher"
  by (simp add: pub_inv_def pub_always_def pub_going_def new_publisher_def)

lemma pub_alwaysD:
  assumes "pub_inv u"
  shows "distinct (pu_accepted u)" "prefix (pu_produced u @ ticks (to_hand (pu_hand u))) (pu_accepted u)" "distinct (pu_unanswered u)"
    "set (pu_unanswered u) \<subseteq> set (pu_produced u)" "set (pu_acked u) \<subseteq> set (pu_produced u) - set (pu_unanswered u)" "distinct (pu_acked u)"
    "bs_stopped (pu_seq u) = bs_lost (pu_seq u)" "bs_lost (pu_seq u) \<Longrightarrow> bs_held (pu_seq u) = []" "bs_lost (pu_seq u) \<Longrightarrow> bs_lostTick (pu_seq u) \<in> set (pu_accepted u)"
    "pu_hand u \<noteq> Room [] \<and> pu_hand u \<noteq> Loop []"
  using assms by (simp_all add: pub_inv_def pub_always_def)

lemma pub_goingD:
  assumes "pub_inv u" "\<not> bs_lost (pu_seq u)"
  shows "pu_accepted u = pu_produced u @ ticks (to_hand (pu_hand u)) @ ticks (bs_held (pu_seq u))"
    "set (ticks (bs_outstanding (pu_seq u))) = set (pu_unanswered u) \<union> set (ticks (to_hand (pu_hand u)))"
    "distinct (ticks (bs_outstanding (pu_seq u)))" "set (pu_acked u) = set (pu_produced u) - set (pu_unanswered u)"
    "bs_outstanding (pu_seq u) = [] \<Longrightarrow> bs_held (pu_seq u) = []"
  using assms by (simp_all add: pub_inv_def pub_going_def)

section \<open>The steps keep the invariant\<close>

lemma accepted_all:
  assumes "pub_inv u"
  shows "set (pu_produced u) \<union> set (ticks (to_hand (pu_hand u))) \<subseteq> set (pu_accepted u)" "set (pu_produced u) \<inter> set (ticks (to_hand (pu_hand u))) = {}"
proof -
  obtain rest where r: "pu_accepted u = (pu_produced u @ ticks (to_hand (pu_hand u))) @ rest" using pub_alwaysD(2)[OF assms] by (auto simp: prefix_def)
  then show "set (pu_produced u) \<union> set (ticks (to_hand (pu_hand u))) \<subseteq> set (pu_accepted u)" by auto
  have "distinct ((pu_produced u @ ticks (to_hand (pu_hand u))) @ rest)" using pub_alwaysD(1)[OF assms] unfolding r .
  then show "set (pu_produced u) \<inter> set (ticks (to_hand (pu_hand u))) = {}" unfolding distinct_append by blast
qed

text \<open>Publishing: the four outcomes.\<close>

lemma publish_cases:
  assumes "publish timeout now b s = (s', r)"
  obtains (lost) t where "r = Inl t" "bs_lost s" "s' = s" "t = bs_lostTick s"
    | (timeout) b0 bs where "r = Inl (pb_tick b0)" "\<not> bs_lost s" "bs_outstanding s = b0 # bs" "s' = loseLocked (pb_tick b0) s"
    | (held) "r = Inr []" "\<not> bs_lost s" "bs_outstanding s \<noteq> [] \<or> bs_held s \<noteq> []" "s' = s\<lparr>bs_held := bs_held s @ [b]\<rparr>"
    | (now) "r = Inr [b\<lparr>pb_handed := now\<rparr>]" "\<not> bs_lost s" "bs_outstanding s = []" "bs_held s = []" "s' = s\<lparr>bs_outstanding := [b\<lparr>pb_handed := now\<rparr>]\<rparr>"
proof (cases "bs_lost s")
  case True
  then show thesis using assms by (intro that(1)) (auto simp: publish_def Let_def)
next
  case nl: False
  show thesis
  proof (cases "timeout > 0 \<and> bs_outstanding s \<noteq> [] \<and> time_Sub now (pb_handed (hd (bs_outstanding s))) > timeout")
    case True
    then obtain b0 bs where o: "bs_outstanding s = b0 # bs" by (cases "bs_outstanding s") auto
    show thesis using assms nl True o by (intro that(2)[of b0 bs]) (auto simp: publish_def Let_def loseLocked_def)
  next
    case False
    then have p: "publish timeout now b s = (if bs_outstanding s \<noteq> [] \<or> bs_held s \<noteq> [] then (s\<lparr>bs_held := bs_held s @ [b]\<rparr>, Inr [])
        else (s\<lparr>bs_outstanding := bs_outstanding s @ [b\<lparr>pb_handed := now\<rparr>]\<rparr>, Inr [b\<lparr>pb_handed := now\<rparr>]))"
      using nl unfolding publish_def Let_def by (simp only: if_False if_True simp_thms)
    show thesis
    proof (cases "bs_outstanding s \<noteq> [] \<or> bs_held s \<noteq> []")
      case True
      then show thesis using assms p nl by (intro that(3)) auto
    next
      case False
      then show thesis using assms p nl by (intro that(4)) auto
    qed
  qed
qed

lemma inv_publish_accepted:
  assumes u: "pub_inv u" and p: "publish timeout now b (pu_seq u) = (s, Inr batch)" and fresh: "pb_tick b \<notin> set (pu_accepted u)"
  shows "pub_inv (u\<lparr>pu_seq := s, pu_accepted := pu_accepted u @ [pb_tick b], pu_hand := begin_hand batch (pu_hand u)\<rparr>)"
proof -
  note A = pub_alwaysD[OF u] and G = pub_goingD[OF u]
  have d: "distinct (pu_accepted u @ [pb_tick b])" using A(1) fresh by simp
  from p show ?thesis
  proof (cases rule: publish_cases)
    case held
    then have o: "bs_outstanding (pu_seq u) \<noteq> []" using G(5) by blast
    have "prefix (pu_produced u @ ticks (to_hand (pu_hand u))) (pu_accepted u @ [pb_tick b])" using A(2) by (rule prefix_prefix)
    moreover have "pu_accepted u @ [pb_tick b] = pu_produced u @ ticks (to_hand (pu_hand u)) @ ticks (bs_held (pu_seq u) @ [b])" unfolding G(1)[OF held(2)] by simp
    ultimately show ?thesis using held o d A G(2-4)[OF held(2)]
      unfolding pub_inv_def pub_always_def pub_going_def begin_hand_def by simp
  next
    case now
    then have i: "to_hand (pu_hand u) = []" "pu_unanswered u = []" using G(2)[OF now(2)] by auto
    have "pu_accepted u = pu_produced u" using G(1)[OF now(2)] i now by simp
    then show ?thesis using now d i A G(4)[OF now(2)]
      unfolding pub_inv_def pub_always_def pub_going_def begin_hand_def by simp
  qed simp_all
qed

lemma inv_publish_refused:
  assumes u: "pub_inv u" and p: "publish timeout now b (pu_seq u) = (s, Inl t)"
  shows "pub_inv (u\<lparr>pu_seq := s\<rparr>)"
  using p
proof (cases rule: publish_cases)
  case (timeout b0 bs)
  then have "pb_tick b0 \<in> set (pu_unanswered u) \<union> set (ticks (to_hand (pu_hand u)))" using pub_goingD(2)[OF u] by auto
  then have "pb_tick b0 \<in> set (pu_accepted u)" using accepted_all(1)[OF u] pub_alwaysD(4)[OF u] by blast
  then show ?thesis using pub_alwaysD[OF u] timeout unfolding pub_inv_def pub_always_def loseLocked_def by simp
qed (use u in simp_all)

text \<open>An answer to a boundary: it stops being unanswered. A failed one is the loss, or is behind it.\<close>

lemma inv_answer_failed:
  assumes u: "pub_inv u" and t: "t \<in> set (pu_accepted u)" and un: "set un \<subseteq> set (pu_unanswered u)" "distinct un" and h: "h = pu_hand u \<or> h = Idle"
  shows "pub_inv (answer now t True (u\<lparr>pu_unanswered := un, pu_hand := h\<rparr>))"
proof -
  note A = pub_alwaysD[OF u]
  have ph: "prefix (pu_produced u @ ticks (to_hand h)) (pu_accepted u)" "h \<noteq> Room [] \<and> h \<noteq> Loop []"
    using A(2,10) h by (auto dest: append_prefixD)
  define s where "s = (pu_seq u)\<lparr>bs_outstanding := remove_tick t (bs_outstanding (pu_seq u))\<rparr>"
  have r: "answer now t True (u\<lparr>pu_unanswered := un, pu_hand := h\<rparr>) = u\<lparr>pu_unanswered := un, pu_hand := h, pu_seq := (if bs_lost (pu_seq u) then s else loseLocked t s)\<rparr>"
    by (simp add: answer_def resolve_def Let_def begin_hand_def s_def)
  have sub: "set un \<subseteq> set (pu_produced u)" "set (pu_acked u) \<subseteq> set (pu_produced u) - set un" using un(1) A(4,5) by blast+
  show ?thesis unfolding r using A(1,6-9) ph sub un(2) t unfolding pub_inv_def pub_always_def
    by (cases "bs_lost (pu_seq u)") (simp_all add: s_def loseLocked_def)
qed

lemma inv_answer_acked:
  assumes u: "pub_inv u" and t: "t \<in> set (pu_unanswered u)"
  shows "pub_inv (answer now t False (u\<lparr>pu_unanswered := remove1 t (pu_unanswered u)\<rparr>))"
proof -
  note A = pub_alwaysD[OF u] and G = pub_goingD[OF u]
  let ?s = "pu_seq u" and ?o = "remove_tick t (bs_outstanding (pu_seq u))" and ?un = "remove1 t (pu_unanswered u)"
  have un: "set ?un = set (pu_unanswered u) - {t}" "distinct ?un" using A(3) by simp_all
  have ta: "t \<in> set (pu_produced u)" "t \<notin> set (pu_acked u)" using A(4,5) t by blast+
  have sub: "set ?un \<subseteq> set (pu_produced u)" "set (pu_acked u) \<subseteq> set (pu_produced u) - set ?un" using un(1) A(4,5) by blast+
  show ?thesis
  proof (cases "bs_lost ?s")
    case True
    then have r: "answer now t False (u\<lparr>pu_unanswered := ?un\<rparr>) = u\<lparr>pu_unanswered := ?un, pu_seq := ?s\<lparr>bs_outstanding := ?o\<rparr>\<rparr>"
      by (simp add: answer_def resolve_def Let_def begin_hand_def)
    show ?thesis unfolding r using A(1,2,6-10) sub un(2) True unfolding pub_inv_def pub_always_def by simp
  next
    case nl: False
    have o: "set (ticks ?o) = set (ticks (bs_outstanding ?s)) - {t}" "distinct (ticks ?o)" using ticks_remove[OF G(3)[OF nl], of t] by simp_all
    have th: "t \<notin> set (ticks (to_hand (pu_hand u)))" using accepted_all(2)[OF u] ta(1) by blast
    have out: "set (ticks ?o) = set ?un \<union> set (ticks (to_hand (pu_hand u)))" unfolding o(1) un(1) G(2)[OF nl] using th by blast
    have acked: "set (pu_acked u @ [t]) = set (pu_produced u) - set ?un" unfolding un(1) set_append G(4)[OF nl] using t ta(1) by auto
    have acked_sub: "set (pu_acked u @ [t]) \<subseteq> set (pu_produced u) - set ?un" "distinct (pu_acked u @ [t])" using acked A(6) ta(2) by auto
    show ?thesis
    proof (cases "?o \<noteq> [] \<or> bs_held ?s = []")
      case True
      have r: "answer now t False (u\<lparr>pu_unanswered := ?un\<rparr>) = u\<lparr>pu_unanswered := ?un, pu_acked := pu_acked u @ [t], pu_seq := ?s\<lparr>bs_outstanding := ?o\<rparr>\<rparr>"
        using True nl by (simp add: answer_def resolve_def Let_def begin_hand_def)
      show ?thesis unfolding r pub_inv_def pub_always_def pub_going_def
        by (intro conjI impI) (use A(1,2,7-10) G(1)[OF nl] True sub acked acked_sub un(2) out o(2) nl in \<open>simp_all del: remove_tick.simps\<close>)
    next
      case False
      let ?b = "map (\<lambda>b. b\<lparr>pb_handed := now\<rparr>) (bs_held ?s)"
      have i: "to_hand (pu_hand u) = []" "?un = []" using out False by auto
      have r: "answer now t False (u\<lparr>pu_unanswered := ?un\<rparr>) = u\<lparr>pu_unanswered := ?un, pu_acked := pu_acked u @ [t],
          pu_seq := ?s\<lparr>bs_outstanding := ?b, bs_held := []\<rparr>, pu_hand := Room ?b\<rparr>"
        using False nl by (simp add: answer_def resolve_def Let_def begin_hand_def)
      have acc: "pu_accepted u = pu_produced u @ ticks ?b" using G(1)[OF nl] i(1) by simp
      have "distinct (ticks ?b)" using A(1) unfolding acc by simp
      moreover have "prefix (pu_produced u @ ticks ?b) (pu_accepted u)" unfolding acc by simp
      moreover have "?b \<noteq> []" using False by simp
      ultimately show ?thesis unfolding r pub_inv_def pub_always_def pub_going_def
        by (intro conjI impI) (use A(1,7) nl i(2) acked acked_sub acc in \<open>simp_all del: map_map ticks_handed\<close>)
    qed
  qed
qed

lemma pub_step_inv: "pub_step timeout u u' \<Longrightarrow> pub_inv u \<Longrightarrow> pub_inv u'"
proof (induction rule: pub_step.induct)
  case (publish_accepted now b u s batch)
  then show ?case by (intro inv_publish_accepted)
next
  case (publish_refused now b u s lostTick)
  then show ?case by (intro inv_publish_refused)
next
  case (no_room u b bs now)
  then have "pb_tick b \<in> set (pu_accepted u)" using accepted_all(1)[OF no_room(2)] by auto
  then show ?case using inv_answer_failed[OF no_room(2), of "pb_tick b" "pu_unanswered u" Idle now] pub_alwaysD(3)[OF no_room(2)] by simp
next
  case (answered t u now failed)
  note A = pub_alwaysD[OF answered(2)]
  show ?case
  proof (cases failed)
    case True
    have "t \<in> set (pu_accepted u)" using answered(1) A(4) accepted_all(1)[OF answered(2)] by blast
    then show ?thesis using inv_answer_failed[OF answered(2), of t "remove1 t (pu_unanswered u)" "pu_hand u" now] A(3) True by (simp add: set_remove1_subset)
  next
    case False
    then show ?thesis using inv_answer_acked[OF answered(2,1)] by simp
  qed
next
  case (stopped u bs)
  note A = pub_alwaysD[OF stopped(3)]
  have l: "bs_lost (pu_seq u)" using A(7) stopped(2) by simp
  show ?case unfolding pub_inv_def pub_always_def
    by (intro conjI impI) (use A(1,3-7) A(8,9)[OF l] append_prefixD[OF A(2)] l in simp_all)
next
  case (produce u b bs)
  note A = pub_alwaysD[OF produce(2)] and G = pub_goingD[OF produce(2)]
  have nb: "pb_tick b \<notin> set (pu_produced u)" using accepted_all(2)[OF produce(2)] produce(1) by auto
  then have "pb_tick b \<notin> set (pu_unanswered u)" using A(4) by blast
  moreover have "prefix ((pu_produced u @ [pb_tick b]) @ ticks bs) (pu_accepted u)" using A(2) produce(1) by simp
  moreover have "set (pu_acked u) \<subseteq> insert (pb_tick b) (set (pu_produced u)) - insert (pb_tick b) (set (pu_unanswered u))" using A(5) nb by blast
  moreover have "set (pu_unanswered u) \<subseteq> insert (pb_tick b) (set (pu_produced u))" using A(4) by blast
  moreover have "\<not> bs_lost (pu_seq u) \<Longrightarrow> set (pu_acked u) = insert (pb_tick b) (set (pu_produced u)) - insert (pb_tick b) (set (pu_unanswered u))" using G(4) nb by blast
  moreover have "\<not> bs_lost (pu_seq u) \<Longrightarrow> set (ticks (bs_outstanding (pu_seq u))) = insert (pb_tick b) (set (pu_unanswered u)) \<union> set (ticks bs)" using G(2) produce(1) by simp
  moreover have "\<not> bs_lost (pu_seq u) \<Longrightarrow> pu_accepted u = pu_produced u @ pb_tick b # ticks bs @ ticks (bs_held (pu_seq u))" using G(1) produce(1) by simp
  ultimately show ?case unfolding pub_inv_def pub_always_def pub_going_def
    by (intro conjI impI) (use A(1,3,6-9) G(3,5) in simp_all)
next
  case (room u bs)
  note A = pub_alwaysD[OF room(2)] and G = pub_goingD[OF room(2)]
  show ?case unfolding pub_inv_def pub_always_def pub_going_def by (intro conjI impI) (use A G room(1) in simp_all)
next
  case (armed u b bs)
  note A = pub_alwaysD[OF armed(3)] and G = pub_goingD[OF armed(3)]
  show ?case unfolding pub_inv_def pub_always_def pub_going_def by (intro conjI impI) (use A G armed(1) in simp_all)
qed

section \<open>Every run\<close>

inductive pub_reach :: "int \<Rightarrow> publisher \<Rightarrow> bool" for timeout where
  pub_reach_new: "pub_reach timeout new_publisher"
| pub_reach_step: "pub_reach timeout u \<Longrightarrow> pub_step timeout u u' \<Longrightarrow> pub_reach timeout u'"

lemma pub_reach_inv: "pub_reach timeout u \<Longrightarrow> pub_inv u"
  by (induction rule: pub_reach.induct) (auto simp: new_publisher_inv dest: pub_step_inv)

text \<open>A run that publishes two boundaries: the second is held until the first is acknowledged.\<close>

definition pb :: "u64 \<Rightarrow> pendingBoundary" where
  "pb t = \<lparr>pb_tick = t, pb_handed = 0\<rparr>"

definition sample_pub :: publisher where
  "sample_pub = \<lparr>pu_seq = \<lparr>bs_outstanding = [pb 1], bs_held = [pb 2], bs_lost = False, bs_lostTick = 0, bs_stopped = False\<rparr>, pu_hand = Idle,
     pu_accepted = [1, 2], pu_produced = [1], pu_acked = [], pu_unanswered = [1]\<rparr>"

lemma sample_pub_reach: "pub_reach timeout sample_pub"
proof -
  let ?s1 = "\<lparr>bs_outstanding = [pb 1], bs_held = [], bs_lost = False, bs_lostTick = 0, bs_stopped = False\<rparr>"
  let ?u1 = "new_publisher\<lparr>pu_seq := ?s1, pu_accepted := [1], pu_hand := Room [pb 1]\<rparr>"
  let ?u2 = "?u1\<lparr>pu_hand := Loop [pb 1]\<rparr>" and ?u3 = "?u1\<lparr>pu_hand := Armed (pb 1) []\<rparr>"
  let ?u4 = "?u1\<lparr>pu_hand := Idle, pu_produced := [1], pu_unanswered := [1]\<rparr>"
  have p1: "publish timeout 0 (pb 1) (pu_seq new_publisher) = (?s1, Inr [pb 1])" by (simp add: publish_def new_publisher_def pb_def Let_def)
  have p2: "publish timeout 0 (pb 2) ?s1 = (?s1\<lparr>bs_held := [pb 2]\<rparr>, Inr [])" by (auto simp: publish_def pb_def time_Sub_def Let_def)
  have "pub_reach timeout ?u1"
    using pub_reach_step[OF pub_reach_new publish_accepted[OF p1]] by (simp add: new_publisher_def begin_hand_def pb_def)
  from pub_reach_step[OF this room[of ?u1 "[pb 1]"]] have "pub_reach timeout ?u2" by simp
  from pub_reach_step[OF this armed[of ?u2 "pb 1" "[]"]] have "pub_reach timeout ?u3" by simp
  from pub_reach_step[OF this produce[of ?u3 "pb 1" "[]"]] have "pub_reach timeout ?u4" by (simp add: new_publisher_def pb_def)
  from pub_reach_step[OF this publish_accepted[of timeout 0 "pb 2" ?u4 "?s1\<lparr>bs_held := [pb 2]\<rparr>" "[]"]] p2
  show ?thesis by (simp add: new_publisher_def begin_hand_def pb_def sample_pub_def)
qed

text \<open>
  C14. What is handed to the producer is, however publishing, the broker's answers and the hand-over
  interleave, an initial segment of the boundaries accepted, in order, with no gap and none twice; only
  a boundary handed over is ever reported acknowledged, and once. Until a boundary is lost every
  one accepted is handed over, about to be, or held, and every one handed over is acknowledged or
  unanswered.
\<close>
theorem boundaries_gapless:
  assumes "pub_reach timeout u"
  shows "prefix (pu_produced u) (pu_accepted u) \<and> distinct (pu_produced u) \<and> set (pu_acked u) \<subseteq> set (pu_produced u) \<and> distinct (pu_acked u)
    \<and> (\<not> fst (lostAt (pu_seq u)) \<longrightarrow> pu_accepted u = pu_produced u @ ticks (to_hand (pu_hand u)) @ ticks (bs_held (pu_seq u))
        \<and> set (pu_acked u) = set (pu_produced u) - set (pu_unanswered u))"
proof -
  note u = pub_reach_inv[OF assms]
  note A = pub_alwaysD[OF u]
  have "prefix (pu_produced u) (pu_accepted u)" by (rule append_prefixD[OF A(2)])
  moreover have "distinct (pu_produced u)" using calculation A(1) by (auto simp: prefix_def)
  ultimately show ?thesis using A(5,6) pub_goingD(1,4)[OF u] unfolding lostAt_def by auto
qed

theorem boundaries_gapless_witness:
  "pub_reach 30 sample_pub \<and> prefix [1] (pu_accepted sample_pub)"
  using boundaries_gapless[OF sample_pub_reach[of 30]] sample_pub_reach[of 30] by (simp add: sample_pub_def)

section \<open>After a loss\<close>

definition armed_now :: "handing \<Rightarrow> nat" where
  "armed_now h = (case h of Armed _ _ \<Rightarrow> 1 | _ \<Rightarrow> 0)"

lemma loss_step:
  assumes "pub_step timeout u u'" "pub_inv u" "bs_lost (pu_seq u)"
  shows "bs_lost (pu_seq u') \<and> bs_lostTick (pu_seq u') = bs_lostTick (pu_seq u) \<and> pu_accepted u' = pu_accepted u \<and> pu_acked u' = pu_acked u
    \<and> length (pu_produced u') + armed_now (pu_hand u') \<le> length (pu_produced u) + armed_now (pu_hand u)"
  using assms
proof (induction rule: pub_step.induct)
  case (produce u b bs)
  then show ?case by (cases bs) (simp_all add: armed_now_def)
next
  case (room u bs)
  then show ?case by (cases bs) (simp_all add: armed_now_def)
next
  case (armed u b bs)
  then show ?case using pub_alwaysD(7) by blast
qed (auto simp: publish_def resolve_def answer_def Let_def begin_hand_def armed_now_def)

text \<open>
  C15. A loss is final: from then on every boundary is refused, with the tick of the first loss, none
  is reported acknowledged, and at most one more, the one whose check came before the loss, still
  reaches the producer.
\<close>
theorem loss_is_final:
  assumes "pub_reach timeout u" "bs_lost (pu_seq u)" "(pub_step timeout)\<^sup>*\<^sup>* u u'"
  shows "lostAt (pu_seq u') = lostAt (pu_seq u) \<and> pu_accepted u' = pu_accepted u \<and> pu_acked u' = pu_acked u
    \<and> length (pu_produced u') \<le> length (pu_produced u) + 1 \<and> snd (publish timeout now b (pu_seq u')) = Inl (snd (lostAt (pu_seq u)))"
proof -
  have r: "pub_inv u' \<and> bs_lost (pu_seq u') \<and> bs_lostTick (pu_seq u') = bs_lostTick (pu_seq u) \<and> pu_accepted u' = pu_accepted u \<and> pu_acked u' = pu_acked u
    \<and> length (pu_produced u') + armed_now (pu_hand u') \<le> length (pu_produced u) + armed_now (pu_hand u)"
    using assms(3)
  proof (induction rule: rtranclp_induct)
    case base
    then show ?case using pub_reach_inv[OF assms(1)] assms(2) by simp
  next
    case (step y z)
    then show ?case using loss_step[OF step(2)] pub_step_inv[OF step(2)] by auto
  qed
  have "armed_now (pu_hand u) \<le> 1" by (simp add: armed_now_def split: handing.split)
  then have "length (pu_produced u') \<le> length (pu_produced u) + 1" using r by linarith
  moreover have "snd (publish timeout now b (pu_seq u')) = Inl (bs_lostTick (pu_seq u'))" using r unfolding publish_def Let_def by simp
  moreover have "lostAt (pu_seq u') = lostAt (pu_seq u)" "snd (lostAt (pu_seq u)) = bs_lostTick (pu_seq u')" using r assms(2) unfolding lostAt_def by simp_all
  ultimately show ?thesis using r by metis
qed

text \<open>The broker refuses the first of the two boundaries.\<close>

definition sample_loss :: publisher where
  "sample_loss = answer 0 1 True (sample_pub\<lparr>pu_unanswered := []\<rparr>)"

lemma sample_loss_reach: "pub_reach timeout sample_loss"
  using pub_reach_step[OF sample_pub_reach answered[of 1 sample_pub timeout 0 True]] by (simp add: sample_loss_def sample_pub_def)

theorem loss_is_final_witness:
  "snd (publish 30 5 (pb 3) (pu_seq sample_loss)) = Inl 1"
proof -
  have l: "bs_lost (pu_seq sample_loss)" "lostAt (pu_seq sample_loss) = (True, 1)"
    by (simp_all add: sample_loss_def sample_pub_def answer_def resolve_def loseLocked_def lostAt_def pb_def Let_def)
  show ?thesis using loss_is_final[OF sample_loss_reach[of 30] l(1) rtranclp.rtrancl_refl, of 5 "pb 3"] l(2) by simp
qed

section \<open>Nothing is stranded\<close>

definition work_left :: "publisher \<Rightarrow> nat" where
  "work_left u = length (pu_unanswered u) + 4 * length (bs_held (pu_seq u))
     + (case pu_hand u of Idle \<Rightarrow> 0 | Room bs \<Rightarrow> 3 * length bs + 1 | Loop bs \<Rightarrow> 3 * length bs | Armed _ bs \<Rightarrow> 3 * length bs + 2)"

lemma work_loop_at: "(case loop_at bs of Idle \<Rightarrow> 0 | Room bs \<Rightarrow> 3 * length bs + 1 | Loop bs \<Rightarrow> 3 * length bs | Armed _ bs \<Rightarrow> 3 * length bs + 2) = 3 * length bs"
  by (cases bs) simp_all

lemma pub_progress:
  assumes u: "pub_inv u" and nl: "\<not> bs_lost (pu_seq u)" and w: "work_left u \<noteq> 0"
  shows "\<exists>u'. pub_step timeout u u' \<and> \<not> bs_lost (pu_seq u') \<and> pu_accepted u' = pu_accepted u \<and> work_left u' < work_left u"
proof -
  note A = pub_alwaysD[OF u] and G = pub_goingD[OF u nl]
  show ?thesis
  proof (cases "pu_hand u")
    case (Room bs)
    then show ?thesis using pub_step.room[OF Room, of timeout] nl
      by (intro exI[of _ "u\<lparr>pu_hand := loop_at bs\<rparr>"]) (simp add: work_left_def work_loop_at)
  next
    case (Loop bs)
    then obtain b bs' where b: "bs = b # bs'" using A(10) by (cases bs) auto
    have "pub_step timeout u (u\<lparr>pu_hand := Armed b bs'\<rparr>)" using Loop b A(7) nl by (intro pub_step.armed) auto
    then show ?thesis using nl Loop b by (intro exI[of _ "u\<lparr>pu_hand := Armed b bs'\<rparr>"]) (simp add: work_left_def)
  next
    case (Armed b bs)
    let ?u = "u\<lparr>pu_hand := loop_at bs, pu_produced := pu_produced u @ [pb_tick b], pu_unanswered := pu_unanswered u @ [pb_tick b]\<rparr>"
    show ?thesis using pub_step.produce[OF Armed, of timeout] nl Armed by (intro exI[of _ ?u]) (simp add: work_left_def work_loop_at)
  next
    case Idle
    have "pu_unanswered u \<noteq> []" using w Idle G(2,5) by (auto simp: work_left_def)
    then obtain t where t: "t \<in> set (pu_unanswered u)" by (cases "pu_unanswered u") auto
    let ?u = "answer 0 t False (u\<lparr>pu_unanswered := remove1 t (pu_unanswered u)\<rparr>)"
    have l: "length (pu_unanswered u) > length (remove1 t (pu_unanswered u))" using t length_pos_if_in_set[OF t] by (simp add: length_remove1)
    have "\<not> bs_lost (pu_seq ?u) \<and> pu_accepted ?u = pu_accepted u \<and> work_left ?u < work_left u"
      using nl Idle l by (cases "bs_held (pu_seq u)") (auto simp: answer_def resolve_def Let_def begin_hand_def work_left_def split: if_splits)
    then show ?thesis using pub_step.answered[OF t] by blast
  qed
qed

text \<open>
  C16. No boundary is stranded: from every state of every run in which none was lost, there is a
  continuation in which every boundary accepted so far is handed over and acknowledged, with nothing
  more than the broker's answers and the hand-over going on.
\<close>
theorem boundaries_drain:
  assumes "pub_reach timeout u" "\<not> bs_lost (pu_seq u)"
  shows "\<exists>u'. (pub_step timeout)\<^sup>*\<^sup>* u u' \<and> pu_accepted u' = pu_accepted u \<and> pu_produced u' = pu_accepted u \<and> set (pu_acked u') = set (pu_accepted u)"
  using pub_reach_inv[OF assms(1)] assms(2)
proof (induction "work_left u" arbitrary: u rule: less_induct)
  case less
  note G = pub_goingD[OF less(2,3)]
  show ?case
  proof (cases "work_left u = 0")
    case True
    then have "pu_unanswered u = []" "bs_held (pu_seq u) = []" "pu_hand u = Idle" 
      using pub_alwaysD(10)[OF less(2)] by (auto simp: work_left_def split: handing.splits)
    then show ?thesis using G(1,4) by (intro exI[of _ u]) simp
  next
    case False
    then obtain u1 where u1: "pub_step timeout u u1" "\<not> bs_lost (pu_seq u1)" "pu_accepted u1 = pu_accepted u" "work_left u1 < work_left u"
      using pub_progress[OF less(2,3)] by blast
    from less(1)[OF u1(4) pub_step_inv[OF u1(1) less(2)] u1(2)] u1(1,3) show ?thesis by (metis converse_rtranclp_into_rtranclp)
  qed
qed

theorem boundaries_drain_witness:
  "\<exists>u'. (pub_step 30)\<^sup>*\<^sup>* sample_pub u' \<and> pu_produced u' = [1, 2] \<and> set (pu_acked u') = {1, 2}"
  using boundaries_drain[OF sample_pub_reach[of 30]] by (simp add: sample_pub_def) blast

end
