(* ===== verification/Lang_Lexer.thy ===== *)
theory Lang_Lexer
  imports Snapshot_Key "HOL-Library.Sublist"
begin

text \<open>
  The scanner of the Content Language (\<^verbatim>\<open>content/lang/token.go\<close> and \<^verbatim>\<open>lexer.go\<close>). A source is bytes;
  the scanner reads it rune by rune, as \<^verbatim>\<open>unicode/utf8\<close> decodes them, and counts columns in runes. A
  scanner's state is the whole source, what is left of it (\<^verbatim>\<open>src[off:]\<close>) and the position reached; the
  text of a token is what lies between two states. Lines and columns are natural numbers: a source is
  far shorter than an \<^verbatim>\<open>int\<close> can count.

  \<open>toks\<close> is the reference: the terminals of the grammar over bytes, without runes and positions. The
  scanner yields those terminals, in order, each at the position it stands at, and loses nothing but
  white space.
\<close>

section \<open>Runes\<close>

abbreviation ru :: "char \<Rightarrow> nat" where
  "ru c \<equiv> of_char c"

definition RuneError :: nat where
  "RuneError = 0xFFFD"

definition cont :: "nat \<Rightarrow> bool" where
  "cont b \<longleftrightarrow> 0x80 \<le> b \<and> b \<le> 0xBF"

text \<open>\<^verbatim>\<open>utf8.DecodeRuneInString\<close>: the rune and its width, or \<^verbatim>\<open>RuneError\<close> of width 1 where no rune begins.\<close>

definition byte_at :: "string \<Rightarrow> nat \<Rightarrow> nat" where
  "byte_at s i = (if i < length s then ru (s ! i) else 0)"

definition DecodeRune :: "string \<Rightarrow> nat \<times> nat" where
  "DecodeRune s =
    (let b = byte_at s; b0 = b 0 in
     if s = [] then (RuneError, 0)
     else if b0 < 0x80 then (b0, 1)
     else if 0xC2 \<le> b0 \<and> b0 \<le> 0xDF \<and> cont (b 1) then ((b0 - 0xC0) * 0x40 + (b 1 - 0x80), 2)
     else if 0xE0 \<le> b0 \<and> b0 \<le> 0xEF \<and> (if b0 = 0xE0 then 0xA0 else 0x80) \<le> b 1 \<and> b 1 \<le> (if b0 = 0xED then 0x9F else 0xBF) \<and> cont (b 2) then
       ((b0 - 0xE0) * 0x1000 + (b 1 - 0x80) * 0x40 + (b 2 - 0x80), 3)
     else if 0xF0 \<le> b0 \<and> b0 \<le> 0xF4 \<and> (if b0 = 0xF0 then 0x90 else 0x80) \<le> b 1 \<and> b 1 \<le> (if b0 = 0xF4 then 0x8F else 0xBF) \<and> cont (b 2) \<and> cont (b 3) then
       ((b0 - 0xF0) * 0x40000 + (b 1 - 0x80) * 0x1000 + (b 2 - 0x80) * 0x40 + (b 3 - 0x80), 4)
     else (RuneError, 1))"

text \<open>The conversion \<^verbatim>\<open>string(r)\<close> of a rune.\<close>

definition rune_string :: "nat \<Rightarrow> string" where
  "rune_string r =
     (if r < 0x80 then [char_of r]
      else if r < 0x800 then map char_of [0xC0 + r div 0x40, 0x80 + r mod 0x40]
      else if 0x10FFFF < r \<or> 0xD800 \<le> r \<and> r \<le> 0xDFFF then map char_of [0xEF, 0xBF, 0xBD :: nat]
      else if r < 0x10000 then map char_of [0xE0 + r div 0x1000, 0x80 + r div 0x40 mod 0x40, 0x80 + r mod 0x40]
      else map char_of [0xF0 + r div 0x40000, 0x80 + r div 0x1000 mod 0x40, 0x80 + r div 0x40 mod 0x40, 0x80 + r mod 0x40])"

lemma ru_eq_char: "n < 256 \<Longrightarrow> ru c = n \<longleftrightarrow> c = char_of n"
  using of_char_of[of n] char_of_char[of c] by auto

lemma ru_eq [simp]:
  "ru c = 0x09 \<longleftrightarrow> c = CHR 0x09" "ru c = 0x0A \<longleftrightarrow> c = CHR 0x0A" "ru c = 0x0D \<longleftrightarrow> c = CHR 0x0D"
  "ru c = 0x20 \<longleftrightarrow> c = CHR 0x20" "ru c = 0x22 \<longleftrightarrow> c = CHR 0x22" "ru c = 0x2D \<longleftrightarrow> c = CHR 0x2D"
  "ru c = 0x2E \<longleftrightarrow> c = CHR 0x2E" "ru c = 0x2F \<longleftrightarrow> c = CHR 0x2F" "ru c = 0x30 \<longleftrightarrow> c = CHR 0x30"
  "ru c = 0x5C \<longleftrightarrow> c = CHR 0x5C" "ru c = 0x5F \<longleftrightarrow> c = CHR 0x5F"
  by (simp_all add: ru_eq_char) (simp_all add: char_of_def bit_simps)

lemma high_char: "0x80 \<le> ru c \<Longrightarrow> ru d < 0x80 \<Longrightarrow> c \<noteq> d"
  by auto

lemma width_pos: "s \<noteq> [] \<Longrightarrow> 0 < snd (DecodeRune s)"
  by (simp add: DecodeRune_def Let_def)

lemma width_Nil [simp]: "DecodeRune [] = (RuneError, 0)"
  by (simp add: DecodeRune_def)

lemma width_0 [simp]: "snd (DecodeRune s) = 0 \<longleftrightarrow> s = []"
  using width_pos by fastforce

lemma decode_ascii [simp]: "ru c < 0x80 \<Longrightarrow> DecodeRune (c # s) = (ru c, 1)"
  by (simp add: DecodeRune_def byte_at_def)

text \<open>A rune that is not ASCII is made of bytes that are not ASCII.\<close>

lemma byte_at_high: "0x80 \<le> byte_at s i \<Longrightarrow> i < length s \<and> 0x80 \<le> ru (s ! i)"
  by (auto simp: byte_at_def split: if_splits)

lemma decode_bytes:
  assumes "0x80 \<le> byte_at s 0" "i < snd (DecodeRune s)"
  shows "0x80 \<le> byte_at s i"
proof -
  have "i = 0 \<or> i = 1 \<and> 2 \<le> snd (DecodeRune s) \<or> i = 2 \<and> 3 \<le> snd (DecodeRune s) \<or> i = 3 \<and> 4 \<le> snd (DecodeRune s)"
    using assms(2) by (auto simp: DecodeRune_def Let_def split: if_splits)
  moreover have "0x80 \<le> byte_at s 1" if "2 \<le> snd (DecodeRune s)"
    using that by (auto simp: DecodeRune_def Let_def cont_def split: if_splits)
  moreover have "0x80 \<le> byte_at s 2" if "3 \<le> snd (DecodeRune s)"
    using that by (auto simp: DecodeRune_def Let_def cont_def split: if_splits)
  moreover have "0x80 \<le> byte_at s 3" if "4 \<le> snd (DecodeRune s)"
    using that by (auto simp: DecodeRune_def Let_def cont_def split: if_splits)
  ultimately show ?thesis using assms(1) by auto
qed

lemma decode_high:
  assumes "0x80 \<le> ru c"
  shows "0x80 \<le> fst (DecodeRune (c # s))" "snd (DecodeRune (c # s)) \<le> length (c # s)"
    "\<forall>d \<in> set (take (snd (DecodeRune (c # s))) (c # s)). 0x80 \<le> ru d"
proof -
  let ?s = "c # s" and ?n = "snd (DecodeRune (c # s))"
  have b0: "0x80 \<le> byte_at ?s 0" using assms by (simp add: byte_at_def)
  note b = byte_at_high[OF decode_bytes[OF b0]]
  show n: "?n \<le> length ?s" using b[of "?n - 1"] width_pos[of ?s] by fastforce
  show "\<forall>d \<in> set (take ?n ?s). 0x80 \<le> ru d" using b n by (auto simp: in_set_conv_nth)
  show "0x80 \<le> fst (DecodeRune ?s)"
    using b0 by (auto simp: DecodeRune_def Let_def RuneError_def)
qed

function RuneCount :: "string \<Rightarrow> nat" where
  "RuneCount s = (if s = [] then 0 else Suc (RuneCount (drop (snd (DecodeRune s)) s)))"
  by pat_completeness auto
termination
  by (relation "measure length") (auto simp: width_pos)

declare RuneCount.simps [simp del]

section \<open>Tokens\<close>

datatype Kind = EOF | LowerID | UpperID | StringK | IntK | FloatK | LBrace | RBrace | LBracket | RBracket
  | Arrow | Colon | Comma | Dot | At | Comment | Invalid

record Pos =
  p_Line :: nat
  p_Col :: nat

record Token =
  tok_Kind :: Kind
  tok_Text :: string
  tok_Pos :: Pos

definition Kind_String :: "Kind \<Rightarrow> string" where
  "Kind_String k = (case k of EOF \<Rightarrow> ''end of input'' | LowerID \<Rightarrow> ''a lowercase identifier'' | UpperID \<Rightarrow> ''a PascalCase name''
     | StringK \<Rightarrow> ''a string'' | IntK \<Rightarrow> ''an integer'' | FloatK \<Rightarrow> ''a number'' | LBrace \<Rightarrow> ''\"{\"'' | RBrace \<Rightarrow> ''\"}\"''
     | LBracket \<Rightarrow> ''\"[\"'' | RBracket \<Rightarrow> ''\"]\"'' | Arrow \<Rightarrow> ''\"->\"'' | Colon \<Rightarrow> ''\":\"'' | Comma \<Rightarrow> ''\",\"'' | Dot \<Rightarrow> ''\".\"''
     | At \<Rightarrow> ''\"@\"'' | Comment \<Rightarrow> ''a comment'' | Invalid \<Rightarrow> ''an unrecognized character'')"

definition Pos_String :: "Pos \<Rightarrow> string" where
  "Pos_String p = FormatNat (p_Line p) @ '':'' @ FormatNat (p_Col p)"

section \<open>The scanner\<close>

record lexer =
  lx_src :: string
  lx_rest :: string
  lx_line :: nat
  lx_col :: nat

definition newLexer :: "string \<Rightarrow> lexer" where
  "newLexer src = \<lparr>lx_src = src, lx_rest = src, lx_line = 1, lx_col = 1\<rparr>"

definition lexer_pos :: "lexer \<Rightarrow> Pos" where
  "lexer_pos l = \<lparr>p_Line = lx_line l, p_Col = lx_col l\<rparr>"

definition peek :: "lexer \<Rightarrow> nat \<times> nat" where
  "peek l = (if lx_rest l = [] then (0, 0) else DecodeRune (lx_rest l))"

definition advance_lexer :: "lexer \<Rightarrow> nat \<times> lexer" where
  "advance_lexer l = (case peek l of (r, n) \<Rightarrow>
     if n = 0 then (0, l)
     else let l1 = l\<lparr>lx_rest := drop n (lx_rest l)\<rparr>
          in (r, if r = ru (CHR 0x0A) then l1\<lparr>lx_line := lx_line l + 1, lx_col := 1\<rparr> else l1\<lparr>lx_col := lx_col l + 1\<rparr>))"

abbreviation skip1 :: "lexer \<Rightarrow> lexer" where
  "skip1 l \<equiv> snd (advance_lexer l)"

definition eofPos :: "string \<Rightarrow> Pos" where
  "eofPos src = (let lines = Split (CHR 0x0A) src in \<lparr>p_Line = length lines, p_Col = RuneCount (last lines) + 1\<rparr>)"

definition isLower :: "nat \<Rightarrow> bool" where
  "isLower r \<longleftrightarrow> ru (CHR ''a'') \<le> r \<and> r \<le> ru (CHR ''z'')"

definition isUpper :: "nat \<Rightarrow> bool" where
  "isUpper r \<longleftrightarrow> ru (CHR ''A'') \<le> r \<and> r \<le> ru (CHR ''Z'')"

definition isDigit :: "nat \<Rightarrow> bool" where
  "isDigit r \<longleftrightarrow> ru (CHR ''0'') \<le> r \<and> r \<le> ru (CHR ''9'')"

definition isLowerRest :: "nat \<Rightarrow> bool" where
  "isLowerRest r \<longleftrightarrow> isLower r \<or> isDigit r \<or> r = ru (CHR ''_'')"

definition isUpperRest :: "nat \<Rightarrow> bool" where
  "isUpperRest r \<longleftrightarrow> isLower r \<or> isUpper r \<or> isDigit r"

lemma rest_skip1: "lx_rest (skip1 l) = drop (snd (peek l)) (lx_rest l)"
  by (auto simp: advance_lexer_def Let_def split: prod.splits)

lemma src_skip1 [simp]: "lx_src (skip1 l) = lx_src l"
  by (auto simp: advance_lexer_def Let_def split: prod.splits)

lemma peek_0 [simp]: "snd (peek l) = 0 \<longleftrightarrow> lx_rest l = []"
  by (simp add: peek_def)

lemma skip1_less [termination_simp]: "lx_rest l \<noteq> [] \<Longrightarrow> length (lx_rest (skip1 l)) < length (lx_rest l)"
  by (simp add: rest_skip1 flip: peek_0)

text \<open>The text between two states of the scanner, \<^verbatim>\<open>src[start:off]\<close>.\<close>

definition between :: "lexer \<Rightarrow> lexer \<Rightarrow> string" where
  "between l l' = take (length (lx_rest l) - length (lx_rest l')) (lx_rest l)"

text \<open>The loops that consume runes while a condition holds.\<close>

function scanWhile :: "(nat \<Rightarrow> bool) \<Rightarrow> lexer \<Rightarrow> lexer" where
  "scanWhile ok l = (if snd (peek l) = 0 \<or> \<not> ok (fst (peek l)) then l else scanWhile ok (skip1 l))"
  by pat_completeness auto
termination
  by (relation "measure (length \<circ> lx_rest \<circ> snd)") (auto simp: skip1_less)

definition isSpace :: "nat \<Rightarrow> bool" where
  "isSpace r \<longleftrightarrow> r = ru (CHR '' '') \<or> r = ru (CHR 0x09) \<or> r = ru (CHR 0x0D) \<or> r = ru (CHR 0x0A)"

definition skipSpace :: "lexer \<Rightarrow> lexer" where
  "skipSpace = scanWhile isSpace"

definition scanComment :: "lexer \<Rightarrow> lexer" where
  "scanComment = scanWhile (\<lambda>r. r \<noteq> ru (CHR 0x0A))"

function scanStringBody :: "lexer \<Rightarrow> lexer" where
  "scanStringBody l =
     (if snd (peek l) = 0 \<or> fst (peek l) = ru (CHR 0x0A) then l
      else if fst (peek l) = ru (CHR 0x5C) then
        scanStringBody (if snd (peek (skip1 l)) \<noteq> 0 \<and> fst (peek (skip1 l)) \<noteq> ru (CHR 0x0A) then skip1 (skip1 l) else skip1 l)
      else if fst (peek l) = ru (CHR 0x22) then skip1 l
      else scanStringBody (skip1 l))"
  by pat_completeness auto
termination
proof (relation "measure (length \<circ> lx_rest)", goal_cases)
  case (2 l)
  then show ?case using skip1_less[of l] skip1_less[of "skip1 l"] by auto
qed (auto simp: skip1_less)

definition scanString :: "lexer \<Rightarrow> lexer" where
  "scanString l = scanStringBody (skip1 l)"

declare scanWhile.simps [simp del] scanStringBody.simps [simp del]

definition token :: "Kind \<Rightarrow> lexer \<Rightarrow> lexer \<Rightarrow> Token" where
  "token k l l' = \<lparr>tok_Kind = k, tok_Text = between l l', tok_Pos = lexer_pos l\<rparr>"

definition scanNumber :: "lexer \<Rightarrow> Token \<times> lexer" where
  "scanNumber l =
     (let neg = fst (peek l) = ru (CHR ''-''); l1 = (if neg then skip1 l else l) in
      if neg \<and> (snd (peek l1) = 0 \<or> \<not> isDigit (fst (peek l1))) then (token Invalid l l1, l1)
      else
        let l2 = (if fst (peek l1) = ru (CHR ''0'') then skip1 l1 else scanWhile isDigit l1);
            l3 = skip1 l2;
            l4 = scanWhile isDigit l3
        in if fst (peek l2) = ru (CHR ''.'') \<and> snd (peek l3) \<noteq> 0 \<and> isDigit (fst (peek l3)) then (token FloatK l l4, l4)
           else (token IntK l l2, l2))"

definition punct_kind :: "nat \<Rightarrow> Kind" where
  "punct_kind r =
     (if r = ru (CHR 0x7B) then LBrace else if r = ru (CHR 0x7D) then RBrace
      else if r = ru (CHR 0x5B) then LBracket else if r = ru (CHR 0x5D) then RBracket
      else if r = ru (CHR '':'') then Colon else if r = ru (CHR '','') then Comma
      else if r = ru (CHR ''.'') then Dot else if r = ru (CHR 0x40) then At else Invalid)"

definition HasPrefix :: "string \<Rightarrow> string \<Rightarrow> bool" where
  "HasPrefix s p \<longleftrightarrow> take (length p) s = p"

definition scanPunct :: "lexer \<Rightarrow> Token \<times> lexer" where
  "scanPunct l =
     (if HasPrefix (lx_rest l) ''->'' then (\<lparr>tok_Kind = Arrow, tok_Text = ''->'', tok_Pos = lexer_pos l\<rparr>, skip1 (skip1 l))
      else case advance_lexer l of (r, l') \<Rightarrow> (\<lparr>tok_Kind = punct_kind r, tok_Text = rune_string r, tok_Pos = lexer_pos l\<rparr>, l'))"

text \<open>One turn of the loop of \<^verbatim>\<open>tokenize\<close>, at a rune that is not white space.\<close>

definition nextToken :: "lexer \<Rightarrow> Token \<times> lexer" where
  "nextToken l =
     (let r = fst (peek l) in
      if r = ru (CHR ''/'') \<and> HasPrefix (lx_rest l) ''//'' then (token Comment l (scanComment l), scanComment l)
      else if r = ru (CHR 0x22) then (token StringK l (scanString l), scanString l)
      else if HasPrefix (lx_rest l) ''->'' then scanPunct l
      else if isDigit r \<or> r = ru (CHR ''-'') then scanNumber l
      else if isLower r then (token LowerID l (scanWhile isLowerRest l), scanWhile isLowerRest l)
      else if isUpper r then (token UpperID l (scanWhile isUpperRest l), scanWhile isUpperRest l)
      else scanPunct l)"

section \<open>The scanner on bytes\<close>

text \<open>
  No byte of a rune above 0x7F is ASCII, and every terminal is delimited by ASCII characters, so
  what the scanner consumes is decided byte by byte.
\<close>

lemma peek_cases:
  obtains (empty) "lx_rest l = []" "peek l = (0, 0)"
  | (ascii) c s where "lx_rest l = c # s" "ru c < 0x80" "peek l = (ru c, 1)" "lx_rest (skip1 l) = s"
  | (high) u s where "lx_rest l = u @ s" "u \<noteq> []" "\<forall>d \<in> set u. 0x80 \<le> ru d" "0x80 \<le> fst (peek l)" "snd (peek l) = length u" "lx_rest (skip1 l) = s"
proof (cases "lx_rest l")
  case Nil
  then show ?thesis using empty by (simp add: peek_def)
next
  case (Cons c s)
  show ?thesis
  proof (cases "ru c < 0x80")
    case True
    then show ?thesis using ascii[OF Cons] by (simp add: peek_def Cons rest_skip1)
  next
    case False
    let ?n = "snd (peek l)"
    have p: "peek l = DecodeRune (c # s)" by (simp add: peek_def Cons)
    have c: "0x80 \<le> ru c" using False by simp
    have d: "0x80 \<le> fst (peek l)" "?n \<le> length (c # s)" "\<forall>d \<in> set (take ?n (c # s)). 0x80 \<le> ru d"
      unfolding p by (fact decode_high[OF c])+
    show ?thesis
    proof (rule high)
      show "lx_rest l = take ?n (c # s) @ drop ?n (c # s)" using Cons by simp
      show "take ?n (c # s) \<noteq> []" using Cons peek_0[of l] by (simp del: peek_0)
      show "snd (peek l) = length (take ?n (c # s))" using d(2) by simp
      show "lx_rest (skip1 l) = drop ?n (c # s)" using Cons by (simp add: rest_skip1)
    qed (use d in auto)
  qed
qed

lemma scanWhile_rest:
  assumes "\<And>r r'. 0x80 \<le> r \<Longrightarrow> 0x80 \<le> r' \<Longrightarrow> ok r = ok r'"
  shows "lx_rest (scanWhile ok l) = dropWhile (\<lambda>c. ok (ru c)) (lx_rest l)"
proof (induction "length (lx_rest l)" arbitrary: l rule: less_induct)
  case less
  have step: "lx_rest (scanWhile ok (skip1 l)) = dropWhile (\<lambda>c. ok (ru c)) (lx_rest (skip1 l))" if "lx_rest l \<noteq> []"
    using less[of "skip1 l"] that by (simp add: skip1_less)
  show ?case
  proof (cases l rule: peek_cases)
    case empty
    then show ?thesis by (subst scanWhile.simps) simp
  next
    case (ascii c s)
    then show ?thesis using step by (subst scanWhile.simps) simp
  next
    case (high u s)
    have u: "ok (ru d) = ok (fst (peek l))" if "d \<in> set u" for d using that high(3,4) assms by blast
    have ne: "lx_rest l \<noteq> []" using high(1,2) by simp
    show ?thesis
    proof (cases "ok (fst (peek l))")
      case True
      have "dropWhile (\<lambda>c. ok (ru c)) (u @ s) = dropWhile (\<lambda>c. ok (ru c)) s"
        using u True by (intro dropWhile_append2) blast
      then show ?thesis using step[OF ne] True ne high(1,6) by (subst scanWhile.simps) simp
    next
      case False
      have "dropWhile (\<lambda>c. ok (ru c)) (u @ s) = u @ s" using high(2) False u by (cases u) auto
      then show ?thesis using False high(1) by (subst scanWhile.simps) simp
    qed
  qed
qed

text \<open>The rest of a string literal, after the opening quote.\<close>

fun str_rest :: "string \<Rightarrow> string" where
  "str_rest [] = []"
| "str_rest [c] = (if c = CHR 0x0A then [c] else [])"
| "str_rest (c # d # s) =
     (if c = CHR 0x0A then c # d # s
      else if c = CHR 0x5C then (if d = CHR 0x0A then d # s else str_rest s)
      else if c = CHR 0x22 then d # s
      else str_rest (d # s))"

lemma str_rest_Cons: "c \<noteq> CHR 0x0A \<Longrightarrow> c \<noteq> CHR 0x5C \<Longrightarrow> c \<noteq> CHR 0x22 \<Longrightarrow> str_rest (c # s) = str_rest s"
  by (cases s) auto

lemma str_rest_high: "\<forall>d \<in> set u. 0x80 \<le> ru d \<Longrightarrow> str_rest (u @ s) = str_rest s"
  by (induction u) (simp_all add: str_rest_Cons high_char)

lemma str_rest_nl [simp]: "str_rest (CHR 0x0A # s) = CHR 0x0A # s"
  by (cases s) auto

lemma scanStringBody_rest: "lx_rest (scanStringBody l) = str_rest (lx_rest l)"
proof (induction "length (lx_rest l)" arbitrary: l rule: less_induct)
  case less
  show ?case
  proof (cases l rule: peek_cases)
    case empty
    then show ?thesis by (subst scanStringBody.simps) simp
  next
    case (ascii c s)
    have step: "lx_rest (scanStringBody (skip1 l)) = str_rest s" using less[of "skip1 l"] ascii skip1_less[of l] by simp
    show ?thesis
    proof (cases "c = CHR 0x5C")
      case True
      let ?m = "skip1 l"
      show ?thesis
      proof (cases ?m rule: peek_cases)
        case empty
        then show ?thesis using True ascii step by (subst scanStringBody.simps) simp
      next
        case m: (ascii d s')
        then have "lx_rest (scanStringBody (skip1 ?m)) = str_rest s'" using less[of "skip1 ?m"] ascii by simp
        then show ?thesis using True ascii step m by (subst scanStringBody.simps) auto
      next
        case m: (high u s')
        then have "lx_rest (scanStringBody (skip1 ?m)) = str_rest s'" using less[of "skip1 ?m"] ascii by simp
        moreover have "str_rest (c # u @ s') = str_rest s'" using m(2,3) True by (cases u) (auto simp: str_rest_high)
        ultimately show ?thesis using True ascii m by (subst scanStringBody.simps) auto
      qed
    next
      case False
      then show ?thesis using ascii step by (subst scanStringBody.simps) (cases s; auto)
    qed
  next
    case (high u s)
    then have "lx_rest (scanStringBody (skip1 l)) = str_rest s" using less[of "skip1 l"] by simp
    then show ?thesis using high by (subst scanStringBody.simps) (auto simp: str_rest_high)
  qed
qed

lemma str_rest_suffix: "suffix (str_rest s) s"
  by (induction s rule: str_rest.induct) (auto intro: suffix_ConsI)

lemma HasPrefix_Cons [simp]: "HasPrefix (c # s) (d # p) \<longleftrightarrow> c = d \<and> HasPrefix s p"
  "HasPrefix s []" "\<not> HasPrefix [] (d # p)"
  by (auto simp: HasPrefix_def)

text \<open>A terminal of the grammar at the head of the bytes, and what is left after it.\<close>

definition starts :: "(nat \<Rightarrow> bool) \<Rightarrow> string \<Rightarrow> bool" where
  "starts P s \<longleftrightarrow> (case s of [] \<Rightarrow> False | c # _ \<Rightarrow> P (ru c))"

definition num_rest :: "string \<Rightarrow> Kind \<times> string" where
  "num_rest s =
     (let neg = starts ((=) 0x2D) s; s1 = (if neg then tl s else s) in
      if neg \<and> \<not> starts isDigit s1 then (Invalid, s1)
      else let s2 = (if starts ((=) 0x30) s1 then tl s1 else dropWhile (\<lambda>c. isDigit (ru c)) s1) in
        if starts ((=) 0x2E) s2 \<and> starts isDigit (tl s2) then (FloatK, dropWhile (\<lambda>c. isDigit (ru c)) (tl s2)) else (IntK, s2))"

definition use_tok :: "string \<Rightarrow> Kind \<Rightarrow> string \<Rightarrow> (Kind \<times> string) \<times> string" where
  "use_tok s k r = ((k, take (length s - length r) s), r)"

definition next_tok :: "string \<Rightarrow> (Kind \<times> string) \<times> string" where
  "next_tok s =
     (if HasPrefix s ''//'' then use_tok s Comment (dropWhile (\<lambda>c. ru c \<noteq> 0x0A) s)
      else if starts ((=) 0x22) s then use_tok s StringK (str_rest (tl s))
      else if HasPrefix s ''->'' then use_tok s Arrow (drop 2 s)
      else if starts (\<lambda>r. isDigit r \<or> r = 0x2D) s then use_tok s (fst (num_rest s)) (snd (num_rest s))
      else if starts isLower s then use_tok s LowerID (dropWhile (\<lambda>c. isLowerRest (ru c)) s)
      else if starts isUpper s then use_tok s UpperID (dropWhile (\<lambda>c. isUpperRest (ru c)) s)
      else if starts (\<lambda>r. r < 0x80) s then use_tok s (punct_kind (ru (hd s))) (tl s)
      else ((Invalid, rune_string (fst (DecodeRune s))), drop (snd (DecodeRune s)) s))"

definition view :: "Token \<Rightarrow> Kind \<times> string" where
  "view t = (tok_Kind t, tok_Text t)"

lemmas rune_class_defs = isSpace_def isLower_def isUpper_def isDigit_def isLowerRest_def isUpperRest_def

lemma scan_class [simp]:
  "lx_rest (scanWhile isDigit l) = dropWhile (\<lambda>c. isDigit (ru c)) (lx_rest l)"
  "lx_rest (scanWhile isLowerRest l) = dropWhile (\<lambda>c. isLowerRest (ru c)) (lx_rest l)"
  "lx_rest (scanWhile isUpperRest l) = dropWhile (\<lambda>c. isUpperRest (ru c)) (lx_rest l)"
  "lx_rest (skipSpace l) = dropWhile (\<lambda>c. isSpace (ru c)) (lx_rest l)"
  "lx_rest (scanComment l) = dropWhile (\<lambda>c. ru c \<noteq> 0x0A) (lx_rest l)"
  by (simp_all add: scanWhile_rest rune_class_defs skipSpace_def scanComment_def)

lemma src_scanWhile [simp]: "lx_src (scanWhile ok l) = lx_src l"
  by (induction ok l rule: scanWhile.induct) (subst scanWhile.simps, simp)

lemma src_scan [simp]: "lx_src (skipSpace l) = lx_src l" "lx_src (scanComment l) = lx_src l" "lx_src (scanStringBody l) = lx_src l"
proof -
  show "lx_src (scanStringBody l) = lx_src l"
    by (induction l rule: scanStringBody.induct) (subst scanStringBody.simps, auto split: if_splits)
qed (simp_all add: skipSpace_def scanComment_def)

text \<open>The rune at the head, as a condition on the byte at the head.\<close>

lemma peek_starts:
  assumes "\<And>r. P r \<Longrightarrow> r < 0x80" "\<not> P 0"
  shows "P (fst (peek l)) \<longleftrightarrow> starts P (lx_rest l)" "starts P (lx_rest l) \<Longrightarrow> lx_rest (skip1 l) = tl (lx_rest l)"
proof -
  have "(P (fst (peek l)) \<longleftrightarrow> starts P (lx_rest l)) \<and> (starts P (lx_rest l) \<longrightarrow> lx_rest (skip1 l) = tl (lx_rest l))"
  proof (cases l rule: peek_cases)
    case (high u s)
    moreover have "\<not> P (fst (peek l))" using high(4) assms(1)[of "fst (peek l)"] by linarith
    moreover have "\<not> P (ru d)" if "d \<in> set u" for d using high(3) that assms(1)[of "ru d"] by fastforce
    ultimately show ?thesis by (cases u) (auto simp: starts_def)
  qed (use assms in \<open>auto simp: starts_def\<close>)
  then show "P (fst (peek l)) \<longleftrightarrow> starts P (lx_rest l)" "starts P (lx_rest l) \<Longrightarrow> lx_rest (skip1 l) = tl (lx_rest l)" by auto
qed

lemma peek_starts_class:
  "isDigit (fst (peek l)) \<longleftrightarrow> starts isDigit (lx_rest l)" "isLower (fst (peek l)) \<longleftrightarrow> starts isLower (lx_rest l)"
  "isUpper (fst (peek l)) \<longleftrightarrow> starts isUpper (lx_rest l)"
  "0 < n \<Longrightarrow> n < 0x80 \<Longrightarrow> fst (peek l) = n \<longleftrightarrow> starts ((=) n) (lx_rest l)"
  "0 < n \<Longrightarrow> n < 0x80 \<Longrightarrow> starts ((=) n) (lx_rest l) \<Longrightarrow> lx_rest (skip1 l) = tl (lx_rest l)"
  using peek_starts[of isDigit l] peek_starts[of isLower l] peek_starts[of isUpper l] peek_starts[of "(=) n" l]
  by (auto simp: rune_class_defs)

lemma between_text: "lx_rest l = t @ lx_rest l' \<Longrightarrow> between l l' = t"
  by (simp add: between_def)

lemma starts_Cons [simp]: "starts P (c # s) = P (ru c)" "\<not> starts P []"
  by (simp_all add: starts_def)

lemma view_token [simp]: "view (token k l l') = (k, between l l')" "tok_Pos (token k l l') = lexer_pos l"
  by (simp_all add: view_def token_def)

lemma use_between: "lx_rest l' = r \<Longrightarrow> map_prod view lx_rest (token k l l', l') = use_tok (lx_rest l) k r"
  by (auto simp: use_tok_def between_def)

lemma scanNumber_view:
  "map_prod view lx_rest (scanNumber l) = use_tok (lx_rest l) (fst (num_rest (lx_rest l))) (snd (num_rest (lx_rest l)))"
  "tok_Pos (fst (scanNumber l)) = lexer_pos l" "lx_src (snd (scanNumber l)) = lx_src l"
proof -
  show "tok_Pos (fst (scanNumber l)) = lexer_pos l" "lx_src (snd (scanNumber l)) = lx_src l"
    by (simp_all add: scanNumber_def Let_def)
  define neg where "neg = starts ((=) 0x2D) (lx_rest l)"
  define l1 where "l1 = (if neg then skip1 l else l)"
  define l2 where "l2 = (if fst (peek l1) = 0x30 then skip1 l1 else scanWhile isDigit l1)"
  define s1 where "s1 = (if neg then tl (lx_rest l) else lx_rest l)"
  define s2 where "s2 = (if starts ((=) 0x30) s1 then tl s1 else dropWhile (\<lambda>c. isDigit (ru c)) s1)"
  have 1: "lx_rest l1 = s1" using peek_starts_class(5)[of "0x2D" l] by (simp add: l1_def s1_def neg_def)
  have 2: "lx_rest l2 = s2" using peek_starts_class(5)[of "0x30" l1] by (simp add: l2_def s2_def 1[symmetric] peek_starts_class(4))
  have 3: "lx_rest (skip1 l2) = tl s2" if "starts ((=) 0x2E) s2" using that peek_starts_class(5)[of "0x2E" l2] by (simp add: 2[symmetric])
  have n: "(snd (peek m) = 0 \<or> \<not> isDigit (fst (peek m))) = (\<not> starts isDigit (lx_rest m))" for m
    by (auto simp: peek_starts_class)
  have e: "(fst (peek l) = ru (CHR ''-'')) = neg" "(fst (peek l2) = ru (CHR ''.'')) = starts ((=) 0x2E) s2"
    by (simp_all add: neg_def 2 peek_starts_class(4))
  have f: "(starts ((=) 0x2E) s2 \<and> snd (peek (skip1 l2)) \<noteq> 0 \<and> isDigit (fst (peek (skip1 l2)))) = (starts ((=) 0x2E) s2 \<and> starts isDigit (tl s2))"
    using n[of "skip1 l2"] 3 by auto
  have l2: "(if fst (peek l1) = ru (CHR ''0'') then skip1 l1 else scanWhile isDigit l1) = l2" by (simp add: l2_def)
  have "scanNumber l = (if neg \<and> \<not> starts isDigit s1 then (token Invalid l l1, l1)
      else if starts ((=) 0x2E) s2 \<and> starts isDigit (tl s2) then (token FloatK l (scanWhile isDigit (skip1 l2)), scanWhile isDigit (skip1 l2))
      else (token IntK l l2, l2))"
    unfolding scanNumber_def Let_def e(1) l1_def[symmetric] n 1 l2 e(2) f ..
  moreover have "num_rest (lx_rest l) = (if neg \<and> \<not> starts isDigit s1 then (Invalid, s1)
      else if starts ((=) 0x2E) s2 \<and> starts isDigit (tl s2) then (FloatK, dropWhile (\<lambda>c. isDigit (ru c)) (tl s2)) else (IntK, s2))"
    by (simp only: num_rest_def Let_def neg_def[symmetric] s1_def[symmetric] s2_def[symmetric])
  ultimately show "map_prod view lx_rest (scanNumber l) = use_tok (lx_rest l) (fst (num_rest (lx_rest l))) (snd (num_rest (lx_rest l)))"
    using 3 by (auto simp: use_tok_def between_def 1 2)
qed

lemma scanPunct_view:
  assumes "lx_rest l \<noteq> []"
  shows "map_prod view lx_rest (scanPunct l) =
      (if HasPrefix (lx_rest l) ''->'' then use_tok (lx_rest l) Arrow (drop 2 (lx_rest l))
       else if starts (\<lambda>r. r < 0x80) (lx_rest l) then use_tok (lx_rest l) (punct_kind (ru (hd (lx_rest l)))) (tl (lx_rest l))
       else ((Invalid, rune_string (fst (DecodeRune (lx_rest l)))), drop (snd (DecodeRune (lx_rest l))) (lx_rest l)))"
    "tok_Pos (fst (scanPunct l)) = lexer_pos l" "lx_src (snd (scanPunct l)) = lx_src l"
proof -
  have adv: "fst (advance_lexer l) = fst (peek l)"
    using peek_0[of l] assms by (cases "peek l") (simp add: advance_lexer_def Let_def)
  show "tok_Pos (fst (scanPunct l)) = lexer_pos l" "lx_src (snd (scanPunct l)) = lx_src l"
    by (simp_all add: scanPunct_def case_prod_beta adv)
  show "map_prod view lx_rest (scanPunct l) =
      (if HasPrefix (lx_rest l) ''->'' then use_tok (lx_rest l) Arrow (drop 2 (lx_rest l))
       else if starts (\<lambda>r. r < 0x80) (lx_rest l) then use_tok (lx_rest l) (punct_kind (ru (hd (lx_rest l)))) (tl (lx_rest l))
       else ((Invalid, rune_string (fst (DecodeRune (lx_rest l)))), drop (snd (DecodeRune (lx_rest l))) (lx_rest l)))"
  proof (cases "HasPrefix (lx_rest l) ''->''")
    case True
    then obtain s where s: "lx_rest l = CHR 0x2D # CHR 0x3E # s" by (cases "lx_rest l"; cases "tl (lx_rest l)") auto
    then have 1: "lx_rest (skip1 l) = CHR 0x3E # s" by (simp add: rest_skip1 peek_def)
    then have "lx_rest (skip1 (skip1 l)) = s" by (simp add: rest_skip1 peek_def)
    then show ?thesis using True s by (simp add: scanPunct_def view_def use_tok_def)
  next
    case False
    show ?thesis
    proof (cases l rule: peek_cases)
      case (ascii c s)
      then show ?thesis using False by (auto simp: scanPunct_def case_prod_beta adv view_def use_tok_def rune_string_def)
    next
      case (high u s)
      moreover have "punct_kind (fst (peek l)) = Invalid" using high(4) by (auto simp: punct_kind_def)
      moreover have "\<not> starts (\<lambda>r. r < 0x80) (lx_rest l)" using high(1,2,3) by (cases u) auto
      ultimately show ?thesis using False assms by (simp add: scanPunct_def case_prod_beta adv view_def rest_skip1 peek_def)
    qed (use assms in simp)
  qed
qed

lemma nextToken_view:
  assumes "lx_rest l \<noteq> []"
  shows "map_prod view lx_rest (nextToken l) = next_tok (lx_rest l)" "tok_Pos (fst (nextToken l)) = lexer_pos l" "lx_src (snd (nextToken l)) = lx_src l"
proof -
  note P = scanPunct_view[OF assms]
  show "tok_Pos (fst (nextToken l)) = lexer_pos l" "lx_src (snd (nextToken l)) = lx_src l"
    using P(2,3) by (simp_all add: nextToken_def Let_def scanNumber_view scanString_def)
  have c: "(fst (peek l) = ru (CHR ''/'') \<and> HasPrefix (lx_rest l) ''//'') = HasPrefix (lx_rest l) ''//''"
    "(fst (peek l) = ru (CHR 0x22)) = starts ((=) 0x22) (lx_rest l)"
    "(isDigit (fst (peek l)) \<or> fst (peek l) = ru (CHR ''-'')) = starts (\<lambda>r. isDigit r \<or> r = 0x2D) (lx_rest l)"
    using assms by (auto simp: peek_starts_class HasPrefix_def starts_def split: list.splits)
  have s: "lx_rest (scanString l) = str_rest (tl (lx_rest l))" if "starts ((=) 0x22) (lx_rest l)"
    using peek_starts_class(5)[of "0x22" l] that by (simp add: scanString_def scanStringBody_rest)
  show "map_prod view lx_rest (nextToken l) = next_tok (lx_rest l)"
    unfolding nextToken_def Let_def c next_tok_def peek_starts_class(2,3)
    by (auto simp: P(1) scanNumber_view(1) use_between s simp del: map_prod_simp intro!: use_between)
qed

text \<open>Every terminal consumes.\<close>

lemma dropWhile_less: "starts P s \<Longrightarrow> (\<And>r. P r \<Longrightarrow> Q r) \<Longrightarrow> length (dropWhile (\<lambda>c. Q (ru c)) s) < length s"
  by (cases s) (auto simp: less_Suc_eq_le length_dropWhile_le)

lemma num_rest_less: "starts (\<lambda>r. isDigit r \<or> r = 0x2D) s \<Longrightarrow> length (snd (num_rest s)) < length s"
proof -
  assume a: "starts (\<lambda>r. isDigit r \<or> r = 0x2D) s"
  define s1 where "s1 = (if starts ((=) 0x2D) s then tl s else s)"
  define s2 where "s2 = (if starts ((=) 0x30) s1 then tl s1 else dropWhile (\<lambda>c. isDigit (ru c)) s1)"
  obtain c t where s: "s = c # t" "isDigit (ru c) \<or> ru c = 0x2D" using a by (cases s) auto
  have 1: "length s1 \<le> length s" by (simp add: s1_def)
  have 2: "length s2 \<le> length s1" by (simp add: s2_def length_dropWhile_le)
  have 3: "length s2 < length s1" if "starts isDigit s1"
    using that dropWhile_less[of isDigit s1 isDigit] by (cases s1) (auto simp: s2_def)
  have 4: "length s2 < length s"
  proof (cases "ru c = 0x2D")
    case True
    then have "length s1 < length s" using s(1) by (simp add: s1_def)
    then show ?thesis using 2 by simp
  next
    case False
    then have "s1 = s" using s(1) by (simp add: s1_def)
    then show ?thesis using 3 s False by simp
  qed
  have "length (dropWhile (\<lambda>c. isDigit (ru c)) (tl s2)) \<le> length s2" by (rule le_trans[OF length_dropWhile_le]) simp
  moreover have "length s1 < length s" if "starts ((=) 0x2D) s" using that s(1) by (simp add: s1_def)
  ultimately show ?thesis using 4
    unfolding num_rest_def Let_def s1_def[symmetric] s2_def[symmetric] by (simp split: if_splits)
qed

lemma next_tok_less: "s \<noteq> [] \<Longrightarrow> length (snd (next_tok s)) < length s"
proof -
  assume a: "s \<noteq> []"
  have "length (str_rest (tl s)) < length s" using suffix_length_le[OF str_rest_suffix[of "tl s"]] a by (cases s) auto
  moreover have "length (drop (snd (DecodeRune s)) s) < length s" using a width_pos by auto
  moreover have "length (dropWhile (\<lambda>c. ru c \<noteq> 10) s) < length s" if "HasPrefix s ''//''"
    using that a dropWhile_less[of "(=) 47" s "\<lambda>r. r \<noteq> 10"] by (cases s) (auto simp: HasPrefix_def)
  ultimately show ?thesis
    using a num_rest_less[of s] dropWhile_less[of isLower s isLowerRest] dropWhile_less[of isUpper s isUpperRest]
    by (auto simp: next_tok_def use_tok_def isLowerRest_def isUpperRest_def)
qed

lemma nextToken_less: "lx_rest l \<noteq> [] \<Longrightarrow> length (lx_rest (snd (nextToken l))) < length (lx_rest l)"
  using next_tok_less nextToken_view(1) by (metis snd_map_prod)

definition eof_token :: "string \<Rightarrow> Token" where
  "eof_token src = \<lparr>tok_Kind = EOF, tok_Text = '''', tok_Pos = eofPos src\<rparr>"

function tokenize :: "lexer \<Rightarrow> Token list" where
  "tokenize l =
     (let l1 = skipSpace l in
      if snd (peek l1) = 0 then [eof_token (lx_src l1)]
      else fst (nextToken l1) # tokenize (snd (nextToken l1)))"
  by pat_completeness auto
termination
proof (relation "measure (length \<circ> lx_rest)", goal_cases)
  case (2 l l1)
  then have "length (lx_rest (snd (nextToken l1))) < length (lx_rest l1)" by (intro nextToken_less) simp
  also have "\<dots> \<le> length (lx_rest l)" using 2 by (simp add: length_dropWhile_le)
  finally show ?case by simp
qed simp

declare tokenize.simps [simp del]

text \<open>The terminals of a source: the reference the scanner implements.\<close>

function toks :: "string \<Rightarrow> (Kind \<times> string) list" where
  "toks s =
     (let s1 = dropWhile (\<lambda>c. isSpace (ru c)) s in
      if s1 = [] then [] else fst (next_tok s1) # toks (snd (next_tok s1)))"
  by pat_completeness auto
termination
proof (relation "measure length", goal_cases)
  case (2 s s1)
  then have "length (snd (next_tok s1)) < length s1" by (intro next_tok_less) simp
  also have "\<dots> \<le> length s" using 2 by (simp add: length_dropWhile_le)
  finally show ?case by simp
qed simp

declare toks.simps [simp del]

lemma tokenize_toks: "map view (tokenize l) = toks (lx_rest l) @ [(EOF, '''')]"
proof (induction "length (lx_rest l)" arbitrary: l rule: less_induct)
  case less
  let ?m = "skipSpace l"
  show ?case
  proof (cases "lx_rest ?m = []")
    case True
    then show ?thesis by (subst tokenize.simps, subst toks.simps) (simp add: view_def eof_token_def)
  next
    case False
    have v: "view (fst (nextToken ?m)) = fst (next_tok (lx_rest ?m))" "lx_rest (snd (nextToken ?m)) = snd (next_tok (lx_rest ?m))"
      using nextToken_view(1)[OF False] by (metis fst_map_prod, metis snd_map_prod)
    have "length (lx_rest ?m) \<le> length (lx_rest l)" by (simp add: length_dropWhile_le)
    then have "map view (tokenize (snd (nextToken ?m))) = toks (lx_rest (snd (nextToken ?m))) @ [(EOF, '''')]"
      using nextToken_less[OF False] by (intro less) simp
    then show ?thesis using False v by (subst tokenize.simps, subst toks.simps) (auto simp: Let_def)
  qed
qed

section \<open>Where tokens stand\<close>

text \<open>\<open>b\<close> is made of whole runes, with \<open>s\<close> after it.\<close>

inductive aligned :: "string \<Rightarrow> string \<Rightarrow> bool" for s where
  aligned_Nil: "aligned s []"
| aligned_rune: "b \<noteq> [] \<Longrightarrow> snd (DecodeRune (b @ s)) \<le> length b \<Longrightarrow> aligned s (drop (snd (DecodeRune (b @ s))) b) \<Longrightarrow> aligned s b"

lemma byte_at_append: "byte_at (x @ y) i = (if i < length x then byte_at x i else byte_at y (i - length x))"
  by (auto simp: byte_at_def nth_append)

lemma decode_prefix:
  assumes "x \<noteq> []" "snd (DecodeRune (x @ y)) \<le> length x"
  shows "DecodeRune x = DecodeRune (x @ y)"
proof -
  have z: "byte_at x i = 0" if "length x \<le> i" for i using that by (simp add: byte_at_def)
  have "0 < length x" using assms(1) by simp
  then have "length x = 1 \<or> length x = 2 \<or> length x = 3 \<or> 4 \<le> length x" by linarith
  then consider "length x = 1" | "length x = 2" | "length x = 3" | "4 \<le> length x" by blast
  then show ?thesis
  proof cases
    case 1
    then show ?thesis using assms z[of 1] by (auto simp: DecodeRune_def Let_def byte_at_append cont_def split: if_splits)
  next
    case 2
    then show ?thesis using assms z[of 2] by (auto simp: DecodeRune_def Let_def byte_at_append cont_def split: if_splits)
  next
    case 3
    then show ?thesis using assms z[of 3] by (auto simp: DecodeRune_def Let_def byte_at_append cont_def split: if_splits)
  next
    case 4
    then show ?thesis using assms(1) by (simp add: DecodeRune_def Let_def byte_at_append)
  qed
qed

lemma width_le: "snd (DecodeRune s) \<le> length s"
proof (cases s)
  case (Cons c t)
  then show ?thesis using decode_high(2)[of c t] by (cases "ru c < 0x80") auto
qed simp

lemma RuneCount_Nil [simp]: "RuneCount [] = 0"
  by (simp add: RuneCount.simps)

lemma aligned_next:
  assumes "aligned s b" "s \<noteq> []"
  defines "n \<equiv> snd (DecodeRune s)"
  shows "RuneCount (b @ take n s) = Suc (RuneCount b)" "aligned (drop n s) (b @ take n s)"
proof -
  define u where "u = take n s"
  have w: "n \<le> length s" "0 < n" using width_le width_pos assms(2) by (auto simp: n_def)
  have s: "u @ drop n s = s" "(b @ u) @ drop n s = b @ s" for b by (simp_all add: u_def)
  have u: "u \<noteq> []" "length u = n" using w assms(2) by (auto simp: u_def)
  have du: "DecodeRune u = DecodeRune s" using decode_prefix[of u "drop n s"] u s(1) by (simp add: n_def)
  from assms(1) have "RuneCount (b @ u) = Suc (RuneCount b) \<and> aligned (drop n s) (b @ u)"
  proof (induction b rule: aligned.induct)
    case aligned_Nil
    have "aligned (drop n s) u"
    proof (rule aligned_rune)
      show "snd (DecodeRune (u @ drop n s)) \<le> length u" unfolding s(1) u(2) by (simp add: n_def)
      have "drop (snd (DecodeRune (u @ drop n s))) u = []" unfolding s(1) n_def[symmetric] using u(2) by simp
      then show "aligned (drop n s) (drop (snd (DecodeRune (u @ drop n s))) u)" by (simp add: aligned.aligned_Nil)
    qed (rule u(1))
    moreover have "drop (snd (DecodeRune u)) u = []" unfolding du n_def[symmetric] using u(2) by simp
    then have "RuneCount u = 1" using u(1) by (subst RuneCount.simps) simp
    ultimately show ?case by simp
  next
    case (aligned_rune b)
    let ?m = "snd (DecodeRune (b @ s))"
    have m: "drop ?m (b @ u) = drop ?m b @ u" using aligned_rune(2) by simp
    have "snd (DecodeRune ((b @ u) @ drop n s)) \<le> length (b @ u)" using aligned_rune(2) unfolding s(2) by simp
    then have d: "DecodeRune (b @ u) = DecodeRune (b @ s)" using decode_prefix[of "b @ u" "drop n s"] aligned_rune(1) unfolding s(2) by blast
    have d': "DecodeRune b = DecodeRune (b @ s)" by (rule decode_prefix[OF aligned_rune(1,2)])
    have "RuneCount (b @ u) = Suc (RuneCount (drop ?m b @ u))" using aligned_rune(1) unfolding RuneCount.simps[of "b @ u"] d m by simp
    moreover have "RuneCount b = Suc (RuneCount (drop ?m b))" using aligned_rune(1) unfolding RuneCount.simps[of b] d' by simp
    moreover have "aligned (drop n s) (b @ u)"
    proof (rule aligned.aligned_rune)
      show "b @ u \<noteq> []" using u by simp
      show "snd (DecodeRune ((b @ u) @ drop n s)) \<le> length (b @ u)" by fact
      show "aligned (drop n s) (drop (snd (DecodeRune ((b @ u) @ drop n s))) (b @ u))"
        using aligned_rune.IH unfolding s(2) m by (rule conjunct2)
    qed
    ultimately show ?case using aligned_rune.IH by simp
  qed
  then show "RuneCount (b @ take n s) = Suc (RuneCount b)" "aligned (drop n s) (b @ take n s)" by (auto simp: u_def)
qed

text \<open>
  A scanner is \<open>placed\<close> when what it has consumed is whole runes and its position is the one
  \<^const>\<open>eofPos\<close> gives for them.
\<close>

definition consumed :: "lexer \<Rightarrow> string" where
  "consumed l = take (length (lx_src l) - length (lx_rest l)) (lx_src l)"

definition placed :: "lexer \<Rightarrow> bool" where
  "placed l \<longleftrightarrow> lx_src l = consumed l @ lx_rest l \<and> lexer_pos l = eofPos (consumed l)
     \<and> aligned (lx_rest l) (last (Split (CHR 0x0A) (consumed l)))"

lemma Split_app: "Split c (x @ y) = butlast (Split c x) @ (last (Split c x) @ hd (Split c y)) # tl (Split c y)"
proof (induction x)
  case (Cons a x)
  then show ?case by (cases "Split c x" rule: rev_cases; cases "butlast (Split c x)") auto
qed simp

lemma Split_last: "last (Split c (x @ y)) = (if c \<in> set y then last (Split c y) else last (Split c x) @ y)"
  "length (Split c (x @ y)) = length (Split c x) + length (Split c y) - 1"
proof -
  have "tl (Split c y) \<noteq> []" if "c \<in> set y" using that length_Split[of c y] by (cases "Split c y") (auto simp: count_list_0_iff)
  then show "last (Split c (x @ y)) = (if c \<in> set y then last (Split c y) else last (Split c x) @ y)"
    by (simp add: Split_app Split_clean last_tl)
  show "length (Split c (x @ y)) = length (Split c x) + length (Split c y) - 1" by (simp add: length_Split)
qed

lemma placed_newLexer: "placed (newLexer src)"
  by (simp add: placed_def consumed_def newLexer_def lexer_pos_def eofPos_def aligned_Nil)

lemma placed_skip1:
  assumes "placed l"
  shows "placed (skip1 l)"
proof (cases "lx_rest l = []")
  case True
  then have "skip1 l = l" by (simp add: advance_lexer_def peek_def)
  then show ?thesis using assms by simp
next
  case False
  let ?pre = "consumed l" and ?s = "lx_rest l"
  define n where "n = snd (DecodeRune ?s)"
  define u where "u = take n ?s"
  have pk: "peek l = DecodeRune ?s" by (simp add: peek_def False)
  have n: "0 < n" "n \<le> length ?s" using False by (auto simp: n_def width_pos width_le)
  have rest: "lx_rest (skip1 l) = drop n ?s" by (simp add: rest_skip1 pk n_def)
  have src: "lx_src l = ?pre @ u @ drop n ?s" using assms by (simp add: placed_def u_def)
  have len: "length (lx_src l) = length (?pre @ u) + length (drop n ?s)" by (subst src) simp
  have "take (length (?pre @ u)) (lx_src l) = ?pre @ u" by (subst src) simp
  then have con: "consumed (skip1 l) = ?pre @ u" unfolding consumed_def[of "skip1 l"] src_skip1 rest len by simp
  note al = aligned_next[of ?s "last (Split (CHR 0x0A) ?pre)", folded n_def, folded u_def]
  have a: "aligned ?s (last (Split (CHR 0x0A) ?pre))" "lexer_pos l = eofPos ?pre" using assms by (simp_all add: placed_def)
  show ?thesis
  proof (cases "fst (peek l) = ru (CHR 0x0A)")
    case True
    then obtain s where s: "?s = CHR 0x0A # s" by (cases l rule: peek_cases) (use False in auto)
    then have u: "u = [CHR 0x0A]" by (simp add: u_def n_def)
    have "lexer_pos (skip1 l) = \<lparr>p_Line = lx_line l + 1, p_Col = 1\<rparr>"
      using True n by (simp add: advance_lexer_def case_prod_beta pk n_def[symmetric] Let_def lexer_pos_def)
    then show ?thesis using a(2) src unfolding placed_def con rest u
      by (simp add: eofPos_def Let_def Split_last lexer_pos_def aligned_Nil)
  next
    case False
    have nl: "CHR 0x0A \<notin> set u"
    proof (cases l rule: peek_cases)
      case (ascii c s)
      then show ?thesis using False pk by (auto simp: u_def n_def)
    next
      case (high v s)
      then show ?thesis using pk by (auto simp: u_def n_def)
    qed (use \<open>?s \<noteq> []\<close> in simp)
    have "lexer_pos (skip1 l) = \<lparr>p_Line = lx_line l, p_Col = lx_col l + 1\<rparr>"
      using False n by (simp add: advance_lexer_def case_prod_beta pk n_def[symmetric] Let_def lexer_pos_def)
    then show ?thesis using a(2) src al[OF a(1) \<open>?s \<noteq> []\<close>] nl unfolding placed_def con rest
      by (simp add: eofPos_def Let_def Split_last lexer_pos_def Split_clean)
  qed
qed

text \<open>What one rune keeps, the whole scanner keeps.\<close>

locale rune_invariant =
  fixes P :: "lexer \<Rightarrow> bool"
  assumes skip1: "P l \<Longrightarrow> P (skip1 l)"
begin

lemma scanWhile: "P l \<Longrightarrow> P (scanWhile ok l)"
  by (induction ok l rule: scanWhile.induct) (subst scanWhile.simps, simp add: skip1)

lemma scanStringBody: "P l \<Longrightarrow> P (scanStringBody l)"
  by (induction l rule: scanStringBody.induct) (subst scanStringBody.simps, auto simp: skip1 split: if_splits)

lemma skipSpace: "P l \<Longrightarrow> P (skipSpace l)"
  by (simp add: skipSpace_def scanWhile)

lemma scanNumber:
  assumes "P l"
  shows "P (snd (scanNumber l))"
proof -
  have 1: "P (if b then skip1 l else l)" for b using assms skip1 by simp
  then have "P (if c then skip1 (if b then skip1 l else l) else scanWhile isDigit (if b then skip1 l else l))" for b c
    using skip1 scanWhile by presburger
  then show ?thesis using 1 unfolding scanNumber_def Let_def if_distrib[of snd] snd_conv using skip1 scanWhile by presburger
qed

lemma nextToken: "P l \<Longrightarrow> P (snd (nextToken l))"
  by (simp add: nextToken_def scanPunct_def case_prod_beta scanComment_def scanString_def Let_def skip1 scanWhile scanStringBody scanNumber)

end

interpretation placed: rune_invariant placed
  by unfold_locales (rule placed_skip1)

interpretation same_source: rune_invariant "\<lambda>l. lx_src l = src" for src
  by unfold_locales simp

interpretation leaves: rune_invariant "\<lambda>l. suffix (lx_rest l) s" for s
  by unfold_locales (auto simp: rest_skip1 intro: suffix_order.trans[OF suffix_drop])

text \<open>A source that is UTF-8, as \<^verbatim>\<open>checkEncoding\<close> requires: every byte belongs to a rune.\<close>

function valid_utf8 :: "string \<Rightarrow> bool" where
  "valid_utf8 s = (if s = [] then True else if DecodeRune s = (RuneError, 1) then False else valid_utf8 (drop (snd (DecodeRune s)) s))"
  by pat_completeness auto
termination
  by (relation "measure length") (auto simp: width_pos)

declare valid_utf8.simps [simp del]

interpretation utf8: rune_invariant "\<lambda>l. valid_utf8 (lx_rest l)"
proof
  show "valid_utf8 (lx_rest (skip1 l))" if "valid_utf8 (lx_rest l)" for l
    using that valid_utf8.simps[of "lx_rest l"] by (auto simp: rest_skip1 peek_def split: if_splits)
qed

lemma valid_ascii: "ru c < 0x80 \<Longrightarrow> valid_utf8 (c # s) = valid_utf8 s" "valid_utf8 []"
  by (subst valid_utf8.simps, simp add: RuneError_def) (simp add: valid_utf8.simps)

lemma radix64:
  fixes x y z w :: nat
  assumes "y < 64" "z < 64" "w < 64"
  shows "(x * 64 + y) div 64 = x" "(x * 64 + y) mod 64 = y"
    "(x * 4096 + y * 64 + z) div 4096 = x" "(x * 4096 + y * 64 + z) div 64 mod 64 = y" "(x * 4096 + y * 64 + z) mod 64 = z"
    "(x * 262144 + y * 4096 + z * 64 + w) div 262144 = x" "(x * 262144 + y * 4096 + z * 64 + w) div 4096 mod 64 = y"
    "(x * 262144 + y * 4096 + z * 64 + w) div 64 mod 64 = z" "(x * 262144 + y * 4096 + z * 64 + w) mod 64 = w"
proof -
  have b: "(a * 64 + d) div 64 = a" "(a * 64 + d) mod 64 = d" if "d < 64" for a d :: nat using that by simp_all
  have h: "x * 4096 + y * 64 + z = (x * 64 + y) * 64 + z" "x * 262144 + y * 4096 + z * 64 + w = ((x * 64 + y) * 64 + z) * 64 + w" by simp_all
  have d: "n div 4096 = n div 64 div 64" "n div 262144 = n div 64 div 64 div 64" for n :: nat by (simp_all add: div_mult2_eq[symmetric])
  show "(x * 64 + y) div 64 = x" "(x * 64 + y) mod 64 = y"
    "(x * 4096 + y * 64 + z) div 4096 = x" "(x * 4096 + y * 64 + z) div 64 mod 64 = y" "(x * 4096 + y * 64 + z) mod 64 = z"
    "(x * 262144 + y * 4096 + z * 64 + w) div 262144 = x" "(x * 262144 + y * 4096 + z * 64 + w) div 4096 mod 64 = y"
    "(x * 262144 + y * 4096 + z * 64 + w) div 64 mod 64 = z" "(x * 262144 + y * 4096 + z * 64 + w) mod 64 = w"
    unfolding h d using assms by (simp_all only: b)
qed

lemma cont_low: "cont b \<Longrightarrow> \<exists>x < 64. b = 0x80 + x"
  by (intro exI[of _ "b - 0x80"]) (auto simp: cont_def)

lemma rune_string_2: "0xC2 \<le> b0 \<Longrightarrow> b0 \<le> 0xDF \<Longrightarrow> x < 64 \<Longrightarrow> rune_string ((b0 - 0xC0) * 64 + x) = map char_of [b0, 0x80 + x]"
proof -
  assume a: "0xC2 \<le> b0" "b0 \<le> 0xDF" "x < 64"
  then have "\<not> (b0 - 0xC0) * 64 + x < 0x80" "(b0 - 0xC0) * 64 + x < 0x800" by linarith+
  then show ?thesis using a by (simp add: rune_string_def radix64)
qed

lemma rune_string_3:
  assumes "0xE0 \<le> b0" "b0 \<le> 0xEF" "x < 64" "y < 64" "b0 = 0xE0 \<longrightarrow> 32 \<le> x" "b0 = 0xED \<longrightarrow> x < 32"
  shows "rune_string ((b0 - 0xE0) * 4096 + x * 64 + y) = map char_of [b0, 0x80 + x, 0x80 + y]"
proof -
  let ?r = "(b0 - 0xE0) * 4096 + x * 64 + y"
  have r: "\<not> ?r < 0x800" "?r < 0x10000" using assms by linarith+
  consider "b0 < 0xED" | "b0 = 0xED" | "0xED < b0" by linarith
  then have "\<not> (0xD800 \<le> ?r \<and> ?r \<le> 0xDFFF)"
  proof cases
    case 1
    then have "?r < 0xD800" using assms by linarith
    then show ?thesis by simp
  next
    case 2
    then have "?r < 0xD800" using assms by simp
    then show ?thesis by simp
  next
    case 3
    then have "0xDFFF < ?r" using assms by linarith
    then show ?thesis by simp
  qed
  then show ?thesis using assms r by (auto simp: rune_string_def radix64)
qed

lemma rune_string_4:
  assumes "0xF0 \<le> b0" "b0 \<le> 0xF4" "x < 64" "y < 64" "z < 64" "b0 = 0xF0 \<longrightarrow> 16 \<le> x" "b0 = 0xF4 \<longrightarrow> x < 16"
  shows "rune_string ((b0 - 0xF0) * 262144 + x * 4096 + y * 64 + z) = map char_of [b0, 0x80 + x, 0x80 + y, 0x80 + z]"
proof -
  let ?r = "(b0 - 0xF0) * 262144 + x * 4096 + y * 64 + z"
  have "0x10000 \<le> ?r" "?r \<le> 0x10FFFF" using assms by linarith+
  then show ?thesis using assms by (simp add: rune_string_def radix64)
qed

lemma rune_string_decode:
  assumes "s \<noteq> []" "DecodeRune s \<noteq> (RuneError, 1)"
  shows "rune_string (fst (DecodeRune s)) = take (snd (DecodeRune s)) s"
proof -
  define b where "b = byte_at s"
  have "take n s = map (\<lambda>i. char_of (b i)) [0..<n]" if "n \<le> length s" for n
    using that by (intro nth_equalityI) (auto simp: byte_at_def b_def)
  then have tk: "take (snd (DecodeRune s)) s = map (\<lambda>i. char_of (b i)) [0..<snd (DecodeRune s)]" using width_le by blast
  define P3 where "P3 \<longleftrightarrow> 0xE0 \<le> b 0 \<and> b 0 \<le> 0xEF \<and> (if b 0 = 0xE0 then 0xA0 else 0x80) \<le> b 1 \<and> b 1 \<le> (if b 0 = 0xED then 0x9F else 0xBF) \<and> cont (b 2)"
  define P4 where "P4 \<longleftrightarrow> 0xF0 \<le> b 0 \<and> b 0 \<le> 0xF4 \<and> (if b 0 = 0xF0 then 0x90 else 0x80) \<le> b 1 \<and> b 1 \<le> (if b 0 = 0xF4 then 0x8F else 0xBF) \<and> cont (b 2) \<and> cont (b 3)"
  have D: "DecodeRune s = (if b 0 < 0x80 then (b 0, 1) else if 0xC2 \<le> b 0 \<and> b 0 \<le> 0xDF \<and> cont (b 1) then ((b 0 - 0xC0) * 64 + (b 1 - 0x80), 2)
    else if P3 then ((b 0 - 0xE0) * 4096 + (b 1 - 0x80) * 64 + (b 2 - 0x80), 3)
    else if P4 then ((b 0 - 0xF0) * 262144 + (b 1 - 0x80) * 4096 + (b 2 - 0x80) * 64 + (b 3 - 0x80), 4) else (RuneError, 1))"
    using assms(1) by (simp add: DecodeRune_def Let_def P3_def P4_def b_def)
  have u: "[0..<2] = [0, 1::nat]" "[0..<3] = [0, 1, 2::nat]" "[0..<4] = [0, 1, 2, 3::nat]" by (simp_all add: upt_rec)
  consider "b 0 < 0x80" | "\<not> b 0 < 0x80" "0xC2 \<le> b 0 \<and> b 0 \<le> 0xDF \<and> cont (b 1)" | "\<not> b 0 < 0x80" "\<not> (0xC2 \<le> b 0 \<and> b 0 \<le> 0xDF \<and> cont (b 1))" P3
    | "\<not> b 0 < 0x80" "\<not> (0xC2 \<le> b 0 \<and> b 0 \<le> 0xDF \<and> cont (b 1))" "\<not> P3" P4
    using assms(2) D by (metis (no_types, lifting))
  then show ?thesis
  proof cases
    case 1
    then show ?thesis using tk D by (simp add: rune_string_def)
  next
    case 2
    then obtain x where "b 1 = 0x80 + x" "x < 64" using cont_low by blast
    then show ?thesis using tk D 2 rune_string_2[of "b 0" x] u by simp
  next
    case 3
    then have c: "cont (b 1)" "cont (b 2)" by (auto simp: P3_def cont_def split: if_splits)
    obtain x y where xy: "b 1 = 0x80 + x" "x < 64" "b 2 = 0x80 + y" "y < 64" using c cont_low by metis
    have "rune_string ((b 0 - 0xE0) * 4096 + x * 64 + y) = map char_of [b 0, 0x80 + x, 0x80 + y]"
      using 3(3) xy by (intro rune_string_3) (auto simp: P3_def)
    moreover have "DecodeRune s = ((b 0 - 0xE0) * 4096 + x * 64 + y, 3)" using D 3 xy by simp
    ultimately show ?thesis using tk u xy by simp
  next
    case 4
    then have c: "cont (b 1)" "cont (b 2)" "cont (b 3)" by (auto simp: P4_def cont_def split: if_splits)
    obtain x y z where xy: "b 1 = 0x80 + x" "x < 64" "b 2 = 0x80 + y" "y < 64" "b 3 = 0x80 + z" "z < 64" using c cont_low by metis
    have "rune_string ((b 0 - 0xF0) * 262144 + x * 4096 + y * 64 + z) = map char_of [b 0, 0x80 + x, 0x80 + y, 0x80 + z]"
      using 4(4) xy by (intro rune_string_4) (auto simp: P4_def)
    moreover have "DecodeRune s = ((b 0 - 0xF0) * 262144 + x * 4096 + y * 64 + z, 4)" using D 4 xy by simp
    ultimately show ?thesis using tk u xy by simp
  qed
qed

text \<open>The text of a token is what it was read from.\<close>

lemma next_tok_text:
  assumes "s \<noteq> []" "valid_utf8 s"
  shows "s = snd (fst (next_tok s)) @ snd (next_tok s)"
proof -
  have w: "valid_utf8 s \<Longrightarrow> DecodeRune s \<noteq> (RuneError, 1)" using assms(1) by (subst (asm) valid_utf8.simps) (auto split: if_splits)
  let ?l = "newLexer s"
  have l: "lx_rest ?l = s" by (simp add: newLexer_def)
  have "suffix (lx_rest (snd (nextToken ?l))) s" by (rule leaves.nextToken) (simp add: l)
  then have suf: "suffix (snd (next_tok s)) s" using nextToken_view(1)[of ?l] assms(1) l by (metis snd_map_prod)
  have "s = snd (fst (use_tok s k r)) @ r" if "suffix r s" for k r
    using that by (auto simp: use_tok_def suffix_def)
  moreover have "s = rune_string (fst (DecodeRune s)) @ drop (snd (DecodeRune s)) s"
    using rune_string_decode[OF assms(1) w[OF assms(2)]] by simp
  moreover have "(\<exists>k. next_tok s = use_tok s k (snd (next_tok s))) \<or> next_tok s = ((Invalid, rune_string (fst (DecodeRune s))), drop (snd (DecodeRune s)) s)"
    by (auto simp: next_tok_def use_tok_def)
  ultimately show ?thesis using suf by (metis fst_conv snd_conv)
qed

section \<open>Nothing is lost\<close>

text \<open>Each token of a list stands after white space, at the position of its first character.\<close>

fun layout :: "string \<Rightarrow> string list \<Rightarrow> Token list \<Rightarrow> bool" where
  "layout pre [] [] = True"
| "layout pre (g # gs) (t # ts) = ((\<forall>c \<in> set g. isSpace (ru c)) \<and> tok_Pos t = eofPos (pre @ g) \<and> layout (pre @ g @ tok_Text t) gs ts)"
| "layout pre _ _ = False"

definition spelled :: "string list \<Rightarrow> Token list \<Rightarrow> string" where
  "spelled gaps ts = concat (map2 (\<lambda>g t. g @ tok_Text t) gaps ts)"

lemma tokenize_spelled:
  assumes "placed l" "valid_utf8 (lx_rest l)"
  shows "\<exists>gaps. lx_rest l = spelled gaps (tokenize l) \<and> layout (consumed l) gaps (tokenize l)"
  using assms
proof (induction "length (lx_rest l)" arbitrary: l rule: less_induct)
  case less
  define m where "m = skipSpace l"
  define g where "g = takeWhile (\<lambda>c. isSpace (ru c)) (lx_rest l)"
  have m: "lx_rest l = g @ lx_rest m" by (simp add: g_def m_def)
  have sm: "lx_src m = lx_src l" by (simp add: m_def)
  have g: "\<forall>c \<in> set g. isSpace (ru c)" by (auto simp: g_def dest: set_takeWhileD)
  have p: "placed m" "valid_utf8 (lx_rest m)" using less.prems placed.skipSpace utf8.skipSpace unfolding m_def by blast+
  have con: "consumed l' = consumed k @ t" if "placed k" "placed l'" "lx_src l' = lx_src k" "lx_rest k = t @ lx_rest l'" for k l' t
    using that unfolding placed_def by (metis append_assoc append_same_eq)
  have cm: "consumed m = consumed l @ g" using con[OF less.prems(1) p(1) sm m] .
  show ?case
  proof (cases "lx_rest m = []")
    case True
    have "lx_src l = consumed l @ g" using less.prems(1) m True by (simp add: placed_def)
    moreover have "tokenize l = [eof_token (lx_src l)]" using True sm by (subst tokenize.simps) (simp add: m_def[symmetric])
    ultimately show ?thesis using m g True
      by (intro exI[of _ "[g]"]) (simp add: spelled_def eof_token_def)
  next
    case False
    let ?t = "fst (nextToken m)" and ?n = "snd (nextToken m)"
    have tk: "tokenize l = ?t # tokenize ?n" using False by (subst tokenize.simps) (simp add: Let_def m_def[symmetric])
    have v: "view ?t = fst (next_tok (lx_rest m))" "lx_rest ?n = snd (next_tok (lx_rest m))"
      using nextToken_view(1)[OF False] by (metis fst_map_prod, metis snd_map_prod)
    have r: "lx_rest m = tok_Text ?t @ lx_rest ?n" using next_tok_text[OF False p(2)] v by (metis snd_conv view_def)
    have pn: "placed ?n" "valid_utf8 (lx_rest ?n)" using p placed.nextToken utf8.nextToken by blast+
    have "length (lx_rest ?n) < length (lx_rest l)" using nextToken_less[OF False] m by simp
    from less.hyps[OF this pn] obtain gs where gs: "lx_rest ?n = spelled gs (tokenize ?n)" "layout (consumed ?n) gs (tokenize ?n)" by blast
    have cn: "consumed ?n = consumed l @ g @ tok_Text ?t" using con[OF p(1) pn(1) _ r] nextToken_view(3)[OF False] cm by simp
    have "tok_Pos ?t = eofPos (consumed l @ g)" using nextToken_view(2)[OF False] p(1) cm by (simp add: placed_def)
    then show ?thesis using gs cn tk m g r by (intro exI[of _ "g # gs"]) (simp add: spelled_def)
  qed
qed

text \<open>
  C30. The scanner loses nothing: a UTF-8 source is the texts of its tokens with white space between
  them, each token reported at the line and column its text begins at, in runes, the end of input at the
  position one past the final character; and the tokens are the terminals of the grammar, read byte by byte.
\<close>
theorem tokenize_lossless:
  assumes "valid_utf8 src"
  shows "(\<exists>gaps. src = spelled gaps (tokenize (newLexer src)) \<and> layout '''' gaps (tokenize (newLexer src)))
    \<and> map view (tokenize (newLexer src)) = toks src @ [(EOF, '''')]"
proof -
  have l: "lx_rest (newLexer src) = src" "consumed (newLexer src) = ''''" by (simp_all add: newLexer_def consumed_def)
  show ?thesis using tokenize_spelled[OF placed_newLexer[of src]] assms by (simp add: tokenize_toks l)
qed

text \<open>A description with an em dash, which is three bytes and one column.\<close>

definition dash_source :: string where
  "dash_source = ''desc '' @ [CHR 0x22, CHR ''a'', CHR 0xE2, CHR 0x80, CHR 0x94, CHR 0x22] @ '' 007''"

theorem tokenize_lossless_witness:
  "(\<exists>gaps. dash_source = spelled gaps (tokenize (newLexer dash_source)) \<and> layout '''' gaps (tokenize (newLexer dash_source)))
    \<and> map view (tokenize (newLexer dash_source)) = toks dash_source @ [(EOF, '''')]"
proof -
  have "valid_utf8 ([CHR 0xE2, CHR 0x80, CHR 0x94] @ s) = valid_utf8 s" for s
    by (subst valid_utf8.simps) (simp add: DecodeRune_def byte_at_def cont_def RuneError_def)
  then have "valid_utf8 dash_source" by (simp add: dash_source_def valid_ascii)
  then show ?thesis by (rule tokenize_lossless)
qed

end
