(* ===== verification/Lang_Words.thy ===== *)
theory Lang_Words
  imports Lang_Lexer
begin

text \<open>
  How texts put together lex (\<^verbatim>\<open>content/lang/lexer.go\<close>). \<open>lexes F s vs\<close>: followed by the end of the
  source or a character of \<open>F\<close>, the text \<open>s\<close> is the terminals \<open>vs\<close>, whatever comes after; it holds of every
  terminal and is closed under concatenation. A line feed ends every terminal, so a source lexes
  line by line. And every terminal the scanner yields has the shape the grammar gives it.
\<close>

section \<open>Composition\<close>

definition lexes :: "char set \<Rightarrow> string \<Rightarrow> (Kind \<times> string) list \<Rightarrow> bool" where
  "lexes F s vs \<longleftrightarrow> (\<forall>t. t = [] \<or> hd t \<in> F \<longrightarrow> toks (s @ t) = vs @ toks t)"

lemma lexesD: "lexes F s vs \<Longrightarrow> t = [] \<or> hd t \<in> F \<Longrightarrow> toks (s @ t) = vs @ toks t"
  unfolding lexes_def by blast

lemma toks_Nil [simp]: "toks [] = []"
  by (simp add: toks.simps)

lemma lexes_toks: "lexes F s vs \<Longrightarrow> toks s = vs"
  using lexesD[of F s vs "[]"] by simp

lemma lexes_append: "lexes F s vs \<Longrightarrow> lexes G s' vs' \<Longrightarrow> s' \<noteq> [] \<Longrightarrow> hd s' \<in> F \<Longrightarrow> lexes G (s @ s') (vs @ vs')"
  by (simp add: lexes_def)

lemma lexes_any: "lexes UNIV s vs \<Longrightarrow> lexes G s' vs' \<Longrightarrow> lexes G (s @ s') (vs @ vs')"
  by (simp add: lexes_def)

lemma lexes_Nil [simp]: "lexes F [] []"
  by (simp add: lexes_def)

lemma lexes_mono: "lexes F s vs \<Longrightarrow> G \<subseteq> F \<Longrightarrow> lexes G s vs"
  by (auto simp: lexes_def)

definition white :: "string \<Rightarrow> bool" where
  "white s \<longleftrightarrow> (\<forall>c \<in> set s. isSpace (ru c))"

lemma toks_white: "white s \<Longrightarrow> toks (s @ t) = toks t"
  using toks.simps[of "s @ t"] toks.simps[of t] by (simp add: white_def dropWhile_append2 cong: if_cong)

lemma lexes_white: "white s \<Longrightarrow> lexes F s []"
  by (simp add: lexes_def toks_white)

lemma white_simps [simp]: "white []" "white (c # s) \<longleftrightarrow> isSpace (ru c) \<and> white s" "white (s @ t) \<longleftrightarrow> white s \<and> white t"
  "white (replicate n c) \<longleftrightarrow> n = 0 \<or> isSpace (ru c)" "isSpace 0x20" "isSpace 0x0A"
  by (auto simp: white_def isSpace_def)

lemma toks_next: "s \<noteq> [] \<Longrightarrow> \<not> isSpace (ru (hd s)) \<Longrightarrow> toks s = fst (next_tok s) # toks (snd (next_tok s))"
  by (subst toks.simps) (cases s, simp_all add: Let_def)

lemma lexes_token:
  assumes "s \<noteq> []" "\<not> isSpace (ru (hd s))" "\<And>t. t = [] \<or> hd t \<in> F \<Longrightarrow> next_tok (s @ t) = ((k, s), t)"
  shows "lexes F s [(k, s)]"
  unfolding lexes_def
proof (intro allI impI)
  fix t :: string
  assume t: "t = [] \<or> hd t \<in> F"
  have "toks (s @ t) = fst (next_tok (s @ t)) # toks (snd (next_tok (s @ t)))"
    using assms(1,2) by (intro toks_next) simp_all
  then show "toks (s @ t) = [(k, s)] @ toks t" by (simp add: assms(3)[OF t])
qed

section \<open>Terminals\<close>

definition lowerid :: "string \<Rightarrow> bool" where
  "lowerid s \<longleftrightarrow> starts isLower s \<and> (\<forall>c \<in> set s. isLowerRest (ru c))"

definition upperid :: "string \<Rightarrow> bool" where
  "upperid s \<longleftrightarrow> starts isUpper s \<and> (\<forall>c \<in> set s. isUpperRest (ru c))"

definition lower_end :: "char set" where
  "lower_end = {c. \<not> isLowerRest (ru c)}"

definition upper_end :: "char set" where
  "upper_end = {c. \<not> isUpperRest (ru c)}"

lemma use_tok_append: "use_tok (s @ t) k t = ((k, s), t)"
  by (simp add: use_tok_def)

lemma dropWhile_end: "\<forall>c \<in> set s. P c \<Longrightarrow> t = [] \<or> \<not> P (hd t) \<Longrightarrow> dropWhile P (s @ t) = t"
  by (induction s) (auto simp: dropWhile_eq_self_iff)

lemma class_disjoint:
  "isLower r \<Longrightarrow> \<not> isDigit r" "isLower r \<Longrightarrow> \<not> isUpper r" "isUpper r \<Longrightarrow> \<not> isDigit r" "isDigit r \<Longrightarrow> \<not> isSpace r"
  "isLower r \<Longrightarrow> \<not> isSpace r" "isUpper r \<Longrightarrow> \<not> isSpace r" "isUpper r \<Longrightarrow> \<not> isLower r"
  by (auto simp: rune_class_defs)

lemma class_marks [simp]:
  "\<not> isLower 0x22" "\<not> isLower 0x2D" "\<not> isLower 0x2F" "\<not> isUpper 0x22" "\<not> isUpper 0x2D" "\<not> isUpper 0x2F"
  "\<not> isDigit 0x22" "\<not> isDigit 0x2D" "\<not> isDigit 0x2F"
  by (simp_all add: rune_class_defs)

lemma HasPrefix_starts: "HasPrefix s ''//'' \<Longrightarrow> starts ((=) 0x2F) s" "HasPrefix s ''->'' \<Longrightarrow> starts ((=) 0x2D) s"
  by (cases s; simp)+

lemma lexes_lowerid: "lowerid s \<Longrightarrow> lexes lower_end s [(LowerID, s)]"
proof (rule lexes_token)
  assume s: "lowerid s"
  then obtain c r where c: "s = c # r" "isLower (ru c)" by (cases s) (auto simp: lowerid_def)
  show "s \<noteq> []" "\<not> isSpace (ru (hd s))" using c class_disjoint(5) by auto
  fix t :: string
  assume "t = [] \<or> hd t \<in> lower_end"
  then have "dropWhile (\<lambda>c. isLowerRest (ru c)) (s @ t) = t" using s by (intro dropWhile_end) (auto simp: lowerid_def lower_end_def)
  moreover have "\<not> HasPrefix (s @ t) ''//''" "\<not> HasPrefix (s @ t) ''->''" using HasPrefix_starts[of "s @ t"] c by auto
  ultimately show "next_tok (s @ t) = ((LowerID, s), t)"
    unfolding next_tok_def using c class_disjoint[of "ru c"] use_tok_append[of s t] by auto
qed

lemma lexes_upperid: "upperid s \<Longrightarrow> lexes upper_end s [(UpperID, s)]"
proof (rule lexes_token)
  assume s: "upperid s"
  then obtain c r where c: "s = c # r" "isUpper (ru c)" by (cases s) (auto simp: upperid_def)
  show "s \<noteq> []" "\<not> isSpace (ru (hd s))" using c class_disjoint by auto
  fix t :: string
  assume "t = [] \<or> hd t \<in> upper_end"
  then have "dropWhile (\<lambda>c. isUpperRest (ru c)) (s @ t) = t" using s by (intro dropWhile_end) (auto simp: upperid_def upper_end_def)
  moreover have "\<not> HasPrefix (s @ t) ''//''" "\<not> HasPrefix (s @ t) ''->''" using HasPrefix_starts[of "s @ t"] c by auto
  ultimately show "next_tok (s @ t) = ((UpperID, s), t)"
    unfolding next_tok_def using c class_disjoint[of "ru c"] use_tok_append[of s t] by auto
qed

lemma lexes_punct:
  "lexes F [CHR 0x7B] [(LBrace, [CHR 0x7B])]" "lexes F [CHR 0x7D] [(RBrace, [CHR 0x7D])]" "lexes F [CHR 0x5B] [(LBracket, [CHR 0x5B])]"
  "lexes F [CHR 0x5D] [(RBracket, [CHR 0x5D])]" "lexes F '':'' [(Colon, '':'')]" "lexes F '','' [(Comma, '','')]" "lexes F ''.'' [(Dot, ''.'')]"
  "lexes F [CHR 0x40] [(At, [CHR 0x40])]" "lexes F ''->'' [(Arrow, ''->'')]"
  by (rule lexes_token; simp add: next_tok_def use_tok_def punct_kind_def rune_class_defs)+

text \<open>A string literal that is closed: its body ends outside an escape.\<close>

fun plain_body :: "string \<Rightarrow> bool" where
  "plain_body [] \<longleftrightarrow> True"
| "plain_body [c] \<longleftrightarrow> c \<noteq> CHR 0x22 \<and> c \<noteq> CHR 0x5C \<and> c \<noteq> CHR 0x0A"
| "plain_body (c # d # s) \<longleftrightarrow>
     (if c = CHR 0x5C then d \<noteq> CHR 0x0A \<and> plain_body s else c \<noteq> CHR 0x22 \<and> c \<noteq> CHR 0x0A \<and> plain_body (d # s))"

definition quoted :: "string \<Rightarrow> string" where
  "quoted b = CHR 0x22 # b @ [CHR 0x22]"

definition closed_lit :: "string \<Rightarrow> bool" where
  "closed_lit s \<longleftrightarrow> 2 \<le> length s \<and> s = quoted (butlast (tl s)) \<and> plain_body (butlast (tl s))"

lemma closed_quoted [simp]: "closed_lit (quoted b) = plain_body b"
  by (simp add: closed_lit_def quoted_def)

lemma closed_lit_ex: "closed_lit s \<longleftrightarrow> (\<exists>b. s = quoted b \<and> plain_body b)"
  by (auto simp: closed_lit_def quoted_def)

lemma str_rest_plain: "plain_body b \<Longrightarrow> str_rest (b @ CHR 0x22 # t) = t"
proof (induction b rule: plain_body.induct)
  case (2 c)
  then show ?case by (simp add: str_rest_Cons) (cases t; simp)
next
  case (3 c d s)
  then show ?case by (cases "c = CHR 0x5C") (auto simp: str_rest_Cons)
qed (cases t; simp)

lemma lexes_string: "closed_lit s \<Longrightarrow> lexes F s [(StringK, s)]"
proof (rule lexes_token)
  assume "closed_lit s"
  then obtain b where b: "s = CHR 0x22 # b @ [CHR 0x22]" "plain_body b" by (auto simp: closed_lit_ex quoted_def)
  then show "s \<noteq> []" "\<not> isSpace (ru (hd s))" by (simp_all add: isSpace_def)
  fix t
  have "str_rest (tl (s @ t)) = t" using b str_rest_plain[OF b(2)] by simp
  then show "next_tok (s @ t) = ((StringK, s), t)" using b(1) use_tok_append[of s t] by (simp add: next_tok_def)
qed

definition digits :: "string \<Rightarrow> bool" where
  "digits s \<longleftrightarrow> s \<noteq> [] \<and> (\<forall>c \<in> set s. isDigit (ru c))"

definition unsign :: "string \<Rightarrow> string" where
  "unsign s = (if starts ((=) 0x2D) s then tl s else s)"

definition int_lit :: "string \<Rightarrow> bool" where
  "int_lit s \<longleftrightarrow> unsign s = ''0'' \<or> digits (unsign s) \<and> hd (unsign s) \<noteq> CHR ''0''"

definition num_end :: "char set" where
  "num_end = {c. \<not> isDigit (ru c) \<and> c \<noteq> CHR ''.''}"

lemma isDigit_0 [simp]: "isDigit 0x30"
  by (simp add: isDigit_def)

lemma int_lit_digits: "int_lit s \<Longrightarrow> digits (unsign s)"
  by (auto simp: int_lit_def digits_def)

lemma lexes_int: "int_lit s \<Longrightarrow> lexes num_end s [(IntK, s)]"
proof (rule lexes_token)
  assume s: "int_lit s"
  then have d: "digits (unsign s)" by (rule int_lit_digits)
  have ne: "starts isDigit (unsign s)" using d by (cases "unsign s") (auto simp: digits_def)
  have st: "starts (\<lambda>r. isDigit r \<or> r = 0x2D) s" using ne by (cases s) (auto simp: unsign_def)
  show "s \<noteq> []" "\<not> isSpace (ru (hd s))" using st by (cases s; auto simp: rune_class_defs)+
  fix t :: string
  assume t: "t = [] \<or> hd t \<in> num_end"
  have u: "(if starts ((=) 0x2D) (s @ t) then tl (s @ t) else s @ t) = unsign s @ t" "starts ((=) 0x2D) (s @ t) = starts ((=) 0x2D) s"
    using st by (cases s; simp add: unsign_def)+
  have dw: "dropWhile (\<lambda>c. isDigit (ru c)) (unsign s @ t) = t" using d t by (intro dropWhile_end) (auto simp: digits_def num_end_def)
  have s2: "(if starts ((=) 0x30) (unsign s @ t) then tl (unsign s @ t) else dropWhile (\<lambda>c. isDigit (ru c)) (unsign s @ t)) = t"
    using s d dw by (cases "unsign s") (auto simp: int_lit_def digits_def)
  have "\<not> starts ((=) 0x2E) t" using t by (cases t) (auto simp: num_end_def)
  moreover have "starts isDigit (unsign s @ t)" using ne by (cases "unsign s") auto
  ultimately have "num_rest (s @ t) = (IntK, t)"
    unfolding num_rest_def Let_def u(1) s2 by simp
  moreover have "starts (\<lambda>r. isDigit r \<or> r = 0x2D) (s @ t)" "\<not> starts ((=) 0x22) (s @ t)" using st by (cases s; auto simp: isDigit_def)+
  moreover have "\<not> HasPrefix (s @ t) ''//''" using HasPrefix_starts(1)[of "s @ t"] st by (cases s) (auto simp: isDigit_def)
  moreover have "\<not> HasPrefix (s @ t) ''->''"
  proof
    assume h: "HasPrefix (s @ t) ''->''"
    then obtain r where "s @ t = CHR ''-'' # CHR 0x3E # r" by (cases "s @ t"; cases "tl (s @ t)") auto
    then show False using ne u by (cases s; cases "tl s") (auto simp: unsign_def isDigit_def)
  qed
  ultimately show "next_tok (s @ t) = ((IntK, s), t)" using use_tok_append[of s t] by (simp add: next_tok_def)
qed

definition comment_lit :: "string \<Rightarrow> bool" where
  "comment_lit c \<longleftrightarrow> HasPrefix c ''//'' \<and> CHR 0x0A \<notin> set c"

lemma lexes_comment: "comment_lit c \<Longrightarrow> lexes {CHR 0x0A} c [(Comment, c)]"
proof (rule lexes_token)
  assume c: "comment_lit c"
  then obtain r where r: "c = CHR ''/'' # CHR ''/'' # r" by (cases c; cases "tl c") (auto simp: comment_lit_def)
  then show "c \<noteq> []" "\<not> isSpace (ru (hd c))" by (simp_all add: isSpace_def)
  fix t :: string
  assume "t = [] \<or> hd t \<in> {CHR 0x0A}"
  then have "dropWhile (\<lambda>x. ru x \<noteq> 0x0A) (c @ t) = t" using c by (intro dropWhile_end) (auto simp: comment_lit_def)
  then show "next_tok (c @ t) = ((Comment, c), t)" using r use_tok_append[of c t] by (simp add: next_tok_def)
qed

section \<open>The shape of terminals\<close>

definition float_lit :: "string \<Rightarrow> bool" where
  "float_lit s \<longleftrightarrow> (let i = takeWhile (\<lambda>c. c \<noteq> CHR ''.'') s; r = dropWhile (\<lambda>c. c \<noteq> CHR ''.'') s
     in int_lit i \<and> r \<noteq> [] \<and> digits (tl r))"

lemma lexes_float: "float_lit s \<Longrightarrow> lexes num_end s [(FloatK, s)]"
proof (rule lexes_token)
  define i f where "i = takeWhile (\<lambda>c. c \<noteq> CHR ''.'') s" and "f = tl (dropWhile (\<lambda>c. c \<noteq> CHR ''.'') s)"
  assume "float_lit s"
  then have l: "int_lit i" "digits f" "dropWhile (\<lambda>c. c \<noteq> CHR ''.'') s \<noteq> []" by (simp_all add: float_lit_def i_def f_def Let_def)
  have "hd (dropWhile (\<lambda>c. c \<noteq> CHR ''.'') s) = CHR ''.''" using hd_dropWhile[OF l(3)] by simp
  then have s: "s = i @ CHR ''.'' # f" using l(3) unfolding i_def f_def by (metis list.collapse takeWhile_dropWhile_id)
  have d: "digits (unsign i)" using l(1) by (rule int_lit_digits)
  have ne: "starts isDigit (unsign i)" using d by (cases "unsign i") (auto simp: digits_def)
  have st: "starts (\<lambda>r. isDigit r \<or> r = 0x2D) i" using ne by (cases i) (auto simp: unsign_def)
  show "s \<noteq> []" "\<not> isSpace (ru (hd s))" using st s by (cases i; auto simp: rune_class_defs)+
  fix t :: string
  assume t: "t = [] \<or> hd t \<in> num_end"
  define x where "x = CHR ''.'' # f @ t"
  have sx: "s @ t = i @ x" by (simp add: s x_def)
  have u: "(if starts ((=) 0x2D) (i @ x) then tl (i @ x) else i @ x) = unsign i @ x"
    using st by (cases i; simp add: unsign_def)+
  have dw: "dropWhile (\<lambda>c. isDigit (ru c)) (unsign i @ x) = x" using d by (intro dropWhile_end) (auto simp: digits_def x_def isDigit_def)
  have s2: "(if starts ((=) 0x30) (unsign i @ x) then tl (unsign i @ x) else dropWhile (\<lambda>c. isDigit (ru c)) (unsign i @ x)) = x"
    using l(1) d dw by (cases "unsign i") (auto simp: int_lit_def digits_def)
  have ft: "dropWhile (\<lambda>c. isDigit (ru c)) (f @ t) = t" using l(2) t by (intro dropWhile_end) (auto simp: digits_def num_end_def)
  have "starts isDigit (tl x)" using l(2) by (cases f) (auto simp: x_def digits_def)
  moreover have "starts isDigit (unsign i @ x)" using ne by (cases "unsign i") auto
  ultimately have "num_rest (s @ t) = (FloatK, t)"
    unfolding num_rest_def Let_def sx u s2 using ft by (simp add: x_def)
  moreover have "starts (\<lambda>r. isDigit r \<or> r = 0x2D) (s @ t)" "\<not> starts ((=) 0x22) (s @ t)" using st s by (cases i; auto simp: isDigit_def)+
  moreover have "\<not> HasPrefix (s @ t) ''//''" using HasPrefix_starts(1)[of "s @ t"] st s by (cases i) (auto simp: isDigit_def)
  moreover have "\<not> HasPrefix (s @ t) ''->''"
  proof
    assume h: "HasPrefix (s @ t) ''->''"
    then obtain r where "s @ t = CHR ''-'' # CHR 0x3E # r" by (cases "s @ t"; cases "tl (s @ t)") auto
    then show False using ne s by (cases i; cases "tl i") (auto simp: unsign_def isDigit_def)
  qed
  ultimately show "next_tok (s @ t) = ((FloatK, s), t)" using use_tok_append[of s t] by (simp add: next_tok_def)
qed

definition lexical :: "Kind \<times> string \<Rightarrow> bool" where
  "lexical v \<longleftrightarrow> (case v of (k, s) \<Rightarrow>
     (k = LowerID \<longrightarrow> lowerid s) \<and> (k = UpperID \<longrightarrow> upperid s) \<and> (k = IntK \<longrightarrow> int_lit s) \<and> (k = FloatK \<longrightarrow> float_lit s)
     \<and> (k = Comment \<longrightarrow> comment_lit s) \<and> (k = StringK \<longrightarrow> starts ((=) 0x22) s)
     \<and> (k = LBrace \<longrightarrow> s = [CHR 0x7B]) \<and> (k = RBrace \<longrightarrow> s = [CHR 0x7D]) \<and> (k = LBracket \<longrightarrow> s = [CHR 0x5B]) \<and> (k = RBracket \<longrightarrow> s = [CHR 0x5D])
     \<and> (k = Colon \<longrightarrow> s = '':'') \<and> (k = Comma \<longrightarrow> s = '','') \<and> (k = Dot \<longrightarrow> s = ''.'') \<and> (k = At \<longrightarrow> s = [CHR 0x40]) \<and> (k = Arrow \<longrightarrow> s = ''->'')
     \<and> k \<noteq> EOF)"

lemma use_tok_while: "fst (use_tok s k (dropWhile P s)) = (k, takeWhile P s)"
proof -
  have "take (length s - length (dropWhile P s)) s = takeWhile P s"
    using takeWhile_dropWhile_id[of P s] by (metis append_eq_conv_conj length_append add_diff_cancel_right')
  then show ?thesis by (simp add: use_tok_def)
qed

lemma starts_while: "starts P s \<Longrightarrow> (\<And>r. P r \<Longrightarrow> Q r) \<Longrightarrow> starts P (takeWhile (\<lambda>c. Q (ru c)) s)"
  by (cases s) auto

lemma punct_kind_shape: "lexical (punct_kind (ru c), [c])"
  using char_of_char[of c] by (auto simp: punct_kind_def lexical_def ru_eq_char split: if_splits) (auto simp: char_of_def bit_simps)

lemma lexical_number:
  assumes "starts (\<lambda>r. isDigit r \<or> r = 0x2D) s"
  shows "lexical (fst (use_tok s (fst (num_rest s)) (snd (num_rest s))))"
proof -
  define neg where "neg = starts ((=) 0x2D) s"
  define s1 where "s1 = (if neg then tl s else s)"
  define s2 where "s2 = (if starts ((=) 0x30) s1 then tl s1 else dropWhile (\<lambda>c. isDigit (ru c)) s1)"
  define f where "f = takeWhile (\<lambda>c. isDigit (ru c)) (tl s2)"
  have num: "num_rest s = (if neg \<and> \<not> starts isDigit s1 then (Invalid, s1)
      else if starts ((=) 0x2E) s2 \<and> starts isDigit (tl s2) then (FloatK, dropWhile (\<lambda>c. isDigit (ru c)) (tl s2)) else (IntK, s2))"
    by (simp only: num_rest_def Let_def neg_def[symmetric] s1_def[symmetric] s2_def[symmetric])
  show ?thesis
  proof (cases "neg \<and> \<not> starts isDigit s1")
    case True
    then show ?thesis by (simp add: num use_tok_def lexical_def)
  next
    case False
    then have d1: "starts isDigit s1" using assms by (cases s) (auto simp: s1_def neg_def)
    define n where "n = (if starts ((=) 0x30) s1 then ''0'' else takeWhile (\<lambda>c. isDigit (ru c)) s1)"
    define i where "i = (if neg then ''-'' else '''') @ n"
    have n: "s1 = n @ s2" "digits n" "n = ''0'' \<or> hd n \<noteq> CHR ''0''"
      using d1 by (cases s1; auto simp: n_def s2_def digits_def dest: set_takeWhileD)+
    have "\<not> starts ((=) 0x2D) n" using n(2) by (cases n) (auto simp: digits_def)
    then have ui: "unsign i = n" by (simp add: i_def unsign_def)
    have i: "int_lit i" using n unfolding int_lit_def ui by auto
    have s: "s = i @ s2" using n(1) by (cases s) (auto simp: i_def s1_def neg_def split: if_splits)
    show ?thesis
    proof (cases "starts ((=) 0x2E) s2 \<and> starts isDigit (tl s2)")
      case True
      then obtain r where r: "s2 = CHR ''.'' # r" by (cases s2) auto
      then have rr: "r = f @ dropWhile (\<lambda>c. isDigit (ru c)) (tl s2)" by (simp add: f_def)
      have f1: "\<forall>c \<in> set f. isDigit (ru c)" unfolding f_def using set_takeWhileD by fast
      have "starts isDigit f" unfolding f_def using True by (intro starts_while) simp_all
      then have f: "digits f" using f1 by (cases f) (simp_all add: digits_def)
      have "c \<noteq> CHR ''.''" if "c \<in> set i" for c using n(2) that by (auto simp: i_def digits_def isDigit_def split: if_splits)
      then have "takeWhile (\<lambda>c. c \<noteq> CHR ''.'') (i @ CHR ''.'' # f) = i" "dropWhile (\<lambda>c. c \<noteq> CHR ''.'') (i @ CHR ''.'' # f) = CHR ''.'' # f"
        by (simp_all add: takeWhile_tail dropWhile_append3)
      then have fl: "float_lit (i @ CHR ''.'' # f)" using i f by (simp add: float_lit_def)
      define x where "x = dropWhile (\<lambda>c. isDigit (ru c)) (tl s2)"
      have "s = (i @ CHR ''.'' # f) @ x" unfolding s r x_def using rr r by simp
      then have "fst (use_tok s FloatK x) = (FloatK, i @ CHR ''.'' # f)" by (simp only: use_tok_append fst_conv)
      moreover have "num_rest s = (FloatK, x)" unfolding num x_def using True False by presburger
      ultimately show ?thesis using fl by (simp add: lexical_def)
    next
      case nf: False
      have "fst (use_tok s IntK s2) = (IntK, i)" unfolding s by (simp only: use_tok_append fst_conv)
      moreover have "num_rest s = (IntK, s2)" unfolding num using nf False by presburger
      ultimately show ?thesis using i by (simp add: lexical_def)
    qed
  qed
qed

lemma lexical_next:
  assumes "s \<noteq> []"
  shows "lexical (fst (next_tok s))"
proof -
  have "lexical (Comment, takeWhile (\<lambda>c. ru c \<noteq> 0x0A) s)" if h: "HasPrefix s ''//''"
  proof -
    obtain r where "s = CHR ''/'' # CHR ''/'' # r" using h by (cases s; cases "tl s") auto
    then show ?thesis by (auto simp: lexical_def comment_lit_def dest: set_takeWhileD)
  qed
  moreover have "lexical (LowerID, takeWhile (\<lambda>c. isLowerRest (ru c)) s)" if "starts isLower s"
    using starts_while[OF that, of isLowerRest] by (auto simp: lexical_def lowerid_def isLowerRest_def dest: set_takeWhileD)
  moreover have "lexical (UpperID, takeWhile (\<lambda>c. isUpperRest (ru c)) s)" if "starts isUpper s"
    using starts_while[OF that, of isUpperRest] by (auto simp: lexical_def upperid_def isUpperRest_def dest: set_takeWhileD)
  moreover have "lexical (fst (use_tok s StringK (str_rest (tl s))))" if h: "starts ((=) 0x22) s"
  proof -
    obtain r where "s = CHR 0x22 # r" using h by (cases s) auto
    then show ?thesis using suffix_length_le[OF str_rest_suffix[of r]] by (simp add: lexical_def use_tok_def Suc_diff_le)
  qed
  moreover have "lexical (fst (use_tok s Arrow (drop 2 s)))" if h: "HasPrefix s ''->''"
  proof -
    obtain r where "s = CHR ''-'' # CHR 0x3E # r" using h by (cases s; cases "tl s") auto
    then show ?thesis by (simp add: lexical_def use_tok_def)
  qed
  moreover have "lexical (fst (use_tok s (punct_kind (ru (hd s))) (tl s)))"
    using assms punct_kind_shape by (cases s) (simp_all add: use_tok_def)
  ultimately show ?thesis using lexical_number[of s]
    unfolding next_tok_def by (simp add: use_tok_while) (simp add: lexical_def)
qed

lemma lexical_toks: "v \<in> set (toks s) \<Longrightarrow> lexical v"
proof (induction s rule: toks.induct)
  case (1 s)
  let ?s = "dropWhile (\<lambda>c. isSpace (ru c)) s"
  have "?s \<noteq> [] \<and> (v = fst (next_tok ?s) \<or> v \<in> set (toks (snd (next_tok ?s))))"
    using "1.prems" by (subst (asm) toks.simps) (simp add: Let_def split: if_splits)
  then show ?case using lexical_next "1.IH" by blast
qed

section \<open>Lines\<close>

lemma dropWhile_nl: "\<not> P (CHR 0x0A) \<Longrightarrow> dropWhile P (s @ CHR 0x0A # t) = dropWhile P s @ CHR 0x0A # t"
  by (induction s) auto

lemma str_rest_nl_app: "\<exists>r. \<forall>t. str_rest (s @ CHR 0x0A # t) = r @ CHR 0x0A # t"
proof (induction s rule: str_rest.induct)
  case 1
  show ?case by (rule exI[of _ "[]"]) simp
next
  case (2 c)
  show ?case
  proof (cases "c = CHR 0x0A")
    case True
    then show ?thesis by (intro exI[of _ "[c]"]) simp
  next
    case False
    then show ?thesis by (intro exI[of _ "[]"]) simp
  qed
next
  case (3 c d s)
  consider "c = CHR 0x0A" | "c \<noteq> CHR 0x0A" "c = CHR 0x5C" "d = CHR 0x0A" | "c \<noteq> CHR 0x0A" "c = CHR 0x5C" "d \<noteq> CHR 0x0A"
    | "c \<noteq> CHR 0x0A" "c \<noteq> CHR 0x5C" "c = CHR 0x22" | "c \<noteq> CHR 0x0A" "c \<noteq> CHR 0x5C" "c \<noteq> CHR 0x22" by blast
  then show ?case
  proof cases
    case 1
    then show ?thesis by (intro exI[of _ "c # d # s"]) simp
  next
    case 2
    then show ?thesis by (intro exI[of _ "d # s"]) simp
  next
    case t: 3
    then show ?thesis using "3.IH"(1) by simp
  next
    case 4
    then show ?thesis by (intro exI[of _ "d # s"]) simp
  next
    case t: 5
    then show ?thesis using "3.IH"(2) by simp
  qed
qed

abbreviation nl :: char where
  "nl \<equiv> CHR 0x0A"

lemma starts_nl: "\<not> P 0x0A \<Longrightarrow> starts P (s @ nl # t) = starts P s"
  by (cases s) auto

lemma tl_nl: "starts P s \<Longrightarrow> tl (s @ nl # t) = tl s @ nl # t"
  by (cases s) auto

lemma num_rest_nl: "\<exists>k r. \<forall>t. num_rest (s @ nl # t) = (k, r @ nl # t)"
proof -
  have nd: "\<not> isDigit 0x0A" by (simp add: isDigit_def)
  define neg where "neg = starts ((=) 0x2D) s"
  define s1 where "s1 = (if neg then tl s else s)"
  define s2 where "s2 = (if starts ((=) 0x30) s1 then tl s1 else dropWhile (\<lambda>c. isDigit (ru c)) s1)"
  have 1: "(if neg then tl (s @ nl # t) else s @ nl # t) = s1 @ nl # t" "starts ((=) 0x2D) (s @ nl # t) = neg" for t
    by (auto simp: starts_nl s1_def neg_def tl_nl)
  have 2: "(if starts ((=) 0x30) (s1 @ nl # t) then tl (s1 @ nl # t) else dropWhile (\<lambda>c. isDigit (ru c)) (s1 @ nl # t)) = s2 @ nl # t" for t
    by (auto simp: starts_nl s2_def tl_nl dropWhile_nl nd)
  have "num_rest (s @ nl # t) = (if neg \<and> \<not> starts isDigit (s1 @ nl # t) then (Invalid, s1 @ nl # t)
      else if starts ((=) 0x2E) (s2 @ nl # t) \<and> starts isDigit (tl (s2 @ nl # t)) then (FloatK, dropWhile (\<lambda>c. isDigit (ru c)) (tl (s2 @ nl # t)))
      else (IntK, s2 @ nl # t))" for t
    unfolding num_rest_def Let_def 1 2 ..
  moreover have "(if neg \<and> \<not> starts isDigit (s1 @ nl # t) then (Invalid, s1 @ nl # t)
      else if starts ((=) 0x2E) (s2 @ nl # t) \<and> starts isDigit (tl (s2 @ nl # t)) then (FloatK, dropWhile (\<lambda>c. isDigit (ru c)) (tl (s2 @ nl # t)))
      else (IntK, s2 @ nl # t)) = (if neg \<and> \<not> starts isDigit s1 then (Invalid, s1 @ nl # t)
      else if starts ((=) 0x2E) s2 \<and> starts isDigit (tl s2) then (FloatK, dropWhile (\<lambda>c. isDigit (ru c)) (tl s2) @ nl # t)
      else (IntK, s2 @ nl # t))" for t
    by (simp add: starts_nl nd) (auto simp: tl_nl starts_nl nd dropWhile_nl)
  ultimately have "num_rest (s @ nl # t) = (if neg \<and> \<not> starts isDigit s1 then (Invalid, s1 @ nl # t)
      else if starts ((=) 0x2E) s2 \<and> starts isDigit (tl s2) then (FloatK, dropWhile (\<lambda>c. isDigit (ru c)) (tl s2) @ nl # t)
      else (IntK, s2 @ nl # t))" for t by metis
  then show ?thesis by (cases "neg \<and> \<not> starts isDigit s1"; cases "starts ((=) 0x2E) s2 \<and> starts isDigit (tl s2)") auto
qed

lemma decode_nl:
  assumes "s \<noteq> []"
  shows "DecodeRune (s @ nl # t) = DecodeRune s" "snd (DecodeRune (s @ nl # t)) \<le> length s"
proof -
  let ?x = "s @ nl # t"
  show w: "snd (DecodeRune ?x) \<le> length s"
  proof (cases "0x80 \<le> byte_at ?x 0")
    case True
    have "byte_at ?x (length s) = 0x0A" by (simp add: byte_at_def)
    then show ?thesis using decode_bytes[OF True, of "length s"] by (cases "length s < snd (DecodeRune ?x)") auto
  next
    case False
    then obtain c r where "s = c # r" "ru c < 0x80" using assms by (cases s) (auto simp: byte_at_def)
    then show ?thesis by simp
  qed
  show "DecodeRune ?x = DecodeRune s" using decode_prefix[OF assms w] by simp
qed

lemma use_tok_nl: "\<exists>v. \<forall>t. use_tok (s @ nl # t) k (r @ nl # t) = (v, r @ nl # t)"
  by (simp add: use_tok_def)

lemma next_tok_nl:
  assumes "s \<noteq> []" "\<not> isSpace (ru (hd s))"
  shows "\<exists>v r. length r < length s \<and> (\<forall>t. next_tok (s @ nl # t) = (v, r @ nl # t))"
proof -
  have "\<exists>v r. \<forall>t. next_tok (s @ nl # t) = (v, r @ nl # t)"
  proof -
    have hp: "HasPrefix (s @ nl # t) ''//'' = HasPrefix s ''//''" "HasPrefix (s @ nl # t) ''->'' = HasPrefix s ''->''" for t
      using assms(1) by (cases s; cases "tl s"; simp)+
    have cl: "\<not> isDigit 0x0A" "\<not> isLower 0x0A" "\<not> isUpper 0x0A" "\<not> isLowerRest 0x0A" "\<not> isUpperRest 0x0A" by (simp_all add: rune_class_defs)
    obtain kn rn where num: "num_rest (s @ nl # t) = (kn, rn @ nl # t)" for t using num_rest_nl by blast
    obtain rs where str: "str_rest (tl s @ nl # t) = rs @ nl # t" for t using str_rest_nl_app by blast
    have low: "starts (\<lambda>r. r < 0x80) (s @ nl # t) = starts (\<lambda>r. r < 0x80) s" for t using assms(1) by (cases s) auto
    have hd: "hd (s @ nl # t) = hd s" "tl (s @ nl # t) = tl s @ nl # t" for t using assms(1) by (cases s; simp)+
    have arrow: "drop 2 (s @ nl # t) = drop 2 s @ nl # t" if "HasPrefix s ''->''" for t using that by (cases s; cases "tl s") auto
    have N: "next_tok (s @ nl # t) =
       (if HasPrefix s ''//'' then use_tok (s @ nl # t) Comment (dropWhile (\<lambda>c. ru c \<noteq> 0x0A) s @ nl # t)
        else if starts ((=) 0x22) s then use_tok (s @ nl # t) StringK (rs @ nl # t)
        else if HasPrefix s ''->'' then use_tok (s @ nl # t) Arrow (drop 2 s @ nl # t)
        else if starts (\<lambda>r. isDigit r \<or> r = 0x2D) s then use_tok (s @ nl # t) kn (rn @ nl # t)
        else if starts isLower s then use_tok (s @ nl # t) LowerID (dropWhile (\<lambda>c. isLowerRest (ru c)) s @ nl # t)
        else if starts isUpper s then use_tok (s @ nl # t) UpperID (dropWhile (\<lambda>c. isUpperRest (ru c)) s @ nl # t)
        else if starts (\<lambda>r. r < 0x80) s then use_tok (s @ nl # t) (punct_kind (ru (hd s))) (tl s @ nl # t)
        else ((Invalid, rune_string (fst (DecodeRune s))), drop (snd (DecodeRune s)) s @ nl # t))" for t
      using decode_nl[OF assms(1), of t] arrow[of t]
      unfolding next_tok_def hp num low hd str by (simp add: starts_nl cl dropWhile_nl)
    show ?thesis unfolding N use_tok_def
      by (cases "HasPrefix s ''//''"; cases "starts ((=) 0x22) s"; cases "HasPrefix s ''->''"; cases "starts (\<lambda>r. isDigit r \<or> r = 0x2D) s";
          cases "starts isLower s"; cases "starts isUpper s"; cases "starts (\<lambda>r. r < 0x80) s"; simp)
  qed
  then obtain v r where n: "next_tok (s @ nl # t) = (v, r @ nl # t)" for t by blast
  moreover have "length r < length s" using next_tok_less[of "s @ nl # []"] assms(1) n[of "[]"] by simp
  ultimately show ?thesis by blast
qed

text \<open>A source lexes line by line.\<close>

lemma toks_line: "toks (s @ nl # t) = toks (s @ [nl]) @ toks t"
proof (induction "length s" arbitrary: s rule: less_induct)
  case less
  define d where "d = dropWhile (\<lambda>c. isSpace (ru c)) s"
  have w: "white (takeWhile (\<lambda>c. isSpace (ru c)) s)" by (auto simp: white_def dest: set_takeWhileD)
  have s: "takeWhile (\<lambda>c. isSpace (ru c)) s @ d = s" by (simp add: d_def)
  have e: "toks (s @ x) = toks (d @ x)" for x using toks_white[OF w, of "d @ x"] unfolding append_assoc[symmetric] s .
  show ?case
  proof (cases "d = []")
    case True
    have "toks (nl # x) = toks x" for x using toks_white[of "[nl]" x] by simp
    then show ?thesis unfolding e True by simp
  next
    case False
    then have h: "\<not> isSpace (ru (hd d))" using hd_dropWhile[of "\<lambda>c. isSpace (ru c)" s] by (simp add: d_def)
    obtain v r where r: "length r < length d" "\<forall>x. next_tok (d @ nl # x) = (v, r @ nl # x)" using next_tok_nl[OF False h] by blast
    have n: "toks (d @ nl # x) = v # toks (r @ nl # x)" for x
    proof -
      have "\<not> isSpace (ru (hd (d @ nl # x)))" using h False by simp
      from toks_next[OF _ this] show ?thesis using r(2) by simp
    qed
    have "length d \<le> length s" unfolding d_def by (rule length_dropWhile_le)
    then have "length r < length s" using r(1) by linarith
    then have "toks (r @ nl # t) = toks (r @ [nl]) @ toks t" by (rule less)
    then show ?thesis unfolding e n by simp
  qed
qed

lemma lexes_line:
  assumes "toks (s @ [nl]) = vs"
  shows "lexes UNIV (s @ [nl]) vs"
  unfolding lexes_def
proof (intro allI impI)
  fix t
  show "toks ((s @ [nl]) @ t) = vs @ toks t" using toks_line[of s t] assms by (simp only: append_assoc append_Cons append_Nil)
qed

end
