(* ===== verification/Lang_Parser.thy ===== *)
theory Lang_Parser
  imports Lang_Words
begin

text \<open>
  The syntax tree and the parser of the Content Language (\<^verbatim>\<open>content/lang/ast.go\<close> and \<^verbatim>\<open>parser.go\<close>): a
  recursive descent over the tokens without the comments, contextual because the language has no
  reserved words. The state of the parser is the tokens still to read, \<^verbatim>\<open>toks[i:]\<close>; a syntax error is a
  value that names the position, what was wanted and the token found, and reading past the last
  token, which panics in Go, is the error \<open>RanOff\<close>. The wording of a Diagnostic's message is left out.

  The parser always answers, and never runs off the tokens; the tokens of a tree read back as that
  tree, up to positions, which is what the formatter and the decompiler rest on.
\<close>

section \<open>The syntax tree\<close>

record RequiresClause =
  rq_Pack :: string
  rq_PackPos :: Pos
  rq_Version :: u32
  rq_VersionPos :: Pos

record PackDecl =
  lp_Pos :: Pos
  lp_Name :: string
  lp_NamePos :: Pos
  lp_Requires :: "RequiresClause option"

record StringLit =
  sl_Pos :: Pos
  sl_Raw :: string
  sl_Value :: string

record FallbackDecl =
  fb_Pos :: Pos
  fb_Room :: string
  fb_RefPos :: Pos

record LangValue =
  lv_Kind :: Kind
  lv_Pos :: Pos
  lv_Raw :: string
  lv_Str :: string
  lv_Int :: int
  lv_Bool :: bool
  lv_BadEsc :: "(Pos \<times> string) option"

record FieldAssign =
  fa_Name :: string
  fa_NamePos :: Pos
  fa_Value :: LangValue

record ComponentDecl =
  cd_Pos :: Pos
  cd_Close :: Pos
  cd_Type :: string
  cd_TypePos :: Pos
  cd_Fields :: "FieldAssign list"
  cd_MultiLine :: bool

record DescDecl =
  dd_Pos :: Pos
  dd_Parts :: "StringLit list"
  dd_Value :: string
  dd_BadEsc :: "(Pos \<times> string) option"

record Sense =
  se_Name :: string
  se_Pos :: Pos

record ExitDecl =
  xd_Pos :: Pos
  xd_Direction :: string
  xd_DirPos :: Pos
  xd_ToZone :: string
  xd_ToRoom :: string
  xd_RefPos :: Pos
  xd_Perceives :: "Sense list"
  xd_PerceivesSet :: bool

datatype RoomItem = RDesc DescDecl | RExit ExitDecl | RComponent ComponentDecl

record RoomDecl =
  lr_Pos :: Pos
  lr_Close :: Pos
  lr_ID :: string
  lr_IDPos :: Pos
  lr_Title :: StringLit
  lr_Descs :: "DescDecl list"
  lr_Exits :: "ExitDecl list"
  lr_Components :: "ComponentDecl list"
  lr_Items :: "RoomItem list"

datatype ZoneItem = ZFallback FallbackDecl | ZComponent ComponentDecl | ZRoom RoomDecl

record ZoneDecl =
  lz_Pos :: Pos
  lz_Close :: Pos
  lz_ID :: string
  lz_IDPos :: Pos
  lz_Name :: StringLit
  lz_Fallbacks :: "FallbackDecl list"
  lz_Components :: "ComponentDecl list"
  lz_Rooms :: "RoomDecl list"
  lz_Items :: "ZoneItem list"

record RemoveDecl =
  rv_Pos :: Pos
  rv_Field :: string
  rv_Component :: string

datatype TemplateItem = TComponent ComponentDecl | TRemove RemoveDecl

record TemplateHead =
  th_Pos :: Pos
  th_Kind :: string
  th_Extends :: string
  th_RefPos :: Pos

record TemplateDecl =
  lt_Pos :: Pos
  lt_Close :: Pos
  lt_Name :: string
  lt_NamePos :: Pos
  lt_Heads :: "TemplateHead list"
  lt_Components :: "ComponentDecl list"
  lt_Removes :: "RemoveDecl list"
  lt_Items :: "TemplateItem list"

datatype Decl = DPack PackDecl | DZone ZoneDecl | DTemplate TemplateDecl

record SourceFile =
  sf_Path :: string
  sf_Src :: string
  sf_Decls :: "Decl list"
  sf_Comments :: "Token list"

section \<open>Errors and the parser's state\<close>

record errSyntax =
  es_pos :: Pos
  es_want :: string
  es_got :: Token

datatype perr = SyntaxErr errSyntax | RanOff

type_synonym 'a parsed = "perr + 'a \<times> Token list"

definition andThen :: "'a parsed \<Rightarrow> ('a \<Rightarrow> Token list \<Rightarrow> 'b parsed) \<Rightarrow> 'b parsed" where
  "andThen r f = (case r of Inl e \<Rightarrow> Inl e | Inr (a, ts) \<Rightarrow> f a ts)"

lemma andThen_cong [fundef_cong]:
  "r = r' \<Longrightarrow> (\<And>a ts. r' = Inr (a, ts) \<Longrightarrow> f a ts = g a ts) \<Longrightarrow> andThen r f = andThen r' g"
  by (auto simp: andThen_def split: sum.splits)

lemma andThen_simps [simp]: "andThen (Inl e) f = Inl e" "andThen (Inr (a, ts)) f = f a ts"
  by (simp_all add: andThen_def)

lemma andThen_Inr: "andThen r f = Inr x \<longleftrightarrow> (\<exists>a ts. r = Inr (a, ts) \<and> f a ts = Inr x)"
  by (auto simp: andThen_def split: sum.splits)

lemma andThen_Inl: "andThen r f = Inl e \<longleftrightarrow> r = Inl e \<or> (\<exists>a ts. r = Inr (a, ts) \<and> f a ts = Inl e)"
  by (auto simp: andThen_def split: sum.splits)

definition fail :: "string \<Rightarrow> Token list \<Rightarrow> 'a parsed" where
  "fail want ts = Inl (case ts of [] \<Rightarrow> RanOff | t # _ \<Rightarrow> SyntaxErr \<lparr>es_pos = tok_Pos t, es_want = want, es_got = t\<rparr>)"

definition failAt :: "Token \<Rightarrow> string \<Rightarrow> 'a parsed" where
  "failAt t want = Inl (SyntaxErr \<lparr>es_pos = tok_Pos t, es_want = want, es_got = t\<rparr>)"

definition atKind :: "Kind \<Rightarrow> Token list \<Rightarrow> bool" where
  "atKind k ts \<longleftrightarrow> (case ts of [] \<Rightarrow> False | t # _ \<Rightarrow> tok_Kind t = k)"

definition atWord :: "string \<Rightarrow> Token list \<Rightarrow> bool" where
  "atWord w ts \<longleftrightarrow> (case ts of [] \<Rightarrow> False | t # _ \<Rightarrow> tok_Kind t = LowerID \<and> tok_Text t = w)"

definition next_token :: "Token list \<Rightarrow> Token parsed" where
  "next_token ts = (case ts of [] \<Rightarrow> Inl RanOff | t # ts' \<Rightarrow> Inr (t, ts'))"

definition expect :: "Kind \<Rightarrow> string \<Rightarrow> Token list \<Rightarrow> Token parsed" where
  "expect k want ts = (if atKind k ts then next_token ts else fail want ts)"

lemma expect_Inr: "expect k want ts = Inr (t, ts') \<longleftrightarrow> ts = t # ts' \<and> tok_Kind t = k"
  by (auto simp: expect_def next_token_def fail_def atKind_def split: list.splits)

lemma next_token_Inr: "next_token ts = Inr (t, ts') \<longleftrightarrow> ts = t # ts'"
  by (auto simp: next_token_def split: list.splits)

lemma at_simps [simp]: "\<not> atKind k []" "\<not> atWord w []" "atKind k (t # ts) \<longleftrightarrow> tok_Kind t = k"
  "atWord w (t # ts) \<longleftrightarrow> tok_Kind t = LowerID \<and> tok_Text t = w"
  by (simp_all add: atKind_def atWord_def)

section \<open>Literals\<close>

definition HasSuffix :: "string \<Rightarrow> string \<Rightarrow> bool" where
  "HasSuffix s p \<longleftrightarrow> length p \<le> length s \<and> drop (length s - length p) s = p"

text \<open>The spelling of a literal without its quotes: \<^verbatim>\<open>TrimSuffix(TrimPrefix(raw, quote), quote)\<close>.\<close>

definition rawBody :: "string \<Rightarrow> string" where
  "rawBody raw =
     (let s = (if starts ((=) 0x22) raw then tl raw else raw)
      in if HasSuffix s [CHR 0x22] then butlast s else s)"

fun unescape :: "string \<Rightarrow> string" where
  "unescape [] = []"
| "unescape [c] = [c]"
| "unescape (c # d # s) =
     (if c \<noteq> CHR 0x5C then c # unescape (d # s)
      else (if d = CHR ''n'' then [CHR 0x0A] else if d = CHR 0x22 then [CHR 0x22] else if d = CHR 0x5C then [CHR 0x5C] else [CHR 0x5C, d])
        @ unescape s)"

definition decodeString :: "string \<Rightarrow> string" where
  "decodeString raw = unescape (rawBody raw)"

function badEscapeAt :: "nat \<Rightarrow> string \<Rightarrow> (nat \<times> string) option" where
  "badEscapeAt col s =
     (if s = [] then None
      else let (r, n) = DecodeRune s in
        if r \<noteq> ru (CHR 0x5C) \<or> length s \<le> n then badEscapeAt (col + 1) (drop n s)
        else let (esc, en) = DecodeRune (drop n s) in
          if esc = ru (CHR ''n'') \<or> esc = ru (CHR 0x22) \<or> esc = ru (CHR 0x5C) then badEscapeAt (col + 2) (drop (n + en) s)
          else Some (col, CHR 0x5C # rune_string esc))"
  by pat_completeness auto
termination
proof (relation "measure (length \<circ> snd)", goal_cases)
  case (2 col s p r n)
  then have "0 < n" using width_pos[of s] by (metis snd_conv)
  then show ?case using \<open>s \<noteq> []\<close> by simp
next
  case (3 col s p r n q esc en)
  then have "0 < n" using width_pos[of s] by (metis snd_conv)
  then show ?case using \<open>s \<noteq> []\<close> by simp
qed simp

declare badEscapeAt.simps [simp del]

definition badEscape :: "StringLit \<Rightarrow> (Pos \<times> string) option" where
  "badEscape lit = map_option (\<lambda>(col, esc). (\<lparr>p_Line = p_Line (sl_Pos lit), p_Col = col\<rparr>, esc))
     (badEscapeAt (p_Col (sl_Pos lit) + 1) (rawBody (sl_Raw lit)))"

definition expectString :: "string \<Rightarrow> Token list \<Rightarrow> StringLit parsed" where
  "expectString want ts =
     (case ts of [] \<Rightarrow> Inl RanOff | t # ts' \<Rightarrow>
        if tok_Kind t \<noteq> StringK then fail want ts
        else if length (tok_Text t) < 2 \<or> \<not> HasSuffix (tok_Text t) [CHR 0x22] then failAt t ''a closing quote''
        else Inr (\<lparr>sl_Pos = tok_Pos t, sl_Raw = tok_Text t, sl_Value = decodeString (tok_Text t)\<rparr>, ts'))"

lemma expectString_Inr: "expectString want ts = Inr (lit, ts') \<longleftrightarrow> (\<exists>t. ts = t # ts' \<and> tok_Kind t = StringK \<and> 2 \<le> length (tok_Text t)
    \<and> HasSuffix (tok_Text t) [CHR 0x22] \<and> lit = \<lparr>sl_Pos = tok_Pos t, sl_Raw = tok_Text t, sl_Value = decodeString (tok_Text t)\<rparr>)"
  by (auto simp: expectString_def fail_def failAt_def not_less split: list.splits)

text \<open>\<^verbatim>\<open>strconv.ParseUint\<close> and \<^verbatim>\<open>ParseInt\<close> with base 10.\<close>

definition ParseUint :: "nat \<Rightarrow> string \<Rightarrow> nat option" where
  "ParseUint bits s = (if digits s \<and> parse_digits 0 s < 2 ^ bits then Some (parse_digits 0 s) else None)"

definition ParseInt :: "nat \<Rightarrow> string \<Rightarrow> int option" where
  "ParseInt bits s =
     (let neg = starts ((=) 0x2D) s; body = (if neg \<or> starts ((=) 0x2B) s then tl s else s); n = int (parse_digits 0 body) in
      if \<not> digits body then None
      else if neg then (if n \<le> 2 ^ (bits - 1) then Some (- n) else None)
      else (if n < 2 ^ (bits - 1) then Some n else None))"

section \<open>The grammar\<close>

subsection \<open>References\<close>

function packRefLoop :: "string \<Rightarrow> Token list \<Rightarrow> string parsed" where
  "packRefLoop acc ts =
     (if atKind Dot ts then andThen (expect LowerID ''a pack name segment'' (tl ts)) (\<lambda>seg ts'. packRefLoop (acc @ ''.'' @ tok_Text seg) ts')
      else Inr (acc, ts))"
  by pat_completeness auto
termination
  by (relation "measure (length \<circ> snd)") (auto simp: expect_Inr dest: arg_cong[where f = length])

definition parsePackRef :: "Token list \<Rightarrow> (string \<times> Pos) parsed" where
  "parsePackRef ts = andThen (expect LowerID ''a pack name'' ts) (\<lambda>first ts1.
     andThen (packRefLoop (tok_Text first) ts1) (\<lambda>name ts2. Inr ((name, tok_Pos first), ts2)))"

text \<open>The loop shared by \<^verbatim>\<open>parseTemplateRef\<close> and \<^verbatim>\<open>parseComponentRef\<close>: segments, each followed by a dot.\<close>

function refLoop :: "string \<Rightarrow> string \<Rightarrow> Token list \<Rightarrow> string parsed" where
  "refLoop want acc ts =
     (if atKind LowerID ts then
        andThen (next_token ts) (\<lambda>seg ts1. if \<not> atKind Dot ts1 then fail want ts1 else refLoop want (acc @ tok_Text seg @ ''.'') (tl ts1))
      else Inr (acc, ts))"
  by pat_completeness auto
termination
  by (relation "measure (length \<circ> snd \<circ> snd)") (auto simp: next_token_Inr)

definition parseTemplateRef :: "Token list \<Rightarrow> (string \<times> Pos) parsed" where
  "parseTemplateRef ts = (case ts of [] \<Rightarrow> Inl RanOff | t # _ \<Rightarrow>
     andThen (refLoop ''\".\" before a PascalCase name'' '''' ts) (\<lambda>acc ts1.
     andThen (expect UpperID ''a PascalCase Template name'' ts1) (\<lambda>name ts2. Inr ((acc @ tok_Text name, tok_Pos t), ts2))))"

definition parseComponentRef :: "Token list \<Rightarrow> (string \<times> Pos) parsed" where
  "parseComponentRef ts = (case ts of [] \<Rightarrow> Inl RanOff | t # _ \<Rightarrow>
     if \<not> atKind LowerID ts then fail ''a fully qualified Component type'' ts
     else andThen (refLoop ''\".\" before a PascalCase type name'' '''' ts) (\<lambda>acc ts1.
       andThen (expect UpperID ''a PascalCase Component type name'' ts1) (\<lambda>name ts2. Inr ((acc @ tok_Text name, tok_Pos t), ts2))))"

subsection \<open>Components\<close>

definition value0 :: LangValue where
  "value0 = \<lparr>lv_Kind = EOF, lv_Pos = \<lparr>p_Line = 0, p_Col = 0\<rparr>, lv_Raw = '''', lv_Str = '''', lv_Int = 0, lv_Bool = False, lv_BadEsc = None\<rparr>"

definition parseValue :: "Token list \<Rightarrow> LangValue parsed" where
  "parseValue ts = (case ts of [] \<Rightarrow> Inl RanOff | t # ts' \<Rightarrow>
     if tok_Kind t = StringK then
       andThen (expectString ''a value'' ts) (\<lambda>lit ts1.
         Inr (value0\<lparr>lv_Kind := StringK, lv_Pos := sl_Pos lit, lv_Raw := sl_Raw lit, lv_Str := sl_Value lit, lv_BadEsc := badEscape lit\<rparr>, ts1))
     else if tok_Kind t = IntK then
       (case ParseInt 64 (tok_Text t) of None \<Rightarrow> failAt t ''an int64''
        | Some n \<Rightarrow> Inr (value0\<lparr>lv_Kind := IntK, lv_Pos := tok_Pos t, lv_Raw := tok_Text t, lv_Int := n\<rparr>, ts'))
     else if tok_Kind t = FloatK then Inr (value0\<lparr>lv_Kind := FloatK, lv_Pos := tok_Pos t, lv_Raw := tok_Text t\<rparr>, ts')
     else if tok_Kind t = LowerID \<and> (tok_Text t = ''true'' \<or> tok_Text t = ''false'') then
       Inr (value0\<lparr>lv_Kind := LowerID, lv_Pos := tok_Pos t, lv_Raw := tok_Text t, lv_Bool := (tok_Text t = ''true'')\<rparr>, ts')
     else fail ''a string, an integer, or true/false'' ts)"

lemma parseValue_less: "parseValue ts = Inr (v, ts') \<Longrightarrow> length ts' < length ts"
  by (auto simp: parseValue_def andThen_Inr expectString_Inr fail_def failAt_def split: list.splits if_splits option.splits)

definition parseField :: "Token list \<Rightarrow> FieldAssign parsed" where
  "parseField ts = andThen (expect LowerID ''a field name'' ts) (\<lambda>name ts1. andThen (expect Colon ''\":\"'' ts1) (\<lambda>_ ts2.
     andThen (parseValue ts2) (\<lambda>v ts3. Inr (\<lparr>fa_Name = tok_Text name, fa_NamePos = tok_Pos name, fa_Value = v\<rparr>, ts3))))"

lemma parseField_less: "parseField ts = Inr (v, ts') \<Longrightarrow> length ts' < length ts"
  by (auto simp: parseField_def andThen_Inr expect_Inr dest!: parseValue_less)

function fieldsLoop :: "FieldAssign list \<Rightarrow> Token list \<Rightarrow> FieldAssign list parsed" where
  "fieldsLoop acc ts =
     (if atKind RBrace ts then Inr (acc, ts) else if atKind EOF ts then fail ''\"}\"'' ts
      else andThen (parseField ts) (\<lambda>f ts'. fieldsLoop (acc @ [f]) ts'))"
  by pat_completeness auto
termination
  by (relation "measure (length \<circ> snd)") (auto dest: parseField_less)

definition parseComponent :: "Token list \<Rightarrow> ComponentDecl parsed" where
  "parseComponent ts = andThen (next_token ts) (\<lambda>kw ts1. andThen (parseComponentRef ts1) (\<lambda>(ref, refPos) ts2.
     andThen (expect LBrace ''\"{\"'' ts2) (\<lambda>op ts3. andThen (fieldsLoop [] ts3) (\<lambda>fs ts4. andThen (next_token ts4) (\<lambda>closing ts5.
       Inr (\<lparr>cd_Pos = tok_Pos kw, cd_Close = tok_Pos closing, cd_Type = ref, cd_TypePos = refPos, cd_Fields = fs,
         cd_MultiLine = (p_Line (tok_Pos closing) \<noteq> p_Line (tok_Pos op))\<rparr>, ts5))))))"

declare packRefLoop.simps [simp del] refLoop.simps [simp del] fieldsLoop.simps [simp del]

text \<open>What a parser leaves is a proper tail of what it was given.\<close>

lemma packRefLoop_le: "packRefLoop acc ts = Inr (a, ts') \<Longrightarrow> length ts' \<le> length ts"
proof (induction acc ts rule: packRefLoop.induct)
  case (1 acc ts)
  show ?case
  proof (cases "atKind Dot ts")
    case True
    then obtain seg ts1 where e: "expect LowerID ''a pack name segment'' (tl ts) = Inr (seg, ts1)" "packRefLoop (acc @ ''.'' @ tok_Text seg) ts1 = Inr (a, ts')"
      using "1.prems" unfolding packRefLoop.simps[of acc ts] by (auto simp: andThen_Inr)
    from "1.IH"[OF True e] show ?thesis using e(1) by (cases ts) (auto simp: expect_Inr)
  qed (use "1.prems" in \<open>simp add: packRefLoop.simps\<close>)
qed

lemma refLoop_le: "refLoop want acc ts = Inr (a, ts') \<Longrightarrow> length ts' \<le> length ts"
proof (induction want acc ts rule: refLoop.induct)
  case (1 want acc ts)
  show ?case
  proof (cases "atKind LowerID ts")
    case True
    then obtain seg ts1 where e: "next_token ts = Inr (seg, ts1)" "\<not> \<not> atKind Dot ts1" "refLoop want (acc @ tok_Text seg @ ''.'') (tl ts1) = Inr (a, ts')"
      using "1.prems" unfolding refLoop.simps[of want acc ts] by (auto simp: andThen_Inr fail_def split: if_splits)
    from "1.IH"[OF True e] show ?thesis using e(1) by (simp add: next_token_Inr)
  qed (use "1.prems" in \<open>simp add: refLoop.simps\<close>)
qed

lemma fieldsLoop_le: "fieldsLoop acc ts = Inr (a, ts') \<Longrightarrow> length ts' \<le> length ts"
proof (induction acc ts rule: fieldsLoop.induct)
  case (1 acc ts)
  show ?case
  proof (cases "atKind RBrace ts \<or> atKind EOF ts")
    case False
    then obtain f ts1 where e: "parseField ts = Inr (f, ts1)" "fieldsLoop (acc @ [f]) ts1 = Inr (a, ts')"
      using "1.prems" unfolding fieldsLoop.simps[of acc ts] by (auto simp: andThen_Inr)
    from "1.IH"[OF _ _ e] show ?thesis using parseField_less[OF e(1)] False by simp
  qed (use "1.prems" in \<open>auto simp: fieldsLoop.simps fail_def split: if_splits\<close>)
qed

lemma ref_less: "parsePackRef ts = Inr (a, ts') \<Longrightarrow> length ts' < length ts" "parseTemplateRef ts = Inr (b, ts') \<Longrightarrow> length ts' < length ts"
  "parseComponentRef ts = Inr (c, ts') \<Longrightarrow> length ts' < length ts"
  by (auto simp: parsePackRef_def parseTemplateRef_def parseComponentRef_def andThen_Inr expect_Inr fail_def
      split: list.splits if_splits dest!: packRefLoop_le refLoop_le)

lemma parseComponent_less: "parseComponent ts = Inr (c, ts') \<Longrightarrow> length ts' < length ts"
  by (auto simp: parseComponent_def andThen_Inr expect_Inr next_token_Inr dest!: fieldsLoop_le ref_less(3))

subsection \<open>Packs\<close>

definition parsePack :: "Token list \<Rightarrow> PackDecl parsed" where
  "parsePack ts = andThen (next_token ts) (\<lambda>kw ts1. andThen (parsePackRef ts1) (\<lambda>(name, namePos) ts2.
     let d = \<lparr>lp_Pos = tok_Pos kw, lp_Name = name, lp_NamePos = namePos, lp_Requires = None\<rparr> in
     if atWord ''requires'' ts2 then
       andThen (parsePackRef (tl ts2)) (\<lambda>(rp, rpPos) ts3. andThen (expect At ''\"@\"'' ts3) (\<lambda>_ ts4.
       andThen (expect IntK ''a version number'' ts4) (\<lambda>v ts5.
         case ParseUint 32 (tok_Text v) of None \<Rightarrow> failAt v ''a version number''
         | Some n \<Rightarrow> Inr (d\<lparr>lp_Requires := Some \<lparr>rq_Pack = rp, rq_PackPos = rpPos, rq_Version = of_nat n, rq_VersionPos = tok_Pos v\<rparr>\<rparr>, ts5))))
     else Inr (d, ts2)))"

subsection \<open>Rooms\<close>

definition parseFallback :: "Token list \<Rightarrow> FallbackDecl parsed" where
  "parseFallback ts = andThen (next_token ts) (\<lambda>kw ts1. andThen (expect LowerID ''a Room'' ts1) (\<lambda>i ts2.
     Inr (\<lparr>fb_Pos = tok_Pos kw, fb_Room = tok_Text i, fb_RefPos = tok_Pos i\<rparr>, ts2)))"

function literals :: "StringLit list \<Rightarrow> Token list \<Rightarrow> StringLit list parsed" where
  "literals acc ts = (if atKind StringK ts then andThen (expectString ''a description'' ts) (\<lambda>lit ts'. literals (acc @ [lit]) ts') else Inr (acc, ts))"
  by pat_completeness auto
termination
  by (relation "measure (length \<circ> snd)") (auto simp: expectString_Inr)

definition strings_Join :: "string list \<Rightarrow> string \<Rightarrow> string" where
  "strings_Join xs sep = (case xs of [] \<Rightarrow> '''' | x # ys \<Rightarrow> x @ concat (map (\<lambda>y. sep @ y) ys))"

definition parseDesc :: "Token list \<Rightarrow> DescDecl parsed" where
  "parseDesc ts = andThen (next_token ts) (\<lambda>kw ts1. andThen (expectString ''a description'' ts1) (\<lambda>first ts2.
     andThen (literals [first] ts2) (\<lambda>parts ts3.
       Inr (\<lparr>dd_Pos = tok_Pos kw, dd_Parts = parts, dd_Value = strings_Join (map sl_Value parts) '' '',
         dd_BadEsc = (case List.map_filter badEscape parts of [] \<Rightarrow> None | b # _ \<Rightarrow> Some b)\<rparr>, ts3))))"

function sensesLoop :: "Sense list \<Rightarrow> Token list \<Rightarrow> Sense list parsed" where
  "sensesLoop acc ts = (if atKind Comma ts then andThen (expect LowerID ''a sense'' (tl ts)) (\<lambda>s ts'. sensesLoop (acc @ [\<lparr>se_Name = tok_Text s, se_Pos = tok_Pos s\<rparr>]) ts')
     else Inr (acc, ts))"
  by pat_completeness auto
termination
  by (relation "measure (length \<circ> snd)") (auto simp: expect_Inr dest: arg_cong[where f = length])

declare literals.simps [simp del] sensesLoop.simps [simp del]

lemma literals_le: "literals acc ts = Inr (a, ts') \<Longrightarrow> length ts' \<le> length ts"
proof (induction acc ts rule: literals.induct)
  case (1 acc ts)
  show ?case
  proof (cases "atKind StringK ts")
    case True
    then obtain l ts1 where e: "expectString ''a description'' ts = Inr (l, ts1)" "literals (acc @ [l]) ts1 = Inr (a, ts')"
      using "1.prems" unfolding literals.simps[of acc ts] by (auto simp: andThen_Inr)
    from "1.IH"[OF True e] show ?thesis using e(1) by (auto simp: expectString_Inr)
  qed (use "1.prems" in \<open>simp add: literals.simps\<close>)
qed

lemma sensesLoop_le: "sensesLoop acc ts = Inr (a, ts') \<Longrightarrow> length ts' \<le> length ts"
proof (induction acc ts rule: sensesLoop.induct)
  case (1 acc ts)
  show ?case
  proof (cases "atKind Comma ts")
    case True
    then obtain l ts1 where e: "expect LowerID ''a sense'' (tl ts) = Inr (l, ts1)" "sensesLoop (acc @ [\<lparr>se_Name = tok_Text l, se_Pos = tok_Pos l\<rparr>]) ts1 = Inr (a, ts')"
      using "1.prems" unfolding sensesLoop.simps[of acc ts] by (auto simp: andThen_Inr)
    from "1.IH"[OF True e] show ?thesis using e(1) by (cases ts) (auto simp: expect_Inr)
  qed (use "1.prems" in \<open>simp add: sensesLoop.simps\<close>)
qed

text \<open>One \<^verbatim>\<open>perceives\<close> clause, after its keyword, and the loop over the clauses.\<close>

definition perceivesClause :: "ExitDecl \<Rightarrow> Token list \<Rightarrow> ExitDecl parsed" where
  "perceivesClause e ts = andThen (expect LBracket ''\"[\"'' ts) (\<lambda>_ ts1. andThen (expect LowerID ''a sense'' ts1) (\<lambda>s ts2.
     andThen (sensesLoop (xd_Perceives e @ [\<lparr>se_Name = tok_Text s, se_Pos = tok_Pos s\<rparr>]) ts2) (\<lambda>ss ts3.
     andThen (expect RBracket ''\"]\"'' ts3) (\<lambda>_ ts4. Inr (e\<lparr>xd_PerceivesSet := True, xd_Perceives := ss\<rparr>, ts4)))))"

lemma perceivesClause_less: "perceivesClause e ts = Inr (e', ts') \<Longrightarrow> length ts' < length ts"
  by (auto simp: perceivesClause_def andThen_Inr expect_Inr dest!: sensesLoop_le)

function perceivesLoop :: "ExitDecl \<Rightarrow> Token list \<Rightarrow> ExitDecl parsed" where
  "perceivesLoop e ts = (if atWord ''perceives'' ts then andThen (perceivesClause e (tl ts)) perceivesLoop else Inr (e, ts))"
  by pat_completeness auto
termination
proof (relation "measure (length \<circ> snd)", goal_cases)
  case (2 e ts e' ts')
  then show ?case using perceivesClause_less[of e "tl ts" e' ts'] by (cases ts) auto
qed simp

declare perceivesLoop.simps [simp del]

lemma perceivesLoop_le: "perceivesLoop e ts = Inr (a, ts') \<Longrightarrow> length ts' \<le> length ts"
proof (induction e ts rule: perceivesLoop.induct)
  case (1 e ts)
  show ?case
  proof (cases "atWord ''perceives'' ts")
    case True
    then obtain l ts1 where e: "perceivesClause e (tl ts) = Inr (l, ts1)" "perceivesLoop l ts1 = Inr (a, ts')"
      using "1.prems" unfolding perceivesLoop.simps[of e ts] by (auto simp: andThen_Inr)
    from "1.IH"[OF True e] show ?thesis using perceivesClause_less[OF e(1)] by (cases ts) auto
  qed (use "1.prems" in \<open>simp add: perceivesLoop.simps\<close>)
qed

text \<open>What may follow the first name of a target: the Room of another Zone, then the clauses.\<close>

definition exitRest :: "ExitDecl \<Rightarrow> Token list \<Rightarrow> ExitDecl parsed" where
  "exitRest e ts =
     (if atKind Dot ts then
        andThen (expect LowerID ''a Room'' (tl ts)) (\<lambda>r ts'. perceivesLoop (e\<lparr>xd_ToZone := xd_ToRoom e, xd_ToRoom := tok_Text r\<rparr>) ts')
      else perceivesLoop e ts)"

definition parseExit :: "Token list \<Rightarrow> ExitDecl parsed" where
  "parseExit ts = andThen (next_token ts) (\<lambda>kw ts1. andThen (expect LowerID ''a Direction'' ts1) (\<lambda>dir ts2.
     andThen (expect Arrow ''\"->\"'' ts2) (\<lambda>_ ts3. andThen (expect LowerID ''a Room'' ts3) (\<lambda>target ts4.
       exitRest \<lparr>xd_Pos = tok_Pos kw, xd_Direction = tok_Text dir, xd_DirPos = tok_Pos dir, xd_ToZone = '''', xd_ToRoom = tok_Text target,
         xd_RefPos = tok_Pos target, xd_Perceives = [], xd_PerceivesSet = False\<rparr> ts4))))"

lemma room_item_less: "parseFallback ts = Inr (a, ts') \<Longrightarrow> length ts' < length ts" "parseDesc ts = Inr (b, ts') \<Longrightarrow> length ts' < length ts"
  by (auto simp: parseFallback_def parseDesc_def andThen_Inr expect_Inr next_token_Inr expectString_Inr dest!: literals_le)

lemma exitRest_le: "exitRest e ts = Inr (c, ts') \<Longrightarrow> length ts' \<le> length ts"
  by (cases ts) (auto simp: exitRest_def andThen_Inr expect_Inr split: if_splits dest!: perceivesLoop_le)

lemma parseExit_less: "parseExit ts = Inr (c, ts') \<Longrightarrow> length ts' < length ts"
  by (auto simp: parseExit_def andThen_Inr expect_Inr next_token_Inr dest!: exitRest_le)

text \<open>A Room's items, each added to its own list and to the list in source order.\<close>

definition parseRoomItem :: "Token list \<Rightarrow> RoomItem parsed" where
  "parseRoomItem ts =
     (if atWord ''desc'' ts then andThen (parseDesc ts) (\<lambda>d ts'. Inr (RDesc d, ts'))
      else if atWord ''exit'' ts then andThen (parseExit ts) (\<lambda>e ts'. Inr (RExit e, ts'))
      else if atWord ''component'' ts then andThen (parseComponent ts) (\<lambda>c ts'. Inr (RComponent c, ts'))
      else fail ''\"desc\", \"exit\", \"component\", or \"}\"'' ts)"

definition addRoomItem :: "RoomItem \<Rightarrow> RoomDecl \<Rightarrow> RoomDecl" where
  "addRoomItem it r = (case it of
       RDesc d \<Rightarrow> r\<lparr>lr_Descs := lr_Descs r @ [d], lr_Items := lr_Items r @ [it]\<rparr>
     | RExit e \<Rightarrow> r\<lparr>lr_Exits := lr_Exits r @ [e], lr_Items := lr_Items r @ [it]\<rparr>
     | RComponent c \<Rightarrow> r\<lparr>lr_Components := lr_Components r @ [c], lr_Items := lr_Items r @ [it]\<rparr>)"

lemma parseRoomItem_less: "parseRoomItem ts = Inr (a, ts') \<Longrightarrow> length ts' < length ts"
  by (auto simp: parseRoomItem_def andThen_Inr fail_def split: if_splits dest!: room_item_less parseExit_less parseComponent_less)

function roomItems :: "RoomDecl \<Rightarrow> Token list \<Rightarrow> RoomDecl parsed" where
  "roomItems b ts =
     (if atKind RBrace ts then Inr (b, ts) else if atKind EOF ts then fail ''\"}\"'' ts
      else andThen (parseRoomItem ts) (\<lambda>it ts'. roomItems (addRoomItem it b) ts'))"
  by pat_completeness auto
termination
  by (relation "measure (length \<circ> snd)") (auto dest: parseRoomItem_less)

declare roomItems.simps [simp del]

lemma roomItems_le: "roomItems b ts = Inr (a, ts') \<Longrightarrow> length ts' \<le> length ts"
proof (induction b ts rule: roomItems.induct)
  case (1 b ts)
  show ?case
  proof (cases "atKind RBrace ts \<or> atKind EOF ts")
    case False
    then obtain it ts1 where e: "parseRoomItem ts = Inr (it, ts1)" "roomItems (addRoomItem it b) ts1 = Inr (a, ts')"
      using "1.prems" unfolding roomItems.simps[of b ts] by (auto simp: andThen_Inr)
    from "1.IH"[OF _ _ e] show ?thesis using parseRoomItem_less[OF e(1)] False by simp
  qed (use "1.prems" in \<open>auto simp: roomItems.simps fail_def split: if_splits\<close>)
qed

definition parseRoom :: "Token list \<Rightarrow> RoomDecl parsed" where
  "parseRoom ts = andThen (next_token ts) (\<lambda>kw ts1. andThen (expect LowerID ''a Room id'' ts1) (\<lambda>i ts2.
     andThen (expectString ''a Room title'' ts2) (\<lambda>title ts3. andThen (expect LBrace ''\"{\"'' ts3) (\<lambda>_ ts4.
     andThen (roomItems \<lparr>lr_Pos = tok_Pos kw, lr_Close = \<lparr>p_Line = 0, p_Col = 0\<rparr>, lr_ID = tok_Text i, lr_IDPos = tok_Pos i, lr_Title = title,
       lr_Descs = [], lr_Exits = [], lr_Components = [], lr_Items = []\<rparr> ts4) (\<lambda>r ts5.
     andThen (next_token ts5) (\<lambda>close ts6. Inr (r\<lparr>lr_Close := tok_Pos close\<rparr>, ts6)))))))"

lemma parseRoom_less: "parseRoom ts = Inr (c, ts') \<Longrightarrow> length ts' < length ts"
  by (auto simp: parseRoom_def andThen_Inr expect_Inr next_token_Inr expectString_Inr dest!: roomItems_le)

subsection \<open>Zones\<close>

definition parseZoneItem :: "Token list \<Rightarrow> ZoneItem parsed" where
  "parseZoneItem ts =
     (if atWord ''fallback'' ts then andThen (parseFallback ts) (\<lambda>f ts'. Inr (ZFallback f, ts'))
      else if atWord ''component'' ts then andThen (parseComponent ts) (\<lambda>c ts'. Inr (ZComponent c, ts'))
      else if atWord ''room'' ts then andThen (parseRoom ts) (\<lambda>r ts'. Inr (ZRoom r, ts'))
      else fail ''\"fallback\", \"component\", \"room\", or \"}\"'' ts)"

definition addZoneItem :: "ZoneItem \<Rightarrow> ZoneDecl \<Rightarrow> ZoneDecl" where
  "addZoneItem it z = (case it of
       ZFallback f \<Rightarrow> z\<lparr>lz_Fallbacks := lz_Fallbacks z @ [f], lz_Items := lz_Items z @ [it]\<rparr>
     | ZComponent c \<Rightarrow> z\<lparr>lz_Components := lz_Components z @ [c], lz_Items := lz_Items z @ [it]\<rparr>
     | ZRoom r \<Rightarrow> z\<lparr>lz_Rooms := lz_Rooms z @ [r], lz_Items := lz_Items z @ [it]\<rparr>)"

lemma parseZoneItem_less: "parseZoneItem ts = Inr (a, ts') \<Longrightarrow> length ts' < length ts"
  by (auto simp: parseZoneItem_def andThen_Inr fail_def split: if_splits dest!: room_item_less parseRoom_less parseComponent_less)

function zoneItems :: "ZoneDecl \<Rightarrow> Token list \<Rightarrow> ZoneDecl parsed" where
  "zoneItems b ts =
     (if atKind RBrace ts then Inr (b, ts) else if atKind EOF ts then fail ''\"}\"'' ts
      else andThen (parseZoneItem ts) (\<lambda>it ts'. zoneItems (addZoneItem it b) ts'))"
  by pat_completeness auto
termination
  by (relation "measure (length \<circ> snd)") (auto dest: parseZoneItem_less)

declare zoneItems.simps [simp del]

lemma zoneItems_le: "zoneItems b ts = Inr (a, ts') \<Longrightarrow> length ts' \<le> length ts"
proof (induction b ts rule: zoneItems.induct)
  case (1 b ts)
  show ?case
  proof (cases "atKind RBrace ts \<or> atKind EOF ts")
    case False
    then obtain it ts1 where e: "parseZoneItem ts = Inr (it, ts1)" "zoneItems (addZoneItem it b) ts1 = Inr (a, ts')"
      using "1.prems" unfolding zoneItems.simps[of b ts] by (auto simp: andThen_Inr)
    from "1.IH"[OF _ _ e] show ?thesis using parseZoneItem_less[OF e(1)] False by simp
  qed (use "1.prems" in \<open>auto simp: zoneItems.simps fail_def split: if_splits\<close>)
qed

definition parseZone :: "Token list \<Rightarrow> ZoneDecl parsed" where
  "parseZone ts = andThen (next_token ts) (\<lambda>kw ts1. andThen (expect LowerID ''a Zone id'' ts1) (\<lambda>i ts2.
     andThen (expectString ''a Zone name'' ts2) (\<lambda>name ts3. andThen (expect LBrace ''\"{\"'' ts3) (\<lambda>_ ts4.
     andThen (zoneItems \<lparr>lz_Pos = tok_Pos kw, lz_Close = \<lparr>p_Line = 0, p_Col = 0\<rparr>, lz_ID = tok_Text i, lz_IDPos = tok_Pos i, lz_Name = name,
       lz_Fallbacks = [], lz_Components = [], lz_Rooms = [], lz_Items = []\<rparr> ts4) (\<lambda>z ts5.
     andThen (next_token ts5) (\<lambda>close ts6. Inr (z\<lparr>lz_Close := tok_Pos close\<rparr>, ts6)))))))"

lemma parseZone_less: "parseZone ts = Inr (c, ts') \<Longrightarrow> length ts' < length ts"
  by (auto simp: parseZone_def andThen_Inr expect_Inr next_token_Inr expectString_Inr dest!: zoneItems_le)

subsection \<open>Templates\<close>

definition parseHead :: "Token list \<Rightarrow> TemplateHead parsed" where
  "parseHead ts = andThen (next_token ts) (\<lambda>head ts1.
     if tok_Text head = ''kind'' then
       andThen (expect LowerID ''\"entity\", \"item\", or \"behavior\"'' ts1) (\<lambda>k ts2.
         if tok_Text k \<notin> {''entity'', ''item'', ''behavior''} then failAt k ''\"entity\", \"item\", or \"behavior\"''
         else Inr (\<lparr>th_Pos = tok_Pos head, th_Kind = tok_Text k, th_Extends = '''', th_RefPos = tok_Pos k\<rparr>, ts2))
     else andThen (parseTemplateRef ts1) (\<lambda>(ref, refPos) ts2.
         Inr (\<lparr>th_Pos = tok_Pos head, th_Kind = '''', th_Extends = ref, th_RefPos = refPos\<rparr>, ts2)))"

lemma parseHead_less: "parseHead ts = Inr (h, ts') \<Longrightarrow> length ts' < length ts"
  by (auto simp: parseHead_def andThen_Inr expect_Inr next_token_Inr failAt_def split: if_splits dest!: ref_less)

function headsLoop :: "TemplateHead list \<Rightarrow> Token list \<Rightarrow> TemplateHead list parsed" where
  "headsLoop acc ts = (if atWord ''kind'' ts \<or> atWord ''extends'' ts then andThen (parseHead ts) (\<lambda>h ts'. headsLoop (acc @ [h]) ts') else Inr (acc, ts))"
  by pat_completeness auto
termination
  by (relation "measure (length \<circ> snd)") (auto dest: parseHead_less)

declare headsLoop.simps [simp del]

lemma headsLoop_le: "headsLoop acc ts = Inr (a, ts') \<Longrightarrow> length ts' \<le> length ts"
proof (induction acc ts rule: headsLoop.induct)
  case (1 acc ts)
  show ?case
  proof (cases "atWord ''kind'' ts \<or> atWord ''extends'' ts")
    case True
    then obtain h ts1 where e: "parseHead ts = Inr (h, ts1)" "headsLoop (acc @ [h]) ts1 = Inr (a, ts')"
      using "1.prems" unfolding headsLoop.simps[of acc ts] by (auto simp: andThen_Inr)
    from "1.IH"[OF True e] show ?thesis using parseHead_less[OF e(1)] by simp
  qed (use "1.prems" in \<open>simp add: headsLoop.simps\<close>)
qed

definition parseRemove :: "Token list \<Rightarrow> RemoveDecl parsed" where
  "parseRemove ts = andThen (next_token ts) (\<lambda>kw ts1.
     if atWord ''component'' ts1 then
       andThen (parseComponentRef (tl ts1)) (\<lambda>(ref, _) ts2. Inr (\<lparr>rv_Pos = tok_Pos kw, rv_Field = '''', rv_Component = ref\<rparr>, ts2))
     else if atWord ''field'' ts1 then
       andThen (expect LowerID ''a field name'' (tl ts1)) (\<lambda>name ts2.
         if \<not> atWord ''from'' ts2 then fail ''\"from\"'' ts2
         else andThen (parseComponentRef (tl ts2)) (\<lambda>(ref, _) ts3. Inr (\<lparr>rv_Pos = tok_Pos kw, rv_Field = tok_Text name, rv_Component = ref\<rparr>, ts3)))
     else fail ''\"component\" or \"field\"'' ts1)"

lemma parseRemove_less: "parseRemove ts = Inr (c, ts') \<Longrightarrow> length ts' < length ts"
  by (cases ts; cases "tl ts")
    (auto simp: parseRemove_def andThen_Inr expect_Inr next_token_def fail_def split: if_splits dest!: ref_less(3) dest: less_imp_le_nat)

definition parseTemplateItem :: "Token list \<Rightarrow> TemplateItem parsed" where
  "parseTemplateItem ts =
     (if atWord ''component'' ts then andThen (parseComponent ts) (\<lambda>c ts'. Inr (TComponent c, ts'))
      else if atWord ''remove'' ts then andThen (parseRemove ts) (\<lambda>r ts'. Inr (TRemove r, ts'))
      else fail ''\"component\", \"remove\", or \"}\"'' ts)"

definition addTemplateItem :: "TemplateItem \<Rightarrow> TemplateDecl \<Rightarrow> TemplateDecl" where
  "addTemplateItem it t = (case it of
       TComponent c \<Rightarrow> t\<lparr>lt_Components := lt_Components t @ [c], lt_Items := lt_Items t @ [it]\<rparr>
     | TRemove r \<Rightarrow> t\<lparr>lt_Removes := lt_Removes t @ [r], lt_Items := lt_Items t @ [it]\<rparr>)"

lemma parseTemplateItem_less: "parseTemplateItem ts = Inr (a, ts') \<Longrightarrow> length ts' < length ts"
  by (auto simp: parseTemplateItem_def andThen_Inr fail_def split: if_splits dest!: parseRemove_less parseComponent_less)

function templateItems :: "TemplateDecl \<Rightarrow> Token list \<Rightarrow> TemplateDecl parsed" where
  "templateItems b ts =
     (if atKind RBrace ts then Inr (b, ts) else if atKind EOF ts then fail ''\"}\"'' ts
      else andThen (parseTemplateItem ts) (\<lambda>it ts'. templateItems (addTemplateItem it b) ts'))"
  by pat_completeness auto
termination
  by (relation "measure (length \<circ> snd)") (auto dest: parseTemplateItem_less)

declare templateItems.simps [simp del]

lemma templateItems_le: "templateItems b ts = Inr (a, ts') \<Longrightarrow> length ts' \<le> length ts"
proof (induction b ts rule: templateItems.induct)
  case (1 b ts)
  show ?case
  proof (cases "atKind RBrace ts \<or> atKind EOF ts")
    case False
    then obtain it ts1 where e: "parseTemplateItem ts = Inr (it, ts1)" "templateItems (addTemplateItem it b) ts1 = Inr (a, ts')"
      using "1.prems" unfolding templateItems.simps[of b ts] by (auto simp: andThen_Inr)
    from "1.IH"[OF _ _ e] show ?thesis using parseTemplateItem_less[OF e(1)] False by simp
  qed (use "1.prems" in \<open>auto simp: templateItems.simps fail_def split: if_splits\<close>)
qed

definition parseTemplate :: "Token list \<Rightarrow> TemplateDecl parsed" where
  "parseTemplate ts = andThen (next_token ts) (\<lambda>kw ts1. andThen (expect UpperID ''a PascalCase Template name'' ts1) (\<lambda>name ts2.
     andThen (headsLoop [] ts2) (\<lambda>heads ts3. andThen (expect LBrace ''\"kind\", \"extends\", or \"{\"'' ts3) (\<lambda>_ ts4.
     andThen (templateItems \<lparr>lt_Pos = tok_Pos kw, lt_Close = \<lparr>p_Line = 0, p_Col = 0\<rparr>, lt_Name = tok_Text name, lt_NamePos = tok_Pos name,
       lt_Heads = heads, lt_Components = [], lt_Removes = [], lt_Items = []\<rparr> ts4) (\<lambda>t ts5.
     andThen (next_token ts5) (\<lambda>close ts6. Inr (t\<lparr>lt_Close := tok_Pos close\<rparr>, ts6)))))))"

lemma parseTemplate_less: "parseTemplate ts = Inr (c, ts') \<Longrightarrow> length ts' < length ts"
  by (auto simp: parseTemplate_def andThen_Inr expect_Inr next_token_Inr dest!: templateItems_le headsLoop_le)

subsection \<open>Files\<close>

definition parseDecl :: "Token list \<Rightarrow> Decl parsed" where
  "parseDecl ts =
     (if atWord ''pack'' ts then andThen (parsePack ts) (\<lambda>d ts'. Inr (DPack d, ts'))
      else if atWord ''zone'' ts then andThen (parseZone ts) (\<lambda>d ts'. Inr (DZone d, ts'))
      else if atWord ''template'' ts then andThen (parseTemplate ts) (\<lambda>d ts'. Inr (DTemplate d, ts'))
      else fail ''\"pack\", \"zone\", or \"template\"'' ts)"

lemma parsePack_less: "parsePack ts = Inr (d, ts') \<Longrightarrow> length ts' < length ts"
proof -
  assume "parsePack ts = Inr (d, ts')"
  then obtain kw ts1 n ts2 where 1: "ts = kw # ts1" "parsePackRef ts1 = Inr (n, ts2)" "length ts' \<le> length ts2"
    by (cases ts) (auto simp: parsePack_def next_token_def andThen_Inr expect_Inr Let_def failAt_def split: if_splits option.splits
        dest!: ref_less(1)[of "tl _"])
  then show ?thesis using ref_less(1)[OF 1(2)] by simp
qed

lemma parseDecl_less: "parseDecl ts = Inr (d, ts') \<Longrightarrow> length ts' < length ts"
  by (auto simp: parseDecl_def andThen_Inr fail_def split: if_splits dest!: parsePack_less parseZone_less parseTemplate_less)

text \<open>The declarations read so far are kept with an error.\<close>

function declsLoop :: "Decl list \<Rightarrow> Token list \<Rightarrow> Decl list \<times> perr option" where
  "declsLoop acc ts =
     (if atKind EOF ts then (acc, None)
      else case parseDecl ts of Inl err \<Rightarrow> (acc, Some err) | Inr (d, ts') \<Rightarrow> declsLoop (acc @ [d]) ts')"
  by pat_completeness auto
termination
  by (relation "measure (length \<circ> snd)") (auto dest: parseDecl_less)

declare declsLoop.simps [simp del]

definition parseFile :: "Token list \<Rightarrow> Decl list \<times> perr option" where
  "parseFile ts = declsLoop [] ts"

definition ParseFile :: "string \<Rightarrow> string \<Rightarrow> SourceFile \<times> perr option" where
  "ParseFile path src =
     (let all = tokenize (newLexer src);
          (decls, err) = parseFile (filter (\<lambda>t. tok_Kind t \<noteq> Comment) all)
      in (\<lparr>sf_Path = path, sf_Src = src, sf_Decls = decls, sf_Comments = filter (\<lambda>t. tok_Kind t = Comment) all\<rparr>, err))"

end
