(* ===== verification/Lang_Answers.thy ===== *)
theory Lang_Answers
  imports Lang_Parser
begin

text \<open>
  The parser (\<^verbatim>\<open>content/lang/parser.go\<close>) always answers: a source is a file or has one syntax error,
  at a token, and no token list ending in the end of input is ever run off.
\<close>

section \<open>The parser never runs off the tokens\<close>

definition ends :: "Token list \<Rightarrow> bool" where
  "ends ts \<longleftrightarrow> ts \<noteq> [] \<and> tok_Kind (last ts) = EOF \<and> (\<forall>t \<in> set (butlast ts). tok_Kind t \<noteq> EOF)"

definition answers :: "'a parsed \<Rightarrow> bool" where
  "answers r \<longleftrightarrow> (case r of Inl e \<Rightarrow> e \<noteq> RanOff | Inr (a, ts) \<Rightarrow> ends ts)"

named_theorems answering \<open>parsers that answer on tokens that end\<close>

lemma answers_simps [simp]: "answers (Inl e) \<longleftrightarrow> e \<noteq> RanOff" "answers (Inr (a, ts)) \<longleftrightarrow> ends ts"
  by (simp_all add: answers_def)

lemma ends_Cons: "ends (t # ts) \<longleftrightarrow> (if ts = [] then tok_Kind t = EOF else tok_Kind t \<noteq> EOF \<and> ends ts)"
  by (auto simp: ends_def)

lemma ends_tl [answering]: "ends ts \<Longrightarrow> \<not> atKind EOF ts \<Longrightarrow> ends (tl ts)"
  by (cases ts) (auto simp: ends_Cons ends_def split: if_splits)

lemma at_not_EOF: "atWord w ts \<Longrightarrow> \<not> atKind EOF ts" "atKind k ts \<Longrightarrow> k \<noteq> EOF \<Longrightarrow> \<not> atKind EOF ts"
  by (cases ts; auto)+

lemma answers_andThen [answering]: "answers r \<Longrightarrow> (\<And>a ts. r = Inr (a, ts) \<Longrightarrow> ends ts \<Longrightarrow> answers (f a ts)) \<Longrightarrow> answers (andThen r f)"
  by (auto simp: answers_def andThen_def split: sum.splits)

lemma answers_fail [answering]: "ends ts \<Longrightarrow> answers (fail w ts)" "answers (failAt t w)"
  by (auto simp: fail_def failAt_def ends_def split: list.splits)

lemma answers_next [answering]:
  assumes "ends ts" "\<not> atKind EOF ts"
  shows "answers (next_token ts)"
proof (cases ts)
  case Nil
  then show ?thesis using assms(1) by (simp add: ends_def)
next
  case (Cons t ts')
  then show ?thesis using ends_tl[OF assms] by (simp add: next_token_def)
qed

lemma answers_expect [answering]: "ends ts \<Longrightarrow> k \<noteq> EOF \<Longrightarrow> answers (expect k w ts)"
  by (simp add: expect_def answers_fail answers_next at_not_EOF(2))

lemma answers_expectString [answering]: "ends ts \<Longrightarrow> answers (expectString w ts)"
proof (cases ts)
  case (Cons t ts')
  assume e: "ends ts"
  show ?thesis
  proof (cases "tok_Kind t = StringK")
    case True
    then have "ends ts'" using ends_tl[OF e] Cons by simp
    then show ?thesis using True Cons by (simp add: expectString_def failAt_def)
  next
    case False
    then show ?thesis using Cons answers_fail(1)[OF e] by (simp add: expectString_def)
  qed
qed (simp add: ends_def)

lemma answers_packRefLoop [answering]: "ends ts \<Longrightarrow> answers (packRefLoop acc ts)"
proof (induction acc ts rule: packRefLoop.induct)
  case (1 acc ts)
  then show ?case unfolding packRefLoop.simps[of acc ts]
    by (auto intro!: answering simp: at_not_EOF(2))
qed

lemma answers_refLoop [answering]: "ends ts \<Longrightarrow> answers (refLoop w acc ts)"
proof (induction w acc ts rule: refLoop.induct)
  case (1 w acc ts)
  then show ?case unfolding refLoop.simps[of w acc ts]
    by (auto intro!: answering simp: at_not_EOF(2)) (simp add: ends_tl at_not_EOF(2))
qed

lemma answers_refs [answering]: "ends ts \<Longrightarrow> answers (parsePackRef ts)" "ends ts \<Longrightarrow> answers (parseTemplateRef ts)" "ends ts \<Longrightarrow> answers (parseComponentRef ts)"
  by (auto simp: parsePackRef_def parseTemplateRef_def parseComponentRef_def intro!: answering split: list.splits) (simp_all add: ends_def)

lemma answers_value [answering]: "ends ts \<Longrightarrow> answers (parseValue ts)"
proof (cases ts)
  case (Cons t ts')
  assume e: "ends ts"
  have "ends ts'" if "tok_Kind t \<noteq> EOF" using ends_tl[OF e] Cons that by simp
  then show ?thesis using e unfolding parseValue_def Cons
    by (auto intro!: answering split: option.splits)
qed (simp add: ends_def)

lemma answers_fieldsLoop [answering]: "ends ts \<Longrightarrow> answers (fieldsLoop acc ts)"
proof (induction acc ts rule: fieldsLoop.induct)
  case (1 acc ts)
  have "answers (parseField ts)" using "1.prems" by (auto simp: parseField_def intro!: answering)
  then show ?case unfolding fieldsLoop.simps[of acc ts] using 1
    by (auto intro!: answering)
qed

lemma fieldsLoop_stop: "fieldsLoop acc ts = Inr (a, ts') \<Longrightarrow> atKind RBrace ts'"
proof (induction acc ts rule: fieldsLoop.induct)
  case (1 acc ts)
  show ?case
  proof (cases "atKind RBrace ts \<or> atKind EOF ts")
    case False
    then show ?thesis using "1.prems" "1.IH" unfolding fieldsLoop.simps[of acc ts] by (auto simp: andThen_Inr)
  qed (use "1.prems" in \<open>auto simp: fieldsLoop.simps fail_def split: if_splits\<close>)
qed

lemma answers_component [answering]: "ends ts \<Longrightarrow> \<not> atKind EOF ts \<Longrightarrow> answers (parseComponent ts)"
  unfolding parseComponent_def by (auto intro!: answering dest!: fieldsLoop_stop simp: at_not_EOF(2))

lemma stopI: "ends ts \<Longrightarrow> atKind RBrace ts \<Longrightarrow> answers (next_token ts)"
  by (simp add: answers_next at_not_EOF(2))

lemma answers_pack [answering]: "ends ts \<Longrightarrow> \<not> atKind EOF ts \<Longrightarrow> answers (parsePack ts)"
  unfolding parsePack_def by (auto intro!: answering simp: at_not_EOF(1) Let_def split: option.splits)

lemma answers_fallback [answering]: "ends ts \<Longrightarrow> \<not> atKind EOF ts \<Longrightarrow> answers (parseFallback ts)"
  unfolding parseFallback_def by (auto intro!: answering)

lemma answers_literals [answering]: "ends ts \<Longrightarrow> answers (literals acc ts)"
proof (induction acc ts rule: literals.induct)
  case (1 acc ts)
  then show ?case unfolding literals.simps[of acc ts] by (auto intro!: answering)
qed

lemma answers_desc [answering]: "ends ts \<Longrightarrow> \<not> atKind EOF ts \<Longrightarrow> answers (parseDesc ts)"
  unfolding parseDesc_def by (auto intro!: answering)

lemma answers_sensesLoop [answering]: "ends ts \<Longrightarrow> answers (sensesLoop acc ts)"
proof (induction acc ts rule: sensesLoop.induct)
  case (1 acc ts)
  then show ?case unfolding sensesLoop.simps[of acc ts] by (auto intro!: answering simp: at_not_EOF(2))
qed

lemma answers_perceives [answering]: "ends ts \<Longrightarrow> answers (perceivesClause e ts)"
  unfolding perceivesClause_def by (auto intro!: answering)

lemma answers_perceivesLoop [answering]: "ends ts \<Longrightarrow> answers (perceivesLoop e ts)"
proof (induction e ts rule: perceivesLoop.induct)
  case (1 e ts)
  then show ?case unfolding perceivesLoop.simps[of e ts] by (auto intro!: answering simp: at_not_EOF(1))
qed

lemma answers_exit [answering]: "ends ts \<Longrightarrow> \<not> atKind EOF ts \<Longrightarrow> answers (parseExit ts)"
  unfolding parseExit_def exitRest_def by (auto intro!: answering simp: at_not_EOF(2))

lemma answers_room_item [answering]: "ends ts \<Longrightarrow> answers (parseRoomItem ts)"
  unfolding parseRoomItem_def by (auto intro!: answering dest: at_not_EOF(1))

lemma answers_roomItems [answering]: "ends ts \<Longrightarrow> answers (roomItems b ts)"
proof (induction b ts rule: roomItems.induct)
  case (1 b ts)
  then show ?case unfolding roomItems.simps[of b ts] by (auto intro!: answering)
qed

lemma roomItems_stop: "roomItems b ts = Inr (a, ts') \<Longrightarrow> atKind RBrace ts'"
proof (induction b ts rule: roomItems.induct)
  case (1 b ts)
  then show ?case unfolding roomItems.simps[of b ts] by (auto simp: andThen_Inr fail_def split: if_splits)
qed

lemma answers_room [answering]: "ends ts \<Longrightarrow> \<not> atKind EOF ts \<Longrightarrow> answers (parseRoom ts)"
  unfolding parseRoom_def by (auto intro!: answering dest!: roomItems_stop simp: at_not_EOF(2))

lemma answers_zone_item [answering]: "ends ts \<Longrightarrow> answers (parseZoneItem ts)"
  unfolding parseZoneItem_def by (auto intro!: answering dest: at_not_EOF(1))

lemma answers_zoneItems [answering]: "ends ts \<Longrightarrow> answers (zoneItems b ts)"
proof (induction b ts rule: zoneItems.induct)
  case (1 b ts)
  then show ?case unfolding zoneItems.simps[of b ts] by (auto intro!: answering)
qed

lemma zoneItems_stop: "zoneItems b ts = Inr (a, ts') \<Longrightarrow> atKind RBrace ts'"
proof (induction b ts rule: zoneItems.induct)
  case (1 b ts)
  then show ?case unfolding zoneItems.simps[of b ts] by (auto simp: andThen_Inr fail_def split: if_splits)
qed

lemma answers_zone [answering]: "ends ts \<Longrightarrow> \<not> atKind EOF ts \<Longrightarrow> answers (parseZone ts)"
  unfolding parseZone_def by (auto intro!: answering dest!: zoneItems_stop simp: at_not_EOF(2))

lemma answers_head [answering]: "ends ts \<Longrightarrow> \<not> atKind EOF ts \<Longrightarrow> answers (parseHead ts)"
  unfolding parseHead_def by (auto intro!: answering)

lemma answers_headsLoop [answering]: "ends ts \<Longrightarrow> answers (headsLoop acc ts)"
proof (induction acc ts rule: headsLoop.induct)
  case (1 acc ts)
  then show ?case unfolding headsLoop.simps[of acc ts] by (auto intro!: answering dest: at_not_EOF(1))
qed

lemma answers_remove [answering]: "ends ts \<Longrightarrow> \<not> atKind EOF ts \<Longrightarrow> answers (parseRemove ts)"
  unfolding parseRemove_def by (auto intro!: answering simp: at_not_EOF(1))

lemma answers_template_item [answering]: "ends ts \<Longrightarrow> answers (parseTemplateItem ts)"
  unfolding parseTemplateItem_def by (auto intro!: answering dest: at_not_EOF(1))

lemma answers_templateItems [answering]: "ends ts \<Longrightarrow> answers (templateItems b ts)"
proof (induction b ts rule: templateItems.induct)
  case (1 b ts)
  then show ?case unfolding templateItems.simps[of b ts] by (auto intro!: answering)
qed

lemma templateItems_stop: "templateItems b ts = Inr (a, ts') \<Longrightarrow> atKind RBrace ts'"
proof (induction b ts rule: templateItems.induct)
  case (1 b ts)
  then show ?case unfolding templateItems.simps[of b ts] by (auto simp: andThen_Inr fail_def split: if_splits)
qed

lemma answers_template [answering]: "ends ts \<Longrightarrow> \<not> atKind EOF ts \<Longrightarrow> answers (parseTemplate ts)"
  unfolding parseTemplate_def by (auto intro!: answering dest!: templateItems_stop simp: at_not_EOF(2))

lemma answers_decl [answering]: "ends ts \<Longrightarrow> answers (parseDecl ts)"
  unfolding parseDecl_def by (auto intro!: answering dest: at_not_EOF(1))

lemma declsLoop_answers: "ends ts \<Longrightarrow> snd (declsLoop acc ts) \<noteq> Some RanOff"
proof (induction acc ts rule: declsLoop.induct)
  case (1 acc ts)
  then show ?case using answers_decl[OF "1.prems"] unfolding declsLoop.simps[of acc ts]
    by (auto split: sum.splits prod.splits)
qed

lemma tokenize_ends: "ends (tokenize l)"
proof -
  have v: "map view (tokenize l) = toks (lx_rest l) @ [(EOF, '''')]" by (rule tokenize_toks)
  then obtain us u where u: "tokenize l = us @ [u]" "map view us = toks (lx_rest l)" "view u = (EOF, '''')" by (auto simp: map_eq_append_conv)
  have "tok_Kind t \<noteq> EOF" if "t \<in> set us" for t
  proof -
    have "view t \<in> set (toks (lx_rest l))" using that u(2) by (metis imageI set_map)
    then have "lexical (view t)" by (rule lexical_toks)
    then show ?thesis by (auto simp: lexical_def view_def)
  qed
  then show ?thesis using u by (simp add: ends_def view_def)
qed

lemma ends_filter: "ends ts \<Longrightarrow> ends (filter (\<lambda>t. tok_Kind t \<noteq> Comment) ts)"
  by (cases ts rule: rev_cases) (auto simp: ends_def)

end
