(* ===== verification/Lang_Tree.thy ===== *)
theory Lang_Tree
  imports Lang_Answers
begin

text \<open>
  The tokens of a syntax tree, \<open>tree\<close>, and reading back its parts: the parser of
  \<^verbatim>\<open>content/lang/parser.go\<close> makes of the tokens of a part that part again, whatever the positions. \<open>erase\<close>
  leaves out what carries no meaning: positions, whether a Component was written open, and where a
  description was broken. \<open>wf\<close> is what a tree of the parser looks like.
\<close>

section \<open>Meaning\<close>

abbreviation p0 :: Pos where
  "p0 \<equiv> \<lparr>p_Line = 0, p_Col = 0\<rparr>"

abbreviation erase_esc :: "(Pos \<times> string) option \<Rightarrow> (Pos \<times> string) option" where
  "erase_esc \<equiv> map_option (\<lambda>(_, e). (p0, e))"

definition erase_value :: "LangValue \<Rightarrow> LangValue" where
  "erase_value v = v\<lparr>lv_Pos := p0, lv_BadEsc := erase_esc (lv_BadEsc v)\<rparr>"

definition erase_field :: "FieldAssign \<Rightarrow> FieldAssign" where
  "erase_field f = f\<lparr>fa_NamePos := p0, fa_Value := erase_value (fa_Value f)\<rparr>"

definition erase_component :: "ComponentDecl \<Rightarrow> ComponentDecl" where
  "erase_component c = c\<lparr>cd_Pos := p0, cd_Close := p0, cd_TypePos := p0, cd_Fields := map erase_field (cd_Fields c), cd_MultiLine := False\<rparr>"

definition erase_lit :: "StringLit \<Rightarrow> StringLit" where
  "erase_lit l = l\<lparr>sl_Pos := p0\<rparr>"

definition erase_desc :: "DescDecl \<Rightarrow> DescDecl" where
  "erase_desc d = d\<lparr>dd_Pos := p0, dd_Parts := [], dd_BadEsc := erase_esc (dd_BadEsc d)\<rparr>"

definition erase_exit :: "ExitDecl \<Rightarrow> ExitDecl" where
  "erase_exit e = e\<lparr>xd_Pos := p0, xd_DirPos := p0, xd_RefPos := p0, xd_Perceives := map (\<lambda>s. s\<lparr>se_Pos := p0\<rparr>) (xd_Perceives e)\<rparr>"

definition erase_room_item :: "RoomItem \<Rightarrow> RoomItem" where
  "erase_room_item it = (case it of RDesc d \<Rightarrow> RDesc (erase_desc d) | RExit e \<Rightarrow> RExit (erase_exit e) | RComponent c \<Rightarrow> RComponent (erase_component c))"

definition erase_room :: "RoomDecl \<Rightarrow> RoomDecl" where
  "erase_room r = r\<lparr>lr_Pos := p0, lr_Close := p0, lr_IDPos := p0, lr_Title := erase_lit (lr_Title r), lr_Descs := map erase_desc (lr_Descs r),
     lr_Exits := map erase_exit (lr_Exits r), lr_Components := map erase_component (lr_Components r), lr_Items := map erase_room_item (lr_Items r)\<rparr>"

definition erase_fallback :: "FallbackDecl \<Rightarrow> FallbackDecl" where
  "erase_fallback f = f\<lparr>fb_Pos := p0, fb_RefPos := p0\<rparr>"

definition erase_zone_item :: "ZoneItem \<Rightarrow> ZoneItem" where
  "erase_zone_item it = (case it of ZFallback f \<Rightarrow> ZFallback (erase_fallback f) | ZComponent c \<Rightarrow> ZComponent (erase_component c) | ZRoom r \<Rightarrow> ZRoom (erase_room r))"

definition erase_zone :: "ZoneDecl \<Rightarrow> ZoneDecl" where
  "erase_zone z = z\<lparr>lz_Pos := p0, lz_Close := p0, lz_IDPos := p0, lz_Name := erase_lit (lz_Name z), lz_Fallbacks := map erase_fallback (lz_Fallbacks z),
     lz_Components := map erase_component (lz_Components z), lz_Rooms := map erase_room (lz_Rooms z), lz_Items := map erase_zone_item (lz_Items z)\<rparr>"

definition erase_remove :: "RemoveDecl \<Rightarrow> RemoveDecl" where
  "erase_remove r = r\<lparr>rv_Pos := p0\<rparr>"

definition erase_template_item :: "TemplateItem \<Rightarrow> TemplateItem" where
  "erase_template_item it = (case it of TComponent c \<Rightarrow> TComponent (erase_component c) | TRemove r \<Rightarrow> TRemove (erase_remove r))"

definition erase_head :: "TemplateHead \<Rightarrow> TemplateHead" where
  "erase_head h = h\<lparr>th_Pos := p0, th_RefPos := p0\<rparr>"

definition erase_template :: "TemplateDecl \<Rightarrow> TemplateDecl" where
  "erase_template t = t\<lparr>lt_Pos := p0, lt_Close := p0, lt_NamePos := p0, lt_Heads := map erase_head (lt_Heads t),
     lt_Components := map erase_component (lt_Components t), lt_Removes := map erase_remove (lt_Removes t), lt_Items := map erase_template_item (lt_Items t)\<rparr>"

definition erase_pack :: "PackDecl \<Rightarrow> PackDecl" where
  "erase_pack d = d\<lparr>lp_Pos := p0, lp_NamePos := p0, lp_Requires := map_option (\<lambda>q. q\<lparr>rq_PackPos := p0, rq_VersionPos := p0\<rparr>) (lp_Requires d)\<rparr>"

definition erase :: "Decl \<Rightarrow> Decl" where
  "erase d = (case d of DPack p \<Rightarrow> DPack (erase_pack p) | DZone z \<Rightarrow> DZone (erase_zone z) | DTemplate t \<Rightarrow> DTemplate (erase_template t))"

section \<open>The tokens of a tree\<close>

definition word :: "string \<Rightarrow> Kind \<times> string" where
  "word w = (LowerID, w)"

abbreviation lbrace :: "Kind \<times> string" where "lbrace \<equiv> (LBrace, [CHR 0x7B])"
abbreviation rbrace :: "Kind \<times> string" where "rbrace \<equiv> (RBrace, [CHR 0x7D])"
abbreviation dot :: "Kind \<times> string" where "dot \<equiv> (Dot, ''.'')"

text \<open>A dotted name: of lowercase segments, or ending in a PascalCase one.\<close>

definition tree_pack_ref :: "string \<Rightarrow> (Kind \<times> string) list" where
  "tree_pack_ref name = (case Split (CHR ''.'') name of [] \<Rightarrow> [] | x # xs \<Rightarrow> word x # concat (map (\<lambda>y. [dot, word y]) xs))"

definition tree_ref :: "string \<Rightarrow> (Kind \<times> string) list" where
  "tree_ref name = concat (map (\<lambda>y. [word y, dot]) (butlast (Split (CHR ''.'') name))) @ [(UpperID, last (Split (CHR ''.'') name))]"

definition tree_field :: "FieldAssign \<Rightarrow> (Kind \<times> string) list" where
  "tree_field f = [word (fa_Name f), (Colon, '':''), (lv_Kind (fa_Value f), lv_Raw (fa_Value f))]"

definition tree_component :: "ComponentDecl \<Rightarrow> (Kind \<times> string) list" where
  "tree_component c = word ''component'' # tree_ref (cd_Type c) @ lbrace # concat (map tree_field (cd_Fields c)) @ [rbrace]"

text \<open>A description, broken into the given literals.\<close>

definition tree_desc :: "string list \<Rightarrow> (Kind \<times> string) list" where
  "tree_desc raws = word ''desc'' # map (Pair StringK) raws"

definition tree_exit :: "ExitDecl \<Rightarrow> (Kind \<times> string) list" where
  "tree_exit e = [word ''exit'', word (xd_Direction e), (Arrow, ''->'')]
     @ (if xd_ToZone e = '''' then [] else [word (xd_ToZone e), dot]) @ [word (xd_ToRoom e)]
     @ (if xd_PerceivesSet e then word ''perceives'' # (LBracket, [CHR 0x5B]) # (case map se_Name (xd_Perceives e) of [] \<Rightarrow> []
          | s # ss \<Rightarrow> word s # concat (map (\<lambda>x. [(Comma, '',''), word x]) ss)) @ [(RBracket, [CHR 0x5D])] else [])"

definition tree_fallback :: "FallbackDecl \<Rightarrow> (Kind \<times> string) list" where
  "tree_fallback f = [word ''fallback'', word (fb_Room f)]"

definition tree_head :: "TemplateHead \<Rightarrow> (Kind \<times> string) list" where
  "tree_head h = (if th_Kind h \<noteq> '''' then [word ''kind'', word (th_Kind h)] else word ''extends'' # tree_ref (th_Extends h))"

definition tree_remove :: "RemoveDecl \<Rightarrow> (Kind \<times> string) list" where
  "tree_remove r = (if rv_Field r = '''' then [word ''remove'', word ''component''] else [word ''remove'', word ''field'', word (rv_Field r), word ''from''])
     @ tree_ref (rv_Component r)"

definition tree_pack :: "PackDecl \<Rightarrow> (Kind \<times> string) list" where
  "tree_pack d = word ''pack'' # tree_pack_ref (lp_Name d) @ (case lp_Requires d of None \<Rightarrow> []
     | Some q \<Rightarrow> word ''requires'' # tree_pack_ref (rq_Pack q) @ [(At, [CHR 0x40]), (IntK, FormatUint (rq_Version q))])"

section \<open>Trees of the parser\<close>

definition wf_pack_ref :: "string \<Rightarrow> bool" where
  "wf_pack_ref name \<longleftrightarrow> list_all lowerid (Split (CHR ''.'') name)"

definition wf_ref :: "string \<Rightarrow> bool" where
  "wf_ref name \<longleftrightarrow> list_all lowerid (butlast (Split (CHR ''.'') name)) \<and> upperid (last (Split (CHR ''.'') name))"

definition wf_value :: "LangValue \<Rightarrow> bool" where
  "wf_value v \<longleftrightarrow> (case lv_Kind v of
       StringK \<Rightarrow> closed_lit (lv_Raw v) \<and> lv_Str v = decodeString (lv_Raw v) \<and> lv_Int v = 0 \<and> \<not> lv_Bool v
         \<and> map_option snd (lv_BadEsc v) = map_option snd (badEscapeAt 0 (rawBody (lv_Raw v)))
     | IntK \<Rightarrow> int_lit (lv_Raw v) \<and> ParseInt 64 (lv_Raw v) = Some (lv_Int v) \<and> lv_Str v = '''' \<and> \<not> lv_Bool v \<and> lv_BadEsc v = None
     | FloatK \<Rightarrow> float_lit (lv_Raw v) \<and> lv_Str v = '''' \<and> lv_Int v = 0 \<and> \<not> lv_Bool v \<and> lv_BadEsc v = None
     | LowerID \<Rightarrow> lv_Raw v \<in> {''true'', ''false''} \<and> lv_Bool v = (lv_Raw v = ''true'') \<and> lv_Str v = '''' \<and> lv_Int v = 0 \<and> lv_BadEsc v = None
     | _ \<Rightarrow> False)"

definition wf_field :: "FieldAssign \<Rightarrow> bool" where
  "wf_field f \<longleftrightarrow> lowerid (fa_Name f) \<and> wf_value (fa_Value f)"

definition wf_component :: "ComponentDecl \<Rightarrow> bool" where
  "wf_component c \<longleftrightarrow> wf_ref (cd_Type c) \<and> length (Split (CHR ''.'') (cd_Type c)) \<noteq> 1 \<and> list_all wf_field (cd_Fields c)"

definition wf_lit :: "StringLit \<Rightarrow> bool" where
  "wf_lit l \<longleftrightarrow> closed_lit (sl_Raw l) \<and> sl_Value l = decodeString (sl_Raw l)"

definition first_bad :: "StringLit list \<Rightarrow> (Pos \<times> string) option" where
  "first_bad parts = (case List.map_filter badEscape parts of [] \<Rightarrow> None | b # _ \<Rightarrow> Some b)"

definition wf_desc :: "DescDecl \<Rightarrow> bool" where
  "wf_desc d \<longleftrightarrow> dd_Parts d \<noteq> [] \<and> list_all wf_lit (dd_Parts d) \<and> dd_Value d = strings_Join (map sl_Value (dd_Parts d)) '' ''
     \<and> map_option snd (dd_BadEsc d) = map_option snd (first_bad (dd_Parts d))"

definition wf_exit :: "ExitDecl \<Rightarrow> bool" where
  "wf_exit e \<longleftrightarrow> lowerid (xd_Direction e) \<and> (xd_ToZone e = '''' \<or> lowerid (xd_ToZone e)) \<and> lowerid (xd_ToRoom e)
     \<and> list_all (\<lambda>s. lowerid (se_Name s)) (xd_Perceives e) \<and> (xd_PerceivesSet e \<longleftrightarrow> xd_Perceives e \<noteq> [])"

definition wf_room_item :: "RoomItem \<Rightarrow> bool" where
  "wf_room_item it = (case it of RDesc d \<Rightarrow> wf_desc d | RExit e \<Rightarrow> wf_exit e | RComponent c \<Rightarrow> wf_component c)"

definition wf_room :: "RoomDecl \<Rightarrow> bool" where
  "wf_room r \<longleftrightarrow> lowerid (lr_ID r) \<and> wf_lit (lr_Title r) \<and> list_all wf_room_item (lr_Items r)
     \<and> lr_Descs r = [d. RDesc d \<leftarrow> lr_Items r] \<and> lr_Exits r = [e. RExit e \<leftarrow> lr_Items r] \<and> lr_Components r = [c. RComponent c \<leftarrow> lr_Items r]"

definition wf_zone_item :: "ZoneItem \<Rightarrow> bool" where
  "wf_zone_item it = (case it of ZFallback f \<Rightarrow> lowerid (fb_Room f) | ZComponent c \<Rightarrow> wf_component c | ZRoom r \<Rightarrow> wf_room r)"

definition wf_zone :: "ZoneDecl \<Rightarrow> bool" where
  "wf_zone z \<longleftrightarrow> lowerid (lz_ID z) \<and> wf_lit (lz_Name z) \<and> list_all wf_zone_item (lz_Items z)
     \<and> lz_Fallbacks z = [f. ZFallback f \<leftarrow> lz_Items z] \<and> lz_Components z = [c. ZComponent c \<leftarrow> lz_Items z] \<and> lz_Rooms z = [r. ZRoom r \<leftarrow> lz_Items z]"

definition wf_head :: "TemplateHead \<Rightarrow> bool" where
  "wf_head h \<longleftrightarrow> (if th_Kind h \<noteq> '''' then th_Kind h \<in> {''entity'', ''item'', ''behavior''} \<and> th_Extends h = '''' else wf_ref (th_Extends h))"

definition wf_remove :: "RemoveDecl \<Rightarrow> bool" where
  "wf_remove r \<longleftrightarrow> (rv_Field r = '''' \<or> lowerid (rv_Field r)) \<and> wf_ref (rv_Component r) \<and> length (Split (CHR ''.'') (rv_Component r)) \<noteq> 1"

definition wf_template_item :: "TemplateItem \<Rightarrow> bool" where
  "wf_template_item it = (case it of TComponent c \<Rightarrow> wf_component c | TRemove r \<Rightarrow> wf_remove r)"

definition wf_template :: "TemplateDecl \<Rightarrow> bool" where
  "wf_template t \<longleftrightarrow> upperid (lt_Name t) \<and> list_all wf_head (lt_Heads t) \<and> list_all wf_template_item (lt_Items t)
     \<and> lt_Components t = [c. TComponent c \<leftarrow> lt_Items t] \<and> lt_Removes t = [r. TRemove r \<leftarrow> lt_Items t]"

definition wf_pack :: "PackDecl \<Rightarrow> bool" where
  "wf_pack d \<longleftrightarrow> wf_pack_ref (lp_Name d) \<and> (case lp_Requires d of None \<Rightarrow> True | Some q \<Rightarrow> wf_pack_ref (rq_Pack q))"

definition wf_decl :: "Decl \<Rightarrow> bool" where
  "wf_decl d = (case d of DPack p \<Rightarrow> wf_pack p | DZone z \<Rightarrow> wf_zone z | DTemplate t \<Rightarrow> wf_template t)"

section \<open>Reading back\<close>

text \<open>The parser reads the terminals \<open>vs\<close>, before \<open>rest\<close>, as something with \<open>Q\<close>.\<close>

definition reads :: "(Token list \<Rightarrow> 'a parsed) \<Rightarrow> (Kind \<times> string) list \<Rightarrow> Token list \<Rightarrow> ('a \<Rightarrow> bool) \<Rightarrow> bool" where
  "reads p vs rest Q \<longleftrightarrow> (\<forall>us. map view us = vs \<longrightarrow> (\<exists>a. p (us @ rest) = Inr (a, rest) \<and> Q a))"

lemma view_eq [simp]: "view t = (k, s) \<longleftrightarrow> tok_Kind t = k \<and> tok_Text t = s" "(k, s) = view t \<longleftrightarrow> tok_Kind t = k \<and> tok_Text t = s"
  by (auto simp: view_def)

lemmas tree_split = map_eq_Cons_conv map_eq_append_conv Cons_eq_map_conv append_eq_map_conv

lemma readsI: "(\<And>us. map view us = vs \<Longrightarrow> \<exists>a. p (us @ rest) = Inr (a, rest) \<and> Q a) \<Longrightarrow> reads p vs rest Q"
  by (simp add: reads_def)

lemma readsE: "reads p vs rest Q \<Longrightarrow> map view us = vs \<Longrightarrow> (\<And>a. p (us @ rest) = Inr (a, rest) \<Longrightarrow> Q a \<Longrightarrow> R) \<Longrightarrow> R"
  unfolding reads_def by blast

lemma reads_andThen:
  assumes "\<And>us. map view us = ws \<Longrightarrow> reads p vs (us @ rest) P" "\<And>a us. map view us = ws \<Longrightarrow> P a \<Longrightarrow> \<exists>b. f a (us @ rest) = Inr (b, rest) \<and> Q b"
  shows "reads (\<lambda>ts. andThen (p ts) f) (vs @ ws) rest Q"
proof (rule readsI)
  fix us assume "map view us = vs @ ws"
  then obtain u w where u: "us = u @ w" "map view u = vs" "map view w = ws" by (auto simp: map_eq_append_conv)
  from assms(1)[OF u(3)] u(2) obtain a where "p (u @ w @ rest) = Inr (a, w @ rest)" "P a" by (rule readsE)
  with assms(2)[OF u(3)] u(1) show "\<exists>a. andThen (p (us @ rest)) f = Inr (a, rest) \<and> Q a" by simp
qed

lemma Split_join: "Split c s = x # xs \<Longrightarrow> x @ concat (map (\<lambda>y. c # y) xs) = s"
proof (induction s arbitrary: x xs)
  case (Cons a s)
  obtain y ys where y: "Split c s = y # ys" using Split_neq_Nil by (cases "Split c s") auto
  have "x @ concat (map (\<lambda>y. c # y) xs) = a # y @ concat (map (\<lambda>y. c # y) ys)"
    using Cons.prems unfolding Split.simps y by (auto split: if_splits)
  then show ?case using Cons.IH[OF y] by simp
qed simp

lemma Split_clean_parts: "x \<in> set (Split c s) \<Longrightarrow> c \<notin> set x"
proof (induction s arbitrary: x)
  case (Cons a s)
  obtain y ys where y: "Split c s = y # ys" using Split_neq_Nil by (cases "Split c s") auto
  show ?case using Cons y by (auto split: if_splits)
qed simp

lemma read_packRefLoop:
  "map view us = concat (map (\<lambda>y. [dot, word y]) xs) \<Longrightarrow> \<not> atKind Dot rest
    \<Longrightarrow> packRefLoop acc (us @ rest) = Inr (acc @ concat (map (\<lambda>y. CHR ''.'' # y) xs), rest)"
proof (induction xs arbitrary: us acc)
  case Nil
  then show ?case by (subst packRefLoop.simps) simp
next
  case (Cons x xs)
  then obtain d t us' where u: "us = d # t # us'" "view d = dot" "view t = word x" "map view us' = concat (map (\<lambda>y. [dot, word y]) xs)"
    by (auto simp: map_eq_Cons_conv)
  then show ?case using Cons.IH[OF u(4) Cons.prems(2), of "acc @ ''.'' @ x"]
    by (subst packRefLoop.simps) (simp add: word_def expect_def next_token_def)
qed

lemma read_pack_ref:
  assumes "\<not> atKind Dot rest"
  shows "reads parsePackRef (tree_pack_ref name) rest (\<lambda>a. fst a = name)"
proof (rule readsI)
  fix us assume us: "map view us = tree_pack_ref name"
  obtain x xs where x: "Split (CHR ''.'') name = x # xs" using Split_neq_Nil by (cases "Split (CHR ''.'') name") auto
  then obtain t us' where u: "us = t # us'" "view t = word x" "map view us' = concat (map (\<lambda>y. [dot, word y]) xs)"
    using us by (auto simp: tree_pack_ref_def map_eq_Cons_conv)
  then show "\<exists>a. parsePackRef (us @ rest) = Inr (a, rest) \<and> fst a = name"
    using read_packRefLoop[OF u(3) assms, of x] Split_join[OF x] by (simp add: parsePackRef_def expect_def next_token_def word_def)
qed

lemma read_refLoop:
  "map view us = concat (map (\<lambda>y. [word y, dot]) xs) \<Longrightarrow> \<not> atKind LowerID rest
    \<Longrightarrow> refLoop w acc (us @ rest) = Inr (acc @ concat (map (\<lambda>y. y @ ''.'') xs), rest)"
proof (induction xs arbitrary: us acc)
  case Nil
  then show ?case by (subst refLoop.simps) simp
next
  case (Cons x xs)
  then obtain d t us' where u: "us = t # d # us'" "view d = dot" "view t = word x" "map view us' = concat (map (\<lambda>y. [word y, dot]) xs)"
    by (auto simp: map_eq_Cons_conv)
  then show ?case using Cons.IH[OF u(4) Cons.prems(2), of "acc @ x @ ''.''"]
    by (subst refLoop.simps) (simp add: word_def next_token_def)
qed

lemma join_ends: "xs \<noteq> [] \<Longrightarrow> concat (map (\<lambda>y. y @ [c]) (butlast xs)) @ last xs = hd xs @ concat (map (\<lambda>y. c # y) (tl xs))"
proof (induction xs)
  case (Cons x xs)
  then show ?case by (cases xs) auto
qed simp

lemma ref_join: "concat (map (\<lambda>y. y @ ''.'') (butlast (Split (CHR ''.'') name))) @ last (Split (CHR ''.'') name) = name"
  using Split_join[of "CHR ''.''" name] join_ends[of "Split (CHR ''.'') name" "CHR ''.''"] by (cases "Split (CHR ''.'') name") auto

lemma read_ref:
  "reads parseTemplateRef (tree_ref name) rest (\<lambda>a. fst a = name)"
  "length (Split (CHR ''.'') name) \<noteq> 1 \<Longrightarrow> reads parseComponentRef (tree_ref name) rest (\<lambda>a. fst a = name)"
proof -
  have r: "\<exists>us1 t. us = us1 @ [t] \<and> view t = (UpperID, last (Split (CHR ''.'') name))
      \<and> refLoop w '''' (us @ rest) = Inr (concat (map (\<lambda>y. y @ ''.'') (butlast (Split (CHR ''.'') name))), t # rest)
      \<and> map view us1 = concat (map (\<lambda>y. [word y, dot]) (butlast (Split (CHR ''.'') name)))"
    if "map view us = tree_ref name" for us w
  proof -
    from that obtain us1 t where u: "us = us1 @ [t]" "view t = (UpperID, last (Split (CHR ''.'') name))"
        "map view us1 = concat (map (\<lambda>y. [word y, dot]) (butlast (Split (CHR ''.'') name)))"
      by (auto simp: tree_ref_def map_eq_append_conv)
    then show ?thesis using read_refLoop[OF u(3), of "t # rest" w "''''"] by simp
  qed
  show "reads parseTemplateRef (tree_ref name) rest (\<lambda>a. fst a = name)"
  proof (rule readsI)
    fix us assume "map view us = tree_ref name"
    from r[OF this, of "''\".\" before a PascalCase name''"] obtain us1 t where u: "us = us1 @ [t]" "view t = (UpperID, last (Split (CHR ''.'') name))"
      "refLoop ''\".\" before a PascalCase name'' '''' (us @ rest) = Inr (concat (map (\<lambda>y. y @ ''.'') (butlast (Split (CHR ''.'') name))), t # rest)" by blast
    then show "\<exists>a. parseTemplateRef (us @ rest) = Inr (a, rest) \<and> fst a = name"
      using ref_join[of name] by (cases "us @ rest") (auto simp: parseTemplateRef_def expect_def next_token_def)
  qed
  show "reads parseComponentRef (tree_ref name) rest (\<lambda>a. fst a = name)" if l: "length (Split (CHR ''.'') name) \<noteq> 1"
  proof (rule readsI)
    fix us assume "map view us = tree_ref name"
    from r[OF this, of "''\".\" before a PascalCase type name''"] obtain us1 t where u: "us = us1 @ [t]" "view t = (UpperID, last (Split (CHR ''.'') name))"
      "refLoop ''\".\" before a PascalCase type name'' '''' (us @ rest) = Inr (concat (map (\<lambda>y. y @ ''.'') (butlast (Split (CHR ''.'') name))), t # rest)"
      "map view us1 = concat (map (\<lambda>y. [word y, dot]) (butlast (Split (CHR ''.'') name)))" by blast
    obtain x y ys where "Split (CHR ''.'') name = x # y # ys" using l Split_neq_Nil by (cases "Split (CHR ''.'') name"; cases "tl (Split (CHR ''.'') name)") auto
    then obtain t1 us2 where "us1 = t1 # us2" "tok_Kind t1 = LowerID" using u(4) by (auto simp: map_eq_Cons_conv word_def)
    then show "\<exists>a. parseComponentRef (us @ rest) = Inr (a, rest) \<and> fst a = name"
      using ref_join[of name] u by (cases "us @ rest") (auto simp: parseComponentRef_def expect_def next_token_def)
  qed
qed

text \<open>
  Whatever follows an item or a declaration: a keyword that begins one, the closing brace or the end.
\<close>

definition follows :: "Token list \<Rightarrow> bool" where
  "follows ts \<longleftrightarrow> (case ts of [] \<Rightarrow> False | t # _ \<Rightarrow> tok_Kind t \<in> {EOF, RBrace} \<or> tok_Kind t = LowerID
     \<and> tok_Text t \<in> {''pack'', ''zone'', ''template'', ''fallback'', ''component'', ''room'', ''desc'', ''exit'', ''remove''})"

lemma followsD: "follows ts \<Longrightarrow> \<not> atKind Dot ts" "follows ts \<Longrightarrow> \<not> atKind StringK ts" "follows ts \<Longrightarrow> \<not> atWord ''requires'' ts"
  "follows ts \<Longrightarrow> \<not> atWord ''perceives'' ts"
  by (cases ts; auto simp: follows_def)+

lemma expect_Cons [simp]: "tok_Kind t = k \<Longrightarrow> expect k w (t # ts) = Inr (t, ts)" "next_token (t # ts) = Inr (t, ts)"
  by (simp_all add: expect_def next_token_def)

lemma closed_lit_ok: "closed_lit s \<Longrightarrow> 2 \<le> length s \<and> HasSuffix s [CHR 0x22]"
  by (auto simp: closed_lit_ex quoted_def HasSuffix_def)

lemma expectString_Cons [simp]:
  "tok_Kind t = StringK \<Longrightarrow> closed_lit (tok_Text t)
    \<Longrightarrow> expectString w (t # ts) = Inr (\<lparr>sl_Pos = tok_Pos t, sl_Raw = tok_Text t, sl_Value = decodeString (tok_Text t)\<rparr>, ts)"
  using closed_lit_ok[of "tok_Text t"] by (simp add: expectString_def not_less)

text \<open>The escape found does not depend on the column counted from.\<close>

lemma badEscapeAt_col: "map_option snd (badEscapeAt c s) = map_option snd (badEscapeAt d s)"
proof (induction c s arbitrary: d rule: badEscapeAt.induct)
  case (1 c s)
  show ?case
  proof (cases "s = []")
    case False
    obtain r n where rn: "DecodeRune s = (r, n)" by fastforce
    obtain e m where em: "DecodeRune (drop n s) = (e, m)" by fastforce
    have step: "badEscapeAt k s = (if r \<noteq> ru (CHR 0x5C) \<or> length s \<le> n then badEscapeAt (k + 1) (drop n s)
      else if e = ru (CHR ''n'') \<or> e = ru (CHR 0x22) \<or> e = ru (CHR 0x5C) then badEscapeAt (k + 2) (drop (n + m) s)
      else Some (k, CHR 0x5C # rune_string e))" for k
      using False unfolding badEscapeAt.simps[of k s] by (simp add: rn em)
    show ?thesis
    proof (cases "r \<noteq> ru (CHR 0x5C) \<or> length s \<le> n")
      case True
      then show ?thesis unfolding step using "1.IH"(1)[OF False refl rn[symmetric] True] by (simp only: if_True)
    next
      case not: False
      show ?thesis
      proof (cases "e = ru (CHR ''n'') \<or> e = ru (CHR 0x22) \<or> e = ru (CHR 0x5C)")
        case True
        then show ?thesis unfolding step using "1.IH"(2)[OF False refl rn[symmetric] not refl em[symmetric] True] not by (simp only: if_True if_False)
      next
        case False
        then show ?thesis unfolding step using not by (simp only: if_False) simp
      qed
    qed
  qed (simp add: badEscapeAt.simps)
qed

lemma badEscape_text: "map_option snd (badEscape l) = map_option snd (badEscapeAt 0 (rawBody (sl_Raw l)))"
  using badEscapeAt_col[of "p_Col (sl_Pos l) + 1" "rawBody (sl_Raw l)" 0] by (auto simp: badEscape_def option.map_comp comp_def case_prod_beta)

lemma erase_esc_eq: "erase_esc x = erase_esc y \<longleftrightarrow> map_option snd x = map_option snd y"
  by (cases x; cases y) auto

lemma read_value:
  assumes "wf_value v"
  shows "reads parseValue [(lv_Kind v, lv_Raw v)] rest (\<lambda>w. erase_value w = erase_value v)"
proof (rule readsI)
  fix us assume "map view us = [(lv_Kind v, lv_Raw v)]"
  then obtain t where t: "us = [t]" "tok_Kind t = lv_Kind v" "tok_Text t = lv_Raw v" by (auto simp: map_eq_Cons_conv)
  show "\<exists>a. parseValue (us @ rest) = Inr (a, rest) \<and> erase_value a = erase_value v"
  proof (cases "lv_Kind v = StringK")
    case True
    have "erase_esc (badEscape \<lparr>sl_Pos = tok_Pos t, sl_Raw = lv_Raw v, sl_Value = x\<rparr>) = erase_esc (lv_BadEsc v)" for x
      using assms True by (simp add: erase_esc_eq badEscape_text wf_value_def)
    then show ?thesis using assms True t by (auto simp: parseValue_def wf_value_def erase_value_def value0_def intro!: LangValue.equality)
  next
    case False
    then show ?thesis using assms t
      by (auto simp: parseValue_def wf_value_def erase_value_def value0_def intro!: LangValue.equality split: Kind.splits)
  qed
qed

lemma erase_fieldD: "erase_field f = erase_field g \<longleftrightarrow> fa_Name f = fa_Name g \<and> erase_value (fa_Value f) = erase_value (fa_Value g)"
  by (cases f; cases g) (auto simp: erase_field_def)

lemma read_field:
  assumes "wf_field f"
  shows "reads parseField (tree_field f) rest (\<lambda>g. erase_field g = erase_field f)"
proof (rule readsI)
  fix us assume "map view us = tree_field f"
  then obtain a b c where u: "us = [a, b, c]" "view a = word (fa_Name f)" "view b = (Colon, '':'')" "view c = (lv_Kind (fa_Value f), lv_Raw (fa_Value f))"
    by (auto simp: tree_field_def map_eq_Cons_conv)
  have "wf_value (fa_Value f)" using assms by (simp add: wf_field_def)
  from read_value[OF this, of rest] obtain w where w: "parseValue ([c] @ rest) = Inr (w, rest)" "erase_value w = erase_value (fa_Value f)"
    by (rule readsE[where us = "[c]"]) (use u in auto)
  then show "\<exists>g. parseField (us @ rest) = Inr (g, rest) \<and> erase_field g = erase_field f"
    using u by (simp add: parseField_def word_def erase_fieldD)
qed

lemma read_fieldsLoop:
  "list_all wf_field fs \<Longrightarrow> map view us = concat (map tree_field fs) \<Longrightarrow> atKind RBrace rest
    \<Longrightarrow> \<exists>gs. fieldsLoop acc (us @ rest) = Inr (acc @ gs, rest) \<and> map erase_field gs = map erase_field fs"
proof (induction fs arbitrary: us acc)
  case Nil
  then show ?case by (subst fieldsLoop.simps) simp
next
  case (Cons f fs)
  then obtain u us' where u: "us = u @ us'" "map view u = tree_field f" "map view us' = concat (map tree_field fs)" by (auto simp: map_eq_append_conv)
  have wf: "wf_field f" "list_all wf_field fs" using Cons.prems(1) by simp_all
  from read_field[OF wf(1)] u(2) obtain g where g: "parseField (u @ us' @ rest) = Inr (g, us' @ rest)" "erase_field g = erase_field f"
    by (rule readsE)
  from Cons.IH[OF wf(2) u(3) Cons.prems(3), of "acc @ [g]"] obtain gs where gs: "fieldsLoop (acc @ [g]) (us' @ rest) = Inr (acc @ g # gs, rest)"
    "map erase_field gs = map erase_field fs" by auto
  have "\<not> atKind RBrace (us @ rest)" "\<not> atKind EOF (us @ rest)" using u by (cases u; auto simp: tree_field_def word_def)+
  then show ?case using u g gs by (subst fieldsLoop.simps) (auto intro!: exI[of _ "g # gs"])
qed

lemma read_component:
  assumes "wf_component c"
  shows "reads parseComponent (tree_component c) rest (\<lambda>d. erase_component d = erase_component c)"
proof (rule readsI)
  fix us assume "map view us = tree_component c"
  then obtain kw r op fs cl where u: "us = kw # r @ op # fs @ [cl]" "view kw = word ''component''" "map view r = tree_ref (cd_Type c)" "view op = lbrace"
      "map view fs = concat (map tree_field (cd_Fields c))" "view cl = rbrace"
    by (auto simp: tree_component_def tree_split)
  have wf: "length (Split (CHR ''.'') (cd_Type c)) \<noteq> 1" "list_all wf_field (cd_Fields c)" using assms by (simp_all add: wf_component_def)
  from read_ref(2)[OF wf(1)] u(3) obtain a where a: "parseComponentRef (r @ op # fs @ cl # rest) = Inr (a, op # fs @ cl # rest)" "fst a = cd_Type c"
    by (rule readsE)
  from read_fieldsLoop[OF wf(2) u(5), of "cl # rest" "[]"] u(6) obtain gs where g: "fieldsLoop [] (fs @ cl # rest) = Inr (gs, cl # rest)"
    "map erase_field gs = map erase_field (cd_Fields c)" by auto
  then show "\<exists>d. parseComponent (us @ rest) = Inr (d, rest) \<and> erase_component d = erase_component c"
    using u a by (cases a) (auto simp: parseComponent_def erase_component_def)
qed

text \<open>A way to break a description into literals, and when it keeps what the description says.\<close>

type_synonym breaks = "DescDecl \<Rightarrow> string list"

definition bad_text :: "string list \<Rightarrow> string option" where
  "bad_text raws = (case List.map_filter (\<lambda>r. map_option snd (badEscapeAt 0 (rawBody r))) raws of [] \<Rightarrow> None | b # _ \<Rightarrow> Some b)"

definition desc_kept :: "breaks \<Rightarrow> DescDecl \<Rightarrow> bool" where
  "desc_kept br d \<longleftrightarrow> br d \<noteq> [] \<and> list_all closed_lit (br d) \<and> strings_Join (map decodeString (br d)) '' '' = dd_Value d
     \<and> bad_text (br d) = map_option snd (dd_BadEsc d)"

lemma bad_text_first: "map_option snd (first_bad parts) = bad_text (map sl_Raw parts)"
proof -
  have "map snd (List.map_filter badEscape parts) = List.map_filter (\<lambda>r. map_option snd (badEscapeAt 0 (rawBody r))) (map sl_Raw parts)"
  proof (induction parts)
    case (Cons l ls)
    then show ?case using badEscape_text[of l] by (cases "badEscape l"; cases "badEscapeAt 0 (rawBody (sl_Raw l))") (auto simp: map_filter_simps)
  qed (simp add: map_filter_simps)
  then show ?thesis unfolding first_bad_def bad_text_def
    by (cases "List.map_filter badEscape parts") (auto split: list.splits)
qed

lemma read_literals:
  "list_all closed_lit raws \<Longrightarrow> map view us = map (Pair StringK) raws \<Longrightarrow> \<not> atKind StringK rest
    \<Longrightarrow> \<exists>ls. literals acc (us @ rest) = Inr (acc @ ls, rest) \<and> map sl_Raw ls = raws \<and> map sl_Value ls = map decodeString raws"
proof (induction raws arbitrary: us acc)
  case Nil
  then show ?case by (subst literals.simps) simp
next
  case (Cons r rs)
  then obtain t us' where u: "us = t # us'" "view t = (StringK, r)" "map view us' = map (Pair StringK) rs" by (auto simp: tree_split)
  let ?l = "\<lparr>sl_Pos = tok_Pos t, sl_Raw = r, sl_Value = decodeString r\<rparr>"
  from Cons.IH[OF _ u(3) Cons.prems(3), of "acc @ [?l]"] Cons.prems(1) obtain ls where
    "literals (acc @ [?l]) (us' @ rest) = Inr (acc @ ?l # ls, rest)" "map sl_Raw ls = rs" "map sl_Value ls = map decodeString rs" by auto
  then show ?case using u Cons.prems(1) by (subst literals.simps) (auto intro!: exI[of _ "?l # ls"])
qed

lemma read_desc:
  assumes "desc_kept br d" "follows rest"
  shows "reads parseDesc (tree_desc (br d)) rest (\<lambda>d'. erase_desc d' = erase_desc d)"
proof (rule readsI)
  fix us assume us: "map view us = tree_desc (br d)"
  obtain r rs where r: "br d = r # rs" using assms(1) by (cases "br d") (auto simp: desc_kept_def)
  with us obtain kw t us' where u: "us = kw # t # us'" "view t = (StringK, r)" "map view us' = map (Pair StringK) rs" by (auto simp: tree_desc_def tree_split)
  let ?l = "\<lparr>sl_Pos = tok_Pos t, sl_Raw = r, sl_Value = decodeString r\<rparr>"
  have cl: "closed_lit r" "list_all closed_lit rs" using assms(1) r by (simp_all add: desc_kept_def)
  from read_literals[OF cl(2) u(3) followsD(2)[OF assms(2)], of "[?l]"] obtain ls where
    ls: "literals [?l] (us' @ rest) = Inr (?l # ls, rest)" "map sl_Raw ls = rs" "map sl_Value ls = map decodeString rs" by auto
  have "map_option snd (first_bad (?l # ls)) = map_option snd (dd_BadEsc d)" "strings_Join (map sl_Value (?l # ls)) '' '' = dd_Value d"
    using assms(1) r ls(2,3) bad_text_first[of "?l # ls"] by (simp_all add: desc_kept_def)
  moreover have "parseDesc (us @ rest) = Inr (\<lparr>dd_Pos = tok_Pos kw, dd_Parts = ?l # ls, dd_Value = strings_Join (map sl_Value (?l # ls)) '' '',
      dd_BadEsc = first_bad (?l # ls)\<rparr>, rest)"
    using u cl(1) ls(1) by (simp add: parseDesc_def first_bad_def)
  ultimately show "\<exists>d'. parseDesc (us @ rest) = Inr (d', rest) \<and> erase_desc d' = erase_desc d"
    by (cases d) (auto simp: erase_desc_def erase_esc_eq simp del: map_option_eq_Some)
qed

lemma read_fallback: "reads parseFallback (tree_fallback f) rest (\<lambda>g. erase_fallback g = erase_fallback f)"
  by (rule readsI) (auto simp: tree_fallback_def tree_split parseFallback_def word_def erase_fallback_def)

abbreviation erase_sense :: "Sense \<Rightarrow> Sense" where
  "erase_sense s \<equiv> s\<lparr>se_Pos := p0\<rparr>"

lemma read_sensesLoop:
  "map view us = concat (map (\<lambda>x. [(Comma, '',''), word x]) (map se_Name ss)) \<Longrightarrow> \<not> atKind Comma rest
    \<Longrightarrow> \<exists>xs. sensesLoop acc (us @ rest) = Inr (acc @ xs, rest) \<and> map erase_sense xs = map erase_sense ss"
proof (induction ss arbitrary: us acc)
  case Nil
  then show ?case by (subst sensesLoop.simps) simp
next
  case (Cons s ss)
  then obtain c t us' where u: "us = c # t # us'" "view c = (Comma, '','')" "view t = word (se_Name s)"
      "map view us' = concat (map (\<lambda>x. [(Comma, '',''), word x]) (map se_Name ss))" by (auto simp: tree_split)
  let ?s = "\<lparr>se_Name = tok_Text t, se_Pos = tok_Pos t\<rparr>"
  from Cons.IH[OF u(4) Cons.prems(2), of "acc @ [?s]"] obtain xs where
    x: "sensesLoop (acc @ [?s]) (us' @ rest) = Inr (acc @ ?s # xs, rest)" "map erase_sense xs = map erase_sense ss" by auto
  have "erase_sense ?s = erase_sense s" using u(3) by (cases s) (simp add: word_def)
  then show ?case using u x by (subst sensesLoop.simps) (auto simp: word_def intro!: exI[of _ "?s # xs"])
qed

lemma read_exit:
  assumes "wf_exit e" "follows rest"
  shows "reads parseExit (tree_exit e) rest (\<lambda>d. erase_exit d = erase_exit e)"
proof (rule readsI)
  fix us assume us: "map view us = tree_exit e"
  define ps where "ps = (if xd_PerceivesSet e then word ''perceives'' # (LBracket, [CHR 0x5B]) # (case map se_Name (xd_Perceives e) of [] \<Rightarrow> []
          | s # ss \<Rightarrow> word s # concat (map (\<lambda>x. [(Comma, '',''), word x]) ss)) @ [(RBracket, [CHR 0x5D])] else [])"
  have loop: "\<exists>e'. perceivesLoop x (ws @ rest) = Inr (e', rest) \<and> erase_exit e' = erase_exit e"
    if w: "map view ws = ps" and x: "xd_Direction x = xd_Direction e" "xd_ToZone x = xd_ToZone e" "xd_ToRoom x = xd_ToRoom e" "xd_Perceives x = []" "\<not> xd_PerceivesSet x" for x ws
  proof (cases "xd_PerceivesSet e")
    case False
    then show ?thesis using w x assms followsD(4)[OF assms(2)]
      by (subst perceivesLoop.simps) (auto simp: ps_def erase_exit_def wf_exit_def intro!: ExitDecl.equality)
  next
    case True
    obtain s ss where s: "xd_Perceives e = s # ss" using True assms(1) by (cases "xd_Perceives e") (auto simp: wf_exit_def)
    with w True obtain kw lb t qs rb where u: "ws = kw # lb # t # qs @ [rb]" "view kw = word ''perceives''" "tok_Kind lb = LBracket" "view t = word (se_Name s)"
        "map view qs = concat (map (\<lambda>x. [(Comma, '',''), word x]) (map se_Name ss))" "tok_Kind rb = RBracket"
      by (auto simp: ps_def tree_split)
    let ?s = "\<lparr>se_Name = tok_Text t, se_Pos = tok_Pos t\<rparr>"
    from read_sensesLoop[OF u(5), of "rb # rest" "[?s]"] u(6) obtain xs where
      xs: "sensesLoop [?s] (qs @ rb # rest) = Inr (?s # xs, rb # rest)" "map erase_sense xs = map erase_sense ss" by auto
    have "erase_sense ?s = erase_sense s" using u(4) by (cases s) (simp add: word_def)
    then have "map erase_sense (?s # xs) = map erase_sense (xd_Perceives e)" using xs(2) s by simp
    moreover have "perceivesLoop x (ws @ rest) = Inr (x\<lparr>xd_PerceivesSet := True, xd_Perceives := ?s # xs\<rparr>, rest)"
      using u x xs(1) followsD(4)[OF assms(2)] unfolding perceivesLoop.simps[of x "ws @ rest"]
      by (simp add: word_def perceivesClause_def perceivesLoop.simps[of _ rest])
    ultimately show ?thesis using x True by (auto simp: erase_exit_def intro!: ExitDecl.equality)
  qed
  have nd: "\<not> atKind Dot (ws @ rest)" if "map view ws = ps" for ws
    using that followsD(1)[OF assms(2)] by (cases ws) (auto simp: ps_def word_def split: if_splits)
  show "\<exists>d. parseExit (us @ rest) = Inr (d, rest) \<and> erase_exit d = erase_exit e"
  proof (cases "xd_ToZone e = ''''")
    case True
    then obtain a b c r ws where u: "us = a # b # c # r # ws" "view b = word (xd_Direction e)" "tok_Kind c = Arrow" "view r = word (xd_ToRoom e)" "map view ws = ps"
      using us by (auto simp: tree_exit_def ps_def tree_split)
    let ?x = "\<lparr>xd_Pos = tok_Pos a, xd_Direction = tok_Text b, xd_DirPos = tok_Pos b, xd_ToZone = '''', xd_ToRoom = tok_Text r,
         xd_RefPos = tok_Pos r, xd_Perceives = [], xd_PerceivesSet = False\<rparr>"
    have "parseExit (us @ rest) = perceivesLoop ?x (ws @ rest)" using u nd[OF u(5)] by (simp add: parseExit_def exitRest_def word_def)
    then show ?thesis using loop[OF u(5), of ?x] u True by (simp add: word_def)
  next
    case False
    then obtain a b c z d r ws where u: "us = a # b # c # z # d # r # ws" "view b = word (xd_Direction e)" "tok_Kind c = Arrow" "view z = word (xd_ToZone e)"
        "tok_Kind d = Dot" "view r = word (xd_ToRoom e)" "map view ws = ps"
      using us by (auto simp: tree_exit_def ps_def tree_split)
    let ?x = "\<lparr>xd_Pos = tok_Pos a, xd_Direction = tok_Text b, xd_DirPos = tok_Pos b, xd_ToZone = tok_Text z, xd_ToRoom = tok_Text r,
         xd_RefPos = tok_Pos z, xd_Perceives = [], xd_PerceivesSet = False\<rparr>"
    have "parseExit (us @ rest) = perceivesLoop ?x (ws @ rest)" using u by (simp add: parseExit_def exitRest_def word_def)
    then show ?thesis using loop[OF u(7), of ?x] u by (simp add: word_def)
  qed
qed

lemma room_item_cases [simp]:
  "tl (tree_component c @ x) = tree_ref (cd_Type c) @ lbrace # concat (map tree_field (cd_Fields c)) @ [rbrace] @ x"
  by (simp add: tree_component_def)

definition tree_room_item :: "breaks \<Rightarrow> RoomItem \<Rightarrow> (Kind \<times> string) list" where
  "tree_room_item br it = (case it of RDesc d \<Rightarrow> tree_desc (br d) | RExit e \<Rightarrow> tree_exit e | RComponent c \<Rightarrow> tree_component c)"

definition tree_room :: "breaks \<Rightarrow> RoomDecl \<Rightarrow> (Kind \<times> string) list" where
  "tree_room br r = [word ''room'', word (lr_ID r), (StringK, sl_Raw (lr_Title r)), lbrace] @ concat (map (tree_room_item br) (lr_Items r)) @ [rbrace]"

definition room_item_kept :: "breaks \<Rightarrow> RoomItem \<Rightarrow> bool" where
  "room_item_kept br it = (case it of RDesc d \<Rightarrow> desc_kept br d | _ \<Rightarrow> True)"

definition room_kept :: "breaks \<Rightarrow> RoomDecl \<Rightarrow> bool" where
  "room_kept br r \<longleftrightarrow> list_all (room_item_kept br) (lr_Items r)"

text \<open>The first token of a list decides which parser reads it.\<close>

lemma starts_with:
  assumes "map view us = word w # vs"
  shows "atWord x (us @ rest) \<longleftrightarrow> w = x" "k \<noteq> LowerID \<Longrightarrow> \<not> atKind k (us @ rest)" "us \<noteq> []"
  using assms by (auto simp: tree_split word_def)

lemma follows_word:
  assumes "map view us = word w # vs" "w \<in> {''pack'', ''zone'', ''template'', ''fallback'', ''component'', ''room'', ''desc'', ''exit'', ''remove''}"
  shows "follows (us @ rest)"
  using assms by (auto simp: tree_split word_def follows_def)

lemma read_room_item:
  assumes "wf_room_item it" "room_item_kept br it" "follows rest"
  shows "reads parseRoomItem (tree_room_item br it) rest (\<lambda>jt. erase_room_item jt = erase_room_item it)"
proof (rule readsI)
  fix us assume us: "map view us = tree_room_item br it"
  show "\<exists>jt. parseRoomItem (us @ rest) = Inr (jt, rest) \<and> erase_room_item jt = erase_room_item it"
  proof (cases it)
    case (RDesc d)
    with us have v: "map view us = tree_desc (br d)" by (simp add: tree_room_item_def)
    have "desc_kept br d" using assms(2) RDesc by (simp add: room_item_kept_def)
    from read_desc[OF this assms(3)] v obtain d' where "parseDesc (us @ rest) = Inr (d', rest)" "erase_desc d' = erase_desc d" by (rule readsE)
    moreover have "atWord ''desc'' (us @ rest)" using v by (auto simp: tree_desc_def tree_split word_def)
    ultimately show ?thesis using RDesc by (simp add: parseRoomItem_def erase_room_item_def)
  next
    case (RExit e)
    with us have v: "map view us = tree_exit e" by (simp add: tree_room_item_def)
    have "wf_exit e" using assms(1) RExit by (simp add: wf_room_item_def)
    from read_exit[OF this assms(3)] v obtain d' where "parseExit (us @ rest) = Inr (d', rest)" "erase_exit d' = erase_exit e" by (rule readsE)
    moreover have "atWord ''exit'' (us @ rest)" "\<not> atWord ''desc'' (us @ rest)" using v by (auto simp: tree_exit_def tree_split word_def)
    ultimately show ?thesis using RExit by (simp add: parseRoomItem_def erase_room_item_def)
  next
    case (RComponent c)
    with us have v: "map view us = tree_component c" by (simp add: tree_room_item_def)
    have "wf_component c" using assms(1) RComponent by (simp add: wf_room_item_def)
    from read_component[OF this] v obtain d' where "parseComponent (us @ rest) = Inr (d', rest)" "erase_component d' = erase_component c" by (rule readsE)
    moreover have "atWord ''component'' (us @ rest)" "\<not> atWord ''desc'' (us @ rest)" "\<not> atWord ''exit'' (us @ rest)"
      using v by (auto simp: tree_component_def tree_split word_def)
    ultimately show ?thesis using RComponent by (simp add: parseRoomItem_def erase_room_item_def)
  qed
qed

lemma tree_room_item_word: "\<exists>w vs. tree_room_item br it = word w # vs \<and> w \<in> {''desc'', ''exit'', ''component''}"
  by (cases it) (auto simp: tree_room_item_def tree_desc_def tree_exit_def tree_component_def)

lemma addRoomItem_simps:
  "addRoomItem (RDesc d) r = r\<lparr>lr_Descs := lr_Descs r @ [d], lr_Items := lr_Items r @ [RDesc d]\<rparr>"
  "addRoomItem (RExit e) r = r\<lparr>lr_Exits := lr_Exits r @ [e], lr_Items := lr_Items r @ [RExit e]\<rparr>"
  "addRoomItem (RComponent c) r = r\<lparr>lr_Components := lr_Components r @ [c], lr_Items := lr_Items r @ [RComponent c]\<rparr>"
  by (simp_all add: addRoomItem_def)

lemma fold_addRoomItem:
  "fold addRoomItem its b = b\<lparr>lr_Descs := lr_Descs b @ [d. RDesc d \<leftarrow> its], lr_Exits := lr_Exits b @ [e. RExit e \<leftarrow> its],
     lr_Components := lr_Components b @ [c. RComponent c \<leftarrow> its], lr_Items := lr_Items b @ its\<rparr>"
proof (induction its arbitrary: b)
  case (Cons it its)
  show ?case by (cases it) (simp_all add: Cons addRoomItem_simps)
qed simp

lemma erase_room_item_simps:
  "erase_room_item (RDesc d) = RDesc (erase_desc d)" "erase_room_item (RExit e) = RExit (erase_exit e)"
  "erase_room_item (RComponent c) = RComponent (erase_component c)"
  by (simp_all add: erase_room_item_def)

lemma erase_room_parts:
  "map erase_desc [d. RDesc d \<leftarrow> its] = [d. RDesc d \<leftarrow> map erase_room_item its]" (is ?A)
  "map erase_exit [e. RExit e \<leftarrow> its] = [e. RExit e \<leftarrow> map erase_room_item its]" (is ?B)
  "map erase_component [c. RComponent c \<leftarrow> its] = [c. RComponent c \<leftarrow> map erase_room_item its]" (is ?C)
proof -
  have "?A \<and> ?B \<and> ?C"
  proof (induction its)
    case (Cons it its)
    then show ?case by (cases it) (simp_all add: erase_room_item_simps)
  qed simp
  then show ?A ?B ?C by blast+
qed

end
