(* ===== verification/Lang_Read.thy ===== *)
theory Lang_Read
  imports Lang_Tree
begin

text \<open>
  Reading back the declarations: Rooms, Zones, templates, removals, packs and whole files.
\<close>

section \<open>Items between braces\<close>

text \<open>
  The loops over the items of a Component, a Room, a Zone and a template are one loop: until the closing
  brace, an item is read and added to what was read before.
\<close>

definition keyword :: "string \<Rightarrow> bool" where
  "keyword w \<longleftrightarrow> w \<in> {''pack'', ''zone'', ''template'', ''fallback'', ''component'', ''room'', ''desc'', ''exit'', ''remove''}"

lemma keyword_simps [simp]:
  "keyword ''pack''" "keyword ''zone''" "keyword ''template''" "keyword ''fallback''" "keyword ''component''" "keyword ''room''"
  "keyword ''desc''" "keyword ''exit''" "keyword ''remove''"
  by (simp_all add: keyword_def)

definition led :: "(Kind \<times> string) list \<Rightarrow> bool" where
  "led vs \<longleftrightarrow> (\<exists>w ws. vs = word w # ws \<and> keyword w)"

lemma led_Cons [simp]: "keyword w \<Longrightarrow> led (word w # ws)" "keyword w \<Longrightarrow> led ((LowerID, w) # ws)"
  by (auto simp: led_def word_def)

lemma led_follows:
  assumes "led (map view us)"
  shows "follows (us @ rest)" "\<not> atKind RBrace (us @ rest)" "\<not> atKind EOF (us @ rest)"
proof -
  from assms obtain w ws where w: "map view us = word w # ws" "keyword w" by (auto simp: led_def)
  show "follows (us @ rest)" by (rule follows_word[OF w(1) w(2)[unfolded keyword_def]])
  show "\<not> atKind RBrace (us @ rest)" "\<not> atKind EOF (us @ rest)" using w(1) by (auto simp: map_eq_Cons_conv word_def)
qed

lemma led_append: "led vs \<Longrightarrow> led (vs @ ws)"
  by (auto simp: led_def)

lemma view_split: "map view us = vs @ ws \<Longrightarrow> (\<And>u w. us = u @ w \<Longrightarrow> map view u = vs \<Longrightarrow> map view w = ws \<Longrightarrow> R) \<Longrightarrow> R"
  unfolding map_eq_append_conv by blast

locale item_loop =
  fixes item :: "Token list \<Rightarrow> 'i parsed" and add :: "'i \<Rightarrow> 'b \<Rightarrow> 'b" and loop :: "'b \<Rightarrow> Token list \<Rightarrow> 'b parsed"
  assumes stop: "atKind RBrace ts \<Longrightarrow> loop b ts = Inr (b, ts)"
    and open_end: "\<not> atKind RBrace ts \<Longrightarrow> atKind EOF ts \<Longrightarrow> \<exists>e. loop b ts = Inl e"
    and step: "\<not> atKind RBrace ts \<Longrightarrow> \<not> atKind EOF ts \<Longrightarrow> loop b ts = andThen (item ts) (\<lambda>it ts'. loop (add it b) ts')"
    and shrinks: "item ts = Inr (it, ts') \<Longrightarrow> length ts' < length ts"
begin

text \<open>The loop reads back the tokens of a list of items.\<close>

lemma read_items:
  assumes "\<And>it rest. it \<in> set its \<Longrightarrow> follows rest \<Longrightarrow> reads item (tr it) rest (\<lambda>jt. er jt = er it)" "\<And>it. it \<in> set its \<Longrightarrow> led (tr it)"
    "map view us = concat (map tr its)" "atKind RBrace rest"
  shows "\<exists>js. loop b (us @ rest) = Inr (fold add js b, rest) \<and> map er js = map er its"
  using assms
proof (induction its arbitrary: us b)
  case Nil
  then show ?case using stop[of rest] by simp
next
  case (Cons it its)
  have "map view us = tr it @ concat (map tr its)" using Cons.prems(3) by simp
  then obtain u us' where u: "us = u @ us'" "map view u = tr it" "map view us' = concat (map tr its)" by (rule view_split)
  have f: "follows (us' @ rest)"
  proof (cases its)
    case Nil
    then show ?thesis using u(3) Cons.prems(4) by (cases rest) (auto simp: follows_def)
  next
    case (Cons jt jts)
    have "led (tr jt @ concat (map tr jts))" by (rule led_append) (simp add: Cons.prems(2) Cons)
    then show ?thesis using u(3) Cons by (auto intro!: led_follows(1))
  qed
  have "reads item (tr it) (us' @ rest) (\<lambda>jt. er jt = er it)" using Cons.prems(1)[of it] f by simp
  then obtain j where j: "item (u @ us' @ rest) = Inr (j, us' @ rest)" "er j = er it" using u(2) by (rule readsE)
  have "\<exists>js. loop (add j b) (us' @ rest) = Inr (fold add js (add j b), rest) \<and> map er js = map er its"
    by (rule Cons.IH[OF _ _ u(3) Cons.prems(4)]) (use Cons.prems(1,2) in simp_all)
  then obtain js where js: "loop (add j b) (us' @ rest) = Inr (fold add js (add j b), rest)" "map er js = map er its" by blast
  have "led (map view u)" using Cons.prems(2)[of it] u(2) by simp
  then have "\<not> atKind RBrace (u @ us' @ rest)" "\<not> atKind EOF (u @ us' @ rest)" by (rule led_follows)+
  then have "loop b (us @ rest) = Inr (fold add (j # js) b, rest)" using step[of "u @ us' @ rest" b] j(1) js(1) u(1) by simp
  then show ?case using js(2) j(2) by (intro exI[of _ "j # js"]) simp
qed

end

section \<open>Rooms\<close>

lemma room_items_step:
  "atKind RBrace ts \<Longrightarrow> roomItems b ts = Inr (b, ts)"
  "\<not> atKind RBrace ts \<Longrightarrow> atKind EOF ts \<Longrightarrow> \<exists>e. roomItems b ts = Inl e"
  "\<not> atKind RBrace ts \<Longrightarrow> \<not> atKind EOF ts \<Longrightarrow> roomItems b ts = andThen (parseRoomItem ts) (\<lambda>it ts'. roomItems (addRoomItem it b) ts')"
  unfolding roomItems.simps[of b ts] by (auto simp: fail_def)

interpretation room_items: item_loop parseRoomItem addRoomItem roomItems
  by unfold_locales (rule room_items_step parseRoomItem_less; assumption)+

lemma led_room_item: "led (tree_room_item br it)"
  by (cases it) (simp_all add: tree_room_item_def tree_desc_def tree_exit_def tree_component_def)

lemma erase_lit_read: "wf_lit l \<Longrightarrow> erase_lit \<lparr>sl_Pos = p, sl_Raw = sl_Raw l, sl_Value = decodeString (sl_Raw l)\<rparr> = erase_lit l"
  by (cases l) (simp add: wf_lit_def erase_lit_def)

lemma erase_room_eq:
  assumes "wf_room r" "map erase_room_item js = map erase_room_item (lr_Items r)"
    "b = \<lparr>lr_Pos = pa, lr_Close = pb, lr_ID = lr_ID r, lr_IDPos = pc, lr_Title = l, lr_Descs = [], lr_Exits = [], lr_Components = [], lr_Items = []\<rparr>"
    "erase_lit l = erase_lit (lr_Title r)"
  shows "erase_room ((fold addRoomItem js b)\<lparr>lr_Close := q\<rparr>) = erase_room r"
proof -
  have p: "lr_Descs r = [d. RDesc d \<leftarrow> lr_Items r]" "lr_Exits r = [e. RExit e \<leftarrow> lr_Items r]" "lr_Components r = [c. RComponent c \<leftarrow> lr_Items r]"
    using assms(1) unfolding wf_room_def by blast+
  have "map erase_desc [d. RDesc d \<leftarrow> js] = map erase_desc (lr_Descs r)" unfolding p erase_room_parts assms(2) by (rule refl)
  moreover have "map erase_exit [d. RExit d \<leftarrow> js] = map erase_exit (lr_Exits r)" unfolding p erase_room_parts assms(2) by (rule refl)
  moreover have "map erase_component [d. RComponent d \<leftarrow> js] = map erase_component (lr_Components r)" unfolding p erase_room_parts assms(2) by (rule refl)
  ultimately show ?thesis using assms(2-4) unfolding fold_addRoomItem erase_room_def by (cases r) simp
qed

lemma read_room:
  assumes "wf_room r" "room_kept br r"
  shows "reads parseRoom (tree_room br r) rest (\<lambda>q. erase_room q = erase_room r)"
proof (rule readsI)
  fix us assume us: "map view us = tree_room br r"
  then obtain a i t lb body rb where u: "us = a # i # t # lb # body @ [rb]" "view i = word (lr_ID r)" "view t = (StringK, sl_Raw (lr_Title r))" "tok_Kind lb = LBrace"
      "map view body = concat (map (tree_room_item br) (lr_Items r))" "tok_Kind rb = RBrace"
    by (auto simp: tree_room_def tree_split)
  let ?l = "\<lparr>sl_Pos = tok_Pos t, sl_Raw = sl_Raw (lr_Title r), sl_Value = decodeString (sl_Raw (lr_Title r))\<rparr>"
  let ?b = "\<lparr>lr_Pos = tok_Pos a, lr_Close = p0, lr_ID = lr_ID r, lr_IDPos = tok_Pos i, lr_Title = ?l, lr_Descs = [], lr_Exits = [], lr_Components = [], lr_Items = []\<rparr>"
  have wf: "list_all wf_room_item (lr_Items r)" "list_all (room_item_kept br) (lr_Items r)" "closed_lit (sl_Raw (lr_Title r))" "wf_lit (lr_Title r)"
    using assms by (simp_all add: wf_room_def room_kept_def wf_lit_def)
  have "\<exists>js. roomItems ?b (body @ rb # rest) = Inr (fold addRoomItem js ?b, rb # rest) \<and> map erase_room_item js = map erase_room_item (lr_Items r)"
    by (rule room_items.read_items[OF _ led_room_item u(5)]) (use wf u(6) read_room_item in \<open>auto simp: list_all_iff\<close>)
  then obtain js where
    js: "roomItems ?b (body @ rb # rest) = Inr (fold addRoomItem js ?b, rb # rest)" "map erase_room_item js = map erase_room_item (lr_Items r)" by blast
  have "parseRoom (us @ rest) = Inr ((fold addRoomItem js ?b)\<lparr>lr_Close := tok_Pos rb\<rparr>, rest)"
    using u wf(3) js(1) by (simp add: parseRoom_def word_def)
  moreover have "erase_room ((fold addRoomItem js ?b)\<lparr>lr_Close := tok_Pos rb\<rparr>) = erase_room r"
    by (rule erase_room_eq[OF assms(1) js(2) refl erase_lit_read[OF wf(4)]])
  ultimately show "\<exists>q. parseRoom (us @ rest) = Inr (q, rest) \<and> erase_room q = erase_room r" by blast
qed

section \<open>Zones\<close>

definition tree_zone_item :: "breaks \<Rightarrow> ZoneItem \<Rightarrow> (Kind \<times> string) list" where
  "tree_zone_item br it = (case it of ZFallback f \<Rightarrow> tree_fallback f | ZComponent c \<Rightarrow> tree_component c | ZRoom r \<Rightarrow> tree_room br r)"

definition tree_zone :: "breaks \<Rightarrow> ZoneDecl \<Rightarrow> (Kind \<times> string) list" where
  "tree_zone br z = [word ''zone'', word (lz_ID z), (StringK, sl_Raw (lz_Name z)), lbrace] @ concat (map (tree_zone_item br) (lz_Items z)) @ [rbrace]"

definition zone_item_kept :: "breaks \<Rightarrow> ZoneItem \<Rightarrow> bool" where
  "zone_item_kept br it = (case it of ZRoom r \<Rightarrow> room_kept br r | _ \<Rightarrow> True)"

definition zone_kept :: "breaks \<Rightarrow> ZoneDecl \<Rightarrow> bool" where
  "zone_kept br z \<longleftrightarrow> list_all (zone_item_kept br) (lz_Items z)"

lemma read_zone_item:
  assumes "wf_zone_item it" "zone_item_kept br it"
  shows "reads parseZoneItem (tree_zone_item br it) rest (\<lambda>jt. erase_zone_item jt = erase_zone_item it)"
proof (rule readsI)
  fix us assume us: "map view us = tree_zone_item br it"
  show "\<exists>jt. parseZoneItem (us @ rest) = Inr (jt, rest) \<and> erase_zone_item jt = erase_zone_item it"
  proof (cases it)
    case (ZFallback f)
    with us have v: "map view us = tree_fallback f" by (simp add: tree_zone_item_def)
    from read_fallback v obtain d' where "parseFallback (us @ rest) = Inr (d', rest)" "erase_fallback d' = erase_fallback f" by (rule readsE)
    moreover have "atWord ''fallback'' (us @ rest)" using v by (auto simp: tree_fallback_def tree_split word_def)
    ultimately show ?thesis using ZFallback by (simp add: parseZoneItem_def erase_zone_item_def)
  next
    case (ZComponent c)
    with us have v: "map view us = tree_component c" by (simp add: tree_zone_item_def)
    have "wf_component c" using assms(1) ZComponent by (simp add: wf_zone_item_def)
    from read_component[OF this] v obtain d' where "parseComponent (us @ rest) = Inr (d', rest)" "erase_component d' = erase_component c" by (rule readsE)
    moreover have "atWord ''component'' (us @ rest)" "\<not> atWord ''fallback'' (us @ rest)" using v by (auto simp: tree_component_def tree_split word_def)
    ultimately show ?thesis using ZComponent by (simp add: parseZoneItem_def erase_zone_item_def)
  next
    case (ZRoom r)
    with us have v: "map view us = tree_room br r" by (simp add: tree_zone_item_def)
    have "wf_room r" "room_kept br r" using assms ZRoom by (simp_all add: wf_zone_item_def zone_item_kept_def)
    from read_room[OF this] v obtain d' where "parseRoom (us @ rest) = Inr (d', rest)" "erase_room d' = erase_room r" by (rule readsE)
    moreover have "atWord ''room'' (us @ rest)" "\<not> atWord ''fallback'' (us @ rest)" "\<not> atWord ''component'' (us @ rest)"
      using v by (auto simp: tree_room_def tree_split word_def)
    ultimately show ?thesis using ZRoom by (simp add: parseZoneItem_def erase_zone_item_def)
  qed
qed

lemma zone_items_step:
  "atKind RBrace ts \<Longrightarrow> zoneItems b ts = Inr (b, ts)"
  "\<not> atKind RBrace ts \<Longrightarrow> atKind EOF ts \<Longrightarrow> \<exists>e. zoneItems b ts = Inl e"
  "\<not> atKind RBrace ts \<Longrightarrow> \<not> atKind EOF ts \<Longrightarrow> zoneItems b ts = andThen (parseZoneItem ts) (\<lambda>it ts'. zoneItems (addZoneItem it b) ts')"
  unfolding zoneItems.simps[of b ts] by (auto simp: fail_def)

interpretation zone_items: item_loop parseZoneItem addZoneItem zoneItems
  by unfold_locales (rule zone_items_step parseZoneItem_less; assumption)+

lemma led_zone_item: "led (tree_zone_item br it)"
  by (cases it) (simp_all add: tree_zone_item_def tree_fallback_def tree_room_def tree_component_def)

lemma addZoneItem_simps:
  "addZoneItem (ZFallback d) z = z\<lparr>lz_Fallbacks := lz_Fallbacks z @ [d], lz_Items := lz_Items z @ [ZFallback d]\<rparr>"
  "addZoneItem (ZComponent c) z = z\<lparr>lz_Components := lz_Components z @ [c], lz_Items := lz_Items z @ [ZComponent c]\<rparr>"
  "addZoneItem (ZRoom r) z = z\<lparr>lz_Rooms := lz_Rooms z @ [r], lz_Items := lz_Items z @ [ZRoom r]\<rparr>"
  by (simp_all add: addZoneItem_def)

lemma fold_addZoneItem:
  "fold addZoneItem its b = b\<lparr>lz_Fallbacks := lz_Fallbacks b @ [d. ZFallback d \<leftarrow> its], lz_Components := lz_Components b @ [c. ZComponent c \<leftarrow> its],
     lz_Rooms := lz_Rooms b @ [e. ZRoom e \<leftarrow> its], lz_Items := lz_Items b @ its\<rparr>"
proof (induction its arbitrary: b)
  case (Cons it its)
  show ?case by (cases it) (simp_all add: Cons addZoneItem_simps)
qed simp

lemma erase_zone_parts:
  "map erase_fallback [d. ZFallback d \<leftarrow> its] = [d. ZFallback d \<leftarrow> map erase_zone_item its]" (is ?A)
  "map erase_component [c. ZComponent c \<leftarrow> its] = [c. ZComponent c \<leftarrow> map erase_zone_item its]" (is ?B)
  "map erase_room [e. ZRoom e \<leftarrow> its] = [e. ZRoom e \<leftarrow> map erase_zone_item its]" (is ?C)
proof -
  have "?A \<and> ?B \<and> ?C"
  proof (induction its)
    case (Cons it its)
    then show ?case by (cases it) (simp_all add: erase_zone_item_def)
  qed simp
  then show ?A ?B ?C by blast+
qed

lemma erase_zone_eq:
  assumes "wf_zone z" "map erase_zone_item js = map erase_zone_item (lz_Items z)"
    "b = \<lparr>lz_Pos = pa, lz_Close = pb, lz_ID = lz_ID z, lz_IDPos = pc, lz_Name = l, lz_Fallbacks = [], lz_Components = [], lz_Rooms = [], lz_Items = []\<rparr>"
    "erase_lit l = erase_lit (lz_Name z)"
  shows "erase_zone ((fold addZoneItem js b)\<lparr>lz_Close := q\<rparr>) = erase_zone z"
proof -
  have p: "lz_Fallbacks z = [d. ZFallback d \<leftarrow> lz_Items z]" "lz_Components z = [c. ZComponent c \<leftarrow> lz_Items z]" "lz_Rooms z = [r. ZRoom r \<leftarrow> lz_Items z]"
    using assms(1) unfolding wf_zone_def by blast+
  have "map erase_fallback [d. ZFallback d \<leftarrow> js] = map erase_fallback (lz_Fallbacks z)" unfolding p erase_zone_parts assms(2) by (rule refl)
  moreover have "map erase_component [d. ZComponent d \<leftarrow> js] = map erase_component (lz_Components z)" unfolding p erase_zone_parts assms(2) by (rule refl)
  moreover have "map erase_room [d. ZRoom d \<leftarrow> js] = map erase_room (lz_Rooms z)" unfolding p erase_zone_parts assms(2) by (rule refl)
  ultimately show ?thesis using assms(2-4) unfolding fold_addZoneItem erase_zone_def by (cases z) simp
qed

lemma read_zone:
  assumes "wf_zone z" "zone_kept br z"
  shows "reads parseZone (tree_zone br z) rest (\<lambda>q. erase_zone q = erase_zone z)"
proof (rule readsI)
  fix us assume us: "map view us = tree_zone br z"
  then obtain a i t lb body rb where u: "us = a # i # t # lb # body @ [rb]" "view i = word (lz_ID z)" "view t = (StringK, sl_Raw (lz_Name z))" "tok_Kind lb = LBrace"
      "map view body = concat (map (tree_zone_item br) (lz_Items z))" "tok_Kind rb = RBrace"
    by (auto simp: tree_zone_def tree_split)
  let ?l = "\<lparr>sl_Pos = tok_Pos t, sl_Raw = sl_Raw (lz_Name z), sl_Value = decodeString (sl_Raw (lz_Name z))\<rparr>"
  let ?b = "\<lparr>lz_Pos = tok_Pos a, lz_Close = p0, lz_ID = lz_ID z, lz_IDPos = tok_Pos i, lz_Name = ?l, lz_Fallbacks = [], lz_Components = [], lz_Rooms = [], lz_Items = []\<rparr>"
  have wf: "list_all wf_zone_item (lz_Items z)" "list_all (zone_item_kept br) (lz_Items z)" "closed_lit (sl_Raw (lz_Name z))" "wf_lit (lz_Name z)"
    using assms by (simp_all add: wf_zone_def zone_kept_def wf_lit_def)
  have "\<exists>js. zoneItems ?b (body @ rb # rest) = Inr (fold addZoneItem js ?b, rb # rest) \<and> map erase_zone_item js = map erase_zone_item (lz_Items z)"
    by (rule zone_items.read_items[OF _ led_zone_item u(5)]) (use wf u(6) read_zone_item in \<open>auto simp: list_all_iff\<close>)
  then obtain js where
    js: "zoneItems ?b (body @ rb # rest) = Inr (fold addZoneItem js ?b, rb # rest)" "map erase_zone_item js = map erase_zone_item (lz_Items z)" by blast
  have "parseZone (us @ rest) = Inr ((fold addZoneItem js ?b)\<lparr>lz_Close := tok_Pos rb\<rparr>, rest)"
    using u wf(3) js(1) by (simp add: parseZone_def word_def)
  moreover have "erase_zone ((fold addZoneItem js ?b)\<lparr>lz_Close := tok_Pos rb\<rparr>) = erase_zone z"
    by (rule erase_zone_eq[OF assms(1) js(2) refl erase_lit_read[OF wf(4)]])
  ultimately show "\<exists>q. parseZone (us @ rest) = Inr (q, rest) \<and> erase_zone q = erase_zone z" by blast
qed

section \<open>Templates\<close>

definition tree_template_item :: "TemplateItem \<Rightarrow> (Kind \<times> string) list" where
  "tree_template_item it = (case it of TComponent c \<Rightarrow> tree_component c | TRemove r \<Rightarrow> tree_remove r)"

definition tree_template :: "TemplateDecl \<Rightarrow> (Kind \<times> string) list" where
  "tree_template t = [word ''template'', (UpperID, lt_Name t)] @ concat (map tree_head (lt_Heads t)) @ [lbrace]
     @ concat (map tree_template_item (lt_Items t)) @ [rbrace]"

lemma read_head:
  assumes "wf_head h"
  shows "reads parseHead (tree_head h) rest (\<lambda>g. erase_head g = erase_head h)"
proof (rule readsI)
  fix us assume us: "map view us = tree_head h"
  show "\<exists>g. parseHead (us @ rest) = Inr (g, rest) \<and> erase_head g = erase_head h"
  proof (cases "th_Kind h = ''''")
    case False
    with us obtain a t where u: "us = [a, t]" "view a = word ''kind''" "view t = word (th_Kind h)" by (auto simp: tree_head_def tree_split)
    have "th_Kind h \<in> {''entity'', ''item'', ''behavior''}" "th_Extends h = ''''" using assms False by (auto simp: wf_head_def)
    then have "parseHead (us @ rest) = Inr (\<lparr>th_Pos = tok_Pos a, th_Kind = th_Kind h, th_Extends = '''', th_RefPos = tok_Pos t\<rparr>, rest)"
      using u by (auto simp: parseHead_def word_def)
    with \<open>th_Extends h = ''''\<close> show ?thesis by (cases h) (simp add: erase_head_def)
  next
    case True
    with us obtain a us' where u: "us = a # us'" "view a = word ''extends''" "map view us' = tree_ref (th_Extends h)" by (auto simp: tree_head_def tree_split)
    from read_ref(1) u(3) obtain r where "parseTemplateRef (us' @ rest) = Inr (r, rest)" "fst r = th_Extends h" by (rule readsE)
    with u True show ?thesis by (cases h; cases r) (simp add: parseHead_def word_def erase_head_def)
  qed
qed

lemma read_heads:
  "list_all wf_head hs \<Longrightarrow> map view us = concat (map tree_head hs) \<Longrightarrow> atKind LBrace rest
    \<Longrightarrow> \<exists>gs. headsLoop acc (us @ rest) = Inr (acc @ gs, rest) \<and> map erase_head gs = map erase_head hs"
proof (induction hs arbitrary: us acc)
  case Nil
  then have "\<not> (atWord ''kind'' rest \<or> atWord ''extends'' rest)" by (cases rest) auto
  then show ?case using Nil unfolding headsLoop.simps[of acc "us @ rest"] by simp
next
  case (Cons h hs)
  have "map view us = tree_head h @ concat (map tree_head hs)" using Cons.prems(2) by simp
  then obtain u us' where u: "us = u @ us'" "map view u = tree_head h" "map view us' = concat (map tree_head hs)" by (rule view_split)
  have "wf_head h" "list_all wf_head hs" using Cons.prems(1) by simp_all
  from read_head[OF this(1)] u(2) obtain g where g: "parseHead (u @ us' @ rest) = Inr (g, us' @ rest)" "erase_head g = erase_head h" by (rule readsE)
  from Cons.IH[OF \<open>list_all wf_head hs\<close> u(3) Cons.prems(3), of "acc @ [g]"] obtain gs where
    gs: "headsLoop (acc @ [g]) (us' @ rest) = Inr ((acc @ [g]) @ gs, rest)" "map erase_head gs = map erase_head hs" by blast
  have "atWord ''kind'' (u @ us' @ rest) \<or> atWord ''extends'' (u @ us' @ rest)"
    using u(2) by (auto simp: tree_head_def tree_split word_def split: if_splits)
  then have "headsLoop acc (u @ us' @ rest) = Inr (acc @ g # gs, rest)"
    using g(1) gs(1) unfolding headsLoop.simps[of acc "u @ us' @ rest"] by simp
  then show ?case using u(1) g(2) gs(2) by (intro exI[of _ "g # gs"]) simp
qed

lemma read_remove:
  assumes "wf_remove r"
  shows "reads parseRemove (tree_remove r) rest (\<lambda>q. erase_remove q = erase_remove r)"
proof (rule readsI)
  fix us assume us: "map view us = tree_remove r"
  have l: "length (Split (CHR ''.'') (rv_Component r)) \<noteq> 1" using assms by (simp add: wf_remove_def)
  show "\<exists>q. parseRemove (us @ rest) = Inr (q, rest) \<and> erase_remove q = erase_remove r"
  proof (cases "rv_Field r = ''''")
    case True
    with us obtain a b us' where u: "us = a # b # us'" "view b = word ''component''" "map view us' = tree_ref (rv_Component r)"
      by (auto simp: tree_remove_def tree_split)
    from read_ref(2)[OF l] u(3) obtain n where "parseComponentRef (us' @ rest) = Inr (n, rest)" "fst n = rv_Component r" by (rule readsE)
    with u True show ?thesis by (cases r; cases n) (simp add: parseRemove_def word_def erase_remove_def)
  next
    case False
    with us obtain a b c d us' where u: "us = a # b # c # d # us'" "view b = word ''field''" "view c = word (rv_Field r)" "view d = word ''from''"
      "map view us' = tree_ref (rv_Component r)"
      by (auto simp: tree_remove_def tree_split)
    from read_ref(2)[OF l] u(5) obtain n where "parseComponentRef (us' @ rest) = Inr (n, rest)" "fst n = rv_Component r" by (rule readsE)
    with u False show ?thesis by (cases r; cases n) (simp add: parseRemove_def word_def erase_remove_def)
  qed
qed

lemma read_template_item:
  assumes "wf_template_item it"
  shows "reads parseTemplateItem (tree_template_item it) rest (\<lambda>jt. erase_template_item jt = erase_template_item it)"
proof (rule readsI)
  fix us assume us: "map view us = tree_template_item it"
  show "\<exists>jt. parseTemplateItem (us @ rest) = Inr (jt, rest) \<and> erase_template_item jt = erase_template_item it"
  proof (cases it)
    case (TComponent c)
    with us have v: "map view us = tree_component c" by (simp add: tree_template_item_def)
    have "wf_component c" using assms TComponent by (simp add: wf_template_item_def)
    from read_component[OF this] v obtain d' where "parseComponent (us @ rest) = Inr (d', rest)" "erase_component d' = erase_component c" by (rule readsE)
    moreover have "atWord ''component'' (us @ rest)" using v by (auto simp: tree_component_def tree_split word_def)
    ultimately show ?thesis using TComponent by (simp add: parseTemplateItem_def erase_template_item_def)
  next
    case (TRemove r)
    with us have v: "map view us = tree_remove r" by (simp add: tree_template_item_def)
    have "wf_remove r" using assms TRemove by (simp add: wf_template_item_def)
    from read_remove[OF this] v obtain d' where "parseRemove (us @ rest) = Inr (d', rest)" "erase_remove d' = erase_remove r" by (rule readsE)
    moreover have "atWord ''remove'' (us @ rest)" "\<not> atWord ''component'' (us @ rest)"
      using v by (auto simp: tree_remove_def tree_split word_def split: if_splits)
    ultimately show ?thesis using TRemove by (simp add: parseTemplateItem_def erase_template_item_def)
  qed
qed

lemma template_items_step:
  "atKind RBrace ts \<Longrightarrow> templateItems b ts = Inr (b, ts)"
  "\<not> atKind RBrace ts \<Longrightarrow> atKind EOF ts \<Longrightarrow> \<exists>e. templateItems b ts = Inl e"
  "\<not> atKind RBrace ts \<Longrightarrow> \<not> atKind EOF ts \<Longrightarrow> templateItems b ts = andThen (parseTemplateItem ts) (\<lambda>it ts'. templateItems (addTemplateItem it b) ts')"
  unfolding templateItems.simps[of b ts] by (auto simp: fail_def)

interpretation template_items: item_loop parseTemplateItem addTemplateItem templateItems
  by unfold_locales (rule template_items_step parseTemplateItem_less; assumption)+

lemma led_template_item: "led (tree_template_item it)"
  by (cases it) (simp_all add: tree_template_item_def tree_remove_def tree_component_def)

lemma addTemplateItem_simps:
  "addTemplateItem (TComponent c) t = t\<lparr>lt_Components := lt_Components t @ [c], lt_Items := lt_Items t @ [TComponent c]\<rparr>"
  "addTemplateItem (TRemove r) t = t\<lparr>lt_Removes := lt_Removes t @ [r], lt_Items := lt_Items t @ [TRemove r]\<rparr>"
  by (simp_all add: addTemplateItem_def)

lemma fold_addTemplateItem:
  "fold addTemplateItem its b = b\<lparr>lt_Components := lt_Components b @ [c. TComponent c \<leftarrow> its], lt_Removes := lt_Removes b @ [d. TRemove d \<leftarrow> its],
     lt_Items := lt_Items b @ its\<rparr>"
proof (induction its arbitrary: b)
  case (Cons it its)
  show ?case by (cases it) (simp_all add: Cons addTemplateItem_simps)
qed simp

lemma erase_template_parts:
  "map erase_component [c. TComponent c \<leftarrow> its] = [c. TComponent c \<leftarrow> map erase_template_item its]" (is ?A)
  "map erase_remove [d. TRemove d \<leftarrow> its] = [d. TRemove d \<leftarrow> map erase_template_item its]" (is ?B)
proof -
  have "?A \<and> ?B"
  proof (induction its)
    case (Cons it its)
    then show ?case by (cases it) (simp_all add: erase_template_item_def)
  qed simp
  then show ?A ?B by blast+
qed

lemma erase_template_eq:
  assumes "wf_template t" "map erase_template_item js = map erase_template_item (lt_Items t)" "map erase_head hs = map erase_head (lt_Heads t)"
    "b = \<lparr>lt_Pos = pa, lt_Close = pb, lt_Name = lt_Name t, lt_NamePos = pc, lt_Heads = hs, lt_Components = [], lt_Removes = [], lt_Items = []\<rparr>"
  shows "erase_template ((fold addTemplateItem js b)\<lparr>lt_Close := q\<rparr>) = erase_template t"
proof -
  have p: "lt_Components t = [c. TComponent c \<leftarrow> lt_Items t]" "lt_Removes t = [r. TRemove r \<leftarrow> lt_Items t]"
    using assms(1) unfolding wf_template_def by blast+
  have "map erase_component [d. TComponent d \<leftarrow> js] = map erase_component (lt_Components t)" unfolding p erase_template_parts assms(2) by (rule refl)
  moreover have "map erase_remove [d. TRemove d \<leftarrow> js] = map erase_remove (lt_Removes t)" unfolding p erase_template_parts assms(2) by (rule refl)
  ultimately show ?thesis using assms(2-4) unfolding fold_addTemplateItem erase_template_def by (cases t) simp
qed

lemma read_template:
  assumes "wf_template t"
  shows "reads parseTemplate (tree_template t) rest (\<lambda>q. erase_template q = erase_template t)"
proof (rule readsI)
  fix us assume us: "map view us = tree_template t"
  then obtain a i hs lb body rb where u: "us = a # i # hs @ lb # body @ [rb]" "view i = (UpperID, lt_Name t)" "map view hs = concat (map tree_head (lt_Heads t))"
      "tok_Kind lb = LBrace" "map view body = concat (map tree_template_item (lt_Items t))" "tok_Kind rb = RBrace"
    by (auto simp: tree_template_def tree_split)
  have wf: "list_all wf_head (lt_Heads t)" "list_all wf_template_item (lt_Items t)"
    using assms by (simp_all add: wf_template_def)
  from read_heads[OF wf(1) u(3), of "lb # body @ rb # rest" "[]"] u(4) obtain gs where
    g: "headsLoop [] (hs @ lb # body @ rb # rest) = Inr (gs, lb # body @ rb # rest)" "map erase_head gs = map erase_head (lt_Heads t)" by auto
  let ?b = "\<lparr>lt_Pos = tok_Pos a, lt_Close = p0, lt_Name = lt_Name t, lt_NamePos = tok_Pos i, lt_Heads = gs, lt_Components = [], lt_Removes = [], lt_Items = []\<rparr>"
  have "\<exists>js. templateItems ?b (body @ rb # rest) = Inr (fold addTemplateItem js ?b, rb # rest) \<and> map erase_template_item js = map erase_template_item (lt_Items t)"
    by (rule template_items.read_items[OF _ led_template_item u(5)]) (use wf u(6) read_template_item in \<open>auto simp: list_all_iff\<close>)
  then obtain js where
    js: "templateItems ?b (body @ rb # rest) = Inr (fold addTemplateItem js ?b, rb # rest)" "map erase_template_item js = map erase_template_item (lt_Items t)" by blast
  have "parseTemplate (us @ rest) = Inr ((fold addTemplateItem js ?b)\<lparr>lt_Close := tok_Pos rb\<rparr>, rest)"
    using u g(1) js(1) by (simp add: parseTemplate_def word_def)
  moreover have "erase_template ((fold addTemplateItem js ?b)\<lparr>lt_Close := tok_Pos rb\<rparr>) = erase_template t"
    by (rule erase_template_eq[OF assms js(2) g(2) refl])
  ultimately show "\<exists>q. parseTemplate (us @ rest) = Inr (q, rest) \<and> erase_template q = erase_template t" by blast
qed

section \<open>Packs, declarations and files\<close>

lemma FormatNat_isDigit: "c \<in> set (FormatNat n) \<Longrightarrow> isDigit (ru c)"
  using FormatNat_digits[of c n] by (simp add: isDigit_def)

lemma ParseUint_FormatUint: "ParseUint 32 (FormatUint (v :: 32 word)) = Some (unat v)"
proof -
  have "digits (FormatUint v)" by (auto simp: digits_def FormatUint_def FormatNat_isDigit)
  moreover have "unat v < 2 ^ 32" using unsigned_less[of v] by simp
  ultimately show ?thesis by (simp add: ParseUint_def FormatUint_def parse_FormatNat)
qed

lemma read_pack:
  assumes "follows rest"
  shows "reads parsePack (tree_pack d) rest (\<lambda>q. erase_pack q = erase_pack d)"
proof (rule readsI)
  fix us assume us: "map view us = tree_pack d"
  show "\<exists>q. parsePack (us @ rest) = Inr (q, rest) \<and> erase_pack q = erase_pack d"
  proof (cases "lp_Requires d")
    case None
    with us obtain a us' where u: "us = a # us'" "map view us' = tree_pack_ref (lp_Name d)" by (auto simp: tree_pack_def tree_split)
    from read_pack_ref[OF followsD(1)[OF assms]] u(2) obtain n where "parsePackRef (us' @ rest) = Inr (n, rest)" "fst n = lp_Name d" by (rule readsE)
    with u None followsD(3)[OF assms] show ?thesis by (cases d; cases n) (simp add: parsePack_def erase_pack_def)
  next
    case (Some q)
    with us obtain a us1 b us2 c v where u: "us = a # us1 @ b # us2 @ [c, v]" "map view us1 = tree_pack_ref (lp_Name d)" "view b = word ''requires''"
      "map view us2 = tree_pack_ref (rq_Pack q)" "view c = (At, [CHR 0x40])" "view v = (IntK, FormatUint (rq_Version q))"
      by (auto simp: tree_pack_def tree_split)
    have "\<not> atKind Dot (b # us2 @ c # v # rest)" using u(3) by (simp add: word_def)
    from read_pack_ref[OF this] u(2) obtain n where n: "parsePackRef (us1 @ b # us2 @ c # v # rest) = Inr (n, b # us2 @ c # v # rest)" "fst n = lp_Name d" by (rule readsE)
    have "\<not> atKind Dot (c # v # rest)" using u(5) by simp
    from read_pack_ref[OF this] u(4) obtain m where m: "parsePackRef (us2 @ c # v # rest) = Inr (m, c # v # rest)" "fst m = rq_Pack q" by (rule readsE)
    have e: "parsePack (us @ rest) = Inr (\<lparr>lp_Pos = tok_Pos a, lp_Name = lp_Name d, lp_NamePos = snd n, lp_Requires = Some \<lparr>rq_Pack = rq_Pack q,
        rq_PackPos = snd m, rq_Version = rq_Version q, rq_VersionPos = tok_Pos v\<rparr>\<rparr>, rest)"
      using u(1,3,5,6) n m by (cases n; cases m) (simp add: parsePack_def word_def ParseUint_FormatUint)
    show ?thesis unfolding e using Some by (cases d; cases q) (simp add: erase_pack_def)
  qed
qed

definition tree_decl :: "breaks \<Rightarrow> Decl \<Rightarrow> (Kind \<times> string) list" where
  "tree_decl br d = (case d of DPack p \<Rightarrow> tree_pack p | DZone z \<Rightarrow> tree_zone br z | DTemplate t \<Rightarrow> tree_template t)"

definition decl_kept :: "breaks \<Rightarrow> Decl \<Rightarrow> bool" where
  "decl_kept br d = (case d of DZone z \<Rightarrow> zone_kept br z | _ \<Rightarrow> True)"

lemma read_decl:
  assumes "wf_decl d" "decl_kept br d" "follows rest"
  shows "reads parseDecl (tree_decl br d) rest (\<lambda>e. erase e = erase d)"
proof (rule readsI)
  fix us assume us: "map view us = tree_decl br d"
  show "\<exists>e. parseDecl (us @ rest) = Inr (e, rest) \<and> erase e = erase d"
  proof (cases d)
    case (DPack p)
    with us have v: "map view us = tree_pack p" by (simp add: tree_decl_def)
    from read_pack[OF assms(3)] v obtain e where "parsePack (us @ rest) = Inr (e, rest)" "erase_pack e = erase_pack p" by (rule readsE)
    moreover have "atWord ''pack'' (us @ rest)" using v by (auto simp: tree_pack_def tree_split word_def)
    ultimately show ?thesis using DPack by (simp add: parseDecl_def erase_def)
  next
    case (DZone z)
    with us have v: "map view us = tree_zone br z" by (simp add: tree_decl_def)
    have "wf_zone z" "zone_kept br z" using assms DZone by (simp_all add: wf_decl_def decl_kept_def)
    from read_zone[OF this] v obtain e where "parseZone (us @ rest) = Inr (e, rest)" "erase_zone e = erase_zone z" by (rule readsE)
    moreover have "atWord ''zone'' (us @ rest)" "\<not> atWord ''pack'' (us @ rest)" using v by (auto simp: tree_zone_def tree_split word_def)
    ultimately show ?thesis using DZone by (simp add: parseDecl_def erase_def)
  next
    case (DTemplate t)
    with us have v: "map view us = tree_template t" by (simp add: tree_decl_def)
    have "wf_template t" using assms DTemplate by (simp add: wf_decl_def)
    from read_template[OF this] v obtain e where "parseTemplate (us @ rest) = Inr (e, rest)" "erase_template e = erase_template t" by (rule readsE)
    moreover have "atWord ''template'' (us @ rest)" "\<not> atWord ''pack'' (us @ rest)" "\<not> atWord ''zone'' (us @ rest)"
      using v by (auto simp: tree_template_def tree_split word_def)
    ultimately show ?thesis using DTemplate by (simp add: parseDecl_def erase_def)
  qed
qed

lemma led_decl: "led (tree_decl br d)"
  by (cases d) (simp_all add: tree_decl_def tree_pack_def tree_zone_def tree_template_def)

lemma read_decls:
  "list_all wf_decl ds \<Longrightarrow> list_all (decl_kept br) ds \<Longrightarrow> map view us = concat (map (tree_decl br) ds) \<Longrightarrow> tok_Kind e = EOF
    \<Longrightarrow> \<exists>es. declsLoop acc (us @ [e]) = (acc @ es, None) \<and> map erase es = map erase ds"
proof (induction ds arbitrary: us acc)
  case Nil
  then show ?case by (subst declsLoop.simps) simp
next
  case (Cons d ds)
  have "map view us = tree_decl br d @ concat (map (tree_decl br) ds)" using Cons.prems(3) by simp
  then obtain u us' where u: "us = u @ us'" "map view u = tree_decl br d" "map view us' = concat (map (tree_decl br) ds)" by (rule view_split)
  have f: "follows (us' @ [e])"
  proof (cases ds)
    case Nil
    then show ?thesis using u(3) Cons.prems(4) by (auto simp: follows_def)
  next
    case (Cons c cs)
    have "led (tree_decl br c @ concat (map (tree_decl br) cs))" by (rule led_append) (rule led_decl)
    then show ?thesis using u(3) Cons by (auto intro!: led_follows(1))
  qed
  have wf: "wf_decl d" "decl_kept br d" "list_all wf_decl ds" "list_all (decl_kept br) ds" using Cons.prems by simp_all
  from read_decl[OF wf(1,2) f] u(2) obtain c where c: "parseDecl (u @ us' @ [e]) = Inr (c, us' @ [e])" "erase c = erase d" by (rule readsE)
  from Cons.IH[OF wf(3,4) u(3) Cons.prems(4), of "acc @ [c]"] obtain es where
    es: "declsLoop (acc @ [c]) (us' @ [e]) = ((acc @ [c]) @ es, None)" "map erase es = map erase ds" by blast
  have "\<not> atKind EOF (u @ us' @ [e])" by (rule led_follows(3)) (simp add: u(2) led_decl)
  then have "declsLoop acc (us @ [e]) = (acc @ c # es, None)" using c(1) es(1) u(1) unfolding declsLoop.simps[of acc "us @ [e]"] by simp
  then show ?case using c(2) es(2) by (intro exI[of _ "c # es"]) simp
qed

end
