(* ===== verification/Lang_Wf.thy ===== *)
theory Lang_Wf
  imports Lang_Read
begin

text \<open>
  What the parser (\<^verbatim>\<open>content/lang/parser.go\<close>) returns is well formed: its names are of the grammar, its
  literals closed, its values what their spelling says, and the lists of a block's items by kind are those
  of its items in source order. The tokens are the scanner's, with every string literal closed.
\<close>

section \<open>Rules\<close>

definition good :: "Token list \<Rightarrow> bool" where
  "good ts \<longleftrightarrow> (\<forall>t \<in> set ts. tok_Kind t \<noteq> EOF \<longrightarrow> lexical (view t)) \<and> (\<forall>t \<in> set ts. tok_Kind t = StringK \<longrightarrow> closed_lit (tok_Text t))"

lemma good_simps [simp]: "good []" "good (t # ts) \<longleftrightarrow> (tok_Kind t \<noteq> EOF \<longrightarrow> lexical (view t)) \<and> (tok_Kind t = StringK \<longrightarrow> closed_lit (tok_Text t)) \<and> good ts"
  by (auto simp: good_def)

lemma good_tl: "good ts \<Longrightarrow> good (tl ts)"
  by (cases ts) auto

text \<open>If it succeeds, its result has \<open>W\<close>, and the tokens left are good.\<close>

definition yields :: "'a parsed \<Rightarrow> ('a \<Rightarrow> bool) \<Rightarrow> bool" where
  "yields r W \<longleftrightarrow> (case r of Inl _ \<Rightarrow> True | Inr (a, ts) \<Rightarrow> W a \<and> good ts)"

lemma yields_simps [simp]: "yields (Inl e) W" "yields (Inr (a, ts)) W \<longleftrightarrow> W a \<and> good ts" "yields (fail w ts) W" "yields (failAt t w) W"
  by (simp_all add: yields_def fail_def failAt_def)

lemma yieldsD: "yields r W \<Longrightarrow> r = Inr (a, ts) \<Longrightarrow> W a \<and> good ts"
  by (simp add: yields_def)

lemma yields_andThen: "yields r V \<Longrightarrow> (\<And>a ts. r = Inr (a, ts) \<Longrightarrow> V a \<Longrightarrow> good ts \<Longrightarrow> yields (f a ts) W) \<Longrightarrow> yields (andThen r f) W"
  by (auto simp: yields_def andThen_def split: sum.splits)

lemma yields_mono: "yields r V \<Longrightarrow> (\<And>a. V a \<Longrightarrow> W a) \<Longrightarrow> yields r W"
  by (auto simp: yields_def split: sum.splits)

lemma yields_next: "good ts \<Longrightarrow> yields (next_token ts) (\<lambda>_. True)"
  by (cases ts) (auto simp: next_token_def yields_def)

lemma yields_expect: "good ts \<Longrightarrow> k \<noteq> EOF \<Longrightarrow> yields (expect k w ts) (\<lambda>t. lexical (k, tok_Text t) \<and> tok_Kind t = k)"
  by (cases ts) (auto simp: expect_def next_token_def fail_def yields_def view_def)

lemma yields_expectString: "good ts \<Longrightarrow> yields (expectString w ts) wf_lit"
  by (cases ts) (auto simp: expectString_def fail_def failAt_def yields_def wf_lit_def)

lemma lexical_simps: "lexical (LowerID, s) \<longleftrightarrow> lowerid s" "lexical (UpperID, s) \<longleftrightarrow> upperid s" "lexical (IntK, s) \<longleftrightarrow> int_lit s"
  "lexical (FloatK, s) \<longleftrightarrow> float_lit s"
  by (simp_all add: lexical_def)

section \<open>References\<close>

lemma id_no_dot: "lowerid s \<Longrightarrow> CHR ''.'' \<notin> set s" "upperid s \<Longrightarrow> CHR ''.'' \<notin> set s"
  by (auto simp: lowerid_def upperid_def rune_class_defs dest!: bspec)

lemma Split_snoc: "c \<notin> set b \<Longrightarrow> Split c (a @ c # b) = Split c a @ [b]"
proof (induction a)
  case (Cons x a)
  obtain y ys where "Split c a = y # ys" by (cases "Split c a") auto
  with Cons show ?case by simp
qed (simp add: Split_clean)

lemma Split_dotted: "\<forall>x \<in> set xs. c \<notin> set x \<Longrightarrow> c \<notin> set z \<Longrightarrow> Split c (concat (map (\<lambda>y. y @ [c]) xs) @ z) = xs @ [z]"
  by (induction xs) (simp_all add: Split_clean Split_append)

lemma yields_packRefLoop: "good ts \<Longrightarrow> wf_pack_ref acc \<Longrightarrow> yields (packRefLoop acc ts) wf_pack_ref"
proof (induction acc ts rule: packRefLoop.induct)
  case (1 acc ts)
  have "yields (packRefLoop (acc @ ''.'' @ tok_Text seg) ts') wf_pack_ref"
    if "atKind Dot ts" "expect LowerID ''a pack name segment'' (tl ts) = Inr (seg, ts')" "lexical (LowerID, tok_Text seg)" "good ts'" for seg ts'
  proof -
    have "wf_pack_ref (acc @ ''.'' @ tok_Text seg)" using "1.prems"(2) that(3) by (simp add: wf_pack_ref_def Split_snoc id_no_dot lexical_simps)
    then show ?thesis by (rule "1.IH"[OF that(1,2,4)])
  qed
  then show ?case using "1.prems" unfolding packRefLoop.simps[of acc ts]
    by (auto intro!: yields_andThen yields_expect good_tl)
qed

definition dotted :: "string list \<Rightarrow> string" where
  "dotted xs = concat (map (\<lambda>y. y @ ''.'') xs)"

lemma yields_refLoop:
  "good ts \<Longrightarrow> list_all lowerid xs \<Longrightarrow> acc = dotted xs
    \<Longrightarrow> yields (refLoop w acc ts) (\<lambda>s. \<exists>ys. list_all lowerid (xs @ ys) \<and> s = dotted (xs @ ys) \<and> (atKind LowerID ts \<longrightarrow> ys \<noteq> []))"
proof (induction w acc ts arbitrary: xs rule: refLoop.induct)
  case (1 w acc ts)
  show ?case
  proof (cases "atKind LowerID ts")
    case True
    then obtain t ts1 where t: "ts = t # ts1" "tok_Kind t = LowerID" by (cases ts) auto
    then have l: "lowerid (tok_Text t)" "good ts1" using "1.prems"(1) by (simp_all add: view_def lexical_simps)
    have "yields (refLoop w (acc @ tok_Text t @ ''.'') (tl ts1)) (\<lambda>s. \<exists>ys. list_all lowerid ((xs @ [tok_Text t]) @ ys) \<and> s = dotted ((xs @ [tok_Text t]) @ ys)
        \<and> (atKind LowerID (tl ts1) \<longrightarrow> ys \<noteq> []))" if "atKind Dot ts1"
      by (rule "1.IH"[OF True]) (use that t l "1.prems" in \<open>simp_all add: next_token_def good_tl dotted_def\<close>)
    then have "atKind Dot ts1 \<Longrightarrow> yields (refLoop w (acc @ tok_Text t @ ''.'') (tl ts1)) (\<lambda>s. \<exists>ys. list_all lowerid (xs @ ys) \<and> s = dotted (xs @ ys)
        \<and> (atKind LowerID ts \<longrightarrow> ys \<noteq> []))"
      by (rule yields_mono) (auto intro: exI[of _ "tok_Text t # _"])
    then show ?thesis using True t unfolding refLoop.simps[of w acc ts] by (simp add: next_token_def)
  next
    case False
    then show ?thesis using "1.prems" unfolding refLoop.simps[of w acc ts] by (auto intro: exI[of _ "[]"])
  qed
qed

lemma wf_ref_dotted: "list_all lowerid xs \<Longrightarrow> upperid z \<Longrightarrow> wf_ref (dotted xs @ z) \<and> length (Split (CHR ''.'') (dotted xs @ z)) = Suc (length xs)"
proof -
  assume a: "list_all lowerid xs" "upperid z"
  then have "Split (CHR ''.'') (dotted xs @ z) = xs @ [z]"
    unfolding dotted_def by (intro Split_dotted) (auto simp: list_all_iff id_no_dot)
  with a show ?thesis by (simp add: wf_ref_def)
qed

lemma yields_refs:
  assumes "good ts"
  shows "yields (parsePackRef ts) (\<lambda>a. wf_pack_ref (fst a))" "yields (parseTemplateRef ts) (\<lambda>a. wf_ref (fst a))"
    "yields (parseComponentRef ts) (\<lambda>a. wf_ref (fst a) \<and> length (Split (CHR ''.'') (fst a)) \<noteq> 1)"
proof -
  have "yields (packRefLoop (tok_Text first) ts') wf_pack_ref" if "lexical (LowerID, tok_Text first)" "good ts'" for first ts'
    by (rule yields_packRefLoop) (use that in \<open>simp_all add: wf_pack_ref_def Split_clean id_no_dot lexical_simps\<close>)
  then show "yields (parsePackRef ts) (\<lambda>a. wf_pack_ref (fst a))" using assms unfolding parsePackRef_def
    by (auto intro!: yields_andThen yields_expect)
  have r: "yields (refLoop w '''' ts) (\<lambda>s. \<exists>ys. list_all lowerid ys \<and> s = dotted ys \<and> (atKind LowerID ts \<longrightarrow> ys \<noteq> []))" for w
    using yields_refLoop[OF assms, of "[]" "''''" w] by (simp add: dotted_def)
  show "yields (parseTemplateRef ts) (\<lambda>a. wf_ref (fst a))"
  proof (cases ts)
    case (Cons t ts1)
    show ?thesis unfolding parseTemplateRef_def Cons list.case
      by (rule yields_andThen[OF r[unfolded Cons]], rule yields_andThen[OF yields_expect])
        (auto simp: wf_ref_dotted lexical_simps)
  qed (simp add: parseTemplateRef_def)
  show "yields (parseComponentRef ts) (\<lambda>a. wf_ref (fst a) \<and> length (Split (CHR ''.'') (fst a)) \<noteq> 1)"
  proof (cases "atKind LowerID ts")
    case True
    then obtain t ts1 where t: "ts = t # ts1" by (cases ts) auto
    have "yields (andThen (refLoop ''\".\" before a PascalCase type name'' '''' ts) (\<lambda>acc ts1.
       andThen (expect UpperID ''a PascalCase Component type name'' ts1) (\<lambda>name ts2. Inr ((acc @ tok_Text name, tok_Pos t), ts2))))
       (\<lambda>a. wf_ref (fst a) \<and> length (Split (CHR ''.'') (fst a)) \<noteq> 1)"
      by (rule yields_andThen[OF r], rule yields_andThen[OF yields_expect]) (use True in \<open>auto simp: wf_ref_dotted lexical_simps\<close>)
    then show ?thesis using True t unfolding parseComponentRef_def by simp
  next
    case False
    then show ?thesis unfolding parseComponentRef_def by (cases ts) simp_all
  qed
qed

section \<open>Components, descriptions and exits\<close>

lemma yields_value: "good ts \<Longrightarrow> yields (parseValue ts) wf_value"
proof (cases ts)
  case (Cons t ts')
  assume g: "good ts"
  have "yields (andThen (expectString ''a value'' ts) (\<lambda>lit ts1.
         Inr (value0\<lparr>lv_Kind := StringK, lv_Pos := sl_Pos lit, lv_Raw := sl_Raw lit, lv_Str := sl_Value lit, lv_BadEsc := badEscape lit\<rparr>, ts1))) wf_value"
    by (rule yields_andThen[OF yields_expectString[OF g]]) (simp add: wf_value_def wf_lit_def value0_def badEscape_text)
  then show ?thesis using g unfolding parseValue_def Cons
    by (auto simp: wf_value_def value0_def view_def lexical_simps split: option.splits)
qed (simp add: parseValue_def)

lemma yields_field: "good ts \<Longrightarrow> yields (parseField ts) wf_field"
  unfolding parseField_def
  by (auto intro!: yields_andThen[OF yields_expect] yields_andThen[OF yields_value] simp: wf_field_def lexical_simps)

lemma yields_fieldsLoop: "good ts \<Longrightarrow> list_all wf_field acc \<Longrightarrow> yields (fieldsLoop acc ts) (list_all wf_field)"
proof (induction acc ts rule: fieldsLoop.induct)
  case (1 acc ts)
  then show ?case unfolding fieldsLoop.simps[of acc ts]
    by (auto intro!: yields_andThen[OF yields_field])
qed

lemma yields_component: "good ts \<Longrightarrow> yields (parseComponent ts) wf_component"
  unfolding parseComponent_def
  by (rule yields_andThen[OF yields_next] yields_andThen[OF yields_refs(3)] yields_andThen[OF yields_expect] yields_andThen[OF yields_fieldsLoop] | clarsimp)+
    (auto simp: wf_component_def)

lemma yields_literals: "good ts \<Longrightarrow> list_all wf_lit acc \<Longrightarrow> acc \<noteq> [] \<Longrightarrow> yields (literals acc ts) (\<lambda>ls. ls \<noteq> [] \<and> list_all wf_lit ls)"
proof (induction acc ts rule: literals.induct)
  case (1 acc ts)
  then show ?case unfolding literals.simps[of acc ts]
    by (auto intro!: yields_andThen[OF yields_expectString])
qed

lemma yields_desc: "good ts \<Longrightarrow> yields (parseDesc ts) wf_desc"
  unfolding parseDesc_def
  by (rule yields_andThen[OF yields_next] yields_andThen[OF yields_expectString] yields_andThen[OF yields_literals] | clarsimp)+
    (auto simp: wf_desc_def first_bad_def)

lemma yields_sensesLoop:
  "good ts \<Longrightarrow> list_all (\<lambda>s. lowerid (se_Name s)) acc \<Longrightarrow> acc \<noteq> [] \<Longrightarrow> yields (sensesLoop acc ts) (\<lambda>ss. ss \<noteq> [] \<and> list_all (\<lambda>s. lowerid (se_Name s)) ss)"
proof (induction acc ts rule: sensesLoop.induct)
  case (1 acc ts)
  then show ?case unfolding sensesLoop.simps[of acc ts]
    by (auto intro!: yields_andThen[OF yields_expect] good_tl simp: lexical_simps)
qed

lemma yields_perceivesClause: "good ts \<Longrightarrow> wf_exit e \<Longrightarrow> yields (perceivesClause e ts) wf_exit"
  unfolding perceivesClause_def
  by (rule yields_andThen[OF yields_expect] yields_andThen[OF yields_sensesLoop] | simp add: lexical_simps wf_exit_def)+

lemma yields_perceivesLoop: "good ts \<Longrightarrow> wf_exit e \<Longrightarrow> yields (perceivesLoop e ts) wf_exit"
proof (induction e ts rule: perceivesLoop.induct)
  case (1 e ts)
  then show ?case unfolding perceivesLoop.simps[of e ts]
    by (auto intro!: yields_andThen[OF yields_perceivesClause] good_tl)
qed

lemma lowerid_neq_Nil: "\<not> lowerid ''''"
  by (simp add: lowerid_def)

lemma yields_exit: "good ts \<Longrightarrow> yields (parseExit ts) wf_exit"
proof -
  have "yields (exitRest e ts) wf_exit" if "good ts" "wf_exit e" "xd_ToZone e = ''''" for e ts
    unfolding exitRest_def using that
    by (auto intro!: yields_andThen[OF yields_expect] yields_perceivesLoop good_tl simp: lexical_simps wf_exit_def)
  then show "good ts \<Longrightarrow> yields (parseExit ts) wf_exit" unfolding parseExit_def
    by (auto intro!: yields_andThen[OF yields_next] yields_andThen[OF yields_expect] simp: lexical_simps wf_exit_def)
qed

lemma yields_fallback: "good ts \<Longrightarrow> yields (parseFallback ts) (\<lambda>f. lowerid (fb_Room f))"
  unfolding parseFallback_def
  by (auto intro!: yields_andThen[OF yields_next] yields_andThen[OF yields_expect] simp: lexical_simps)

section \<open>Blocks and files\<close>

context item_loop
begin

text \<open>What the loop is asked to keep, it keeps.\<close>

lemma yields_items:
  assumes "\<And>ts. good ts \<Longrightarrow> yields (item ts) P" "\<And>it b. P it \<Longrightarrow> R b \<Longrightarrow> R (add it b)"
  shows "good ts \<Longrightarrow> R b \<Longrightarrow> yields (loop b ts) R"
proof (induction "length ts" arbitrary: ts b rule: less_induct)
  case less
  consider "atKind RBrace ts" | "\<not> atKind RBrace ts" "atKind EOF ts" | "\<not> atKind RBrace ts" "\<not> atKind EOF ts" by blast
  then show ?case
  proof cases
    case 1
    then show ?thesis using stop[of ts b] less.prems by simp
  next
    case 2
    then obtain e where "loop b ts = Inl e" using open_end by blast
    then show ?thesis by simp
  next
    case 3
    have "yields (loop (add it b) ts') R" if "item ts = Inr (it, ts')" "P it" "good ts'" for it ts'
      using that assms(2) less.prems(2) by (intro less.hyps shrinks)
    then have "yields (andThen (item ts) (\<lambda>it ts'. loop (add it b) ts')) R"
      using less.prems(1) by (intro yields_andThen[OF assms(1)])
    then show ?thesis unfolding step[OF 3] .
  qed
qed

end

lemma wf_room_add: "wf_room_item it \<Longrightarrow> wf_room r \<Longrightarrow> wf_room (addRoomItem it r)"
  by (cases it) (simp_all add: addRoomItem_simps wf_room_def)

lemma yields_roomItem: "good ts \<Longrightarrow> yields (parseRoomItem ts) wf_room_item"
  unfolding parseRoomItem_def
  by (auto intro!: yields_andThen[OF yields_desc] yields_andThen[OF yields_exit] yields_andThen[OF yields_component] simp: wf_room_item_def)

lemmas yields_roomItems = room_items.yields_items[of wf_room_item wf_room, OF yields_roomItem wf_room_add]

lemma yields_room: "good ts \<Longrightarrow> yields (parseRoom ts) wf_room"
  unfolding parseRoom_def
  by (auto intro!: yields_andThen[OF yields_next] yields_andThen[OF yields_expect] yields_andThen[OF yields_expectString]
      yields_andThen[OF yields_roomItems] simp: wf_room_def lexical_simps)

lemma wf_zone_add: "wf_zone_item it \<Longrightarrow> wf_zone r \<Longrightarrow> wf_zone (addZoneItem it r)"
  by (cases it) (simp_all add: addZoneItem_simps wf_zone_def)

lemma yields_zoneItem: "good ts \<Longrightarrow> yields (parseZoneItem ts) wf_zone_item"
  unfolding parseZoneItem_def
  by (auto intro!: yields_andThen[OF yields_fallback] yields_andThen[OF yields_room] yields_andThen[OF yields_component] simp: wf_zone_item_def)

lemmas yields_zoneItems = zone_items.yields_items[of wf_zone_item wf_zone, OF yields_zoneItem wf_zone_add]

lemma yields_zone: "good ts \<Longrightarrow> yields (parseZone ts) wf_zone"
  unfolding parseZone_def
  by (auto intro!: yields_andThen[OF yields_next] yields_andThen[OF yields_expect] yields_andThen[OF yields_expectString]
      yields_andThen[OF yields_zoneItems] simp: wf_zone_def lexical_simps)

lemma yields_head: "good ts \<Longrightarrow> yields (parseHead ts) wf_head"
  unfolding parseHead_def
  by (auto intro!: yields_andThen[OF yields_next] yields_andThen[OF yields_expect] yields_andThen[OF yields_refs(2)] simp: wf_head_def)

lemma yields_headsLoop: "good ts \<Longrightarrow> list_all wf_head acc \<Longrightarrow> yields (headsLoop acc ts) (list_all wf_head)"
proof (induction acc ts rule: headsLoop.induct)
  case (1 acc ts)
  then show ?case unfolding headsLoop.simps[of acc ts]
    by (auto intro!: yields_andThen[OF yields_head])
qed

lemma yields_remove: "good ts \<Longrightarrow> yields (parseRemove ts) wf_remove"
  unfolding parseRemove_def
  by (auto intro!: yields_andThen[OF yields_next] yields_andThen[OF yields_expect] yields_andThen[OF yields_refs(3)] good_tl
      simp: wf_remove_def lexical_simps)

lemma wf_template_add: "wf_template_item it \<Longrightarrow> wf_template r \<Longrightarrow> wf_template (addTemplateItem it r)"
  by (cases it) (simp_all add: addTemplateItem_simps wf_template_def)

lemma yields_templateItem: "good ts \<Longrightarrow> yields (parseTemplateItem ts) wf_template_item"
  unfolding parseTemplateItem_def
  by (auto intro!: yields_andThen[OF yields_remove] yields_andThen[OF yields_component] simp: wf_template_item_def)

lemmas yields_templateItems = template_items.yields_items[of wf_template_item wf_template, OF yields_templateItem wf_template_add]

lemma yields_template: "good ts \<Longrightarrow> yields (parseTemplate ts) wf_template"
  unfolding parseTemplate_def
  by (auto intro!: yields_andThen[OF yields_next] yields_andThen[OF yields_expect] yields_andThen[OF yields_headsLoop]
      yields_andThen[OF yields_templateItems] simp: wf_template_def lexical_simps)

lemma yields_pack: "good ts \<Longrightarrow> yields (parsePack ts) wf_pack"
  unfolding parsePack_def
  by (auto intro!: yields_andThen[OF yields_next] yields_andThen[OF yields_expect] yields_andThen[OF yields_refs(1)] good_tl
      simp: wf_pack_def Let_def split: option.splits)

lemma yields_decl: "good ts \<Longrightarrow> yields (parseDecl ts) wf_decl"
  unfolding parseDecl_def
  by (auto intro!: yields_andThen[OF yields_pack] yields_andThen[OF yields_zone] yields_andThen[OF yields_template] simp: wf_decl_def)

lemma wf_declsLoop: "good ts \<Longrightarrow> list_all wf_decl acc \<Longrightarrow> list_all wf_decl (fst (declsLoop acc ts))"
proof (induction acc ts rule: declsLoop.induct)
  case (1 acc ts)
  show ?case unfolding declsLoop.simps[of acc ts]
    using 1 yields_decl[OF "1.prems"(1)] by (auto split: sum.splits)
qed

text \<open>Every string literal of the source ends outside an escape.\<close>

definition closed_source :: "string \<Rightarrow> bool" where
  "closed_source src \<longleftrightarrow> (\<forall>v \<in> set (toks src). fst v = StringK \<longrightarrow> closed_lit (snd v))"

lemma good_tokenize: "closed_source src \<Longrightarrow> good (tokenize (newLexer src))"
proof -
  assume c: "closed_source src"
  have v: "map view (tokenize (newLexer src)) = toks src @ [(EOF, '''')]" using tokenize_toks[of "newLexer src"] by (simp add: newLexer_def)
  have "view t \<in> set (toks src)" if "t \<in> set (tokenize (newLexer src))" "tok_Kind t \<noteq> EOF" for t
  proof -
    have "view t \<in> set (toks src @ [(EOF, '''')])" unfolding v[symmetric] using that(1) by simp
    then show ?thesis using that(2) by (auto simp: view_def)
  qed
  then show ?thesis using c lexical_toks by (fastforce simp: good_def closed_source_def view_def)
qed

lemma ParseFile_wf: "closed_source src \<Longrightarrow> list_all wf_decl (sf_Decls (fst (ParseFile path src)))"
proof -
  assume "closed_source src"
  then have "good (filter (\<lambda>t. tok_Kind t \<noteq> Comment) (tokenize (newLexer src)))" using good_tokenize by (auto simp: good_def)
  then show ?thesis using wf_declsLoop[of _ "[]"] by (simp add: ParseFile_def parseFile_def split_beta Let_def)
qed

end
