(* ===== verification/Lang_Format.thy ===== *)
theory Lang_Format
  imports Lang_Wf
begin

text \<open>
  The formatter (\<^verbatim>\<open>content/lang/format.go\<close>) and the canonical printer the decompiler shares with it
  (\<^verbatim>\<open>canonicalPrint\<close> and the canonical order, \<^verbatim>\<open>content/lang/decompile.go\<close>). A printer is its state, passed
  through every operation as the code's methods change it.
\<close>

section \<open>The printer\<close>

definition ProseWidth :: int where
  "ProseWidth = 100"

record printer =
  pr_sb :: string
  pr_comments :: "Token list"
  pr_next :: nat
  pr_canon :: bool
  pr_prevLine :: nat

definition emit :: "string \<Rightarrow> printer \<Rightarrow> printer" where
  "emit s p = p\<lparr>pr_sb := pr_sb p @ s\<rparr>"

text \<open>The comments in the order of their positions.\<close>

definition pos_less :: "Pos \<Rightarrow> Pos \<Rightarrow> bool" where
  "pos_less a b \<longleftrightarrow> (if p_Line a \<noteq> p_Line b then p_Line a < p_Line b else p_Col a < p_Col b)"

fun insert_comment :: "Token \<Rightarrow> Token list \<Rightarrow> Token list" where
  "insert_comment c [] = [c]"
| "insert_comment c (d # ds) = (if pos_less (tok_Pos d) (tok_Pos c) then d # insert_comment c ds else c # d # ds)"

definition newPrinter :: "SourceFile \<Rightarrow> printer" where
  "newPrinter f = \<lparr>pr_sb = '''', pr_comments = foldr insert_comment (sf_Comments f) [], pr_next = 0, pr_canon = False, pr_prevLine = 0\<rparr>"

definition print_indent :: "nat \<Rightarrow> printer \<Rightarrow> printer" where
  "print_indent depth = emit (concat (replicate depth ''  ''))"

definition blank :: "printer \<Rightarrow> printer" where
  "blank p = (if pr_sb p = '''' \<or> HasSuffix (pr_sb p) [CHR 0x0A, CHR 0x0A] then p else emit [CHR 0x0A] p)"

text \<open>The next comment that is still to be printed.\<close>

definition pending_line :: "printer \<Rightarrow> nat option" where
  "pending_line p = (if pr_next p < length (pr_comments p) then Some (p_Line (tok_Pos (pr_comments p ! pr_next p))) else None)"

definition take_comment :: "printer \<Rightarrow> Token \<times> printer" where
  "take_comment p = (pr_comments p ! pr_next p, p\<lparr>pr_next := pr_next p + 1\<rparr>)"

definition before :: "nat option \<Rightarrow> nat \<Rightarrow> bool" where
  "before l line \<longleftrightarrow> (case l of None \<Rightarrow> False | Some k \<Rightarrow> k < line)"

lemma emit_simps [simp]: "pr_comments (emit s p) = pr_comments p" "pr_next (emit s p) = pr_next p" "pr_canon (emit s p) = pr_canon p"
  "pr_prevLine (emit s p) = pr_prevLine p" "pr_sb (emit s p) = pr_sb p @ s"
  by (simp_all add: emit_def)

lemma print_indent_simps [simp]: "pr_comments (print_indent d p) = pr_comments p" "pr_next (print_indent d p) = pr_next p"
  "pr_canon (print_indent d p) = pr_canon p" "pr_prevLine (print_indent d p) = pr_prevLine p"
  by (simp_all add: print_indent_def)

lemma blank_simps [simp]: "pr_comments (blank p) = pr_comments p" "pr_next (blank p) = pr_next p" "pr_canon (blank p) = pr_canon p"
  "pr_prevLine (blank p) = pr_prevLine p"
  by (simp_all add: blank_def)

lemma pending_line_less [termination_simp]: "pending_line p = Some k \<Longrightarrow> pr_next p < length (pr_comments p)"
  by (simp add: pending_line_def split: if_splits)

text \<open>One comment on a line of its own, after a blank line where the source had one.\<close>

definition own_comment :: "nat \<Rightarrow> bool \<Rightarrow> Token \<Rightarrow> printer \<Rightarrow> printer" where
  "own_comment depth emitted c p =
     (let p1 = (if emitted \<and> p_Line (tok_Pos c) > pr_prevLine p + 1 then blank p else p);
          p2 = emit [CHR 0x0A] (emit (tok_Text c) (print_indent depth p1))
      in p2\<lparr>pr_prevLine := p_Line (tok_Pos c)\<rparr>)"

lemma own_comment_simps [simp]: "pr_comments (own_comment d e c p) = pr_comments p" "pr_next (own_comment d e c p) = pr_next p"
  "pr_canon (own_comment d e c p) = pr_canon p"
  by (simp_all add: own_comment_def Let_def)

function ownLoop :: "nat \<Rightarrow> nat \<Rightarrow> bool \<Rightarrow> printer \<Rightarrow> bool \<times> printer" where
  "ownLoop line depth emitted p =
     (if before (pending_line p) line then
        (case take_comment p of (c, p1) \<Rightarrow>
           if pr_canon p1 then ownLoop line depth emitted p1 else ownLoop line depth True (own_comment depth emitted c p1))
      else (emitted, p))"
  by pat_completeness auto
termination
  by (relation "measure (\<lambda>(_, _, _, p). length (pr_comments p) - pr_next p)")
    (auto simp: take_comment_def before_def dest: pending_line_less split: option.splits)

declare ownLoop.simps [simp del]

definition ownComments :: "nat \<Rightarrow> nat \<Rightarrow> printer \<Rightarrow> printer" where
  "ownComments line depth p =
     (case ownLoop line depth False p of (emitted, p1) \<Rightarrow>
        (if emitted \<and> line > pr_prevLine p1 + 1 then blank p1 else p1)\<lparr>pr_prevLine := line\<rparr>)"

function trailingOwnLoop :: "nat \<Rightarrow> printer \<Rightarrow> printer" where
  "trailingOwnLoop depth p =
     (if pending_line p = None then p
      else trailingOwnLoop depth (emit [CHR 0x0A] (emit (tok_Text (fst (take_comment p))) (print_indent depth (snd (take_comment p))))))"
  by pat_completeness auto
termination
  by (relation "measure (\<lambda>(_, p). length (pr_comments p) - pr_next p)") (auto simp: take_comment_def dest: pending_line_less)

declare trailingOwnLoop.simps [simp del]

definition trailingOwnComments :: "nat \<Rightarrow> bool \<Rightarrow> printer \<Rightarrow> printer" where
  "trailingOwnComments depth blankBefore p =
     (if pr_next p \<ge> length (pr_comments p) \<or> pr_canon p then p\<lparr>pr_next := length (pr_comments p)\<rparr>
      else trailingOwnLoop depth (if blankBefore then blank p else p))"

function trailing :: "nat \<Rightarrow> printer \<Rightarrow> printer" where
  "trailing line p =
     (if pending_line p = Some line then
        (case take_comment p of (c, p1) \<Rightarrow> trailing line (if pr_canon p1 then p1 else emit (tok_Text c) (emit ''  '' p1)))
      else p)"
  by pat_completeness auto
termination
  by (relation "measure (\<lambda>(_, p). length (pr_comments p) - pr_next p)") (auto simp: take_comment_def dest: pending_line_less)

declare trailing.simps [simp del]

definition pendingBefore :: "nat \<Rightarrow> printer \<Rightarrow> bool" where
  "pendingBefore line p \<longleftrightarrow> \<not> pr_canon p \<and> before (pending_line p) line"

definition closeBlock :: "Pos \<Rightarrow> nat \<Rightarrow> printer \<Rightarrow> printer" where
  "closeBlock close depth p =
     (emit [CHR 0x7D, CHR 0x0A] (print_indent depth (ownComments (p_Line close) (depth + 1) p)))\<lparr>pr_prevLine := p_Line close\<rparr>"

text \<open>The end of a line of code: its comment and the line feed.\<close>

definition end_line :: "nat \<Rightarrow> printer \<Rightarrow> printer" where
  "end_line line p = emit [CHR 0x0A] (trailing line p)"

section \<open>Literals and values\<close>

function escape :: "string \<Rightarrow> string" where
  "escape s =
     (if s = [] then []
      else case DecodeRune s of (r, n) \<Rightarrow>
        (if r = ru (CHR 0x0A) then [CHR 0x5C, CHR ''n''] else if r = ru (CHR 0x22) then [CHR 0x5C, CHR 0x22]
         else if r = ru (CHR 0x5C) then [CHR 0x5C, CHR 0x5C] else rune_string r) @ escape (drop n s))"
  by pat_completeness auto
termination
proof (relation "measure length", goal_cases)
  case (2 s r n)
  then have "0 < n" using width_pos[of s] by (metis snd_conv)
  then show ?case using 2 by simp
qed simp

declare escape.simps [simp del]

definition quote :: "string \<Rightarrow> string" where
  "quote s = quoted (escape s)"

definition canonical :: "LangValue \<Rightarrow> string" where
  "canonical v = (if lv_Raw v \<noteq> '''' then lv_Raw v else if lv_Kind v = StringK then quote (lv_Str v) else lv_Raw v)"

fun wrapLoop :: "int \<Rightarrow> string list \<Rightarrow> string \<Rightarrow> string list \<Rightarrow> string list" where
  "wrapLoop budget out cur [] = (if cur \<noteq> '''' then out @ [cur] else out)"
| "wrapLoop budget out cur (w # ws) =
     (let cand = (if cur \<noteq> '''' then cur @ '' '' @ w else w) in
      if cur \<noteq> '''' \<and> int (RuneCount cand) > budget then wrapLoop budget (out @ [cur]) w ws else wrapLoop budget out cand ws)"

definition wrapProse :: "string \<Rightarrow> int \<Rightarrow> string list" where
  "wrapProse s budget = (if budget < 1 \<or> int (RuneCount s) \<le> budget then [s] else wrapLoop budget [] '''' (Split (CHR '' '') s))"

definition desc_prefix :: "nat \<Rightarrow> string" where
  "desc_prefix depth = concat (replicate depth ''  '') @ ''desc ''"

definition desc_budget :: "nat \<Rightarrow> int" where
  "desc_budget depth = ProseWidth - int (RuneCount (desc_prefix depth)) - 2"

definition desc_parts :: "bool \<Rightarrow> nat \<Rightarrow> DescDecl \<Rightarrow> string list" where
  "desc_parts canon depth d =
     (let parts = map (\<lambda>lit. rawBody (sl_Raw lit)) (dd_Parts d);
          overrun = list_ex (\<lambda>s. int (RuneCount s) > desc_budget depth) parts
      in if overrun \<or> canon then wrapProse (strings_Join parts '' '') (desc_budget depth) else parts)"

definition print_desc :: "DescDecl \<Rightarrow> nat \<Rightarrow> printer \<Rightarrow> printer" where
  "print_desc d depth p =
     (let cont = replicate (RuneCount (desc_prefix depth)) (CHR '' '');
          line = (\<lambda>first s q. emit [CHR 0x0A] ((if first then trailing (p_Line (dd_Pos d)) else id)
            (emit (quoted s) (emit (if first then desc_prefix depth else cont) q))));
          lines = (case desc_parts (pr_canon p) depth d of [] \<Rightarrow> p | s # ss \<Rightarrow> fold (line False) ss (line True s p))
      in lines\<lparr>pr_prevLine := p_Line (dd_Pos d)\<rparr>)"

section \<open>Components and exits\<close>

definition oneLineFits :: "ComponentDecl \<Rightarrow> nat \<Rightarrow> bool" where
  "oneLineFits d depth \<longleftrightarrow>
     int (depth * 2 + 10 + RuneCount (cd_Type d) + 5 + (length (cd_Fields d) - 1)
       + sum_list (map (\<lambda>f. RuneCount (fa_Name f) + 2 + RuneCount (canonical (fa_Value f))) (cd_Fields d))) \<le> ProseWidth"

definition print_assign :: "FieldAssign \<Rightarrow> string" where
  "print_assign f = fa_Name f @ '': '' @ canonical (fa_Value f)"

definition print_field :: "nat \<Rightarrow> FieldAssign \<Rightarrow> printer \<Rightarrow> printer" where
  "print_field depth f p =
     end_line (p_Line (fa_NamePos f)) (emit (print_assign f) (print_indent depth (ownComments (p_Line (fa_NamePos f)) depth p)))"

definition print_component :: "ComponentDecl \<Rightarrow> nat \<Rightarrow> printer \<Rightarrow> printer" where
  "print_component d depth p =
     (let p1 = emit (cd_Type d) (emit ''component '' (print_indent depth p)); line = p_Line (cd_Pos d) in
      if cd_Fields d = [] \<and> \<not> pendingBefore (p_Line (cd_Close d)) p1 then end_line line (emit '' {}'' p1)
      else if cd_Fields d \<noteq> [] \<and> \<not> cd_MultiLine d \<and> oneLineFits d depth then
        end_line line (emit '' }'' (emit (strings_Join (map print_assign (cd_Fields d)) '' '') (emit '' { '' p1)))
      else closeBlock (cd_Close d) depth (fold (print_field (depth + 1)) (cd_Fields d) (end_line line (emit '' {'' p1))))"

definition qualify :: "string \<Rightarrow> string \<Rightarrow> string" where
  "qualify zone room = (if zone = '''' then room else zone @ ''.'' @ room)"

definition print_exit :: "ExitDecl \<Rightarrow> nat \<Rightarrow> printer \<Rightarrow> printer" where
  "print_exit d depth p =
     (let p1 = emit (qualify (xd_ToZone d) (xd_ToRoom d)) (emit '' -> '' (emit (xd_Direction d) (emit ''exit '' (print_indent depth p))));
          names = map se_Name (xd_Perceives d);
          p2 = (if xd_PerceivesSet d
                then emit [CHR 0x5D] (emit (strings_Join (if pr_canon p then sort names else names) '', '') (emit ('' perceives '' @ [CHR 0x5B]) p1))
                else p1)
      in end_line (p_Line (xd_Pos d)) p2)"

section \<open>Packs, Rooms, Zones and templates\<close>

fun itoa_digits :: "nat \<Rightarrow> string \<Rightarrow> string" where
  "itoa_digits n b = (if n = 0 then b else itoa_digits (n div 10) (digit_char (n mod 10) # b))"

declare itoa_digits.simps [simp del]

definition itoa :: "int \<Rightarrow> string" where
  "itoa n = (if n = 0 then ''0'' else if n < 0 then CHR ''-'' # itoa_digits (nat (- n)) [] else itoa_digits (nat n) [])"

definition print_pack :: "PackDecl \<Rightarrow> printer \<Rightarrow> printer" where
  "print_pack d p =
     (let p1 = emit (lp_Name d) (emit ''pack '' p) in
      end_line (p_Line (lp_Pos d)) (case lp_Requires d of None \<Rightarrow> p1
        | Some q \<Rightarrow> emit (itoa (uint (rq_Version q))) (emit [CHR 0x40] (emit (rq_Pack q) (emit '' requires '' p1)))))"

text \<open>The canonical order. The keys it sorts by are distinct in what the decompiler prints, so \<^verbatim>\<open>sort.Slice\<close> has one answer.\<close>

definition canonicalZoneItems :: "ZoneDecl \<Rightarrow> ZoneItem list" where
  "canonicalZoneItems d = map ZFallback (lz_Fallbacks d) @ map ZComponent (sort_key cd_Type (lz_Components d)) @ map ZRoom (sort_key lr_ID (lz_Rooms d))"

definition canonicalRoomItems :: "RoomDecl \<Rightarrow> RoomItem list" where
  "canonicalRoomItems d = map RDesc (lr_Descs d) @ map RExit (sort_key xd_Direction (lr_Exits d)) @ map RComponent (sort_key cd_Type (lr_Components d))"

definition canonicalTemplateItems :: "TemplateDecl \<Rightarrow> TemplateItem list" where
  "canonicalTemplateItems d = map TComponent (sort_key cd_Type (lt_Components d))"

text \<open>The items of a block, each under its own comments, and the block around them.\<close>

fun print_items :: "('i \<Rightarrow> 'i \<Rightarrow> bool) \<Rightarrow> ('i \<Rightarrow> Pos) \<Rightarrow> ('i \<Rightarrow> nat \<Rightarrow> printer \<Rightarrow> printer) \<Rightarrow> nat \<Rightarrow> 'i option \<Rightarrow> 'i list \<Rightarrow> printer \<Rightarrow> printer" where
  "print_items gap pos item depth prev [] p = p"
| "print_items gap pos item depth prev (it # its) p =
     (let p1 = (case prev of None \<Rightarrow> p | Some q \<Rightarrow> if gap q it then blank p else p)
      in print_items gap pos item depth (Some it) its (item it depth (ownComments (p_Line (pos it)) depth p1)))"

definition print_block :: "nat \<Rightarrow> Pos \<Rightarrow> nat \<Rightarrow> bool \<Rightarrow> (printer \<Rightarrow> printer) \<Rightarrow> printer \<Rightarrow> printer" where
  "print_block line close depth none body p =
     (if none \<and> \<not> pendingBefore (p_Line close) p then end_line line (emit '' {}'' p)
      else closeBlock close depth (body (end_line line (emit '' {'' p))))"

definition roomItemPos :: "RoomItem \<Rightarrow> Pos" where
  "roomItemPos it = (case it of RDesc d \<Rightarrow> dd_Pos d | RExit e \<Rightarrow> xd_Pos e | RComponent c \<Rightarrow> cd_Pos c)"

definition print_roomItem :: "RoomItem \<Rightarrow> nat \<Rightarrow> printer \<Rightarrow> printer" where
  "print_roomItem it depth = (case it of RDesc d \<Rightarrow> print_desc d depth | RExit e \<Rightarrow> print_exit e depth | RComponent c \<Rightarrow> print_component c depth)"

definition print_room :: "RoomDecl \<Rightarrow> nat \<Rightarrow> printer \<Rightarrow> printer" where
  "print_room d depth p =
     (let p1 = emit (sl_Raw (lr_Title d)) (emit '' '' (emit (lr_ID d) (emit ''room '' (print_indent depth p))));
          items = (if pr_canon p then canonicalRoomItems d else lr_Items d);
          gap = (\<lambda>a b. \<not> pr_canon p \<and> p_Line (roomItemPos b) > p_Line (roomItemPos a) + 1)
      in print_block (p_Line (lr_Pos d)) (lr_Close d) depth (items = [])
           (print_items gap roomItemPos print_roomItem (depth + 1) None items) p1)"

definition zoneItemPos :: "ZoneItem \<Rightarrow> Pos" where
  "zoneItemPos it = (case it of ZFallback f \<Rightarrow> fb_Pos f | ZComponent c \<Rightarrow> cd_Pos c | ZRoom r \<Rightarrow> lr_Pos r)"

definition is_room :: "ZoneItem \<Rightarrow> bool" where
  "is_room it = (case it of ZRoom r \<Rightarrow> True | _ \<Rightarrow> False)"

definition blankBetweenZoneItems :: "bool \<Rightarrow> ZoneItem \<Rightarrow> ZoneItem \<Rightarrow> bool" where
  "blankBetweenZoneItems canon prev cur =
     (if canon then is_room prev \<or> is_room cur else p_Line (zoneItemPos cur) > p_Line (zoneItemPos prev) + 1)"

definition print_fallback :: "FallbackDecl \<Rightarrow> nat \<Rightarrow> printer \<Rightarrow> printer" where
  "print_fallback f depth p = end_line (p_Line (fb_Pos f)) (emit (fb_Room f) (emit ''fallback '' (print_indent depth p)))"

definition print_zoneItem :: "ZoneItem \<Rightarrow> nat \<Rightarrow> printer \<Rightarrow> printer" where
  "print_zoneItem it depth = (case it of ZFallback f \<Rightarrow> print_fallback f depth | ZComponent c \<Rightarrow> print_component c depth | ZRoom r \<Rightarrow> print_room r depth)"

definition print_zone :: "ZoneDecl \<Rightarrow> printer \<Rightarrow> printer" where
  "print_zone d p =
     (let p1 = emit (sl_Raw (lz_Name d)) (emit '' '' (emit (lz_ID d) (emit ''zone '' p)));
          items = (if pr_canon p then canonicalZoneItems d else lz_Items d)
      in print_block (p_Line (lz_Pos d)) (lz_Close d) 0 (items = [])
           (print_items (blankBetweenZoneItems (pr_canon p)) zoneItemPos print_zoneItem 1 None items) p1)"

definition templateItemPos :: "TemplateItem \<Rightarrow> Pos" where
  "templateItemPos it = (case it of TComponent c \<Rightarrow> cd_Pos c | TRemove r \<Rightarrow> rv_Pos r)"

definition print_remove :: "RemoveDecl \<Rightarrow> nat \<Rightarrow> printer \<Rightarrow> printer" where
  "print_remove d depth p =
     (let p1 = print_indent depth p;
          p2 = (if rv_Field d = '''' then emit (rv_Component d) (emit ''remove component '' p1)
                else emit (rv_Component d) (emit '' from '' (emit (rv_Field d) (emit ''remove field '' p1))))
      in end_line (p_Line (rv_Pos d)) p2)"

definition print_templateItem :: "TemplateItem \<Rightarrow> nat \<Rightarrow> printer \<Rightarrow> printer" where
  "print_templateItem it depth = (case it of TComponent c \<Rightarrow> print_component c depth | TRemove r \<Rightarrow> print_remove r depth)"

definition head_text :: "TemplateHead \<Rightarrow> string" where
  "head_text h = (if th_Kind h \<noteq> '''' then '' kind '' @ th_Kind h else '' extends '' @ th_Extends h)"

definition print_template :: "TemplateDecl \<Rightarrow> printer \<Rightarrow> printer" where
  "print_template d p =
     (let p1 = emit (concat (map head_text (lt_Heads d))) (emit (lt_Name d) (emit ''template '' p));
          items = (if pr_canon p then canonicalTemplateItems d else lt_Items d);
          gap = (\<lambda>a b. \<not> pr_canon p \<and> p_Line (templateItemPos b) > p_Line (templateItemPos a) + 1)
      in print_block (p_Line (lt_Pos d)) (lt_Close d) 0 (items = [])
           (print_items gap templateItemPos print_templateItem 1 None items) p1)"

section \<open>Files\<close>

definition declPos :: "Decl \<Rightarrow> Pos" where
  "declPos d = (case d of DPack p \<Rightarrow> lp_Pos p | DZone z \<Rightarrow> lz_Pos z | DTemplate t \<Rightarrow> lt_Pos t)"

definition print_decl :: "Decl \<Rightarrow> printer \<Rightarrow> printer" where
  "print_decl d = (case d of DPack p \<Rightarrow> print_pack p | DZone z \<Rightarrow> print_zone z | DTemplate t \<Rightarrow> print_template t)"

fun print_decls :: "bool \<Rightarrow> Decl list \<Rightarrow> printer \<Rightarrow> printer" where
  "print_decls first [] p = p"
| "print_decls first (d # ds) p = print_decls False ds (print_decl d (ownComments (p_Line (declPos d)) 0 (if first then p else blank p)))"

definition TrimRight_nl :: "string \<Rightarrow> string" where
  "TrimRight_nl s = rev (dropWhile (\<lambda>c. c = CHR 0x0A) (rev s))"

definition print_file :: "SourceFile \<Rightarrow> printer \<Rightarrow> string" where
  "print_file f p =
     (let out = TrimRight_nl (pr_sb (trailingOwnComments 0 (sf_Decls f \<noteq> []) (print_decls True (sf_Decls f) p)))
      in if out = '''' then '''' else out @ [CHR 0x0A])"

definition Format :: "string \<Rightarrow> perr + string" where
  "Format src = (case ParseFile '''' src of (f, Some e) \<Rightarrow> Inl e | (f, None) \<Rightarrow> Inr (print_file f (newPrinter f)))"

definition canonicalPrint :: "SourceFile \<Rightarrow> string" where
  "canonicalPrint f = print_file f ((newPrinter f)\<lparr>pr_canon := True\<rparr>)"

end
