(* ===== verification/Lang_Print.thy ===== *)
theory Lang_Print
  imports Lang_Format
begin

text \<open>
  What the printer (\<^verbatim>\<open>content/lang/format.go\<close>) writes. \<open>prints vs p q\<close>: between the states \<open>p\<close> and \<open>q\<close>
  it wrote lines that lex to the terminals \<open>vs\<close>, with the comments it took in between. Every method
  of the printer prints the tree of its argument.
\<close>

section \<open>Comments and lines\<close>

definition code :: "(Kind \<times> string) list \<Rightarrow> (Kind \<times> string) list" where
  "code = filter (\<lambda>v. fst v \<noteq> Comment)"

definition remarks :: "(Kind \<times> string) list \<Rightarrow> (Kind \<times> string) list" where
  "remarks = filter (\<lambda>v. fst v = Comment)"

lemma code_simps [simp]: "code [] = []" "code (v # vs) = (if fst v = Comment then code vs else v # code vs)" "code (vs @ ws) = code vs @ code ws"
  "remarks [] = []" "remarks (v # vs) = (if fst v = Comment then v # remarks vs else remarks vs)" "remarks (vs @ ws) = remarks vs @ remarks ws"
  by (simp_all add: code_def remarks_def)

lemma code_remarks: "code vs = vs \<Longrightarrow> remarks vs = []"
  by (auto simp: code_def remarks_def filter_empty_conv filter_id_conv)

lemma code_concat: "(\<And>x. x \<in> set xs \<Longrightarrow> code x = x) \<Longrightarrow> code (concat xs) = concat xs"
  by (induction xs) auto

definition pending :: "printer \<Rightarrow> Token list" where
  "pending p = drop (pr_next p) (pr_comments p)"

definition sound :: "printer \<Rightarrow> bool" where
  "sound p \<longleftrightarrow> pr_canon p \<or> sorted_wrt (\<lambda>a b. p_Line (tok_Pos a) < p_Line (tok_Pos b)) (pending p)
     \<and> (\<forall>c \<in> set (pending p). tok_Kind c = Comment \<and> comment_lit (tok_Text c))"

definition prints :: "(Kind \<times> string) list \<Rightarrow> printer \<Rightarrow> printer \<Rightarrow> bool" where
  "prints vs p q \<longleftrightarrow> pr_canon q = pr_canon p \<and> (\<exists>x ws k. pr_sb q = pr_sb p @ x \<and> lexes UNIV x ws \<and> code ws = vs \<and> pending q = drop k (pending p)
     \<and> remarks ws = (if pr_canon p then [] else map view (take k (pending p))))"

lemma pending_simps [simp]: "pending (emit s p) = pending p" "pending (print_indent d p) = pending p" "pending (blank p) = pending p"
  "pending (p\<lparr>pr_prevLine := n\<rparr>) = pending p" "pending (own_comment d e c p) = pending p"
  by (simp_all add: pending_def)

lemma pending_line_eq: "pending_line p = (case pending p of [] \<Rightarrow> None | c # _ \<Rightarrow> Some (p_Line (tok_Pos c)))"
  by (auto simp: pending_line_def pending_def Cons_nth_drop_Suc[symmetric])

lemma take_comment_eq:
  assumes "pending p = c # cs"
  shows "take_comment p = (c, p\<lparr>pr_next := pr_next p + 1\<rparr>)" "pending (p\<lparr>pr_next := pr_next p + 1\<rparr>) = cs"
proof -
  have l: "pr_next p < length (pr_comments p)" using assms by (simp add: pending_def) (metis drop_all leI list.discI)
  then have "pr_comments p ! pr_next p # drop (Suc (pr_next p)) (pr_comments p) = c # cs" using assms by (simp add: pending_def Cons_nth_drop_Suc)
  then show "take_comment p = (c, p\<lparr>pr_next := pr_next p + 1\<rparr>)" "pending (p\<lparr>pr_next := pr_next p + 1\<rparr>) = cs"
    by (simp_all add: take_comment_def pending_def)
qed

lemma prints_prevLine [simp]: "prints vs p (q\<lparr>pr_prevLine := n\<rparr>) = prints vs p q" "prints vs (p\<lparr>pr_prevLine := n\<rparr>) q = prints vs p q"
  by (simp_all add: prints_def)

lemma sound_prevLine [simp]: "sound (p\<lparr>pr_prevLine := n\<rparr>) = sound p"
  by (simp add: sound_def)

lemma prints_refl: "prints [] p p"
  unfolding prints_def by (rule conjI[OF refl], rule exI[of _ "[]"], rule exI[of _ "[]"], rule exI[of _ 0]) simp

lemma prints_trans:
  assumes "prints vs p q" "prints ws q r"
  shows "prints (vs @ ws) p r"
proof -
  obtain x xs k where 1: "pr_canon q = pr_canon p" "pr_sb q = pr_sb p @ x" "lexes UNIV x xs" "code xs = vs" "pending q = drop k (pending p)"
    "remarks xs = (if pr_canon p then [] else map view (take k (pending p)))" using assms(1) unfolding prints_def by blast
  obtain y ys l where 2: "pr_canon r = pr_canon q" "pr_sb r = pr_sb q @ y" "lexes UNIV y ys" "code ys = ws" "pending r = drop l (pending q)"
    "remarks ys = (if pr_canon q then [] else map view (take l (pending q)))" using assms(2) unfolding prints_def by blast
  have "lexes UNIV (x @ y) (xs @ ys)" using 1(3) 2(3) by (rule lexes_any)
  moreover have "remarks (xs @ ys) = (if pr_canon p then [] else map view (take (k + l) (pending p)))"
    using 1 2 by (simp add: take_add)
  ultimately show ?thesis using 1 2 unfolding prints_def
    by (intro conjI exI[of _ "x @ y"] exI[of _ "xs @ ys"] exI[of _ "k + l"]) (simp_all add: add.commute)
qed

lemma prints_Nil: "prints [] p q \<Longrightarrow> prints vs q r \<Longrightarrow> prints vs p r"
  using prints_trans[of "[]" p q vs r] by simp

lemma sound_prints: "prints vs p q \<Longrightarrow> sound p \<Longrightarrow> sound q"
proof -
  have "sound q" if "pending q = drop k (pending p)" "pr_canon q = pr_canon p" "sound p" for k
    using that set_drop_subset[of k "pending p"] by (auto simp: sound_def sorted_wrt_drop)
  then show "prints vs p q \<Longrightarrow> sound p \<Longrightarrow> sound q" by (auto simp: prints_def)
qed

lemma canon_prints: "prints vs p q \<Longrightarrow> pr_canon q = pr_canon p"
  by (simp add: prints_def)

text \<open>Lines with no comment taken.\<close>

lemma prints_emit: "lexes UNIV x vs \<Longrightarrow> code vs = vs \<Longrightarrow> prints vs p (emit x p)"
  unfolding prints_def by (rule conjI, simp, rule exI[of _ x], rule exI[of _ vs], rule exI[of _ 0]) (simp add: code_remarks)

lemma prints_blank: "prints [] p (blank p)"
  using prints_emit[OF lexes_white, of "[nl]" p] prints_refl[of p] by (simp add: blank_def)

lemma emit_emit [simp]: "emit a (emit b p) = emit (b @ a) p"
  by (simp add: emit_def)

abbreviation margin :: "nat \<Rightarrow> string" where
  "margin depth \<equiv> concat (replicate depth ''  '')"

lemma white_margin [simp]: "white (margin d)"
  by (induction d) simp_all

section \<open>Comments\<close>

lemma prints_own_comment:
  assumes "pending p = c # cs" "tok_Kind c = Comment" "comment_lit (tok_Text c)" "\<not> pr_canon p"
  shows "prints [] p (own_comment d e c (p\<lparr>pr_next := pr_next p + 1\<rparr>))"
proof -
  let ?p1 = "p\<lparr>pr_next := pr_next p + 1\<rparr>"
  define b where "b = (if e \<and> p_Line (tok_Pos c) > pr_prevLine ?p1 + 1 then blank ?p1 else ?p1)"
  have "\<exists>w. pr_sb b = pr_sb p @ w \<and> white w" by (simp add: blank_def b_def)
  then obtain w where w: "pr_sb b = pr_sb p @ w" "white w" by blast
  have "lexes UNIV (tok_Text c @ [nl]) [(Comment, tok_Text c)]"
    using lexes_append[OF lexes_comment[OF assms(3)] lexes_white[of "[nl]" UNIV]] by simp
  then have "lexes UNIV ((w @ margin d) @ tok_Text c @ [nl]) [(Comment, tok_Text c)]"
    using lexes_any[OF lexes_white[of "w @ margin d" UNIV]] w(2) by simp
  moreover have "pr_sb (own_comment d e c ?p1) = pr_sb b @ margin d @ tok_Text c @ [nl]"
    unfolding own_comment_def Let_def b_def by (simp add: print_indent_def)
  then have "pr_sb (own_comment d e c ?p1) = pr_sb p @ (w @ margin d) @ tok_Text c @ [nl]" using w(1) by simp
  ultimately show ?thesis unfolding prints_def using assms take_comment_eq[OF assms(1)]
    by (intro conjI exI[of _ "(w @ margin d) @ tok_Text c @ [nl]"] exI[of _ "[(Comment, tok_Text c)]"] exI[of _ 1]) (simp_all add: view_def)
qed

lemma prints_drop: "pr_canon p \<Longrightarrow> pending p = c # cs \<Longrightarrow> prints [] p (p\<lparr>pr_next := pr_next p + 1\<rparr>)"
  using take_comment_eq(2)[of p c cs] unfolding prints_def
  by (intro conjI exI[of _ "[]"] exI[of _ 1]) simp_all

lemma sound_hd: "sound p \<Longrightarrow> pending p = c # cs \<Longrightarrow> \<not> pr_canon p \<Longrightarrow> tok_Kind c = Comment \<and> comment_lit (tok_Text c)"
  by (simp add: sound_def)

lemma prints_ownLoop: "sound p \<Longrightarrow> prints [] p (snd (ownLoop line d e p))"
proof (induction line d e p rule: ownLoop.induct)
  case (1 line d e p)
  show ?case
  proof (cases "before (pending_line p) line")
    case True
    then obtain c cs where c: "pending p = c # cs" by (auto simp: pending_line_eq before_def split: list.splits)
    let ?p1 = "p\<lparr>pr_next := pr_next p + 1\<rparr>"
    show ?thesis
    proof (cases "pr_canon p")
      case t: True
      have "prints [] p ?p1" using prints_drop[OF t c] .
      moreover from this have "prints [] ?p1 (snd (ownLoop line d e ?p1))"
        using "1.IH"(1)[OF True take_comment_eq(1)[OF c, symmetric]] t sound_prints[OF _ "1.prems"] by simp
      ultimately show ?thesis using prints_Nil True t take_comment_eq(1)[OF c] unfolding ownLoop.simps[of line d e p] by simp
    next
      case f: False
      let ?p2 = "own_comment d e c ?p1"
      have "prints [] p ?p2" using prints_own_comment[OF c _ _ f] sound_hd[OF "1.prems" c f] by simp
      moreover from this have "prints [] ?p2 (snd (ownLoop line d True ?p2))"
        using "1.IH"(2)[OF True take_comment_eq(1)[OF c, symmetric]] f sound_prints[OF _ "1.prems"] by simp
      ultimately show ?thesis using prints_Nil True f take_comment_eq(1)[OF c] unfolding ownLoop.simps[of line d e p] by simp
    qed
  next
    case False
    then show ?thesis using prints_refl unfolding ownLoop.simps[of line d e p] by simp
  qed
qed

lemma prints_ownComments: "sound p \<Longrightarrow> prints [] p (ownComments line d p)"
proof -
  assume "sound p"
  then have "prints [] p (snd (ownLoop line d False p))" by (rule prints_ownLoop)
  then show ?thesis using prints_Nil[OF _ prints_blank] by (auto simp: ownComments_def split: prod.splits)
qed

lemma trailing_stop: "pending_line p \<noteq> Some line \<Longrightarrow> trailing line p = p"
  by (subst trailing.simps) simp

lemma trailing_canon: "pr_canon p \<Longrightarrow> pr_canon (trailing line p) \<and> pr_sb (trailing line p) = pr_sb p \<and> (\<exists>k. pending (trailing line p) = drop k (pending p))"
proof (induction line p rule: trailing.induct)
  case (1 line p)
  show ?case
  proof (cases "pending_line p = Some line")
    case True
    then obtain c cs where c: "pending p = c # cs" by (auto simp: pending_line_eq split: list.splits)
    from "1.IH"[OF True take_comment_eq(1)[OF c, symmetric]] "1.prems" take_comment_eq(2)[OF c]
    have ih: "pr_canon (trailing line (p\<lparr>pr_next := pr_next p + 1\<rparr>)) \<and> pr_sb (trailing line (p\<lparr>pr_next := pr_next p + 1\<rparr>)) = pr_sb p
      \<and> (\<exists>k. pending (trailing line (p\<lparr>pr_next := pr_next p + 1\<rparr>)) = drop k cs)" by simp
    have "trailing line p = trailing line (p\<lparr>pr_next := pr_next p + 1\<rparr>)"
      using True "1.prems" take_comment_eq(1)[OF c] by (subst trailing.simps) simp
    then show ?thesis using ih c by (metis drop_Suc_Cons)
  next
    case False
    then show ?thesis using "1.prems" by (simp add: trailing_stop) (metis drop0)
  qed
qed

text \<open>A line takes at most one comment: a comment runs to the end of its line.\<close>

lemma trailing_source:
  assumes "sound p" "\<not> pr_canon p"
  shows "trailing line p = p \<or> (\<exists>c cs. pending p = c # cs \<and> trailing line p = emit (''  '' @ tok_Text c) (p\<lparr>pr_next := pr_next p + 1\<rparr>))"
proof (cases "pending_line p = Some line")
  case True
  then obtain c cs where c: "pending p = c # cs" "p_Line (tok_Pos c) = line" by (auto simp: pending_line_eq split: list.splits)
  let ?q = "emit (''  '' @ tok_Text c) (p\<lparr>pr_next := pr_next p + 1\<rparr>)"
  have "pending ?q = cs" using take_comment_eq(2)[OF c(1)] by simp
  moreover have "\<forall>d \<in> set cs. line < p_Line (tok_Pos d)" using assms c by (auto simp: sound_def)
  ultimately have "pending_line ?q \<noteq> Some line" by (auto simp: pending_line_eq split: list.splits)
  then have "trailing line ?q = ?q" by (rule trailing_stop)
  moreover have "trailing line p = trailing line ?q" using True assms(2) take_comment_eq(1)[OF c(1)] by (subst trailing.simps) simp
  ultimately show ?thesis using c(1) by auto
qed (simp add: trailing_stop)

abbreviation gap :: "char set" where
  "gap \<equiv> {CHR '' '', nl}"

lemma prints_end_line:
  assumes "sound p" "lexes gap x vs" "code vs = vs"
  shows "prints vs p (end_line line (emit x p))"
proof -
  let ?q = "trailing line (emit x p)"
  have s: "sound (emit x p)" using assms(1) by (simp add: sound_def)
  have plain: "prints vs p r" if "pr_sb r = pr_sb p @ x @ [nl]" "pr_canon r = pr_canon p" "pending r = drop k (pending p)" "pr_canon p \<or> k = 0" for r k
  proof -
    have "lexes UNIV (x @ [nl]) vs" using lexes_append[OF assms(2) lexes_white[of "[nl]" UNIV]] by simp
    then show ?thesis unfolding prints_def using that code_remarks[OF assms(3)] assms(3)
      by (intro conjI exI[of _ "x @ [nl]"] exI[of _ vs] exI[of _ k]) auto
  qed
  show ?thesis
  proof (cases "pr_canon p")
    case True
    then have "pr_canon (emit x p)" by simp
    from trailing_canon[OF this, of line] obtain k where "pr_canon ?q" "pr_sb ?q = pr_sb p @ x" "pending ?q = drop k (pending p)" by auto
    then show ?thesis using True by (intro plain[of _ k]) (simp_all add: end_line_def)
  next
    case False
    then consider "?q = emit x p" | c cs where "pending (emit x p) = c # cs" "?q = emit (''  '' @ tok_Text c) ((emit x p)\<lparr>pr_next := pr_next (emit x p) + 1\<rparr>)"
      using trailing_source[OF s, of line] by auto
    then show ?thesis
    proof cases
      case 1
      then show ?thesis using False by (intro plain[of _ 0]) (simp_all add: end_line_def)
    next
      case 2
      have c: "pending p = c # cs" using 2(1) by simp
      have k: "tok_Kind c = Comment" "comment_lit (tok_Text c)" using sound_hd[OF assms(1) c False] by simp_all
      let ?x = "x @ ''  '' @ tok_Text c @ [nl]"
      have "lexes UNIV (tok_Text c @ [nl]) [(Comment, tok_Text c)]"
        using lexes_append[OF lexes_comment[OF k(2)] lexes_white[of "[nl]" UNIV]] by simp
      then have "lexes UNIV (''  '' @ tok_Text c @ [nl]) [(Comment, tok_Text c)]" using lexes_any[OF lexes_white[of "''  ''" UNIV]] by simp
      from lexes_append[OF assms(2) this] have l: "lexes UNIV ?x (vs @ [(Comment, tok_Text c)])" by simp
      have "pending (p\<lparr>pr_next := pr_next p + 1\<rparr>) = cs" using take_comment_eq(2)[OF c] .
      then have "pending (end_line line (emit x p)) = drop 1 (pending p)" using 2(2) c by (simp add: end_line_def pending_def)
      moreover have "pr_sb (end_line line (emit x p)) = pr_sb p @ ?x" "pr_canon (end_line line (emit x p)) = pr_canon p"
        using 2(2) by (simp_all add: end_line_def emit_def)
      ultimately show ?thesis unfolding prints_def using l code_remarks[OF assms(3)] assms(3) k(1) False c
        by (intro conjI exI[of _ ?x] exI[of _ "vs @ [(Comment, tok_Text c)]"] exI[of _ 1]) (simp_all add: view_def)
    qed
  qed
qed

lemma prints_closeBlock: "sound p \<Longrightarrow> prints [rbrace] p (closeBlock close d p)"
proof -
  assume s: "sound p"
  let ?q = "ownComments (p_Line close) (d + 1) p"
  have l: "lexes UNIV (margin d @ [CHR 0x7D, nl]) [rbrace]"
    using lexes_any[OF lexes_white[of "margin d" UNIV] lexes_any[OF lexes_punct(2) lexes_white[of "[nl]" UNIV]]] by simp
  have "prints [] p ?q" by (rule prints_ownComments[OF s])
  moreover have "prints [rbrace] ?q (emit (margin d @ [CHR 0x7D, nl]) ?q)" by (rule prints_emit[OF l]) simp
  ultimately show ?thesis using prints_Nil by (simp add: closeBlock_def print_indent_def)
qed

end
