(* ===== verification/Lang_Layout.thy ===== *)
theory Lang_Layout
  imports Lang_Print
begin

text \<open>
  Every method of the printer (\<^verbatim>\<open>content/lang/format.go\<close>) prints the tree of its argument: its items in
  their order in the source, or in the canonical order for the decompiler.
\<close>

section \<open>Phrases\<close>

lemma ends_in [simp]:
  "CHR '' '' \<in> lower_end" "nl \<in> lower_end" "CHR '':'' \<in> lower_end" "CHR ''.'' \<in> lower_end" "CHR '','' \<in> lower_end" "CHR 0x5D \<in> lower_end"
  "CHR 0x40 \<in> lower_end" "CHR '' '' \<in> upper_end" "nl \<in> upper_end" "CHR '' '' \<in> num_end" "nl \<in> num_end"
  by (simp_all add: lower_end_def upper_end_def num_end_def rune_class_defs)

lemma gap_in [simp]: "gap \<subseteq> lower_end" "gap \<subseteq> upper_end" "gap \<subseteq> num_end" "gap \<subseteq> UNIV"
  by auto

lemma lexes_word: "lowerid w \<Longrightarrow> lexes UNIV (w @ '' '') [word w]"
  using lexes_append[OF lexes_lowerid lexes_white[of "'' ''" UNIV], of w] by (simp add: word_def)

lemma lexes_keywords:
  "lexes UNIV ''component '' [word ''component'']" "lexes UNIV ''desc '' [word ''desc'']" "lexes UNIV ''exit '' [word ''exit'']"
  "lexes UNIV ''room '' [word ''room'']" "lexes UNIV ''zone '' [word ''zone'']" "lexes UNIV ''fallback '' [word ''fallback'']"
  "lexes UNIV ''template '' [word ''template'']" "lexes UNIV ''pack '' [word ''pack'']" "lexes UNIV ''requires '' [word ''requires'']"
  "lexes UNIV ''remove '' [word ''remove'']" "lexes UNIV ''field '' [word ''field'']" "lexes UNIV ''from '' [word ''from'']"
  "lexes UNIV ''kind '' [word ''kind'']" "lexes UNIV ''extends '' [word ''extends'']" "lexes UNIV ''perceives '' [word ''perceives'']"
  using lexes_word[of "''component''"] lexes_word[of "''desc''"] lexes_word[of "''exit''"] lexes_word[of "''room''"] lexes_word[of "''zone''"]
    lexes_word[of "''fallback''"] lexes_word[of "''template''"] lexes_word[of "''pack''"] lexes_word[of "''requires''"] lexes_word[of "''remove''"]
    lexes_word[of "''field''"] lexes_word[of "''from''"] lexes_word[of "''kind''"] lexes_word[of "''extends''"] lexes_word[of "''perceives''"]
  by (simp_all add: lowerid_def rune_class_defs)

lemma lexes_sp: "lexes F s vs \<Longrightarrow> lexes F ('' '' @ s) vs"
  using lexes_any[OF lexes_white[of "'' ''" UNIV], of F s vs] by simp

lemma lexes_margin: "lexes F s vs \<Longrightarrow> lexes F (margin d @ s) vs"
  using lexes_any[OF lexes_white[of "margin d" UNIV], of F s vs] by simp

lemma lexes_braces: "lexes UNIV '' {'' [lbrace]" "lexes UNIV '' {}'' [lbrace, rbrace]" "lexes UNIV '' { '' [lbrace]" "lexes UNIV '' }'' [rbrace]"
proof -
  show o: "lexes UNIV '' {'' [lbrace]" using lexes_sp[OF lexes_punct(1)] by simp
  show c: "lexes UNIV '' }'' [rbrace]" using lexes_sp[OF lexes_punct(2)] by simp
  show "lexes UNIV '' {}'' [lbrace, rbrace]" using lexes_any[OF o lexes_punct(2), of UNIV] by simp
  show "lexes UNIV '' { '' [lbrace]" using lexes_any[OF o lexes_white[of "'' ''" UNIV]] by simp
qed

lemma Split_dots: "Split (CHR ''.'') s = x # xs \<Longrightarrow> s = x @ concat (map (\<lambda>y. CHR ''.'' # y) xs)"
  using Split_join by metis

lemma lexes_dot: "lowerid s \<Longrightarrow> lexes UNIV (s @ ''.'') [word s, dot]"
  using lexes_append[OF lexes_lowerid lexes_punct(7)[of UNIV], of s] by (simp add: word_def)

lemma lexes_ref:
  assumes "wf_ref name"
  shows "lexes upper_end name (tree_ref name)"
proof -
  have "lexes UNIV (dotted xs) (concat (map (\<lambda>y. [word y, dot]) xs))" if "list_all lowerid xs" for xs
    using that
  proof (induction xs)
    case (Cons x xs)
    then show ?case using lexes_any[OF lexes_dot[of x], of UNIV "dotted xs"] by (simp add: dotted_def)
  qed (simp add: dotted_def)
  from lexes_any[OF this lexes_upperid] assms have "lexes upper_end (dotted (butlast (Split (CHR ''.'') name)) @ last (Split (CHR ''.'') name)) (tree_ref name)"
    by (simp add: wf_ref_def tree_ref_def)
  then show ?thesis using ref_join[of name] by (simp add: dotted_def)
qed

lemma lexes_pack_ref:
  assumes "wf_pack_ref name"
  shows "lexes lower_end name (tree_pack_ref name)"
proof -
  obtain x xs where x: "Split (CHR ''.'') name = x # xs" by (cases "Split (CHR ''.'') name") auto
  have "lexes lower_end (y @ concat (map (\<lambda>z. CHR ''.'' # z) ys)) (word y # concat (map (\<lambda>z. [dot, word z]) ys))" if "list_all lowerid (y # ys)" for y ys
    using that
  proof (induction ys arbitrary: y)
    case Nil
    then show ?case using lexes_lowerid[of y] by (simp add: word_def)
  next
    case (Cons z ys)
    then show ?case using lexes_any[OF lexes_dot[of y] Cons.IH[of z]] by simp
  qed
  from this[of x xs] assms have "lexes lower_end (x @ concat (map (\<lambda>z. CHR ''.'' # z) xs)) (tree_pack_ref name)"
    by (simp add: wf_pack_ref_def x tree_pack_ref_def)
  then show ?thesis unfolding Split_dots[OF x, symmetric] .
qed

lemma lexes_join:
  assumes "hd sep \<in> F" "sep \<noteq> ''''" "lexes UNIV sep sv"
  shows "(\<And>y. y \<in> set (x # xs) \<Longrightarrow> lexes F (f y) (g y)) \<Longrightarrow> lexes F (strings_Join (map f (x # xs)) sep) (g x @ concat (map (\<lambda>y. sv @ g y) xs))"
proof (induction xs arbitrary: x)
  case (Cons y ys)
  have "lexes F (strings_Join (map f (y # ys)) sep) (g y @ concat (map (\<lambda>y. sv @ g y) ys))" by (rule Cons.IH) (use Cons.prems in simp)
  from lexes_any[OF assms(3) this] have "lexes F (sep @ strings_Join (map f (y # ys)) sep) (sv @ g y @ concat (map (\<lambda>y. sv @ g y) ys))" .
  from lexes_append[OF Cons.prems[of x] this] assms(1,2) show ?case by (simp add: strings_Join_def)
qed (simp add: strings_Join_def)

lemma code_trees [simp]: "code (tree_ref name) = tree_ref name" "code (tree_pack_ref name) = tree_pack_ref name"
proof -
  have "code (concat (map (\<lambda>y. [word y, dot]) xs)) = concat (map (\<lambda>y. [word y, dot]) xs)" for xs by (induction xs) (simp_all add: word_def)
  then show "code (tree_ref name) = tree_ref name" by (simp add: tree_ref_def)
  have "code (concat (map (\<lambda>y. [dot, word y]) xs)) = concat (map (\<lambda>y. [dot, word y]) xs)" for xs by (induction xs) (simp_all add: word_def)
  then show "code (tree_pack_ref name) = tree_pack_ref name" by (cases "Split (CHR ''.'') name") (simp_all add: tree_pack_ref_def word_def)
qed

section \<open>Components\<close>

lemma canonical_raw: "wf_value v \<Longrightarrow> canonical v = lv_Raw v"
  by (auto simp: wf_value_def canonical_def closed_lit_def split: Kind.splits)

lemma lexes_value:
  assumes "wf_value v"
  shows "lexes gap (canonical v) [(lv_Kind v, lv_Raw v)]"
  unfolding canonical_raw[OF assms]
proof (cases "lv_Kind v")
  case LowerID
  then have "lowerid (lv_Raw v)" using assms by (auto simp: wf_value_def lowerid_def rune_class_defs)
  then show "lexes gap (lv_Raw v) [(lv_Kind v, lv_Raw v)]" unfolding LowerID by (rule lexes_mono[OF lexes_lowerid]) simp
next
  case StringK
  then show "lexes gap (lv_Raw v) [(lv_Kind v, lv_Raw v)]" using assms lexes_string by (simp add: wf_value_def)
next
  case IntK
  then have "int_lit (lv_Raw v)" using assms by (simp add: wf_value_def)
  then show "lexes gap (lv_Raw v) [(lv_Kind v, lv_Raw v)]" unfolding IntK by (rule lexes_mono[OF lexes_int]) simp
next
  case FloatK
  then have "float_lit (lv_Raw v)" using assms by (simp add: wf_value_def)
  then show "lexes gap (lv_Raw v) [(lv_Kind v, lv_Raw v)]" unfolding FloatK by (rule lexes_mono[OF lexes_float]) simp
qed (use assms in \<open>simp_all add: wf_value_def\<close>)

lemma lexes_assign:
  assumes "wf_field f"
  shows "lexes gap (print_assign f) (tree_field f)"
proof -
  have "lexes UNIV '': '' [(Colon, '':'')]" using lexes_any[OF lexes_punct(5) lexes_white[of "'' ''" UNIV]] by simp
  from lexes_any[OF this lexes_value] assms have "lexes gap ('': '' @ canonical (fa_Value f)) [(Colon, '':''), (lv_Kind (fa_Value f), lv_Raw (fa_Value f))]"
    by (simp add: wf_field_def)
  from lexes_append[OF lexes_lowerid this] assms show ?thesis by (simp add: print_assign_def tree_field_def wf_field_def word_def)
qed

lemma code_field [simp]: "wf_field f \<Longrightarrow> code (tree_field f) = tree_field f"
  by (auto simp: wf_field_def wf_value_def tree_field_def word_def)

lemma code_fields [simp]: "list_all wf_field fs \<Longrightarrow> code (concat (map tree_field fs)) = concat (map tree_field fs)"
  by (induction fs) simp_all

lemma code_component [simp]: "wf_component c \<Longrightarrow> code (tree_component c) = tree_component c"
  by (simp add: tree_component_def wf_component_def word_def)

lemma prints_field:
  assumes "wf_field f" "sound p"
  shows "prints (tree_field f) p (print_field depth f p)"
proof -
  let ?q = "ownComments (p_Line (fa_NamePos f)) depth p"
  have q: "prints [] p ?q" "sound ?q" using prints_ownComments[OF assms(2)] sound_prints assms(2) by blast+
  have "lexes gap (margin depth @ print_assign f) (tree_field f)" by (rule lexes_margin[OF lexes_assign[OF assms(1)]])
  from prints_end_line[OF q(2) this code_field[OF assms(1)]] show ?thesis
    using prints_Nil[OF q(1)] by (simp add: print_field_def print_indent_def)
qed

lemma prints_fold:
  assumes "\<And>x p. x \<in> set xs \<Longrightarrow> sound p \<Longrightarrow> prints (tr x) p (f x p)"
  shows "sound p \<Longrightarrow> prints (concat (map tr xs)) p (fold f xs p)"
  using assms
proof (induction xs arbitrary: p)
  case (Cons x xs)
  have 1: "prints (tr x) p (f x p)" using Cons.prems by simp
  have "sound (f x p)" using sound_prints[OF 1] Cons.prems by simp
  then have "prints (concat (map tr xs)) (f x p) (fold f xs (f x p))" using Cons.IH Cons.prems by simp
  from prints_trans[OF 1 this] show ?case by simp
qed (simp add: prints_refl)

lemma prints_component:
  assumes "wf_component c" "sound p"
  shows "prints (tree_component c) p (print_component c depth p)"
proof -
  let ?h = "margin depth @ ''component '' @ cd_Type c"
  have w: "wf_ref (cd_Type c)" "list_all wf_field (cd_Fields c)" using assms(1) by (simp_all add: wf_component_def)
  have h: "lexes upper_end ?h (word ''component'' # tree_ref (cd_Type c))"
    using lexes_margin[OF lexes_any[OF lexes_keywords(1) lexes_ref[OF w(1)]]] by simp
  have p1: "emit (cd_Type c) (emit ''component '' (print_indent depth p)) = emit ?h p" by (simp add: print_indent_def)
  let ?line = "p_Line (cd_Pos c)"
  have e: "print_component c depth p =
     (if cd_Fields c = [] \<and> \<not> pendingBefore (p_Line (cd_Close c)) (emit ?h p) then end_line ?line (emit (?h @ '' {}'') p)
      else if cd_Fields c \<noteq> [] \<and> \<not> cd_MultiLine c \<and> oneLineFits c depth then
        end_line ?line (emit (?h @ '' { '' @ strings_Join (map print_assign (cd_Fields c)) '' '' @ '' }'') p)
      else closeBlock (cd_Close c) depth (fold (print_field (depth + 1)) (cd_Fields c) (end_line ?line (emit (?h @ '' {'') p))))"
    unfolding print_component_def Let_def print_indent_def emit_emit append_assoc ..
  have empty: "prints (tree_component c) p (end_line ?line (emit (?h @ '' {}'') p))" if "cd_Fields c = []"
  proof -
    have "lexes gap (?h @ '' {}'') (tree_component c)"
      using lexes_mono[OF lexes_append[OF h lexes_braces(2)]] that by (simp add: tree_component_def)
    then show ?thesis using assms by (intro prints_end_line) simp_all
  qed
  have one: "prints (tree_component c) p (end_line ?line (emit (?h @ '' { '' @ strings_Join (map print_assign (cd_Fields c)) '' '' @ '' }'') p))"
    if ne: "cd_Fields c \<noteq> []"
  proof -
    obtain f fs where f: "cd_Fields c = f # fs" using ne by (cases "cd_Fields c") auto
    have "lexes gap (print_assign g) (tree_field g)" if "g \<in> set (f # fs)" for g using that w(2) lexes_assign by (auto simp: f list_all_iff)
    from lexes_join[OF _ _ lexes_white[of "'' ''" UNIV] this]
    have "lexes gap (strings_Join (map print_assign (cd_Fields c)) '' '') (concat (map tree_field (cd_Fields c)))" by (simp add: f)
    from lexes_append[OF this lexes_braces(4)]
    have "lexes UNIV (strings_Join (map print_assign (cd_Fields c)) '' '' @ '' }'') (concat (map tree_field (cd_Fields c)) @ [rbrace])" by simp
    from lexes_append[OF h lexes_any[OF lexes_braces(3) this]]
    have "lexes UNIV (?h @ '' { '' @ strings_Join (map print_assign (cd_Fields c)) '' '' @ '' }'') (tree_component c)" by (simp add: tree_component_def)
    then have "lexes gap (?h @ '' { '' @ strings_Join (map print_assign (cd_Fields c)) '' '' @ '' }'') (tree_component c)" by (rule lexes_mono) simp
    then show ?thesis using assms by (intro prints_end_line) simp_all
  qed
  have block: "prints (tree_component c) p (closeBlock (cd_Close c) depth (fold (print_field (depth + 1)) (cd_Fields c) (end_line ?line (emit (?h @ '' {'') p))))"
  proof -
    let ?q = "end_line ?line (emit (?h @ '' {'') p)"
    let ?r = "fold (print_field (depth + 1)) (cd_Fields c) ?q"
    have l: "lexes gap (?h @ '' {'') (word ''component'' # tree_ref (cd_Type c) @ [lbrace])"
      using lexes_mono[OF lexes_append[OF h lexes_braces(1)]] by simp
    have q: "prints (word ''component'' # tree_ref (cd_Type c) @ [lbrace]) p ?q" by (rule prints_end_line[OF assms(2) l]) (simp add: word_def)
    have sq: "sound ?q" by (rule sound_prints[OF q assms(2)])
    have r: "prints (concat (map tree_field (cd_Fields c))) ?q ?r"
      by (rule prints_fold[OF prints_field sq]) (use w(2) in \<open>auto simp: list_all_iff\<close>)
    have "prints [rbrace] ?r (closeBlock (cd_Close c) depth ?r)" by (rule prints_closeBlock[OF sound_prints[OF r sq]])
    from prints_trans[OF q prints_trans[OF r this]] show ?thesis unfolding tree_component_def append_Cons append_assoc by simp
  qed
  show ?thesis unfolding e using empty one block by (simp only: split: if_split) blast
qed

section \<open>Descriptions and exits\<close>

definition layout_breaks :: "bool \<Rightarrow> breaks" where
  "layout_breaks canon d = map quoted (desc_parts canon 2 d)"

lemma prints_desc:
  assumes "desc_parts (pr_canon p) depth d \<noteq> []" "list_all plain_body (desc_parts (pr_canon p) depth d)" "sound p"
  shows "prints (tree_desc (map quoted (desc_parts (pr_canon p) depth d))) p (print_desc d depth p)"
proof -
  obtain s ss where s: "desc_parts (pr_canon p) depth d = s # ss" using assms(1) by (cases "desc_parts (pr_canon p) depth d") auto
  have pb: "plain_body s" "list_all plain_body ss" using assms(2) s by simp_all
  define cont where "cont = replicate (RuneCount (desc_prefix depth)) (CHR '' '')"
  define first where "first = end_line (p_Line (dd_Pos d)) (emit (margin depth @ ''desc '' @ quoted s) p)"
  define more where "more = (\<lambda>s. emit (cont @ quoted s @ [nl]))"
  have e: "print_desc d depth p = (fold more ss first)\<lparr>pr_prevLine := p_Line (dd_Pos d)\<rparr>"
    by (simp add: print_desc_def s cont_def first_def more_def end_line_def desc_prefix_def)
  have "lexes UNIV (''desc '' @ quoted s) [word ''desc'', (StringK, quoted s)]"
    using lexes_any[OF lexes_keywords(2) lexes_string[of "quoted s" UNIV]] pb(1) by simp
  from lexes_mono[OF lexes_margin[OF this], of gap depth]
  have 1: "prints [word ''desc'', (StringK, quoted s)] p first"
    unfolding first_def by (intro prints_end_line[OF assms(3)]) (simp_all add: word_def)
  have "prints [(StringK, quoted s)] q (more s q)" if "plain_body s" for s q
  proof -
    have "lexes UNIV (quoted s @ [nl]) [(StringK, quoted s)]"
      using lexes_any[OF lexes_string[of "quoted s" UNIV] lexes_white[of "[nl]" UNIV]] that by simp
    from lexes_any[OF lexes_white[of cont UNIV] this] have "lexes UNIV (cont @ quoted s @ [nl]) [(StringK, quoted s)]" by (simp add: cont_def)
    then show ?thesis unfolding more_def by (rule prints_emit) simp
  qed
  then have "prints (concat (map (\<lambda>s. [(StringK, quoted s)]) ss)) first (fold more ss first)"
    using pb(2) sound_prints[OF 1 assms(3)] by (intro prints_fold) (auto simp: list_all_iff)
  from prints_trans[OF 1 this] show ?thesis unfolding e by (simp add: s tree_desc_def comp_def)
qed

definition canon_exit :: "bool \<Rightarrow> ExitDecl \<Rightarrow> ExitDecl" where
  "canon_exit c e = (if c then e\<lparr>xd_Perceives := sort_key se_Name (xd_Perceives e)\<rparr> else e)"

lemma map_sort_key: "map f (sort_key f xs) = sort (map f xs)"
  by (rule sym, rule properties_for_sort) simp_all

lemma prints_exit:
  assumes "wf_exit e" "sound p"
  shows "prints (tree_exit (canon_exit (pr_canon p) e)) p (print_exit e depth p)"
proof -
  define names where "names = map se_Name (xd_Perceives (canon_exit (pr_canon p) e))"
  define h where "h = margin depth @ ''exit '' @ xd_Direction e @ '' -> '' @ qualify (xd_ToZone e) (xd_ToRoom e)"
  define v where "v = [word ''exit'', word (xd_Direction e), (Arrow, ''->'')]
     @ (if xd_ToZone e = '''' then [] else [word (xd_ToZone e), dot]) @ [word (xd_ToRoom e)]"
  define r where "r = (if xd_PerceivesSet e then '' perceives '' @ [CHR 0x5B] @ strings_Join names '', '' @ [CHR 0x5D] else '''')"
  define w where "w = (if xd_PerceivesSet e then word ''perceives'' # (LBracket, [CHR 0x5B]) # (case names of [] \<Rightarrow> []
          | s # ss \<Rightarrow> word s # concat (map (\<lambda>x. [(Comma, '',''), word x]) ss)) @ [(RBracket, [CHR 0x5D])] else [])"
  have n: "names = (if pr_canon p then sort (map se_Name (xd_Perceives e)) else map se_Name (xd_Perceives e))"
    by (simp add: names_def canon_exit_def map_sort_key)
  have e: "print_exit e depth p = end_line (p_Line (xd_Pos e)) (emit (h @ r) p)"
    by (simp add: print_exit_def h_def r_def n print_indent_def)
  have t: "tree_exit (canon_exit (pr_canon p) e) = v @ w"
    by (simp add: tree_exit_def v_def w_def names_def canon_exit_def)
  have sn: "set names = se_Name ` set (xd_Perceives e)" by (simp add: n)
  have nn: "list_all lowerid names" using assms(1) unfolding list_all_iff sn by (simp add: wf_exit_def list_all_iff)
  have ne: "names \<noteq> []" if "xd_PerceivesSet e"
  proof
    assume "names = []"
    then have "xd_Perceives e = []" using sn by simp
    then show False using assms(1) that by (simp add: wf_exit_def)
  qed
  have wf: "lowerid (xd_Direction e)" "xd_ToZone e = '''' \<or> lowerid (xd_ToZone e)" "lowerid (xd_ToRoom e)"
    using assms(1) by (simp_all add: wf_exit_def)
  note wf = wf nn ne
  have "lexes lower_end (qualify (xd_ToZone e) (xd_ToRoom e)) ((if xd_ToZone e = '''' then [] else [word (xd_ToZone e), dot]) @ [word (xd_ToRoom e)])"
    using wf(2) lexes_lowerid[OF wf(3)] lexes_any[OF lexes_dot lexes_lowerid[OF wf(3)], of "xd_ToZone e"] by (auto simp: qualify_def word_def)
  from lexes_any[OF lexes_any[OF lexes_punct(9) lexes_white[of "'' ''" UNIV]] this]
  have "lexes lower_end (''-> '' @ qualify (xd_ToZone e) (xd_ToRoom e))
    ((Arrow, ''->'') # (if xd_ToZone e = '''' then [] else [word (xd_ToZone e), dot]) @ [word (xd_ToRoom e)])" by simp
  from lexes_any[OF lexes_word[OF wf(1)] this] have "lexes lower_end (xd_Direction e @ '' -> '' @ qualify (xd_ToZone e) (xd_ToRoom e)) (tl v)"
    by (simp add: v_def)
  from lexes_margin[OF lexes_any[OF lexes_keywords(3) this], of depth] have h: "lexes lower_end h v" by (simp add: h_def v_def)
  have hr: "lexes gap (h @ r) (v @ w)"
  proof (cases "xd_PerceivesSet e")
    case True
    obtain s ss where s: "names = s # ss" using wf(5)[OF True] by (cases names) auto
    have "lexes UNIV '', '' [(Comma, '','')]" using lexes_any[OF lexes_punct(6) lexes_white[of "'' ''" UNIV]] by simp
    moreover have "lexes lower_end x [word x]" if "x \<in> set (s # ss)" for x using that wf(4) lexes_lowerid s by (auto simp: list_all_iff word_def)
    ultimately have j: "lexes lower_end (strings_Join names '', '') ([word s] @ concat (map (\<lambda>x. [(Comma, '','')] @ [word x]) ss))"
      using lexes_join[of "'', ''" lower_end "[(Comma, '','')]" s ss id "\<lambda>x. [word x]"] by (simp add: s)
    have "lexes UNIV (strings_Join names '', '' @ [CHR 0x5D]) (([word s] @ concat (map (\<lambda>x. [(Comma, '','')] @ [word x]) ss)) @ [(RBracket, [CHR 0x5D])])"
      by (rule lexes_append[OF j lexes_punct(4)]) simp_all
    from lexes_any[OF lexes_punct(3) this] have "lexes UNIV ([CHR 0x5B] @ strings_Join names '', '' @ [CHR 0x5D]) (tl w)"
      by (simp add: w_def s True)
    from lexes_sp[OF lexes_any[OF lexes_keywords(15) this]] have "lexes UNIV r w" by (simp add: r_def w_def s True)
    from lexes_append[OF h this] have "lexes UNIV (h @ r) (v @ w)" by (simp add: r_def True)
    then show ?thesis by (rule lexes_mono) simp
  next
    case False
    then show ?thesis using lexes_mono[OF h, of gap] by (simp add: r_def w_def)
  qed
  have "code v = v" by (simp add: v_def word_def)
  moreover have "code (concat (map (\<lambda>x. [(Comma, '',''), word x]) ss)) = concat (map (\<lambda>x. [(Comma, '',''), word x]) ss)" for ss
    by (induction ss) (simp_all add: word_def)
  then have "code w = w" by (simp add: w_def word_def split: list.split)
  ultimately show ?thesis unfolding e t by (intro prints_end_line[OF assms(2) hr]) simp
qed

lemma prints_fallback: "lowerid (fb_Room f) \<Longrightarrow> sound p \<Longrightarrow> prints (tree_fallback f) p (print_fallback f depth p)"
proof -
  assume a: "lowerid (fb_Room f)" "sound p"
  have "lexes lower_end (''fallback '' @ fb_Room f) (tree_fallback f)"
    using lexes_any[OF lexes_keywords(6) lexes_lowerid[OF a(1)]] by (simp add: tree_fallback_def word_def)
  from lexes_mono[OF lexes_margin[OF this], of gap depth] have "prints (tree_fallback f) p (end_line (p_Line (fb_Pos f)) (emit (margin depth @ ''fallback '' @ fb_Room f) p))"
    by (intro prints_end_line[OF a(2)]) (simp_all add: tree_fallback_def word_def)
  then show ?thesis by (simp add: print_fallback_def print_indent_def)
qed

lemma prints_remove:
  assumes "wf_remove r" "sound p"
  shows "prints (tree_remove r) p (print_remove r depth p)"
proof -
  define s where "s = (if rv_Field r = '''' then ''remove component '' else ''remove field '' @ rv_Field r @ '' from '')"
  define v where "v = (if rv_Field r = '''' then [word ''remove'', word ''component''] else [word ''remove'', word ''field'', word (rv_Field r), word ''from''])"
  have w: "rv_Field r = '''' \<or> lowerid (rv_Field r)" "wf_ref (rv_Component r)" using assms(1) by (simp_all add: wf_remove_def)
  have e: "print_remove r depth p = end_line (p_Line (rv_Pos r)) (emit (margin depth @ s @ rv_Component r) p)"
    by (simp add: print_remove_def s_def print_indent_def)
  have "lexes UNIV s v"
  proof (cases "rv_Field r = ''''")
    case True
    then show ?thesis using lexes_any[OF lexes_keywords(10) lexes_keywords(1)] by (simp add: s_def v_def)
  next
    case False
    then have f: "lowerid (rv_Field r)" using w(1) by simp
    from lexes_any[OF lexes_keywords(10) lexes_any[OF lexes_keywords(11) lexes_any[OF lexes_word[OF f] lexes_keywords(12)]]]
    show ?thesis using False by (simp add: s_def v_def)
  qed
  from lexes_margin[OF lexes_any[OF this lexes_ref[OF w(2)]], of depth]
  have "lexes upper_end (margin depth @ s @ rv_Component r) (tree_remove r)" by (simp add: v_def tree_remove_def)
  then have "lexes gap (margin depth @ s @ rv_Component r) (tree_remove r)" by (rule lexes_mono) simp
  then show ?thesis unfolding e by (rule prints_end_line[OF assms(2)]) (simp add: tree_remove_def word_def)
qed

end
