(* ===== verification/Lang_Blocks.thy ===== *)
theory Lang_Blocks
  imports Lang_Layout
begin

text \<open>
  Blocks and files as the printer (\<^verbatim>\<open>content/lang/format.go\<close>) writes them: the tokens of its output are the
  tree of the file, in the canonical order for the decompiler, and its comments are those of the file in
  the order of their positions.
\<close>

section \<open>The canonical order\<close>

definition canon_room_item :: "bool \<Rightarrow> RoomItem \<Rightarrow> RoomItem" where
  "canon_room_item c it = (case it of RExit e \<Rightarrow> RExit (canon_exit c e) | RDesc d \<Rightarrow> RDesc d | RComponent x \<Rightarrow> RComponent x)"

definition with_room_items :: "RoomItem list \<Rightarrow> RoomDecl \<Rightarrow> RoomDecl" where
  "with_room_items its r = r\<lparr>lr_Descs := [d. RDesc d \<leftarrow> its], lr_Exits := [e. RExit e \<leftarrow> its], lr_Components := [x. RComponent x \<leftarrow> its], lr_Items := its\<rparr>"

definition canon_room :: "bool \<Rightarrow> RoomDecl \<Rightarrow> RoomDecl" where
  "canon_room c r = with_room_items (map (canon_room_item c) (if c then canonicalRoomItems r else lr_Items r)) r"

definition canon_zone_item :: "bool \<Rightarrow> ZoneItem \<Rightarrow> ZoneItem" where
  "canon_zone_item c it = (case it of ZRoom r \<Rightarrow> ZRoom (canon_room c r) | ZFallback f \<Rightarrow> ZFallback f | ZComponent x \<Rightarrow> ZComponent x)"

definition with_zone_items :: "ZoneItem list \<Rightarrow> ZoneDecl \<Rightarrow> ZoneDecl" where
  "with_zone_items its z = z\<lparr>lz_Fallbacks := [f. ZFallback f \<leftarrow> its], lz_Components := [x. ZComponent x \<leftarrow> its], lz_Rooms := [r. ZRoom r \<leftarrow> its], lz_Items := its\<rparr>"

definition canon_zone :: "bool \<Rightarrow> ZoneDecl \<Rightarrow> ZoneDecl" where
  "canon_zone c z = with_zone_items (map (canon_zone_item c) (if c then canonicalZoneItems z else lz_Items z)) z"

definition with_template_items :: "TemplateItem list \<Rightarrow> TemplateDecl \<Rightarrow> TemplateDecl" where
  "with_template_items its t = t\<lparr>lt_Components := [x. TComponent x \<leftarrow> its], lt_Removes := [r. TRemove r \<leftarrow> its], lt_Items := its\<rparr>"

definition canon_template :: "bool \<Rightarrow> TemplateDecl \<Rightarrow> TemplateDecl" where
  "canon_template c t = with_template_items (if c then canonicalTemplateItems t else lt_Items t) t"

definition canon_decl :: "bool \<Rightarrow> Decl \<Rightarrow> Decl" where
  "canon_decl c d = (case d of DPack p \<Rightarrow> DPack p | DZone z \<Rightarrow> DZone (canon_zone c z) | DTemplate t \<Rightarrow> DTemplate (canon_template c t))"

lemma canon_source: "canon_room_item False = id"
  by (rule ext) (simp add: canon_room_item_def canon_exit_def split: RoomItem.split)

lemma canon_room_source: "wf_room r \<Longrightarrow> canon_room False r = r"
  by (simp add: canon_room_def with_room_items_def canon_source wf_room_def)

lemma canon_zone_item_source: "wf_zone_item it \<Longrightarrow> canon_zone_item False it = it"
  by (cases it) (simp_all add: canon_zone_item_def wf_zone_item_def canon_room_source)

lemma canon_zone_source: "wf_zone z \<Longrightarrow> canon_zone False z = z"
proof -
  assume w: "wf_zone z"
  then have "map (canon_zone_item False) (lz_Items z) = lz_Items z" by (intro map_idI) (auto simp: wf_zone_def list_all_iff canon_zone_item_source)
  with w show ?thesis by (simp add: canon_zone_def with_zone_items_def wf_zone_def)
qed

lemma canon_template_source: "wf_template t \<Longrightarrow> canon_template False t = t"
  by (simp add: canon_template_def with_template_items_def wf_template_def)

lemma canon_decl_source: "wf_decl d \<Longrightarrow> canon_decl False d = d"
  by (cases d) (simp_all add: canon_decl_def wf_decl_def canon_zone_source canon_template_source)

text \<open>The canonical order has the items of the block, and no others.\<close>

lemma canonical_items_sub:
  "wf_room r \<Longrightarrow> set (canonicalRoomItems r) \<subseteq> set (lr_Items r)" "wf_zone z \<Longrightarrow> set (canonicalZoneItems z) \<subseteq> set (lz_Items z)"
  "wf_template t \<Longrightarrow> set (canonicalTemplateItems t) \<subseteq> set (lt_Items t)"
proof -
  have 1: "x \<in> set [d. RDesc d \<leftarrow> its] \<Longrightarrow> RDesc x \<in> set its" "y \<in> set [d. RExit d \<leftarrow> its] \<Longrightarrow> RExit y \<in> set its"
    "z \<in> set [d. RComponent d \<leftarrow> its] \<Longrightarrow> RComponent z \<in> set its" for x y z its by (auto split: RoomItem.splits)
  show "wf_room r \<Longrightarrow> set (canonicalRoomItems r) \<subseteq> set (lr_Items r)"
    using 1[of _ "lr_Items r"] by (auto simp: canonicalRoomItems_def wf_room_def)
  have 2: "x \<in> set [d. ZFallback d \<leftarrow> its] \<Longrightarrow> ZFallback x \<in> set its" "y \<in> set [d. ZComponent d \<leftarrow> its] \<Longrightarrow> ZComponent y \<in> set its"
    "z \<in> set [d. ZRoom d \<leftarrow> its] \<Longrightarrow> ZRoom z \<in> set its" for x y z its by (auto split: ZoneItem.splits)
  show "wf_zone z \<Longrightarrow> set (canonicalZoneItems z) \<subseteq> set (lz_Items z)"
    using 2[of _ "lz_Items z"] by (auto simp: canonicalZoneItems_def wf_zone_def)
  have 3: "x \<in> set [d. TComponent d \<leftarrow> its] \<Longrightarrow> TComponent x \<in> set its" for x its by (auto split: TemplateItem.splits)
  show "wf_template t \<Longrightarrow> set (canonicalTemplateItems t) \<subseteq> set (lt_Items t)"
    using 3[of _ "lt_Items t"] by (auto simp: canonicalTemplateItems_def wf_template_def)
qed

section \<open>Blocks\<close>

lemma prints_items:
  assumes "\<And>it q. it \<in> set its \<Longrightarrow> sound q \<Longrightarrow> pr_canon q = c \<Longrightarrow> prints (tr it) q (item it depth q)"
  shows "sound p \<Longrightarrow> pr_canon p = c \<Longrightarrow> prints (concat (map tr its)) p (print_items gp pos item depth prev its p)"
  using assms
proof (induction its arbitrary: p prev)
  case (Cons it its)
  define p1 where "p1 = (case prev of None \<Rightarrow> p | Some q \<Rightarrow> if gp q it then blank p else p)"
  define p2 where "p2 = ownComments (p_Line (pos it)) depth p1"
  have 1: "prints [] p p1" by (auto simp: p1_def prints_blank prints_refl split: option.split)
  have s1: "sound p1" by (rule sound_prints[OF 1 Cons.prems(1)])
  have 2: "prints [] p p2" unfolding p2_def by (rule prints_Nil[OF 1 prints_ownComments[OF s1]])
  have s2: "sound p2" "pr_canon p2 = c" using sound_prints[OF 2 Cons.prems(1)] canon_prints[OF 2] Cons.prems(2) by simp_all
  have 3: "prints (tr it) p2 (item it depth p2)" using Cons.prems(3) s2 by simp
  have s3: "sound (item it depth p2)" "pr_canon (item it depth p2) = c" using sound_prints[OF 3 s2(1)] canon_prints[OF 3] s2(2) by simp_all
  have "prints (concat (map tr its)) (item it depth p2) (print_items gp pos item depth (Some it) its (item it depth p2))"
    by (rule Cons.IH[OF s3]) (use Cons.prems(3) in simp)
  from prints_Nil[OF 2 prints_trans[OF 3 this]] show ?case by (simp add: p1_def p2_def Let_def)
qed (simp add: prints_refl)

lemma prints_block:
  assumes "lexes F h v" "CHR '' '' \<in> F" "code v = v" "sound p" "none \<Longrightarrow> vs = []"
    "\<And>q. sound q \<Longrightarrow> pr_canon q = pr_canon p \<Longrightarrow> prints vs q (body q)"
  shows "prints (v @ lbrace # vs @ [rbrace]) p (print_block line close depth none body (emit h p))"
proof -
  have empty: "prints (v @ lbrace # vs @ [rbrace]) p (end_line line (emit (h @ '' {}'') p))" if "none"
  proof -
    have "lexes UNIV (h @ '' {}'') (v @ [lbrace, rbrace])" using lexes_append[OF assms(1) lexes_braces(2)] assms(2) by simp
    then have "lexes gap (h @ '' {}'') (v @ [lbrace, rbrace])" by (rule lexes_mono) simp
    then have "prints (v @ [lbrace, rbrace]) p (end_line line (emit (h @ '' {}'') p))" using assms(3,4) by (intro prints_end_line) simp_all
    then show ?thesis using assms(5) that by simp
  qed
  have open_block: "prints (v @ lbrace # vs @ [rbrace]) p (closeBlock close depth (body (end_line line (emit (h @ '' {'') p))))"
  proof -
    let ?q = "end_line line (emit (h @ '' {'') p)"
    have "lexes UNIV (h @ '' {'') (v @ [lbrace])" using lexes_append[OF assms(1) lexes_braces(1)] assms(2) by simp
    then have "lexes gap (h @ '' {'') (v @ [lbrace])" by (rule lexes_mono) simp
    then have 1: "prints (v @ [lbrace]) p ?q" using assms(3,4) by (intro prints_end_line) simp_all
    have s1: "sound ?q" "pr_canon ?q = pr_canon p" using sound_prints[OF 1 assms(4)] canon_prints[OF 1] by simp_all
    have 2: "prints vs ?q (body ?q)" by (rule assms(6)[OF s1])
    from prints_trans[OF 1 prints_trans[OF 2 prints_closeBlock[OF sound_prints[OF 2 s1(1)]]]] show ?thesis by simp
  qed
  show ?thesis unfolding print_block_def emit_emit using empty open_block by (simp only: split: if_split) blast
qed

lemma prints_room_item:
  assumes "wf_room_item it" "room_item_kept (layout_breaks (pr_canon p)) it" "sound p"
  shows "prints (tree_room_item (layout_breaks (pr_canon p)) (canon_room_item (pr_canon p) it)) p (print_roomItem it 2 p)"
proof (cases it)
  case (RDesc d)
  have k: "desc_kept (layout_breaks (pr_canon p)) d" using assms(2) RDesc by (simp add: room_item_kept_def)
  have "desc_parts (pr_canon p) 2 d \<noteq> []" "list_all plain_body (desc_parts (pr_canon p) 2 d)"
    using k by (simp_all add: desc_kept_def layout_breaks_def list_all_iff)
  from prints_desc[OF this assms(3)] show ?thesis using RDesc
    by (simp add: tree_room_item_def canon_room_item_def print_roomItem_def layout_breaks_def)
next
  case (RExit e)
  have "wf_exit e" using assms(1) RExit by (simp add: wf_room_item_def)
  from prints_exit[OF this assms(3)] show ?thesis using RExit by (simp add: tree_room_item_def canon_room_item_def print_roomItem_def)
next
  case (RComponent c)
  have "wf_component c" using assms(1) RComponent by (simp add: wf_room_item_def)
  from prints_component[OF this assms(3)] show ?thesis using RComponent by (simp add: tree_room_item_def canon_room_item_def print_roomItem_def)
qed

lemma lexes_head:
  assumes "lexes UNIV kw [word k]" "lowerid i" "closed_lit raw"
  shows "lexes UNIV (kw @ i @ '' '' @ raw) [word k, word i, (StringK, raw)]"
  using lexes_any[OF assms(1) lexes_any[OF lexes_word[OF assms(2)] lexes_string[OF assms(3)]]] by simp

lemma prints_room:
  assumes "wf_room r" "room_kept (layout_breaks (pr_canon p)) r" "sound p"
  shows "prints (tree_room (layout_breaks (pr_canon p)) (canon_room (pr_canon p) r)) p (print_room r 1 p)"
proof -
  let ?c = "pr_canon p" and ?br = "layout_breaks (pr_canon p)"
  define items where "items = (if ?c then canonicalRoomItems r else lr_Items r)"
  define body where "body = print_items (\<lambda>a b. \<not> ?c \<and> p_Line (roomItemPos b) > p_Line (roomItemPos a) + 1) roomItemPos print_roomItem 2 None items"
  define vs where "vs = concat (map (\<lambda>it. tree_room_item ?br (canon_room_item ?c it)) items)"
  have sub: "set items \<subseteq> set (lr_Items r)" using canonical_items_sub(1)[OF assms(1)] by (simp add: items_def)
  have it: "wf_room_item it" "room_item_kept ?br it" if "it \<in> set items" for it
    using that sub assms(1,2) by (auto simp: wf_room_def room_kept_def list_all_iff)
  have i: "prints (tree_room_item ?br (canon_room_item ?c it)) q (print_roomItem it 2 q)" if "it \<in> set items" "sound q" "pr_canon q = ?c" for it q
    using prints_room_item[OF it(1)[OF that(1)] _ that(2)] it(2)[OF that(1)] that(3) by simp
  have b: "prints vs q (body q)" if "sound q" "pr_canon q = ?c" for q
    unfolding body_def vs_def by (rule prints_items[where item = print_roomItem and depth = 2 and tr = "\<lambda>it. tree_room_item ?br (canon_room_item ?c it)" and c = ?c, OF i that])
  have w: "lowerid (lr_ID r)" "closed_lit (sl_Raw (lr_Title r))" using assms(1) by (simp_all add: wf_room_def wf_lit_def)
  have h: "lexes UNIV (margin 1 @ ''room '' @ lr_ID r @ '' '' @ sl_Raw (lr_Title r)) [word ''room'', word (lr_ID r), (StringK, sl_Raw (lr_Title r))]"
    by (rule lexes_margin[OF lexes_head[OF lexes_keywords(4) w]])
  have "prints ([word ''room'', word (lr_ID r), (StringK, sl_Raw (lr_Title r))] @ lbrace # vs @ [rbrace]) p
      (print_block (p_Line (lr_Pos r)) (lr_Close r) 1 (items = []) body (emit (margin 1 @ ''room '' @ lr_ID r @ '' '' @ sl_Raw (lr_Title r)) p))"
    by (rule prints_block[OF h _ _ assms(3) _ b]) (simp_all add: word_def vs_def)
  moreover have "print_room r 1 p = print_block (p_Line (lr_Pos r)) (lr_Close r) 1 (items = []) body (emit (margin 1 @ ''room '' @ lr_ID r @ '' '' @ sl_Raw (lr_Title r)) p)"
    unfolding print_room_def Let_def print_indent_def emit_emit append_assoc items_def[symmetric] body_def one_add_one ..
  moreover have "tree_room ?br (canon_room ?c r) = [word ''room'', word (lr_ID r), (StringK, sl_Raw (lr_Title r))] @ lbrace # vs @ [rbrace]"
    by (simp add: tree_room_def canon_room_def with_room_items_def vs_def items_def comp_def)
  ultimately show ?thesis by simp
qed

lemma prints_zone_item:
  assumes "wf_zone_item it" "zone_item_kept (layout_breaks (pr_canon p)) it" "sound p"
  shows "prints (tree_zone_item (layout_breaks (pr_canon p)) (canon_zone_item (pr_canon p) it)) p (print_zoneItem it 1 p)"
proof (cases it)
  case (ZFallback f)
  have "lowerid (fb_Room f)" using assms(1) ZFallback by (simp add: wf_zone_item_def)
  from prints_fallback[OF this assms(3)] show ?thesis using ZFallback by (simp add: tree_zone_item_def canon_zone_item_def print_zoneItem_def)
next
  case (ZComponent c)
  have "wf_component c" using assms(1) ZComponent by (simp add: wf_zone_item_def)
  from prints_component[OF this assms(3)] show ?thesis using ZComponent by (simp add: tree_zone_item_def canon_zone_item_def print_zoneItem_def)
next
  case (ZRoom r)
  have "wf_room r" "room_kept (layout_breaks (pr_canon p)) r" using assms(1,2) ZRoom by (simp_all add: wf_zone_item_def zone_item_kept_def)
  from prints_room[OF this assms(3)] show ?thesis using ZRoom by (simp add: tree_zone_item_def canon_zone_item_def print_zoneItem_def)
qed

lemma prints_zone:
  assumes "wf_zone z" "zone_kept (layout_breaks (pr_canon p)) z" "sound p"
  shows "prints (tree_zone (layout_breaks (pr_canon p)) (canon_zone (pr_canon p) z)) p (print_zone z p)"
proof -
  let ?c = "pr_canon p" and ?br = "layout_breaks (pr_canon p)"
  define items where "items = (if ?c then canonicalZoneItems z else lz_Items z)"
  define body where "body = print_items (blankBetweenZoneItems ?c) zoneItemPos print_zoneItem 1 None items"
  define vs where "vs = concat (map (\<lambda>it. tree_zone_item ?br (canon_zone_item ?c it)) items)"
  have sub: "set items \<subseteq> set (lz_Items z)" using canonical_items_sub(2)[OF assms(1)] by (simp add: items_def)
  have it: "wf_zone_item it" "zone_item_kept ?br it" if "it \<in> set items" for it
    using that sub assms(1,2) by (auto simp: wf_zone_def zone_kept_def list_all_iff)
  have i: "prints (tree_zone_item ?br (canon_zone_item ?c it)) q (print_zoneItem it 1 q)" if "it \<in> set items" "sound q" "pr_canon q = ?c" for it q
    using prints_zone_item[OF it(1)[OF that(1)] _ that(2)] it(2)[OF that(1)] that(3) by simp
  have b: "prints vs q (body q)" if "sound q" "pr_canon q = ?c" for q
    unfolding body_def vs_def by (rule prints_items[where item = print_zoneItem and depth = 1 and tr = "\<lambda>it. tree_zone_item ?br (canon_zone_item ?c it)" and c = ?c, OF i that])
  have w: "lowerid (lz_ID z)" "closed_lit (sl_Raw (lz_Name z))" using assms(1) by (simp_all add: wf_zone_def wf_lit_def)
  have h: "lexes UNIV (''zone '' @ lz_ID z @ '' '' @ sl_Raw (lz_Name z)) [word ''zone'', word (lz_ID z), (StringK, sl_Raw (lz_Name z))]"
    by (rule lexes_head[OF lexes_keywords(5) w])
  have "prints ([word ''zone'', word (lz_ID z), (StringK, sl_Raw (lz_Name z))] @ lbrace # vs @ [rbrace]) p
      (print_block (p_Line (lz_Pos z)) (lz_Close z) 0 (items = []) body (emit (''zone '' @ lz_ID z @ '' '' @ sl_Raw (lz_Name z)) p))"
    by (rule prints_block[OF h _ _ assms(3) _ b]) (simp_all add: word_def vs_def)
  moreover have "print_zone z p = print_block (p_Line (lz_Pos z)) (lz_Close z) 0 (items = []) body (emit (''zone '' @ lz_ID z @ '' '' @ sl_Raw (lz_Name z)) p)"
    unfolding print_zone_def Let_def emit_emit append_assoc items_def body_def by simp
  moreover have "tree_zone ?br (canon_zone ?c z) = [word ''zone'', word (lz_ID z), (StringK, sl_Raw (lz_Name z))] @ lbrace # vs @ [rbrace]"
    by (simp add: tree_zone_def canon_zone_def with_zone_items_def vs_def items_def comp_def)
  ultimately show ?thesis by simp
qed

section \<open>Templates and packs\<close>

lemma prints_template_item:
  assumes "wf_template_item it" "sound p"
  shows "prints (tree_template_item it) p (print_templateItem it 1 p)"
proof (cases it)
  case (TComponent c)
  have "wf_component c" using assms(1) TComponent by (simp add: wf_template_item_def)
  from prints_component[OF this assms(2)] show ?thesis using TComponent by (simp add: tree_template_item_def print_templateItem_def)
next
  case (TRemove r)
  have "wf_remove r" using assms(1) TRemove by (simp add: wf_template_item_def)
  from prints_remove[OF this assms(2)] show ?thesis using TRemove by (simp add: tree_template_item_def print_templateItem_def)
qed

lemma lexes_head_text:
  assumes "wf_head h"
  shows "lexes gap (head_text h) (tree_head h)" "code (tree_head h) = tree_head h" "head_text h \<noteq> ''''" "hd (head_text h) = CHR '' ''"
proof -
  show "lexes gap (head_text h) (tree_head h)"
  proof (cases "th_Kind h = ''''")
    case False
    then have "lowerid (th_Kind h)" using assms by (auto simp: wf_head_def lowerid_def rune_class_defs)
    from lexes_sp[OF lexes_any[OF lexes_keywords(13) lexes_lowerid[OF this]]]
    have "lexes lower_end (head_text h) (tree_head h)" using False by (simp add: head_text_def tree_head_def word_def)
    then show ?thesis by (rule lexes_mono) simp
  next
    case True
    then have "wf_ref (th_Extends h)" using assms by (simp add: wf_head_def)
    from lexes_sp[OF lexes_any[OF lexes_keywords(14) lexes_ref[OF this]]]
    have "lexes upper_end (head_text h) (tree_head h)" using True by (simp add: head_text_def tree_head_def)
    then show ?thesis by (rule lexes_mono) simp
  qed
  show "code (tree_head h) = tree_head h" "head_text h \<noteq> ''''" "hd (head_text h) = CHR '' ''" by (simp_all add: tree_head_def head_text_def word_def)
qed

lemma lexes_heads:
  "list_all wf_head hs \<Longrightarrow> lexes gap (concat (map head_text hs)) (concat (map tree_head hs)) \<and> code (concat (map tree_head hs)) = concat (map tree_head hs)
    \<and> (hs = [] \<or> concat (map head_text hs) \<noteq> '''' \<and> hd (concat (map head_text hs)) = CHR '' '')"
proof (induction hs)
  case (Cons h hs)
  have h: "wf_head h" "list_all wf_head hs" using Cons.prems by simp_all
  note ih = Cons.IH[OF h(2)] and t = lexes_head_text[OF h(1)]
  have "lexes gap (head_text h @ concat (map head_text hs)) (tree_head h @ concat (map tree_head hs))"
  proof (cases hs)
    case Nil
    then show ?thesis using t(1) by simp
  next
    case (Cons g gs)
    then have "concat (map head_text hs) \<noteq> ''''" "hd (concat (map head_text hs)) \<in> gap" using ih by simp_all
    then show ?thesis using lexes_append[OF t(1)] ih by blast
  qed
  then show ?case using ih t by simp
qed simp

lemma prints_template:
  assumes "wf_template t" "sound p"
  shows "prints (tree_template (canon_template (pr_canon p) t)) p (print_template t p)"
proof -
  let ?c = "pr_canon p"
  define items where "items = (if ?c then canonicalTemplateItems t else lt_Items t)"
  define body where "body = print_items (\<lambda>a b. \<not> ?c \<and> p_Line (templateItemPos b) > p_Line (templateItemPos a) + 1) templateItemPos print_templateItem 1 None items"
  define vs where "vs = concat (map tree_template_item items)"
  define v where "v = [word ''template'', (UpperID, lt_Name t)] @ concat (map tree_head (lt_Heads t))"
  have sub: "set items \<subseteq> set (lt_Items t)" using canonical_items_sub(3)[OF assms(1)] by (simp add: items_def)
  have it: "wf_template_item it" if "it \<in> set items" for it
    using that sub assms(1) by (auto simp: wf_template_def list_all_iff)
  have b: "prints vs q (body q)" if "sound q" "pr_canon q = ?c" for q
    unfolding body_def vs_def by (rule prints_items[where item = print_templateItem and depth = 1 and tr = tree_template_item and c = ?c, OF prints_template_item[OF it] that])
  have w: "upperid (lt_Name t)" "list_all wf_head (lt_Heads t)" using assms(1) by (simp_all add: wf_template_def)
  have 1: "lexes upper_end (''template '' @ lt_Name t) [word ''template'', (UpperID, lt_Name t)]"
    using lexes_any[OF lexes_keywords(7) lexes_upperid[OF w(1)]] by simp
  have "lexes gap ((''template '' @ lt_Name t) @ concat (map head_text (lt_Heads t))) ([word ''template'', (UpperID, lt_Name t)] @ concat (map tree_head (lt_Heads t)))"
  proof (cases "lt_Heads t = []")
    case True
    then show ?thesis using lexes_mono[OF 1, of gap] by simp
  next
    case False
    then have "concat (map head_text (lt_Heads t)) \<noteq> ''''" "hd (concat (map head_text (lt_Heads t))) \<in> upper_end" using lexes_heads[OF w(2)] by simp_all
    with lexes_heads[OF w(2)] show ?thesis by (intro lexes_append[OF 1]) blast+
  qed
  then have h: "lexes gap (''template '' @ lt_Name t @ concat (map head_text (lt_Heads t))) v" by (simp add: v_def)
  have cv: "code v = v" using lexes_heads[OF w(2)] by (simp add: v_def word_def)
  have "prints (v @ lbrace # vs @ [rbrace]) p
      (print_block (p_Line (lt_Pos t)) (lt_Close t) 0 (items = []) body (emit (''template '' @ lt_Name t @ concat (map head_text (lt_Heads t))) p))"
    by (rule prints_block[OF h _ cv assms(2) _ b]) (simp_all add: vs_def)
  moreover have "print_template t p = print_block (p_Line (lt_Pos t)) (lt_Close t) 0 (items = []) body (emit (''template '' @ lt_Name t @ concat (map head_text (lt_Heads t))) p)"
    unfolding print_template_def Let_def emit_emit append_assoc items_def body_def by simp
  moreover have "tree_template (canon_template ?c t) = v @ lbrace # vs @ [rbrace]"
    by (simp add: tree_template_def canon_template_def with_template_items_def vs_def v_def items_def)
  ultimately show ?thesis by simp
qed

lemma itoa_digits_Format: "0 < n \<Longrightarrow> itoa_digits n b = FormatNat n @ b"
proof (induction n b rule: itoa_digits.induct)
  case (1 n b)
  show ?case
  proof (cases "n < 10")
    case True
    then have "n div 10 = 0" "n mod 10 = n" by simp_all
    then show ?thesis using "1.prems" True itoa_digits.simps[of 0] by (subst itoa_digits.simps, subst FormatNat.simps) simp
  next
    case False
    then show ?thesis using "1.IH" "1.prems" by (subst itoa_digits.simps, subst FormatNat.simps) simp
  qed
qed

lemma FormatNat_0: "FormatNat 0 = ''0''"
  by code_simp

lemma itoa_Format: "itoa n = FormatInt n"
  by (auto simp: itoa_def FormatInt_def itoa_digits_Format FormatNat_0)

lemma FormatNat_hd: "0 < n \<Longrightarrow> hd (FormatNat n) \<noteq> CHR ''0''"
proof (induction n rule: FormatNat.induct)
  case (1 n)
  show ?case
  proof (cases "n < 10")
    case True
    have "digit_char n \<noteq> CHR ''0''"
    proof
      assume "digit_char n = CHR ''0''"
      then have "of_char (digit_char n) = (48::nat)" by simp
      then show False using True "1.prems" by (simp add: of_char_digit)
    qed
    then show ?thesis using True by (subst FormatNat.simps) simp
  next
    case False
    then show ?thesis using "1.IH" by (subst FormatNat.simps) simp
  qed
qed

lemma int_lit_FormatNat: "int_lit (FormatNat n)"
proof -
  have d: "digits (FormatNat n)" by (simp add: digits_def FormatNat_isDigit)
  have "unsign (FormatNat n) = FormatNat n" using d by (cases "FormatNat n") (auto simp: unsign_def digits_def isDigit_def)
  then show ?thesis using d FormatNat_hd[of n] FormatNat_0 by (cases "n = 0") (simp_all add: int_lit_def)
qed

lemma prints_pack:
  assumes "wf_pack d" "sound p"
  shows "prints (tree_pack d) p (print_pack d p)"
proof -
  have n: "lexes lower_end (''pack '' @ lp_Name d) (word ''pack'' # tree_pack_ref (lp_Name d))"
    using lexes_any[OF lexes_keywords(8) lexes_pack_ref] assms(1) by (simp add: wf_pack_def)
  show ?thesis
  proof (cases "lp_Requires d")
    case None
    then have "lexes gap (''pack '' @ lp_Name d) (tree_pack d)" using lexes_mono[OF n, of gap] by (simp add: tree_pack_def)
    then have "prints (tree_pack d) p (end_line (p_Line (lp_Pos d)) (emit (''pack '' @ lp_Name d) p))"
      using None by (intro prints_end_line[OF assms(2)]) (simp_all add: tree_pack_def word_def)
    then show ?thesis using None by (simp add: print_pack_def)
  next
    case (Some q)
    have r: "wf_pack_ref (rq_Pack q)" using assms(1) Some by (simp add: wf_pack_def)
    let ?v = "itoa (uint (rq_Version q))"
    have v: "?v = FormatUint (rq_Version q)" 
    proof -
      have "\<not> uint (rq_Version q) < 0" by (simp add: not_less)
      then show ?thesis by (simp only: itoa_Format FormatInt_def if_False FormatUint_def unat_eq_nat_uint)
    qed
    have "int_lit ?v" unfolding v FormatUint_def by (rule int_lit_FormatNat)
    from lexes_any[OF lexes_punct(8) lexes_int[OF this]] have "lexes num_end ([CHR 0x40] @ ?v) [(At, [CHR 0x40]), (IntK, ?v)]" by simp
    from lexes_append[OF lexes_pack_ref[OF r] this]
    have "lexes num_end (rq_Pack q @ [CHR 0x40] @ ?v) (tree_pack_ref (rq_Pack q) @ [(At, [CHR 0x40]), (IntK, ?v)])" by simp
    from lexes_append[OF n lexes_sp[OF lexes_any[OF lexes_keywords(9) this]]]
    have "lexes num_end (''pack '' @ lp_Name d @ '' requires '' @ rq_Pack q @ [CHR 0x40] @ ?v) (tree_pack d)" by (simp add: tree_pack_def Some v)
    then have "lexes gap (''pack '' @ lp_Name d @ '' requires '' @ rq_Pack q @ [CHR 0x40] @ ?v) (tree_pack d)" by (rule lexes_mono) simp
    then have "prints (tree_pack d) p (end_line (p_Line (lp_Pos d)) (emit (''pack '' @ lp_Name d @ '' requires '' @ rq_Pack q @ [CHR 0x40] @ ?v) p))"
      using Some by (intro prints_end_line[OF assms(2)]) (simp_all add: tree_pack_def word_def)
    then show ?thesis using Some by (simp add: print_pack_def Let_def)
  qed
qed

end
