(* ===== verification/Lang_Wrap.thy ===== *)
theory Lang_Wrap
  imports Lang_Blocks
begin

text \<open>
  Wrapping prose (\<^verbatim>\<open>wrapProse\<close> and \<^verbatim>\<open>desc\<close>, \<^verbatim>\<open>content/lang/format.go\<close>): where the text has no empty word
  and every escape is one the language has, the pieces say what the description said.
\<close>

section \<open>Escapes\<close>

fun clean :: "string \<Rightarrow> bool" where
  "clean [] = True"
| "clean [c] = (c \<noteq> CHR 0x5C)"
| "clean (c # d # s) = (if c = CHR 0x5C then d \<in> {CHR ''n'', CHR 0x22, CHR 0x5C} \<and> clean s else clean (d # s))"

lemma clean_Cons: "c \<noteq> CHR 0x5C \<Longrightarrow> clean (c # s) = clean s"
  by (cases s) auto

lemma unescape_Cons: "c \<noteq> CHR 0x5C \<Longrightarrow> unescape (c # s) = c # unescape s"
  by (cases s) auto

lemma plain_Cons: "c \<noteq> CHR 0x5C \<Longrightarrow> plain_body (c # s) \<longleftrightarrow> c \<noteq> CHR 0x22 \<and> c \<noteq> nl \<and> plain_body s"
  by (cases s) auto

lemma plain_escape: "plain_body (CHR 0x5C # d # s) \<longleftrightarrow> d \<noteq> nl \<and> plain_body s"
  by simp

lemma clean_space: "clean (a @ CHR '' '' # b) \<longleftrightarrow> clean a \<and> clean b"
proof (induction a rule: clean.induct)
  case 1
  then show ?case by (simp add: clean_Cons)
next
  case (2 c)
  then show ?case by (cases "c = CHR 0x5C") (simp_all add: clean_Cons)
next
  case (3 c d s)
  then show ?case by (cases "c = CHR 0x5C") auto
qed

lemma unescape_space: "clean a \<Longrightarrow> unescape (a @ CHR '' '' # b) = unescape a @ CHR '' '' # unescape b"
proof (induction a rule: clean.induct)
  case 1
  then show ?case by (simp add: unescape_Cons)
next
  case (2 c)
  then show ?case by (simp add: unescape_Cons)
next
  case (3 c d s)
  then show ?case by (cases "c = CHR 0x5C") auto
qed

lemma plain_space: "clean a \<Longrightarrow> plain_body (a @ CHR '' '' # b) \<longleftrightarrow> plain_body a \<and> plain_body b"
proof (induction a rule: clean.induct)
  case 1
  then show ?case by (simp add: plain_Cons)
next
  case (2 c)
  then show ?case by (simp add: plain_Cons)
next
  case (3 c d s)
  then show ?case by (cases "c = CHR 0x5C") auto
qed

lemma strings_Join_Cons: "ys \<noteq> [] \<Longrightarrow> strings_Join (x # ys) sep = x @ sep @ strings_Join ys sep"
  by (cases ys) (simp_all add: strings_Join_def)

lemma strings_Join_one [simp]: "strings_Join [x] sep = x" "strings_Join [] sep = ''''"
  by (simp_all add: strings_Join_def)

lemma join_clean: "clean (strings_Join ps '' '') = list_all clean ps"
proof (induction ps)
  case (Cons p ps)
  then show ?case by (cases "ps = []") (simp_all add: strings_Join_Cons clean_space)
qed simp

lemma join_plain: "list_all clean ps \<Longrightarrow> plain_body (strings_Join ps '' '') = list_all plain_body ps"
proof (induction ps)
  case (Cons p ps)
  then show ?case by (cases "ps = []") (simp_all add: strings_Join_Cons plain_space)
qed simp

lemma join_unescape: "list_all clean ps \<Longrightarrow> unescape (strings_Join ps '' '') = strings_Join (map unescape ps) '' ''"
proof (induction ps)
  case (Cons p ps)
  then show ?case by (cases "ps = []") (simp_all add: strings_Join_Cons unescape_space)
qed simp

text \<open>The compiler's scan for an escape the language does not have finds none exactly in a clean text.\<close>

lemma badEscapeAt_Cons: "c \<noteq> CHR 0x5C \<Longrightarrow> ru c < 0x80 \<Longrightarrow> badEscapeAt col (c # s) = badEscapeAt (col + 1) s"
  by (subst badEscapeAt.simps) (auto simp: Let_def)

lemma badEscapeAt_Nil [simp]: "badEscapeAt col [] = None"
  by (subst badEscapeAt.simps) simp

lemma clean_run: "CHR 0x5C \<notin> set u \<Longrightarrow> clean (u @ t) = clean t"
  by (induction u) (auto simp: clean_Cons)

lemma plain_run: "CHR 0x5C \<notin> set u \<Longrightarrow> plain_body (u @ t) \<Longrightarrow> plain_body t"
  by (induction u) (auto simp: plain_Cons)

lemma ru_backslash: "ru c = 0x5C \<longleftrightarrow> c = CHR 0x5C"
  by (simp add: ru_eq_char)

lemma badEscapeAt_high:
  assumes "0x80 \<le> ru c"
  obtains u t where "c # s = u @ t" "u \<noteq> []" "CHR 0x5C \<notin> set u" "badEscapeAt col (c # s) = badEscapeAt (col + 1) t"
proof -
  let ?n = "snd (DecodeRune (c # s))"
  have d: "0x80 \<le> fst (DecodeRune (c # s))" "?n \<le> length (c # s)" "\<forall>d \<in> set (take ?n (c # s)). 0x80 \<le> ru d"
    by (fact decode_high[OF assms])+
  show ?thesis
  proof (rule that)
    show "c # s = take ?n (c # s) @ drop ?n (c # s)" by simp
    show "take ?n (c # s) \<noteq> []" using width_pos[of "c # s"] by simp
    show "CHR 0x5C \<notin> set (take ?n (c # s))" using d(3) by fastforce
    show "badEscapeAt col (c # s) = badEscapeAt (col + 1) (drop ?n (c # s))"
      using d(1) by (subst badEscapeAt.simps) (auto simp: split_beta Let_def)
  qed
qed

lemma badEscapeAt_escape:
  "badEscapeAt col (CHR 0x5C # d # s) = (if d \<in> {CHR ''n'', CHR 0x22, CHR 0x5C} then badEscapeAt (col + 2) s
     else Some (col, CHR 0x5C # rune_string (fst (DecodeRune (d # s)))))"
proof (cases "ru d < 0x80")
  case True
  have "ru d = ru (CHR ''n'') \<longleftrightarrow> d = CHR ''n''" "ru d = ru (CHR 0x22) \<longleftrightarrow> d = CHR 0x22" "ru d = ru (CHR 0x5C) \<longleftrightarrow> d = CHR 0x5C"
    using of_char_eq_iff by blast+
  then show ?thesis using True by (subst badEscapeAt.simps) simp
next
  case False
  then have "0x80 \<le> ru d" by simp
  from decode_high(1)[OF this] have "0x80 \<le> fst (DecodeRune (d # s))" .
  moreover have "d \<notin> {CHR ''n'', CHR 0x22, CHR 0x5C}" using False by auto
  ultimately show ?thesis by (subst badEscapeAt.simps) (auto simp: split_beta Let_def)
qed

lemma clean_badEscape: "plain_body s \<Longrightarrow> badEscapeAt col s = None \<longleftrightarrow> clean s"
proof (induction "length s" arbitrary: s col rule: less_induct)
  case less
  show ?case
  proof (cases s)
    case (Cons c s')
    show ?thesis
    proof (cases "c = CHR 0x5C")
      case True
      then obtain d t where d: "s = CHR 0x5C # d # t" using less.prems Cons by (cases s') auto
      then have "badEscapeAt (col + 2) t = None \<longleftrightarrow> clean t" using less.hyps[of t] less.prems by simp
      then show ?thesis unfolding d badEscapeAt_escape by simp
    next
      case f: False
      show ?thesis
      proof (cases "ru c < 0x80")
        case True
        have "badEscapeAt (col + 1) s' = None \<longleftrightarrow> clean s'" using less.hyps[of s'] less.prems f Cons by (simp add: plain_Cons)
        then show ?thesis using f True Cons by (simp add: badEscapeAt_Cons clean_Cons)
      next
        case False
        then have "0x80 \<le> ru c" by simp
        then obtain u t where u: "c # s' = u @ t" "u \<noteq> []" "CHR 0x5C \<notin> set u" "badEscapeAt col (c # s') = badEscapeAt (col + 1) t"
          by (rule badEscapeAt_high)
        have "length t < length s" using u(1,2) Cons by (metis length_append less_add_same_cancel2 length_greater_0_conv)
        moreover have "plain_body t" using plain_run[OF u(3)] less.prems Cons u(1) by metis
        ultimately have "badEscapeAt (col + 1) t = None \<longleftrightarrow> clean t" by (rule less.hyps)
        then show ?thesis using u(1,4) clean_run[OF u(3), of t] Cons by simp
      qed
    qed
  qed simp
qed

section \<open>Wrapping\<close>

lemma Split_Join: "strings_Join (Split (CHR '' '') s) '' '' = s"
proof -
  obtain x xs where x: "Split (CHR '' '') s = x # xs" by (cases "Split (CHR '' '') s") auto
  have e: "concat (map (\<lambda>y. '' '' @ y) xs) = concat (map (\<lambda>y. CHR '' '' # y) xs)" by simp
  show ?thesis unfolding x strings_Join_def list.case e by (rule Split_join[OF x])
qed

lemma strings_Join_append: "xs \<noteq> [] \<Longrightarrow> ys \<noteq> [] \<Longrightarrow> strings_Join (xs @ ys) sep = strings_Join xs sep @ sep @ strings_Join ys sep"
  by (induction xs) (auto simp: strings_Join_Cons strings_Join_def split: list.splits)

lemma wrapLoop_join:
  "cur \<noteq> '''' \<Longrightarrow> '''' \<notin> set ws
    \<Longrightarrow> wrapLoop b out cur ws \<noteq> [] \<and> strings_Join (wrapLoop b out cur ws) '' '' = strings_Join (out @ [strings_Join (cur # ws) '' '']) '' ''"
proof (induction b out cur ws rule: wrapLoop.induct)
  case (2 b out cur w ws)
  show ?case
  proof (cases "int (RuneCount (cur @ '' '' @ w)) > b")
    case True
    have "wrapLoop b (out @ [cur]) w ws \<noteq> [] \<and> strings_Join (wrapLoop b (out @ [cur]) w ws) '' ''
        = strings_Join ((out @ [cur]) @ [strings_Join (w # ws) '' '']) '' ''"
      using 2 True by (intro "2.IH") auto
    moreover have "strings_Join ((out @ [cur]) @ [strings_Join (w # ws) '' '']) '' '' = strings_Join (out @ [strings_Join (cur # w # ws) '' '']) '' ''"
      by (cases "out = []") (simp_all add: strings_Join_append strings_Join_Cons)
    ultimately show ?thesis using 2(3) True by simp
  next
    case False
    have "wrapLoop b out (cur @ '' '' @ w) ws \<noteq> [] \<and> strings_Join (wrapLoop b out (cur @ '' '' @ w) ws) '' ''
        = strings_Join (out @ [strings_Join ((cur @ '' '' @ w) # ws) '' '']) '' ''"
      using 2 False by (intro "2.IH") auto
    moreover have "strings_Join ((cur @ '' '' @ w) # ws) '' '' = strings_Join (cur # w # ws) '' ''"
      by (simp add: strings_Join_def)
    ultimately show ?thesis using 2(3) False by simp
  qed
qed simp

lemma wrapProse_join:
  assumes "int (RuneCount s) \<le> b \<or> '''' \<notin> set (Split (CHR '' '') s)"
  shows "wrapProse s b \<noteq> [] \<and> strings_Join (wrapProse s b) '' '' = s"
proof (cases "b < 1 \<or> int (RuneCount s) \<le> b")
  case False
  obtain x xs where x: "Split (CHR '' '') s = x # xs" by (cases "Split (CHR '' '') s") auto
  have n: "x \<noteq> ''''" "'''' \<notin> set xs" using assms False by (auto simp: x)
  from wrapLoop_join[OF n, of b "[]"] have "wrapLoop b [] x xs \<noteq> [] \<and> strings_Join (wrapLoop b [] x xs) '' '' = s"
    using Split_Join[of s] by (simp add: x)
  then show ?thesis using False n(1) by (simp add: wrapProse_def x)
qed (simp add: wrapProse_def)

text \<open>When printing keeps what a description says.\<close>

definition desc_text :: "DescDecl \<Rightarrow> string" where
  "desc_text d = strings_Join (map (\<lambda>l. rawBody (sl_Raw l)) (dd_Parts d)) '' ''"

definition wraps_whole :: "bool \<Rightarrow> DescDecl \<Rightarrow> bool" where
  "wraps_whole canon d \<longleftrightarrow>
     (\<not> canon \<and> list_all (\<lambda>l. int (RuneCount (rawBody (sl_Raw l))) \<le> desc_budget 2) (dd_Parts d))
     \<or> (int (RuneCount (desc_text d)) \<le> desc_budget 2 \<or> '''' \<notin> set (Split (CHR '' '') (desc_text d))) \<and> dd_BadEsc d = None"

lemma rawBody_quoted [simp]: "rawBody (quoted b) = b"
  by (simp add: rawBody_def quoted_def Let_def HasSuffix_def)

lemma bad_text_None: "bad_text raws = None \<longleftrightarrow> (\<forall>r \<in> set raws. badEscapeAt 0 (rawBody r) = None)"
proof -
  have "List.map_filter f xs = [] \<longleftrightarrow> (\<forall>x \<in> set xs. f x = None)" for f :: "'a \<Rightarrow> 'b option" and xs
    by (induction xs) (auto simp: List.map_filter_simps split: option.splits)
  then have "bad_text raws = None \<longleftrightarrow> (\<forall>r \<in> set raws. map_option snd (badEscapeAt 0 (rawBody r)) = None)"
    unfolding bad_text_def by (metis (no_types, lifting) list.exhaust list.simps(4) list.simps(5) option.distinct(1))
  then show ?thesis by (simp only: map_option_is_None)
qed

lemma kept_wraps:
  assumes "wf_desc d" "wraps_whole canon d"
  shows "desc_kept (layout_breaks canon) d"
proof -
  let ?bodies = "map (\<lambda>l. rawBody (sl_Raw l)) (dd_Parts d)"
  have w: "dd_Parts d \<noteq> []" "list_all wf_lit (dd_Parts d)" "dd_Value d = strings_Join (map sl_Value (dd_Parts d)) '' ''"
    "map_option snd (dd_BadEsc d) = bad_text (map sl_Raw (dd_Parts d))"
    using assms(1) by (simp_all add: wf_desc_def bad_text_first)
  have lit: "quoted (rawBody (sl_Raw l)) = sl_Raw l \<and> plain_body (rawBody (sl_Raw l)) \<and> sl_Value l = unescape (rawBody (sl_Raw l))"
    if "l \<in> set (dd_Parts d)" for l
    using w(2) that by (auto simp: list_all_iff wf_lit_def closed_lit_ex decodeString_def dest!: bspec)
  show ?thesis
  proof (cases "\<not> canon \<and> list_all (\<lambda>l. int (RuneCount (rawBody (sl_Raw l))) \<le> desc_budget 2) (dd_Parts d)")
    case True
    then have p: "desc_parts canon 2 d = ?bodies" by (auto simp: desc_parts_def Let_def list_ex_iff list_all_iff not_less)
    have "map quoted ?bodies = map sl_Raw (dd_Parts d)" using lit by simp
    then have l: "layout_breaks canon d = map sl_Raw (dd_Parts d)" by (simp only: layout_breaks_def p)
    have "map decodeString (map sl_Raw (dd_Parts d)) = map sl_Value (dd_Parts d)" using w(2) by (simp add: list_all_iff wf_lit_def)
    then show ?thesis using w by (simp add: desc_kept_def l list_all_iff wf_lit_def del: map_map)
  next
    case False
    then have c: "int (RuneCount (desc_text d)) \<le> desc_budget 2 \<or> '''' \<notin> set (Split (CHR '' '') (desc_text d))" "dd_BadEsc d = None"
      using assms(2) by (auto simp: wraps_whole_def)
    define ps where "ps = wrapProse (desc_text d) (desc_budget 2)"
    have ps: "ps \<noteq> []" "strings_Join ps '' '' = desc_text d" using wrapProse_join[OF c(1)] by (simp_all add: ps_def)
    have p: "desc_parts canon 2 d = ps" using False by (auto simp: desc_parts_def Let_def list_ex_iff list_all_iff not_less ps_def desc_text_def)
    have "badEscapeAt 0 (rawBody (sl_Raw l)) = None" if "l \<in> set (dd_Parts d)" for l
      using w(4) c(2) that bad_text_None[of "map sl_Raw (dd_Parts d)"] by auto
    then have b: "list_all clean ?bodies" "list_all plain_body ?bodies" using clean_badEscape lit by (auto simp: list_all_iff)
    have t: "clean (desc_text d)" "plain_body (desc_text d)" "unescape (desc_text d) = strings_Join (map unescape ?bodies) '' ''"
      using b by (simp_all add: desc_text_def join_clean join_plain join_unescape)
    have q: "list_all clean ps" "list_all plain_body ps" using t(1,2) ps(2) join_clean[of ps] join_plain[of ps] by auto
    have "decodeString \<circ> quoted = unescape" by (rule ext) (simp add: decodeString_def)
    then have "strings_Join (map decodeString (map quoted ps)) '' '' = strings_Join (map unescape ps) '' ''" by (simp only: map_map)
    also have "\<dots> = strings_Join (map unescape ?bodies) '' ''" using join_unescape[OF q(1)] ps(2) t(3) by (simp only:)
    also have "map unescape ?bodies = map sl_Value (dd_Parts d)" using lit by simp
    finally have "strings_Join (map decodeString (map quoted ps)) '' '' = dd_Value d" using w(3) by (simp only:)
    moreover have "bad_text (map quoted ps) = None" unfolding bad_text_None using q clean_badEscape by (auto simp: list_all_iff)
    ultimately have "strings_Join (map decodeString (map quoted ps)) '' '' = dd_Value d" "bad_text (map quoted ps) = None" .
    then show ?thesis using c(2) ps(1) q(2) by (simp add: desc_kept_def layout_breaks_def p list_all_iff del: map_map)
  qed
qed

end
