(* ===== verification/Lang_Meaning.thy ===== *)
theory Lang_Meaning
  imports Lang_Wrap
begin

text \<open>
  The formatter (\<^verbatim>\<open>Format\<close>, \<^verbatim>\<open>content/lang/format.go\<close>) never changes meaning: the text it prints is read
  back by \<^verbatim>\<open>ParseFile\<close> as the file it was printed from, with all of its comments.
\<close>

section \<open>Files\<close>

lemma prints_decl:
  assumes "wf_decl d" "decl_kept (layout_breaks (pr_canon p)) d" "sound p"
  shows "prints (tree_decl (layout_breaks (pr_canon p)) (canon_decl (pr_canon p) d)) p (print_decl d p)"
proof (cases d)
  case (DPack x)
  have "wf_pack x" using assms(1) DPack by (simp add: wf_decl_def)
  from prints_pack[OF this assms(3)] show ?thesis using DPack by (simp add: tree_decl_def canon_decl_def print_decl_def)
next
  case (DZone x)
  have "wf_zone x" "zone_kept (layout_breaks (pr_canon p)) x" using assms(1,2) DZone by (simp_all add: wf_decl_def decl_kept_def)
  from prints_zone[OF this assms(3)] show ?thesis using DZone by (simp add: tree_decl_def canon_decl_def print_decl_def)
next
  case (DTemplate x)
  have "wf_template x" using assms(1) DTemplate by (simp add: wf_decl_def)
  from prints_template[OF this assms(3)] show ?thesis using DTemplate by (simp add: tree_decl_def canon_decl_def print_decl_def)
qed

lemma prints_decls:
  "list_all wf_decl ds \<Longrightarrow> list_all (decl_kept (layout_breaks (pr_canon p))) ds \<Longrightarrow> sound p
    \<Longrightarrow> prints (concat (map (\<lambda>d. tree_decl (layout_breaks (pr_canon p)) (canon_decl (pr_canon p) d)) ds)) p (print_decls first ds p)"
proof (induction ds arbitrary: p first)
  case (Cons d ds)
  let ?c = "pr_canon p"
  define p1 where "p1 = (if first then p else blank p)"
  define p2 where "p2 = ownComments (p_Line (declPos d)) 0 p1"
  have 1: "prints [] p p1" by (simp add: p1_def prints_blank prints_refl)
  have 2: "prints [] p p2" unfolding p2_def by (rule prints_Nil[OF 1 prints_ownComments[OF sound_prints[OF 1 Cons.prems(3)]]])
  have s2: "sound p2" "pr_canon p2 = ?c" using sound_prints[OF 2 Cons.prems(3)] canon_prints[OF 2] by simp_all
  have wf: "wf_decl d" "decl_kept (layout_breaks (pr_canon p2)) d" "list_all wf_decl ds" "list_all (decl_kept (layout_breaks ?c)) ds"
    using Cons.prems s2(2) by simp_all
  have 3: "prints (tree_decl (layout_breaks ?c) (canon_decl ?c d)) p2 (print_decl d p2)"
    using prints_decl[OF wf(1,2) s2(1)] unfolding s2(2) .
  have s3: "sound (print_decl d p2)" "pr_canon (print_decl d p2) = ?c" using sound_prints[OF 3 s2(1)] canon_prints[OF 3] s2(2) by simp_all
  have "prints (concat (map (\<lambda>d. tree_decl (layout_breaks ?c) (canon_decl ?c d)) ds)) (print_decl d p2) (print_decls False ds (print_decl d p2))"
    using Cons.IH[of "print_decl d p2" False] wf(3,4) s3 by simp
  from prints_Nil[OF 2 prints_trans[OF 3 this]] show ?case by (simp add: p1_def p2_def)
qed (simp add: prints_refl)

lemma prints_trailingOwnLoop: "sound p \<Longrightarrow> \<not> pr_canon p \<Longrightarrow> prints [] p (trailingOwnLoop d p) \<and> pending (trailingOwnLoop d p) = []"
proof (induction d p rule: trailingOwnLoop.induct)
  case (1 d p)
  show ?case
  proof (cases "pending p")
    case Nil
    then show ?thesis by (subst trailingOwnLoop.simps, subst trailingOwnLoop.simps) (simp add: pending_line_eq prints_refl)
  next
    case (Cons c cs)
    then have n: "pending_line p \<noteq> None" by (simp add: pending_line_eq)
    note tc = take_comment_eq[OF Cons]
    let ?q = "emit [nl] (emit (tok_Text (fst (take_comment p))) (print_indent d (snd (take_comment p))))"
    have q: "?q\<lparr>pr_prevLine := p_Line (tok_Pos c)\<rparr> = own_comment d False c (p\<lparr>pr_next := pr_next p + 1\<rparr>)"
      using tc(1) by (simp add: own_comment_def)
    have "prints [] p (own_comment d False c (p\<lparr>pr_next := pr_next p + 1\<rparr>))"
      using prints_own_comment[OF Cons _ _ "1.prems"(2)] sound_hd[OF "1.prems"(1) Cons "1.prems"(2)] by blast
    then have pq: "prints [] p ?q" unfolding q[symmetric] by simp
    from "1.IH"[OF n sound_prints[OF pq "1.prems"(1)]] canon_prints[OF pq] "1.prems"(2)
    have "prints [] ?q (trailingOwnLoop d ?q) \<and> pending (trailingOwnLoop d ?q) = []" by blast
    moreover have "trailingOwnLoop d p = trailingOwnLoop d ?q" unfolding trailingOwnLoop.simps[of d p] using n by (simp only: if_False)
    ultimately show ?thesis using prints_Nil[OF pq] by simp
  qed
qed

lemma prints_trailingOwn: "sound p \<Longrightarrow> prints [] p (trailingOwnComments d b p) \<and> pending (trailingOwnComments d b p) = []"
proof (cases "pr_next p \<ge> length (pr_comments p) \<or> pr_canon p")
  case True
  let ?q = "p\<lparr>pr_next := length (pr_comments p)\<rparr>"
  have "pending ?q = drop (length (pending p)) (pending p)" "pr_canon p \<or> pending p = []" using True by (auto simp: pending_def)
  then have "prints [] p ?q" unfolding prints_def by (intro conjI exI[of _ "[]"] exI[of _ "length (pending p)"]) auto
  then show ?thesis using True by (simp add: trailingOwnComments_def pending_def)
next
  case False
  assume s: "sound p"
  let ?p = "if b then blank p else p"
  have 1: "prints [] p ?p" by (simp add: prints_blank prints_refl)
  have "\<not> pr_canon ?p" using False by simp
  from prints_trailingOwnLoop[OF sound_prints[OF 1 s] this] prints_Nil[OF 1] show ?thesis using False by (simp add: trailingOwnComments_def)
qed

lemma TrimRight_nl: "\<exists>k. s = TrimRight_nl s @ replicate k nl"
proof -
  have k: "takeWhile (\<lambda>c. c = nl) xs = replicate (length (takeWhile (\<lambda>c. c = nl) xs)) nl" for xs
    by (induction xs) auto
  let ?k = "length (takeWhile (\<lambda>c. c = nl) (rev s))"
  have "replicate ?k nl @ dropWhile (\<lambda>c. c = nl) (rev s) = rev s" unfolding k[symmetric] by (rule takeWhile_dropWhile_id)
  then have "rev (replicate ?k nl @ dropWhile (\<lambda>c. c = nl) (rev s)) = s" by (simp only: rev_rev_ident)
  then have "s = TrimRight_nl s @ replicate ?k nl" by (simp add: TrimRight_nl_def)
  then show ?thesis by blast
qed

lemma toks_trim:
  assumes "lexes UNIV s ws"
  shows "toks (if TrimRight_nl s = '''' then '''' else TrimRight_nl s @ [nl]) = ws"
proof -
  obtain k where k: "s = TrimRight_nl s @ replicate k nl" using TrimRight_nl by blast
  have w: "toks (replicate n nl) = []" for n using toks_white[of "replicate n nl" "[]"] by simp
  have t: "toks s = ws" by (rule lexes_toks[OF assms])
  show ?thesis
  proof (cases "TrimRight_nl s = ''''")
    case True
    then show ?thesis using k t w by (metis append_Nil toks_Nil)
  next
    case False
    have "toks (TrimRight_nl s @ [nl]) = ws"
    proof (cases k)
      case 0
      then have "TrimRight_nl s = s" using k by simp
      then show ?thesis using lexesD[OF assms, of "[nl]"] w[of 1] by simp
    next
      case (Suc j)
      then have "s = TrimRight_nl s @ nl # replicate j nl" using k by simp
      then have "toks s = toks (TrimRight_nl s @ [nl]) @ toks (replicate j nl)" using toks_line by metis
      then show ?thesis using t w by simp
    qed
    then show ?thesis using False by simp
  qed
qed

text \<open>What is printed, from the start.\<close>

lemma toks_print_file:
  assumes "list_all wf_decl (sf_Decls f)" "list_all (decl_kept (layout_breaks (pr_canon p))) (sf_Decls f)" "sound p" "pr_sb p = ''''"
  shows "code (toks (print_file f p)) = concat (map (\<lambda>d. tree_decl (layout_breaks (pr_canon p)) (canon_decl (pr_canon p) d)) (sf_Decls f))
    \<and> remarks (toks (print_file f p)) = (if pr_canon p then [] else map view (pending p))"
proof -
  let ?q = "print_decls True (sf_Decls f) p"
  let ?r = "trailingOwnComments 0 (sf_Decls f \<noteq> []) ?q"
  let ?vs = "concat (map (\<lambda>d. tree_decl (layout_breaks (pr_canon p)) (canon_decl (pr_canon p) d)) (sf_Decls f))"
  have 1: "prints ?vs p ?q" by (rule prints_decls[OF assms(1-3)])
  have 2: "prints [] ?q ?r" "pending ?r = []" using prints_trailingOwn[OF sound_prints[OF 1 assms(3)]] by simp_all
  have "prints ?vs p ?r" using prints_trans[OF 1 2(1)] by simp
  then obtain ws k where w: "lexes UNIV (pr_sb ?r) ws" "code ws = ?vs" "pending ?r = drop k (pending p)"
      "remarks ws = (if pr_canon p then [] else map view (take k (pending p)))"
    unfolding prints_def assms(4) append_Nil by blast
  have "take k (pending p) = pending p" using w(3) 2(2) by simp
  moreover have "toks (print_file f p) = ws" using toks_trim[OF w(1)] by (simp add: print_file_def Let_def)
  ultimately show ?thesis using w(2,4) by simp
qed

section \<open>The comments of a source\<close>

interpretation lines: rune_invariant "\<lambda>l. n \<le> lx_line l" for n
  by unfold_locales (auto simp: advance_lexer_def Let_def split: prod.splits)

lemma skipSpace_nl: "lx_rest l = nl # s \<Longrightarrow> lx_line l < lx_line (skipSpace l)"
proof -
  assume l: "lx_rest l = nl # s"
  have p: "peek l = (0x0A, 1)" using l by (simp add: peek_def)
  have "skipSpace l = scanWhile isSpace (skip1 l)" unfolding skipSpace_def using p by (subst scanWhile.simps) simp
  moreover have "lx_line (skip1 l) = lx_line l + 1" using p by (simp add: advance_lexer_def)
  ultimately show ?thesis using lines.scanWhile[of "lx_line l + 1" "skip1 l" isSpace] by simp
qed

lemma tokenize_lines: "\<forall>t \<in> set (tokenize l). tok_Kind t \<noteq> EOF \<longrightarrow> lx_line (skipSpace l) \<le> p_Line (tok_Pos t)"
proof (induction l rule: tokenize.induct)
  case (1 l)
  let ?m = "skipSpace l"
  show ?case
  proof (cases "snd (peek ?m) = 0")
    case True
    then show ?thesis by (subst tokenize.simps) (simp add: eof_token_def)
  next
    case False
    let ?n = "snd (nextToken ?m)"
    have ne: "lx_rest ?m \<noteq> []" using False by simp
    have "lx_line ?m \<le> lx_line (skipSpace ?n)" by (rule lines.skipSpace[OF lines.nextToken]) simp
    moreover have "\<forall>t \<in> set (tokenize ?n). tok_Kind t \<noteq> EOF \<longrightarrow> lx_line (skipSpace ?n) \<le> p_Line (tok_Pos t)"
      using "1.IH"[OF refl False] .
    moreover have "p_Line (tok_Pos (fst (nextToken ?m))) = lx_line ?m" using nextToken_view(2)[OF ne] by (simp add: lexer_pos_def)
    ultimately show ?thesis using False by (subst tokenize.simps) (auto simp: Let_def intro: order_trans)
  qed
qed

lemma comment_rest: "fst (fst (next_tok s)) = Comment \<Longrightarrow> snd (next_tok s) = dropWhile (\<lambda>c. ru c \<noteq> 0x0A) s"
proof -
  assume c: "fst (fst (next_tok s)) = Comment"
  have "HasPrefix s ''//''"
  proof (rule ccontr)
    assume h: "\<not> HasPrefix s ''//''"
    have "fst (num_rest s) \<noteq> Comment" "punct_kind r \<noteq> Comment" for r by (auto simp: num_rest_def Let_def punct_kind_def)
    then show False using c h unfolding next_tok_def use_tok_def by (simp split: if_splits)
  qed
  then show ?thesis by (simp add: next_tok_def use_tok_def)
qed

text \<open>A comment runs to the end of its line, so the next one begins on a later line.\<close>

lemma comments_ascend: "sorted_wrt (\<lambda>a b. p_Line (tok_Pos a) < p_Line (tok_Pos b)) (filter (\<lambda>t. tok_Kind t = Comment) (tokenize l))"
proof (induction l rule: tokenize.induct)
  case (1 l)
  let ?m = "skipSpace l"
  show ?case
  proof (cases "snd (peek ?m) = 0")
    case True
    then show ?thesis by (subst tokenize.simps) (simp add: eof_token_def)
  next
    case False
    let ?t = "fst (nextToken ?m)" and ?n = "snd (nextToken ?m)"
    have ne: "lx_rest ?m \<noteq> []" using False by simp
    have tk: "tokenize l = ?t # tokenize ?n" unfolding tokenize.simps[of l] Let_def using False by (simp only: if_False)
    have ih: "sorted_wrt (\<lambda>a b. p_Line (tok_Pos a) < p_Line (tok_Pos b)) (filter (\<lambda>t. tok_Kind t = Comment) (tokenize ?n))"
      using "1.IH"[OF refl False] .
    have "p_Line (tok_Pos ?t) < p_Line (tok_Pos u)" if c: "tok_Kind ?t = Comment" and u: "u \<in> set (tokenize ?n)" "tok_Kind u = Comment" for u
    proof -
      have v: "fst (next_tok (lx_rest ?m)) = view ?t" "snd (next_tok (lx_rest ?m)) = lx_rest ?n"
        using nextToken_view(1)[OF ne] by (metis fst_map_prod, metis snd_map_prod)
      have "fst (fst (next_tok (lx_rest ?m))) = Comment" using v(1) c by (simp add: view_def)
      then have r: "lx_rest ?n = dropWhile (\<lambda>c. ru c \<noteq> 0x0A) (lx_rest ?m)" using comment_rest v(2) by simp
      have "lx_rest ?n \<noteq> []"
      proof
        assume "lx_rest ?n = []"
        then have "lx_rest (skipSpace ?n) = []" by simp
        then have "tokenize ?n = [eof_token (lx_src (skipSpace ?n))]" by (subst tokenize.simps) simp
        then show False using u by (simp add: eof_token_def)
      qed
      then have "\<not> ru (hd (lx_rest ?n)) \<noteq> 0x0A" unfolding r by (rule hd_dropWhile)
      then have "hd (lx_rest ?n) = nl" by (simp only: ru_eq not_not)
      with \<open>lx_rest ?n \<noteq> []\<close> obtain s where s: "lx_rest ?n = nl # s" by (metis list.collapse)
      have "lx_line ?m \<le> lx_line ?n" by (rule lines.nextToken) simp
      moreover have "p_Line (tok_Pos ?t) = lx_line ?m" using nextToken_view(2)[OF ne] by (simp add: lexer_pos_def)
      moreover have "lx_line (skipSpace ?n) \<le> p_Line (tok_Pos u)" using tokenize_lines u by simp
      ultimately show ?thesis using skipSpace_nl[OF s] by linarith
    qed
    then show ?thesis using ih unfolding tk by auto
  qed
qed

section \<open>Format\<close>

lemma insert_comment_first:
  "sorted_wrt (\<lambda>a b. p_Line (tok_Pos a) < p_Line (tok_Pos b)) (c # cs) \<Longrightarrow> insert_comment c cs = c # cs"
  by (cases cs) (auto simp: pos_less_def)

lemma sorted_comments: "sorted_wrt (\<lambda>a b. p_Line (tok_Pos a) < p_Line (tok_Pos b)) cs \<Longrightarrow> foldr insert_comment cs [] = cs"
  by (induction cs) (simp_all add: insert_comment_first del: insert_comment.simps)

definition descs_of :: "Decl list \<Rightarrow> DescDecl list" where
  "descs_of ds = concat (map (\<lambda>d. case d of DZone z \<Rightarrow> concat (map lr_Descs (lz_Rooms z)) | _ \<Rightarrow> []) ds)"

lemma in_items: "RDesc d \<in> set its \<Longrightarrow> d \<in> set [d. RDesc d \<leftarrow> its]" "ZRoom r \<in> set zs \<Longrightarrow> r \<in> set [r. ZRoom r \<leftarrow> zs]"
  by (force split: RoomItem.splits, force split: ZoneItem.splits)

lemma decl_wraps:
  assumes "list_all wf_decl ds" "list_all (wraps_whole canon) (descs_of ds)"
  shows "list_all (decl_kept (layout_breaks canon)) ds"
  unfolding list_all_iff
proof
  fix x assume x: "x \<in> set ds"
  show "decl_kept (layout_breaks canon) x"
  proof (cases x)
    case (DZone z)
    have z: "wf_zone z" using assms(1) x DZone by (auto simp: list_all_iff wf_decl_def)
    have "zone_item_kept (layout_breaks canon) it" if it: "it \<in> set (lz_Items z)" for it
    proof (cases it)
      case (ZRoom r)
      have "wf_zone_item it" using z it by (simp add: wf_zone_def list_all_iff)
      then have r: "wf_room r" using ZRoom by (simp add: wf_zone_item_def)
      have rz: "r \<in> set (lz_Rooms z)" using z it ZRoom in_items(2)[of r "lz_Items z"] by (simp add: wf_zone_def)
      have "room_item_kept (layout_breaks canon) jt" if jt: "jt \<in> set (lr_Items r)" for jt
      proof (cases jt)
        case (RDesc d)
        have "wf_room_item jt" using r jt by (simp add: wf_room_def list_all_iff)
        then have d: "wf_desc d" using RDesc by (simp add: wf_room_item_def)
        have "d \<in> set (lr_Descs r)" using r jt RDesc in_items(1)[of d "lr_Items r"] by (simp add: wf_room_def)
        then have "d \<in> set (descs_of ds)" using x DZone rz by (force simp: descs_of_def)
        then have "wraps_whole canon d" using assms(2) by (simp add: list_all_iff)
        from kept_wraps[OF d this] show ?thesis using RDesc by (simp add: room_item_kept_def)
      qed (simp_all add: room_item_kept_def)
      then show ?thesis using ZRoom by (simp add: zone_item_kept_def room_kept_def list_all_iff)
    qed (simp_all add: zone_item_kept_def)
    then show ?thesis using DZone by (simp add: decl_kept_def zone_kept_def list_all_iff)
  qed (simp_all add: decl_kept_def)
qed

text \<open>A text whose tokens are a tree is read as that tree, with the comments it has.\<close>

lemma ParseFile_reads:
  assumes "list_all wf_decl ds" "list_all (decl_kept br) ds" "code (toks out) = concat (map (tree_decl br) ds)"
  shows "\<exists>f. ParseFile path out = (f, None) \<and> map erase (sf_Decls f) = map erase ds \<and> map view (sf_Comments f) = remarks (toks out)"
proof -
  define ts where "ts = tokenize (newLexer out)"
  have v: "map view ts = toks out @ [(EOF, '''')]" using tokenize_toks[of "newLexer out"] by (simp add: newLexer_def ts_def)
  then obtain us e where us: "ts = us @ [e]" "map view us = toks out" "tok_Kind e = EOF" by (auto simp: map_eq_append_conv)
  have f: "map view (filter (\<lambda>t. tok_Kind t \<noteq> Comment) us) = code (toks out)" "map view (filter (\<lambda>t. tok_Kind t = Comment) us) = remarks (toks out)"
    unfolding us(2)[symmetric] code_def remarks_def filter_map by (simp_all add: comp_def view_def)
  have "map view (filter (\<lambda>t. tok_Kind t \<noteq> Comment) us) = concat (map (tree_decl br) ds)" using f(1) assms(3) by simp
  from read_decls[OF assms(1,2) this us(3), of "[]"] obtain es where
    es: "declsLoop [] (filter (\<lambda>t. tok_Kind t \<noteq> Comment) us @ [e]) = (es, None)" "map erase es = map erase ds" by auto
  have "ParseFile path out = (\<lparr>sf_Path = path, sf_Src = out, sf_Decls = es, sf_Comments = filter (\<lambda>t. tok_Kind t = Comment) us\<rparr>, None)"
    using es(1) us(1,3) by (simp add: ParseFile_def parseFile_def ts_def[symmetric] Let_def)
  then show ?thesis using es(2) f(2) by simp
qed

lemma sound_newPrinter:
  assumes "ParseFile path src = (f, err)"
  shows "sound (newPrinter f)" "pending (newPrinter f) = sf_Comments f" "pr_sb (newPrinter f) = ''''" "\<not> pr_canon (newPrinter f)"
proof -
  have c: "sf_Comments f = filter (\<lambda>t. tok_Kind t = Comment) (tokenize (newLexer src))"
    using assms by (auto simp: ParseFile_def Let_def split: prod.splits)
  have s: "sorted_wrt (\<lambda>a b. p_Line (tok_Pos a) < p_Line (tok_Pos b)) (sf_Comments f)" unfolding c by (rule comments_ascend)
  then show p: "pending (newPrinter f) = sf_Comments f" by (simp add: pending_def newPrinter_def sorted_comments)
  show "pr_sb (newPrinter f) = ''''" "\<not> pr_canon (newPrinter f)" by (simp_all add: newPrinter_def)
  have v: "map view (tokenize (newLexer src)) = toks src @ [(EOF, '''')]" using tokenize_toks[of "newLexer src"] by (simp add: newLexer_def)
  have "comment_lit (tok_Text t)" if t: "t \<in> set (tokenize (newLexer src))" "tok_Kind t = Comment" for t
  proof -
    have "view t \<in> set (toks src @ [(EOF, '''')])" unfolding v[symmetric] using t(1) by simp
    then have "view t \<in> set (toks src)" using t(2) by (auto simp: view_def)
    then have "lexical (view t)" by (rule lexical_toks)
    then show ?thesis using t(2) by (simp add: lexical_def view_def)
  qed
  then show "sound (newPrinter f)" using s p c by (auto simp: sound_def)
qed

text \<open>
  C29. The formatter never changes meaning. What \<^verbatim>\<open>Format\<close> returns for a source is a source the parser
  accepts, and reads as the same declarations in the same order: the same names, references, values, Exits,
  senses, removals and descriptions, and the same escapes to be reported, whatever moved to another line;
  and it has the comments of the source, all of them, in order. The string literals of the source are to
  be closed; and a description is to be short enough to keep its lines, or to have single spaces between
  its words and no escape that is not the language's.
\<close>
theorem Format_keeps_meaning:
  assumes "closed_source src" "Format src = Inr out" "list_all (wraps_whole False) (descs_of (sf_Decls (fst (ParseFile '''' src))))"
  shows "\<exists>f g. ParseFile '''' src = (f, None) \<and> ParseFile path out = (g, None)
    \<and> map erase (sf_Decls g) = map erase (sf_Decls f) \<and> map tok_Text (sf_Comments g) = map tok_Text (sf_Comments f)"
proof -
  obtain f where f: "ParseFile '''' src = (f, None)" "out = print_file f (newPrinter f)"
    using assms(2) by (auto simp: Format_def split: prod.splits option.splits)
  have wf: "list_all wf_decl (sf_Decls f)" using ParseFile_wf[OF assms(1), of "''''"] f(1) by simp
  have kept: "list_all (decl_kept (layout_breaks False)) (sf_Decls f)" using decl_wraps[OF wf, of False] assms(3) f(1) by simp
  note p = sound_newPrinter[OF f(1)]
  have c: "pr_canon (newPrinter f) = False" using p(4) by simp
  have id: "map (\<lambda>d. tree_decl (layout_breaks False) (canon_decl False d)) (sf_Decls f) = map (tree_decl (layout_breaks False)) (sf_Decls f)"
    using wf by (intro map_cong) (auto simp: list_all_iff canon_decl_source)
  have "code (toks out) = concat (map (tree_decl (layout_breaks False)) (sf_Decls f)) \<and> remarks (toks out) = map view (sf_Comments f)"
    using toks_print_file[OF wf _ p(1,3)] kept p(2) unfolding c id f(2) by simp
  then have t: "code (toks out) = concat (map (tree_decl (layout_breaks False)) (sf_Decls f))" "remarks (toks out) = map view (sf_Comments f)" by simp_all
  from ParseFile_reads[OF wf kept t(1), of path] obtain g where
    g: "ParseFile path out = (g, None)" "map erase (sf_Decls g) = map erase (sf_Decls f)" "map view (sf_Comments g) = map view (sf_Comments f)" using t(2) by auto
  have "map tok_Text cs = map snd (map view cs)" for cs by (simp add: view_def)
  then have "map tok_Text (sf_Comments g) = map tok_Text (sf_Comments f)" unfolding \<open>\<And>cs. map tok_Text cs = map snd (map view cs)\<close> g(3) ..
  then show ?thesis using f(1) g by blast
qed


section \<open>A source of every level\<close>

lemma Split_code [code]:
  "Split c [] = [[]]"
  "Split c (x # xs) = (let r = Split c xs in if x = c then [] # r else (x # hd r) # tl r)"
  by (simp_all add: Let_def)

definition sample_source :: string where
  "sample_source = ''zone z '' @ quoted ''Z'' @ ''{room r '' @ quoted ''R'' @ '' { desc '' @ quoted ''d'' @ '' } } // c''"

theorem Format_keeps_meaning_witness:
  "\<exists>out f g. Format sample_source = Inr out \<and> ParseFile '''' sample_source = (f, None) \<and> ParseFile ''z.aw'' out = (g, None)
    \<and> map erase (sf_Decls g) = map erase (sf_Decls f) \<and> map tok_Text (sf_Comments g) = map tok_Text (sf_Comments f)"
proof -
  have c: "closed_source sample_source" by code_simp
  have w: "list_all (wraps_whole False) (descs_of (sf_Decls (fst (ParseFile '''' sample_source))))" by code_simp
  have "snd (ParseFile '''' sample_source) = None" by code_simp
  then obtain out where "Format sample_source = Inr out" by (cases "ParseFile '''' sample_source") (auto simp: Format_def)
  then show ?thesis using Format_keeps_meaning[OF c _ w, of out "''z.aw''"] by blast
qed

end
