(* ===== verification/Spec2Isabelle.thy ===== *)
theory Spec2Isabelle
  imports Retry Templates Boot_Recovery Fault_Replay Retention Boundary_Seq Lang_Meaning
begin

text \<open>
  \<^bold>\<open>Andara's World: the simulation server, its snapshots and its recovery, and the Content Language.\<close>

  The program is a multi-user World server written in Go. One process owns the World: it consumes the
  Commands of a replicated log in ticks, applies each to the Zone it names, emits Events, and appends a
  Tick Boundary Record with the State Hash of the World after every tick. From time to time it stores a
  snapshot of every Zone; all snapshots of one tick are a round. A process that boots selects the newest
  complete round, restores it under the hash its boundary recorded, and replays the boundaries after it.
  This development models that core, from the handlers of single Commands to the boot, and proves
  that what is running, what is stored and what is recovered are one World. The content of a World is
  written in a language of its own, whose scanner, parser and formatter are modelled too.

  \<^bold>\<open>Theories and the code they model.\<close>

  \<^item> \<open>Andara_Prelude\<close>: Go's strings, maps visited in key order, decimal rendering, \<^verbatim>\<open>Time.Sub\<close>.
  \<^item> \<open>Topology\<close> (\<^verbatim>\<open>server/sim/world.go\<close>, \<^verbatim>\<open>direction.go\<close>, \<^verbatim>\<open>component.go\<close>, \<^verbatim>\<open>partition.go\<close>), \<open>Sim_Rng\<close>
    (\<^verbatim>\<open>rng.go\<close>), \<open>Sim_State\<close> (\<^verbatim>\<open>entity.go\<close>, \<^verbatim>\<open>state.go\<close>), \<open>Sha256\<close> (\<^verbatim>\<open>crypto/sha256\<close>), \<open>Canonical\<close>
    (\<^verbatim>\<open>serialize.go\<close>), \<open>Events\<close> (\<^verbatim>\<open>event.go\<close>): the data of the World, the generator, what the State Hash
    covers, what is said and who may perceive it. The locale \<open>record_blocks\<close> is the interface of an
    injective encoding of a sequence of records; the serializations interpret it.
  \<^item> \<open>Commands\<close> (\<^verbatim>\<open>verbs.go\<close>, \<^verbatim>\<open>character.go\<close>, \<^verbatim>\<open>linkdead.go\<close>, \<^verbatim>\<open>purge.go\<close>, and the messages of
    \<^verbatim>\<open>log/v1/log.proto\<close>): every handler of the verb table as a function from the state of the tick to
    done, rejected or panicked. \<open>Handler_Contract\<close> states what the tick relies on as the locale
    \<open>handler\<close>, interpreted for every verb; \<open>Handler_Effects\<close> and \<open>Handler_Properties\<close> prove what a verb may do.
  \<^item> \<open>Engine\<close> (\<^verbatim>\<open>engine.go\<close>, \<^verbatim>\<open>content.go\<close>): a tick, \<^verbatim>\<open>Step\<close>, with its validation, dispatch, content
    swaps, faults and offsets, and \<^verbatim>\<open>Replay\<close>. \<open>Tick_Invariants\<close> gives the locale by which a property of
    the handlers becomes one of ticks; \<open>Engine_Properties\<close> interprets it. \<open>Determinism\<close>: what a tick
    depends on. \<open>Sample_Run\<close>: the states the witnesses evaluate.
  \<^item> \<open>Handoff_Protocol\<close> is an abstract protocol for moving one body between Zones over messages that are
    delayed, repeated and reordered; \<open>Handoff\<close> proves that the handlers refine it; \<open>Retry\<close>
    (\<^verbatim>\<open>handoff.go\<close>) adds the retry pass and states the promises for whole runs.
  \<^item> \<open>Build\<close> (\<^verbatim>\<open>build.go\<close>, \<^verbatim>\<open>errors.go\<close>) and \<open>Templates\<close> (\<^verbatim>\<open>template.go\<close>): loading content.
  \<^item> \<open>Snapshot_Key\<close>, \<open>Snapshot\<close> (\<^verbatim>\<open>snapshot.go\<close>, \<^verbatim>\<open>snapshot_codec.go\<close>), \<open>Storable\<close>, \<open>Restore\<close>
    (\<^verbatim>\<open>restore.go\<close>), \<open>Rounds\<close> (\<^verbatim>\<open>server/store/migrate.go\<close>, \<^verbatim>\<open>rounds.go\<close>), \<open>Round_Tags\<close> (\<^verbatim>\<open>tags.go\<close>),
    \<open>Retention\<close> (\<^verbatim>\<open>retention.go\<close>): snapshots, the rounds they form, and what a sweep may delete.
  \<^item> \<open>Recovery\<close> and \<open>Boot_Recovery\<close> (\<^verbatim>\<open>server/recovery/recover.go\<close>, \<^verbatim>\<open>errors.go\<close>): from the store and
    the log back to the running World. \<open>Fault_Replay\<close>: a tick whose replay fails.
  \<^item> \<open>Boundary_Seq\<close> (\<^verbatim>\<open>server/tickloop/boundary_seq.go\<close>): the order in which boundaries reach the broker.
  \<^item> The Content Language (\<^verbatim>\<open>content/lang\<close>): \<open>Lang_Lexer\<close> (\<^verbatim>\<open>token.go\<close>, \<^verbatim>\<open>lexer.go\<close>) with the grammar's
    terminals as its reference, \<open>Lang_Words\<close>: what texts scan as, \<open>Lang_Parser\<close> (\<^verbatim>\<open>ast.go\<close>, \<^verbatim>\<open>parser.go\<close>),
    \<open>Lang_Answers\<close>: the parser always answers, \<open>Lang_Tree\<close> and \<open>Lang_Read\<close>: the tokens of a tree are read
    as that tree, with the locale \<open>item_loop\<close> for the blocks of Rooms, Zones and templates, \<open>Lang_Wf\<close>: what
    the parser returns is well-formed. \<open>Lang_Format\<close> (\<^verbatim>\<open>format.go\<close>, the canonical order of \<^verbatim>\<open>decompile.go\<close>) is
    the printer; \<open>Lang_Print\<close>, \<open>Lang_Layout\<close>, \<open>Lang_Blocks\<close> and \<open>Lang_Wrap\<close> say which tokens each of its methods
    writes and which comments it takes; \<open>Lang_Meaning\<close> puts them together.

  \<^bold>\<open>What is proved.\<close>

  \<^item> Handoffs: in every reachable state an Entity has at most one body, none is lost, an Arrive is
    applied once however often it is delivered, and every handoff can complete.
  \<^item> Ticks: handlers touch their own Zone, number Events without gap, reject without effect and never
    panic in a well-formed World; a tick is a function of the state and the records.
  \<^item> Hashes: the serializations are injective, so equal hashes mean equal states or a SHA-256
    collision, which the statements exhibit.
  \<^item> Content: a World that loads is well-formed and is what the definitions declare, in any file order.
  \<^item> Storage: a stored round is found and restores to the state stored; a chosen round is one cut;
    a sweep never deletes what recovery needs.
  \<^item> Recovery: booting on the store and log of a run ends, in the state of the run.
  \<^item> Boundaries: what the producer is handed is gapless, a loss is final, and without one all drain.
  \<^item> Content Language: the scanner loses nothing of a source, and what the formatter prints reads as what
    it was printed from, comments included.

  \<^bold>\<open>Modelling choices and bounds.\<close> Ticks, Event numbers and handoff sequences are 64-bit words; theorems
  that need them not to wrap say so. \<^verbatim>\<open>Intn\<close>, the search for a round's boundary and the replay loop may run
  forever on some inputs: they are partial functions into \<open>option\<close>, and it is proved when they return. The
  store, the log and the boundary reader are parameters: answers to the reads the code makes, with what
  the code relies on as named hypotheses (\<open>serves\<close>, \<open>reads\<close>), shown satisfiable by the witnesses. A handler's panic
  is a value. The critical sections of the boundary sequencer are the steps of a relation, in any
  interleaving.

  \<^bold>\<open>Not modelled.\<close> The tick loop's goroutines and timers and the Kafka clients (\<^verbatim>\<open>server/tickloop\<close> but for
  the sequencer and the reader's records, \<^verbatim>\<open>server/kafkaclient\<close>, \<^verbatim>\<open>server/recordlog\<close>): scheduling and
  network I/O. In the Content Language, resolving a tree to the definitions \<open>Build\<close> takes, the encoder, the
  decompiler's way back to a tree, source maps and caches, and the wording of messages. The object stores (\<^verbatim>\<open>store/fs.go\<close>, \<^verbatim>\<open>s3.go\<close>): file and network I/O behind the interface the
  store model answers. Content distribution (\<^verbatim>\<open>server/content\<close>), ingress and gateway, egress and projector,
  roster, authentication, configuration and boot wiring, and the administration client: services around
  the core, mostly I/O, RPC and configuration. Generated protobuf code.
\<close>

end
